(* ===== verification/Prelude.thy ===== *)
theory Prelude
  imports Main "HOL-Library.Finite_Map"
begin

text \<open>
  Shared material of the development: how a Rust computation that can panic is written in HOL,
  checked machine arithmetic, folds that stop at the first fault, insertion-ordered hash sets,
  small lemmas on finite maps, and the generic interface of a step system with an invariant.

  Rust integers are naturals here. Additions and subtractions that the source performs are
  the checked operations below: leaving the range of the type is the fault \<open>Overflow\<close>, as in a
  build with overflow checks. \<open>debug_assert!\<close> is executed too. Both are the semantics of the
  development profile; a release build takes the same steps until the first such fault.
\<close>

section \<open>Faults and results\<close>

text \<open>
  \<open>Panic\<close> is an explicit \<open>panic!\<close>, \<open>unwrap\<close>, \<open>expect\<close>, \<open>unreachable!\<close>, a failed assertion or an
  index that does not exist; \<open>OutOfFuel\<close> is never a behaviour of the code, it marks a loop of the
  model that was given too little fuel, and the development proves where it cannot occur.
\<close>

datatype fault = Panic string | Overflow | OutOfFuel

type_synonym 'a res = "fault + 'a"

definition rbind :: "'a res \<Rightarrow> ('a \<Rightarrow> 'b res) \<Rightarrow> 'b res" where
  "rbind r f = (case r of Inl e \<Rightarrow> Inl e | Inr x \<Rightarrow> f x)"

definition expect :: "string \<Rightarrow> 'a option \<Rightarrow> 'a res" where
  "expect msg x = (case x of None \<Rightarrow> Inl (Panic msg) | Some v \<Rightarrow> Inr v)"

definition debug_assert :: "string \<Rightarrow> bool \<Rightarrow> 'a \<Rightarrow> 'a res" where
  "debug_assert msg b x = (if b then Inr x else Inl (Panic msg))"

lemma rbind_simps [simp]:
  "rbind (Inl e) f = Inl e"
  "rbind (Inr x) f = f x"
  by (simp_all add: rbind_def)

lemma rbind_Inr_iff: "rbind r f = Inr y \<longleftrightarrow> (\<exists>x. r = Inr x \<and> f x = Inr y)"
  by (cases r) simp_all

lemma rbind_Inl_iff: "rbind r f = Inl e \<longleftrightarrow> r = Inl e \<or> (\<exists>x. r = Inr x \<and> f x = Inl e)"
  by (cases r) simp_all

lemma rbind_InrE [elim!]:
  assumes "rbind r f = Inr y"
  obtains x where "r = Inr x" and "f x = Inr y"
  using assms by (auto simp: rbind_Inr_iff)

lemma rbind_cong [fundef_cong]:
  "r = r' \<Longrightarrow> (\<And>x. r' = Inr x \<Longrightarrow> f x = g x) \<Longrightarrow> rbind r f = rbind r' g"
  by (cases r') simp_all

lemma expect_simps [simp]:
  "expect msg (Some v) = Inr v"
  "expect msg None = Inl (Panic msg)"
  by (simp_all add: expect_def)

lemma expect_Inr_iff [simp]: "expect msg x = Inr v \<longleftrightarrow> x = Some v"
  by (cases x) (auto simp: expect_def)

lemma debug_assert_Inr_iff [simp]: "debug_assert msg b x = Inr y \<longleftrightarrow> b \<and> y = x"
  by (auto simp: debug_assert_def)

lemma debug_assert_True [simp]: "b \<Longrightarrow> debug_assert msg b x = Inr x"
  by (simp add: debug_assert_def)

section \<open>Checked machine arithmetic\<close>

text \<open>\<open>usize\<close> is 64 bits wide on the targets of the repository.\<close>

definition add_u64 :: "nat \<Rightarrow> nat \<Rightarrow> nat res" where
  "add_u64 a b = (if a + b < 2 ^ 64 then Inr (a + b) else Inl Overflow)"

definition sub_u64 :: "nat \<Rightarrow> nat \<Rightarrow> nat res" where
  "sub_u64 a b = (if b \<le> a then Inr (a - b) else Inl Overflow)"

definition add_u16 :: "nat \<Rightarrow> nat \<Rightarrow> nat res" where
  "add_u16 a b = (if a + b < 2 ^ 16 then Inr (a + b) else Inl Overflow)"

definition mul_u64 :: "nat \<Rightarrow> nat \<Rightarrow> nat res" where
  "mul_u64 a b = (if a * b < 2 ^ 64 then Inr (a * b) else Inl Overflow)"

definition saturating_add_u64 :: "nat \<Rightarrow> nat \<Rightarrow> nat" where
  "saturating_add_u64 a b = min (a + b) (2 ^ 64 - 1)"

lemma add_u64_Inr_iff: "add_u64 a b = Inr c \<longleftrightarrow> c = a + b \<and> a + b < 2 ^ 64"
  by (auto simp: add_u64_def)

lemma add_u64_Inl_iff: "add_u64 a b = Inl e \<longleftrightarrow> e = Overflow \<and> 2 ^ 64 \<le> a + b"
  by (auto simp: add_u64_def)

lemma sub_u64_Inr_iff: "sub_u64 a b = Inr c \<longleftrightarrow> b \<le> a \<and> c = a - b"
  by (auto simp: sub_u64_def)

lemma add_u16_Inr_iff: "add_u16 a b = Inr c \<longleftrightarrow> c = a + b \<and> a + b < 2 ^ 16"
  by (auto simp: add_u16_def)

lemma mul_u64_Inr_iff: "mul_u64 a b = Inr c \<longleftrightarrow> c = a * b \<and> a * b < 2 ^ 64"
  by (auto simp: mul_u64_def)

lemma add_u64_ok: "a + b < 2 ^ 64 \<Longrightarrow> add_u64 a b = Inr (a + b)"
  by (simp add: add_u64_def)

lemma sub_u64_ok: "b \<le> a \<Longrightarrow> sub_u64 a b = Inr (a - b)"
  by (simp add: sub_u64_def)

lemma add_u16_ok: "a + b < 2 ^ 16 \<Longrightarrow> add_u16 a b = Inr (a + b)"
  by (simp add: add_u16_def)

lemmas checked_Inr_iff = add_u64_Inr_iff sub_u64_Inr_iff add_u16_Inr_iff mul_u64_Inr_iff

section \<open>Loops over a collection that stop at the first fault\<close>

fun rfold :: "('x \<Rightarrow> 's \<Rightarrow> 's res) \<Rightarrow> 'x list \<Rightarrow> 's \<Rightarrow> 's res" where
  "rfold f [] s = Inr s"
| "rfold f (x # xs) s = rbind (f x s) (rfold f xs)"

lemma rfold_append: "rfold f (xs @ ys) s = rbind (rfold f xs s) (rfold f ys)"
  by (induction xs arbitrary: s) (auto simp: rbind_def split: sum.splits)

text \<open>The loop rule: an invariant of the body is an invariant of the loop.\<close>

lemma rfold_inv:
  assumes "rfold f xs s = Inr s'" and "P s"
    and "\<And>x t t'. x \<in> set xs \<Longrightarrow> P t \<Longrightarrow> f x t = Inr t' \<Longrightarrow> P t'"
  shows "P s'"
  using assms by (induction xs arbitrary: s) auto

text \<open>A frame rule for loops: what no iteration changes, the loop does not change.\<close>

lemma rfold_frame:
  assumes "rfold f xs s = Inr s'"
    and "\<And>x t t'. x \<in> set xs \<Longrightarrow> f x t = Inr t' \<Longrightarrow> g t' = g t"
  shows "g s' = g s"
  using rfold_inv [OF assms(1), where P = "\<lambda>t. g t = g s"] assms(2) by simp

text \<open>A loop whose body cannot fault under an invariant that it keeps does not fault.\<close>

lemma rfold_total:
  assumes "P s" and "\<And>x t. x \<in> set xs \<Longrightarrow> P t \<Longrightarrow> \<exists>t'. f x t = Inr t' \<and> P t'"
  shows "\<exists>s'. rfold f xs s = Inr s' \<and> P s'"
  using assms
proof (induction xs arbitrary: s)
  case Nil
  then show ?case by simp
next
  case (Cons x xs)
  then obtain t where "f x s = Inr t" and "P t" by fastforce
  with Cons.IH [of t] Cons.prems(2) show ?case by auto
qed

text \<open>
  A computation that keeps an invariant or ends in one of the given faults, with the rules for
  sequencing and for loops.
\<close>

definition rkeeps :: "('a \<Rightarrow> bool) \<Rightarrow> fault set \<Rightarrow> 'a res \<Rightarrow> bool" where
  "rkeeps P F r \<longleftrightarrow> (case r of Inr x \<Rightarrow> P x | Inl f \<Rightarrow> f \<in> F)"

lemma rkeeps_simps [simp]:
  "rkeeps P F (Inr x) \<longleftrightarrow> P x"
  "rkeeps P F (Inl f) \<longleftrightarrow> f \<in> F"
  by (simp_all add: rkeeps_def)

lemma rkeeps_any [simp]: "rkeeps (\<lambda>_. True) UNIV r"
  by (cases r) simp_all

lemma rkeeps_bind: "rkeeps P F r \<Longrightarrow> (\<And>x. r = Inr x \<Longrightarrow> P x \<Longrightarrow> rkeeps Q F (g x)) \<Longrightarrow> rkeeps Q F (rbind r g)"
  by (cases r) simp_all

lemma rkeeps_rfold:
  assumes "P s" and "\<And>x c. x \<in> set xs \<Longrightarrow> P c \<Longrightarrow> rkeeps P F (f x c)"
  shows "rkeeps P F (rfold f xs s)"
  using assms
proof (induction xs arbitrary: s)
  case (Cons x xs)
  then show ?case by (auto intro!: rkeeps_bind)
qed simp

section \<open>Hash sets that the code iterates over\<close>

text \<open>
  A hash set is a duplicate-free list: membership and removal do not depend on the order, and
  iteration visits the elements in insertion order (Rust leaves the order open; where it could
  matter the development proves that it does not).
\<close>

definition hs_insert :: "'a \<Rightarrow> 'a list \<Rightarrow> 'a list" where
  "hs_insert x xs = (if x \<in> set xs then xs else xs @ [x])"

definition hs_remove :: "'a \<Rightarrow> 'a list \<Rightarrow> 'a list" where
  "hs_remove x xs = filter (\<lambda>y. y \<noteq> x) xs"

lemma set_hs_insert [simp]: "set (hs_insert x xs) = insert x (set xs)"
  by (auto simp: hs_insert_def)

lemma set_hs_remove [simp]: "set (hs_remove x xs) = set xs - {x}"
  by (auto simp: hs_remove_def)

lemma distinct_hs_insert [simp]: "distinct (hs_insert x xs) \<longleftrightarrow> distinct xs"
  by (auto simp: hs_insert_def)

lemma distinct_hs_remove [simp]: "distinct xs \<Longrightarrow> distinct (hs_remove x xs)"
  by (simp add: hs_remove_def)

section \<open>Finite maps\<close>

text \<open>\<open>HashMap::contains_key\<close>, and the entry-or-default read.\<close>

definition fmmem :: "'k \<Rightarrow> ('k, 'v) fmap \<Rightarrow> bool" where
  "fmmem k m \<longleftrightarrow> fmlookup m k \<noteq> None"

definition fmget_or :: "'v \<Rightarrow> ('k, 'v) fmap \<Rightarrow> 'k \<Rightarrow> 'v" where
  "fmget_or d m k = (case fmlookup m k of None \<Rightarrow> d | Some v \<Rightarrow> v)"

lemma fmmem_simps [simp]:
  "\<not> fmmem k fmempty"
  "fmmem k (fmupd k' v m) \<longleftrightarrow> k' = k \<or> fmmem k m"
  "fmmem k (fmdrop k' m) \<longleftrightarrow> k' \<noteq> k \<and> fmmem k m"
  by (auto simp: fmmem_def)

lemma fmmem_Some: "fmlookup m k = Some v \<Longrightarrow> fmmem k m"
  by (simp add: fmmem_def)

lemma fmmem_iff: "fmmem k m \<longleftrightarrow> (\<exists>v. fmlookup m k = Some v)"
  by (auto simp: fmmem_def)

lemma fmget_or_simps [simp]:
  "fmget_or d fmempty k = d"
  "fmget_or d (fmupd k' v m) k = (if k' = k then v else fmget_or d m k)"
  "fmget_or d (fmdrop k' m) k = (if k' = k then d else fmget_or d m k)"
  by (simp_all add: fmget_or_def)

lemma fcard_fmdrop_Suc: "fmlookup m k = Some v \<Longrightarrow> fcard (fmdom m) = Suc (fcard (fmdom (fmdrop k m)))"
  by (metis fcard_Suc_fminus1 fmdomI fmdom_drop)

lemma fcard_fmdrop_less: "fmlookup m k = Some v \<Longrightarrow> fcard (fmdom (fmdrop k m)) < fcard (fmdom m)"
  by (metis fcard_fmdrop_Suc lessI)

section \<open>Step systems\<close>

text \<open>
  The interface of a component that moves by steps: an initial-state predicate, a step relation
  and an invariant. Everything reachable satisfies the invariant.
\<close>

locale step_system =
  fixes init :: "'s \<Rightarrow> bool"
    and step :: "'s \<Rightarrow> 's \<Rightarrow> bool"
    and inv :: "'s \<Rightarrow> bool"
  assumes inv_init: "init s \<Longrightarrow> inv s"
    and inv_step: "inv s \<Longrightarrow> step s s' \<Longrightarrow> inv s'"
begin

lemma inv_steps: "step\<^sup>*\<^sup>* s s' \<Longrightarrow> inv s \<Longrightarrow> inv s'"
  by (induction rule: rtranclp_induct) (auto intro: inv_step)

lemma inv_reachable: "init s \<Longrightarrow> step\<^sup>*\<^sup>* s s' \<Longrightarrow> inv s'"
  by (blast intro: inv_init inv_steps)

end

end
