(* ===== verification/Wire_Types.thy ===== *)
theory Wire_Types
  imports Prelude "HOL-Library.Word"
begin

text \<open>
  The data that travels between replicas, clients and components (crate \<open>types\<close>, and the message
  and batch types of crate \<open>mempool\<close>): transactions, batches with their cached hashes, blocks,
  certificates, votes, the proposals and protocol messages of the four protocols, payloads and
  the configuration of a node.

  Code that lives outside the repository is the record \<open>ext\<close>, an argument of every definition
  that calls it: SHA-256 and signatures (libcrypto), bincode, the rocksdb store (libstorage), the
  reliable sender (libnet). A hash is the byte string \<open>Hash::as_ref\<close> gives. The typed hashes
  \<open>Hash<Block>\<close>, \<open>Hash<Tx>\<close> and \<open>BatchHash<Tx>\<close> have the same bytes and the same HOL type.
\<close>

section \<open>Scalars\<close>

type_synonym bytes = "8 word list"
type_synonym hash = bytes
type_synonym replica = nat
type_synonym client_id = nat
type_synonym height = nat
type_synonym view = nat
type_synonym round = nat
type_synonym socket_addr = string
type_synonym keypair = bytes
type_synonym public_key = bytes
type_synonym handler = nat

text \<open>\<open>x.to_be_bytes()\<close> of a \<open>u64\<close>, and \<open>usize::from_be_bytes\<close>.\<close>

definition to_be_bytes :: "nat \<Rightarrow> bytes" where
  "to_be_bytes x = map (\<lambda>i. word_of_nat (x div 256 ^ (7 - i))) [0..<8]"

definition from_be_bytes :: "bytes \<Rightarrow> nat" where
  "from_be_bytes bs = foldl (\<lambda>acc b. 256 * acc + unat b) 0 bs"

section \<open>Transactions\<close>

record transaction =
  tx_client_id :: client_id
  tx_nonce :: nat
  tx_data :: bytes
  tx_request :: bytes

definition new_dummy_tx_keyed :: "client_id \<Rightarrow> nat \<Rightarrow> nat \<Rightarrow> transaction" where
  "new_dummy_tx_keyed cid n payload =
     \<lparr>tx_client_id = cid, tx_nonce = n, tx_data = to_be_bytes n, tx_request = replicate payload 1\<rparr>"

definition new_dummy_tx :: "nat \<Rightarrow> nat \<Rightarrow> transaction" where
  "new_dummy_tx i payload = new_dummy_tx_keyed 0 i payload"

section \<open>Batches\<close>

text \<open>The two \<open>OnceLock\<close> cells of a \<open>CachedBatch\<close> are optional values.\<close>

record cached_batch =
  cb_payload :: "transaction list"
  cb_hash :: "hash option"
  cb_tx_hashes :: "hash list option"

section \<open>Certificates, votes, blocks\<close>

record vote =
  v_origin :: replica
  v_auth :: bytes

datatype cert_type =
    BlameCert replica view
  | VoteCert view hash
  | QuitViewCert view hash
  | DEFAULT

record certificate =
  cert_msg :: cert_type
  cert_votes :: "vote list"

definition empty_cert :: certificate where
  "empty_cert = \<lparr>cert_msg = DEFAULT, cert_votes = []\<rparr>"

record header =
  hdr_prev :: hash
  hdr_extra :: bytes
  hdr_author :: replica
  hdr_height :: height
  hdr_blame_certificates :: "certificate list"

record body =
  body_batch_hash :: hash

record block =
  blk_header :: header
  blk_body :: body
  blk_hash :: hash

section \<open>Proposals and protocol messages\<close>

record apollo_propose =
  ap_sig :: vote
  ap_round :: round
  ap_block_hash :: hash

datatype apollo_msg =
    ApNewProposal apollo_propose block cached_batch
  | ApRelay replica apollo_propose
  | ApRequest replica nat hash
  | ApResponse replica nat apollo_propose block cached_batch
  | ApBlame vote

record artemis_block =
  ab_blk :: block
  ab_sig :: vote

record ucr_vote =
  uv_hash :: hash
  uv_round :: round
  uv_view :: view
  uv_vote :: vote

datatype artemis_msg =
    ArNewBlock artemis_block cached_batch
  | ArUCRVote ucr_vote
  | ArRelay replica ucr_vote
  | ArBlame vote
  | ArRequest replica nat hash
  | ArResponse replica nat artemis_block cached_batch
  | ArInvalid

text \<open>Sync HotStuff; \<open>optsync/mod.rs\<close> re-exports the same types for Opt Sync.\<close>

record sync_propose =
  sp_proof :: bytes
  sp_cert :: certificate
  sp_view :: view
  sp_block_hash :: hash

record payload =
  pl_response :: bytes

datatype sync_msg =
    SyNewProposal sync_propose block cached_batch
  | SyVoteMsg certificate sync_propose
  | SyEquivcationBlameMsg block block certificate
  | SyNoProgressBlameMsg certificate
  | SyChangeView view certificate
  | SyQuitViewMsg view certificate
  | SyStatusMsg certificate

datatype sync_client_msg =
    SyNewBlock block "hash list" payload
  | SyClientRequest hash
  | SyClientResponse hash block

section \<open>Messages between the mempool, consensus and clients\<close>

datatype batcher_msg =
    NewRound replica round
  | Proposed cached_batch round
  | Committed cached_batch round
  | Rollback "round list"

datatype client_msg =
    NewTx transaction socket_addr
  | NewBatch "transaction list" socket_addr
  | Confirmation hash

section \<open>Code outside the repository\<close>

record ext =
  EMPTY_HASH :: hash
  hash_block :: "header \<Rightarrow> body \<Rightarrow> hash"
  hash_tx :: "transaction \<Rightarrow> hash"
  hash_ucr :: "hash \<Rightarrow> round \<Rightarrow> view \<Rightarrow> hash"
  do_hash :: "bytes \<Rightarrow> hash"
  sk_sign :: "keypair \<Rightarrow> bytes \<Rightarrow> bytes option"
  pk_verify :: "public_key \<Rightarrow> bytes \<Rightarrow> bytes \<Rightarrow> bool"
  ser_cert_type :: "cert_type \<Rightarrow> bytes"
  ser_batch :: "transaction list \<Rightarrow> bytes"
  de_batch :: "bytes \<Rightarrow> transaction list option"
  ser_client_msg :: "client_msg \<Rightarrow> bytes option"
  tx_serialized_size :: "transaction \<Rightarrow> nat option"
  store_write :: "bytes \<Rightarrow> bytes \<Rightarrow> (bytes, bytes) fmap \<Rightarrow> (bytes, bytes) fmap"
  store_read :: "bytes \<Rightarrow> (bytes, bytes) fmap \<Rightarrow> bytes option"
  net_send :: "nat \<Rightarrow> replica \<Rightarrow> handler option"
  net_in_flight :: "nat \<Rightarrow> handler \<Rightarrow> bool"
  client_send :: "nat \<Rightarrow> client_id \<Rightarrow> handler option"
  client_in_flight :: "nat \<Rightarrow> handler \<Rightarrow> bool"
  decode_keypair :: "bytes \<Rightarrow> keypair option"
  decode_public_key :: "bytes \<Rightarrow> public_key option"

text \<open>
  \<open>hash_block h b\<close> is \<open>Hash::<Block>::ser_and_hash\<close> of a block with header \<open>h\<close> and body \<open>b\<close> (the
  cached hash is skipped by serde), \<open>do_hash\<close> the hash of a byte string, \<open>ser_batch\<close> and \<open>de_batch\<close>
  bincode on a vector of transactions, \<open>hash_ucr\<close> the digest of \<open>InternalUCRVote\<close>. \<open>net_send i r\<close> is what the reliable sender returns
  for the \<open>i\<close>-th message of this node, addressed to \<open>r\<close>; \<open>net_in_flight i h\<close> says whether handler
  \<open>h\<close> is still unresolved after \<open>i\<close> messages; \<open>client_send\<close> and \<open>client_in_flight\<close> are the same of
  the sender towards the clients. What theorems rely on is stated as one of the
  hypotheses below.
\<close>

definition signs :: "ext \<Rightarrow> keypair \<Rightarrow> bool" where
  "signs E sk \<longleftrightarrow> (\<forall>m. sk_sign E sk m \<noteq> None)"

definition sign_verifies :: "ext \<Rightarrow> keypair \<Rightarrow> public_key \<Rightarrow> bool" where
  "sign_verifies E sk pk \<longleftrightarrow>
     (\<forall>m. \<exists>s. sk_sign E sk m = Some s \<and> pk_verify E pk m s)"

definition collision_free :: "ext \<Rightarrow> bool" where
  "collision_free E \<longleftrightarrow>
     (\<forall>h b h' b'. hash_block E h b = hash_block E h' b' \<longrightarrow> h = h' \<and> b = b') \<and>
     (\<forall>h b. hash_block E h b \<noteq> EMPTY_HASH E)"

text \<open>No block can name, directly or through others, its own hash as its ancestor's.\<close>

definition hash_acyclic :: "ext \<Rightarrow> bool" where
  "hash_acyclic E \<longleftrightarrow> (\<exists>rank :: hash \<Rightarrow> nat. \<forall>h b. rank (hdr_prev h) < rank (hash_block E h b))"

definition batch_codec_ok :: "ext \<Rightarrow> bool" where
  "batch_codec_ok E \<longleftrightarrow> (\<forall>txs. de_batch E (ser_batch E txs) = Some txs)"

definition store_ok :: "ext \<Rightarrow> bool" where
  "store_ok E \<longleftrightarrow>
     (\<forall>k v m k'. store_read E k' (store_write E k v m) = (if k' = k then Some v else store_read E k' m))"

section \<open>Configuration of a node\<close>

datatype algorithm = ED25519 | SECP256K1 | RSA

record node_config =
  nc_net_map :: "(replica, string) fmap"
  nc_mempool_net_map :: "(replica, string) fmap"
  nc_client_net_map :: "(client_id, string) fmap"
  nc_delta :: nat
  nc_id :: replica
  nc_num_nodes :: nat
  nc_num_faults :: nat
  nc_block_size :: nat
  nc_client_port :: nat
  nc_mempool_port :: nat
  nc_payload :: nat
  nc_bench_emit_window_secs :: nat
  nc_bench_metrics_node :: replica
  nc_crypto_alg :: algorithm
  nc_pk_map :: "(replica, bytes) fmap"
  nc_secret_key_bytes :: bytes
  nc_my_cert_path :: string
  nc_my_cert_key_path :: string
  nc_root_cert_path :: string

section \<open>Blocks\<close>

definition Header_new :: "ext \<Rightarrow> header" where
  "Header_new E =
     \<lparr>hdr_prev = EMPTY_HASH E, hdr_extra = [], hdr_author = 0, hdr_height = 0,
      hdr_blame_certificates = []\<rparr>"

definition with_batch :: "ext \<Rightarrow> hash \<Rightarrow> block" where
  "with_batch E bh =
     \<lparr>blk_header = Header_new E, blk_body = \<lparr>body_batch_hash = bh\<rparr>, blk_hash = EMPTY_HASH E\<rparr>"

definition compute_hash :: "ext \<Rightarrow> block \<Rightarrow> hash" where
  "compute_hash E b = hash_block E (blk_header b) (blk_body b)"

definition block_init :: "ext \<Rightarrow> block \<Rightarrow> block" where
  "block_init E b = b\<lparr>blk_hash := compute_hash E b\<rparr>"

definition GENESIS_BLOCK :: "ext \<Rightarrow> block" where
  "GENESIS_BLOCK E =
     \<lparr>blk_header = \<lparr>hdr_prev = EMPTY_HASH E, hdr_extra = [], hdr_author = 0, hdr_height = 0,
                    hdr_blame_certificates = []\<rparr>,
      blk_body = \<lparr>body_batch_hash = EMPTY_HASH E\<rparr>,
      blk_hash = EMPTY_HASH E\<rparr>"

text \<open>
  The wire carries header and body; \<open>Deserialize\<close> rebuilds the block with an empty hash and then
  recomputes it.
\<close>

definition block_serialize :: "block \<Rightarrow> header \<times> body" where
  "block_serialize b = (blk_header b, blk_body b)"

definition block_deserialize :: "ext \<Rightarrow> header \<times> body \<Rightarrow> block" where
  "block_deserialize E w =
     (let b = \<lparr>blk_header = fst w, blk_body = snd w, blk_hash = EMPTY_HASH E\<rparr>
      in b\<lparr>blk_hash := hash_block E (blk_header b) (blk_body b)\<rparr>)"

definition block_get_hash :: "block \<Rightarrow> hash" where
  "block_get_hash b = blk_hash b"

definition block_get_height :: "block \<Rightarrow> height" where
  "block_get_height b = hdr_height (blk_header b)"

definition block_get_author :: "block \<Rightarrow> replica" where
  "block_get_author b = hdr_author (blk_header b)"

text \<open>A block whose cached hash is the hash of its content.\<close>

definition block_sealed :: "ext \<Rightarrow> block \<Rightarrow> bool" where
  "block_sealed E b \<longleftrightarrow> blk_hash b = hash_block E (blk_header b) (blk_body b)"

abbreviation blk_prev :: "block \<Rightarrow> hash" where
  "blk_prev b \<equiv> hdr_prev (blk_header b)"

abbreviation blk_height :: "block \<Rightarrow> height" where
  "blk_height b \<equiv> hdr_height (blk_header b)"

abbreviation blk_author :: "block \<Rightarrow> replica" where
  "blk_author b \<equiv> hdr_author (blk_header b)"

abbreviation blk_batch_hash :: "block \<Rightarrow> hash" where
  "blk_batch_hash b \<equiv> body_batch_hash (blk_body b)"

named_theorems block_defs

lemmas [block_defs] =
  Header_new_def with_batch_def compute_hash_def block_init_def GENESIS_BLOCK_def
  block_get_hash_def block_get_height_def block_get_author_def

lemma block_sealed_init [simp]: "block_sealed E (block_init E b)"
  by (simp add: block_sealed_def block_init_def compute_hash_def)

lemma block_sealed_deserialize [simp]: "block_sealed E (block_deserialize E w)"
  by (simp add: block_sealed_def block_deserialize_def)

lemma sealed_collision:
  assumes "collision_free E" and "block_sealed E a" and "block_sealed E b" and "blk_hash a = blk_hash b"
  shows "a = b"
  using assms by (cases a, cases b) (auto simp: collision_free_def block_sealed_def)

lemma sealed_not_empty: "collision_free E \<Longrightarrow> block_sealed E b \<Longrightarrow> blk_hash b \<noteq> EMPTY_HASH E"
  by (auto simp: collision_free_def block_sealed_def)

section \<open>Payloads\<close>

definition payload_empty :: payload where
  "payload_empty = \<lparr>pl_response = []\<rparr>"

text \<open>\<open>i as u8\<close> keeps the low eight bits.\<close>

definition with_payload :: "nat \<Rightarrow> payload" where
  "with_payload sz =
     fold (\<lambda>i p. p\<lparr>pl_response := pl_response p @ [word_of_nat i]\<rparr>) [0..<sz] payload_empty"

lemma with_payload_fold:
  "fold (\<lambda>i p. p\<lparr>pl_response := pl_response p @ [word_of_nat i]\<rparr>) is p
     = p\<lparr>pl_response := pl_response p @ map word_of_nat is\<rparr>"
  by (induction "is" arbitrary: p) simp_all

lemma with_payload_response: "pl_response (with_payload sz) = map word_of_nat [0..<sz]"
  by (simp add: with_payload_def payload_empty_def with_payload_fold)

lemma length_to_be_bytes [simp]: "length (to_be_bytes x) = 8"
  by (simp add: to_be_bytes_def)

lemma from_be_bytes_append:
  "from_be_bytes (xs @ ys) = from_be_bytes xs * 256 ^ length ys + from_be_bytes ys"
proof (induction ys rule: rev_induct)
  case Nil
  then show ?case by (simp add: from_be_bytes_def)
next
  case (snoc y ys)
  then show ?case by (simp add: from_be_bytes_def algebra_simps flip: append_assoc)
qed

lemma from_be_bytes_digits:
  "from_be_bytes (map (\<lambda>i. word_of_nat (x div 256 ^ (n - Suc i))) [0..<n]) = x mod 256 ^ n"
proof (induction n arbitrary: x)
  case 0
  then show ?case by (simp add: from_be_bytes_def)
next
  case (Suc n)
  have shift: "x div 256 ^ (Suc n - Suc i) = (x div 256) div 256 ^ (n - Suc i)" if "i < n" for i
  proof -
    have "Suc n - Suc i = Suc (n - Suc i)" using that by simp
    then show ?thesis by (simp add: div_mult2_eq)
  qed
  have split: "map (\<lambda>i. (word_of_nat (x div 256 ^ (Suc n - Suc i)) :: 8 word)) [0..<Suc n]
      = map (\<lambda>i. word_of_nat ((x div 256) div 256 ^ (n - Suc i))) [0..<n] @ [word_of_nat x]"
    using shift by (auto simp: upt_Suc_append)
  have "from_be_bytes (map (\<lambda>i. word_of_nat (x div 256 ^ (Suc n - Suc i))) [0..<Suc n])
      = (x div 256 mod 256 ^ n) * 256 + x mod 256"
    unfolding split from_be_bytes_append Suc.IH by (simp add: from_be_bytes_def unat_of_nat)
  also have "\<dots> = x mod 256 ^ Suc n"
    by (simp add: mod_mult2_eq mult.commute)
  finally show ?case .
qed

lemma from_to_be_bytes: "x < 2 ^ 64 \<Longrightarrow> from_be_bytes (to_be_bytes x) = x"
  using from_be_bytes_digits [of x 8] by (simp add: to_be_bytes_def)

end
