(* ===== verification/BTree_Map.thy ===== *)
theory BTree_Map
  imports Prelude "HOL-Library.Product_Lexorder"
begin

text \<open>
  \<open>std::collections::BTreeMap\<close> as far as the transaction pool uses it: an association list in
  strictly ascending key order, so that iteration, \<open>keys().next()\<close> and \<open>range\<close> see the keys in
  order. The interface \<open>ordered_map\<close> states what a client may rely on; the accounting lemmas for a
  running total of the values' weights are proved once from that interface.
\<close>

section \<open>The interface\<close>

locale ordered_map =
  fixes insert :: "'k::linorder \<Rightarrow> 'v \<Rightarrow> 'm \<Rightarrow> 'm"
    and remove :: "'k \<Rightarrow> 'm \<Rightarrow> 'm"
    and get :: "'m \<Rightarrow> 'k \<Rightarrow> 'v option"
    and entries :: "'m \<Rightarrow> ('k \<times> 'v) list"
    and invar :: "'m \<Rightarrow> bool"
  assumes get_insert: "invar m \<Longrightarrow> get (insert k v m) = (get m)(k \<mapsto> v)"
    and get_remove: "invar m \<Longrightarrow> get (remove k m) = (get m)(k := None)"
    and get_entries: "invar m \<Longrightarrow> get m = map_of (entries m)"
    and invar_insert: "invar m \<Longrightarrow> invar (insert k v m)"
    and invar_remove: "invar m \<Longrightarrow> invar (remove k m)"
    and entries_sorted: "invar m \<Longrightarrow> sorted_wrt (<) (map fst (entries m))"
begin

lemma entries_distinct: "invar m \<Longrightarrow> distinct (map fst (entries m))"
  using entries_sorted strict_sorted_iff by blast

lemma get_Some_iff: "invar m \<Longrightarrow> get m k = Some v \<longleftrightarrow> (k, v) \<in> set (entries m)"
  by (simp add: get_entries entries_distinct)

lemma sum_entries:
  "invar m \<Longrightarrow> (\<Sum>e\<leftarrow>entries m. w (snd e)) = (\<Sum>k\<in>dom (get m). w (the (get m k)))"
proof -
  assume inv: "invar m"
  have "(\<Sum>e\<leftarrow>entries m. w (snd e)) = (\<Sum>e\<in>set (entries m). w (snd e))"
    using entries_distinct [OF inv] by (simp add: distinct_map sum_list_distinct_conv_sum_set)
  also have "\<dots> = (\<Sum>k\<in>dom (get m). w (the (get m k)))"
  proof (rule sum.reindex_cong [of "\<lambda>k. (k, the (get m k))"])
    show "inj_on (\<lambda>k. (k, the (get m k))) (dom (get m))" by (auto intro: inj_onI)
    show "set (entries m) = (\<lambda>k. (k, the (get m k))) ` dom (get m)"
    proof (intro set_eqI iffI)
      fix e assume "e \<in> set (entries m)"
      then have "get m (fst e) = Some (snd e)" by (simp add: get_Some_iff [OF inv])
      then show "e \<in> (\<lambda>k. (k, the (get m k))) ` dom (get m)" by (auto intro!: image_eqI [of _ _ "fst e"])
    next
      fix e assume "e \<in> (\<lambda>k. (k, the (get m k))) ` dom (get m)"
      then show "e \<in> set (entries m)" by (auto simp flip: get_Some_iff [OF inv])
    qed
  qed simp
  finally show ?thesis .
qed

lemma finite_dom: "invar m \<Longrightarrow> finite (dom (get m))"
  by (simp add: get_entries finite_dom_map_of)

text \<open>Accounting: what an insertion and a removal do to the total weight.\<close>

lemma total_remove:
  assumes "invar m" and "get m k = Some v"
  shows "(\<Sum>e\<leftarrow>entries (remove k m). w (snd e)) + w v = (\<Sum>e\<leftarrow>entries m. w (snd e) :: nat)"
proof -
  have "dom (get (remove k m)) = dom (get m) - {k}"
    using assms by (auto simp: get_remove)
  moreover have "(\<Sum>x\<in>dom (get m) - {k}. w (the (get (remove k m) x)))
      = (\<Sum>x\<in>dom (get m) - {k}. w (the (get m x)))"
    using assms(1) by (intro sum.cong) (auto simp: get_remove)
  moreover have "(\<Sum>x\<in>dom (get m). w (the (get m x)))
      = w (the (get m k)) + (\<Sum>x\<in>dom (get m) - {k}. w (the (get m x)))"
    using assms finite_dom by (intro sum.remove) auto
  ultimately show ?thesis
    using assms by (simp add: sum_entries invar_remove)
qed

lemma total_insert_fresh:
  assumes "invar m" and "get m k = None"
  shows "(\<Sum>e\<leftarrow>entries (insert k v m). w (snd e)) = (\<Sum>e\<leftarrow>entries m. w (snd e) :: nat) + w v"
proof -
  have "get (remove k (insert k v m)) = get m"
    using assms by (auto simp: get_remove get_insert invar_insert)
  then have "(\<Sum>e\<leftarrow>entries (remove k (insert k v m)). w (snd e)) = (\<Sum>e\<leftarrow>entries m. w (snd e))"
    using assms(1) by (simp add: sum_entries invar_insert invar_remove)
  then show ?thesis
    using assms total_remove [of "insert k v m" k v w] by (simp add: get_insert invar_insert)
qed

lemma total_insert_present:
  assumes "invar m" and "get m k = Some u"
  shows "(\<Sum>e\<leftarrow>entries (insert k v m). w (snd e)) + w u = (\<Sum>e\<leftarrow>entries m. w (snd e) :: nat) + w v"
proof -
  have "get (insert k v (remove k m)) = get (insert k v m)"
    using assms(1) by (auto simp: get_remove get_insert invar_remove)
  then have "(\<Sum>e\<leftarrow>entries (insert k v (remove k m)). w (snd e)) = (\<Sum>e\<leftarrow>entries (insert k v m). w (snd e))"
    using assms(1) by (simp add: sum_entries invar_insert invar_remove)
  then show ?thesis
    using assms total_remove [of m k u w] total_insert_fresh [of "remove k m" k w v]
    by (simp add: get_remove invar_remove)
qed

end

section \<open>The map\<close>

type_synonym ('k, 'v) btree = "('k \<times> 'v) list"

fun bt_insert :: "'k::linorder \<Rightarrow> 'v \<Rightarrow> ('k, 'v) btree \<Rightarrow> ('k, 'v) btree" where
  "bt_insert k v [] = [(k, v)]"
| "bt_insert k v ((k', v') # m) =
     (if k < k' then (k, v) # (k', v') # m
      else if k = k' then (k, v) # m
      else (k', v') # bt_insert k v m)"

fun bt_remove :: "'k \<Rightarrow> ('k, 'v) btree \<Rightarrow> ('k, 'v) btree" where
  "bt_remove k [] = []"
| "bt_remove k ((k', v') # m) = (if k = k' then m else (k', v') # bt_remove k m)"

definition bt_get :: "('k, 'v) btree \<Rightarrow> 'k \<Rightarrow> 'v option" where
  "bt_get m k = map_of m k"

definition bt_first_key :: "('k, 'v) btree \<Rightarrow> 'k option" where
  "bt_first_key m = (case m of [] \<Rightarrow> None | e # _ \<Rightarrow> Some (fst e))"

text \<open>\<open>range(lo..=hi)\<close>, keys only.\<close>

definition bt_range_keys :: "'k::linorder \<Rightarrow> 'k \<Rightarrow> ('k, 'v) btree \<Rightarrow> 'k list" where
  "bt_range_keys lo hi m = filter (\<lambda>k. lo \<le> k \<and> k \<le> hi) (map fst m)"

definition bt_inv :: "('k::linorder, 'v) btree \<Rightarrow> bool" where
  "bt_inv m \<longleftrightarrow> sorted_wrt (<) (map fst m)"

lemma bt_inv_simps [simp]:
  "bt_inv []"
  "bt_inv ((k, v) # m) \<longleftrightarrow> (\<forall>k'\<in>fst ` set m. k < k') \<and> bt_inv m"
  by (auto simp: bt_inv_def)

lemma keys_bt_insert: "fst ` set (bt_insert k v m) = insert k (fst ` set m)"
  by (induction m rule: bt_insert.induct) auto

lemma keys_bt_remove: "fst ` set (bt_remove k m) \<subseteq> fst ` set m"
  by (induction m) (fastforce split: if_splits)+

lemma bt_inv_insert: "bt_inv m \<Longrightarrow> bt_inv (bt_insert k v m)"
  by (induction k v m rule: bt_insert.induct) (auto simp: keys_bt_insert)

lemma bt_inv_remove: "bt_inv m \<Longrightarrow> bt_inv (bt_remove k m)"
  by (induction m) (use keys_bt_remove in fastforce)+

lemma bt_get_insert: "bt_inv m \<Longrightarrow> bt_get (bt_insert k v m) = (bt_get m)(k \<mapsto> v)"
  by (induction k v m rule: bt_insert.induct) (auto simp: bt_get_def fun_eq_iff)

lemma map_of_absent_key: "\<forall>k'\<in>fst ` set m. (k::'k::linorder) < k' \<Longrightarrow> map_of m k = None"
  by (induction m) auto

lemma bt_get_remove: "bt_inv m \<Longrightarrow> bt_get (bt_remove k m) = (bt_get m)(k := None)"
  by (induction m) (auto simp: bt_get_def fun_eq_iff map_of_absent_key)

interpretation bt: ordered_map bt_insert bt_remove bt_get "\<lambda>m. m" bt_inv
proof unfold_locales
  fix m :: "('a, 'b) btree"
  show "bt_inv m \<Longrightarrow> bt_get m = map_of m" by (simp add: bt_get_def fun_eq_iff)
  show "bt_inv m \<Longrightarrow> sorted_wrt (<) (map fst m)" by (simp add: bt_inv_def)
qed (simp_all add: bt_get_insert bt_get_remove bt_inv_insert bt_inv_remove)

lemma bt_first_key_None [simp]: "bt_first_key m = None \<longleftrightarrow> m = []"
  by (simp add: bt_first_key_def split: list.splits)

lemma bt_first_key_Some: "bt_first_key m = Some k \<longleftrightarrow> (\<exists>v m'. m = (k, v) # m')"
  by (auto simp: bt_first_key_def split: list.splits)

lemma bt_get_Some_in: "bt_inv m \<Longrightarrow> bt_get m k = Some v \<longleftrightarrow> (k, v) \<in> set m"
  by (rule bt.get_Some_iff)

lemma bt_get_None_iff: "bt_get m k = None \<longleftrightarrow> k \<notin> fst ` set m"
  by (simp add: bt_get_def map_of_eq_None_iff)

lemma bt_remove_shorter: "bt_get m k = Some v \<Longrightarrow> length (bt_remove k m) < length m"
  by (induction m) (auto simp: bt_get_def split: if_splits)

lemma bt_remove_absent: "bt_get m k = None \<Longrightarrow> bt_remove k m = m"
  by (induction m) (auto simp: bt_get_def split: if_splits)

lemma set_bt_range_keys [simp]: "set (bt_range_keys lo hi m) = {k \<in> fst ` set m. lo \<le> k \<and> k \<le> hi}"
  by (auto simp: bt_range_keys_def)

lemma distinct_bt_range_keys: "bt_inv m \<Longrightarrow> distinct (bt_range_keys lo hi m)"
  using bt.entries_distinct [of m] by (simp add: bt_range_keys_def)

text \<open>Two sorted maps with the same lookups are the same map.\<close>

lemma bt_ext:
  assumes "bt_inv m" and "bt_inv m'" and "bt_get m = bt_get m'"
  shows "m = m'"
proof -
  have "set m = set m'"
    using assms by (auto simp: bt_get_Some_in [symmetric])
  moreover have "sorted_wrt (\<lambda>a b. fst a < fst b) m" and "sorted_wrt (\<lambda>a b. fst a < fst b) m'"
    using assms(1,2) by (simp_all add: bt_inv_def sorted_wrt_map)
  moreover have "m = m'" if "set m = set m'" "sorted_wrt (\<lambda>a b. fst a < fst b) m"
      "sorted_wrt (\<lambda>a b. fst a < fst b) m'" for m m' :: "('a \<times> 'b) list"
    using that
  proof (induction m arbitrary: m')
    case Nil
    then show ?case by simp
  next
    case (Cons a m)
    then obtain b n where m': "m' = b # n" by (cases m') auto
    have "a = b"
      using Cons.prems m' by (metis less_asym list.set_intros(1) set_ConsD sorted_wrt.simps(2))
    moreover have "set m = set n"
    proof -
      have "a \<notin> set m" and "b \<notin> set n" using Cons.prems(2,3) m' by auto
      with Cons.prems(1) m' \<open>a = b\<close> show ?thesis by auto
    qed
    ultimately show ?case using Cons.IH [of n] Cons.prems m' by simp
  qed
  ultimately show ?thesis by blast
qed

end
