(* ===== verification/Tx_Pool.thy ===== *)
theory Tx_Pool
  imports Wire_Types BTree_Map
begin

text \<open>
  The nonce-keyed transaction pool (\<open>mempool/src/tx_pool.rs\<close>). A transaction is identified by its
  client and nonce; it is Mineable (in the ordered map \<open>mineable\<close>, eligible for a batch), InFlight
  (in \<open>inflight\<close>, tagged with the round that proposed it) or unknown to the pool. A per-client
  watermark of committed nonces rejects replays. Every operation of \<open>Txpool\<close> is a function on the
  record \<open>txpool\<close>; the byte counter is checked arithmetic and the \<open>debug_assert!\<close> at the end of each
  operation is executed. The pool is used with \<open>types::Transaction\<close> only, so \<open>client_id()\<close> and
  \<open>nonce()\<close> are that type's fields.
\<close>

section \<open>State\<close>

type_synonym txkey = "client_id \<times> nat"

record inflight_entry =
  ie_tx :: transaction
  ie_size :: nat
  ie_round :: round

record txpool =
  mineable :: "(txkey, transaction \<times> nat) btree"
  mineable_bytes :: nat
  inflight :: "(txkey, inflight_entry) fmap"
  inflight_by_round :: "(round, txkey list) fmap"
  high_committed_nonce :: "(client_id, nat) fmap"
  pool_batch_size :: nat
  pool_timer_resets :: nat

text \<open>The tokio interval is represented by the number of times it was reset.\<close>

definition Txpool_new :: "nat \<Rightarrow> txpool" where
  "Txpool_new bsize =
     \<lparr>mineable = [], mineable_bytes = 0, inflight = fmempty, inflight_by_round = fmempty,
      high_committed_nonce = fmempty, pool_batch_size = bsize, pool_timer_resets = 0\<rparr>"

definition tx_key :: "transaction \<Rightarrow> txkey" where
  "tx_key tx = (tx_client_id tx, tx_nonce tx)"

text \<open>\<open>*self.high_committed_nonce.get(&c).unwrap_or(&0)\<close>\<close>

definition hi_nonce :: "txpool \<Rightarrow> client_id \<Rightarrow> nat" where
  "hi_nonce p c = fmget_or 0 (high_committed_nonce p) c"

definition key_sets_disjoint :: "txpool \<Rightarrow> bool" where
  "key_sets_disjoint p \<longleftrightarrow> list_all (\<lambda>k. \<not> fmmem k (inflight p)) (map fst (mineable p))"

definition assert_disjoint :: "txpool \<Rightarrow> txpool res" where
  "assert_disjoint p = debug_assert ''key_sets_disjoint'' (key_sets_disjoint p) p"

definition reset_timer :: "txpool \<Rightarrow> txpool" where
  "reset_timer p = p\<lparr>pool_timer_resets := Suc (pool_timer_resets p)\<rparr>"

definition ready :: "txpool \<Rightarrow> bool" where
  "ready p \<longleftrightarrow> mineable_bytes p > pool_batch_size p"

section \<open>Operations\<close>

definition add_tx :: "transaction \<Rightarrow> nat \<Rightarrow> txpool \<Rightarrow> txpool res" where
  "add_tx tx sz p =
     (let c = tx_client_id tx; n = tx_nonce tx in
      if n \<le> hi_nonce p c then Inr p
      else if fmmem (c, n) (inflight p) then Inr p
      else
        rbind (case bt_get (mineable p) (c, n) of
                 Some (_, old_sz) \<Rightarrow> sub_u64 (mineable_bytes p) old_sz
               | None \<Rightarrow> Inr (mineable_bytes p)) (\<lambda>b.
        rbind (add_u64 b sz) (\<lambda>b'.
        assert_disjoint
          (p\<lparr>mineable := bt_insert (c, n) (tx, sz) (mineable p), mineable_bytes := b'\<rparr>))))"

text \<open>\<open>self.mineable.remove(&k)\<close> with the byte counter; \<open>None\<close> when the key is absent.\<close>

definition take_mineable :: "txkey \<Rightarrow> txpool \<Rightarrow> ((transaction \<times> nat) option \<times> txpool) res" where
  "take_mineable k p =
     (case bt_get (mineable p) k of
        None \<Rightarrow> Inr (None, p)
      | Some (tx, sz) \<Rightarrow>
          rbind (sub_u64 (mineable_bytes p) sz) (\<lambda>b.
          Inr (Some (tx, sz), p\<lparr>mineable := bt_remove k (mineable p), mineable_bytes := b\<rparr>)))"

text \<open>\<open>self.inflight.insert(k, ...)\<close> and \<open>by_round.insert(k)\<close>.\<close>

definition put_inflight :: "txkey \<Rightarrow> transaction \<Rightarrow> nat \<Rightarrow> round \<Rightarrow> txpool \<Rightarrow> txpool" where
  "put_inflight k tx sz r p =
     p\<lparr>inflight := fmupd k \<lparr>ie_tx = tx, ie_size = sz, ie_round = r\<rparr> (inflight p),
       inflight_by_round :=
         fmupd r (hs_insert k (fmget_or [] (inflight_by_round p) r)) (inflight_by_round p)\<rparr>"

text \<open>\<open>self.inflight_by_round.entry(round).or_default()\<close>\<close>

definition touch_round :: "round \<Rightarrow> txpool \<Rightarrow> txpool" where
  "touch_round r p =
     p\<lparr>inflight_by_round := fmupd r (fmget_or [] (inflight_by_round p) r) (inflight_by_round p)\<rparr>"

definition admit_one :: "ext \<Rightarrow> round \<Rightarrow> transaction \<Rightarrow> txpool \<Rightarrow> txpool res" where
  "admit_one E r tx p =
     (let c = tx_client_id tx; n = tx_nonce tx in
      if n \<le> hi_nonce p c then Inr p
      else if fmmem (c, n) (inflight p) then Inr p
      else
        rbind (take_mineable (c, n) p) (\<lambda>(e, p').
        let sz = (case e of
                    Some (_, sz) \<Rightarrow> sz
                  | None \<Rightarrow> (case tx_serialized_size E tx of Some s \<Rightarrow> s | None \<Rightarrow> 0))
        in Inr (put_inflight (c, n) tx sz r p')))"

definition admit_proposal :: "ext \<Rightarrow> cached_batch \<Rightarrow> round \<Rightarrow> txpool \<Rightarrow> txpool res" where
  "admit_proposal E batch r p =
     rbind (rfold (admit_one E r) (cb_payload batch) (touch_round r p)) assert_disjoint"

text \<open>
  The loop of \<open>make_batch\<close>: the state is the payload so far, the bytes in it and the pool. It pops
  the first key as long as the batch is short of \<open>batch_size\<close> bytes.
\<close>

function make_batch_loop ::
  "round \<Rightarrow> transaction list \<Rightarrow> nat \<Rightarrow> txpool \<Rightarrow> (transaction list \<times> txpool) res" where
  "make_batch_loop r payload batch_bytes p =
     (if batch_bytes < pool_batch_size p then
        (case bt_first_key (mineable p) of
           None \<Rightarrow> Inr (payload, p)
         | Some key \<Rightarrow>
             rbind (take_mineable key p) (\<lambda>(e, p').
             case e of
               None \<Rightarrow> Inl (Panic ''called Option::unwrap on a None value'')
             | Some (tx, sz) \<Rightarrow>
                 rbind (add_u64 batch_bytes sz) (\<lambda>bytes'.
                 make_batch_loop r (payload @ [tx]) bytes' (put_inflight key tx sz r p'))))
      else Inr (payload, p))"
  by pat_completeness auto
termination
  by (relation "measure (\<lambda>(r, payload, b, p). length (mineable p))")
    (auto simp: take_mineable_def put_inflight_def checked_Inr_iff bt_remove_shorter
      split: option.splits)

definition make_batch :: "round \<Rightarrow> txpool \<Rightarrow> (transaction list \<times> txpool) res" where
  "make_batch r p =
     rbind (make_batch_loop r [] 0 (touch_round r p)) (\<lambda>(payload, p').
     rbind (assert_disjoint (reset_timer p')) (\<lambda>p''. Inr (payload, p'')))"

text \<open>\<open>self.inflight.remove(&k)\<close>, and the key leaves the set of the round it was tagged with.\<close>

definition forget_inflight :: "txkey \<Rightarrow> txpool \<Rightarrow> txpool" where
  "forget_inflight k p =
     (case fmlookup (inflight p) k of
        Some e \<Rightarrow>
          p\<lparr>inflight := fmdrop k (inflight p),
            inflight_by_round :=
              (case fmlookup (inflight_by_round p) (ie_round e) of
                 Some ks \<Rightarrow> fmupd (ie_round e) (hs_remove k ks) (inflight_by_round p)
               | None \<Rightarrow> inflight_by_round p)\<rparr>
      | None \<Rightarrow> p)"

text \<open>First loop of \<open>commit\<close>: the state is the set of touched clients and the pool.\<close>

definition commit_one :: "transaction \<Rightarrow> client_id list \<times> txpool \<Rightarrow> (client_id list \<times> txpool) res" where
  "commit_one tx s =
     (let (touched, p) = s; c = tx_client_id tx; n = tx_nonce tx
      in rbind (take_mineable (c, n) (forget_inflight (c, n) p)) (\<lambda>(_, p').
         let cur = hi_nonce p' c
         in Inr (hs_insert c touched,
                 p'\<lparr>high_committed_nonce :=
                     fmupd c (if n > cur then n else cur) (high_committed_nonce p')\<rparr>)))"

text \<open>Second loop of \<open>commit\<close>: drop the stale Mineable keys of one client.\<close>

definition drop_mineable :: "txkey \<Rightarrow> txpool \<Rightarrow> txpool res" where
  "drop_mineable k p = rbind (take_mineable k p) (\<lambda>(_, p'). Inr p')"

definition commit_gc :: "client_id \<Rightarrow> txpool \<Rightarrow> txpool res" where
  "commit_gc c p =
     rbind (expect ''called Option::unwrap on a None value'' (fmlookup (high_committed_nonce p) c)) (\<lambda>hi.
     rfold drop_mineable (bt_range_keys (c, 0) (c, hi) (mineable p)) p)"

definition drop_empty_round :: "round \<Rightarrow> txpool \<Rightarrow> txpool" where
  "drop_empty_round r p =
     (case fmlookup (inflight_by_round p) r of
        Some ks \<Rightarrow> if ks = [] then p\<lparr>inflight_by_round := fmdrop r (inflight_by_round p)\<rparr> else p
      | None \<Rightarrow> p)"

definition commit :: "cached_batch \<Rightarrow> round \<Rightarrow> txpool \<Rightarrow> txpool res" where
  "commit batch r p =
     rbind (rfold commit_one (cb_payload batch) ([], p)) (\<lambda>(touched, p1).
     rbind (rfold commit_gc touched p1) (\<lambda>p2.
     assert_disjoint (drop_empty_round r p2)))"

definition rollback_key :: "txkey \<Rightarrow> txpool \<Rightarrow> txpool res" where
  "rollback_key k p =
     (let (c, n) = k in
      if n \<le> hi_nonce p c then Inr (p\<lparr>inflight := fmdrop k (inflight p)\<rparr>)
      else
        (case fmlookup (inflight p) k of
           None \<Rightarrow> Inr p
         | Some e \<Rightarrow>
             rbind (add_u64 (mineable_bytes p) (ie_size e)) (\<lambda>b.
             Inr (p\<lparr>inflight := fmdrop k (inflight p),
                    mineable := bt_insert k (ie_tx e, ie_size e) (mineable p),
                    mineable_bytes := b\<rparr>))))"

definition rollback_round :: "round \<Rightarrow> txpool \<Rightarrow> txpool res" where
  "rollback_round r p =
     (case fmlookup (inflight_by_round p) r of
        None \<Rightarrow> Inr p
      | Some ks \<Rightarrow>
          rfold rollback_key ks (p\<lparr>inflight_by_round := fmdrop r (inflight_by_round p)\<rparr>))"

definition rollback :: "round list \<Rightarrow> txpool \<Rightarrow> txpool res" where
  "rollback rounds p = rbind (rfold rollback_round rounds p) assert_disjoint"

section \<open>Invariant\<close>

text \<open>
  \<open>pool_inv_x T P\<close> is the invariant with two exceptions that hold only inside an operation: clients
  in \<open>T\<close> may still have Mineable keys below their watermark (the middle of \<open>commit\<close>), and keys in
  \<open>P\<close> may be InFlight without being listed under their round (the middle of \<open>rollback\<close>).
\<close>

definition total :: "(txkey, transaction \<times> nat) btree \<Rightarrow> nat" where
  "total m = (\<Sum>e\<leftarrow>m. snd (snd e))"

definition mineable_ok :: "txpool \<Rightarrow> bool" where
  "mineable_ok p \<longleftrightarrow>
     bt_inv (mineable p) \<and> mineable_bytes p = total (mineable p) \<and> mineable_bytes p < 2 ^ 64"

definition keys_ok :: "client_id set \<Rightarrow> txpool \<Rightarrow> bool" where
  "keys_ok T p \<longleftrightarrow>
     (\<forall>k tx sz. bt_get (mineable p) k = Some (tx, sz) \<longrightarrow>
        tx_key tx = k \<and> \<not> fmmem k (inflight p) \<and> (fst k \<notin> T \<longrightarrow> hi_nonce p (fst k) < snd k))"

definition inflight_ok :: "txkey set \<Rightarrow> txpool \<Rightarrow> bool" where
  "inflight_ok P p \<longleftrightarrow>
     (\<forall>k e. fmlookup (inflight p) k = Some e \<longrightarrow>
        tx_key (ie_tx e) = k \<and>
        (k \<notin> P \<longrightarrow> (\<exists>ks. fmlookup (inflight_by_round p) (ie_round e) = Some ks \<and> k \<in> set ks)))"

definition rounds_ok :: "txpool \<Rightarrow> bool" where
  "rounds_ok p \<longleftrightarrow>
     (\<forall>r ks. fmlookup (inflight_by_round p) r = Some ks \<longrightarrow>
        distinct ks \<and> (\<forall>k\<in>set ks. \<exists>e. fmlookup (inflight p) k = Some e \<and> ie_round e = r))"

definition pool_inv_x :: "client_id set \<Rightarrow> txkey set \<Rightarrow> txpool \<Rightarrow> bool" where
  "pool_inv_x T P p \<longleftrightarrow> mineable_ok p \<and> keys_ok T p \<and> inflight_ok P p \<and> rounds_ok p"

definition pool_inv :: "txpool \<Rightarrow> bool" where
  "pool_inv p \<longleftrightarrow> pool_inv_x {} {} p"

lemmas pool_inv_parts = mineable_ok_def keys_ok_def inflight_ok_def rounds_ok_def

lemma total_Nil [simp]: "total [] = 0"
  by (simp add: total_def)

lemma total_Cons [simp]: "total ((k, tx, sz) # m) = sz + total m"
  by (simp add: total_def)

lemma total_bt_remove: "bt_inv m \<Longrightarrow> bt_get m k = Some (tx, sz) \<Longrightarrow> total (bt_remove k m) + sz = total m"
  using bt.total_remove [of m k "(tx, sz)" snd] by (simp add: total_def)

lemma total_bt_remove_le: "bt_inv m \<Longrightarrow> total (bt_remove k m) \<le> total m"
  by (cases "bt_get m k") (auto simp: bt_remove_absent dest: total_bt_remove)

lemma total_bt_insert: "bt_inv m \<Longrightarrow> bt_get m k = None \<Longrightarrow> total (bt_insert k (tx, sz) m) = total m + sz"
  using bt.total_insert_fresh [of m k snd "(tx, sz)"] by (simp add: total_def)

lemma total_bt_replace:
  "bt_inv m \<Longrightarrow> bt_get m k = Some (tx', sz') \<Longrightarrow> total (bt_insert k (tx, sz) m) + sz' = total m + sz"
  using bt.total_insert_present [of m k "(tx', sz')" snd "(tx, sz)"] by (simp add: total_def)

lemma pool_inv_new: "pool_inv (Txpool_new bsize)"
  by (simp add: pool_inv_def pool_inv_x_def pool_inv_parts Txpool_new_def bt_get_def)

lemma pool_inv_xD:
  assumes "pool_inv_x T P p"
  shows "mineable_ok p" "keys_ok T p" "inflight_ok P p" "rounds_ok p"
  using assms by (simp_all add: pool_inv_x_def)

lemma keys_ok_disjoint: "mineable_ok p \<Longrightarrow> keys_ok T p \<Longrightarrow> key_sets_disjoint p"
  by (fastforce simp: pool_inv_parts key_sets_disjoint_def list_all_iff bt_get_Some_in)

lemma assert_disjoint_ok: "pool_inv_x T P p \<Longrightarrow> assert_disjoint p = Inr p"
  by (simp add: assert_disjoint_def keys_ok_disjoint [OF pool_inv_xD(1,2)])

section \<open>What the building blocks do to a well-formed pool\<close>

lemma take_mineable_ok:
  assumes "mineable_ok p"
  shows "take_mineable k p =
    Inr (bt_get (mineable p) k,
         p\<lparr>mineable := bt_remove k (mineable p), mineable_bytes := total (bt_remove k (mineable p))\<rparr>)"
proof (cases "bt_get (mineable p) k")
  case None
  with assms show ?thesis
    by (cases p) (simp add: take_mineable_def mineable_ok_def bt_remove_absent)
next
  case (Some e)
  moreover obtain tx sz where "e = (tx, sz)" by (cases e)
  ultimately show ?thesis
    using assms total_bt_remove [of "mineable p" k tx sz]
    by (simp add: take_mineable_def mineable_ok_def sub_u64_def)
qed

lemma pool_inv_x_remove:
  assumes "pool_inv_x T P p"
  shows "pool_inv_x T P
    (p\<lparr>mineable := bt_remove k (mineable p), mineable_bytes := total (bt_remove k (mineable p))\<rparr>)"
proof -
  have "total (bt_remove k (mineable p)) < 2 ^ 64"
    using assms total_bt_remove_le [of "mineable p" k] by (auto simp: pool_inv_x_def mineable_ok_def)
  then show ?thesis
    using assms
    by (auto simp: pool_inv_x_def pool_inv_parts bt_inv_remove bt_get_remove hi_nonce_def split: if_splits)
qed

lemma pool_inv_x_touch: "pool_inv_x T P p \<Longrightarrow> pool_inv_x T P (touch_round r p)"
  by (fastforce simp: pool_inv_x_def pool_inv_parts touch_round_def hi_nonce_def fmget_or_def
      split: option.splits if_splits)

lemma pool_inv_x_reset: "pool_inv_x T P (reset_timer p) = pool_inv_x T P p"
  by (simp add: pool_inv_x_def pool_inv_parts reset_timer_def hi_nonce_def)

lemma pool_inv_x_put:
  assumes "pool_inv_x T P p" and "tx_key tx = k" and "\<not> fmmem k (inflight p)"
    and "bt_get (mineable p) k = None"
  shows "pool_inv_x T P (put_inflight k tx sz r p)"
proof -
  have parts: "mineable_ok p" "keys_ok T p" "inflight_ok P p" "rounds_ok p"
    using pool_inv_xD [OF assms(1)] .
  have unlisted: "k \<notin> set ks" if "fmlookup (inflight_by_round p) r' = Some ks" for r' ks
    using parts(4) that assms(3) by (fastforce simp: rounds_ok_def fmmem_def)
  have "mineable_ok (put_inflight k tx sz r p)"
    using parts(1) by (simp add: mineable_ok_def put_inflight_def)
  moreover have "keys_ok T (put_inflight k tx sz r p)"
    using parts(2) assms(4) by (auto simp: keys_ok_def put_inflight_def hi_nonce_def)
  moreover have "inflight_ok P (put_inflight k tx sz r p)"
    using parts(3) assms(2) by (fastforce simp: inflight_ok_def put_inflight_def fmget_or_def)
  moreover have "rounds_ok (put_inflight k tx sz r p)"
    using parts(4) unlisted
    by (fastforce simp: rounds_ok_def put_inflight_def fmget_or_def split: option.splits if_splits)
  ultimately show ?thesis by (simp add: pool_inv_x_def)
qed

lemma pool_inv_x_forget:
  assumes "pool_inv_x T P p"
  shows "pool_inv_x T P (forget_inflight k p)"
proof (cases "fmlookup (inflight p) k")
  case None
  with assms show ?thesis by (simp add: forget_inflight_def)
next
  case (Some e)
  let ?p = "forget_inflight k p"
  have parts: "mineable_ok p" "keys_ok T p" "inflight_ok P p" "rounds_ok p"
    using pool_inv_xD [OF assms] .
  have "mineable_ok ?p"
    using parts(1) Some by (simp add: mineable_ok_def forget_inflight_def)
  moreover have "keys_ok T ?p"
    using parts(2) Some by (auto simp: keys_ok_def forget_inflight_def hi_nonce_def)
  moreover have "inflight_ok P ?p"
    using parts(3) Some
    by (fastforce simp: inflight_ok_def forget_inflight_def split: option.splits if_splits)
  moreover have "rounds_ok ?p"
    using parts(4) Some
    by (fastforce simp: rounds_ok_def forget_inflight_def split: option.splits if_splits)
  ultimately show ?thesis by (simp add: pool_inv_x_def)
qed

text \<open>Raising the watermark of \<open>c\<close> keeps the invariant, \<open>c\<close> being excepted from now on.\<close>

lemma pool_inv_x_watermark:
  assumes "pool_inv_x T P p"
  shows "pool_inv_x (insert c T) P (p\<lparr>high_committed_nonce := fmupd c n (high_committed_nonce p)\<rparr>)"
  using assms by (auto simp: pool_inv_x_def pool_inv_parts hi_nonce_def)

lemma pool_inv_x_insert:
  assumes "pool_inv_x T P p" and "tx_key tx = k" and "\<not> fmmem k (inflight p)"
    and "fst k \<notin> T \<longrightarrow> hi_nonce p (fst k) < snd k" and "total (bt_insert k (tx, sz) (mineable p)) < 2 ^ 64"
  shows "pool_inv_x T P (p\<lparr>mineable := bt_insert k (tx, sz) (mineable p),
                           mineable_bytes := total (bt_insert k (tx, sz) (mineable p))\<rparr>)"
proof -
  let ?p = "p\<lparr>mineable := bt_insert k (tx, sz) (mineable p),
                mineable_bytes := total (bt_insert k (tx, sz) (mineable p))\<rparr>"
  have parts: "mineable_ok p" "keys_ok T p" "inflight_ok P p" "rounds_ok p"
    using pool_inv_xD [OF assms(1)] .
  have "mineable_ok ?p"
    using parts(1) assms(5) by (simp add: mineable_ok_def bt_inv_insert)
  moreover have "keys_ok T ?p"
    using parts(1,2) assms(2-4)
    by (cases k) (auto simp: keys_ok_def mineable_ok_def bt_get_insert hi_nonce_def)
  moreover have "inflight_ok P ?p" and "rounds_ok ?p"
    using parts(3,4) by (simp_all add: inflight_ok_def rounds_ok_def)
  ultimately show ?thesis by (simp add: pool_inv_x_def)
qed

section \<open>Totality and preservation, operation by operation\<close>

lemma add_tx_spec:
  fixes tx :: transaction and sz :: nat
  assumes "pool_inv p"
  defines "m' \<equiv> bt_insert (tx_key tx) (tx, sz) (mineable p)"
  shows "add_tx tx sz p =
    (if tx_nonce tx \<le> hi_nonce p (tx_client_id tx) \<or> fmmem (tx_key tx) (inflight p) then Inr p
     else if total m' < 2 ^ 64 then Inr (p\<lparr>mineable := m', mineable_bytes := total m'\<rparr>)
     else Inl Overflow)"
proof -
  have ok: "bt_inv (mineable p)" "mineable_bytes p = total (mineable p)"
    using assms(1) by (simp_all add: pool_inv_def pool_inv_x_def mineable_ok_def)
  show ?thesis
  proof (cases "tx_nonce tx \<le> hi_nonce p (tx_client_id tx) \<or> fmmem (tx_key tx) (inflight p)")
    case True
    then show ?thesis by (auto simp: add_tx_def tx_key_def Let_def)
  next
    case False
    have disj: "key_sets_disjoint (p\<lparr>mineable := m', mineable_bytes := b\<rparr>)" for b
    proof -
      have "key_sets_disjoint p"
        using assms(1) by (auto simp: pool_inv_def intro: keys_ok_disjoint pool_inv_xD)
      then show ?thesis
        using False by (auto simp: key_sets_disjoint_def list_all_iff m'_def keys_bt_insert)
    qed
    show ?thesis
    proof (cases "bt_get (mineable p) (tx_key tx)")
      case None
      with False ok disj total_bt_insert [OF ok(1) None, of tx sz] show ?thesis
        by (simp add: add_tx_def Let_def tx_key_def m'_def add_u64_def assert_disjoint_def)
    next
      case (Some e)
      moreover obtain tx' sz' where e: "e = (tx', sz')" by (cases e)
      moreover have "total (mineable p) - sz' + sz = total m'" "sz' \<le> total (mineable p)"
        using total_bt_replace [OF ok(1), of "tx_key tx" tx' sz' tx sz]
          total_bt_remove [OF ok(1), of "tx_key tx" tx' sz'] Some e by (simp_all add: m'_def)
      ultimately show ?thesis
        using False ok disj
        by (simp add: add_tx_def Let_def tx_key_def m'_def add_u64_def sub_u64_def assert_disjoint_def)
    qed
  qed
qed

lemma pool_inv_add_tx:
  assumes "pool_inv p" and "add_tx tx sz p = Inr p'"
  shows "pool_inv p'"
proof (cases "tx_nonce tx \<le> hi_nonce p (tx_client_id tx) \<or> fmmem (tx_key tx) (inflight p)")
  case True
  with assms show ?thesis by (simp add: add_tx_spec)
next
  case False
  with assms show ?thesis
    using pool_inv_x_insert [of "{}" "{}" p tx "tx_key tx" sz]
    by (auto simp: add_tx_spec pool_inv_def tx_key_def split: if_splits)
qed

lemma admit_one_ok:
  assumes "pool_inv_x T P p"
  shows "\<exists>p'. admit_one E r tx p = Inr p' \<and> pool_inv_x T P p'"
proof (cases "tx_nonce tx \<le> hi_nonce p (tx_client_id tx) \<or> fmmem (tx_key tx) (inflight p)")
  case True
  with assms show ?thesis by (auto simp: admit_one_def tx_key_def Let_def)
next
  case False
  let ?m = "bt_remove (tx_key tx) (mineable p)"
  let ?p = "p\<lparr>mineable := ?m, mineable_bytes := total ?m\<rparr>"
  have inv: "pool_inv_x T P ?p" using assms by (rule pool_inv_x_remove)
  have "bt_get ?m (tx_key tx) = None" and "\<not> fmmem (tx_key tx) (inflight ?p)"
    using False assms by (simp_all add: pool_inv_x_def mineable_ok_def bt_get_remove)
  then have "pool_inv_x T P (put_inflight (tx_key tx) tx sz r ?p)" for sz
    using inv by (intro pool_inv_x_put) simp_all
  then show ?thesis
    using False take_mineable_ok [OF pool_inv_xD(1) [OF assms], of "tx_key tx"]
    by (simp add: admit_one_def Let_def tx_key_def)
qed

lemma admit_proposal_ok:
  assumes "pool_inv p"
  shows "\<exists>p'. admit_proposal E batch r p = Inr p' \<and> pool_inv p'"
proof -
  have "\<exists>q. rfold (admit_one E r) (cb_payload batch) (touch_round r p) = Inr q \<and> pool_inv_x {} {} q"
    using assms pool_inv_x_touch [of "{}" "{}" p r] admit_one_ok
    by (intro rfold_total [where P = "pool_inv_x {} {}"]) (simp_all add: pool_inv_def)
  then show ?thesis
    by (auto simp: admit_proposal_def pool_inv_def assert_disjoint_ok)
qed

lemma forget_inflight_frame [simp]:
  "inflight (forget_inflight k p) = fmdrop k (inflight p)"
  "mineable (forget_inflight k p) = mineable p"
  "high_committed_nonce (forget_inflight k p) = high_committed_nonce p"
  by (auto simp: forget_inflight_def fmdrop_idle' fmlookup_dom'_iff split: option.splits)

lemma commit_one_ok:
  assumes "pool_inv_x T P p"
  shows "\<exists>p'. commit_one tx (touched, p) = Inr (hs_insert (tx_client_id tx) touched, p') \<and>
    pool_inv_x (insert (tx_client_id tx) T) P p' \<and>
    inflight p' = fmdrop (tx_key tx) (inflight p) \<and>
    mineable p' = bt_remove (tx_key tx) (mineable p) \<and>
    high_committed_nonce p' =
      fmupd (tx_client_id tx) (max (tx_nonce tx) (hi_nonce p (tx_client_id tx))) (high_committed_nonce p)"
proof -
  let ?q = "forget_inflight (tx_key tx) p"
  let ?m = "bt_remove (tx_key tx) (mineable ?q)"
  let ?p = "?q\<lparr>mineable := ?m, mineable_bytes := total ?m\<rparr>"
  have inv: "pool_inv_x T P ?q" using assms by (rule pool_inv_x_forget)
  have hi: "hi_nonce ?p c = hi_nonce p c" for c by (simp add: hi_nonce_def)
  have "commit_one tx (touched, p) =
      Inr (hs_insert (tx_client_id tx) touched,
           ?p\<lparr>high_committed_nonce := fmupd (tx_client_id tx)
                (max (tx_nonce tx) (hi_nonce p (tx_client_id tx))) (high_committed_nonce ?p)\<rparr>)"
    using take_mineable_ok [OF pool_inv_xD(1) [OF inv], of "tx_key tx"] hi
    by (simp add: commit_one_def tx_key_def Let_def max_def not_less)
  moreover have "pool_inv_x (insert (tx_client_id tx) T) P
      (?p\<lparr>high_committed_nonce := fmupd (tx_client_id tx) n (high_committed_nonce ?p)\<rparr>)" for n
    using pool_inv_x_watermark [OF pool_inv_x_remove [OF inv]] .
  ultimately show ?thesis by auto
qed

text \<open>The watermark after committing a batch: the largest nonce of the client seen so far.\<close>

definition raised :: "transaction list \<Rightarrow> nat \<Rightarrow> client_id \<Rightarrow> nat" where
  "raised txs h c = Max (insert h {tx_nonce tx |tx. tx \<in> set txs \<and> tx_client_id tx = c})"

lemma finite_nonces [simp]: "finite {tx_nonce tx |tx. tx \<in> set txs \<and> tx_client_id tx = c}"
  by (rule finite_subset [of _ "tx_nonce ` set txs"]) auto

lemma Max_insert_max: "finite S \<Longrightarrow> Max (insert h (insert a S)) = Max (insert (max a h) S)"
  for h a :: "'b::linorder"
  by (cases "S = {}") (auto simp: Max_insert max.commute max.left_commute)

lemma raised_Nil [simp]: "raised [] h c = h"
  by (simp add: raised_def)

lemma raised_Cons [simp]:
  "raised (tx # txs) h c = raised txs (if tx_client_id tx = c then max (tx_nonce tx) h else h) c"
proof (cases "tx_client_id tx = c")
  case True
  let ?S = "{tx_nonce t |t. t \<in> set txs \<and> tx_client_id t = c}"
  have "{tx_nonce t |t. t \<in> set (tx # txs) \<and> tx_client_id t = c} = insert (tx_nonce tx) ?S"
    using True by auto
  moreover have "Max (insert h (insert (tx_nonce tx) ?S)) = Max (insert (max (tx_nonce tx) h) ?S)"
    by (rule Max_insert_max) simp
  ultimately show ?thesis using True by (simp add: raised_def)
next
  case False
  then have "{tx_nonce t |t. t \<in> set (tx # txs) \<and> tx_client_id t = c}
      = {tx_nonce t |t. t \<in> set txs \<and> tx_client_id t = c}" by auto
  with False show ?thesis by (simp add: raised_def)
qed

lemma raised_ge: "h \<le> raised txs h c"
  by (simp add: raised_def)

lemma raised_ge_nonce: "tx \<in> set txs \<Longrightarrow> tx_nonce tx \<le> raised txs h (tx_client_id tx)"
  by (auto simp: raised_def intro!: Max_ge)

lemma raised_other: "c \<notin> tx_client_id ` set txs \<Longrightarrow> raised txs h c = h"
  by (induction txs arbitrary: h) auto

lemma commit_loop_ok:
  assumes "pool_inv_x T P p"
  shows "\<exists>touched' p'. rfold commit_one txs (touched, p) = Inr (touched', p') \<and>
    set touched' = set touched \<union> tx_client_id ` set txs \<and>
    pool_inv_x (T \<union> tx_client_id ` set txs) P p' \<and>
    (\<forall>c. hi_nonce p' c = raised txs (hi_nonce p c) c) \<and>
    (\<forall>c. fmmem c (high_committed_nonce p') \<longleftrightarrow>
           fmmem c (high_committed_nonce p) \<or> c \<in> tx_client_id ` set txs) \<and>
    (\<forall>k. fmlookup (inflight p') k = (if k \<in> tx_key ` set txs then None else fmlookup (inflight p) k)) \<and>
    (\<forall>k. bt_get (mineable p') k = (if k \<in> tx_key ` set txs then None else bt_get (mineable p) k))"
  using assms
proof (induction txs arbitrary: T touched p)
  case Nil
  then show ?case by simp
next
  case (Cons tx txs)
  let ?c = "tx_client_id tx"
  obtain q where q: "commit_one tx (touched, p) = Inr (hs_insert ?c touched, q)"
      "pool_inv_x (insert ?c T) P q" "inflight q = fmdrop (tx_key tx) (inflight p)"
      "mineable q = bt_remove (tx_key tx) (mineable p)"
      "high_committed_nonce q = fmupd ?c (max (tx_nonce tx) (hi_nonce p ?c)) (high_committed_nonce p)"
    using commit_one_ok [OF Cons.prems, of tx touched] by blast
  have bt: "bt_inv (mineable p)" using Cons.prems by (simp add: pool_inv_x_def mineable_ok_def)
  have hi: "hi_nonce q c = (if ?c = c then max (tx_nonce tx) (hi_nonce p c) else hi_nonce p c)" for c
    by (simp add: hi_nonce_def q(5))
  from Cons.IH [OF q(2), of "hs_insert ?c touched"] show ?case
    by (elim exE conjE) (auto simp: q hi bt bt_get_remove)
qed

lemma bt_get_fold_remove:
  "bt_inv m \<Longrightarrow> bt_inv (fold bt_remove ks m) \<and>
     bt_get (fold bt_remove ks m) k = (if k \<in> set ks then None else bt_get m k)"
  by (induction ks arbitrary: m) (auto simp: bt_inv_remove bt_get_remove)

lemma drop_mineable_loop:
  assumes "pool_inv_x T P p"
  shows "rfold drop_mineable ks p = Inr (p\<lparr>mineable := fold bt_remove ks (mineable p),
      mineable_bytes := total (fold bt_remove ks (mineable p))\<rparr>)"
  using assms
proof (induction ks arbitrary: p)
  case Nil
  then show ?case by (simp add: pool_inv_x_def mineable_ok_def)
next
  case (Cons k ks)
  show ?case
    using Cons.IH [OF pool_inv_x_remove [OF Cons.prems, of k]]
    by (simp add: drop_mineable_def take_mineable_ok [OF pool_inv_xD(1) [OF Cons.prems]])
qed

lemma pool_inv_x_drop_loop:
  "pool_inv_x T P p \<Longrightarrow> pool_inv_x T P (p\<lparr>mineable := fold bt_remove ks (mineable p),
      mineable_bytes := total (fold bt_remove ks (mineable p))\<rparr>)"
proof (induction ks arbitrary: p)
  case Nil
  then show ?case by (simp add: pool_inv_x_def mineable_ok_def pool_inv_parts hi_nonce_def)
next
  case (Cons k ks)
  from Cons.IH [OF pool_inv_x_remove [OF Cons.prems, of k]] show ?case by simp
qed

lemma commit_gc_ok:
  assumes "pool_inv_x (insert c T) P p" and "fmlookup (high_committed_nonce p) c = Some hi"
  shows "\<exists>p'. commit_gc c p = Inr p' \<and> pool_inv_x T P p' \<and>
    inflight p' = inflight p \<and> high_committed_nonce p' = high_committed_nonce p \<and>
    (\<forall>k. bt_get (mineable p') k = (if fst k = c \<and> snd k \<le> hi then None else bt_get (mineable p) k))"
proof -
  let ?ks = "bt_range_keys (c, 0) (c, hi) (mineable p)"
  let ?m = "fold bt_remove ?ks (mineable p)"
  let ?p = "p\<lparr>mineable := ?m, mineable_bytes := total ?m\<rparr>"
  have bt: "bt_inv (mineable p)" using assms(1) by (simp add: pool_inv_x_def mineable_ok_def)
  have get: "bt_get ?m k = (if fst k = c \<and> snd k \<le> hi then None else bt_get (mineable p) k)" for k
    using bt_get_fold_remove [OF bt, of ?ks k] bt_get_None_iff [of "mineable p" k]
    by (cases k) (auto simp: less_eq_prod_def split: if_splits)
  have "pool_inv_x (insert c T) P ?p" using assms(1) by (rule pool_inv_x_drop_loop)
  moreover have "hi_nonce p c = hi" using assms(2) by (simp add: hi_nonce_def fmget_or_def)
  ultimately have "pool_inv_x T P ?p"
    using get by (fastforce simp: pool_inv_x_def keys_ok_def hi_nonce_def mineable_ok_def inflight_ok_def
        rounds_ok_def split: if_splits)
  then show ?thesis
    using get assms by (auto simp: commit_gc_def drop_mineable_loop [OF assms(1)])
qed

lemma commit_gc_loop_ok:
  assumes "pool_inv_x (T \<union> set cs) P p" and "\<forall>c\<in>set cs. fmmem c (high_committed_nonce p)"
  shows "\<exists>p'. rfold commit_gc cs p = Inr p' \<and> pool_inv_x T P p' \<and>
    inflight p' = inflight p \<and> high_committed_nonce p' = high_committed_nonce p \<and>
    (\<forall>k. bt_get (mineable p') k =
       (if fst k \<in> set cs \<and> snd k \<le> hi_nonce p (fst k) then None else bt_get (mineable p) k))"
  using assms
proof (induction cs arbitrary: p)
  case Nil
  then show ?case by simp
next
  case (Cons c cs)
  obtain hi where hi: "fmlookup (high_committed_nonce p) c = Some hi"
    using Cons.prems(2) by (auto simp: fmmem_iff)
  then have hi': "hi_nonce p c = hi" by (simp add: hi_nonce_def fmget_or_def)
  have "pool_inv_x (insert c (T \<union> set cs)) P p" using Cons.prems(1) by simp
  then obtain q where q: "commit_gc c p = Inr q" "pool_inv_x (T \<union> set cs) P q" "inflight q = inflight p"
      "high_committed_nonce q = high_committed_nonce p"
      "\<And>k. bt_get (mineable q) k = (if fst k = c \<and> snd k \<le> hi then None else bt_get (mineable p) k)"
    using commit_gc_ok hi by blast
  have "\<forall>d\<in>set cs. fmmem d (high_committed_nonce q)" using Cons.prems(2) q(4) by simp
  note IH = Cons.IH [OF q(2) this]
  have "hi_nonce q d = hi_nonce p d" for d by (simp add: hi_nonce_def q(4))
  with IH show ?case
    by (elim exE conjE) (auto simp: q hi')
qed

lemma pool_inv_x_drop_round: "pool_inv_x T P p \<Longrightarrow> pool_inv_x T P (drop_empty_round r p)"
  by (fastforce simp: pool_inv_x_def pool_inv_parts drop_empty_round_def hi_nonce_def
      split: option.splits if_splits)

lemma drop_empty_round_frame [simp]:
  "inflight (drop_empty_round r p) = inflight p"
  "mineable (drop_empty_round r p) = mineable p"
  "high_committed_nonce (drop_empty_round r p) = high_committed_nonce p"
  by (simp_all add: drop_empty_round_def split: option.splits)

text \<open>The whole of \<open>commit\<close>, as an equation for each map of the pool.\<close>

lemma commit_ok:
  assumes "pool_inv p"
  shows "\<exists>p'. commit batch r p = Inr p' \<and> pool_inv p' \<and>
    (\<forall>c. hi_nonce p' c = raised (cb_payload batch) (hi_nonce p c) c) \<and>
    (\<forall>k. fmlookup (inflight p') k =
       (if k \<in> tx_key ` set (cb_payload batch) then None else fmlookup (inflight p) k)) \<and>
    (\<forall>k. bt_get (mineable p') k =
       (if snd k \<le> hi_nonce p' (fst k) then None else bt_get (mineable p) k))"
proof -
  let ?txs = "cb_payload batch"
  let ?C = "tx_client_id ` set ?txs"
  obtain cs q where q: "rfold commit_one ?txs ([], p) = Inr (cs, q)" "set cs = ?C" "pool_inv_x ?C {} q"
      "\<forall>c. hi_nonce q c = raised ?txs (hi_nonce p c) c"
      "\<forall>c. fmmem c (high_committed_nonce q) \<longleftrightarrow> fmmem c (high_committed_nonce p) \<or> c \<in> ?C"
      "\<forall>k. fmlookup (inflight q) k = (if k \<in> tx_key ` set ?txs then None else fmlookup (inflight p) k)"
      "\<forall>k. bt_get (mineable q) k = (if k \<in> tx_key ` set ?txs then None else bt_get (mineable p) k)"
    using commit_loop_ok [of "{}" "{}" p ?txs "[]"] assms by (auto simp: pool_inv_def)
  obtain s where s: "rfold commit_gc cs q = Inr s" "pool_inv_x {} {} s" "inflight s = inflight q"
      "high_committed_nonce s = high_committed_nonce q"
      "\<forall>k. bt_get (mineable s) k =
         (if fst k \<in> set cs \<and> snd k \<le> hi_nonce q (fst k) then None else bt_get (mineable q) k)"
    using commit_gc_loop_ok [of "{}" cs "{}" q] q(2,3,5) by auto
  have hi: "hi_nonce s c = raised ?txs (hi_nonce p c) c" for c
    using q(4) s(4) by (simp add: hi_nonce_def)
  have mine: "bt_get (mineable s) k = (if snd k \<le> hi_nonce s (fst k) then None else bt_get (mineable p) k)" for k
  proof (cases "fst k \<in> ?C")
    case True
    have "snd k \<le> hi_nonce s (fst k)" if "k \<in> tx_key ` set ?txs"
      using that hi raised_ge_nonce by (auto simp: tx_key_def)
    moreover have "hi_nonce s (fst k) = hi_nonce q (fst k)" by (simp add: hi_nonce_def s(4))
    ultimately show ?thesis
      using True q(2) q(7) [rule_format, of k] s(5) [rule_format, of k] by auto
  next
    case False
    have "hi_nonce s (fst k) < snd k" if "bt_get (mineable p) k = Some e" for e
      using that assms hi raised_other [OF False]
      by (cases e) (auto simp: pool_inv_def pool_inv_x_def keys_ok_def)
    then have "snd k \<le> hi_nonce s (fst k) \<Longrightarrow> bt_get (mineable p) k = None"
      by (metis leD option.exhaust)
    moreover have "k \<notin> tx_key ` set ?txs" using False by (auto simp: tx_key_def)
    ultimately show ?thesis
      using False q(2) q(7) [rule_format, of k] s(5) [rule_format, of k] by auto
  qed
  let ?p = "drop_empty_round r s"
  have "pool_inv ?p" using s(2) by (simp add: pool_inv_def pool_inv_x_drop_round)
  moreover have "commit batch r p = Inr ?p"
    using q(1) s(1) assert_disjoint_ok [OF pool_inv_x_drop_round [OF s(2)]] by (simp add: commit_def)
  ultimately show ?thesis
    using hi mine q(6) s(3) by (simp add: hi_nonce_def)
qed

text \<open>Rolling back: the keys still to be treated are InFlight but no longer listed.\<close>

definition unlisted :: "txkey set \<Rightarrow> txpool \<Rightarrow> bool" where
  "unlisted K p \<longleftrightarrow> (\<forall>r ks. fmlookup (inflight_by_round p) r = Some ks \<longrightarrow> set ks \<inter> K = {})"

lemma pool_inv_x_unfly:
  assumes "pool_inv_x T P p" and "unlisted {k} p"
  shows "pool_inv_x T (P - {k}) (p\<lparr>inflight := fmdrop k (inflight p)\<rparr>)"
proof -
  let ?p = "p\<lparr>inflight := fmdrop k (inflight p)\<rparr>"
  have parts: "mineable_ok p" "keys_ok T p" "inflight_ok P p" "rounds_ok p"
    using pool_inv_xD [OF assms(1)] .
  have "mineable_ok ?p" "keys_ok T ?p"
    using parts(1,2) by (auto simp: mineable_ok_def keys_ok_def hi_nonce_def)
  moreover have "inflight_ok (P - {k}) ?p"
    using parts(3) by (auto simp: inflight_ok_def)
  moreover have "rounds_ok ?p"
    using parts(4) assms(2) by (fastforce simp: rounds_ok_def unlisted_def)
  ultimately show ?thesis by (simp add: pool_inv_x_def)
qed

lemma rollback_key_spec:
  assumes inv: "pool_inv_x {} P p" and "unlisted {k} p" and e: "fmlookup (inflight p) k = Some e"
  shows "(rollback_key k p = Inl f \<longrightarrow> f = Overflow) \<and>
    (rollback_key k p = Inr p' \<longrightarrow> pool_inv_x {} (P - {k}) p' \<and>
       inflight p' = fmdrop k (inflight p) \<and>
       inflight_by_round p' = inflight_by_round p \<and> high_committed_nonce p' = high_committed_nonce p \<and>
       mineable p' = (if snd k \<le> hi_nonce p (fst k) then mineable p
                      else bt_insert k (ie_tx e, ie_size e) (mineable p)))"
proof (cases "snd k \<le> hi_nonce p (fst k)")
  case True
  with pool_inv_x_unfly [OF inv assms(2)] show ?thesis
    by (auto simp: rollback_key_def split: prod.splits)
next
  case False
  let ?q = "p\<lparr>inflight := fmdrop k (inflight p)\<rparr>"
  let ?m = "bt_insert k (ie_tx e, ie_size e) (mineable p)"
  have q: "pool_inv_x {} (P - {k}) ?q" using inv assms(2) by (rule pool_inv_x_unfly)
  have key: "tx_key (ie_tx e) = k"
    using pool_inv_xD(3) [OF inv] e unfolding inflight_ok_def by blast
  have "bt_get (mineable p) k = None"
  proof (rule ccontr)
    assume "bt_get (mineable p) k \<noteq> None"
    then obtain tx sz where "bt_get (mineable p) k = Some (tx, sz)" by auto
    then show False
      using pool_inv_xD(2) [OF inv] e unfolding keys_ok_def fmmem_def by blast
  qed
  then have tot: "total ?m = mineable_bytes p + ie_size e"
    using inv total_bt_insert by (simp add: pool_inv_x_def mineable_ok_def)
  have "pool_inv_x {} (P - {k}) (?q\<lparr>mineable := ?m, mineable_bytes := total ?m\<rparr>)" if "total ?m < 2 ^ 64"
    using pool_inv_x_insert [OF q key] that False by (simp add: hi_nonce_def)
  then show ?thesis
    using False e tot by (auto simp: rollback_key_def add_u64_def split: prod.splits if_splits)
qed

lemma rollback_keys_ok:
  assumes "pool_inv_x {} (set ks) p" and "unlisted (set ks) p" and "distinct ks"
    and "\<forall>k\<in>set ks. fmmem k (inflight p)"
  shows "(rfold rollback_key ks p = Inl f \<longrightarrow> f = Overflow) \<and>
    (rfold rollback_key ks p = Inr p' \<longrightarrow> pool_inv p' \<and>
       inflight_by_round p' = inflight_by_round p \<and> high_committed_nonce p' = high_committed_nonce p \<and>
       (\<forall>k. fmlookup (inflight p') k = (if k \<in> set ks then None else fmlookup (inflight p) k)) \<and>
       (\<forall>k. bt_get (mineable p') k =
          (if k \<in> set ks \<and> hi_nonce p (fst k) < snd k
           then map_option (\<lambda>e. (ie_tx e, ie_size e)) (fmlookup (inflight p) k)
           else bt_get (mineable p) k)))"
  using assms
proof (induction ks arbitrary: p)
  case Nil
  then show ?case by (auto simp: pool_inv_def)
next
  case (Cons k ks)
  obtain e where e: "fmlookup (inflight p) k = Some e"
    using Cons.prems(4) by (auto simp: fmmem_iff)
  have u: "unlisted {k} p" using Cons.prems(2) by (auto simp: unlisted_def)
  note step = rollback_key_spec [OF Cons.prems(1) u e]
  have bt: "bt_inv (mineable p)" using Cons.prems(1) by (simp add: pool_inv_x_def mineable_ok_def)
  show ?case
  proof (cases "rollback_key k p")
    case (Inl f')
    with step show ?thesis by simp
  next
    case (Inr q)
    with step have q: "pool_inv_x {} (set (k # ks) - {k}) q" "inflight q = fmdrop k (inflight p)"
        "inflight_by_round q = inflight_by_round p" "high_committed_nonce q = high_committed_nonce p"
        "mineable q = (if snd k \<le> hi_nonce p (fst k) then mineable p
                       else bt_insert k (ie_tx e, ie_size e) (mineable p))" by blast+
    have "set (k # ks) - {k} = set ks" using Cons.prems(3) by auto
    with q(1) have q1: "pool_inv_x {} (set ks) q" by simp
    have "unlisted (set ks) q" using Cons.prems(2) q(3) by (auto simp: unlisted_def)
    moreover have "\<forall>k'\<in>set ks. fmmem k' (inflight q)" using Cons.prems(3,4) q(2) by auto
    ultimately have IH: "(rfold rollback_key ks q = Inl f \<longrightarrow> f = Overflow) \<and>
      (rfold rollback_key ks q = Inr p' \<longrightarrow> pool_inv p' \<and>
       inflight_by_round p' = inflight_by_round q \<and> high_committed_nonce p' = high_committed_nonce q \<and>
       (\<forall>k. fmlookup (inflight p') k = (if k \<in> set ks then None else fmlookup (inflight q) k)) \<and>
       (\<forall>k. bt_get (mineable p') k =
          (if k \<in> set ks \<and> hi_nonce q (fst k) < snd k
           then map_option (\<lambda>e. (ie_tx e, ie_size e)) (fmlookup (inflight q) k)
           else bt_get (mineable q) k)))"
      using Cons.IH [OF q1] Cons.prems(3) by simp
    have hi: "hi_nonce q c = hi_nonce p c" for c by (simp add: hi_nonce_def q(4))
    have get: "bt_get (mineable q) j = (if j = k \<and> hi_nonce p (fst k) < snd k
        then Some (ie_tx e, ie_size e) else bt_get (mineable p) j)" for j
      using q(5) bt by (auto simp: bt_get_insert)
    show ?thesis
      using IH Inr Cons.prems(3) by (auto simp: q(2,3,4) hi get e)
  qed
qed

end
