(* ===== verification/Sample_Ext.thy ===== *)
theory Sample_Ext
  imports Wire_Types
begin

text \<open>
  A concrete instance of the external functions, on which the theorems with hypotheses about them
  are instantiated: a prefix-free codec in place of bincode, the encoding itself in place of the
  hash of a block (so that no two blocks share a hash), the first bytes in place of the hash of a
  byte string, a keyed tag in place of a signature, a finite map in
  place of the store and a network that hands out one handler per message and never resolves it.
\<close>

section \<open>A prefix-free codec\<close>

type_synonym 'a decoder = "bytes \<Rightarrow> ('a \<times> bytes) option"

definition decodes :: "('a \<Rightarrow> bytes) \<Rightarrow> 'a decoder \<Rightarrow> bool" where
  "decodes enc dec \<longleftrightarrow> (\<forall>x s. dec (enc x @ s) = Some (x, s))"

definition enc_nat :: "nat \<Rightarrow> bytes" where
  "enc_nat n = replicate n 1 @ [0]"

fun dec_nat :: "nat decoder" where
  "dec_nat [] = None"
| "dec_nat (b # s) = (if b = 0 then Some (0, s) else map_option (\<lambda>(n, t). (Suc n, t)) (dec_nat s))"

definition enc_bytes :: "bytes \<Rightarrow> bytes" where
  "enc_bytes bs = enc_nat (length bs) @ bs"

definition dec_bytes :: "bytes decoder" where
  "dec_bytes s = map_option (\<lambda>(n, t). (take n t, drop n t)) (dec_nat s)"

definition enc_list :: "('a \<Rightarrow> bytes) \<Rightarrow> 'a list \<Rightarrow> bytes" where
  "enc_list enc xs = enc_nat (length xs) @ concat (map enc xs)"

fun dec_many :: "'a decoder \<Rightarrow> nat \<Rightarrow> 'a list decoder" where
  "dec_many dec 0 s = Some ([], s)"
| "dec_many dec (Suc n) s =
     (case dec s of
        None \<Rightarrow> None
      | Some (x, t) \<Rightarrow> map_option (\<lambda>(xs, u). (x # xs, u)) (dec_many dec n t))"

definition dec_list :: "'a decoder \<Rightarrow> 'a list decoder" where
  "dec_list dec s = (case dec_nat s of None \<Rightarrow> None | Some (n, t) \<Rightarrow> dec_many dec n t)"

definition enc_tx :: "transaction \<Rightarrow> bytes" where
  "enc_tx tx = enc_nat (tx_client_id tx) @ enc_nat (tx_nonce tx) @ enc_bytes (tx_data tx) @ enc_bytes (tx_request tx)"

definition dec_tx :: "transaction decoder" where
  "dec_tx s =
     (case dec_nat s of None \<Rightarrow> None | Some (c, s) \<Rightarrow>
      case dec_nat s of None \<Rightarrow> None | Some (n, s) \<Rightarrow>
      case dec_bytes s of None \<Rightarrow> None | Some (d, s) \<Rightarrow>
      case dec_bytes s of None \<Rightarrow> None | Some (q, s) \<Rightarrow>
      Some (\<lparr>tx_client_id = c, tx_nonce = n, tx_data = d, tx_request = q\<rparr>, s))"

definition enc_vote :: "vote \<Rightarrow> bytes" where
  "enc_vote v = enc_nat (v_origin v) @ enc_bytes (v_auth v)"

fun enc_cert_type :: "cert_type \<Rightarrow> bytes" where
  "enc_cert_type (BlameCert r v) = enc_nat 0 @ enc_nat r @ enc_nat v"
| "enc_cert_type (VoteCert v h) = enc_nat 1 @ enc_nat v @ enc_bytes h"
| "enc_cert_type (QuitViewCert v h) = enc_nat 2 @ enc_nat v @ enc_bytes h"
| "enc_cert_type DEFAULT = enc_nat 3"

definition enc_cert :: "certificate \<Rightarrow> bytes" where
  "enc_cert c = enc_cert_type (cert_msg c) @ enc_list enc_vote (cert_votes c)"

definition enc_header :: "header \<Rightarrow> bytes" where
  "enc_header h = enc_bytes (hdr_prev h) @ enc_bytes (hdr_extra h) @ enc_nat (hdr_author h) @
     enc_nat (hdr_height h) @ enc_list enc_cert (hdr_blame_certificates h)"

section \<open>Encoding is injective on what precedes any suffix\<close>

definition prefix_free :: "('a \<Rightarrow> bytes) \<Rightarrow> bool" where
  "prefix_free enc \<longleftrightarrow> (\<forall>x y s t. enc x @ s = enc y @ t \<longrightarrow> x = y \<and> s = t)"

lemma prefix_freeD: "prefix_free enc \<Longrightarrow> enc x @ s = enc y @ t \<longleftrightarrow> x = y \<and> s = t"
  by (auto simp: prefix_free_def)

lemma decodes_prefix_free: "decodes enc dec \<Longrightarrow> prefix_free enc"
  unfolding decodes_def prefix_free_def by (metis option.inject prod.inject)

lemma dec_enc_nat: "dec_nat (enc_nat n @ s) = Some (n, s)"
  by (induction n) (simp_all add: enc_nat_def)

lemma dec_enc_bytes: "dec_bytes (enc_bytes bs @ s) = Some (bs, s)"
  by (simp add: dec_bytes_def enc_bytes_def dec_enc_nat)

lemma dec_enc_list: "decodes enc dec \<Longrightarrow> dec_list dec (enc_list enc xs @ s) = Some (xs, s)"
proof -
  assume dec: "decodes enc dec"
  have "dec_many dec (length xs) (concat (map enc xs) @ s) = Some (xs, s)"
    using dec by (induction xs) (simp_all add: decodes_def)
  then show ?thesis by (simp add: dec_list_def enc_list_def dec_enc_nat)
qed

lemma dec_enc_tx: "decodes enc_tx dec_tx"
  by (simp add: decodes_def enc_tx_def dec_tx_def dec_enc_nat dec_enc_bytes)

lemma prefix_free_nat: "prefix_free enc_nat"
  by (rule decodes_prefix_free [of _ dec_nat]) (simp add: decodes_def dec_enc_nat)

lemma prefix_free_bytes: "prefix_free enc_bytes"
  by (rule decodes_prefix_free [of _ dec_bytes]) (simp add: decodes_def dec_enc_bytes)

lemmas prefix_free_simps = prefix_freeD [OF prefix_free_nat] prefix_freeD [OF prefix_free_bytes]

lemma prefix_free_list:
  assumes "prefix_free enc"
  shows "prefix_free (enc_list enc)"
  unfolding prefix_free_def
proof (intro allI impI)
  fix xs ys s t assume eq: "enc_list enc xs @ s = enc_list enc ys @ t"
  then have len: "length xs = length ys" and "concat (map enc xs) @ s = concat (map enc ys) @ t"
    by (simp_all add: enc_list_def prefix_free_simps)
  then show "xs = ys \<and> s = t"
    by (induction xs ys rule: list_induct2) (simp_all add: prefix_freeD [OF assms])
qed

lemma prefix_free_vote: "prefix_free enc_vote"
  by (auto simp: prefix_free_def enc_vote_def prefix_free_simps)

lemma prefix_free_cert_type: "prefix_free enc_cert_type"
  unfolding prefix_free_def
proof (intro allI impI)
  fix x y s t assume "enc_cert_type x @ s = enc_cert_type y @ t"
  then show "x = y \<and> s = t"
    by (cases x; cases y) (simp_all add: prefix_free_simps)
qed

lemma prefix_free_cert: "prefix_free enc_cert"
  by (auto simp: prefix_free_def enc_cert_def prefix_freeD [OF prefix_free_cert_type]
      prefix_freeD [OF prefix_free_list [OF prefix_free_vote]])

lemma prefix_free_header: "prefix_free enc_header"
  by (auto simp: prefix_free_def enc_header_def prefix_free_simps
      prefix_freeD [OF prefix_free_list [OF prefix_free_cert]])

section \<open>The instance\<close>

definition sample_ext :: ext where
  "sample_ext =
     \<lparr>EMPTY_HASH = [],
      hash_block = (\<lambda>h b. enc_header h @ enc_bytes (body_batch_hash b)),
      hash_tx = enc_tx,
      hash_ucr = (\<lambda>h r v. enc_bytes h @ enc_nat r @ enc_nat v),
      do_hash = (\<lambda>bs. take 32 (replicate 24 0 @ bs @ replicate 8 0)),
      sk_sign = (\<lambda>sk m. Some (sk @ m)),
      pk_verify = (\<lambda>pk m s. s = pk @ m),
      ser_cert_type = enc_cert_type,
      ser_batch = (\<lambda>txs. enc_list enc_tx txs),
      de_batch = (\<lambda>bs. map_option fst (dec_list dec_tx bs)),
      ser_client_msg = (\<lambda>m. Some []),
      tx_serialized_size = (\<lambda>tx. Some (length (enc_tx tx))),
      store_write = fmupd,
      store_read = (\<lambda>k m. fmlookup m k),
      net_send = (\<lambda>i r. Some i),
      net_in_flight = (\<lambda>i h. True),
      client_send = (\<lambda>i c. Some i),
      client_in_flight = (\<lambda>i h. True),
      decode_keypair = Some,
      decode_public_key = Some\<rparr>"

definition sample_tx :: "nat \<Rightarrow> nat \<Rightarrow> transaction" where
  "sample_tx c n = \<lparr>tx_client_id = c, tx_nonce = n, tx_data = [], tx_request = []\<rparr>"

definition sample_batch :: "transaction list \<Rightarrow> cached_batch" where
  "sample_batch txs = \<lparr>cb_payload = txs, cb_hash = None, cb_tx_hashes = None\<rparr>"

lemma sample_tx_simps [simp]:
  "tx_client_id (sample_tx c n) = c" "tx_nonce (sample_tx c n) = n" "cb_payload (sample_batch txs) = txs"
  by (simp_all add: sample_tx_def sample_batch_def)

lemma sample_ext_simps [simp]:
  "EMPTY_HASH sample_ext = []" "sk_sign sample_ext sk m = Some (sk @ m)"
  "pk_verify sample_ext pk m s \<longleftrightarrow> s = pk @ m" "store_write sample_ext = fmupd"
  "store_read sample_ext k st = fmlookup st k" "net_send sample_ext i r = Some i"
  "net_in_flight sample_ext i h" "decode_keypair sample_ext = Some" "decode_public_key sample_ext = Some"
  by (simp_all add: sample_ext_def)

lemma sample_collision_free: "collision_free sample_ext"
  unfolding collision_free_def
proof (intro conjI allI impI)
  fix h b h' b' assume "hash_block sample_ext h b = hash_block sample_ext h' b'"
  then have "enc_header h @ (enc_bytes (body_batch_hash b) @ []) =
      enc_header h' @ (enc_bytes (body_batch_hash b') @ [])" by (simp add: sample_ext_def)
  then have "h = h'" "body_batch_hash b = body_batch_hash b'"
    using prefix_freeD [OF prefix_free_header] prefix_freeD [OF prefix_free_bytes] by blast+
  then show "h = h'" and "b = b'" by simp_all
next
  fix h b show "hash_block sample_ext h b \<noteq> EMPTY_HASH sample_ext"
    by (simp add: sample_ext_def enc_bytes_def enc_nat_def)
qed

lemma sample_hash_acyclic: "hash_acyclic sample_ext"
  unfolding hash_acyclic_def
  by (rule exI [of _ length]) (simp add: sample_ext_def enc_header_def enc_bytes_def enc_nat_def)

lemma sample_codec_ok: "batch_codec_ok sample_ext"
  using dec_enc_list [OF dec_enc_tx, of _ "[]"] by (simp add: batch_codec_ok_def sample_ext_def)

lemma sample_store_ok: "store_ok sample_ext"
  by (simp add: store_ok_def)

lemma sample_sign_verifies: "sign_verifies sample_ext sk sk"
  by (simp add: sign_verifies_def)

end
