(* ===== verification/Tx_Pool_Laws.thy ===== *)
theory Tx_Pool_Laws
  imports Tx_Pool Sample_Ext
begin

text \<open>
  The laws of the transaction pool: what \<open>rollback\<close> and \<open>make_batch\<close> compute on a well-formed pool,
  independence from the iteration order of the hash containers, the pool as a step system, and
  the properties of the component. \<open>make_batch\<close> is compared with \<open>seal\<close>, a plain recursion over the
  sorted entries.
\<close>

section \<open>Rolling back\<close>

text \<open>The InFlight entries a rollback of the rounds \<open>R\<close> is about.\<close>

definition orphan :: "round set \<Rightarrow> txpool \<Rightarrow> txkey \<Rightarrow> inflight_entry option" where
  "orphan R p k =
     (case fmlookup (inflight p) k of
        Some e \<Rightarrow> if ie_round e \<in> R then Some e else None
      | None \<Rightarrow> None)"

text \<open>The contract of rolling back the rounds \<open>R\<close>.\<close>

definition rolled_back :: "round set \<Rightarrow> txpool \<Rightarrow> txpool \<Rightarrow> bool" where
  "rolled_back R p p' \<longleftrightarrow>
     high_committed_nonce p' = high_committed_nonce p \<and>
     (\<forall>k. fmlookup (inflight p') k = (if orphan R p k \<noteq> None then None else fmlookup (inflight p) k)) \<and>
     (\<forall>k. bt_get (mineable p') k =
        (case orphan R p k of
           Some e \<Rightarrow> if hi_nonce p (fst k) < snd k then Some (ie_tx e, ie_size e) else bt_get (mineable p) k
         | None \<Rightarrow> bt_get (mineable p) k))"

lemma pool_invD:
  assumes "pool_inv p"
  shows pool_inv_mineable: "bt_get (mineable p) k = Some (tx, sz) \<Longrightarrow>
      tx_key tx = k \<and> \<not> fmmem k (inflight p) \<and> hi_nonce p (fst k) < snd k"
    and pool_inv_inflight: "fmlookup (inflight p) k = Some e \<Longrightarrow> tx_key (ie_tx e) = k \<and>
      (\<exists>ks. fmlookup (inflight_by_round p) (ie_round e) = Some ks \<and> k \<in> set ks)"
    and pool_inv_rounds: "fmlookup (inflight_by_round p) r = Some ks \<Longrightarrow>
      distinct ks \<and> (\<forall>k\<in>set ks. \<exists>e. fmlookup (inflight p) k = Some e \<and> ie_round e = r)"
    and pool_inv_bytes: "mineable_ok p"
  using assms unfolding pool_inv_def pool_inv_x_def keys_ok_def inflight_ok_def rounds_ok_def by blast+

lemma pool_inv_listed:
  assumes "pool_inv p" and "fmlookup (inflight_by_round p) r = Some ks"
  shows "k \<in> set ks \<longleftrightarrow> orphan {r} p k \<noteq> None"
proof
  assume "k \<in> set ks"
  then show "orphan {r} p k \<noteq> None"
    using pool_inv_rounds [OF assms] by (auto simp: orphan_def)
next
  assume "orphan {r} p k \<noteq> None"
  then obtain e where "fmlookup (inflight p) k = Some e" "ie_round e = r"
    by (auto simp: orphan_def split: option.splits if_splits)
  then show "k \<in> set ks"
    using pool_inv_inflight [OF assms(1), of k e] assms(2) by simp
qed

lemma pool_inv_unlist:
  assumes "pool_inv p" and "fmlookup (inflight_by_round p) r = Some ks"
  defines "q \<equiv> p\<lparr>inflight_by_round := fmdrop r (inflight_by_round p)\<rparr>"
  shows "pool_inv_x {} (set ks) q" "unlisted (set ks) q" "distinct ks" "\<forall>k\<in>set ks. fmmem k (inflight q)"
proof -
  have parts: "mineable_ok p" "keys_ok {} p" "inflight_ok {} p" "rounds_ok p"
    using assms(1) pool_inv_xD unfolding pool_inv_def by blast+
  have "inflight_ok (set ks) q"
    unfolding inflight_ok_def
  proof (intro allI impI conjI)
    fix k e assume "fmlookup (inflight q) k = Some e"
    then have "fmlookup (inflight p) k = Some e" by (simp add: q_def)
    then have *: "tx_key (ie_tx e) = k"
        "\<exists>ks. fmlookup (inflight_by_round p) (ie_round e) = Some ks \<and> k \<in> set ks"
      using parts(3) unfolding inflight_ok_def by blast+
    then show "tx_key (ie_tx e) = k" by blast
    assume "k \<notin> set ks"
    with *(2) show "\<exists>ks. fmlookup (inflight_by_round q) (ie_round e) = Some ks \<and> k \<in> set ks"
      using assms(2) by (cases "ie_round e = r") (auto simp: q_def)
  qed
  then show "pool_inv_x {} (set ks) q"
    using parts by (auto simp: pool_inv_x_def q_def mineable_ok_def keys_ok_def rounds_ok_def hi_nonce_def)
  show "unlisted (set ks) q"
    unfolding unlisted_def
  proof (intro allI impI)
    fix r' ks' assume "fmlookup (inflight_by_round q) r' = Some ks'"
    then have "r' \<noteq> r" "fmlookup (inflight_by_round p) r' = Some ks'"
      by (auto simp: q_def split: if_splits)
    then show "set ks' \<inter> set ks = {}"
      using pool_inv_rounds [OF assms(1), of r'] pool_inv_rounds [OF assms(1,2)]
      by (metis disjoint_iff option.inject)
  qed
  show "distinct ks" and "\<forall>k\<in>set ks. fmmem k (inflight q)"
    using pool_inv_rounds [OF assms(1,2)] by (auto simp: q_def fmmem_iff)
qed

lemma orphan_none_unlisted:
  assumes "pool_inv p" and "fmlookup (inflight_by_round p) r = None"
  shows "orphan {r} p k = None"
  using pool_inv_inflight [OF assms(1), of k] assms(2)
  by (auto simp: orphan_def split: option.splits)

lemma rollback_round_spec:
  assumes "pool_inv p"
  shows "(rollback_round r p = Inl f \<longrightarrow> f = Overflow) \<and>
    (rollback_round r p = Inr p' \<longrightarrow> pool_inv p' \<and> rolled_back {r} p p')"
proof (cases "fmlookup (inflight_by_round p) r")
  case None
  with assms orphan_none_unlisted [OF assms None] show ?thesis
    by (auto simp: rollback_round_def rolled_back_def)
next
  case (Some ks)
  let ?q = "p\<lparr>inflight_by_round := fmdrop r (inflight_by_round p)\<rparr>"
  note loop = rollback_keys_ok [OF pool_inv_unlist [OF assms Some], of f p']
  have "map_option (\<lambda>e. (ie_tx e, ie_size e)) (fmlookup (inflight p) k) =
      map_option (\<lambda>e. (ie_tx e, ie_size e)) (orphan {r} p k)" if "orphan {r} p k \<noteq> None" for k
    using that by (auto simp: orphan_def split: option.splits if_splits)
  then show ?thesis
    using loop Some pool_inv_listed [OF assms Some]
    by (auto simp: rollback_round_def rolled_back_def hi_nonce_def split: option.splits)
qed

lemma rolled_back_trans:
  assumes "rolled_back R p q" and "rolled_back S q s"
  shows "rolled_back (R \<union> S) p s"
proof -
  have hi: "hi_nonce q c = hi_nonce p c" for c
    using assms(1) by (simp add: rolled_back_def hi_nonce_def)
  note q = assms(1) [unfolded rolled_back_def, THEN conjunct2]
  note s = assms(2) [unfolded rolled_back_def, THEN conjunct2]
  have orp: "orphan S q k = (if orphan R p k \<noteq> None then None else orphan S p k)" for k
    unfolding orphan_def [of S q] using q [THEN conjunct1, rule_format, of k]
    by (auto simp: orphan_def split: option.splits)
  have un: "orphan (R \<union> S) p k = (if orphan R p k \<noteq> None then orphan R p k else orphan S p k)" for k
    by (auto simp: orphan_def split: option.splits)
  have "fmlookup (inflight s) k = (if orphan (R \<union> S) p k \<noteq> None then None else fmlookup (inflight p) k)" for k
    using q [THEN conjunct1, rule_format, of k] s [THEN conjunct1, rule_format, of k]
    by (auto simp: orp un)
  moreover have "bt_get (mineable s) k =
        (case orphan (R \<union> S) p k of
           Some e \<Rightarrow> if hi_nonce p (fst k) < snd k then Some (ie_tx e, ie_size e) else bt_get (mineable p) k
         | None \<Rightarrow> bt_get (mineable p) k)" for k
    using q [THEN conjunct2, rule_format, of k] s [THEN conjunct2, rule_format, of k]
    by (auto simp: hi orp un split: option.splits)
  ultimately show ?thesis
    using assms(1,2) by (simp add: rolled_back_def)
qed

lemma rolled_back_unique:
  assumes "rolled_back R p p'" and "rolled_back R q q'" and "inflight q = inflight p"
    and "mineable q = mineable p" and "high_committed_nonce q = high_committed_nonce p"
  shows "bt_get (mineable q') = bt_get (mineable p')" "inflight q' = inflight p'"
  using assms
  by (intro ext fmap_ext;
      simp add: rolled_back_def orphan_def hi_nonce_def split: option.splits del: split_paired_All)+

lemma rollback_loop_spec:
  assumes "pool_inv p"
  shows "(rfold rollback_round rs p = Inl f \<longrightarrow> f = Overflow) \<and>
    (rfold rollback_round rs p = Inr p' \<longrightarrow> pool_inv p' \<and> rolled_back (set rs) p p')"
  using assms
proof (induction rs arbitrary: p)
  case Nil
  then show ?case by (auto simp: rolled_back_def orphan_def split: option.splits)
next
  case (Cons r rs)
  show ?case
  proof (cases "rollback_round r p")
    case (Inl g)
    then show ?thesis using rollback_round_spec [OF Cons.prems, of r g p'] by simp
  next
    case (Inr q)
    then have "pool_inv q" "rolled_back {r} p q"
      using rollback_round_spec [OF Cons.prems] by blast+
    with Cons.IH [of q] rolled_back_trans [of "{r}" p q "set rs" p'] Inr show ?thesis
      by auto
  qed
qed

lemma rollback_spec:
  assumes "pool_inv p"
  shows "(rollback rs p = Inl f \<longrightarrow> f = Overflow) \<and>
    (rollback rs p = Inr p' \<longrightarrow> pool_inv p' \<and> rolled_back (set rs) p p')"
  using rollback_loop_spec [OF assms, of rs] assert_disjoint_ok
  by (cases "rfold rollback_round rs p") (fastforce simp: rollback_def pool_inv_def)+

text \<open>A rollback whose orphans fit into the byte counter does not fault.\<close>

lemma rollback_keys_total:
  assumes "distinct ks" and "\<forall>k\<in>set ks. fmmem k (inflight p)"
    and "mineable_bytes p + (\<Sum>k\<leftarrow>ks. ie_size (the (fmlookup (inflight p) k))) < 2 ^ 64"
  shows "\<exists>p'. rfold rollback_key ks p = Inr p'"
  using assms
proof (induction ks arbitrary: p)
  case Nil
  then show ?case by simp
next
  case (Cons k ks)
  obtain e where e: "fmlookup (inflight p) k = Some e"
    using Cons.prems(2) by (auto simp: fmmem_iff)
  obtain q where q: "rollback_key k p = Inr q" "inflight q = fmdrop k (inflight p)"
      "mineable_bytes q \<le> mineable_bytes p + ie_size e"
  proof (cases k)
    case (Pair c n)
    have "mineable_bytes p + ie_size e < 2 ^ 64" using Cons.prems(3) e by simp
    then show ?thesis
      using that e Pair by (cases "n \<le> hi_nonce p c") (simp_all add: rollback_key_def add_u64_def)
  qed
  have "map (\<lambda>k. ie_size (the (fmlookup (inflight q) k))) ks = map (\<lambda>k. ie_size (the (fmlookup (inflight p) k))) ks"
    using Cons.prems(1) q(2) by auto
  then have "\<exists>p'. rfold rollback_key ks q = Inr p'"
    using Cons.prems q e by (intro Cons.IH) (auto simp del: map_eq_conv)
  with q(1) show ?case by auto
qed

section \<open>Sealing a batch\<close>

text \<open>
  The reference for \<open>make_batch\<close>: walk the sorted entries and take the next one as long as the
  bytes taken so far are below the limit. The result is the taken prefix and the rest.
\<close>

type_synonym entries = "(txkey \<times> transaction \<times> nat) list"

fun seal :: "nat \<Rightarrow> nat \<Rightarrow> entries \<Rightarrow> entries \<times> entries" where
  "seal limit acc [] = ([], [])"
| "seal limit acc ((k, tx, sz) # m) =
     (if acc < limit then (let (t, rest) = seal limit (acc + sz) m in ((k, tx, sz) # t, rest))
      else ([], (k, tx, sz) # m))"

lemma seal_append: "seal limit acc m = (t, rest) \<Longrightarrow> t @ rest = m"
  by (induction limit acc m arbitrary: t rest rule: seal.induct) (auto split: if_splits prod.splits)

text \<open>Every taken entry was taken while the batch was short; what is left is left because it is full.\<close>

lemma seal_short:
  "seal limit acc m = (t, rest) \<Longrightarrow> i < length t \<Longrightarrow> acc + total (take i t) < limit"
proof (induction limit acc m arbitrary: t rest i rule: seal.induct)
  case (1 limit acc)
  then show ?case by simp
next
  case (2 limit acc k tx sz m)
  show ?case
  proof (cases i)
    case 0
    with 2 show ?thesis by (auto split: if_splits)
  next
    case (Suc j)
    with "2.prems" have "acc < limit" by (auto split: if_splits)
    with "2.prems"(1) obtain t' where t': "t = (k, tx, sz) # t'" "seal limit (acc + sz) m = (t', rest)"
      by (auto split: prod.splits)
    with "2.IH" [OF \<open>acc < limit\<close> t'(2), of j] "2.prems"(2) Suc show ?thesis by (simp add: add.assoc)
  qed
qed

lemma seal_full: "seal limit acc m = (t, rest) \<Longrightarrow> rest \<noteq> [] \<Longrightarrow> limit \<le> acc + total t"
  by (induction limit acc m arbitrary: t rest rule: seal.induct)
    (fastforce simp: add.assoc split: if_splits prod.splits)+

lemma total_append [simp]: "total (xs @ ys) = total xs + total ys"
  by (simp add: total_def)

declare make_batch_loop.simps [simp del]

lemma make_batch_loop_seal:
  assumes "pool_inv_x {} {} p" and "seal (pool_batch_size p) acc (mineable p) = (t, rest)"
    and "acc + total (mineable p) < 2 ^ 64"
  shows "\<exists>p'. make_batch_loop r payload acc p = Inr (payload @ map (fst \<circ> snd) t, p') \<and>
    pool_inv_x {} {} p' \<and> mineable p' = rest \<and>
    (\<forall>k. fmlookup (inflight p') k =
       (case map_of t k of
          Some (tx, sz) \<Rightarrow> Some \<lparr>ie_tx = tx, ie_size = sz, ie_round = r\<rparr>
        | None \<Rightarrow> fmlookup (inflight p) k)) \<and>
    high_committed_nonce p' = high_committed_nonce p \<and> pool_batch_size p' = pool_batch_size p"
  using assms
proof (induction "mineable p" arbitrary: p acc payload t)
  case Nil
  then show ?case
    by (intro exI [of _ p]) (simp add: make_batch_loop.simps [of _ _ _ p] bt_first_key_def)
next
  case (Cons e m)
  obtain k tx sz where e: "e = (k, tx, sz)" by (metis prod.exhaust)
  note m = Cons.hyps(2) [symmetric, unfolded e]
  note inv = pool_inv_xD [OF Cons.prems(1)]
  show ?case
  proof (cases "acc < pool_batch_size p")
    case False
    with Cons.prems(1,2) m show ?thesis by (simp add: make_batch_loop.simps [of _ _ _ p])
  next
    case True
    let ?q = "p\<lparr>mineable := m, mineable_bytes := total m\<rparr>"
    let ?s = "put_inflight k tx sz r ?q"
    from Cons.prems(2) m True obtain t' where t: "t = (k, tx, sz) # t'"
        "seal (pool_batch_size p) (acc + sz) m = (t', rest)"
      by (auto split: prod.splits)
    have get: "bt_get (mineable p) k = Some (tx, sz)" by (simp add: m bt_get_def)
    have sorted: "\<forall>k'\<in>fst ` set m. k < k'" using inv(1) m by (simp add: mineable_ok_def)
    have absent: "map_of m k = None" using sorted by (rule map_of_absent_key)
    have key: "tx_key tx = k" "\<not> fmmem k (inflight p)"
      using inv(2) get unfolding keys_ok_def by blast+
    have "pool_inv_x {} {} ?q"
      using pool_inv_x_remove [OF Cons.prems(1), of k] m by simp
    then have s: "pool_inv_x {} {} ?s"
      using key absent by (intro pool_inv_x_put) (simp_all add: bt_get_def)
    have step: "make_batch_loop r payload acc p = make_batch_loop r (payload @ [tx]) (acc + sz) ?s"
      using True m Cons.prems(3)
      by (simp add: make_batch_loop.simps [of _ _ _ p] bt_first_key_def take_mineable_ok [OF inv(1)]
          bt_get_def add_u64_ok)
    have "acc + sz + total (mineable ?s) < 2 ^ 64" "m = mineable ?s"
        "seal (pool_batch_size ?s) (acc + sz) (mineable ?s) = (t', rest)"
      using Cons.prems(3) m t(2) by (simp_all add: put_inflight_def)
    from Cons.hyps(1) [OF this(2) s this(3,1), of "payload @ [tx]"] obtain p' where
      p': "make_batch_loop r (payload @ [tx]) (acc + sz) ?s = Inr (payload @ [tx] @ map (fst \<circ> snd) t', p')"
        "pool_inv_x {} {} p'" "mineable p' = rest"
        "\<forall>j. fmlookup (inflight p') j = (case map_of t' j of
            Some (tx, sz) \<Rightarrow> Some \<lparr>ie_tx = tx, ie_size = sz, ie_round = r\<rparr>
          | None \<Rightarrow> fmlookup (inflight ?s) j)"
        "high_committed_nonce p' = high_committed_nonce ?s" "pool_batch_size p' = pool_batch_size ?s"
      by auto
    have "map_of t' k = None"
      using absent by (simp flip: seal_append [OF t(2)] add: map_of_append map_add_None)
    then have "fmlookup (inflight p') j = (case map_of t j of
            Some (tx, sz) \<Rightarrow> Some \<lparr>ie_tx = tx, ie_size = sz, ie_round = r\<rparr>
          | None \<Rightarrow> fmlookup (inflight p) j)" for j
      using p'(4) [rule_format, of j] by (auto simp: t(1) put_inflight_def split: option.splits)
    with p' show ?thesis by (simp add: step t(1) put_inflight_def)
  qed
qed

lemma touch_round_frame [simp]:
  "mineable (touch_round r p) = mineable p" "inflight (touch_round r p) = inflight p"
  "high_committed_nonce (touch_round r p) = high_committed_nonce p"
  "pool_batch_size (touch_round r p) = pool_batch_size p" "mineable_bytes (touch_round r p) = mineable_bytes p"
  by (simp_all add: touch_round_def)

lemma make_batch_seal:
  assumes "pool_inv p" and "seal (pool_batch_size p) 0 (mineable p) = (t, rest)"
  shows "\<exists>p'. make_batch r p = Inr (map (fst \<circ> snd) t, p') \<and> pool_inv p' \<and> mineable p' = rest \<and>
    (\<forall>k. fmlookup (inflight p') k =
       (case map_of t k of
          Some (tx, sz) \<Rightarrow> Some \<lparr>ie_tx = tx, ie_size = sz, ie_round = r\<rparr>
        | None \<Rightarrow> fmlookup (inflight p) k)) \<and>
    high_committed_nonce p' = high_committed_nonce p"
proof -
  have inv: "pool_inv_x {} {} (touch_round r p)"
    using assms(1) by (simp add: pool_inv_def pool_inv_x_touch)
  have "0 + total (mineable (touch_round r p)) < 2 ^ 64"
    using assms(1) by (simp add: pool_inv_def pool_inv_x_def mineable_ok_def)
  note loop = make_batch_loop_seal [OF inv _ this, of t rest r "[]"]
  obtain q where
    q: "make_batch_loop r [] 0 (touch_round r p) = Inr (map (fst \<circ> snd) t, q)" "pool_inv_x {} {} q"
      "mineable q = rest" "high_committed_nonce q = high_committed_nonce p"
      "\<forall>k. fmlookup (inflight q) k = (case map_of t k of
          Some (tx, sz) \<Rightarrow> Some \<lparr>ie_tx = tx, ie_size = sz, ie_round = r\<rparr>
        | None \<Rightarrow> fmlookup (inflight p) k)"
    using loop [unfolded touch_round_frame append_Nil, OF assms(2)] by blast
  have "assert_disjoint (reset_timer q) = Inr (reset_timer q)"
    using q(2) by (intro assert_disjoint_ok) (simp add: pool_inv_x_reset)
  with q show ?thesis
    by (simp add: make_batch_def pool_inv_def pool_inv_x_reset) (simp add: reset_timer_def)
qed

section \<open>The pool as a step system\<close>

text \<open>The requests the batcher task makes of the pool.\<close>

datatype pool_op =
    OpAdd transaction nat
  | OpAdmit cached_batch round
  | OpMake round
  | OpCommit cached_batch round
  | OpRollback "round list"

fun pool_exec :: "ext \<Rightarrow> pool_op \<Rightarrow> txpool \<Rightarrow> txpool res" where
  "pool_exec E (OpAdd tx sz) p = add_tx tx sz p"
| "pool_exec E (OpAdmit b r) p = admit_proposal E b r p"
| "pool_exec E (OpMake r) p = rbind (make_batch r p) (\<lambda>(_, p'). Inr p')"
| "pool_exec E (OpCommit b r) p = commit b r p"
| "pool_exec E (OpRollback rs) p = rollback rs p"

inductive pool_step :: "ext \<Rightarrow> txpool \<Rightarrow> txpool \<Rightarrow> bool" for E where
  "pool_exec E op p = Inr p' \<Longrightarrow> pool_step E p p'"

inductive_cases pool_stepE: "pool_step E p p'"

lemma make_batch_ok: "pool_inv p \<Longrightarrow> \<exists>txs p'. make_batch r p = Inr (txs, p') \<and> pool_inv p'"
  using make_batch_seal [of p "fst (seal (pool_batch_size p) 0 (mineable p))"
      "snd (seal (pool_batch_size p) 0 (mineable p))" r] by auto

lemma pool_exec_inv:
  assumes "pool_inv p" and "pool_exec E op p = Inr p'"
  shows "pool_inv p'"
proof (cases op)
  case (OpAdd tx sz)
  with assms show ?thesis by (auto intro: pool_inv_add_tx)
next
  case (OpAdmit b r)
  with assms admit_proposal_ok [OF assms(1), of E b r] show ?thesis by auto
next
  case (OpMake r)
  with assms make_batch_ok [OF assms(1), of r] show ?thesis by auto
next
  case (OpCommit b r)
  with assms commit_ok [OF assms(1), of b r] show ?thesis by auto
next
  case (OpRollback rs)
  with assms rollback_spec [OF assms(1)] show ?thesis by simp
qed

lemma pool_exec_fault:
  assumes "pool_inv p" and "pool_exec E op p = Inl f"
  shows "f = Overflow"
proof (cases op)
  case (OpAdd tx sz)
  with assms show ?thesis by (simp add: add_tx_spec split: if_splits)
next
  case (OpAdmit b r)
  with assms admit_proposal_ok [OF assms(1), of E b r] show ?thesis by auto
next
  case (OpMake r)
  with assms make_batch_ok [OF assms(1), of r] show ?thesis by auto
next
  case (OpCommit b r)
  with assms commit_ok [OF assms(1), of b r] show ?thesis by auto
next
  case (OpRollback rs)
  with assms rollback_spec [OF assms(1)] show ?thesis by simp
qed

text \<open>Runs of concrete requests, for the instances below.\<close>

lemma pool_run_steps: "rfold (pool_exec E) ops p = Inr p' \<Longrightarrow> (pool_step E)\<^sup>*\<^sup>* p p'"
  by (induction ops arbitrary: p)
    (auto intro: converse_rtranclp_into_rtranclp pool_step.intros)

lemmas pool_run_defs = Txpool_new_def add_tx_def commit_def commit_one_def commit_gc_def drop_mineable_def
  make_batch_def make_batch_loop.simps rollback_def rollback_round_def rollback_key_def admit_proposal_def
  admit_one_def take_mineable_def put_inflight_def touch_round_def forget_inflight_def drop_empty_round_def
  assert_disjoint_def key_sets_disjoint_def hi_nonce_def reset_timer_def tx_key_def bt_get_def
  bt_first_key_def bt_range_keys_def fmget_or_def fmmem_def hs_insert_def hs_remove_def add_u64_def
  sub_u64_def less_eq_prod_def

interpretation pool: step_system "\<lambda>p. \<exists>bsize. p = Txpool_new bsize" "pool_step E" pool_inv for E
  by unfold_locales (auto simp: pool_inv_new elim!: pool_stepE intro: pool_exec_inv)

text \<open>
  The transaction that the pool holds under a key, and what a request may do to it: it stays until the
  watermark of its client covers it, or one of the transactions \<open>R\<close> of the request takes its place.
\<close>

definition pool_tx :: "txpool \<Rightarrow> txkey \<Rightarrow> transaction option" where
  "pool_tx p k =
     (case bt_get (mineable p) k of Some (tx, _) \<Rightarrow> Some tx | None \<Rightarrow> map_option ie_tx (fmlookup (inflight p) k))"

definition retained :: "transaction set \<Rightarrow> txpool \<Rightarrow> txpool \<Rightarrow> bool" where
  "retained R p p' \<longleftrightarrow>
     (\<forall>c. hi_nonce p c \<le> hi_nonce p' c) \<and>
     (\<forall>k tx. pool_tx p k = Some tx \<longrightarrow>
        snd k \<le> hi_nonce p' (fst k) \<or> (\<exists>tx'\<in>insert tx R. pool_tx p' k = Some tx'))"

lemma retained_refl: "retained R p p"
  by (simp add: retained_def)

lemma retained_trans:
  assumes "retained R p q" and "retained T q s"
  shows "retained (R \<union> T) p s"
  unfolding retained_def
proof (intro conjI allI impI)
  show "hi_nonce p c \<le> hi_nonce s c" for c using assms le_trans unfolding retained_def by blast
  fix k tx assume "pool_tx p k = Some tx"
  then consider "snd k \<le> hi_nonce q (fst k)" | tx' where "tx' \<in> insert tx R" "pool_tx q k = Some tx'"
    using assms(1) unfolding retained_def by blast
  then show "snd k \<le> hi_nonce s (fst k) \<or> (\<exists>tx'\<in>insert tx (R \<union> T). pool_tx s k = Some tx')"
  proof cases
    case 1
    then show ?thesis using assms(2) le_trans unfolding retained_def by blast
  next
    case (2 tx')
    then show ?thesis using assms(2) unfolding retained_def by blast
  qed
qed

lemma pool_tx_inflight: "pool_inv p \<Longrightarrow> fmlookup (inflight p) k = Some e \<Longrightarrow> pool_tx p k = Some (ie_tx e)"
  using pool_inv_mineable [of p k] by (auto simp: pool_tx_def fmmem_def split: option.splits)

lemma pool_tx_key: "pool_inv p \<Longrightarrow> pool_tx p k = Some tx \<Longrightarrow> tx_key tx = k"
  using pool_inv_mineable [of p k] pool_inv_inflight [of p k] by (auto simp: pool_tx_def split: option.splits)

lemma retained_add_tx: "pool_inv p \<Longrightarrow> add_tx tx sz p = Inr p' \<Longrightarrow> retained {tx} p p'"
  by (auto simp: add_tx_spec retained_def pool_tx_def hi_nonce_def bt_get_insert pool_inv_def pool_inv_x_def
      mineable_ok_def split: if_splits option.splits)

lemma retained_admit_one:
  assumes "pool_inv_x {} {} p" and "admit_one E r tx p = Inr p'"
  shows "retained {tx} p p'"
  using assms pool_inv_xD(1) [OF assms(1)]
  by (auto simp: admit_one_def Let_def take_mineable_ok retained_def pool_tx_def hi_nonce_def put_inflight_def
      bt_get_remove mineable_ok_def split: if_splits option.splits)

lemma retained_mono: "retained R p q \<Longrightarrow> R \<subseteq> T \<Longrightarrow> retained T p q"
  unfolding retained_def by blast

lemma retained_admit:
  assumes "pool_inv p" and "admit_proposal E b r p = Inr p'"
  shows "retained (set (cb_payload b)) p p'"
proof -
  have loop: "retained (set txs) q q'" if "rfold (admit_one E r) txs q = Inr q'" "pool_inv_x {} {} q" for txs q q'
    using that
  proof (induction txs arbitrary: q)
    case Nil
    then show ?case by (simp add: retained_refl)
  next
    case (Cons tx txs)
    then obtain t where t: "admit_one E r tx q = Inr t" "rfold (admit_one E r) txs t = Inr q'" by (auto simp: rbind_Inr_iff)
    then have "retained (set txs) t q'" using Cons admit_one_ok [OF Cons.prems(2), of E r tx] by auto
    with retained_trans [OF retained_admit_one [OF Cons.prems(2) t(1)]] show ?case by simp
  qed
  from assms(2) have "rfold (admit_one E r) (cb_payload b) (touch_round r p) = Inr p'"
    by (auto simp: admit_proposal_def assert_disjoint_def)
  moreover have "pool_inv_x {} {} (touch_round r p)" using assms(1) by (simp add: pool_inv_def pool_inv_x_touch)
  ultimately have "retained (set (cb_payload b)) (touch_round r p) p'" by (rule loop)
  moreover have "pool_tx (touch_round r p) k = pool_tx p k" "hi_nonce (touch_round r p) c = hi_nonce p c" for k c
    by (simp_all add: pool_tx_def hi_nonce_def split: option.splits)
  ultimately show ?thesis by (simp add: retained_def)
qed

lemma retained_make_batch:
  assumes "pool_inv p" and "make_batch r p = Inr (txs, p')"
  shows "retained {} p p'"
proof -
  obtain t rest where s: "seal (pool_batch_size p) 0 (mineable p) = (t, rest)" by fastforce
  from make_batch_seal [OF assms(1) s, of r] assms(2) have
    p': "mineable p' = rest" "\<forall>k. fmlookup (inflight p') k = (case map_of t k of
          Some (tx, sz) \<Rightarrow> Some \<lparr>ie_tx = tx, ie_size = sz, ie_round = r\<rparr>
        | None \<Rightarrow> fmlookup (inflight p) k)" "high_committed_nonce p' = high_committed_nonce p" "pool_inv p'"
    by auto
  have "pool_tx p' k = Some tx" if "pool_tx p k = Some tx" for k tx
  proof (cases "map_of t k")
    case (Some e)
    with that seal_append [OF s, symmetric] have "e = (tx, snd e)"
      by (cases e) (simp add: pool_tx_def bt_get_def map_of_append map_add_def)
    with p'(2) [rule_format, of k] Some obtain i where "fmlookup (inflight p') k = Some i" "ie_tx i = tx"
      by (cases e) simp
    then show ?thesis using pool_tx_inflight [OF p'(4)] by simp
  next
    case None
    with p'(1) p'(2) [rule_format, of k] that seal_append [OF s, symmetric] show ?thesis
      by (auto simp: pool_tx_def bt_get_def map_of_append map_add_def split: option.splits)
  qed
  then show ?thesis using p'(3) by (simp add: retained_def hi_nonce_def)
qed

lemma retained_commit:
  assumes "pool_inv p" and "commit b r p = Inr p'"
  shows "retained {} p p'"
proof -
  from commit_ok [OF assms(1), of b r] assms(2) have
    hi: "\<forall>c. hi_nonce p' c = raised (cb_payload b) (hi_nonce p c) c" and
    inf: "\<forall>k. fmlookup (inflight p') k =
       (if k \<in> tx_key ` set (cb_payload b) then None else fmlookup (inflight p) k)" and
    mine: "\<forall>k. bt_get (mineable p') k = (if snd k \<le> hi_nonce p' (fst k) then None else bt_get (mineable p) k)"
    by auto
  have "snd k \<le> hi_nonce p' (fst k)" if "k \<in> tx_key ` set (cb_payload b)" for k
    using that hi raised_ge_nonce by (auto simp: tx_key_def)
  then have "snd k \<le> hi_nonce p' (fst k) \<or> pool_tx p' k = pool_tx p k" for k
    using inf [rule_format, of k] mine [rule_format, of k] unfolding pool_tx_def by metis
  moreover have "hi_nonce p c \<le> hi_nonce p' c" for c using hi raised_ge by simp
  ultimately show ?thesis unfolding retained_def by (metis insertI1)
qed

lemma retained_rolled_back:
  assumes "pool_inv p" and "rolled_back R p p'"
  shows "retained {} p p'"
proof -
  from assms(2) have hi: "hi_nonce p' c = hi_nonce p c" for c by (simp add: rolled_back_def hi_nonce_def)
  have "snd k \<le> hi_nonce p (fst k) \<or> pool_tx p' k = Some tx" if "pool_tx p k = Some tx" for k tx
  proof (cases "orphan R p k")
    case None
    have "pool_tx p' k = pool_tx p k"
      using assms(2) [unfolded rolled_back_def, THEN conjunct2, THEN conjunct1, rule_format, of k]
        assms(2) [unfolded rolled_back_def, THEN conjunct2, THEN conjunct2, rule_format, of k] None by (simp add: pool_tx_def split: option.splits)
    with that show ?thesis by simp
  next
    case (Some e)
    then have "fmlookup (inflight p) k = Some e" by (auto simp: orphan_def split: option.splits if_splits)
    then have "tx = ie_tx e" using pool_tx_inflight [OF assms(1)] that by simp
    with assms(2) [unfolded rolled_back_def, THEN conjunct2, THEN conjunct2, rule_format, of k] Some show ?thesis
      by (auto simp: pool_tx_def)
  qed
  with hi show ?thesis unfolding retained_def by (metis insertI1 order.refl)
qed

text \<open>The transactions that a request offers to the pool.\<close>

fun offered :: "pool_op \<Rightarrow> transaction set" where
  "offered (OpAdd tx _) = {tx}"
| "offered (OpAdmit b _) = set (cb_payload b)"
| "offered _ = {}"

lemma retained_exec: "pool_inv p \<Longrightarrow> pool_exec E op p = Inr p' \<Longrightarrow> retained (offered op) p p'"
  using rollback_spec [of p]
  by (cases op) (auto intro: retained_add_tx retained_admit retained_make_batch retained_commit
      retained_rolled_back)

lemma retained_run:
  assumes "pool_inv p" and "rfold (pool_exec E) ops p = Inr p'"
  shows "retained (\<Union>op\<in>set ops. offered op) p p' \<and> pool_inv p'"
  using assms
proof (induction ops arbitrary: p)
  case Nil
  then show ?case by (simp add: retained_refl)
next
  case (Cons op ops)
  then obtain q where q: "pool_exec E op p = Inr q" "rfold (pool_exec E) ops q = Inr p'" by (auto simp: rbind_Inr_iff)
  from Cons.IH [OF pool_exec_inv [OF Cons.prems(1) q(1)] q(2)] retained_trans [OF retained_exec [OF Cons.prems(1) q(1)]]
  show ?case by auto
qed

lemma watermark_steps:
  assumes "pool_inv p" and "(pool_step E)\<^sup>*\<^sup>* p p'"
  shows "hi_nonce p c \<le> hi_nonce p' c"
  using assms(2)
proof (induction rule: rtranclp_induct)
  case (step q s)
  have "pool_inv q" using pool.inv_steps [OF step(1)] assms(1) by blast
  with step(2) have "hi_nonce q c \<le> hi_nonce s c" by (auto elim!: pool_stepE dest: retained_exec simp: retained_def)
  with step(3) show ?case by simp
qed simp

section \<open>Properties\<close>

lemma distinct_seal_keys:
  assumes "pool_inv p" and "seal (pool_batch_size p) 0 (mineable p) = (t, rest)"
  shows "distinct (map fst t)" "\<forall>k tx sz. map_of t k = Some (tx, sz) \<longrightarrow> bt_get (mineable p) k = Some (tx, sz)"
proof -
  have "bt_inv (mineable p)" using assms(1) by (simp add: pool_inv_def pool_inv_x_def mineable_ok_def)
  then have "distinct (map fst (t @ rest))"
    using bt.entries_distinct seal_append [OF assms(2)] by metis
  then show "distinct (map fst t)" by simp
  show "\<forall>k tx sz. map_of t k = Some (tx, sz) \<longrightarrow> bt_get (mineable p) k = Some (tx, sz)"
    using \<open>distinct (map fst (t @ rest))\<close> seal_append [OF assms(2), symmetric]
    by (auto simp: bt_get_def map_of_append map_add_def dest!: map_of_SomeD split: option.splits)
qed

lemma sum_sizes:
  assumes "distinct ks" and "distinct (map fst t)" and "set ks = fst ` set t"
    and "\<forall>k tx sz. map_of t k = Some (tx, sz) \<longrightarrow> w k = sz"
  shows "(\<Sum>k\<leftarrow>ks. w k) = total t"
proof -
  have "w (fst e) = snd (snd e)" if "e \<in> set t" for e
    using that assms(4) map_of_is_SomeI [OF assms(2), of "fst e" "snd e"]
    by (metis prod.collapse)
  then have "total t = (\<Sum>e\<leftarrow>t. w (fst e))" by (simp add: total_def cong: map_cong)
  also have "\<dots> = (\<Sum>k\<leftarrow>map fst t. w k)" by (simp add: comp_def)
  also have "\<dots> = (\<Sum>k\<in>fst ` set t. w k)" using assms(2)
    by (simp only: sum_list_distinct_conv_sum_set set_map)
  also have "\<dots> = (\<Sum>k\<leftarrow>ks. w k)" using assms(1,3) by (simp add: sum_list_distinct_conv_sum_set)
  finally show ?thesis by simp
qed

lemma rollback_after_make:
  assumes inv: "pool_inv p" and fresh: "\<forall>k e. fmlookup (inflight p) k = Some e \<longrightarrow> ie_round e \<noteq> r"
    and mk: "make_batch r p = Inr (txs, p')"
  shows "\<exists>p''. rollback [r] p' = Inr p'' \<and> mineable p'' = mineable p \<and>
    mineable_bytes p'' = mineable_bytes p \<and> inflight p'' = inflight p \<and>
    high_committed_nonce p'' = high_committed_nonce p"
proof -
  obtain t rest where s: "seal (pool_batch_size p) 0 (mineable p) = (t, rest)" by fastforce
  from make_batch_seal [OF inv s, of r] mk have p': "pool_inv p'" "mineable p' = rest"
      "\<forall>k. fmlookup (inflight p') k = (case map_of t k of
          Some (tx, sz) \<Rightarrow> Some \<lparr>ie_tx = tx, ie_size = sz, ie_round = r\<rparr>
        | None \<Rightarrow> fmlookup (inflight p) k)" "high_committed_nonce p' = high_committed_nonce p"
    by auto
  have t_get: "bt_get (mineable p) k = Some (tx, sz)" if "map_of t k = Some (tx, sz)" for k tx sz
    using distinct_seal_keys(2) [OF inv s] that by blast
  have orp: "orphan {r} p' k =
      map_option (\<lambda>(tx, sz). \<lparr>ie_tx = tx, ie_size = sz, ie_round = r\<rparr>) (map_of t k)" for k
    using p'(3) [rule_format, of k] fresh [rule_format, of k]
    by (auto simp: orphan_def split: option.splits)
  have "\<exists>q. rollback_round r p' = Inr q"
  proof (cases "fmlookup (inflight_by_round p') r")
    case (Some ks)
    let ?q = "p'\<lparr>inflight_by_round := fmdrop r (inflight_by_round p')\<rparr>"
    note un = pool_inv_unlist [OF p'(1) Some]
    have "set ks = fst ` set t"
    proof (rule set_eqI)
      fix k show "k \<in> set ks \<longleftrightarrow> k \<in> fst ` set t"
        using pool_inv_listed [OF p'(1) Some, of k] orp [of k] map_of_eq_None_iff [of t k] by simp
    qed
    then have "(\<Sum>k\<leftarrow>ks. ie_size (the (fmlookup (inflight ?q) k))) = total t"
      using un(3) distinct_seal_keys(1) [OF inv s] p'(3)
      by (intro sum_sizes [where w = "\<lambda>k. ie_size (the (fmlookup (inflight ?q) k))"]) auto
    moreover have "total rest + total t < 2 ^ 64" "mineable_bytes p' = total rest"
      using pool_inv_bytes [OF inv] pool_inv_bytes [OF p'(1)] p'(2) seal_append [OF s, symmetric]
      by (simp_all add: mineable_ok_def)
    ultimately show ?thesis
      using rollback_keys_total [OF un(3,4)] Some by (simp add: rollback_round_def)
  qed (simp add: rollback_round_def)
  then obtain q where q: "rollback_round r p' = Inr q" ..
  then have qi: "pool_inv q" and rb: "rolled_back {r} p' q"
    using rollback_round_spec [OF p'(1)] by blast+
  have inf: "inflight q = inflight p"
  proof (rule fmap_ext)
    fix k show "fmlookup (inflight q) k = fmlookup (inflight p) k"
      using rb [unfolded rolled_back_def, THEN conjunct2, THEN conjunct1, rule_format, of k]
        orp [of k] p'(3) [rule_format, of k] t_get [of k] pool_inv_mineable [OF inv, of k]
      by (cases "map_of t k") (auto simp: fmmem_def)
  qed
  have "bt_get (mineable q) k = bt_get (mineable p) k" for k
    using rb [unfolded rolled_back_def, THEN conjunct2, THEN conjunct2, rule_format, of k]
      orp [of k] t_get [of k] pool_inv_mineable [OF inv, of k] p'(2,4) seal_append [OF s, symmetric]
    by (cases "map_of t k") (auto simp: hi_nonce_def bt_get_def map_of_append map_add_def)
  then have mine: "mineable q = mineable p"
    using pool_inv_bytes [OF qi] pool_inv_bytes [OF inv] by (intro bt_ext) (auto simp: mineable_ok_def)
  have "rollback [r] p' = Inr q"
    using q assert_disjoint_ok [of "{}" "{}" q] qi by (simp add: rollback_def pool_inv_def)
  moreover have "mineable_bytes q = mineable_bytes p"
    using mine pool_inv_bytes [OF qi] pool_inv_bytes [OF inv] by (simp add: mineable_ok_def)
  moreover have "high_committed_nonce q = high_committed_nonce p"
    using rb p'(4) by (simp add: rolled_back_def)
  ultimately show ?thesis using inf mine by blast
qed

text \<open>
  C3: Whatever sequence of requests the batcher makes of a fresh pool, the pool stays well formed
  (byte counter exact, Mineable and InFlight disjoint, the round index consistent with the
  entries), the next request does not panic (in particular none of the \<open>unwrap\<close>s and none of the
  \<open>debug_assert!\<close>s fails), and if it faults at all it is the byte counter that overflows \<open>usize\<close>.
\<close>
theorem pool_reachable:
  assumes "(pool_step E)\<^sup>*\<^sup>* (Txpool_new bsize) p"
  shows "pool_inv p \<and> (\<forall>op f. pool_exec E op p = Inl f \<longrightarrow> f = Overflow)"
  using pool.inv_reachable [OF _ assms] pool_exec_fault by blast

theorem pool_reachable_witness:
  "\<exists>p. rfold (pool_exec sample_ext) [OpAdd (sample_tx 1 1) 5, OpMake 3] (Txpool_new 4) = Inr p \<and>
     fmmem (1, 1) (inflight p) \<and> pool_inv p"
proof -
  obtain p where run: "rfold (pool_exec sample_ext) [OpAdd (sample_tx 1 1) 5, OpMake 3] (Txpool_new 4) = Inr p"
    and "fmmem (1, 1) (inflight p)"
    by (simp add: pool_run_defs)
  then show ?thesis using pool_reachable [OF pool_run_steps [OF run]] by blast
qed

text \<open>
  C25: Replay protection. Once a batch has been committed, no later batch of this pool contains a
  transaction of the same client whose nonce is at most that of a committed transaction, whatever
  is added, admitted, committed or rolled back in between.
\<close>
theorem committed_never_proposed_again:
  assumes "(pool_step E)\<^sup>*\<^sup>* (Txpool_new bsize) p" and "commit b r p = Inr q"
    and "(pool_step E)\<^sup>*\<^sup>* q s" and "make_batch r' s = Inr (txs, s')"
    and "old \<in> set (cb_payload b)" and "new \<in> set txs" and "tx_client_id new = tx_client_id old"
  shows "tx_nonce old < tx_nonce new"
proof -
  let ?c = "tx_client_id old"
  have p: "pool_inv p" using pool.inv_reachable [OF _ assms(1)] by blast
  then have q: "pool_inv q" and hi: "tx_nonce old \<le> hi_nonce q ?c"
    using commit_ok [OF p, of b r] assms(2,5) raised_ge_nonce by auto
  have inv: "pool_inv s" using pool.inv_steps [OF assms(3) q] .
  have "hi_nonce q ?c \<le> hi_nonce s ?c" using watermark_steps [OF q assms(3)] .
  moreover obtain t rest where t: "seal (pool_batch_size s) 0 (mineable s) = (t, rest)" by fastforce
  with make_batch_seal [OF inv t, of r'] assms(4) have "txs = map (fst \<circ> snd) t" by auto
  then obtain k sz where "(k, new, sz) \<in> set t" using assms(6) by auto
  then have "bt_get (mineable s) k = Some (new, sz)"
    using distinct_seal_keys [OF inv t] map_of_is_SomeI [of t k "(new, sz)"] by blast
  from pool_inv_mineable [OF inv this] have "hi_nonce s (tx_client_id new) < tx_nonce new"
    by (auto simp: tx_key_def)
  ultimately show ?thesis using hi assms(7) by simp
qed

theorem committed_never_proposed_again_witness:
  "\<exists>q s s'. commit (sample_batch [sample_tx 1 3]) 5 (Txpool_new 10) = Inr q \<and>
     rfold (pool_exec sample_ext) [OpAdd (sample_tx 1 2) 7, OpAdd (sample_tx 1 4) 7] q = Inr s \<and>
     make_batch 6 s = Inr ([sample_tx 1 4], s') \<and> tx_nonce (sample_tx 1 3) < tx_nonce (sample_tx 1 4)"
proof -
  obtain q where q: "commit (sample_batch [sample_tx 1 3]) 5 (Txpool_new 10) = Inr q"
    "high_committed_nonce q = fmupd 1 3 fmempty" "mineable q = []" "inflight q = fmempty"
    "mineable_bytes q = 0" "pool_batch_size q = 10" "inflight_by_round q = fmempty"
    by (simp add: pool_run_defs)
  obtain s s' where s: "rfold (pool_exec sample_ext) [OpAdd (sample_tx 1 2) 7, OpAdd (sample_tx 1 4) 7] q = Inr s"
    "make_batch 6 s = Inr ([sample_tx 1 4], s')"
    using q(2-) by (simp add: pool_run_defs)
  show ?thesis
    using q(1) s committed_never_proposed_again [OF rtranclp.rtrancl_refl q(1) pool_run_steps [OF s(1)] s(2)]
    by simp
qed

text \<open>
  C26: What becomes of a transaction handed to \<open>add_tx\<close>. After any later requests, its client's watermark
  covers it, or the pool still holds a transaction under its \<open>(client, nonce)\<close>: the transaction itself,
  unless one with the same key was in flight when it came (then it is dropped) or was offered later
  by a client or a proposal (a client's later submission replaces a Mineable one, and a proposal's
  transaction goes in flight in its place). So the key is never lost, and without a rival the
  transaction is not.
\<close>
theorem accepted_tx_retained:
  assumes "(pool_step E)\<^sup>*\<^sup>* (Txpool_new bsize) p" and "add_tx tx sz p = Inr q" and "rfold (pool_exec E) ops q = Inr s"
  shows "tx_nonce tx \<le> hi_nonce s (tx_client_id tx) \<or>
    (\<exists>tx'. pool_tx s (tx_key tx) = Some tx' \<and> tx_key tx' = tx_key tx \<and>
       (tx' = tx \<or> map_option ie_tx (fmlookup (inflight p) (tx_key tx)) = Some tx' \<or> (\<exists>op\<in>set ops. tx' \<in> offered op)))"
proof -
  have p: "pool_inv p" using pool.inv_reachable [OF _ assms(1)] by blast
  have q: "pool_inv q" using pool_inv_add_tx [OF p assms(2)] .
  have run: "retained (\<Union>op\<in>set ops. offered op) q s" "pool_inv s" using retained_run [OF q assms(3)] by blast+
  have "tx_nonce tx \<le> hi_nonce q (tx_client_id tx) \<or>
      (\<exists>tx1. pool_tx q (tx_key tx) = Some tx1 \<and> (tx1 = tx \<or> map_option ie_tx (fmlookup (inflight p) (tx_key tx)) = Some tx1))"
    using assms(2) pool_inv_bytes [OF p] pool_tx_inflight [OF p, of "tx_key tx"]
    by (auto simp: add_tx_spec [OF p] pool_tx_def bt_get_insert mineable_ok_def fmmem_def split: if_splits)
  then show ?thesis
  proof
    assume "tx_nonce tx \<le> hi_nonce q (tx_client_id tx)"
    then show ?thesis using run(1) le_trans unfolding retained_def by blast
  next
    assume "\<exists>tx1. pool_tx q (tx_key tx) = Some tx1 \<and> (tx1 = tx \<or> map_option ie_tx (fmlookup (inflight p) (tx_key tx)) = Some tx1)"
    then obtain tx1 where tx1: "pool_tx q (tx_key tx) = Some tx1" "tx1 = tx \<or> map_option ie_tx (fmlookup (inflight p) (tx_key tx)) = Some tx1" by blast
    from run(1) tx1(1) consider "tx_nonce tx \<le> hi_nonce s (tx_client_id tx)"
      | tx' where "tx' \<in> insert tx1 (\<Union>op\<in>set ops. offered op)" "pool_tx s (tx_key tx) = Some tx'"
      unfolding retained_def by (fastforce simp: tx_key_def)
    then show ?thesis using tx1(2) pool_tx_key [OF run(2)] by cases blast+
  qed
qed

theorem accepted_tx_retained_witness:
  "\<exists>q s. add_tx (sample_tx 1 1) 5 (Txpool_new 4) = Inr q \<and>
     rfold (pool_exec sample_ext) [OpMake 3, OpRollback [3]] q = Inr s \<and> pool_tx s (1, 1) = Some (sample_tx 1 1)"
proof -
  obtain q where q: "add_tx (sample_tx 1 1) 5 (Txpool_new 4) = Inr q"
    "high_committed_nonce q = fmempty" "mineable q = [((1, 1), sample_tx 1 1, 5)]" "inflight q = fmempty"
    "mineable_bytes q = 5" "pool_batch_size q = 4" "inflight_by_round q = fmempty"
    by (simp add: pool_run_defs)
  obtain s where s: "rfold (pool_exec sample_ext) [OpMake 3, OpRollback [3]] q = Inr s" "high_committed_nonce s = fmempty"
    using q(2-) by (simp add: pool_run_defs)
  show ?thesis
    using q(1) s accepted_tx_retained [OF rtranclp.rtrancl_refl q(1) s(1)]
    by (simp add: tx_key_def hi_nonce_def) (simp add: Txpool_new_def)
qed

text \<open>
  C27: \<open>make_batch\<close> never faults and computes what the plain walk over the sorted entries computes:
  the payload is the shortest prefix of the Mineable transactions in \<open>(client, nonce)\<close> order that
  reaches \<open>batch_size\<close> bytes (all of them if they are too few), exactly those move to InFlight of
  the given round, and the rest stays. So \<open>batch_size\<close> is a threshold and not a limit: the last
  transaction may take the batch past it by up to its own size, while the comment on \<open>make_batch\<close>
  says that up to \<open>batch_size\<close> bytes are taken.
\<close>
theorem make_batch_refines_seal:
  assumes "pool_inv p"
  shows "\<exists>t p'. make_batch r p = Inr (map (fst \<circ> snd) t, p') \<and> t @ mineable p' = mineable p \<and>
    (\<forall>i<length t. total (take i t) < pool_batch_size p) \<and>
    (mineable p' \<noteq> [] \<longrightarrow> pool_batch_size p \<le> total t) \<and>
    (\<forall>k. fmlookup (inflight p') k =
       (case map_of t k of
          Some (tx, sz) \<Rightarrow> Some \<lparr>ie_tx = tx, ie_size = sz, ie_round = r\<rparr>
        | None \<Rightarrow> fmlookup (inflight p) k)) \<and>
    high_committed_nonce p' = high_committed_nonce p"
proof -
  obtain t rest where t: "seal (pool_batch_size p) 0 (mineable p) = (t, rest)" by fastforce
  from make_batch_seal [OF assms t, of r] seal_append [OF t] seal_short [OF t] seal_full [OF t]
  show ?thesis by auto
qed

text \<open>A transaction of 5 bytes in a pool whose batch size is 4 bytes.\<close>

theorem make_batch_refines_seal_witness:
  "\<exists>p p'. add_tx (sample_tx 1 1) 5 (Txpool_new 4) = Inr p \<and> make_batch 3 p = Inr ([sample_tx 1 1], p') \<and> mineable p' = []"
proof -
  obtain p where p: "add_tx (sample_tx 1 1) 5 (Txpool_new 4) = Inr p" "mineable p = [((1, 1), sample_tx 1 1, 5)]" "pool_batch_size p = 4"
    by (simp add: pool_run_defs)
  from make_batch_refines_seal [OF pool_inv_add_tx [OF pool_inv_new p(1)], of 3] obtain t p' where
    t: "make_batch 3 p = Inr (map (fst \<circ> snd) t, p')" "t @ mineable p' = mineable p" "mineable p' \<noteq> [] \<longrightarrow> pool_batch_size p \<le> total t"
    by blast
  then have "t = [((1, 1), sample_tx 1 1, 5)]" using p(2,3) by (cases t) (auto simp: total_def)
  with p t show ?thesis by auto
qed

text \<open>
  C28: What \<open>commit\<close> does on a well-formed pool, map by map: it never faults, each client's
  watermark becomes the largest of its old value and its committed nonces, the committed keys
  leave InFlight, and every Mineable key at or below its client's new watermark is dropped.
\<close>
theorem commit_effect:
  assumes "pool_inv p"
  shows "\<exists>p'. commit b r p = Inr p' \<and>
    (\<forall>c. hi_nonce p' c =
       Max (insert (hi_nonce p c) {tx_nonce tx |tx. tx \<in> set (cb_payload b) \<and> tx_client_id tx = c})) \<and>
    (\<forall>k. fmlookup (inflight p') k =
       (if k \<in> tx_key ` set (cb_payload b) then None else fmlookup (inflight p) k)) \<and>
    (\<forall>k. bt_get (mineable p') k = (if snd k \<le> hi_nonce p' (fst k) then None else bt_get (mineable p) k))"
  using commit_ok [OF assms, of b r] unfolding raised_def by blast

theorem commit_effect_witness:
  "\<exists>p'. commit (sample_batch [sample_tx 1 3]) 5 (Txpool_new 10) = Inr p' \<and> hi_nonce p' 1 = 3"
proof -
  have *: "{tx_nonce tx |tx. tx = sample_tx 1 3 \<and> tx_client_id tx = 1} = {3}" by auto
  obtain p' where "commit (sample_batch [sample_tx 1 3]) 5 (Txpool_new 10) = Inr p'"
    "hi_nonce p' 1 = Max (insert (hi_nonce (Txpool_new 10) 1) {3})"
    using commit_effect [OF pool_inv_new, of "sample_batch [sample_tx 1 3]" 5 10] * by auto
  then show ?thesis by (simp add: hi_nonce_def Txpool_new_def)
qed

text \<open>
  C29: Making a batch for a round that has nothing in flight and rolling that round back restores
  the pool: the same Mineable transactions, byte count, InFlight entries and watermarks.
\<close>
theorem make_batch_rollback_roundtrip:
  assumes "pool_inv p" and "\<forall>k e. fmlookup (inflight p) k = Some e \<longrightarrow> ie_round e \<noteq> r"
  shows "\<exists>txs p' p''. make_batch r p = Inr (txs, p') \<and> rollback [r] p' = Inr p'' \<and>
    mineable p'' = mineable p \<and> mineable_bytes p'' = mineable_bytes p \<and> inflight p'' = inflight p \<and>
    high_committed_nonce p'' = high_committed_nonce p"
  using make_batch_ok [OF assms(1), of r] rollback_after_make [OF assms] by blast

theorem make_batch_rollback_roundtrip_witness:
  "\<exists>p p' p''. add_tx (sample_tx 1 1) 5 (Txpool_new 4) = Inr p \<and>
     make_batch 3 p = Inr ([sample_tx 1 1], p') \<and> rollback [3] p' = Inr p'' \<and> mineable p'' = mineable p"
proof -
  obtain p where p: "add_tx (sample_tx 1 1) 5 (Txpool_new 4) = Inr p" "inflight p = fmempty"
      "make_batch 3 p = Inr ([sample_tx 1 1], snd (projr (make_batch 3 p)))"
    by (simp add: pool_run_defs)
  have "\<forall>k e. fmlookup (inflight p) k = Some e \<longrightarrow> ie_round e \<noteq> 3" by (simp add: p(2))
  from make_batch_rollback_roundtrip [OF pool_inv_add_tx [OF pool_inv_new p(1)] this] p(1,3)
  show ?thesis by auto
qed

text \<open>
  The result of \<open>rollback\<close> does not depend on the order in which the rounds are listed nor on
  the order in which the hash sets of keys are iterated (\<open>p\<close> and \<open>q\<close> may differ in
  \<open>inflight_by_round\<close>): if both orders go through, Mineable and InFlight are the same.
\<close>
theorem rollback_order_irrelevant:
  assumes "pool_inv p" and "pool_inv q" and "inflight q = inflight p" and "mineable q = mineable p"
    and "high_committed_nonce q = high_committed_nonce p" and "set rs' = set rs"
    and "rollback rs p = Inr p'" and "rollback rs' q = Inr q'"
  shows "mineable q' = mineable p' \<and> inflight q' = inflight p' \<and> mineable_bytes q' = mineable_bytes p'"
proof -
  have p': "pool_inv p'" "rolled_back (set rs) p p'" using rollback_spec [OF assms(1)] assms(7) by blast+
  have q': "pool_inv q'" "rolled_back (set rs) q q'" using rollback_spec [OF assms(2)] assms(6,8) by metis+
  note * = rolled_back_unique [OF p'(2) q'(2) assms(3-5)]
  then have "mineable q' = mineable p'"
    using pool_inv_bytes [OF p'(1)] pool_inv_bytes [OF q'(1)] by (intro bt_ext) (auto simp: mineable_ok_def)
  with * pool_inv_bytes [OF p'(1)] pool_inv_bytes [OF q'(1)] show ?thesis by (simp add: mineable_ok_def)
qed

theorem rollback_order_irrelevant_witness:
  "\<exists>p p' q'. rfold (pool_exec sample_ext)
       [OpAdd (sample_tx 1 1) 5, OpMake 1, OpAdd (sample_tx 2 1) 5, OpMake 2] (Txpool_new 4) = Inr p \<and>
     rollback [1, 2] p = Inr p' \<and> rollback [2, 1] p = Inr q' \<and>
     length (mineable p') = 2 \<and> mineable q' = mineable p'"
proof -
  obtain p where run: "rfold (pool_exec sample_ext)
       [OpAdd (sample_tx 1 1) 5, OpMake 1, OpAdd (sample_tx 2 1) 5, OpMake 2] (Txpool_new 4) = Inr p"
    and r: "rollback [1, 2] p = Inr (projr (rollback [1, 2] p))"
      "rollback [2, 1] p = Inr (projr (rollback [2, 1] p))" "length (mineable (projr (rollback [1, 2] p))) = 2"
    by (simp add: pool_run_defs)
  have inv: "pool_inv p" using pool.inv_reachable [OF _ pool_run_steps [OF run]] by blast
  have "set [2, 1] = set [1, 2::nat]" by auto
  from rollback_order_irrelevant [OF inv inv refl refl refl this r(1,2)] run r show ?thesis by blast
qed

end
