(* ===== verification/Batch.thy ===== *)
theory Batch
  imports Sample_Ext
begin

text \<open>
  Batches and the count-based mempool (\<open>batch.rs\<close>, \<open>cache.rs\<close>, \<open>sealer.rs\<close>, \<open>batcher.rs\<close>,
  \<open>processor.rs\<close>, \<open>receiver.rs\<close> and \<open>Mempool\<close> of \<open>lib.rs\<close> in crate \<open>mempool\<close>). A \<open>CachedBatch\<close> fills its
  hash cells on first use; a function that reads a cell returns the batch with the cell filled.
  The cache is a map whose first writer wins. The three tasks of the count-based mempool run as
  a pipeline: receiver, batcher, processor; a channel between two tasks is the list of what was
  sent, and the flag \<open>ch_open\<close> says whether its receiving end is still there.
\<close>

section \<open>Batches\<close>

definition CachedBatch_new :: "transaction list \<Rightarrow> cached_batch" where
  "CachedBatch_new payload = \<lparr>cb_payload = payload, cb_hash = None, cb_tx_hashes = None\<rparr>"

definition new_with_tx_hashes :: "transaction list \<Rightarrow> hash list \<Rightarrow> cached_batch res" where
  "new_with_tx_hashes payload hs =
     debug_assert ''tx count / hash count mismatch'' (length payload = length hs)
       ((CachedBatch_new payload)\<lparr>cb_tx_hashes := Some hs\<rparr>)"

definition CachedBatch_serialize :: "ext \<Rightarrow> cached_batch \<Rightarrow> bytes" where
  "CachedBatch_serialize E b = ser_batch E (cb_payload b)"

definition CachedBatch_hash :: "ext \<Rightarrow> cached_batch \<Rightarrow> hash \<times> cached_batch" where
  "CachedBatch_hash E b =
     (case cb_hash b of
        Some h \<Rightarrow> (h, b)
      | None \<Rightarrow> let h = do_hash E (CachedBatch_serialize E b) in (h, b\<lparr>cb_hash := Some h\<rparr>))"

definition CachedBatch_tx_hashes :: "ext \<Rightarrow> cached_batch \<Rightarrow> hash list \<times> cached_batch" where
  "CachedBatch_tx_hashes E b =
     (case cb_tx_hashes b of
        Some hs \<Rightarrow> (hs, b)
      | None \<Rightarrow> let hs = map (hash_tx E) (cb_payload b) in (hs, b\<lparr>cb_tx_hashes := Some hs\<rparr>))"

definition CachedBatch_clone :: "cached_batch \<Rightarrow> cached_batch" where
  "CachedBatch_clone b =
     (let out = CachedBatch_new (cb_payload b);
          out = (case cb_hash b of Some h \<Rightarrow> out\<lparr>cb_hash := Some h\<rparr> | None \<Rightarrow> out)
      in case cb_tx_hashes b of Some hs \<Rightarrow> out\<lparr>cb_tx_hashes := Some hs\<rparr> | None \<Rightarrow> out)"

definition CachedBatch_deserialize :: "ext \<Rightarrow> bytes \<Rightarrow> cached_batch option" where
  "CachedBatch_deserialize E bs =
     (case de_batch E bs of
        None \<Rightarrow> None
      | Some payload \<Rightarrow> Some (snd (CachedBatch_hash E (CachedBatch_new payload))))"

section \<open>The batch cache\<close>

type_synonym batch_cache = "(hash, cached_batch) fmap"

definition BatchCache_new :: "nat \<Rightarrow> batch_cache" where
  "BatchCache_new cap = fmempty"

definition cache_insert :: "hash \<Rightarrow> cached_batch \<Rightarrow> batch_cache \<Rightarrow> batch_cache" where
  "cache_insert h b m = (if fmmem h m then m else fmupd h b m)"

definition cache_get :: "batch_cache \<Rightarrow> hash \<Rightarrow> cached_batch option" where
  "cache_get m h = fmlookup m h"

definition cache_len :: "batch_cache \<Rightarrow> nat" where
  "cache_len m = fcard (fmdom m)"

section \<open>Sealing by count\<close>

definition CountSealer_new :: "nat \<Rightarrow> nat res" where
  "CountSealer_new threshold =
     (if threshold > 0 then Inr threshold else Inl (Panic ''CountSealer threshold must be > 0''))"

definition should_seal :: "nat \<Rightarrow> nat \<Rightarrow> bool" where
  "should_seal threshold queue_len \<longleftrightarrow> queue_len \<ge> threshold"

text \<open>
  The batcher task: its queue, what it sent downstream, and whether it has exited because the
  processor is gone (\<open>proc_open\<close> is the state of that channel when the send is tried).
\<close>

record batcher_task =
  queue_txs :: "transaction list"
  sealed :: "cached_batch list"
  batcher_exited :: bool

definition Batcher_spawn :: batcher_task where
  "Batcher_spawn = \<lparr>queue_txs = [], sealed = [], batcher_exited = False\<rparr>"

definition batcher_recv :: "nat \<Rightarrow> bool \<Rightarrow> transaction \<Rightarrow> batcher_task \<Rightarrow> batcher_task" where
  "batcher_recv threshold proc_open t s =
     (if batcher_exited s then s
      else
        let s = s\<lparr>queue_txs := queue_txs s @ [t]\<rparr>
        in if should_seal threshold (length (queue_txs s)) then
             let batch = CachedBatch_new (queue_txs s); s = s\<lparr>queue_txs := []\<rparr>
             in if proc_open then s\<lparr>sealed := sealed s @ [batch]\<rparr> else s\<lparr>batcher_exited := True\<rparr>
           else s)"

section \<open>Processing a sealed batch\<close>

text \<open>
  The processor of the count-based mempool and the seal task of the keyed mempool have the same
  body: hash, install in the cache, notify consensus, persist.
\<close>

record batch_sink =
  bs_cache :: batch_cache
  bs_store :: "(bytes, bytes) fmap"
  bs_to_consensus :: "(hash \<times> cached_batch) list"
  bs_exited :: bool

definition batch_sink_new :: "(bytes, bytes) fmap \<Rightarrow> batch_sink" where
  "batch_sink_new st =
     \<lparr>bs_cache = BatchCache_new 1024, bs_store = st, bs_to_consensus = [], bs_exited = False\<rparr>"

definition process_batch :: "ext \<Rightarrow> bool \<Rightarrow> cached_batch \<Rightarrow> batch_sink \<Rightarrow> batch_sink" where
  "process_batch E consensus_open b s =
     (if bs_exited s then s
      else
        let (h, b) = CachedBatch_hash E b;
            s = s\<lparr>bs_cache := cache_insert h b (bs_cache s)\<rparr>
        in if consensus_open then
             let s = s\<lparr>bs_to_consensus := bs_to_consensus s @ [(h, b)]\<rparr>
             in s\<lparr>bs_store := store_write E h (CachedBatch_serialize E b) (bs_store s)\<rparr>
           else s\<lparr>bs_exited := True\<rparr>)"

section \<open>The count-based mempool\<close>

text \<open>What the client port delivers: a decoded transaction, or a frame that does not decode.\<close>

datatype intake = Decoded transaction | DecodeError

record legacy_mempool =
  lm_batcher :: batcher_task
  lm_sink :: batch_sink

definition Mempool_spawn :: "(bytes, bytes) fmap \<Rightarrow> legacy_mempool" where
  "Mempool_spawn st = \<lparr>lm_batcher = Batcher_spawn, lm_sink = batch_sink_new st\<rparr>"

text \<open>One frame taken through the pipeline with every channel open.\<close>

definition legacy_receive :: "ext \<Rightarrow> nat \<Rightarrow> intake \<Rightarrow> legacy_mempool \<Rightarrow> legacy_mempool" where
  "legacy_receive E threshold i m =
     (case i of
        DecodeError \<Rightarrow> m
      | Decoded t \<Rightarrow>
          let b = batcher_recv threshold True t (lm_batcher m);
              new = drop (length (sealed (lm_batcher m))) (sealed b)
          in \<lparr>lm_batcher = b, lm_sink = fold (process_batch E True) new (lm_sink m)\<rparr>)"

section \<open>Batches: cells agree with the content\<close>

definition batch_digest :: "ext \<Rightarrow> transaction list \<Rightarrow> hash" where
  "batch_digest E txs = do_hash E (ser_batch E txs)"

definition batch_ok :: "ext \<Rightarrow> cached_batch \<Rightarrow> bool" where
  "batch_ok E b \<longleftrightarrow>
     cb_hash b \<in> {None, Some (batch_digest E (cb_payload b))} \<and>
     cb_tx_hashes b \<in> {None, Some (map (hash_tx E) (cb_payload b))}"

lemma batch_ok_new [simp]: "batch_ok E (CachedBatch_new txs)"
  by (simp add: batch_ok_def CachedBatch_new_def)

lemma CachedBatch_hash_ok:
  assumes "batch_ok E b"
  shows "fst (CachedBatch_hash E b) = batch_digest E (cb_payload b)"
    and "batch_ok E (snd (CachedBatch_hash E b))"
    and "cb_payload (snd (CachedBatch_hash E b)) = cb_payload b"
    and "cb_hash (snd (CachedBatch_hash E b)) = Some (batch_digest E (cb_payload b))"
  using assms
  by (auto simp: CachedBatch_hash_def batch_ok_def batch_digest_def CachedBatch_serialize_def Let_def
      split: option.splits)

lemma CachedBatch_tx_hashes_ok:
  assumes "batch_ok E b"
  shows "fst (CachedBatch_tx_hashes E b) = map (hash_tx E) (cb_payload b)"
    and "batch_ok E (snd (CachedBatch_tx_hashes E b))"
    and "cb_payload (snd (CachedBatch_tx_hashes E b)) = cb_payload b"
  using assms by (auto simp: CachedBatch_tx_hashes_def batch_ok_def Let_def split: option.splits)

lemma CachedBatch_payload [simp]:
  "cb_payload (CachedBatch_new txs) = txs"
  "cb_payload (snd (CachedBatch_hash E b)) = cb_payload b"
  "cb_payload (snd (CachedBatch_tx_hashes E b)) = cb_payload b"
  by (simp_all add: CachedBatch_new_def CachedBatch_hash_def CachedBatch_tx_hashes_def Let_def
      split: option.splits)

lemma CachedBatch_clone_eq [simp]: "CachedBatch_clone b = b"
  by (cases b) (simp add: CachedBatch_clone_def CachedBatch_new_def Let_def split: option.splits)

section \<open>Write-once maps\<close>

text \<open>
  The contract of the cache: an insertion under a present key changes nothing. Entries are
  stable, and what holds of every inserted pair holds of every stored pair.
\<close>

locale write_once =
  fixes ins :: "'k \<Rightarrow> 'v \<Rightarrow> 'm \<Rightarrow> 'm"
    and get :: "'m \<Rightarrow> 'k \<Rightarrow> 'v option"
  assumes get_ins: "get (ins k v m) k' = (if k' = k \<and> get m k = None then Some v else get m k')"
begin

definition entries_satisfy :: "('k \<Rightarrow> 'v \<Rightarrow> bool) \<Rightarrow> 'm \<Rightarrow> bool" where
  "entries_satisfy P m \<longleftrightarrow> (\<forall>k v. get m k = Some v \<longrightarrow> P k v)"

lemma stable: "get m k = Some v \<Longrightarrow> get (ins k' v' m) k = Some v"
  by (auto simp: get_ins)

lemma stable_fold: "get m k = Some v \<Longrightarrow> get (fold (\<lambda>(k, v). ins k v) kvs m) k = Some v"
  by (induction kvs arbitrary: m) (auto intro: stable)

lemma present: "\<exists>w. get (ins k v m) k = Some w"
  by (cases "get m k") (auto simp: get_ins)

lemma entries_ins: "entries_satisfy P m \<Longrightarrow> P k v \<Longrightarrow> entries_satisfy P (ins k v m)"
  by (auto simp: entries_satisfy_def get_ins split: if_splits)

end

interpretation cache: write_once cache_insert cache_get
  by unfold_locales (auto simp: cache_insert_def cache_get_def fmmem_def)

definition cache_ok :: "ext \<Rightarrow> batch_cache \<Rightarrow> bool" where
  "cache_ok E m \<longleftrightarrow>
     (\<forall>h b. cache_get m h = Some b \<longrightarrow> batch_ok E b \<and> h = batch_digest E (cb_payload b))"

lemma cache_ok_new [simp]: "cache_ok E (BatchCache_new cap)"
  by (simp add: cache_ok_def BatchCache_new_def cache_get_def)

lemma cache_ok_insert:
  "cache_ok E m \<Longrightarrow> batch_ok E b \<Longrightarrow> h = batch_digest E (cb_payload b) \<Longrightarrow> cache_ok E (cache_insert h b m)"
  using cache.entries_ins [of "\<lambda>h b. batch_ok E b \<and> h = batch_digest E (cb_payload b)" m h b]
  by (auto simp: cache_ok_def cache.entries_satisfy_def)

section \<open>The sealing tasks\<close>

definition sink_ok :: "ext \<Rightarrow> batch_sink \<Rightarrow> bool" where
  "sink_ok E s \<longleftrightarrow>
     cache_ok E (bs_cache s) \<and>
     (\<forall>(h, b)\<in>set (bs_to_consensus s).
        batch_ok E b \<and> h = batch_digest E (cb_payload b) \<and> cache_get (bs_cache s) h \<noteq> None \<and>
        (\<exists>txs. store_read E h (bs_store s) = Some (ser_batch E txs) \<and> batch_digest E txs = h))"

lemma sink_ok_new: "sink_ok E (batch_sink_new st)"
  by (simp add: sink_ok_def batch_sink_new_def)

lemma sink_ok_process:
  assumes "sink_ok E s" and "batch_ok E b" and "store_ok E"
  shows "sink_ok E (process_batch E op b s)"
proof (cases "bs_exited s")
  case True
  with assms(1) show ?thesis by (simp add: process_batch_def)
next
  case False
  obtain h b' where hb: "CachedBatch_hash E b = (h, b')" by fastforce
  have b': "batch_ok E b'" "h = batch_digest E (cb_payload b')" "cb_payload b' = cb_payload b"
    using CachedBatch_hash_ok [OF assms(2)] hb by auto
  let ?m = "cache_insert h b' (bs_cache s)"
  have cache: "cache_ok E ?m"
    using assms(1) b' by (intro cache_ok_insert) (simp_all add: sink_ok_def)
  have kept: "cache_get ?m k \<noteq> None" if "cache_get (bs_cache s) k \<noteq> None" for k
    using that cache.stable by fastforce
  have there: "cache_get ?m h \<noteq> None" using cache.present [of h b' "bs_cache s"] by auto
  let ?st = "store_write E h (CachedBatch_serialize E b') (bs_store s)"
  have st: "store_read E k ?st = (if k = h then Some (ser_batch E (cb_payload b')) else store_read E k (bs_store s))" for k
    using assms(3) by (auto simp: store_ok_def CachedBatch_serialize_def)
  have old: "batch_ok E c \<and> k = batch_digest E (cb_payload c) \<and> cache_get ?m k \<noteq> None \<and>
      (\<exists>txs. store_read E k (bs_store s) = Some (ser_batch E txs) \<and> batch_digest E txs = k) \<and>
      (\<exists>txs. store_read E k ?st = Some (ser_batch E txs) \<and> batch_digest E txs = k)"
    if "(k, c) \<in> set (bs_to_consensus s)" for k c
    using assms(1) that kept [of k] st [of k] b'(2) by (fastforce simp: sink_ok_def)
  show ?thesis
    using False cache old there st [of h] b'
    by (cases op) (auto simp: process_batch_def hb sink_ok_def Let_def)
qed

lemma sink_ok_fold:
  "sink_ok E s \<Longrightarrow> store_ok E \<Longrightarrow> \<forall>b\<in>set bs. batch_ok E b \<Longrightarrow> sink_ok E (fold (process_batch E op) bs s)"
  by (induction bs arbitrary: s) (auto intro: sink_ok_process)

section \<open>The batcher cuts the intake into equal chunks\<close>

definition batcher_inv :: "nat \<Rightarrow> transaction list \<Rightarrow> batcher_task \<Rightarrow> bool" where
  "batcher_inv threshold txs s \<longleftrightarrow>
     concat (map cb_payload (sealed s)) @ queue_txs s = txs \<and>
     (\<forall>b\<in>set (sealed s). length (cb_payload b) = threshold) \<and>
     length (queue_txs s) < threshold \<and> \<not> batcher_exited s"

lemma batcher_inv_recv:
  assumes "batcher_inv threshold txs s"
  shows "batcher_inv threshold (txs @ [t]) (batcher_recv threshold True t s)"
proof (cases "Suc (length (queue_txs s)) = threshold")
  case True
  with assms show ?thesis
    by (auto simp: batcher_inv_def batcher_recv_def should_seal_def Let_def)
next
  case False
  with assms show ?thesis
    by (auto simp: batcher_inv_def batcher_recv_def should_seal_def Let_def)
qed

lemma batcher_run_inv:
  assumes "batcher_inv threshold txs s"
  shows "batcher_inv threshold (txs @ ts) (fold (batcher_recv threshold True) ts s)"
  using assms
proof (induction ts arbitrary: txs s)
  case (Cons t ts)
  from Cons.IH [OF batcher_inv_recv [OF Cons.prems, of t]] show ?case by simp
qed simp

lemma batcher_inv_spawn: "0 < threshold \<Longrightarrow> batcher_inv threshold [] Batcher_spawn"
  by (simp add: batcher_inv_def Batcher_spawn_def)

lemma batcher_recv_sealed:
  "\<exists>new. sealed (batcher_recv threshold op t s) = sealed s @ new \<and> (\<forall>b\<in>set new. \<exists>txs. b = CachedBatch_new txs)"
  by (auto simp: batcher_recv_def Let_def)

lemma legacy_sink_ok:
  assumes "sink_ok E (lm_sink m)" and "store_ok E"
  shows "sink_ok E (lm_sink (legacy_receive E threshold i m))"
proof (cases i)
  case DecodeError
  with assms(1) show ?thesis by (simp add: legacy_receive_def)
next
  case (Decoded t)
  obtain new where "sealed (batcher_recv threshold True t (lm_batcher m)) = sealed (lm_batcher m) @ new"
      "\<forall>b\<in>set new. \<exists>txs. b = CachedBatch_new txs"
    using batcher_recv_sealed by blast
  with Decoded assms show ?thesis
    by (auto simp: legacy_receive_def Let_def intro!: sink_ok_fold)
qed

section \<open>Properties\<close>

text \<open>
  A batch survives the wire: what the receiver decodes from the serialised batch has the same
  transactions, and its hash cell already holds the hash the sender computes.
\<close>
theorem batch_wire_roundtrip:
  assumes "batch_codec_ok E" and "batch_ok E b"
  shows "\<exists>b'. CachedBatch_deserialize E (CachedBatch_serialize E b) = Some b' \<and>
    cb_payload b' = cb_payload b \<and> cb_hash b' = Some (fst (CachedBatch_hash E b)) \<and> batch_ok E b'"
  using assms(1) CachedBatch_hash_ok [OF batch_ok_new, of E "cb_payload b"] CachedBatch_hash_ok(1) [OF assms(2)]
  by (simp add: batch_codec_ok_def CachedBatch_deserialize_def CachedBatch_serialize_def)

theorem batch_wire_roundtrip_witness:
  "\<exists>b'. CachedBatch_deserialize sample_ext (CachedBatch_serialize sample_ext (CachedBatch_new [sample_tx 1 2])) = Some b' \<and>
     cb_payload b' = [sample_tx 1 2]"
  using batch_wire_roundtrip [OF sample_codec_ok batch_ok_new [of sample_ext "[sample_tx 1 2]"]] by auto

text \<open>
  The count-based batcher neither loses, duplicates nor reorders transactions: the payloads it
  has sealed, one after the other, followed by its queue are exactly the transactions received,
  every sealed batch has exactly \<open>threshold\<close> transactions, and the queue is always shorter.
\<close>
theorem batcher_chunks:
  fixes txs :: "transaction list"
  assumes "CountSealer_new threshold = Inr k"
  defines "s \<equiv> fold (batcher_recv k True) txs Batcher_spawn"
  shows "concat (map cb_payload (sealed s)) @ queue_txs s = txs \<and>
    (\<forall>b\<in>set (sealed s). length (cb_payload b) = k) \<and> length (queue_txs s) < k"
proof -
  have "0 < k" using assms(1) by (simp add: CountSealer_new_def split: if_splits)
  from batcher_run_inv [OF batcher_inv_spawn [OF this], of txs] show ?thesis
    by (simp add: s_def batcher_inv_def)
qed

theorem batcher_chunks_witness:
  "length (sealed (fold (batcher_recv 2 True) [sample_tx 1 1, sample_tx 1 2, sample_tx 1 3] Batcher_spawn)) = 1 \<and>
   length (queue_txs (fold (batcher_recv 2 True) [sample_tx 1 1, sample_tx 1 2, sample_tx 1 3] Batcher_spawn)) < 2"
proof -
  have "CountSealer_new 2 = Inr 2" by (simp add: CountSealer_new_def)
  from batcher_chunks [OF this, of "[sample_tx 1 1, sample_tx 1 2, sample_tx 1 3]"] show ?thesis
    by (simp add: batcher_recv_def should_seal_def Batcher_spawn_def)
qed

text \<open>
  Whatever arrives at the client port, a batch announced to consensus is at that point in the
  cache under the announced hash, the cached batch and the batch stored durably under that hash
  both have exactly this hash, and the hash is the digest of the announced transactions.
\<close>
theorem announced_batches_readable:
  fixes frames :: "intake list" and threshold :: nat and st :: "(bytes, bytes) fmap"
  assumes "store_ok E"
  defines "m \<equiv> fold (legacy_receive E threshold) frames (Mempool_spawn st)"
  shows "\<forall>(h, b)\<in>set (bs_to_consensus (lm_sink m)).
     h = batch_digest E (cb_payload b) \<and>
     (\<exists>c. cache_get (bs_cache (lm_sink m)) h = Some c \<and> batch_digest E (cb_payload c) = h) \<and>
     (\<exists>txs. store_read E h (bs_store (lm_sink m)) = Some (ser_batch E txs) \<and> batch_digest E txs = h)"
proof -
  have "sink_ok E (lm_sink m')" if "sink_ok E (lm_sink m0)" "m' = fold (legacy_receive E threshold) frames m0" for m0 m'
    using that by (induction frames arbitrary: m0) (auto intro: legacy_sink_ok [OF _ assms(1)])
  from this [of "Mempool_spawn st"] have "sink_ok E (lm_sink m)"
    by (simp add: m_def Mempool_spawn_def sink_ok_new)
  then show ?thesis by (fastforce simp: sink_ok_def cache_ok_def)
qed

theorem announced_batches_readable_witness:
  "let m = fold (legacy_receive sample_ext 1) [DecodeError, Decoded (sample_tx 1 2)] (Mempool_spawn fmempty)
   in length (bs_to_consensus (lm_sink m)) = 1 \<and>
      (\<forall>(h, b)\<in>set (bs_to_consensus (lm_sink m)). h = batch_digest sample_ext (cb_payload b))"
  using announced_batches_readable [OF sample_store_ok, of 1 "[DecodeError, Decoded (sample_tx 1 2)]" fmempty]
  by (auto simp: Let_def legacy_receive_def batcher_recv_def should_seal_def process_batch_def Mempool_spawn_def
      Batcher_spawn_def batch_sink_new_def CachedBatch_hash_def CachedBatch_new_def batch_digest_def
      CachedBatch_serialize_def)

end
