(* ===== verification/Unit_Tests.thy ===== *)
theory Unit_Tests
  imports Tx_Pool_Laws Batch
begin

text \<open>
  The unit tests of crate \<open>mempool\<close> (\<open>tx_pool.rs\<close>, \<open>batch.rs\<close>, \<open>cache.rs\<close>), run on the model: a test is a
  computation that panics where an assertion fails. The tests are generic in the transaction; here
  they use the transaction type of the repository. The two tests that compare the addresses of shared
  slices compare the contents instead.
\<close>

definition check :: "bool \<Rightarrow> 'a res \<Rightarrow> 'a res" where
  "check b r = (if b then r else Inl (Panic ''assertion failed''))"

section \<open>The pool\<close>

definition test_tx :: "client_id \<Rightarrow> nat \<Rightarrow> 8 word \<Rightarrow> transaction" where
  "test_tx c n payload = \<lparr>tx_client_id = c, tx_nonce = n, tx_data = [payload], tx_request = []\<rparr>"

definition TestTx_new :: "client_id \<Rightarrow> nat \<Rightarrow> transaction" where
  "TestTx_new c n = test_tx c n 0"

definition test_pool :: txpool where
  "test_pool = Txpool_new (1024 * 1024)"

definition in_mineable :: "txkey \<Rightarrow> txpool \<Rightarrow> bool" where
  "in_mineable k p \<longleftrightarrow> bt_get (mineable p) k \<noteq> None"

definition in_inflight :: "txkey \<Rightarrow> txpool \<Rightarrow> bool" where
  "in_inflight k p \<longleftrightarrow> fmmem k (inflight p)"

text \<open>\<open>p.inflight_by_round[&r].len()\<close> and \<open>*p.high_committed_nonce.get(&c).unwrap()\<close>.\<close>

definition round_len :: "round \<Rightarrow> txpool \<Rightarrow> nat res" where
  "round_len r p = rbind (expect ''no entry found for key'' (fmlookup (inflight_by_round p) r)) (\<lambda>ks. Inr (length ks))"

definition committed_nonce :: "client_id \<Rightarrow> txpool \<Rightarrow> nat res" where
  "committed_nonce c p = expect ''called Option::unwrap on a None value'' (fmlookup (high_committed_nonce p) c)"

definition trace1_common_case :: "ext \<Rightarrow> unit res" where
  "trace1_common_case E =
     (let p = test_pool; tx = TestTx_new 1 5
      in rbind (add_tx tx 10 p) (\<lambda>p.
         check (in_mineable (1, 5) p) (
         check (mineable_bytes p = 10) (
         rbind (admit_proposal E (CachedBatch_new [tx]) 1 p) (\<lambda>p.
         check (\<not> in_mineable (1, 5) p) (
         check (in_inflight (1, 5) p) (
         rbind (round_len 1 p) (\<lambda>l.
         check (l = 1) (
         rbind (commit (CachedBatch_new [tx]) 1 p) (\<lambda>p.
         check (\<not> in_inflight (1, 5) p) (
         rbind (committed_nonce 1 p) (\<lambda>n.
         check (n = 5) (Inr ())))))))))))))"

definition trace2_proposal_before_client :: "ext \<Rightarrow> unit res" where
  "trace2_proposal_before_client E =
     (let p = test_pool; tx = TestTx_new 1 5
      in rbind (admit_proposal E (CachedBatch_new [tx]) 1 p) (\<lambda>p.
         check (\<not> in_mineable (1, 5) p) (
         check (in_inflight (1, 5) p) (
         rbind (add_tx tx 10 p) (\<lambda>p.
         check (\<not> in_mineable (1, 5) p) (
         check (in_inflight (1, 5) p) (
         check (mineable_bytes p = 0) (Inr ()))))))))"

definition trace3_late_client_after_commit :: "ext \<Rightarrow> unit res" where
  "trace3_late_client_after_commit E =
     (let p = test_pool; tx = TestTx_new 1 5
      in rbind (admit_proposal E (CachedBatch_new [tx]) 1 p) (\<lambda>p.
         rbind (commit (CachedBatch_new [tx]) 1 p) (\<lambda>p.
         rbind (committed_nonce 1 p) (\<lambda>n.
         check (n = 5) (
         rbind (add_tx tx 10 p) (\<lambda>p.
         check (\<not> in_mineable (1, 5) p) (
         check (mineable_bytes p = 0) (Inr ()))))))))"

definition trace4_chain_switch_rollback :: "ext \<Rightarrow> unit res" where
  "trace4_chain_switch_rollback E =
     (let p = test_pool; tx = TestTx_new 1 5
      in rbind (add_tx tx 10 p) (\<lambda>p.
         rbind (make_batch 1 p) (\<lambda>(payload, p).
         check (in_inflight (1, 5) p) (
         check (\<not> in_mineable (1, 5) p) (
         rbind (rollback [1] p) (\<lambda>p.
         check (in_mineable (1, 5) p) (
         check (\<not> in_inflight (1, 5) p) (
         check (mineable_bytes p = 10) (Inr ())))))))))"

definition trace5_different_proposal_at_same_round :: "ext \<Rightarrow> unit res" where
  "trace5_different_proposal_at_same_round E =
     (let p = test_pool; tx5 = TestTx_new 1 5; tx7 = TestTx_new 1 7
      in rbind (add_tx tx5 10 p) (\<lambda>p.
         rbind (admit_proposal E (CachedBatch_new [tx5]) 2 p) (\<lambda>p.
         check (in_inflight (1, 5) p) (
         rbind (commit (CachedBatch_new [tx7]) 2 p) (\<lambda>p.
         rbind (committed_nonce 1 p) (\<lambda>n.
         check (n = 7) (
         check (\<not> in_mineable (1, 5) p) (
         rbind (rollback [2] p) (\<lambda>p.
         check (\<not> in_inflight (1, 5) p) (
         check (\<not> in_mineable (1, 5) p) (Inr ())))))))))))"

definition trace6_byzantine_replay :: "ext \<Rightarrow> unit res" where
  "trace6_byzantine_replay E =
     (let p = test_pool; tx10 = TestTx_new 1 10
      in rbind (add_tx tx10 10 p) (\<lambda>p.
         rbind (admit_proposal E (CachedBatch_new [tx10]) 1 p) (\<lambda>p.
         rbind (commit (CachedBatch_new [tx10]) 1 p) (\<lambda>p.
         rbind (committed_nonce 1 p) (\<lambda>n.
         check (n = 10) (
         let tx3 = TestTx_new 1 3
         in rbind (add_tx tx3 10 p) (\<lambda>p.
            check (\<not> in_mineable (1, 3) p) (
            check (mineable_bytes p = 0) (Inr ())))))))))"

definition trace8_proposer_loopback :: "ext \<Rightarrow> unit res" where
  "trace8_proposer_loopback E =
     (let p = test_pool; tx = TestTx_new 1 5
      in rbind (add_tx tx 10 p) (\<lambda>p.
         rbind (make_batch 1 p) (\<lambda>(payload, p).
         check (length payload = 1) (
         check (in_inflight (1, 5) p) (
         rbind (admit_proposal E (CachedBatch_new payload) 1 p) (\<lambda>p.
         check (in_inflight (1, 5) p) (
         check (\<not> in_mineable (1, 5) p) (
         rbind (round_len 1 p) (\<lambda>l.
         check (l = 1) (Inr ()))))))))))"

definition trace9_equivocation_last_write_wins :: "ext \<Rightarrow> unit res" where
  "trace9_equivocation_last_write_wins E =
     (let p = test_pool; tx_a = test_tx 1 5 0xAA; tx_b = test_tx 1 5 0xBB
      in rbind (add_tx tx_a 10 p) (\<lambda>p.
         check (mineable_bytes p = 10) (
         rbind (add_tx tx_b 10 p) (\<lambda>p.
         check (length (mineable p) = 1) (
         check (mineable_bytes p = 10) (
         rbind (expect ''no entry found for key'' (bt_get (mineable p) (1, 5))) (\<lambda>(stored, _).
         check (tx_data stored = [0xBB]) (Inr ()))))))))"

definition gc_sweeps_stale_mineable :: "ext \<Rightarrow> unit res" where
  "gc_sweeps_stale_mineable E =
     (let p = test_pool
      in rbind (rfold (\<lambda>n. add_tx (TestTx_new 1 n) 10) [1..<4] p) (\<lambda>p.
         check (length (mineable p) = 3) (
         check (mineable_bytes p = 30) (
         rbind (commit (CachedBatch_new [TestTx_new 1 3]) 1 p) (\<lambda>p.
         check (\<not> in_mineable (1, 1) p) (
         check (\<not> in_mineable (1, 2) p) (
         check (\<not> in_mineable (1, 3) p) (
         check (mineable_bytes p = 0) (
         rbind (committed_nonce 1 p) (\<lambda>n.
         check (n = 3) (Inr ())))))))))))"

definition rollback_subsumed_orphan_dropped :: "ext \<Rightarrow> unit res" where
  "rollback_subsumed_orphan_dropped E =
     (let tx5 = TestTx_new 1 5; tx7 = TestTx_new 1 7; p2 = test_pool
      in rbind (add_tx tx5 10 p2) (\<lambda>p2.
         rbind (admit_proposal E (CachedBatch_new [tx5]) 2 p2) (\<lambda>p2.
         rbind (commit (CachedBatch_new [tx7]) 3 p2) (\<lambda>p2.
         rbind (rollback [2] p2) (\<lambda>p2.
         check (\<not> in_mineable (1, 5) p2) (
         check (\<not> in_inflight (1, 5) p2) (Inr ())))))))"

section \<open>Batches and cache\<close>

definition dummies :: "nat list \<Rightarrow> transaction list" where
  "dummies ns = map (\<lambda>n. new_dummy_tx n 0) ns"

definition wire_format_matches_bare_vec :: "ext \<Rightarrow> unit res" where
  "wire_format_matches_bare_vec E =
     (let v = dummies [1, 2, 3]; batch = CachedBatch_new v;
          batch_bytes = CachedBatch_serialize E batch; vec_bytes = ser_batch E v
      in check (batch_bytes = vec_bytes) (Inr ()))"

definition roundtrip_preserves_payload_and_populates_hash :: "ext \<Rightarrow> unit res" where
  "roundtrip_preserves_payload_and_populates_hash E =
     (let v = dummies [1, 2, 3]; batch = CachedBatch_new v; bytes = CachedBatch_serialize E batch
      in rbind (expect ''called Result::unwrap on an Err value'' (CachedBatch_deserialize E bytes)) (\<lambda>got.
         check (cb_payload got = v) (
         check (cb_hash got \<noteq> None) (
         check (fst (CachedBatch_hash E got) = fst (CachedBatch_hash E batch)) (Inr ())))))"

definition tx_hashes_cached :: "ext \<Rightarrow> unit res" where
  "tx_hashes_cached E =
     (let batch = CachedBatch_new (dummies [1, 2]);
          (a, batch) = CachedBatch_tx_hashes E batch; (b, batch) = CachedBatch_tx_hashes E batch
      in check (a = b) (Inr ()))"

definition new_with_tx_hashes_skips_recompute :: "ext \<Rightarrow> unit res" where
  "new_with_tx_hashes_skips_recompute E =
     (let v = dummies [1, 2]; precomputed = map (hash_tx E) v
      in rbind (new_with_tx_hashes v precomputed) (\<lambda>batch.
         check (fst (CachedBatch_tx_hashes E batch) = precomputed) (Inr ())))"

definition duplicate_insert_is_noop :: "ext \<Rightarrow> unit res" where
  "duplicate_insert_is_noop E =
     (let c = BatchCache_new 4; h = do_hash E [120];
          c = cache_insert h (CachedBatch_new (dummies [1])) c; c = cache_insert h (CachedBatch_new (dummies [2])) c
      in check (cache_len c = 1) (Inr ()))"

definition get_roundtrip :: "ext \<Rightarrow> unit res" where
  "get_roundtrip E =
     (let c = BatchCache_new 4; h = do_hash E [121]; c = cache_insert h (CachedBatch_new (dummies [7, 8, 9])) c
      in rbind (expect ''hit'' (cache_get c h)) (\<lambda>g. check (cb_payload g = dummies [7, 8, 9]) (Inr ())))"

section \<open>They pass\<close>

lemma check_True [simp]: "check True r = r"
  by (simp add: check_def)

lemma key_hash: "hs_insert k [] = [k]" "hs_insert k [k] = [k]" "hs_remove k [k] = []"
  by (simp_all add: hs_insert_def hs_remove_def)

lemmas pool_ops = add_tx_def admit_proposal_def admit_one_def commit_def commit_one_def commit_gc_def drop_mineable_def
  rollback_def rollback_round_def rollback_key_def make_batch_def make_batch_loop.simps take_mineable_def put_inflight_def
  touch_round_def forget_inflight_def drop_empty_round_def reset_timer_def assert_disjoint_def key_sets_disjoint_def hi_nonce_def
  bt_get_def bt_first_key_def bt_range_keys_def add_u64_def sub_u64_def

lemmas test_defs = test_pool_def TestTx_new_def test_tx_def in_mineable_def in_inflight_def round_len_def committed_nonce_def
  Txpool_new_def CachedBatch_new_def Let_def

lemma pool_tests:
  "trace1_common_case E = Inr ()"
  "trace2_proposal_before_client E = Inr ()"
  "trace3_late_client_after_commit E = Inr ()"
  "trace4_chain_switch_rollback E = Inr ()"
  "trace5_different_proposal_at_same_round E = Inr ()"
  "trace6_byzantine_replay E = Inr ()"
  "trace8_proposer_loopback E = Inr ()"
  "trace9_equivocation_last_write_wins E = Inr ()"
  "gc_sweeps_stale_mineable E = Inr ()"
  "rollback_subsumed_orphan_dropped E = Inr ()"
  by (simp add: trace1_common_case_def trace2_proposal_before_client_def trace3_late_client_after_commit_def trace4_chain_switch_rollback_def
      trace5_different_proposal_at_same_round_def trace6_byzantine_replay_def trace8_proposer_loopback_def
      trace9_equivocation_last_write_wins_def gc_sweeps_stale_mineable_def rollback_subsumed_orphan_dropped_def
      test_defs, (simp add: pool_ops key_hash upt_rec)?)+

lemma batch_tests:
  "wire_format_matches_bare_vec E = Inr ()" "tx_hashes_cached E = Inr ()" "new_with_tx_hashes_skips_recompute E = Inr ()"
  "duplicate_insert_is_noop E = Inr ()" "get_roundtrip E = Inr ()"
  by (simp_all add: wire_format_matches_bare_vec_def tx_hashes_cached_def new_with_tx_hashes_skips_recompute_def
      duplicate_insert_is_noop_def get_roundtrip_def Let_def CachedBatch_serialize_def CachedBatch_tx_hashes_def CachedBatch_new_def
      new_with_tx_hashes_def cache_insert_def cache_get_def cache_len_def BatchCache_new_def fcard.rep_eq)

lemma batch_roundtrip_test: "batch_codec_ok E \<Longrightarrow> roundtrip_preserves_payload_and_populates_hash E = Inr ()"
  by (simp add: roundtrip_preserves_payload_and_populates_hash_def Let_def batch_codec_ok_def CachedBatch_serialize_def
      CachedBatch_deserialize_def CachedBatch_hash_def CachedBatch_new_def)

definition mempool_tests :: "ext \<Rightarrow> unit res list" where
  "mempool_tests E =
     [trace1_common_case E, trace2_proposal_before_client E, trace3_late_client_after_commit E, trace4_chain_switch_rollback E,
      trace5_different_proposal_at_same_round E, trace6_byzantine_replay E, trace8_proposer_loopback E,
      trace9_equivocation_last_write_wins E, gc_sweeps_stale_mineable E, rollback_subsumed_orphan_dropped E,
      wire_format_matches_bare_vec E, roundtrip_preserves_payload_and_populates_hash E, tx_hashes_cached E,
      new_with_tx_hashes_skips_recompute E, duplicate_insert_is_noop E, get_roundtrip E]"

text \<open>All unit tests of the crate pass on the model, whatever the hash function and the sizes of transactions.\<close>

lemma mempool_tests_pass: "batch_codec_ok E \<Longrightarrow> t \<in> set (mempool_tests E) \<Longrightarrow> t = Inr ()"
  by (auto simp: mempool_tests_def pool_tests batch_tests batch_roundtrip_test)

end
