(* ===== verification/Block_Storage.thy ===== *)
theory Block_Storage
  imports Sample_Ext
begin

text \<open>
  The block index of a node (\<open>types/src/msg/storage.rs\<close>) and the walk that commits a chain of
  blocks in it. \<open>Storage<B, T>\<close> is generic in the block type; here the two \<open>BlockTrait\<close> methods it
  calls are arguments (\<open>hs\<close> for \<open>get_hash\<close>, \<open>ht\<close> for \<open>get_height\<close>). The walk is the loop that both
  Apollo's and Artemis' \<open>do_commit\<close> contain.
\<close>

section \<open>The index\<close>

record 'b storage =
  all_delivered_blocks_by_hash :: "(hash, 'b) fmap"
  all_delivered_blocks_by_ht :: "(height, 'b) fmap"
  committed_blocks_by_hash :: "hash fset"
  committed_blocks_by_ht :: "height fset"

definition Storage_new :: "'b storage" where
  "Storage_new =
     \<lparr>all_delivered_blocks_by_hash = fmempty, all_delivered_blocks_by_ht = fmempty,
      committed_blocks_by_hash = {||}, committed_blocks_by_ht = {||}\<rparr>"

definition delivered_block_from_ht :: "'b storage \<Rightarrow> height \<Rightarrow> 'b option" where
  "delivered_block_from_ht s n = fmlookup (all_delivered_blocks_by_ht s) n"

definition delivered_block_from_hash :: "'b storage \<Rightarrow> hash \<Rightarrow> 'b option" where
  "delivered_block_from_hash s h = fmlookup (all_delivered_blocks_by_hash s) h"

definition committed_block_from_ht :: "'b storage \<Rightarrow> height \<Rightarrow> 'b option" where
  "committed_block_from_ht s n =
     (if n |\<in>| committed_blocks_by_ht s then delivered_block_from_ht s n else None)"

definition committed_block_by_hash :: "'b storage \<Rightarrow> hash \<Rightarrow> 'b option" where
  "committed_block_by_hash s h =
     (if h |\<in>| committed_blocks_by_hash s then delivered_block_from_hash s h else None)"

definition add_delivered_block :: "('b \<Rightarrow> hash) \<Rightarrow> ('b \<Rightarrow> height) \<Rightarrow> 'b \<Rightarrow> 'b storage \<Rightarrow> 'b storage" where
  "add_delivered_block hs ht b s =
     s\<lparr>all_delivered_blocks_by_hash := fmupd (hs b) b (all_delivered_blocks_by_hash s),
       all_delivered_blocks_by_ht := fmupd (ht b) b (all_delivered_blocks_by_ht s)\<rparr>"

definition add_committed_block :: "('b \<Rightarrow> hash) \<Rightarrow> ('b \<Rightarrow> height) \<Rightarrow> 'b \<Rightarrow> 'b storage \<Rightarrow> 'b storage" where
  "add_committed_block hs ht b s =
     s\<lparr>committed_blocks_by_hash := finsert (hs b) (committed_blocks_by_hash s),
       committed_blocks_by_ht := finsert (ht b) (committed_blocks_by_ht s)\<rparr>"

definition is_committed_by_ht :: "'b storage \<Rightarrow> height \<Rightarrow> bool" where
  "is_committed_by_ht s n \<longleftrightarrow> n |\<in>| committed_blocks_by_ht s"

definition is_delivered_by_ht :: "'b storage \<Rightarrow> height \<Rightarrow> bool" where
  "is_delivered_by_ht s n \<longleftrightarrow> fmmem n (all_delivered_blocks_by_ht s)"

definition is_delivered_by_hash :: "'b storage \<Rightarrow> hash \<Rightarrow> bool" where
  "is_delivered_by_hash s h \<longleftrightarrow> fmmem h (all_delivered_blocks_by_hash s)"

definition is_committed_by_hash :: "'b storage \<Rightarrow> hash \<Rightarrow> bool" where
  "is_committed_by_hash s h \<longleftrightarrow> h |\<in>| committed_blocks_by_hash s"

named_theorems storage_defs

lemmas [storage_defs] =
  Storage_new_def delivered_block_from_ht_def delivered_block_from_hash_def committed_block_from_ht_def
  committed_block_by_hash_def add_delivered_block_def add_committed_block_def is_committed_by_ht_def
  is_delivered_by_ht_def is_delivered_by_hash_def is_committed_by_hash_def

section \<open>Committing a chain\<close>

text \<open>
  The loop of \<open>do_commit\<close>: from a hash back over the parents until a committed hash is met. Fuel is
  one more than the number of delivered blocks; \<open>commit_chain_spec\<close> shows that it is enough.
\<close>

fun commit_walk ::
  "('b \<Rightarrow> hash) \<Rightarrow> ('b \<Rightarrow> height) \<Rightarrow> ('b \<Rightarrow> hash) \<Rightarrow> nat \<Rightarrow> hash \<Rightarrow> 'b list \<Rightarrow> 'b storage \<Rightarrow>
   ('b list \<times> 'b storage) res" where
  "commit_walk hs ht prev fuel h newly s =
     (if is_committed_by_hash s h then Inr (newly, s)
      else
        case fuel of
          0 \<Rightarrow> Inl OutOfFuel
        | Suc n \<Rightarrow>
            rbind (expect ''called Option::unwrap on a None value'' (delivered_block_from_hash s h)) (\<lambda>b.
            commit_walk hs ht prev n (prev b) (newly @ [b]) (add_committed_block hs ht b s)))"

declare commit_walk.simps [simp del]

definition commit_chain ::
  "('b \<Rightarrow> hash) \<Rightarrow> ('b \<Rightarrow> height) \<Rightarrow> ('b \<Rightarrow> hash) \<Rightarrow> hash \<Rightarrow> 'b storage \<Rightarrow> ('b list \<times> 'b storage) res" where
  "commit_chain hs ht prev h s =
     commit_walk hs ht prev (Suc (fcard (fmdom (all_delivered_blocks_by_hash s)))) h [] s"

section \<open>Laws of the index\<close>

text \<open>
  The invariant of the index: blocks are filed under their own hash, only delivered blocks are
  committed, and the parent of a committed block is committed.
\<close>

definition storage_ok :: "('b \<Rightarrow> hash) \<Rightarrow> ('b \<Rightarrow> hash) \<Rightarrow> 'b storage \<Rightarrow> bool" where
  "storage_ok hs prev s \<longleftrightarrow>
     (\<forall>h b. delivered_block_from_hash s h = Some b \<longrightarrow> hs b = h) \<and>
     (\<forall>h. is_committed_by_hash s h \<longrightarrow> is_delivered_by_hash s h) \<and>
     (\<forall>h b. is_committed_by_hash s h \<longrightarrow> delivered_block_from_hash s h = Some b \<longrightarrow>
        is_committed_by_hash s (prev b))"

lemma storage_okI:
  assumes "\<And>h b. delivered_block_from_hash s h = Some b \<Longrightarrow> hs b = h"
    and "\<And>h. is_committed_by_hash s h \<Longrightarrow> is_delivered_by_hash s h"
    and "\<And>h b. is_committed_by_hash s h \<Longrightarrow> delivered_block_from_hash s h = Some b \<Longrightarrow> is_committed_by_hash s (prev b)"
  shows "storage_ok hs prev s"
  using assms by (simp add: storage_ok_def)

lemma storage_okD:
  assumes "storage_ok hs prev s"
  shows "delivered_block_from_hash s h = Some b \<Longrightarrow> hs b = h"
    and "is_committed_by_hash s h \<Longrightarrow> is_delivered_by_hash s h"
    and "is_committed_by_hash s h \<Longrightarrow> delivered_block_from_hash s h = Some b \<Longrightarrow> is_committed_by_hash s (prev b)"
  using assms by (simp_all add: storage_ok_def)

text \<open>A block whose hash is already taken by a different block is never delivered.\<close>

definition fresh_or_same :: "('b \<Rightarrow> hash) \<Rightarrow> 'b \<Rightarrow> 'b storage \<Rightarrow> bool" where
  "fresh_or_same hs b s \<longleftrightarrow> delivered_block_from_hash s (hs b) \<in> {None, Some b}"

lemma storage_ok_new: "storage_ok hs prev Storage_new"
  by (simp add: storage_ok_def storage_defs)

lemma delivered_new [simp]:
  "delivered_block_from_hash Storage_new h = None" "\<not> is_delivered_by_hash Storage_new h" "\<not> is_committed_by_hash Storage_new h"
  by (simp_all add: storage_defs)

lemma delivered_add [simp]:
  "delivered_block_from_hash (add_delivered_block hs ht b s) h =
     (if h = hs b then Some b else delivered_block_from_hash s h)"
  "is_delivered_by_hash (add_delivered_block hs ht b s) h \<longleftrightarrow> h = hs b \<or> is_delivered_by_hash s h"
  "is_committed_by_hash (add_delivered_block hs ht b s) h \<longleftrightarrow> is_committed_by_hash s h"
  "delivered_block_from_ht (add_delivered_block hs ht b s) n =
     (if n = ht b then Some b else delivered_block_from_ht s n)"
  by (auto simp: storage_defs)

lemma committed_add [simp]:
  "delivered_block_from_hash (add_committed_block hs ht b s) h = delivered_block_from_hash s h"
  "is_delivered_by_hash (add_committed_block hs ht b s) h \<longleftrightarrow> is_delivered_by_hash s h"
  "is_committed_by_hash (add_committed_block hs ht b s) h \<longleftrightarrow> h = hs b \<or> is_committed_by_hash s h"
  "all_delivered_blocks_by_hash (add_committed_block hs ht b s) = all_delivered_blocks_by_hash s"
  "all_delivered_blocks_by_ht (add_committed_block hs ht b s) = all_delivered_blocks_by_ht s"
  by (auto simp: storage_defs)

lemma is_delivered_iff: "is_delivered_by_hash s h \<longleftrightarrow> (\<exists>b. delivered_block_from_hash s h = Some b)"
  by (simp add: is_delivered_by_hash_def delivered_block_from_hash_def fmmem_iff)

lemma storage_ok_deliver:
  assumes "storage_ok hs prev s" and "fresh_or_same hs b s"
  shows "storage_ok hs prev (add_delivered_block hs ht b s)"
proof (rule storage_okI)
  fix h c
  note inv = storage_okD [OF assms(1)]
  show "hs c = h" if "delivered_block_from_hash (add_delivered_block hs ht b s) h = Some c"
    using that inv(1) by (auto split: if_splits)
  show "is_delivered_by_hash (add_delivered_block hs ht b s) h"
    if "is_committed_by_hash (add_delivered_block hs ht b s) h"
    using that inv(2) by simp
  assume "is_committed_by_hash (add_delivered_block hs ht b s) h"
    and c: "delivered_block_from_hash (add_delivered_block hs ht b s) h = Some c"
  then have com: "is_committed_by_hash s h" and "is_delivered_by_hash s h" using inv(2) by auto
  with c assms(2) have "delivered_block_from_hash s h = Some c"
    by (auto simp: fresh_or_same_def is_delivered_iff split: if_splits)
  with inv(3) com show "is_committed_by_hash (add_delivered_block hs ht b s) (prev c)" by auto
qed

section \<open>What the walk does\<close>

text \<open>
  A chain from newest to oldest: each block is filed under the hash its child names, none of the
  hashes is committed, and the parent of the last one is.
\<close>

fun uncommitted_chain :: "('b \<Rightarrow> hash) \<Rightarrow> 'b storage \<Rightarrow> hash \<Rightarrow> 'b list \<Rightarrow> hash \<Rightarrow> bool" where
  "uncommitted_chain prev s h [] h' \<longleftrightarrow> h = h'"
| "uncommitted_chain prev s h (b # bs) h' \<longleftrightarrow>
     \<not> is_committed_by_hash s h \<and> delivered_block_from_hash s h = Some b \<and>
     uncommitted_chain prev s (prev b) bs h'"

definition commit_all :: "('b \<Rightarrow> hash) \<Rightarrow> ('b \<Rightarrow> height) \<Rightarrow> 'b list \<Rightarrow> 'b storage \<Rightarrow> 'b storage" where
  "commit_all hs ht bs s = fold (add_committed_block hs ht) bs s"

lemma commit_all_simps [simp]:
  "delivered_block_from_hash (commit_all hs ht bs s) h = delivered_block_from_hash s h"
  "is_delivered_by_hash (commit_all hs ht bs s) h \<longleftrightarrow> is_delivered_by_hash s h"
  "is_committed_by_hash (commit_all hs ht bs s) h \<longleftrightarrow> h \<in> hs ` set bs \<or> is_committed_by_hash s h"
  "all_delivered_blocks_by_hash (commit_all hs ht bs s) = all_delivered_blocks_by_hash s"
  "all_delivered_blocks_by_ht (commit_all hs ht bs s) = all_delivered_blocks_by_ht s"
  by (induction bs arbitrary: s) (auto simp: commit_all_def)

lemma commit_walk_success:
  assumes "commit_walk hs ht prev fuel h newly s = Inr (out, s')" and "storage_ok hs prev' s0"
    and "all_delivered_blocks_by_hash s = all_delivered_blocks_by_hash s0"
  shows "\<exists>bs. out = newly @ bs \<and> s' = commit_all hs ht bs s \<and> distinct (map hs bs) \<and>
    (\<forall>b\<in>set bs. \<not> is_committed_by_hash s (hs b) \<and> delivered_block_from_hash s (hs b) = Some b \<and>
       is_committed_by_hash s' (prev b)) \<and> is_committed_by_hash s' h"
  using assms
proof (induction fuel arbitrary: h newly s)
  case 0
  then show ?case by (simp add: commit_walk.simps [of _ _ _ 0] commit_all_def split: if_splits)
next
  case (Suc n)
  show ?case
  proof (cases "is_committed_by_hash s h")
    case True
    with Suc.prems(1) show ?thesis
      by (simp add: commit_walk.simps [of _ _ _ "Suc n"] commit_all_def)
  next
    case False
    with Suc.prems(1) obtain b where b: "delivered_block_from_hash s h = Some b"
        "commit_walk hs ht prev n (prev b) (newly @ [b]) (add_committed_block hs ht b s) = Inr (out, s')"
      by (auto simp: commit_walk.simps [of _ _ _ "Suc n"])
    have h: "hs b = h"
      using Suc.prems(2,3) b(1) by (simp add: storage_ok_def delivered_block_from_hash_def)
    from Suc.IH [OF b(2) Suc.prems(2)] Suc.prems(3) obtain bs where
      bs: "out = (newly @ [b]) @ bs" "s' = commit_all hs ht bs (add_committed_block hs ht b s)"
        "distinct (map hs bs)" "is_committed_by_hash s' (prev b)"
        "\<forall>c\<in>set bs. \<not> is_committed_by_hash (add_committed_block hs ht b s) (hs c) \<and>
           delivered_block_from_hash (add_committed_block hs ht b s) (hs c) = Some c \<and>
           is_committed_by_hash s' (prev c)"
      by auto
    have "hs b \<notin> hs ` set bs" using bs(5) by auto
    moreover have "s' = commit_all hs ht (b # bs) s" by (simp add: bs(2) commit_all_def)
    ultimately show ?thesis
      using bs False b(1) h by (intro exI [of _ "b # bs"]) auto
  qed
qed

text \<open>What a walk commits it found in the index.\<close>

lemma commit_walk_found:
  assumes "commit_walk hs ht prev fuel h newly s = Inr (out, s')"
  shows "\<exists>bs. out = newly @ bs \<and> s' = commit_all hs ht bs s \<and> (\<forall>b\<in>set bs. \<exists>k. delivered_block_from_hash s k = Some b)"
  using assms
proof (induction fuel arbitrary: h newly s)
  case 0
  then show ?case by (simp add: commit_walk.simps [of _ _ _ 0] commit_all_def split: if_splits)
next
  case (Suc n)
  show ?case
  proof (cases "is_committed_by_hash s h")
    case True
    with Suc.prems show ?thesis by (simp add: commit_walk.simps [of _ _ _ "Suc n"] commit_all_def)
  next
    case False
    with Suc.prems obtain b where b: "delivered_block_from_hash s h = Some b"
        "commit_walk hs ht prev n (prev b) (newly @ [b]) (add_committed_block hs ht b s) = Inr (out, s')"
      by (auto simp: commit_walk.simps [of _ _ _ "Suc n"])
    from Suc.IH [OF b(2)] obtain bs where "out = (newly @ [b]) @ bs"
        "s' = commit_all hs ht bs (add_committed_block hs ht b s)" "\<forall>c\<in>set bs. \<exists>k. delivered_block_from_hash s k = Some c"
      by auto
    with b(1) show ?thesis by (intro exI [of _ "b # bs"]) (auto simp: commit_all_def)
  qed
qed

text \<open>What a walk commits is an ancestor of the block it starts from.\<close>

definition parent_step :: "('b \<Rightarrow> hash) \<Rightarrow> 'b storage \<Rightarrow> hash \<Rightarrow> hash \<Rightarrow> bool" where
  "parent_step prev s h h' \<longleftrightarrow> (\<exists>b. delivered_block_from_hash s h = Some b \<and> prev b = h')"

lemma parent_step_mono:
  assumes "\<And>h b. delivered_block_from_hash s h = Some b \<Longrightarrow> delivered_block_from_hash s' h = Some b"
    and "(parent_step prev s)\<^sup>*\<^sup>* h h'"
  shows "(parent_step prev s')\<^sup>*\<^sup>* h h'"
proof -
  have "parent_step prev s k k' \<Longrightarrow> parent_step prev s' k k'" for k k'
    unfolding parent_step_def using assms(1) by blast
  then have "parent_step prev s \<le> parent_step prev s'" by blast
  with assms(2) show ?thesis using rtranclp_mono by blast
qed

lemma commit_walk_ancestors:
  assumes "commit_walk hs ht prev fuel h newly s = Inr (out, s')"
    and "\<And>h b. delivered_block_from_hash s h = Some b \<Longrightarrow> hs b = h"
  shows "\<forall>b\<in>set out - set newly. (parent_step prev s)\<^sup>*\<^sup>* h (hs b)"
  using assms
proof (induction fuel arbitrary: h newly s)
  case 0
  then show ?case by (simp add: commit_walk.simps [of _ _ _ 0] split: if_splits)
next
  case (Suc n)
  show ?case
  proof (cases "is_committed_by_hash s h")
    case True
    with Suc.prems(1) show ?thesis by (simp add: commit_walk.simps [of _ _ _ "Suc n"])
  next
    case False
    with Suc.prems(1) obtain b where b: "delivered_block_from_hash s h = Some b"
        "commit_walk hs ht prev n (prev b) (newly @ [b]) (add_committed_block hs ht b s) = Inr (out, s')"
      by (auto simp: commit_walk.simps [of _ _ _ "Suc n"])
    have "hs b = h" and step: "parent_step prev s h (prev b)" using Suc.prems(2) b(1) by (auto simp: parent_step_def)
    moreover have "parent_step prev (add_committed_block hs ht b s) = parent_step prev s"
      by (simp add: parent_step_def fun_eq_iff)
    ultimately have "\<forall>c\<in>set out - set (newly @ [b]). (parent_step prev s)\<^sup>*\<^sup>* (prev b) (hs c)"
      using Suc.IH [OF b(2)] Suc.prems(2) by simp
    then show ?thesis using step \<open>hs b = h\<close> by (auto intro: converse_rtranclp_into_rtranclp)
  qed
qed

lemma commit_chain_ancestors:
  assumes "storage_ok hs prev s" and "commit_chain hs ht prev h s = Inr (bs, s')" and "b \<in> set bs"
  shows "(parent_step prev s)\<^sup>*\<^sup>* h (hs b)"
  using commit_walk_ancestors [OF assms(2) [unfolded commit_chain_def]] assms(1,3) by (auto simp: storage_ok_def)

text \<open>The walk runs along a complete chain of uncommitted blocks and commits exactly those.\<close>

lemma uncommitted_chain_add:
  assumes "uncommitted_chain prev s h bs h'" and "hs c \<notin> hs ` set bs"
    and "\<forall>h b. delivered_block_from_hash s h = Some b \<longrightarrow> hs b = h"
  shows "uncommitted_chain prev (add_committed_block hs ht c s) h bs h'"
  using assms by (induction bs arbitrary: h) auto

lemma commit_walk_chain:
  assumes "uncommitted_chain prev s h bs h'" and "is_committed_by_hash (commit_all hs ht bs s) h'"
    and "distinct (map hs bs)" and "\<forall>h b. delivered_block_from_hash s h = Some b \<longrightarrow> hs b = h"
    and "length bs \<le> fuel"
  shows "commit_walk hs ht prev fuel h newly s = Inr (newly @ bs, commit_all hs ht bs s)"
  using assms
proof (induction bs arbitrary: h newly s fuel)
  case Nil
  then show ?case by (simp add: commit_walk.simps [of _ _ _ fuel] commit_all_def)
next
  case (Cons b bs)
  obtain n where n: "fuel = Suc n" using Cons.prems(5) by (cases fuel) auto
  let ?s = "add_committed_block hs ht b s"
  have "uncommitted_chain prev ?s (prev b) bs h'"
    using Cons.prems(1,3,4) by (intro uncommitted_chain_add) auto
  moreover have "is_committed_by_hash (commit_all hs ht bs ?s) h'"
    using Cons.prems(2) by (simp add: commit_all_def)
  ultimately have "commit_walk hs ht prev n (prev b) (newly @ [b]) ?s = Inr ((newly @ [b]) @ bs, commit_all hs ht bs ?s)"
    using Cons.prems(3-5) n by (intro Cons.IH) auto
  with Cons.prems(1) show ?case
    by (simp add: n commit_walk.simps [of _ _ _ "Suc n"] commit_all_def)
qed

lemma delivered_count:
  assumes "distinct (map hs bs)" and "\<forall>b\<in>set bs. delivered_block_from_hash s (hs b) = Some b"
  shows "length bs \<le> fcard (fmdom (all_delivered_blocks_by_hash s))"
proof -
  have "hs ` set bs \<subseteq> fset (fmdom (all_delivered_blocks_by_hash s))"
    using assms(2) by (auto simp: delivered_block_from_hash_def intro: fmdomI)
  then have "card (hs ` set bs) \<le> card (fset (fmdom (all_delivered_blocks_by_hash s)))"
    by (intro card_mono) auto
  moreover have "card (hs ` set bs) = length bs"
    using assms(1) distinct_card by fastforce
  ultimately show ?thesis by (simp add: fcard.rep_eq)
qed

lemma uncommitted_chain_delivered:
  "uncommitted_chain prev s h bs h' \<Longrightarrow> b \<in> set bs \<Longrightarrow> \<exists>k. delivered_block_from_hash s k = Some b \<and> \<not> is_committed_by_hash s k"
  by (induction bs arbitrary: h) auto

lemma commit_chain_spec:
  assumes "storage_ok hs prev s" and "uncommitted_chain prev s h bs h'" and "distinct (map hs bs)"
    and "is_committed_by_hash (commit_all hs ht bs s) h'"
  shows "commit_chain hs ht prev h s = Inr (bs, commit_all hs ht bs s)"
proof -
  have keyed: "\<forall>h b. delivered_block_from_hash s h = Some b \<longrightarrow> hs b = h"
    using assms(1) by (simp add: storage_ok_def)
  then have "\<forall>b\<in>set bs. delivered_block_from_hash s (hs b) = Some b"
    using uncommitted_chain_delivered [OF assms(2)] by fastforce
  from delivered_count [OF assms(3) this] commit_walk_chain [OF assms(2,4,3) keyed] show ?thesis
    by (simp add: commit_chain_def)
qed

text \<open>Whatever chain it meets, a walk that returns keeps the index well formed.\<close>

lemma commit_chain_ok:
  assumes "storage_ok hs prev s" and "commit_chain hs ht prev h s = Inr (bs, s')"
  shows "storage_ok hs prev s'" "s' = commit_all hs ht bs s" "distinct (map hs bs)"
    "\<forall>b\<in>set bs. \<not> is_committed_by_hash s (hs b) \<and> delivered_block_from_hash s (hs b) = Some b"
    "is_committed_by_hash s' h"
proof -
  from commit_walk_success [OF assms(2) [unfolded commit_chain_def] assms(1) refl] obtain cs where
    cs: "bs = [] @ cs" "s' = commit_all hs ht cs s" "distinct (map hs cs)" "is_committed_by_hash s' h"
      "\<forall>b\<in>set cs. \<not> is_committed_by_hash s (hs b) \<and> delivered_block_from_hash s (hs b) = Some b \<and>
         is_committed_by_hash s' (prev b)"
    by blast
  from cs show "s' = commit_all hs ht bs s" "distinct (map hs bs)"
    "\<forall>b\<in>set bs. \<not> is_committed_by_hash s (hs b) \<and> delivered_block_from_hash s (hs b) = Some b"
    "is_committed_by_hash s' h" by auto
  show "storage_ok hs prev s'"
  proof (rule storage_okI)
    fix h b
    note inv = storage_okD [OF assms(1)]
    show "hs b = h" if "delivered_block_from_hash s' h = Some b" using that inv(1) cs(2) by simp
    have del: "is_delivered_by_hash s h" if "h \<in> hs ` set cs"
      using that cs(5) by (auto simp: is_delivered_iff)
    show "is_delivered_by_hash s' h" if "is_committed_by_hash s' h"
      using that inv(2) cs(2) del by auto
    assume com: "is_committed_by_hash s' h" and b: "delivered_block_from_hash s' h = Some b"
    then have "hs b = h" "delivered_block_from_hash s h = Some b" using inv(1) cs(2) by auto
    from com cs(2) consider "h \<in> hs ` set cs" | "is_committed_by_hash s h" by auto
    then show "is_committed_by_hash s' (prev b)"
    proof cases
      case 1
      then obtain c where "c \<in> set cs" "hs c = h" by auto
      with cs(5) \<open>delivered_block_from_hash s h = Some b\<close> show ?thesis by force
    next
      case 2
      with inv(3) \<open>delivered_block_from_hash s h = Some b\<close> cs(2) show ?thesis by simp
    qed
  qed
qed

text \<open>
  Over a complete chain the walk never runs out of fuel: the only fault is a parent that was not
  delivered.
\<close>

lemma commit_walk_fault:
  assumes "commit_walk hs ht prev fuel h newly s = Inl f"
    and "\<forall>h b. delivered_block_from_hash s h = Some b \<longrightarrow> hs b = h"
    and "fcard (fmdom (all_delivered_blocks_by_hash s)) < fuel + fcard (committed_blocks_by_hash s |\<inter>| fmdom (all_delivered_blocks_by_hash s))"
  shows "f = Panic ''called Option::unwrap on a None value''"
  using assms
proof (induction fuel arbitrary: h newly s)
  case 0
  have "fcard (committed_blocks_by_hash s |\<inter>| fmdom (all_delivered_blocks_by_hash s))
      \<le> fcard (fmdom (all_delivered_blocks_by_hash s))" by (intro fcard_mono) auto
  with "0.prems"(3) show ?case by simp
next
  case (Suc n)
  show ?case
  proof (cases "delivered_block_from_hash s h")
    case None
    with Suc.prems(1) show ?thesis
      by (auto simp: commit_walk.simps [of _ _ _ "Suc n"] split: if_splits)
  next
    case (Some b)
    let ?C = "committed_blocks_by_hash s" and ?D = "fmdom (all_delivered_blocks_by_hash s)"
    have nc: "h |\<notin>| ?C" and step: "commit_walk hs ht prev n (prev b) (newly @ [b]) (add_committed_block hs ht b s) = Inl f"
      using Suc.prems(1) Some
      by (auto simp: commit_walk.simps [of _ _ _ "Suc n"] is_committed_by_hash_def split: if_splits)
    have "hs b = h" using Suc.prems(2) Some by blast
    moreover have "h |\<in>| ?D" using Some by (auto simp: delivered_block_from_hash_def intro: fmdomI)
    ultimately have "finsert (hs b) ?C |\<inter>| ?D = finsert h (?C |\<inter>| ?D)" by auto
    moreover have "fcard (finsert h (?C |\<inter>| ?D)) = Suc (fcard (?C |\<inter>| ?D))"
      using nc by (simp add: fcard_finsert_disjoint)
    ultimately have "fcard (fmdom (all_delivered_blocks_by_hash (add_committed_block hs ht b s))) <
        n + fcard (committed_blocks_by_hash (add_committed_block hs ht b s) |\<inter>|
          fmdom (all_delivered_blocks_by_hash (add_committed_block hs ht b s)))"
      using Suc.prems(3) by (simp add: add_committed_block_def)
    from Suc.IH [OF step _ this] Suc.prems(2) show ?thesis by simp
  qed
qed

lemma commit_chain_fault:
  assumes "storage_ok hs prev s" and "commit_chain hs ht prev h s = Inl f"
  shows "f = Panic ''called Option::unwrap on a None value''"
  using commit_walk_fault [OF assms(2) [unfolded commit_chain_def]] assms(1)
  by (simp add: storage_ok_def)

text \<open>
  When every delivered block has a delivered parent, the walk from a delivered block does not
  fault: it reaches a committed block, or commits the genesis block, which is its own parent.
\<close>

definition parents_delivered :: "('b \<Rightarrow> hash) \<Rightarrow> 'b storage \<Rightarrow> bool" where
  "parents_delivered prev s \<longleftrightarrow>
     (\<forall>h b. delivered_block_from_hash s h = Some b \<longrightarrow> is_delivered_by_hash s (prev b))"

lemma commit_walk_no_panic:
  assumes "parents_delivered prev s" and "is_delivered_by_hash s h"
  shows "commit_walk hs ht prev fuel h newly s \<noteq> Inl (Panic msg)"
  using assms
proof (induction fuel arbitrary: h newly s)
  case 0
  then show ?case by (simp add: commit_walk.simps [of _ _ _ 0])
next
  case (Suc n)
  then obtain b where b: "delivered_block_from_hash s h = Some b" by (auto simp: is_delivered_iff)
  have "parents_delivered prev (add_committed_block hs ht b s)"
    "is_delivered_by_hash (add_committed_block hs ht b s) (prev b)"
    using Suc.prems(1) b by (auto simp: parents_delivered_def)
  from Suc.IH [OF this, of "newly @ [b]"] b show ?case by (simp add: commit_walk.simps [of _ _ _ "Suc n"])
qed

lemma commit_chain_total:
  assumes "storage_ok hs prev s" and "parents_delivered prev s" and "is_delivered_by_hash s h"
  shows "\<exists>bs s'. commit_chain hs ht prev h s = Inr (bs, s')"
proof (cases "commit_chain hs ht prev h s")
  case (Inl f)
  with commit_chain_fault [OF assms(1) Inl] commit_walk_no_panic [OF assms(2,3)] show ?thesis
    by (simp add: commit_chain_def)
qed auto

text \<open>Delivering a block whose parent is delivered, under a hash that no other parent belongs to.\<close>

lemma storage_ok_deliver_prev:
  assumes "storage_ok hs prev s" and "\<And>c. delivered_block_from_hash s (hs b) = Some c \<Longrightarrow> prev c = prev b"
  shows "storage_ok hs prev (add_delivered_block hs ht b s)"
proof (rule storage_okI)
  fix h c
  note inv = storage_okD [OF assms(1)]
  show "hs c = h" if "delivered_block_from_hash (add_delivered_block hs ht b s) h = Some c"
    using that inv(1) by (auto split: if_splits)
  show "is_delivered_by_hash (add_delivered_block hs ht b s) h"
    if "is_committed_by_hash (add_delivered_block hs ht b s) h"
    using that inv(2) by simp
  assume "is_committed_by_hash (add_delivered_block hs ht b s) h"
    and c: "delivered_block_from_hash (add_delivered_block hs ht b s) h = Some c"
  then have com: "is_committed_by_hash s h" and "is_delivered_by_hash s h" using inv(2) by auto
  then obtain d where d: "delivered_block_from_hash s h = Some d" by (auto simp: is_delivered_iff)
  have "prev d = prev c" using c d assms(2) by (cases "h = hs b") auto
  with inv(3) [OF com d] show "is_committed_by_hash (add_delivered_block hs ht b s) (prev c)" by simp
qed

lemma parents_delivered_add:
  assumes "parents_delivered prev s" and "is_delivered_by_hash s (prev b) \<or> prev b = hs b"
  shows "parents_delivered prev (add_delivered_block hs ht b s)"
  using assms by (auto simp: parents_delivered_def)

end
