(* ===== verification/Node_Common.thy ===== *)
theory Node_Common
  imports Batch Block_Storage
begin

text \<open>
  What the \<open>Context\<close>s of the four protocol nodes have in common: identity, keys and the reliable
  sender (\<open>comms.rs\<close>, \<open>remember_consensus\<close>, \<open>gc_handlers\<close>), the batch cache with its durable
  fallback (\<open>persist_batch\<close>, \<open>read_batch\<close>), the queues towards the mempool, and decoding the keys of
  the configuration. Each protocol's \<open>Context\<close> record has the two records of this theory as fields.

  The reliable sender is outside the repository: sending hands the message over (it is appended
  to \<open>nx_sent\<close>) and returns a cancel handler or an error. Serialisation of a protocol message does
  not fail: \<open>serialize_proto\<close> is bincode on plain data.
\<close>

section \<open>Network\<close>

record 'm net_ctx =
  nx_num_nodes :: nat
  nx_num_faults :: nat
  nx_myid :: replica
  nx_pub_key_map :: "(replica, public_key) fmap"
  nx_my_secret_key :: keypair
  nx_broadcast_peers :: "replica list"
  nx_handlers :: "(round, handler list) fmap"
  nx_sent :: "(replica \<times> 'm) list"

definition remember_consensus :: "round \<Rightarrow> handler \<Rightarrow> 'm net_ctx \<Rightarrow> 'm net_ctx" where
  "remember_consensus r h n =
     n\<lparr>nx_handlers := fmupd r (fmget_or [] (nx_handlers n) r @ [h]) (nx_handlers n)\<rparr>"

text \<open>Hand one message to the reliable sender and keep its handler under round \<open>r\<close>.\<close>

definition post :: "ext \<Rightarrow> round \<Rightarrow> 'm \<Rightarrow> replica \<Rightarrow> 'm net_ctx \<Rightarrow> 'm net_ctx" where
  "post E r msg dest n =
     (let i = length (nx_sent n);
          n = n\<lparr>nx_sent := nx_sent n @ [(dest, msg)]\<rparr>
      in case net_send E i dest of
           Some h \<Rightarrow> remember_consensus r h n
         | None \<Rightarrow> n)"

definition send :: "ext \<Rightarrow> round \<Rightarrow> replica \<Rightarrow> 'm \<Rightarrow> 'm net_ctx \<Rightarrow> 'm net_ctx" where
  "send E r dest msg n = (if dest = nx_myid n then n else post E r msg dest n)"

definition multicast :: "ext \<Rightarrow> round \<Rightarrow> 'm \<Rightarrow> 'm net_ctx \<Rightarrow> 'm net_ctx" where
  "multicast E r msg n = fold (post E r msg) (nx_broadcast_peers n) n"

definition gc_handlers :: "ext \<Rightarrow> 'm net_ctx \<Rightarrow> 'm net_ctx" where
  "gc_handlers E n =
     n\<lparr>nx_handlers :=
         fmfilter (\<lambda>r. filter (net_in_flight E (length (nx_sent n))) (fmget_or [] (nx_handlers n) r) \<noteq> [])
           (fmmap (filter (net_in_flight E (length (nx_sent n)))) (nx_handlers n))\<rparr>"

section \<open>Keys\<close>

text \<open>
  Decoding a key of the configuration; RSA is a panic. \<open>decode_keys\<close> is the loop over \<open>pk_map\<close> that
  skips the node itself.
\<close>

definition decode_secret :: "ext \<Rightarrow> algorithm \<Rightarrow> bytes \<Rightarrow> keypair res" where
  "decode_secret E alg bs =
     (case alg of
        RSA \<Rightarrow> Inl (Panic ''Unimplemented algorithm'')
      | _ \<Rightarrow> expect ''Failed to decode the secret key from the config'' (decode_keypair E bs))"

definition decode_public :: "ext \<Rightarrow> algorithm \<Rightarrow> bytes \<Rightarrow> public_key res" where
  "decode_public E alg bs =
     (case alg of
        RSA \<Rightarrow> Inl (Panic ''Unimplemented algorithm'')
      | _ \<Rightarrow> expect ''Failed to decode the secret key from the config'' (decode_public_key E bs))"

definition decode_keys ::
  "ext \<Rightarrow> algorithm \<Rightarrow> replica \<Rightarrow> (replica \<times> bytes) list \<Rightarrow> (replica, public_key) fmap res" where
  "decode_keys E alg me pks =
     rfold (\<lambda>(i, bs) m. if i = me then Inr m else rbind (decode_public E alg bs) (\<lambda>pk. Inr (fmupd i pk m)))
       pks fmempty"

text \<open>The network part of \<open>Context::new\<close>; \<open>pks\<close> lists the entries of \<open>config.pk_map\<close>.\<close>

definition net_new :: "ext \<Rightarrow> node_config \<Rightarrow> (replica \<times> bytes) list \<Rightarrow> 'm net_ctx res" where
  "net_new E config pks =
     rbind (decode_secret E (nc_crypto_alg config) (nc_secret_key_bytes config)) (\<lambda>sk.
     rbind (decode_keys E (nc_crypto_alg config) (nc_id config) pks) (\<lambda>pkm.
     Inr \<lparr>nx_num_nodes = nc_num_nodes config, nx_num_faults = nc_num_faults config, nx_myid = nc_id config,
          nx_pub_key_map = pkm, nx_my_secret_key = sk,
          nx_broadcast_peers = filter (\<lambda>r. r \<noteq> nc_id config) [0..<nc_num_nodes config mod 2 ^ 16],
          nx_handlers = fmempty, nx_sent = []\<rparr>))"

section \<open>Batches\<close>

record batch_ctx =
  bx_cache :: batch_cache
  bx_store :: "(bytes, bytes) fmap"
  bx_pending :: "(hash \<times> cached_batch) list"
  bx_to_batcher :: "batcher_msg list"
  bx_to_router :: "cached_batch list"

definition batch_ctx_new :: "batch_cache \<Rightarrow> (bytes, bytes) fmap \<Rightarrow> batch_ctx" where
  "batch_ctx_new c st =
     \<lparr>bx_cache = c, bx_store = st, bx_pending = [], bx_to_batcher = [], bx_to_router = []\<rparr>"

definition persist_batch :: "ext \<Rightarrow> hash \<Rightarrow> cached_batch \<Rightarrow> batch_ctx \<Rightarrow> batch_ctx" where
  "persist_batch E h b x =
     x\<lparr>bx_cache := cache_insert h b (bx_cache x),
       bx_store := store_write E h (CachedBatch_serialize E b) (bx_store x)\<rparr>"

definition read_batch :: "ext \<Rightarrow> hash \<Rightarrow> batch_ctx \<Rightarrow> cached_batch option \<times> batch_ctx" where
  "read_batch E h x =
     (case cache_get (bx_cache x) h of
        Some cached \<Rightarrow> (Some cached, x)
      | None \<Rightarrow>
          (case store_read E h (bx_store x) of
             Some bs \<Rightarrow>
               (case CachedBatch_deserialize E bs of
                  Some b \<Rightarrow> (Some b, x\<lparr>bx_cache := cache_insert h b (bx_cache x)\<rparr>)
                | None \<Rightarrow> (None, x))
           | None \<Rightarrow> (None, x)))"

definition notify_batcher :: "batcher_msg \<Rightarrow> batch_ctx \<Rightarrow> batch_ctx" where
  "notify_batcher m x = x\<lparr>bx_to_batcher := bx_to_batcher x @ [m]\<rparr>"

definition notify_router :: "cached_batch \<Rightarrow> batch_ctx \<Rightarrow> batch_ctx" where
  "notify_router b x = x\<lparr>bx_to_router := bx_to_router x @ [b]\<rparr>"

text \<open>
  How an iteration of a reactor's loop ends: with the next iteration, with \<open>process::exit\<close>, or by
  leaving the loop.
\<close>

datatype 'c reactor_outcome = Continue 'c | ProcessExit | ReactorBreak

section \<open>Frame facts\<close>

lemma post_frame [simp]:
  "nx_num_nodes (post E r m d n) = nx_num_nodes n" "nx_num_faults (post E r m d n) = nx_num_faults n"
  "nx_myid (post E r m d n) = nx_myid n" "nx_pub_key_map (post E r m d n) = nx_pub_key_map n"
  "nx_my_secret_key (post E r m d n) = nx_my_secret_key n"
  "nx_broadcast_peers (post E r m d n) = nx_broadcast_peers n"
  "nx_sent (post E r m d n) = nx_sent n @ [(d, m)]"
  by (simp_all add: post_def remember_consensus_def Let_def split: option.splits)

lemma fold_post_frame [simp]:
  "nx_num_nodes (fold (post E r m) ds n) = nx_num_nodes n"
  "nx_num_faults (fold (post E r m) ds n) = nx_num_faults n"
  "nx_myid (fold (post E r m) ds n) = nx_myid n"
  "nx_pub_key_map (fold (post E r m) ds n) = nx_pub_key_map n"
  "nx_my_secret_key (fold (post E r m) ds n) = nx_my_secret_key n"
  "nx_broadcast_peers (fold (post E r m) ds n) = nx_broadcast_peers n"
  "nx_sent (fold (post E r m) ds n) = nx_sent n @ map (\<lambda>d. (d, m)) ds"
  by (induction ds arbitrary: n) simp_all

lemma send_frame [simp]:
  "nx_num_nodes (send E r d m n) = nx_num_nodes n" "nx_num_faults (send E r d m n) = nx_num_faults n"
  "nx_myid (send E r d m n) = nx_myid n" "nx_pub_key_map (send E r d m n) = nx_pub_key_map n"
  "nx_my_secret_key (send E r d m n) = nx_my_secret_key n"
  "nx_broadcast_peers (send E r d m n) = nx_broadcast_peers n"
  by (simp_all add: send_def)

lemma send_sent: "nx_sent (send E r d m n) = nx_sent n @ (if d = nx_myid n then [] else [(d, m)])"
  by (simp add: send_def)

lemma multicast_frame [simp]:
  "nx_num_nodes (multicast E r m n) = nx_num_nodes n" "nx_num_faults (multicast E r m n) = nx_num_faults n"
  "nx_myid (multicast E r m n) = nx_myid n" "nx_pub_key_map (multicast E r m n) = nx_pub_key_map n"
  "nx_my_secret_key (multicast E r m n) = nx_my_secret_key n"
  "nx_broadcast_peers (multicast E r m n) = nx_broadcast_peers n"
  "nx_sent (multicast E r m n) = nx_sent n @ map (\<lambda>d. (d, m)) (nx_broadcast_peers n)"
  by (simp_all add: multicast_def)

lemma gc_frame [simp]:
  "nx_num_nodes (gc_handlers E n) = nx_num_nodes n" "nx_num_faults (gc_handlers E n) = nx_num_faults n"
  "nx_myid (gc_handlers E n) = nx_myid n" "nx_pub_key_map (gc_handlers E n) = nx_pub_key_map n"
  "nx_my_secret_key (gc_handlers E n) = nx_my_secret_key n"
  "nx_broadcast_peers (gc_handlers E n) = nx_broadcast_peers n" "nx_sent (gc_handlers E n) = nx_sent n"
  by (simp_all add: gc_handlers_def)

lemma read_batch_frame [simp]:
  "bx_pending (snd (read_batch E h x)) = bx_pending x"
  "bx_to_batcher (snd (read_batch E h x)) = bx_to_batcher x"
  "bx_to_router (snd (read_batch E h x)) = bx_to_router x"
  "bx_store (snd (read_batch E h x)) = bx_store x"
  by (simp_all add: read_batch_def split: option.splits)

lemma read_batch_result:
  assumes "read_batch E h x = (r, x')"
  shows "bx_pending x' = bx_pending x" "bx_to_batcher x' = bx_to_batcher x" "bx_to_router x' = bx_to_router x"
    "bx_store x' = bx_store x"
  using read_batch_frame [of E h x] by (simp_all add: assms)

lemma notify_frame [simp]:
  "bx_pending (notify_batcher m x) = bx_pending x" "bx_to_router (notify_batcher m x) = bx_to_router x"
  "bx_cache (notify_batcher m x) = bx_cache x" "bx_store (notify_batcher m x) = bx_store x"
  "bx_to_batcher (notify_batcher m x) = bx_to_batcher x @ [m]"
  "bx_pending (notify_router b x) = bx_pending x" "bx_to_batcher (notify_router b x) = bx_to_batcher x"
  "bx_cache (notify_router b x) = bx_cache x" "bx_store (notify_router b x) = bx_store x"
  "bx_to_router (notify_router b x) = bx_to_router x @ [b]"
  "bx_pending (persist_batch E h b x) = bx_pending x" "bx_to_batcher (persist_batch E h b x) = bx_to_batcher x"
  "bx_to_router (persist_batch E h b x) = bx_to_router x"
  by (simp_all add: notify_batcher_def notify_router_def persist_batch_def)

text \<open>A read does not change what other reads return.\<close>

lemma read_batch_again [simp]: "fst (read_batch E h (snd (read_batch E h' x))) = fst (read_batch E h x)"
  by (auto simp: read_batch_def cache_insert_def cache_get_def fmmem_def split: option.splits)

lemma read_batch_notify [simp]:
  "fst (read_batch E h (notify_batcher m x)) = fst (read_batch E h x)"
  "fst (read_batch E h (notify_router b x)) = fst (read_batch E h x)"
  by (simp_all add: read_batch_def split: option.splits)

section \<open>Reading what was persisted\<close>

text \<open>
  The contract of the batch store as a node uses it. \<open>stored x h\<close> is the batch a read of \<open>h\<close> would
  return, \<open>good\<close> relates hashes and batches: a batch once readable stays readable and unchanged, and
  every readable batch is good.
\<close>

locale batch_io =
  fixes persist :: "hash \<Rightarrow> cached_batch \<Rightarrow> 'x \<Rightarrow> 'x"
    and rd :: "hash \<Rightarrow> 'x \<Rightarrow> cached_batch option \<times> 'x"
    and stored :: "'x \<Rightarrow> hash \<Rightarrow> cached_batch option"
    and good :: "hash \<Rightarrow> cached_batch \<Rightarrow> bool"
    and inv :: "'x \<Rightarrow> bool"
  assumes inv_persist: "inv x \<Longrightarrow> good h b \<Longrightarrow> inv (persist h b x)"
    and inv_rd: "inv x \<Longrightarrow> inv (snd (rd h x))"
    and good_rd: "inv x \<Longrightarrow> fst (rd h x) = Some b \<Longrightarrow> good h b"
    and stored_rd: "inv x \<Longrightarrow> stored x h = Some b \<Longrightarrow> fst (rd h x) = Some b"
    and stored_mono: "stored x h = Some b \<Longrightarrow> stored (persist h' b' x) h = Some b"
      "stored x h = Some b \<Longrightarrow> stored (snd (rd h' x)) h = Some b"
    and stored_persist: "\<exists>c. stored (persist h b x) h = Some c"
begin

lemma read_persisted: "inv x \<Longrightarrow> good h b \<Longrightarrow> \<exists>c. fst (rd h (persist h b x)) = Some c \<and> good h c"
  using stored_persist inv_persist stored_rd good_rd by metis

lemma read_stable:
  "inv x \<Longrightarrow> stored x h = Some b \<Longrightarrow> fst (rd h (snd (rd h' x))) = Some b"
  "inv x \<Longrightarrow> stored x h = Some b \<Longrightarrow> good h' b' \<Longrightarrow> fst (rd h (persist h' b' x)) = Some b"
  using inv_rd inv_persist stored_rd stored_mono by metis+

end

definition good_batch :: "ext \<Rightarrow> hash \<Rightarrow> cached_batch \<Rightarrow> bool" where
  "good_batch E h b \<longleftrightarrow> batch_ok E b \<and> batch_digest E (cb_payload b) = h"

text \<open>
  The durable store is lawful and holds only serialised batches under their digests, as written
  by earlier runs; the cache holds only good batches.
\<close>

definition batches_ok :: "ext \<Rightarrow> batch_ctx \<Rightarrow> bool" where
  "batches_ok E x \<longleftrightarrow>
     store_ok E \<and> batch_codec_ok E \<and> cache_ok E (bx_cache x) \<and>
     (\<forall>h bs. store_read E h (bx_store x) = Some bs \<longrightarrow> (\<exists>txs. bs = ser_batch E txs \<and> batch_digest E txs = h))"

lemma deserialize_good:
  assumes "batch_codec_ok E" and "batch_digest E txs = h"
  shows "\<exists>b. CachedBatch_deserialize E (ser_batch E txs) = Some b \<and> good_batch E h b"
  using assms CachedBatch_hash_ok [OF batch_ok_new, of E txs]
  by (auto simp: CachedBatch_deserialize_def batch_codec_ok_def good_batch_def)

lemma stored_good:
  assumes "batches_ok E x" and "store_read E h (bx_store x) = Some bs" and "CachedBatch_deserialize E bs = Some b"
  shows "good_batch E h b"
proof -
  obtain txs where "bs = ser_batch E txs" "batch_digest E txs = h" "batch_codec_ok E"
    using assms(1,2) by (auto simp: batches_ok_def)
  with deserialize_good [of E txs h] assms(3) show ?thesis by auto
qed

interpretation bio: batch_io "persist_batch E" "read_batch E" "\<lambda>x. cache_get (bx_cache x)" "good_batch E" "batches_ok E" for E
proof unfold_locales
  fix x h b h' b'
  show "batches_ok E (persist_batch E h b x)" if "batches_ok E x" "good_batch E h b"
  proof -
    have "cache_ok E (cache_insert h b (bx_cache x))"
      using that by (intro cache_ok_insert) (auto simp: batches_ok_def good_batch_def)
    with that show ?thesis
      by (auto simp: batches_ok_def persist_batch_def good_batch_def store_ok_def CachedBatch_serialize_def)
  qed
  show inv: "batches_ok E (snd (read_batch E h x))" if "batches_ok E x"
  proof (cases "fst (read_batch E h x)")
    case None
    then have "snd (read_batch E h x) = x" by (auto simp: read_batch_def split: option.splits)
    with that show ?thesis by simp
  next
    case (Some c)
    show ?thesis
    proof (cases "cache_get (bx_cache x) h")
      case None
      with Some obtain bs where bs: "store_read E h (bx_store x) = Some bs" "CachedBatch_deserialize E bs = Some c"
        by (auto simp: read_batch_def split: option.splits)
      then have "good_batch E h c"
        using that by (blast intro: stored_good)
      then have "cache_ok E (cache_insert h c (bx_cache x))"
        using that by (intro cache_ok_insert) (auto simp: batches_ok_def good_batch_def)
      with None bs that show ?thesis by (simp add: read_batch_def batches_ok_def)
    qed (use that in \<open>simp add: read_batch_def\<close>)
  qed
  show "good_batch E h b" if "batches_ok E x" "fst (read_batch E h x) = Some b"
  proof (cases "cache_get (bx_cache x) h")
    case None
    with that obtain bs where "store_read E h (bx_store x) = Some bs" "CachedBatch_deserialize E bs = Some b"
      by (auto simp: read_batch_def split: option.splits)
    with that(1) show ?thesis by (blast intro: stored_good)
  next
    case (Some c)
    with that show ?thesis by (auto simp: read_batch_def batches_ok_def cache_ok_def good_batch_def)
  qed
  show "fst (read_batch E h x) = Some b" if "batches_ok E x" "cache_get (bx_cache x) h = Some b"
    using that by (simp add: read_batch_def)
  show "cache_get (bx_cache (persist_batch E h' b' x)) h = Some b" if "cache_get (bx_cache x) h = Some b"
    using that by (simp add: persist_batch_def cache.stable)
  show "cache_get (bx_cache (snd (read_batch E h' x))) h = Some b" if "cache_get (bx_cache x) h = Some b"
    using that by (simp add: read_batch_def cache.stable split: option.splits)
  show "\<exists>c. cache_get (bx_cache (persist_batch E h b x)) h = Some c"
    using cache.present by (simp add: persist_batch_def)
qed

end
