(* ===== verification/Sample_Node.thy ===== *)
theory Sample_Node
  imports Node_Common
begin

text \<open>
  What the protocol theories assume of a node's configuration, and a concrete configuration of
  four replicas of which one may be faulty, for the witnesses.
\<close>

text \<open>A configuration with a public key for every replica.\<close>

definition config_ok :: "node_config \<Rightarrow> (replica \<times> bytes) list \<Rightarrow> bool" where
  "config_ok config pks \<longleftrightarrow>
     0 < nc_num_nodes config \<and> nc_num_nodes config \<le> 2 ^ 16 \<and> {0..<nc_num_nodes config} \<subseteq> fst ` set pks"

lemma decode_keys_lookup:
  assumes "decode_keys E alg me pks = Inr m"
  shows "fmmem i m \<longleftrightarrow> i \<in> fst ` set pks \<and> i \<noteq> me"
proof -
  let ?f = "\<lambda>(i, bs) m. if i = me then Inr m else rbind (decode_public E alg bs) (\<lambda>pk. Inr (fmupd i pk m))"
  have "fmmem i m \<longleftrightarrow> i \<in> fst ` set pks \<and> i \<noteq> me \<or> fmmem i m0" if "rfold ?f pks m0 = Inr m" for m0
    using that
  proof (induction pks arbitrary: m0)
    case (Cons e pks)
    obtain j bs where e: "e = (j, bs)" by (cases e)
    show ?case
    proof (cases "j = me")
      case True
      with Cons.prems have "rfold ?f pks m0 = Inr m" by (simp add: e)
      with Cons.IH True show ?thesis by (auto simp: e)
    next
      case False
      with Cons.prems obtain pk where "rfold ?f pks (fmupd j pk m0) = Inr m" by (auto simp: e)
      with Cons.IH False show ?thesis by (auto simp: e)
    qed
  qed simp
  from this [OF assms [unfolded decode_keys_def]] show ?thesis by simp
qed

definition sample_config :: "replica \<Rightarrow> node_config" where
  "sample_config me =
     \<lparr>nc_net_map = fmempty, nc_mempool_net_map = fmempty, nc_client_net_map = fmempty, nc_delta = 50, nc_id = me,
      nc_num_nodes = 4, nc_num_faults = 1, nc_block_size = 100, nc_client_port = 10000, nc_mempool_port = 11000,
      nc_payload = 0, nc_bench_emit_window_secs = 1, nc_bench_metrics_node = 0, nc_crypto_alg = ED25519,
      nc_pk_map = fmempty, nc_secret_key_bytes = [word_of_nat me], nc_my_cert_path = [], nc_my_cert_key_path = [],
      nc_root_cert_path = []\<rparr>"

definition sample_pks :: "(replica \<times> bytes) list" where
  "sample_pks = [(0, [0]), (1, [1]), (2, [2]), (3, [3])]"

lemmas sample_node_defs = sample_config_def sample_pks_def net_new_def decode_secret_def decode_keys_def decode_public_def

end
