(* ===== verification/Apollo_Node.thy ===== *)
theory Apollo_Node
  imports Sample_Node
begin

text \<open>
  The Apollo node (\<open>consensus/apollo/src/node\<close>): a leader per round, in round-robin order, extends
  the chain by one block; a block is committed when \<open>num_faults\<close> further rounds have passed. The
  \<open>Context\<close> is the record \<open>apollo_cx\<close>; each function of the source that takes \<open>&mut Context\<close> is a
  function on it that returns the new context or a fault. This theory is the model; the theories
  \<open>Apollo_Chain\<close> and \<open>Apollo_Safety\<close> hold its properties.
\<close>

section \<open>Proposals\<close>

definition Propose_new :: "hash \<Rightarrow> apollo_propose" where
  "Propose_new h = \<lparr>ap_sig = \<lparr>v_origin = 0, v_auth = []\<rparr>, ap_round = 0, ap_block_hash = h\<rparr>"

definition Propose_sign :: "ext \<Rightarrow> keypair \<Rightarrow> apollo_propose \<Rightarrow> apollo_propose res" where
  "Propose_sign E sk p =
     rbind (expect ''Failed to sign a block'' (sk_sign E sk (ap_block_hash p))) (\<lambda>auth.
     Inr (p\<lparr>ap_sig := (ap_sig p)\<lparr>v_auth := auth\<rparr>\<rparr>))"

definition Propose_check_sig :: "ext \<Rightarrow> public_key \<Rightarrow> apollo_propose \<Rightarrow> bool" where
  "Propose_check_sig E pk p \<longleftrightarrow> pk_verify E pk (ap_block_hash p) (v_auth (ap_sig p))"

section \<open>Context\<close>

record apollo_cx =
  ax_net :: "apollo_msg net_ctx"
  ax_batch :: batch_ctx
  prop_buf :: "(replica \<times> apollo_propose \<times> block \<times> cached_batch) list"
  relay_buf :: "(replica \<times> apollo_propose) list"
  ax_other_buf :: "apollo_msg list"
  future_msgs :: "(round, replica \<times> apollo_propose) fmap"
  ax_storage :: "block storage"
  prop_chain_by_round :: "(round, apollo_propose) fmap"
  prop_chain_by_hash :: "(hash, apollo_propose) fmap"
  ax_round :: round
  ax_round_leader :: replica
  ax_block_size :: nat
  ax_bench_committed_tx_count :: nat
  ax_bench_emit_window_secs :: nat
  ax_bench_metrics_node :: replica
  ax_last_seen_block :: block
  prop_waiting :: "(hash, apollo_propose) fmap"
  prop_waiting_parent :: "(hash, apollo_propose) fmap"
  ax_req_ctr :: nat

abbreviation ax_myid :: "apollo_cx \<Rightarrow> replica" where
  "ax_myid cx \<equiv> nx_myid (ax_net cx)"

abbreviation ax_num_faults :: "apollo_cx \<Rightarrow> nat" where
  "ax_num_faults cx \<equiv> nx_num_faults (ax_net cx)"

abbreviation ax_num_nodes :: "apollo_cx \<Rightarrow> nat" where
  "ax_num_nodes cx \<equiv> nx_num_nodes (ax_net cx)"

definition deliver_block :: "block \<Rightarrow> apollo_cx \<Rightarrow> apollo_cx" where
  "deliver_block b cx =
     cx\<lparr>ax_storage := add_delivered_block block_get_hash block_get_height b (ax_storage cx)\<rparr>"

definition apollo_Context_new ::
  "ext \<Rightarrow> node_config \<Rightarrow> (replica \<times> bytes) list \<Rightarrow> batch_cache \<Rightarrow> (bytes, bytes) fmap \<Rightarrow> apollo_cx res" where
  "apollo_Context_new E config pks cache st =
     rbind (net_new E config pks) (\<lambda>net.
     let c =
       \<lparr>ax_net = net, ax_batch = batch_ctx_new cache st, prop_buf = [], relay_buf = [], ax_other_buf = [],
        future_msgs = fmempty, ax_storage = Storage_new, prop_chain_by_round = fmempty,
        prop_chain_by_hash = fmempty, ax_round = 1, ax_round_leader = 0,
        ax_block_size = nc_block_size config, ax_bench_committed_tx_count = 0,
        ax_bench_emit_window_secs = max (nc_bench_emit_window_secs config) 1,
        ax_bench_metrics_node = nc_bench_metrics_node config, ax_last_seen_block = GENESIS_BLOCK E,
        prop_waiting = fmempty, prop_waiting_parent = fmempty, ax_req_ctr = 0\<rparr>
     in Inr (deliver_block (ax_last_seen_block c) c))"

definition apollo_next_of :: "replica \<Rightarrow> apollo_cx \<Rightarrow> replica res" where
  "apollo_next_of prev cx = (if prev + 1 = ax_num_nodes cx then Inr 0 else add_u16 prev 1)"

definition apollo_next_leader :: "apollo_cx \<Rightarrow> replica res" where
  "apollo_next_leader cx = apollo_next_of (ax_round_leader cx) cx"

definition apollo_send :: "ext \<Rightarrow> replica \<Rightarrow> apollo_msg \<Rightarrow> apollo_cx \<Rightarrow> apollo_cx" where
  "apollo_send E dest msg cx = cx\<lparr>ax_net := send E (ax_round cx) dest msg (ax_net cx)\<rparr>"

definition apollo_multicast :: "ext \<Rightarrow> apollo_msg \<Rightarrow> apollo_cx \<Rightarrow> apollo_cx" where
  "apollo_multicast E msg cx = cx\<lparr>ax_net := multicast E (ax_round cx) msg (ax_net cx)\<rparr>"

definition apollo_notify :: "batcher_msg \<Rightarrow> apollo_cx \<Rightarrow> apollo_cx" where
  "apollo_notify m cx = cx\<lparr>ax_batch := notify_batcher m (ax_batch cx)\<rparr>"

definition apollo_update_round :: "ext \<Rightarrow> apollo_cx \<Rightarrow> apollo_cx res" where
  "apollo_update_round E cx =
     rbind (apollo_next_leader cx) (\<lambda>l.
     rbind (add_u64 (ax_round cx) 1) (\<lambda>r.
     let cx = cx\<lparr>ax_round_leader := l, ax_round := r\<rparr>;
         cx = apollo_notify (NewRound l r) cx
     in Inr (cx\<lparr>ax_net := gc_handlers E (ax_net cx)\<rparr>)))"

section \<open>Commit\<close>

text \<open>One newly committed block, oldest first.\<close>

definition apollo_announce_commit :: "ext \<Rightarrow> block \<Rightarrow> apollo_cx \<Rightarrow> apollo_cx" where
  "apollo_announce_commit E b cx =
     (case read_batch E (blk_batch_hash b) (ax_batch cx) of
        (None, x) \<Rightarrow> cx\<lparr>ax_batch := x\<rparr>
      | (Some batch, x) \<Rightarrow>
          cx\<lparr>ax_bench_committed_tx_count :=
               saturating_add_u64 (ax_bench_committed_tx_count cx) (length (cb_payload batch)),
             ax_batch := notify_router batch (notify_batcher (Committed batch (blk_height b)) x)\<rparr>)"

definition apollo_do_commit :: "ext \<Rightarrow> apollo_cx \<Rightarrow> apollo_cx res" where
  "apollo_do_commit E cx =
     rbind (sub_u64 (ax_round cx) (ax_num_faults cx)) (\<lambda>commit_round.
     rbind (expect ''called Option::unwrap on a None value'' (fmlookup (prop_chain_by_round cx) commit_round)) (\<lambda>p.
     rbind (commit_chain block_get_hash block_get_height (hdr_prev \<circ> blk_header) (ap_block_hash p) (ax_storage cx))
       (\<lambda>(newly_committed, st).
     Inr (fold (apollo_announce_commit E) (rev newly_committed) (cx\<lparr>ax_storage := st\<rparr>)))))"

section \<open>Proposals\<close>

definition apollo_check_batch_hash :: "ext \<Rightarrow> block \<Rightarrow> cached_batch \<Rightarrow> bool" where
  "apollo_check_batch_hash E b batch \<longleftrightarrow> fst (CachedBatch_hash E batch) = blk_batch_hash b"

text \<open>An equivocation: another block of the same author is filed at this height.\<close>

definition apollo_equivocation :: "block \<Rightarrow> apollo_cx \<Rightarrow> bool" where
  "apollo_equivocation b cx \<longleftrightarrow>
     (case delivered_block_from_ht (ax_storage cx) (blk_height b) of
        Some x \<Rightarrow> blk_hash x \<noteq> blk_hash b \<and> blk_author x = blk_author b
      | None \<Rightarrow> False)"

text \<open>Relay to the next leader \<open>l\<close>, extend the proposal chain, tell the pool.\<close>

definition apollo_accept :: "ext \<Rightarrow> apollo_propose \<Rightarrow> block \<Rightarrow> replica \<Rightarrow> apollo_cx \<Rightarrow> apollo_cx" where
  "apollo_accept E p b l cx =
     (let cx = apollo_send E l (ApRelay (ax_myid cx) p) cx;
          cx = cx\<lparr>prop_chain_by_hash := fmupd (ap_block_hash p) p (prop_chain_by_hash cx)\<rparr>;
          cx = cx\<lparr>prop_chain_by_round := fmupd (ap_round p) p (prop_chain_by_round cx)\<rparr>;
          (batch, x) = read_batch E (blk_batch_hash b) (ax_batch cx);
          cx = cx\<lparr>ax_batch := x\<rparr>
      in case batch of Some ba \<Rightarrow> apollo_notify (Proposed ba (ap_round p)) cx | None \<Rightarrow> cx)"

definition apollo_on_receive_proposal :: "ext \<Rightarrow> apollo_propose \<Rightarrow> block \<Rightarrow> apollo_cx \<Rightarrow> apollo_cx res" where
  "apollo_on_receive_proposal E p b cx =
     (if apollo_equivocation b cx then Inr cx
      else
        rbind (apollo_next_leader cx) (\<lambda>l.
        let cx = apollo_accept E p b l cx
        in rbind (if ax_round cx > ax_num_faults cx then apollo_do_commit E cx else Inr cx) (\<lambda>cx.
           apollo_update_round E (cx\<lparr>ax_last_seen_block := b\<rparr>))))"

definition apollo_new_block :: "ext \<Rightarrow> hash \<Rightarrow> apollo_cx \<Rightarrow> block res" where
  "apollo_new_block E batch_hash cx =
     (let parent = ax_last_seen_block cx; nb = with_batch E batch_hash
      in rbind (add_u64 (blk_height parent) 1) (\<lambda>height.
         Inr (block_init E
           (nb\<lparr>blk_header := (blk_header nb)\<lparr>hdr_prev := blk_hash parent, hdr_author := ax_myid cx,
                                              hdr_height := height\<rparr>\<rparr>))))"

definition apollo_do_propose :: "ext \<Rightarrow> hash \<Rightarrow> cached_batch \<Rightarrow> apollo_cx \<Rightarrow> apollo_cx res" where
  "apollo_do_propose E batch_hash batch cx =
     rbind (apollo_new_block E batch_hash cx) (\<lambda>nb.
     let p = Propose_new (blk_hash nb);
         p = p\<lparr>ap_round := ax_round cx, ap_sig := (ap_sig p)\<lparr>v_origin := ax_myid cx\<rparr>\<rparr>
     in rbind (Propose_sign E (nx_my_secret_key (ax_net cx)) p) (\<lambda>p.
     let cx = apollo_multicast E (ApNewProposal p nb batch) cx;
         cx = apollo_notify (Proposed batch (ax_round cx)) cx;
         cx = deliver_block nb cx
     in apollo_on_receive_proposal E p nb cx))"

definition apollo_try_receive_proposal ::
  "ext \<Rightarrow> apollo_propose \<Rightarrow> block \<Rightarrow> replica \<Rightarrow> apollo_cx \<Rightarrow> apollo_cx res" where
  "apollo_try_receive_proposal E p b from cx =
     (if ax_round cx > ap_round p then Inr cx
      else if ax_round cx < ap_round p then
        Inr (cx\<lparr>future_msgs := fmupd (ap_round p) (from, p) (future_msgs cx)\<rparr>)
      else if blk_hash b \<noteq> ap_block_hash p then Inr cx
      else if ax_round_leader cx \<noteq> v_origin (ap_sig p) then Inr cx
      else if ax_round_leader cx \<noteq> block_get_author b then Inr cx
      else
        rbind (if v_origin (ap_sig p) \<noteq> ax_myid cx
               then rbind (expect ''no entry found for key''
                       (fmlookup (nx_pub_key_map (ax_net cx)) (v_origin (ap_sig p))))
                     (\<lambda>pk. Inr (Propose_check_sig E pk p))
               else Inr True) (\<lambda>valid.
        if valid then apollo_on_receive_proposal E p b cx else Inr cx))"

section \<open>Messages\<close>

text \<open>Queue the proposal for its round, or try it now.\<close>

definition apollo_queue_or_try ::
  "ext \<Rightarrow> apollo_propose \<Rightarrow> block \<Rightarrow> replica \<Rightarrow> apollo_cx \<Rightarrow> apollo_cx res" where
  "apollo_queue_or_try E p b sender cx =
     (if ax_round cx < ap_round p
      then Inr (cx\<lparr>future_msgs := fmupd (ap_round p) (sender, p) (future_msgs cx)\<rparr>)
      else apollo_try_receive_proposal E p b sender cx)"

lemma apollo_announce_commit_frame [simp]:
  "prop_waiting_parent (apollo_announce_commit E b cx) = prop_waiting_parent cx"
  "future_msgs (apollo_announce_commit E b cx) = future_msgs cx"
  "ax_round (apollo_announce_commit E b cx) = ax_round cx"
  "ax_round_leader (apollo_announce_commit E b cx) = ax_round_leader cx"
  "ax_net (apollo_announce_commit E b cx) = ax_net cx"
  "ax_storage (apollo_announce_commit E b cx) = ax_storage cx"
  "prop_chain_by_round (apollo_announce_commit E b cx) = prop_chain_by_round cx"
  "prop_chain_by_hash (apollo_announce_commit E b cx) = prop_chain_by_hash cx"
  "prop_waiting (apollo_announce_commit E b cx) = prop_waiting cx"
  "ax_last_seen_block (apollo_announce_commit E b cx) = ax_last_seen_block cx"
  "prop_buf (apollo_announce_commit E b cx) = prop_buf cx"
  "relay_buf (apollo_announce_commit E b cx) = relay_buf cx"
  "ax_other_buf (apollo_announce_commit E b cx) = ax_other_buf cx"
  "bx_pending (ax_batch (apollo_announce_commit E b cx)) = bx_pending (ax_batch cx)"
  by (auto simp: apollo_announce_commit_def dest: read_batch_result split: prod.splits option.splits)

lemma apollo_announce_fold_frame [simp]:
  "prop_waiting_parent (fold (apollo_announce_commit E) bs cx) = prop_waiting_parent cx"
  "future_msgs (fold (apollo_announce_commit E) bs cx) = future_msgs cx"
  "ax_round (fold (apollo_announce_commit E) bs cx) = ax_round cx"
  "ax_round_leader (fold (apollo_announce_commit E) bs cx) = ax_round_leader cx"
  "ax_net (fold (apollo_announce_commit E) bs cx) = ax_net cx"
  "ax_storage (fold (apollo_announce_commit E) bs cx) = ax_storage cx"
  "prop_chain_by_round (fold (apollo_announce_commit E) bs cx) = prop_chain_by_round cx"
  "prop_chain_by_hash (fold (apollo_announce_commit E) bs cx) = prop_chain_by_hash cx"
  "prop_waiting (fold (apollo_announce_commit E) bs cx) = prop_waiting cx"
  "ax_last_seen_block (fold (apollo_announce_commit E) bs cx) = ax_last_seen_block cx"
  "prop_buf (fold (apollo_announce_commit E) bs cx) = prop_buf cx"
  "relay_buf (fold (apollo_announce_commit E) bs cx) = relay_buf cx"
  "ax_other_buf (fold (apollo_announce_commit E) bs cx) = ax_other_buf cx"
  "bx_pending (ax_batch (fold (apollo_announce_commit E) bs cx)) = bx_pending (ax_batch cx)"
  by (induction bs arbitrary: cx) simp_all

lemma apollo_accept_frame [simp]:
  "prop_waiting_parent (apollo_accept E p b l cx) = prop_waiting_parent cx"
  "future_msgs (apollo_accept E p b l cx) = future_msgs cx"
  "ax_round (apollo_accept E p b l cx) = ax_round cx"
  "ax_round_leader (apollo_accept E p b l cx) = ax_round_leader cx"
  "ax_net (apollo_accept E p b l cx) = send E (ax_round cx) l (ApRelay (ax_myid cx) p) (ax_net cx)"
  "ax_storage (apollo_accept E p b l cx) = ax_storage cx"
  "prop_chain_by_round (apollo_accept E p b l cx) = fmupd (ap_round p) p (prop_chain_by_round cx)"
  "prop_chain_by_hash (apollo_accept E p b l cx) = fmupd (ap_block_hash p) p (prop_chain_by_hash cx)"
  "prop_waiting (apollo_accept E p b l cx) = prop_waiting cx"
  "ax_last_seen_block (apollo_accept E p b l cx) = ax_last_seen_block cx"
  "prop_buf (apollo_accept E p b l cx) = prop_buf cx"
  "relay_buf (apollo_accept E p b l cx) = relay_buf cx"
  "ax_other_buf (apollo_accept E p b l cx) = ax_other_buf cx"
  "bx_pending (ax_batch (apollo_accept E p b l cx)) = bx_pending (ax_batch cx)"
  by (auto simp: apollo_accept_def apollo_send_def apollo_notify_def Let_def dest: read_batch_result
      split: prod.splits option.splits)

lemma apollo_do_commit_result:
  assumes "apollo_do_commit E cx = Inr cx'"
  obtains p newly st where
    "fmlookup (prop_chain_by_round cx) (ax_round cx - ax_num_faults cx) = Some p"
    "commit_chain block_get_hash block_get_height (hdr_prev \<circ> blk_header) (ap_block_hash p) (ax_storage cx) = Inr (newly, st)"
    "cx' = fold (apollo_announce_commit E) (rev newly) (cx\<lparr>ax_storage := st\<rparr>)"
  using assms by (auto simp: apollo_do_commit_def sub_u64_Inr_iff)

lemma apollo_update_round_result:
  assumes "apollo_update_round E cx = Inr cx'"
  obtains l where "apollo_next_leader cx = Inr l" "ax_round cx + 1 < 2 ^ 64"
    "cx' = (apollo_notify (NewRound l (ax_round cx + 1)) (cx\<lparr>ax_round_leader := l, ax_round := ax_round cx + 1\<rparr>))
       \<lparr>ax_net := gc_handlers E (ax_net cx)\<rparr>"
  using assms by (auto simp: apollo_update_round_def add_u64_Inr_iff Let_def apollo_notify_def)

text \<open>What receiving a proposal never touches.\<close>

definition same_queues :: "apollo_cx \<Rightarrow> apollo_cx \<Rightarrow> bool" where
  "same_queues cx cx' \<longleftrightarrow>
     prop_waiting_parent cx' = prop_waiting_parent cx \<and> prop_waiting cx' = prop_waiting cx \<and>
     prop_buf cx' = prop_buf cx \<and> relay_buf cx' = relay_buf cx \<and> ax_other_buf cx' = ax_other_buf cx \<and>
     bx_pending (ax_batch cx') = bx_pending (ax_batch cx)"

lemma same_queues_commit:
  assumes "apollo_do_commit E cx = Inr cx'"
  shows "same_queues cx cx' \<and> future_msgs cx' = future_msgs cx \<and> ax_round cx' = ax_round cx"
  using assms by (elim apollo_do_commit_result) (simp add: same_queues_def)

lemma same_queues_receive:
  assumes "apollo_on_receive_proposal E p b cx = Inr cx'"
  shows "same_queues cx cx' \<and> future_msgs cx' = future_msgs cx \<and> ax_round cx' \<in> {ax_round cx, Suc (ax_round cx)} \<and>
    (ax_round cx' = ax_round cx \<longrightarrow> cx' = cx)"
proof (cases "apollo_equivocation b cx")
  case True
  with assms show ?thesis by (simp add: apollo_on_receive_proposal_def same_queues_def)
next
  case False
  let ?a = "\<lambda>l. apollo_accept E p b l cx"
  from False assms obtain l c where c: "(if ax_round (?a l) > ax_num_faults (?a l) then apollo_do_commit E (?a l) else Inr (?a l)) = Inr c"
      "apollo_update_round E (c\<lparr>ax_last_seen_block := b\<rparr>) = Inr cx'"
    by (auto simp: apollo_on_receive_proposal_def Let_def)
  have "same_queues (?a l) c \<and> future_msgs c = future_msgs (?a l) \<and> ax_round c = ax_round (?a l)"
    using c(1) same_queues_commit [of E "?a l" c] by (auto simp: same_queues_def split: if_splits)
  with c(2) show ?thesis
    by (elim apollo_update_round_result) (simp add: same_queues_def apollo_notify_def)
qed

lemma same_queues_try:
  assumes "apollo_try_receive_proposal E p b from cx = Inr cx'"
  shows "same_queues cx cx' \<and> ax_round cx' \<in> {ax_round cx, Suc (ax_round cx)} \<and>
    (future_msgs cx' = future_msgs cx \<or>
     ax_round cx' = ax_round cx \<and> ax_round cx < ap_round p \<and> future_msgs cx' = fmupd (ap_round p) (from, p) (future_msgs cx))"
proof (cases "cx' = cx \<or> cx' = cx\<lparr>future_msgs := fmupd (ap_round p) (from, p) (future_msgs cx)\<rparr> \<and> ax_round cx < ap_round p")
  case True
  then show ?thesis by (auto simp: same_queues_def)
next
  case False
  then have "apollo_on_receive_proposal E p b cx = Inr cx'"
    using assms by (auto simp: apollo_try_receive_proposal_def split: if_splits)
  from same_queues_receive [OF this] show ?thesis by auto
qed

lemma same_queues_queue_or_try:
  assumes "apollo_queue_or_try E p b from cx = Inr cx'"
  shows "same_queues cx cx' \<and> ax_round cx' \<in> {ax_round cx, Suc (ax_round cx)} \<and>
    (future_msgs cx' = future_msgs cx \<or>
     ax_round cx' = ax_round cx \<and> ax_round cx < ap_round p \<and> future_msgs cx' = fmupd (ap_round p) (from, p) (future_msgs cx))"
proof (cases "ax_round cx < ap_round p")
  case True
  with assms show ?thesis by (auto simp: apollo_queue_or_try_def same_queues_def)
next
  case False
  with assms same_queues_try [of E p b "from" cx cx'] show ?thesis by (simp add: apollo_queue_or_try_def)
qed

text \<open>
  The last loop of \<open>delivery_check\<close>: proposals that waited for the block \<open>h\<close>, then those that
  waited for their blocks, and so on. Each round of the loop removes an entry of
  \<open>prop_waiting_parent\<close> and receiving a proposal adds none, so it ends.
\<close>

function apollo_children :: "ext \<Rightarrow> replica \<Rightarrow> hash \<Rightarrow> apollo_cx \<Rightarrow> apollo_cx res" where
  "apollo_children E sender h cx =
     (case fmlookup (prop_waiting_parent cx) h of
        None \<Rightarrow> Inr cx
      | Some p_new \<Rightarrow>
          rbind (expect ''child block must be in storage''
                  (delivered_block_from_hash (ax_storage cx) (ap_block_hash p_new))) (\<lambda>child_block.
          rbind (apollo_queue_or_try E p_new child_block sender
                  (cx\<lparr>prop_waiting_parent := fmdrop h (prop_waiting_parent cx)\<rparr>))
            (apollo_children E sender (ap_block_hash p_new))))"
  by pat_completeness auto
termination
proof (relation "measure (\<lambda>(E, sender, h, cx). fcard (fmdom (prop_waiting_parent cx)))", goal_cases)
  case (2 E sender h cx p_new child_block cx')
  then have "prop_waiting_parent cx' = fmdrop h (prop_waiting_parent cx)"
    using same_queues_queue_or_try [OF 2(3)] by (simp add: same_queues_def)
  with 2 fcard_fmdrop_less [of "prop_waiting_parent cx" h p_new] show ?case by simp
qed simp

declare apollo_children.simps [simp del]

definition apollo_request :: "ext \<Rightarrow> hash \<Rightarrow> replica \<Rightarrow> apollo_cx \<Rightarrow> apollo_cx" where
  "apollo_request E h dest cx = apollo_send E dest (ApRequest (ax_myid cx) (ax_req_ctr cx) h) cx"

text \<open>The block is known: deliver it, or wait for its parent.\<close>

definition apollo_deliver_known :: "ext \<Rightarrow> replica \<Rightarrow> apollo_propose \<Rightarrow> block \<Rightarrow> apollo_cx \<Rightarrow> apollo_cx res" where
  "apollo_deliver_known E sender p b cx =
     (let parent_hash = blk_prev b
      in if \<not> is_delivered_by_hash (ax_storage cx) parent_hash then
           let cx = deliver_block b cx;
               cx = cx\<lparr>prop_waiting_parent := fmupd parent_hash p (prop_waiting_parent cx)\<rparr>
           in Inr (apollo_request E parent_hash sender cx)
         else
           let cx = deliver_block b cx
           in rbind (apollo_queue_or_try E p b sender cx) (\<lambda>cx.
              let cx = cx\<lparr>prop_waiting := fmdrop (ap_block_hash p) (prop_waiting cx)\<rparr>
              in apollo_children E sender (ap_block_hash p) cx))"

definition apollo_delivery_check ::
  "ext \<Rightarrow> replica \<Rightarrow> apollo_propose \<Rightarrow> (block \<times> cached_batch) option \<Rightarrow> apollo_cx \<Rightarrow> apollo_cx res" where
  "apollo_delivery_check E sender p block_and_batch cx =
     (if fmmem (ap_round p) (prop_chain_by_round cx) then Inr cx
      else
        case block_and_batch of
          Some (b, batch) \<Rightarrow>
            if blk_hash b \<noteq> ap_block_hash p then Inr cx
            else if \<not> apollo_check_batch_hash E b batch then Inr cx
            else apollo_deliver_known E sender p b
                   (cx\<lparr>ax_batch := persist_batch E (blk_batch_hash b) (snd (CachedBatch_hash E batch)) (ax_batch cx)\<rparr>)
        | None \<Rightarrow>
            (case delivered_block_from_hash (ax_storage cx) (ap_block_hash p) of
               Some b \<Rightarrow> apollo_deliver_known E sender p b cx
             | None \<Rightarrow>
                 Inr (apollo_request E (ap_block_hash p) sender
                   (cx\<lparr>prop_waiting := fmupd (ap_block_hash p) p (prop_waiting cx)\<rparr>))))"

definition apollo_on_recv_request :: "ext \<Rightarrow> replica \<Rightarrow> nat \<Rightarrow> hash \<Rightarrow> apollo_cx \<Rightarrow> apollo_cx" where
  "apollo_on_recv_request E sender req_id h cx =
     (case fmlookup (prop_chain_by_hash cx) h of
        None \<Rightarrow> cx
      | Some p \<Rightarrow>
          (case delivered_block_from_hash (ax_storage cx) h of
             None \<Rightarrow> cx
           | Some blk \<Rightarrow>
               (case read_batch E (blk_batch_hash blk) (ax_batch cx) of
                  (None, x) \<Rightarrow> cx\<lparr>ax_batch := x\<rparr>
                | (Some batch, x) \<Rightarrow>
                    let cx = cx\<lparr>ax_batch := x\<rparr>
                    in apollo_send E sender (ApResponse (ax_myid cx) req_id p blk batch) cx)))"

definition apollo_on_receive_blame :: "vote \<Rightarrow> apollo_cx \<Rightarrow> apollo_cx res" where
  "apollo_on_receive_blame v cx = Inl (Panic ''Received a blame message'')"

definition apollo_handle_message :: "apollo_msg \<Rightarrow> apollo_cx \<Rightarrow> apollo_cx" where
  "apollo_handle_message m cx =
     (case m of
        ApNewProposal p b batch \<Rightarrow> cx\<lparr>prop_buf := prop_buf cx @ [(v_origin (ap_sig p), p, b, batch)]\<rparr>
      | ApResponse from _ p b batch \<Rightarrow> cx\<lparr>prop_buf := prop_buf cx @ [(from, p, b, batch)]\<rparr>
      | ApRelay from p \<Rightarrow> cx\<lparr>relay_buf := relay_buf cx @ [(from, p)]\<rparr>
      | x \<Rightarrow> cx\<lparr>ax_other_buf := ax_other_buf cx @ [x]\<rparr>)"

definition apollo_handle_other :: "ext \<Rightarrow> apollo_msg \<Rightarrow> apollo_cx \<Rightarrow> apollo_cx res" where
  "apollo_handle_other E m cx =
     (case m of
        ApRequest from rid h \<Rightarrow> Inr (apollo_on_recv_request E from rid h cx)
      | ApBlame v \<Rightarrow> apollo_on_receive_blame v cx
      | _ \<Rightarrow> Inl (Panic ''assertion failed''))"

text \<open>
  The replay of proposals that came early. An entry is removed from \<open>future_msgs\<close> each time; the fuel
  is twice the number of proposals that are queued or wait for a parent, plus two, and
  \<open>keeps_replay\<close> (theory \<open>Apollo_Safety\<close>) shows that it is enough.
\<close>

fun apollo_replay :: "ext \<Rightarrow> nat \<Rightarrow> apollo_cx \<Rightarrow> apollo_cx res" where
  "apollo_replay E fuel cx =
     (case fmlookup (future_msgs cx) (ax_round cx) of
        None \<Rightarrow> Inr cx
      | Some (sender, p) \<Rightarrow>
          (case fuel of
             0 \<Rightarrow> Inl OutOfFuel
           | Suc n \<Rightarrow>
               rbind (apollo_delivery_check E sender p None
                       (cx\<lparr>future_msgs := fmdrop (ax_round cx) (future_msgs cx)\<rparr>))
                 (apollo_replay E n)))"

declare apollo_replay.simps [simp del]

definition apollo_backlog :: "apollo_cx \<Rightarrow> nat" where
  "apollo_backlog cx = fcard (fmdom (future_msgs cx)) + fcard (fmdom (prop_waiting_parent cx))"

text \<open>
  The buffers are drained one entry at a time; handling an entry neither reads nor extends them,
  so draining is a loop over their content.
\<close>

definition apollo_process_message :: "ext \<Rightarrow> apollo_cx \<Rightarrow> apollo_cx res" where
  "apollo_process_message E cx =
     rbind (rfold (\<lambda>(sender, p, b, batch). apollo_delivery_check E sender p (Some (b, batch)))
             (prop_buf cx) (cx\<lparr>prop_buf := []\<rparr>)) (\<lambda>cx.
     rbind (rfold (\<lambda>(sender, p). apollo_delivery_check E sender p None) (relay_buf cx) (cx\<lparr>relay_buf := []\<rparr>)) (\<lambda>cx.
     rbind (rfold (apollo_handle_other E) (ax_other_buf cx) (cx\<lparr>ax_other_buf := []\<rparr>)) (\<lambda>cx.
     apollo_replay E (2 * apollo_backlog cx + 2) cx)))"

section \<open>Reactor\<close>

text \<open>The leader drains its queue of announced batches, as long as it leads.\<close>

lemma apollo_do_propose_pending:
  assumes "apollo_do_propose E h b cx = Inr cx'"
  shows "bx_pending (ax_batch cx') = bx_pending (ax_batch cx)"
  using assms
  by (auto simp: apollo_do_propose_def Let_def same_queues_def apollo_multicast_def apollo_notify_def deliver_block_def
      dest!: same_queues_receive)

function apollo_drain :: "ext \<Rightarrow> apollo_cx \<Rightarrow> apollo_cx res" where
  "apollo_drain E cx =
     (if ax_round_leader cx = ax_myid cx then
        (case bx_pending (ax_batch cx) of
           [] \<Rightarrow> Inr cx
         | (bh, batch) # rest \<Rightarrow>
             rbind (apollo_do_propose E bh batch (cx\<lparr>ax_batch := (ax_batch cx)\<lparr>bx_pending := rest\<rparr>\<rparr>))
               (apollo_drain E))
      else Inr cx)"
  by pat_completeness auto
termination
  by (relation "measure (\<lambda>(E, cx). length (bx_pending (ax_batch cx)))")
    (auto dest!: apollo_do_propose_pending)

declare apollo_drain.simps [simp del]

text \<open>
  One iteration of the reactor's loop. A network event carries the messages that could be taken
  without waiting; \<open>None\<close> as mempool event is the closed channel.
\<close>

datatype apollo_event =
    ApTick
  | ApNet "apollo_msg list"
  | ApNetError
  | ApNetClosed
  | ApBatchReady hash cached_batch
  | ApMempoolClosed

definition apollo_reactor_step :: "ext \<Rightarrow> apollo_event \<Rightarrow> apollo_cx \<Rightarrow> apollo_cx reactor_outcome res" where
  "apollo_reactor_step E ev cx =
     (case ev of
        ApTick \<Rightarrow>
          rbind (apollo_drain E (if ax_myid cx = ax_bench_metrics_node cx
                                 then cx\<lparr>ax_bench_committed_tx_count := 0\<rparr> else cx)) (\<lambda>cx. Inr (Continue cx))
      | ApNet msgs \<Rightarrow>
          rbind (apollo_process_message E (fold apollo_handle_message msgs cx)) (\<lambda>cx.
          rbind (apollo_drain E cx) (\<lambda>cx. Inr (Continue cx)))
      | ApNetError \<Rightarrow> Inr (Continue cx)
      | ApNetClosed \<Rightarrow> Inr ProcessExit
      | ApBatchReady bh batch \<Rightarrow>
          rbind (apollo_drain E (cx\<lparr>ax_batch := (ax_batch cx)\<lparr>bx_pending := bx_pending (ax_batch cx) @ [(bh, batch)]\<rparr>\<rparr>))
            (\<lambda>cx. Inr (Continue cx))
      | ApMempoolClosed \<Rightarrow> Inr ReactorBreak)"

text \<open>The start of the reactor: a fresh context whose batcher knows the first leader and round.\<close>

definition apollo_reactor_start ::
  "ext \<Rightarrow> node_config \<Rightarrow> (replica \<times> bytes) list \<Rightarrow> batch_cache \<Rightarrow> (bytes, bytes) fmap \<Rightarrow> apollo_cx res" where
  "apollo_reactor_start E config pks cache st =
     rbind (apollo_Context_new E config pks cache st) (\<lambda>cx.
     Inr (apollo_notify (NewRound (ax_round_leader cx) (ax_round cx)) cx))"

end
