(* ===== verification/Apollo_Chain.thy ===== *)
theory Apollo_Chain
  imports Apollo_Node
begin

text \<open>
  What an Apollo node does along a chain of proposals each of which extends the previous one: it
  is an append-only log of blocks in which everything but the last \<open>num_faults\<close> blocks is
  committed. \<open>chain_inv E bs cx\<close> relates a context to the log \<open>bs\<close> (without the genesis block);
  \<open>committed_prefix\<close> is the abstract commit rule. Receiving a proposal, making one, and processing a
  \<open>NewProposal\<close> message are shown to refine appending one block to the log.
\<close>

section \<open>Hash chains\<close>

fun linked :: "hash \<Rightarrow> block list \<Rightarrow> bool" where
  "linked h [] \<longleftrightarrow> True"
| "linked h (b # bs) \<longleftrightarrow> blk_prev b = h \<and> linked (blk_hash b) bs"

abbreviation prev_of :: "block \<Rightarrow> hash" where
  "prev_of \<equiv> hdr_prev \<circ> blk_header"

lemma linked_append: "linked h (bs @ cs) \<longleftrightarrow> linked h bs \<and> linked (if bs = [] then h else blk_hash (last bs)) cs"
  by (induction bs arbitrary: h) auto

lemma linked_nth: "linked h bs \<Longrightarrow> Suc i < length bs \<Longrightarrow> blk_prev (bs ! Suc i) = blk_hash (bs ! i)"
proof (induction bs arbitrary: h i)
  case (Cons b bs)
  show ?case
  proof (cases i)
    case 0
    with Cons.prems show ?thesis by (cases bs) auto
  next
    case (Suc j)
    with Cons.prems Cons.IH [of "blk_hash b" j] show ?thesis by simp
  qed
qed simp

lemma linked_distinct:
  assumes "hash_acyclic E" and "linked h bs" and "\<forall>b\<in>set bs. block_sealed E b"
  shows "distinct (map blk_hash bs)" "h \<notin> blk_hash ` set bs"
proof -
  obtain rank :: "hash \<Rightarrow> nat" where rank: "\<And>h b. rank (hdr_prev h) < rank (hash_block E h b)"
    using assms(1) by (auto simp: hash_acyclic_def)
  have "distinct (map blk_hash bs) \<and> (\<forall>b\<in>set bs. rank h < rank (blk_hash b))"
    using assms(2,3)
  proof (induction bs arbitrary: h)
    case (Cons b bs)
    then have "distinct (map blk_hash bs)" and later: "\<forall>c\<in>set bs. rank (blk_hash b) < rank (blk_hash c)" by auto
    moreover have "rank h < rank (blk_hash b)"
      using Cons.prems rank [of "blk_header b" "blk_body b"] by (simp add: block_sealed_def)
    ultimately show ?case by fastforce
  qed simp
  then show "distinct (map blk_hash bs)" "h \<notin> blk_hash ` set bs" by auto
qed

section \<open>The abstract log\<close>

text \<open>Everything but the last \<open>f\<close> blocks is committed, the genesis block with the first one.\<close>

definition committed_prefix :: "ext \<Rightarrow> nat \<Rightarrow> block list \<Rightarrow> block list" where
  "committed_prefix E f bs =
     (if f < length bs then GENESIS_BLOCK E # take (length bs - f) bs else [])"

definition newly_committed :: "ext \<Rightarrow> nat \<Rightarrow> block list \<Rightarrow> block \<Rightarrow> block list" where
  "newly_committed E f bs b =
     drop (length (committed_prefix E f bs)) (committed_prefix E f (bs @ [b]))"

lemma newly_committed_eq:
  "newly_committed E f bs b =
     (if f < length bs then [(bs @ [b]) ! (length bs - f)]
      else if f = length bs then [GENESIS_BLOCK E, (bs @ [b]) ! 0] else [])"
  by (auto simp: newly_committed_def committed_prefix_def Suc_diff_le take_Suc_conv_app_nth nth_append)

lemma committed_prefix_append:
  "committed_prefix E f (bs @ [b]) = committed_prefix E f bs @ newly_committed E f bs b"
proof -
  have "take (length (committed_prefix E f bs)) (committed_prefix E f (bs @ [b])) = committed_prefix E f bs"
    by (auto simp: committed_prefix_def Suc_diff_le min_def)
  then show ?thesis by (metis append_take_drop_id newly_committed_def)
qed

definition leader_ok :: "apollo_cx \<Rightarrow> bool" where
  "leader_ok cx \<longleftrightarrow>
     0 < ax_num_nodes cx \<and> ax_num_nodes cx \<le> 2 ^ 16 \<and> 1 \<le> ax_round cx \<and>
     ax_round_leader cx = (ax_round cx - 1) mod ax_num_nodes cx"

text \<open>Every delivered block is the genesis block or carries the hash of its content.\<close>

definition stored_sealed :: "ext \<Rightarrow> block storage \<Rightarrow> bool" where
  "stored_sealed E s \<longleftrightarrow>
     (\<forall>h b. delivered_block_from_hash s h = Some b \<longrightarrow> b = GENESIS_BLOCK E \<or> block_sealed E b)"

definition chain_inv :: "ext \<Rightarrow> block list \<Rightarrow> apollo_cx \<Rightarrow> bool" where
  "chain_inv E bs cx \<longleftrightarrow>
     linked (EMPTY_HASH E) bs \<and> (\<forall>b\<in>set bs. block_sealed E b) \<and>
     ax_round cx = Suc (length bs) \<and> leader_ok cx \<and>
     ax_last_seen_block cx = last (GENESIS_BLOCK E # bs) \<and>
     storage_ok block_get_hash prev_of (ax_storage cx) \<and> stored_sealed E (ax_storage cx) \<and>
     (\<forall>r. fmmem r (prop_chain_by_round cx) \<longleftrightarrow> 1 \<le> r \<and> r \<le> length bs) \<and>
     (\<forall>b\<in>set (GENESIS_BLOCK E # bs). delivered_block_from_hash (ax_storage cx) (blk_hash b) = Some b) \<and>
     (\<forall>i<length bs. \<exists>p. fmlookup (prop_chain_by_round cx) (Suc i) = Some p \<and> ap_block_hash p = blk_hash (bs ! i)) \<and>
     (\<forall>h. is_committed_by_hash (ax_storage cx) h \<longleftrightarrow> h \<in> blk_hash ` set (committed_prefix E (ax_num_faults cx) bs))"

section \<open>Rounds and leaders\<close>

lemma apollo_next_leader_ok:
  assumes "leader_ok cx"
  shows "apollo_next_leader cx = Inr (ax_round cx mod ax_num_nodes cx)"
proof -
  let ?n = "ax_num_nodes cx" and ?r = "ax_round cx"
  have n: "0 < ?n" "?n \<le> 2 ^ 16" "ax_round_leader cx = (?r - 1) mod ?n" and r: "?r = Suc (?r - 1)"
    using assms by (auto simp: leader_ok_def)
  have "?r mod ?n = (if Suc ((?r - 1) mod ?n) = ?n then 0 else Suc ((?r - 1) mod ?n))"
    using r mod_Suc [of "?r - 1" ?n] by metis
  moreover have "(?r - 1) mod ?n < ?n" using n(1) by simp
  moreover have "Suc ((?r - 1) mod ?n) \<noteq> ?n \<Longrightarrow> Suc ((?r - 1) mod ?n) < 2 ^ 16"
    using n(2) \<open>(?r - 1) mod ?n < ?n\<close> by linarith
  ultimately show ?thesis
    using n(3) by (simp add: apollo_next_leader_def apollo_next_of_def add_u16_def)
qed

lemma leader_ok_next:
  assumes "leader_ok cx" and "ax_round cx' = Suc (ax_round cx)" and "ax_num_nodes cx' = ax_num_nodes cx"
    and "ax_round_leader cx' = ax_round cx mod ax_num_nodes cx"
  shows "leader_ok cx'"
  using assms by (simp add: leader_ok_def)

section \<open>Committing along the log\<close>

text \<open>The batches the node announces as committed for a list of blocks.\<close>

definition batch_of :: "ext \<Rightarrow> apollo_cx \<Rightarrow> block \<Rightarrow> cached_batch option" where
  "batch_of E cx b = fst (read_batch E (blk_batch_hash b) (ax_batch cx))"

lemma batch_of_announce [simp]: "batch_of E (apollo_announce_commit E b cx) = batch_of E cx"
proof (rule ext)
  fix c
  obtain r x where rd: "read_batch E (blk_batch_hash b) (ax_batch cx) = (r, x)" by fastforce
  then have "x = snd (read_batch E (blk_batch_hash b) (ax_batch cx))" by simp
  then have "fst (read_batch E h x) = fst (read_batch E h (ax_batch cx))" for h by simp
  with rd show "batch_of E (apollo_announce_commit E b cx) c = batch_of E cx c"
    by (simp add: batch_of_def apollo_announce_commit_def split: option.splits)
qed

lemma announce_router:
  "bx_to_router (ax_batch (fold (apollo_announce_commit E) bs cx)) =
     bx_to_router (ax_batch cx) @ List.map_filter (batch_of E cx) bs"
proof (induction bs arbitrary: cx)
  case Nil
  then show ?case by (simp add: List.map_filter_def)
next
  case (Cons b bs)
  have "bx_to_router (ax_batch (apollo_announce_commit E b cx)) =
      bx_to_router (ax_batch cx) @ List.map_filter (batch_of E cx) [b]"
    by (auto simp: apollo_announce_commit_def batch_of_def List.map_filter_def dest: read_batch_result
        split: prod.splits option.splits)
  with Cons.IH show ?case by (simp add: List.map_filter_def)
qed

lemma committed_head_not_later:
  assumes "distinct xs" and "i < length xs"
  shows "xs ! i \<notin> set (take i xs)"
  using assms by (auto simp: in_set_conv_nth nth_eq_iff_index_eq)

lemma apollo_commit_step:
  assumes acyclic: "hash_acyclic E" and inv: "storage_ok block_get_hash prev_of s"
    and link: "linked (EMPTY_HASH E) (bs @ [b])" and sealed: "\<forall>c\<in>set (bs @ [b]). block_sealed E c"
    and del: "\<forall>c\<in>set (GENESIS_BLOCK E # bs @ [b]). delivered_block_from_hash s (blk_hash c) = Some c"
    and com: "\<forall>h. is_committed_by_hash s h \<longleftrightarrow> h \<in> blk_hash ` set (committed_prefix E f bs)"
    and f: "f \<le> length bs"
  shows "commit_chain block_get_hash block_get_height prev_of (blk_hash ((bs @ [b]) ! (length bs - f))) s =
     Inr (rev (newly_committed E f bs b), commit_all block_get_hash block_get_height (rev (newly_committed E f bs b)) s)"
proof -
  let ?bs = "bs @ [b]" and ?m = "length bs - f"
  let ?c = "?bs ! ?m" and ?g = "GENESIS_BLOCK E"
  have dist: "distinct (map blk_hash ?bs)" and no_empty: "EMPTY_HASH E \<notin> blk_hash ` set ?bs"
    using linked_distinct [OF acyclic link sealed] by auto
  have m: "?m < length ?bs" by simp
  then have c: "?c \<in> set ?bs" by (rule nth_mem)
  then have dc: "delivered_block_from_hash s (blk_hash ?c) = Some ?c" using del by (meson list.set_intros(2))
  have g: "blk_hash ?g = EMPTY_HASH E" "blk_prev ?g = EMPTY_HASH E" by (simp_all add: GENESIS_BLOCK_def)
  show ?thesis
  proof (cases "f < length bs")
    case True
    have pre: "committed_prefix E f bs = ?g # take ?m ?bs" using True by (simp add: committed_prefix_def)
    have "blk_hash ?c \<notin> set (take ?m (map blk_hash ?bs))"
      using committed_head_not_later [OF dist, of ?m] nth_map [OF m, of blk_hash] m by (metis length_map)
    moreover have "blk_hash ?c \<noteq> EMPTY_HASH E" using no_empty c by (metis imageI)
    moreover have "blk_hash ` set (committed_prefix E f bs) = insert (EMPTY_HASH E) (set (take ?m (map blk_hash ?bs)))"
      unfolding pre take_map by (simp add: g)
    ultimately have nc: "\<not> is_committed_by_hash s (blk_hash ?c)" using com m by simp
    obtain k where k: "?m = Suc k" using True by (metis Suc_diff_Suc)
    then have "blk_prev ?c = blk_hash (?bs ! k)" using linked_nth [OF link, of k] m by simp
    moreover have "?bs ! k \<in> set (take ?m ?bs)" using k m by (auto simp: in_set_conv_nth nth_append intro!: exI [of _ k])
    ultimately have "is_committed_by_hash s (blk_prev ?c)" using com pre by auto
    moreover have "uncommitted_chain prev_of s (blk_hash ?c) [?c] (blk_prev ?c)" using nc dc by simp
    moreover have "newly_committed E f bs b = [?c]" using True by (simp add: newly_committed_eq)
    ultimately show ?thesis
      using commit_chain_spec [OF inv, of "blk_hash ?c" "[?c]" "blk_prev ?c"] by simp
  next
    case False
    with f have fe: "f = length bs" by simp
    then have c0: "?c = ?bs ! 0" and pre: "committed_prefix E f bs = []" by (simp_all add: committed_prefix_def)
    have "blk_prev ?c = EMPTY_HASH E" using link c0 by (cases bs) simp_all
    moreover have "blk_hash ?c \<noteq> EMPTY_HASH E" using no_empty c by (metis imageI)
    ultimately have "uncommitted_chain prev_of s (blk_hash ?c) [?c, ?g] (EMPTY_HASH E)"
        and "distinct (map block_get_hash [?c, ?g])"
      using com pre del dc g by (simp_all add: block_get_hash_def)
    moreover have "is_committed_by_hash (commit_all block_get_hash block_get_height [?c, ?g] s) (EMPTY_HASH E)"
      using g by (simp add: block_get_hash_def)
    moreover have "newly_committed E f bs b = [?g, ?c]" using fe c0 by (simp add: newly_committed_eq)
    ultimately show ?thesis
      using commit_chain_spec [OF inv] by simp
  qed
qed

lemma apollo_accept_batch [simp]:
  "batch_of E (apollo_accept E p b l cx) = batch_of E cx"
  "bx_to_router (ax_batch (apollo_accept E p b l cx)) = bx_to_router (ax_batch cx)"
proof -
  obtain r x where rd: "read_batch E (blk_batch_hash b) (ax_batch cx) = (r, x)" by fastforce
  then have x: "x = snd (read_batch E (blk_batch_hash b) (ax_batch cx))" by simp
  have "fst (read_batch E h x) = fst (read_batch E h (ax_batch cx))" for h by (simp add: x)
  moreover have a: "ax_batch (apollo_accept E p b l cx) =
      (case r of Some ba \<Rightarrow> notify_batcher (Proposed ba (ap_round p)) x | None \<Rightarrow> x)"
    by (simp add: apollo_accept_def apollo_send_def apollo_notify_def Let_def rd split: option.splits)
  ultimately show "batch_of E (apollo_accept E p b l cx) = batch_of E cx"
    by (simp add: batch_of_def fun_eq_iff split: option.splits)
  show "bx_to_router (ax_batch (apollo_accept E p b l cx)) = bx_to_router (ax_batch cx)"
    using read_batch_result [OF rd] by (simp add: a split: option.splits)
qed

lemma batch_of_storage [simp]: "batch_of E (cx\<lparr>ax_storage := s\<rparr>) = batch_of E cx"
  by (simp add: batch_of_def fun_eq_iff)

section \<open>One more block\<close>

text \<open>
  The proposal \<open>p\<close> for block \<open>b\<close> is the next one: it is for the current round, names \<open>b\<close>, and \<open>b\<close>
  is the delivered child of the last block seen.
\<close>

definition next_proposal :: "ext \<Rightarrow> apollo_propose \<Rightarrow> block \<Rightarrow> apollo_cx \<Rightarrow> bool" where
  "next_proposal E p b cx \<longleftrightarrow>
     ap_round p = ax_round cx \<and> ap_block_hash p = blk_hash b \<and> block_sealed E b \<and>
     blk_prev b = blk_hash (ax_last_seen_block cx) \<and>
     delivered_block_from_hash (ax_storage cx) (blk_hash b) = Some b \<and>
     delivered_block_from_ht (ax_storage cx) (blk_height b) = Some b"

lemma chain_inv_linked:
  assumes "chain_inv E bs cx" and "next_proposal E p b cx"
  shows "linked (EMPTY_HASH E) (bs @ [b])"
proof -
  have "blk_hash (ax_last_seen_block cx) = (if bs = [] then EMPTY_HASH E else blk_hash (last bs))"
    using assms(1) by (auto simp: chain_inv_def GENESIS_BLOCK_def)
  with assms show ?thesis by (auto simp: chain_inv_def next_proposal_def linked_append)
qed

lemma chain_inv_walk:
  assumes "hash_acyclic E" and "chain_inv E bs cx" and "next_proposal E p b cx" and f: "ax_num_faults cx < ax_round cx"
  shows "commit_chain block_get_hash block_get_height prev_of (blk_hash ((bs @ [b]) ! (length bs - ax_num_faults cx))) (ax_storage cx) =
     Inr (rev (newly_committed E (ax_num_faults cx) bs b),
       commit_all block_get_hash block_get_height (rev (newly_committed E (ax_num_faults cx) bs b)) (ax_storage cx))"
proof -
  have "\<forall>c\<in>set (bs @ [b]). block_sealed E c"
      "\<forall>c\<in>set (GENESIS_BLOCK E # bs @ [b]). delivered_block_from_hash (ax_storage cx) (blk_hash c) = Some c"
    using assms(2,3) by (auto simp: chain_inv_def next_proposal_def)
  then show ?thesis
    using assms chain_inv_linked [OF assms(2,3)] by (intro apollo_commit_step) (auto simp: chain_inv_def)
qed

lemma chain_inv_commit:
  assumes "hash_acyclic E" and "chain_inv E bs cx" and "next_proposal E p b cx"
    and q: "ax_storage q = ax_storage cx" "nx_num_faults (ax_net q) = ax_num_faults cx"
      "ax_round q = ax_round cx" "prop_chain_by_round q = fmupd (ax_round cx) p (prop_chain_by_round cx)"
    and f: "ax_num_faults cx < ax_round cx"
  shows "apollo_do_commit E q =
    Inr (fold (apollo_announce_commit E) (newly_committed E (ax_num_faults cx) bs b)
      (q\<lparr>ax_storage := commit_all block_get_hash block_get_height
          (rev (newly_committed E (ax_num_faults cx) bs b)) (ax_storage cx)\<rparr>))"
proof -
  let ?f = "ax_num_faults cx" and ?m = "length bs - ax_num_faults cx"
  have r: "ax_round cx = Suc (length bs)" and fl: "?f \<le> length bs"
    using assms(2) f by (auto simp: chain_inv_def)
  have "\<exists>v. fmlookup (prop_chain_by_round q) (ax_round q - ?f) = Some v \<and> ap_block_hash v = blk_hash ((bs @ [b]) ! ?m)"
  proof (cases "?f = 0")
    case True
    with q r assms(3) show ?thesis by (simp add: next_proposal_def nth_append)
  next
    case False
    then have lt: "?m < length bs" "ax_round q - ?f = Suc ?m" using r fl q(3) by auto
    then obtain v where "fmlookup (prop_chain_by_round cx) (Suc ?m) = Some v" "ap_block_hash v = blk_hash (bs ! ?m)"
      using assms(2) by (auto simp: chain_inv_def)
    with lt r q(4) show ?thesis by (auto simp: nth_append)
  qed
  with chain_inv_walk [OF assms(1-3) f] q f show ?thesis by (auto simp: apollo_do_commit_def sub_u64_def)
qed

lemma chain_inv_extend:
  assumes inv: "chain_inv E bs cx" and np: "next_proposal E p b cx"
    and "ax_storage q = s" "storage_ok block_get_hash prev_of s"
    and "s = commit_all block_get_hash block_get_height (rev (newly_committed E (ax_num_faults cx) bs b)) (ax_storage cx)"
    and "ax_round q = Suc (ax_round cx)" "ax_round_leader q = ax_round cx mod ax_num_nodes cx"
    and "nx_num_nodes (ax_net q) = ax_num_nodes cx" "nx_num_faults (ax_net q) = ax_num_faults cx"
    and "ax_last_seen_block q = b" "prop_chain_by_round q = fmupd (ax_round cx) p (prop_chain_by_round cx)"
  shows "chain_inv E (bs @ [b]) q"
proof -
  have r: "ax_round cx = Suc (length bs)" and lead: "leader_ok cx" using inv by (auto simp: chain_inv_def)
  have "\<exists>v. fmlookup (prop_chain_by_round q) (Suc i) = Some v \<and> ap_block_hash v = blk_hash ((bs @ [b]) ! i)"
    if "i < length (bs @ [b])" for i
    using that inv np r assms(11) by (cases "i = length bs") (auto simp: chain_inv_def next_proposal_def nth_append)
  moreover have "h \<in> blk_hash ` set (committed_prefix E (ax_num_faults cx) (bs @ [b])) \<longleftrightarrow> is_committed_by_hash s h" for h
    using inv by (auto simp: chain_inv_def assms(5) committed_prefix_append block_get_hash_def)
  moreover have "delivered_block_from_hash s (blk_hash c) = Some c" if "c \<in> set (GENESIS_BLOCK E # bs @ [b])" for c
    using that inv np by (auto simp: chain_inv_def next_proposal_def assms(5))
  moreover have "stored_sealed E s" using inv by (auto simp: chain_inv_def stored_sealed_def assms(5))
  moreover have "leader_ok q" using leader_ok_next [OF lead] assms by simp
  ultimately show ?thesis
    using chain_inv_linked [OF inv np] inv np assms r
    by (auto simp: chain_inv_def next_proposal_def)
qed

lemma committed_prefix_short: "length bs \<le> f \<Longrightarrow> newly_committed E f bs b = [] \<or> f = length bs"
  by (simp add: newly_committed_eq)

text \<open>Refinement: receiving the next proposal appends its block to the log.\<close>

lemma apollo_receive_refines:
  assumes acyclic: "hash_acyclic E" and inv: "chain_inv E bs cx" and np: "next_proposal E p b cx"
    and small: "ax_round cx + 1 < 2 ^ 64"
  shows "\<exists>cx'. apollo_on_receive_proposal E p b cx = Inr cx' \<and> chain_inv E (bs @ [b]) cx' \<and>
    ax_net cx' = gc_handlers E (send E (ax_round cx) (ax_round cx mod ax_num_nodes cx) (ApRelay (ax_myid cx) p) (ax_net cx)) \<and>
    bx_to_router (ax_batch cx') = bx_to_router (ax_batch cx) @
      List.map_filter (batch_of E cx) (newly_committed E (ax_num_faults cx) bs b)"
proof -
  let ?f = "ax_num_faults cx" and ?l = "ax_round cx mod ax_num_nodes cx"
  let ?new = "newly_committed E ?f bs b"
  let ?a = "apollo_accept E p b ?l cx"
  let ?s = "commit_all block_get_hash block_get_height (rev ?new) (ax_storage cx)"
  have lead: "leader_ok cx" and r: "ax_round cx = Suc (length bs)" and rp: "ap_round p = ax_round cx"
    using inv np by (auto simp: chain_inv_def next_proposal_def)
  have "\<not> apollo_equivocation b cx" using np by (simp add: apollo_equivocation_def next_proposal_def)
  moreover define c where "c = fold (apollo_announce_commit E) ?new (?a\<lparr>ax_storage := ?s\<rparr>)"
  moreover have com: "(if ?f < ax_round cx then apollo_do_commit E ?a else Inr ?a) = Inr c"
  proof (cases "?f < ax_round cx")
    case True
    with chain_inv_commit [OF acyclic inv np, of ?a] show ?thesis by (simp add: c_def rp)
  next
    case False
    then have "?new = []" using r by (simp add: newly_committed_eq)
    then have "?s = ax_storage ?a" by (simp add: commit_all_def)
    then have "c = ?a" using \<open>?new = []\<close> by (simp add: c_def)
    with False show ?thesis by simp
  qed
  ultimately have step: "apollo_on_receive_proposal E p b cx = apollo_update_round E (c\<lparr>ax_last_seen_block := b\<rparr>)"
    by (simp add: apollo_on_receive_proposal_def apollo_next_leader_ok [OF lead])
  have "apollo_next_leader (c\<lparr>ax_last_seen_block := b\<rparr>) = Inr ?l"
    using apollo_next_leader_ok [OF lead] by (simp add: apollo_next_leader_def apollo_next_of_def c_def)
  moreover define cx' where "cx' = (apollo_notify (NewRound ?l (ax_round cx + 1))
      (c\<lparr>ax_last_seen_block := b, ax_round_leader := ?l, ax_round := ax_round cx + 1\<rparr>))\<lparr>ax_net := gc_handlers E (ax_net c)\<rparr>"
  ultimately have res: "apollo_on_receive_proposal E p b cx = Inr cx'"
    using small by (simp add: step apollo_update_round_def add_u64_def c_def Let_def apollo_notify_def)
  have router: "bx_to_router (ax_batch cx') = bx_to_router (ax_batch cx) @ List.map_filter (batch_of E cx) ?new"
    by (simp add: cx'_def c_def apollo_notify_def announce_router)
  have "storage_ok block_get_hash prev_of ?s"
    using inv commit_chain_ok(1) chain_inv_walk [OF acyclic inv np]
    by (cases "?f < ax_round cx") (auto simp: chain_inv_def r newly_committed_eq commit_all_def)
  then have chain: "chain_inv E (bs @ [b]) cx'"
    using chain_inv_extend [OF inv np, of cx' ?s] lead
    by (simp add: cx'_def c_def apollo_notify_def rp)
  show ?thesis
    using res chain router by (auto simp: cx'_def c_def)
qed

section \<open>Delivering and proposing\<close>

lemma stored_fresh:
  assumes "collision_free E" and "stored_sealed E s" and "storage_ok block_get_hash prev_of s" and "block_sealed E b"
  shows "fresh_or_same block_get_hash b s"
proof (cases "delivered_block_from_hash s (blk_hash b)")
  case (Some c)
  then have "blk_hash c = blk_hash b"
    using storage_okD(1) [OF assms(3)] by (simp add: block_get_hash_def)
  moreover have "c = GENESIS_BLOCK E \<or> block_sealed E c" using assms(2) Some by (simp add: stored_sealed_def)
  moreover have "blk_hash (GENESIS_BLOCK E) \<noteq> blk_hash b"
    using sealed_not_empty [OF assms(1,4)] by (simp add: GENESIS_BLOCK_def)
  ultimately have "c = b" using sealed_collision [OF assms(1) _ assms(4)] by auto
  with Some show ?thesis by (simp add: fresh_or_same_def block_get_hash_def)
qed (simp add: fresh_or_same_def block_get_hash_def)

lemma deliver_frame [simp]:
  "ax_net (deliver_block b cx) = ax_net cx" "ax_batch (deliver_block b cx) = ax_batch cx"
  "ax_round (deliver_block b cx) = ax_round cx" "ax_round_leader (deliver_block b cx) = ax_round_leader cx"
  "prop_chain_by_round (deliver_block b cx) = prop_chain_by_round cx"
  "ax_last_seen_block (deliver_block b cx) = ax_last_seen_block cx"
  "prop_waiting_parent (deliver_block b cx) = prop_waiting_parent cx"
  "future_msgs (deliver_block b cx) = future_msgs cx"
  "ax_storage (deliver_block b cx) = add_delivered_block block_get_hash block_get_height b (ax_storage cx)"
  by (simp_all add: deliver_block_def)

lemma chain_inv_deliver:
  assumes "collision_free E" and "chain_inv E bs cx" and "block_sealed E b"
  shows "chain_inv E bs (deliver_block b cx)"
proof -
  let ?s = "ax_storage cx"
  have s: "storage_ok block_get_hash prev_of ?s" "stored_sealed E ?s" using assms(2) by (auto simp: chain_inv_def)
  have fresh: "fresh_or_same block_get_hash b ?s" using stored_fresh [OF assms(1) s(2,1) assms(3)] .
  then have same: "c = b" if "delivered_block_from_hash ?s (blk_hash c) = Some c" "blk_hash c = blk_hash b" for c
    using that by (auto simp: fresh_or_same_def block_get_hash_def)
  have "storage_ok block_get_hash prev_of (ax_storage (deliver_block b cx))"
    using storage_ok_deliver [OF s(1) fresh] by simp
  moreover have "stored_sealed E (ax_storage (deliver_block b cx))"
    using s(2) assms(3) by (simp add: stored_sealed_def)
  moreover have "delivered_block_from_hash (ax_storage (deliver_block b cx)) (blk_hash c) = Some c"
    if "c \<in> set (GENESIS_BLOCK E # bs)" for c
    using that assms(2) same [of c] by (auto simp: chain_inv_def block_get_hash_def)
  ultimately show ?thesis
    using assms(2) by (simp add: chain_inv_def leader_ok_def)
qed

lemma chain_inv_io [simp]:
  "chain_inv E bs (cx\<lparr>ax_batch := x\<rparr>) = chain_inv E bs cx"
  "chain_inv E bs (cx\<lparr>prop_waiting := w\<rparr>) = chain_inv E bs cx"
  "chain_inv E bs (apollo_notify m cx) = chain_inv E bs cx"
  "chain_inv E bs (apollo_multicast E' msg cx) = chain_inv E bs cx"
  "chain_inv E bs (apollo_send E' d msg cx) = chain_inv E bs cx"
  by (simp_all add: chain_inv_def leader_ok_def apollo_notify_def apollo_multicast_def apollo_send_def)

lemma apollo_propose_refines:
  assumes ext: "collision_free E" "hash_acyclic E" and inv: "chain_inv E bs cx"
    and sk: "signs E (nx_my_secret_key (ax_net cx))"
    and small: "ax_round cx + 1 < 2 ^ 64" "blk_height (ax_last_seen_block cx) + 1 < 2 ^ 64"
  shows "\<exists>cx' nb p auth. apollo_do_propose E bh batch cx = Inr cx' \<and> chain_inv E (bs @ [nb]) cx' \<and>
    sk_sign E (nx_my_secret_key (ax_net cx)) (blk_hash nb) = Some auth \<and>
    p = \<lparr>ap_sig = \<lparr>v_origin = ax_myid cx, v_auth = auth\<rparr>, ap_round = ax_round cx, ap_block_hash = blk_hash nb\<rparr> \<and>
    nb = block_init E \<lparr>blk_header = \<lparr>hdr_prev = blk_hash (ax_last_seen_block cx), hdr_extra = [], hdr_author = ax_myid cx,
        hdr_height = blk_height (ax_last_seen_block cx) + 1, hdr_blame_certificates = []\<rparr>,
        blk_body = \<lparr>body_batch_hash = bh\<rparr>, blk_hash = EMPTY_HASH E\<rparr> \<and>
    bx_to_router (ax_batch cx') = bx_to_router (ax_batch cx) @
      List.map_filter (batch_of E cx) (newly_committed E (ax_num_faults cx) bs nb) \<and>
    (\<exists>more. nx_sent (ax_net cx') = nx_sent (ax_net cx) @
       map (\<lambda>d. (d, ApNewProposal p nb batch)) (nx_broadcast_peers (ax_net cx)) @ more)"
proof -
  let ?nb = "block_init E \<lparr>blk_header = \<lparr>hdr_prev = blk_hash (ax_last_seen_block cx), hdr_extra = [], hdr_author = ax_myid cx,
        hdr_height = blk_height (ax_last_seen_block cx) + 1, hdr_blame_certificates = []\<rparr>,
        blk_body = \<lparr>body_batch_hash = bh\<rparr>, blk_hash = EMPTY_HASH E\<rparr>"
  obtain auth where auth: "sk_sign E (nx_my_secret_key (ax_net cx)) (blk_hash ?nb) = Some auth"
    using sk by (auto simp: signs_def)
  let ?p = "\<lparr>ap_sig = \<lparr>v_origin = ax_myid cx, v_auth = auth\<rparr>, ap_round = ax_round cx, ap_block_hash = blk_hash ?nb\<rparr>"
  have nb: "apollo_new_block E bh cx = Inr ?nb"
    using small(2) by (simp add: apollo_new_block_def add_u64_def with_batch_def Header_new_def Let_def)
  let ?c = "deliver_block ?nb (apollo_notify (Proposed batch (ax_round cx)) (apollo_multicast E (ApNewProposal ?p ?nb batch) cx))"
  have step: "apollo_do_propose E bh batch cx = apollo_on_receive_proposal E ?p ?nb ?c"
    using auth by (simp add: apollo_do_propose_def nb Propose_sign_def Propose_new_def Let_def apollo_multicast_def)
  have inv': "chain_inv E bs ?c" using ext inv by (intro chain_inv_deliver) simp_all
  moreover have "next_proposal E ?p ?nb ?c"
    by (simp add: next_proposal_def apollo_multicast_def apollo_notify_def block_get_hash_def block_get_height_def)
      (simp add: block_init_def)
  moreover have "ax_round ?c + 1 < 2 ^ 64" using small(1) by (simp add: apollo_multicast_def apollo_notify_def)
  ultimately obtain cx' where "apollo_on_receive_proposal E ?p ?nb ?c = Inr cx'" "chain_inv E (bs @ [?nb]) cx'"
      "ax_net cx' = gc_handlers E (send E (ax_round ?c) (ax_round ?c mod ax_num_nodes ?c) (ApRelay (ax_myid ?c) ?p) (ax_net ?c))"
      "bx_to_router (ax_batch cx') = bx_to_router (ax_batch ?c) @
         List.map_filter (batch_of E ?c) (newly_committed E (ax_num_faults ?c) bs ?nb)"
    using apollo_receive_refines [OF ext(2)] by blast
  moreover have "batch_of E ?c = batch_of E cx"
    by (simp add: batch_of_def fun_eq_iff apollo_notify_def apollo_multicast_def)
  ultimately show ?thesis using auth step
    by (intro exI [of _ cx'] exI [of _ ?nb] exI [of _ ?p] exI [of _ auth])
      (simp add: send_sent apollo_multicast_def apollo_notify_def)
qed

text \<open>A follower that has the same log accepts the proposal of the round's leader.\<close>

definition acceptable :: "ext \<Rightarrow> apollo_propose \<Rightarrow> block \<Rightarrow> cached_batch \<Rightarrow> apollo_cx \<Rightarrow> bool" where
  "acceptable E p b batch cx \<longleftrightarrow>
     ap_round p = ax_round cx \<and> ap_block_hash p = blk_hash b \<and> block_sealed E b \<and>
     blk_prev b = blk_hash (ax_last_seen_block cx) \<and> apollo_check_batch_hash E b batch \<and>
     v_origin (ap_sig p) = ax_round_leader cx \<and> blk_author b = ax_round_leader cx \<and>
     (ax_round_leader cx \<noteq> ax_myid cx \<longrightarrow>
        (\<exists>pk. fmlookup (nx_pub_key_map (ax_net cx)) (ax_round_leader cx) = Some pk \<and> Propose_check_sig E pk p)) \<and>
     fmlookup (prop_waiting_parent cx) (blk_hash b) = None"

text \<open>What accepting a proposal leaves as it was.\<close>

definition same_node :: "apollo_cx \<Rightarrow> apollo_cx \<Rightarrow> bool" where
  "same_node cx cx' \<longleftrightarrow>
     future_msgs cx' = future_msgs cx \<and> prop_buf cx' = prop_buf cx \<and> relay_buf cx' = relay_buf cx \<and>
     ax_other_buf cx' = ax_other_buf cx \<and> bx_pending (ax_batch cx') = bx_pending (ax_batch cx) \<and>
     ax_myid cx' = ax_myid cx \<and> ax_num_nodes cx' = ax_num_nodes cx \<and> ax_num_faults cx' = ax_num_faults cx \<and>
     nx_pub_key_map (ax_net cx') = nx_pub_key_map (ax_net cx)"

lemma apollo_delivery_accepts:
  assumes ext: "collision_free E" "hash_acyclic E" and inv: "chain_inv E bs cx" and acc: "acceptable E p b batch cx"
    and small: "ax_round cx + 1 < 2 ^ 64"
  shows "\<exists>cx'. apollo_delivery_check E sender p (Some (b, batch)) cx = Inr cx' \<and> chain_inv E (bs @ [b]) cx' \<and> same_node cx cx'"
proof -
  let ?x = "persist_batch E (blk_batch_hash b) (snd (CachedBatch_hash E batch)) (ax_batch cx)"
  let ?c = "deliver_block b (cx\<lparr>ax_batch := ?x\<rparr>)"
  have "chain_inv E bs ?c" using ext inv acc by (intro chain_inv_deliver) (simp_all add: acceptable_def)
  moreover have np: "next_proposal E p b ?c"
    using acc by (simp add: next_proposal_def acceptable_def block_get_hash_def block_get_height_def)
  ultimately obtain d where d: "apollo_on_receive_proposal E p b ?c = Inr d" "chain_inv E (bs @ [b]) d"
      "ax_net d = gc_handlers E (send E (ax_round ?c) (ax_round ?c mod ax_num_nodes ?c) (ApRelay (ax_myid ?c) p) (ax_net ?c))"
    using apollo_receive_refines [OF ext(2), of bs ?c p b] small by auto
  have node: "same_node cx (d\<lparr>prop_waiting := w\<rparr>)" for w
    using same_queues_receive [OF d(1)] by (simp add: same_node_def same_queues_def d(3) deliver_block_def)
  have pwp: "prop_waiting_parent d = prop_waiting_parent cx"
    using same_queues_receive [OF d(1)] by (simp add: same_queues_def)
  have "\<not> fmmem (ap_round p) (prop_chain_by_round cx)"
    using inv acc by (simp add: chain_inv_def acceptable_def)
  moreover have "is_delivered_by_hash (ax_storage cx) (blk_prev b)"
    using inv acc by (auto simp: chain_inv_def acceptable_def is_delivered_iff split: if_splits)
  moreover have "apollo_queue_or_try E p b sender ?c = Inr d"
    using acc d(1) by (auto simp: apollo_queue_or_try_def apollo_try_receive_proposal_def acceptable_def block_get_author_def)
  moreover have "apollo_children E sender (ap_block_hash p) (d\<lparr>prop_waiting := w\<rparr>) = Inr (d\<lparr>prop_waiting := w\<rparr>)" for w
    using acc pwp by (simp add: apollo_children.simps acceptable_def)
  ultimately show ?thesis
    using acc d(2) node by (simp add: apollo_delivery_check_def apollo_deliver_known_def acceptable_def Let_def)
qed

lemma apollo_delivery_refines:
  assumes "collision_free E" and "hash_acyclic E" and "chain_inv E bs cx" and "acceptable E p b batch cx"
    and "ax_round cx + 1 < 2 ^ 64"
  shows "\<exists>cx'. apollo_delivery_check E sender p (Some (b, batch)) cx = Inr cx' \<and> chain_inv E (bs @ [b]) cx'"
  using apollo_delivery_accepts [OF assms] by blast

section \<open>Start\<close>

lemma chain_inv_start:
  assumes "apollo_reactor_start E config pks cache st = Inr cx"
    and "0 < nc_num_nodes config" and "nc_num_nodes config \<le> 2 ^ 16"
  shows "chain_inv E [] cx"
proof -
  from assms obtain net :: "apollo_msg net_ctx" where net: "net_new E config pks = Inr net"
      "nx_num_nodes net = nc_num_nodes config"
    by (auto simp: apollo_reactor_start_def apollo_Context_new_def net_new_def)
  then show ?thesis
    using assms
    by (auto simp: apollo_reactor_start_def apollo_Context_new_def chain_inv_def leader_ok_def deliver_block_def
        apollo_notify_def Let_def committed_prefix_def storage_ok_def stored_sealed_def
        storage_defs GENESIS_BLOCK_def block_get_hash_def block_get_height_def split: if_splits)
qed

section \<open>A concrete configuration\<close>

definition sample_apollo :: "replica \<Rightarrow> apollo_cx" where
  "sample_apollo me = projr (apollo_reactor_start sample_ext (sample_config me) sample_pks fmempty fmempty)"

lemma sample_apollo_start:
  assumes "me \<in> {0, 1}"
  shows "apollo_reactor_start sample_ext (sample_config me) sample_pks fmempty fmempty = Inr (sample_apollo me)"
    and "nx_myid (ax_net (sample_apollo me)) = me" and "nx_my_secret_key (ax_net (sample_apollo me)) = [word_of_nat me]"
    and "ax_round (sample_apollo me) = 1" and "ax_round_leader (sample_apollo me) = 0"
    and "ax_last_seen_block (sample_apollo me) = GENESIS_BLOCK sample_ext"
    and "prop_waiting_parent (sample_apollo me) = fmempty"
    and "me = 1 \<Longrightarrow> fmlookup (nx_pub_key_map (ax_net (sample_apollo me))) 0 = Some [0]"
    and "nx_broadcast_peers (ax_net (sample_apollo 0)) = [1, 2, 3]"
  using assms
  by (auto simp: sample_apollo_def sample_node_defs apollo_reactor_start_def apollo_Context_new_def
      apollo_notify_def deliver_block_def Let_def upt_conv_Cons)

lemma sample_apollo_chain: "me \<in> {0, 1} \<Longrightarrow> chain_inv sample_ext [] (sample_apollo me)"
  using chain_inv_start [OF sample_apollo_start(1)] by (simp add: sample_config_def)

section \<open>Properties\<close>

text \<open>
  C7: Refinement of the append-only log. Let the node's accepted blocks be the hash chain \<open>bs\<close> and
  let everything but its last \<open>num_faults\<close> blocks be committed (the genesis block together with the
  first one). Receiving the next proposal, whose block extends the last block seen, does not
  panic; afterwards the accepted blocks are \<open>bs @ [b]\<close> with the same commit rule, the proposal was
  relayed to the next leader, and the batches of exactly the newly committed blocks went to the
  confirmation router, oldest first.
\<close>
theorem apollo_log_refinement:
  assumes "hash_acyclic E" and "chain_inv E bs cx" and "next_proposal E p b cx" and "ax_round cx + 1 < 2 ^ 64"
  shows "\<exists>cx'. apollo_on_receive_proposal E p b cx = Inr cx' \<and> chain_inv E (bs @ [b]) cx' \<and>
    (\<forall>h. is_committed_by_hash (ax_storage cx') h \<longleftrightarrow>
       h \<in> blk_hash ` set (committed_prefix E (ax_num_faults cx') (bs @ [b]))) \<and>
    nx_sent (ax_net cx') = nx_sent (ax_net cx) @
      (let l = ax_round cx mod ax_num_nodes cx in if l = ax_myid cx then [] else [(l, ApRelay (ax_myid cx) p)]) \<and>
    bx_to_router (ax_batch cx') = bx_to_router (ax_batch cx) @
      List.map_filter (batch_of E cx)
        (drop (length (committed_prefix E (ax_num_faults cx) bs)) (committed_prefix E (ax_num_faults cx) (bs @ [b])))"
proof -
  obtain cx' where *: "apollo_on_receive_proposal E p b cx = Inr cx'" "chain_inv E (bs @ [b]) cx'"
      "ax_net cx' = gc_handlers E (send E (ax_round cx) (ax_round cx mod ax_num_nodes cx) (ApRelay (ax_myid cx) p) (ax_net cx))"
      "bx_to_router (ax_batch cx') = bx_to_router (ax_batch cx) @
         List.map_filter (batch_of E cx) (newly_committed E (ax_num_faults cx) bs b)"
    using apollo_receive_refines [OF assms] by blast
  then show ?thesis
    by (intro exI [of _ cx']) (auto simp: send_sent newly_committed_def Let_def chain_inv_def)
qed

text \<open>
  The leader can always extend the log: with a key that signs and counters within 64 bits,
  \<open>do_propose\<close> does not panic; it makes a block whose parent is the last block seen, one higher,
  authored by this node and naming the batch, broadcasts it to every peer with a signature of its
  hash, and appends it to its own log.
\<close>
theorem apollo_leader_extends_log:
  assumes "collision_free E" and "hash_acyclic E" and "chain_inv E bs cx" and "signs E (nx_my_secret_key (ax_net cx))"
    and "ax_round cx + 1 < 2 ^ 64" and "blk_height (ax_last_seen_block cx) + 1 < 2 ^ 64"
  shows "\<exists>cx' nb p more. apollo_do_propose E bh batch cx = Inr cx' \<and> chain_inv E (bs @ [nb]) cx' \<and>
    blk_prev nb = blk_hash (ax_last_seen_block cx) \<and> blk_height nb = blk_height (ax_last_seen_block cx) + 1 \<and>
    blk_author nb = ax_myid cx \<and> blk_batch_hash nb = bh \<and> ap_block_hash p = blk_hash nb \<and>
    ap_round p = ax_round cx \<and> v_origin (ap_sig p) = ax_myid cx \<and>
    sk_sign E (nx_my_secret_key (ax_net cx)) (blk_hash nb) = Some (v_auth (ap_sig p)) \<and>
    nx_sent (ax_net cx') = nx_sent (ax_net cx) @
       map (\<lambda>d. (d, ApNewProposal p nb batch)) (nx_broadcast_peers (ax_net cx)) @ more"
proof -
  obtain cx' nb p auth more where *: "apollo_do_propose E bh batch cx = Inr cx'" "chain_inv E (bs @ [nb]) cx'"
    "sk_sign E (nx_my_secret_key (ax_net cx)) (blk_hash nb) = Some auth"
    "p = \<lparr>ap_sig = \<lparr>v_origin = ax_myid cx, v_auth = auth\<rparr>, ap_round = ax_round cx, ap_block_hash = blk_hash nb\<rparr>"
    "nb = block_init E \<lparr>blk_header = \<lparr>hdr_prev = blk_hash (ax_last_seen_block cx), hdr_extra = [], hdr_author = ax_myid cx,
        hdr_height = blk_height (ax_last_seen_block cx) + 1, hdr_blame_certificates = []\<rparr>,
        blk_body = \<lparr>body_batch_hash = bh\<rparr>, blk_hash = EMPTY_HASH E\<rparr>"
    "nx_sent (ax_net cx') = nx_sent (ax_net cx) @
       map (\<lambda>d. (d, ApNewProposal p nb batch)) (nx_broadcast_peers (ax_net cx)) @ more"
    using apollo_propose_refines [OF assms] by blast
  have "blk_header nb = \<lparr>hdr_prev = blk_hash (ax_last_seen_block cx), hdr_extra = [], hdr_author = ax_myid cx,
        hdr_height = blk_height (ax_last_seen_block cx) + 1, hdr_blame_certificates = []\<rparr>"
    "blk_body nb = \<lparr>body_batch_hash = bh\<rparr>" unfolding *(5) by (simp_all add: block_init_def)
  with *(1-4,6) show ?thesis by (intro exI [of _ cx'] exI [of _ nb] exI [of _ p] exI [of _ more]) simp
qed

text \<open>
  C10: One round of the protocol. A leader and a follower hold the same log and are in the same
  round, the leader leads that round, and the follower has the public key that belongs to the
  leader's secret key. The leader proposes a batch under its hash; the follower, handed the
  message the leader broadcast, accepts it, and both logs have grown by the same block.
\<close>
theorem apollo_round_synchronises:
  assumes ext: "collision_free E" "hash_acyclic E"
    and logs: "chain_inv E bs ld" "chain_inv E bs fo"
    and leads: "ax_myid ld = ax_round_leader fo" "ax_myid fo \<noteq> ax_myid ld" "ax_myid fo \<in> set (nx_broadcast_peers (ax_net ld))"
    and keys: "sign_verifies E (nx_my_secret_key (ax_net ld)) pk"
      "fmlookup (nx_pub_key_map (ax_net fo)) (ax_myid ld) = Some pk"
    and small: "ax_round ld + 1 < 2 ^ 64" "blk_height (ax_last_seen_block ld) + 1 < 2 ^ 64"
    and fo: "prop_waiting_parent fo = fmempty" and bh: "fst (CachedBatch_hash E batch) = bh"
  shows "\<exists>ld' fo' p b. apollo_do_propose E bh batch ld = Inr ld' \<and>
    (ax_myid fo, ApNewProposal p b batch) \<in> set (nx_sent (ax_net ld')) \<and>
    apollo_delivery_check E (v_origin (ap_sig p)) p (Some (b, batch)) fo = Inr fo' \<and>
    chain_inv E (bs @ [b]) ld' \<and> chain_inv E (bs @ [b]) fo'"
proof -
  have "signs E (nx_my_secret_key (ax_net ld))" using keys(1) by (auto simp: signs_def sign_verifies_def)
  from apollo_propose_refines [OF ext logs(1) this small, of bh batch]
  obtain ld' nb p auth more where ld: "apollo_do_propose E bh batch ld = Inr ld'" "chain_inv E (bs @ [nb]) ld'"
    "sk_sign E (nx_my_secret_key (ax_net ld)) (blk_hash nb) = Some auth"
    "p = \<lparr>ap_sig = \<lparr>v_origin = ax_myid ld, v_auth = auth\<rparr>, ap_round = ax_round ld, ap_block_hash = blk_hash nb\<rparr>"
    "nb = block_init E \<lparr>blk_header = \<lparr>hdr_prev = blk_hash (ax_last_seen_block ld), hdr_extra = [], hdr_author = ax_myid ld,
        hdr_height = blk_height (ax_last_seen_block ld) + 1, hdr_blame_certificates = []\<rparr>,
        blk_body = \<lparr>body_batch_hash = bh\<rparr>, blk_hash = EMPTY_HASH E\<rparr>"
    "nx_sent (ax_net ld') = nx_sent (ax_net ld) @
       map (\<lambda>d. (d, ApNewProposal p nb batch)) (nx_broadcast_peers (ax_net ld)) @ more"
    by blast
  have nb: "blk_prev nb = blk_hash (ax_last_seen_block ld)" "blk_author nb = ax_myid ld" "blk_batch_hash nb = bh"
      "block_sealed E nb"
    unfolding ld(5) by (simp_all add: block_sealed_def) (simp_all add: block_init_def compute_hash_def)
  have same: "ax_round fo = ax_round ld" "ax_last_seen_block fo = ax_last_seen_block ld"
    using logs by (auto simp: chain_inv_def)
  have "pk_verify E pk (blk_hash nb) auth" using keys(1) ld(3) by (metis option.inject sign_verifies_def)
  then have "acceptable E p nb batch fo"
    using nb same leads keys(2) fo bh
    by (simp add: acceptable_def ld(4) apollo_check_batch_hash_def Propose_check_sig_def)
  moreover have "ax_round fo + 1 < 2 ^ 64" using small(1) same by simp
  ultimately obtain fo' where "apollo_delivery_check E (v_origin (ap_sig p)) p (Some (nb, batch)) fo = Inr fo'"
      "chain_inv E (bs @ [nb]) fo'"
    using apollo_delivery_refines [OF ext logs(2)] by blast
  moreover have "(ax_myid fo, ApNewProposal p nb batch) \<in> set (nx_sent (ax_net ld'))"
    using ld(6) leads(3) by auto
  ultimately show ?thesis using ld(1,2) by blast
qed

theorem apollo_log_refinement_witness:
  "\<exists>p b cx'. apollo_on_receive_proposal sample_ext p b (deliver_block b (sample_apollo 1)) = Inr cx' \<and>
     chain_inv sample_ext [b] cx' \<and> ax_round cx' = 2"
proof -
  let ?E = sample_ext
  let ?b = "block_init ?E (with_batch ?E [])"
  let ?p = "(Propose_new (blk_hash ?b))\<lparr>ap_round := 1\<rparr>"
  let ?cx = "deliver_block ?b (sample_apollo 1)"
  have "chain_inv ?E [] ?cx"
    using sample_apollo_chain [of 1] by (intro chain_inv_deliver) (simp_all add: sample_collision_free)
  moreover have "next_proposal ?E ?p ?b ?cx"
    by (simp add: next_proposal_def sample_apollo_start [of 1, simplified] Propose_new_def block_get_hash_def block_get_height_def)
      (simp add: block_init_def with_batch_def Header_new_def GENESIS_BLOCK_def)
  moreover have "ax_round ?cx + 1 < 2 ^ 64" by (simp add: sample_apollo_start [of 1, simplified])
  ultimately obtain cx' where "apollo_on_receive_proposal ?E ?p ?b ?cx = Inr cx'" and inv: "chain_inv ?E ([] @ [?b]) cx'"
    using apollo_log_refinement [OF sample_hash_acyclic, of "[]" ?cx ?p ?b] by blast
  moreover from inv have "ax_round cx' = 2" by (simp add: chain_inv_def)
  moreover from inv have "chain_inv ?E [?b] cx'" by (simp only: append_Nil)
  ultimately show ?thesis by blast
qed

lemma sample_leader_facts:
  "chain_inv sample_ext [] (sample_apollo 0)" "signs sample_ext (nx_my_secret_key (ax_net (sample_apollo 0)))"
  "ax_round (sample_apollo 0) + 1 < 2 ^ 64" "blk_height (ax_last_seen_block (sample_apollo 0)) + 1 < 2 ^ 64"
  using sample_apollo_start(4,6) [of 0] by (simp_all add: sample_apollo_chain signs_def GENESIS_BLOCK_def)

theorem apollo_leader_extends_log_witness:
  "\<exists>cx' nb. apollo_do_propose sample_ext [7] (sample_batch [sample_tx 1 1]) (sample_apollo 0) = Inr cx' \<and>
     chain_inv sample_ext [nb] cx' \<and> blk_author nb = 0 \<and> blk_batch_hash nb = [7]"
proof -
  obtain cx' nb where "apollo_do_propose sample_ext [7] (sample_batch [sample_tx 1 1]) (sample_apollo 0) = Inr cx'"
      "chain_inv sample_ext ([] @ [nb]) cx'" "blk_author nb = ax_myid (sample_apollo 0)" "blk_batch_hash nb = [7]"
    using apollo_leader_extends_log [OF sample_collision_free sample_hash_acyclic sample_leader_facts, of "[7]"
        "sample_batch [sample_tx 1 1]"] by (elim exE conjE) (rule that)
  then show ?thesis using sample_apollo_start(2) [of 0] by (intro exI [of _ cx'] exI [of _ nb]) simp
qed

theorem apollo_round_synchronises_witness:
  "\<exists>ld' fo' p b. apollo_do_propose sample_ext (fst (CachedBatch_hash sample_ext (sample_batch [sample_tx 1 1])))
       (sample_batch [sample_tx 1 1]) (sample_apollo 0) = Inr ld' \<and>
     apollo_delivery_check sample_ext (v_origin (ap_sig p)) p (Some (b, sample_batch [sample_tx 1 1])) (sample_apollo 1) = Inr fo' \<and>
     chain_inv sample_ext [b] ld' \<and> chain_inv sample_ext [b] fo'"
proof -
  let ?ba = "sample_batch [sample_tx 1 1]"
  have st: "chain_inv sample_ext [] (sample_apollo 1)" "ax_myid (sample_apollo 0) = ax_round_leader (sample_apollo 1)"
      "ax_myid (sample_apollo 1) \<noteq> ax_myid (sample_apollo 0)"
      "ax_myid (sample_apollo 1) \<in> set (nx_broadcast_peers (ax_net (sample_apollo 0)))"
      "sign_verifies sample_ext (nx_my_secret_key (ax_net (sample_apollo 0))) [0]"
      "fmlookup (nx_pub_key_map (ax_net (sample_apollo 1))) (ax_myid (sample_apollo 0)) = Some [0]"
      "prop_waiting_parent (sample_apollo 1) = fmempty"
    using sample_apollo_start(2,3,9) [of 0] sample_apollo_start(2,5,7,8) [of 1] sample_sign_verifies [of "[0]"]
    by (simp_all add: sample_apollo_chain)
  obtain ld' fo' p b where "apollo_do_propose sample_ext (fst (CachedBatch_hash sample_ext ?ba)) ?ba (sample_apollo 0) = Inr ld'"
      "apollo_delivery_check sample_ext (v_origin (ap_sig p)) p (Some (b, ?ba)) (sample_apollo 1) = Inr fo'"
      "chain_inv sample_ext ([] @ [b]) ld'" "chain_inv sample_ext ([] @ [b]) fo'"
    using apollo_round_synchronises [OF sample_collision_free sample_hash_acyclic sample_leader_facts(1) st(1-6)
        sample_leader_facts(3,4) st(7) refl, of ?ba] by (elim exE conjE) (rule that)
  then show ?thesis by (intro exI [of _ ld'] exI [of _ fo'] exI [of _ p] exI [of _ b]) simp
qed

end
