(* ===== verification/Apollo_Safety.thy ===== *)
theory Apollo_Safety
  imports Apollo_Chain
begin

text \<open>
  What holds of an Apollo node whatever arrives from the network: an invariant of every state the
  reactor reaches, the list of faults that are possible at all, and that no loop of the handlers
  runs forever. The invariant has two parts, \<open>core_inv\<close> (leaders, storage, recorded proposals,
  buffers) and \<open>lagged\<close> (what is committed is what the proposals of the settled rounds name, with
  its ancestors), from which two nodes with the same proposals agree on their commits.
  \<open>keeps E r\<close> says of the result of a handler that it is a context that satisfies the invariant
  or one of the possible faults, so that each handler is treated once.
\<close>

section \<open>Invariant\<close>

text \<open>An accepted proposal: of its round's leader, signed by it, for a delivered block it authored.\<close>

definition authentic :: "ext \<Rightarrow> apollo_cx \<Rightarrow> apollo_propose \<Rightarrow> bool" where
  "authentic E cx p \<longleftrightarrow>
     v_origin (ap_sig p) = (ap_round p - 1) mod ax_num_nodes cx \<and>
     (v_origin (ap_sig p) \<noteq> ax_myid cx \<longrightarrow>
        (\<exists>pk. fmlookup (nx_pub_key_map (ax_net cx)) (v_origin (ap_sig p)) = Some pk \<and> Propose_check_sig E pk p)) \<and>
     (\<exists>b. delivered_block_from_hash (ax_storage cx) (ap_block_hash p) = Some b \<and> blk_author b = v_origin (ap_sig p))"

definition core_inv :: "ext \<Rightarrow> apollo_cx \<Rightarrow> bool" where
  "core_inv E cx \<longleftrightarrow>
     leader_ok cx \<and> (\<forall>i<ax_num_nodes cx. i \<noteq> ax_myid cx \<longrightarrow> fmmem i (nx_pub_key_map (ax_net cx))) \<and>
     storage_ok block_get_hash prev_of (ax_storage cx) \<and> stored_sealed E (ax_storage cx) \<and>
     (\<forall>r. fmmem r (prop_chain_by_round cx) \<longleftrightarrow> 1 \<le> r \<and> r < ax_round cx) \<and>
     (\<forall>r p. fmlookup (prop_chain_by_round cx) r = Some p \<longrightarrow> ap_round p = r \<and> authentic E cx p) \<and>
     (\<forall>h p. fmlookup (prop_waiting_parent cx) h = Some p \<longrightarrow> is_delivered_by_hash (ax_storage cx) (ap_block_hash p)) \<and>
     (\<forall>(s, p, b, ba)\<in>set (prop_buf cx). block_sealed E b) \<and>
     (\<forall>m\<in>set (ax_other_buf cx). (\<exists>f r h. m = ApRequest f r h) \<or> (\<exists>v. m = ApBlame v))"

lemma core_invI:
  assumes "leader_ok cx" and "\<And>i. i < ax_num_nodes cx \<Longrightarrow> i \<noteq> ax_myid cx \<Longrightarrow> fmmem i (nx_pub_key_map (ax_net cx))"
    and "storage_ok block_get_hash prev_of (ax_storage cx)" and "stored_sealed E (ax_storage cx)"
    and "\<And>r. fmmem r (prop_chain_by_round cx) \<longleftrightarrow> 1 \<le> r \<and> r < ax_round cx"
    and "\<And>r p. fmlookup (prop_chain_by_round cx) r = Some p \<Longrightarrow> ap_round p = r \<and> authentic E cx p"
    and "\<And>h p. fmlookup (prop_waiting_parent cx) h = Some p \<Longrightarrow> is_delivered_by_hash (ax_storage cx) (ap_block_hash p)"
    and "\<And>s p b ba. (s, p, b, ba) \<in> set (prop_buf cx) \<Longrightarrow> block_sealed E b"
    and "\<And>m. m \<in> set (ax_other_buf cx) \<Longrightarrow> (\<exists>f r h. m = ApRequest f r h) \<or> (\<exists>v. m = ApBlame v)"
  shows "core_inv E cx"
  unfolding core_inv_def
proof (intro conjI)
  show "\<forall>r. fmmem r (prop_chain_by_round cx) \<longleftrightarrow> 1 \<le> r \<and> r < ax_round cx" using assms(5) by blast
  show "\<forall>(s, p, b, ba)\<in>set (prop_buf cx). block_sealed E b" using assms(8) by blast
qed (use assms in \<open>blast+\<close>)

lemma core_invD:
  assumes "core_inv E cx"
  shows "leader_ok cx" and "i < ax_num_nodes cx \<Longrightarrow> i \<noteq> ax_myid cx \<Longrightarrow> fmmem i (nx_pub_key_map (ax_net cx))"
    and "storage_ok block_get_hash prev_of (ax_storage cx)" and "stored_sealed E (ax_storage cx)"
    and "fmmem r (prop_chain_by_round cx) \<longleftrightarrow> 1 \<le> r \<and> r < ax_round cx"
    and "fmlookup (prop_chain_by_round cx) r = Some p \<Longrightarrow> ap_round p = r \<and> authentic E cx p"
    and "fmlookup (prop_waiting_parent cx) h = Some p \<Longrightarrow> is_delivered_by_hash (ax_storage cx) (ap_block_hash p)"
    and "(s, p, b, ba) \<in> set (prop_buf cx) \<Longrightarrow> block_sealed E b"
    and "m \<in> set (ax_other_buf cx) \<Longrightarrow> (\<exists>f r h. m = ApRequest f r h) \<or> (\<exists>v. m = ApBlame v)"
  using assms unfolding core_inv_def by blast+

text \<open>
  The commit rule. With respect to the round \<open>n\<close>: the block of every proposal recorded more than
  \<open>num_faults\<close> rounds before \<open>n\<close> is committed, and what is committed is the block of such a
  proposal or one of its ancestors.
\<close>

definition settled :: "nat \<Rightarrow> apollo_cx \<Rightarrow> round \<Rightarrow> apollo_propose \<Rightarrow> bool" where
  "settled n cx r p \<longleftrightarrow> fmlookup (prop_chain_by_round cx) r = Some p \<and> r + ax_num_faults cx < n"

definition lagged :: "nat \<Rightarrow> apollo_cx \<Rightarrow> bool" where
  "lagged n cx \<longleftrightarrow>
     (\<forall>r p. settled n cx r p \<longrightarrow> is_committed_by_hash (ax_storage cx) (ap_block_hash p)) \<and>
     (\<forall>h. is_committed_by_hash (ax_storage cx) h \<longrightarrow>
        (\<exists>r p. settled n cx r p \<and> (parent_step prev_of (ax_storage cx))\<^sup>*\<^sup>* (ap_block_hash p) h))"

lemma lagged_mono:
  assumes "lagged n cx" and "\<And>r p. settled m c r p \<longleftrightarrow> settled n cx r p"
    and "\<And>h. is_committed_by_hash (ax_storage c) h \<longleftrightarrow> is_committed_by_hash (ax_storage cx) h"
    and "\<And>h b. delivered_block_from_hash (ax_storage cx) h = Some b \<Longrightarrow> delivered_block_from_hash (ax_storage c) h = Some b"
  shows "lagged m c"
  using assms(1) unfolding lagged_def assms(2,3) by (blast intro: parent_step_mono [OF assms(4)])

definition node_inv :: "ext \<Rightarrow> apollo_cx \<Rightarrow> bool" where
  "node_inv E cx \<longleftrightarrow> core_inv E cx \<and> lagged (ax_round cx) cx"

lemmas node_invD = core_invD [OF iffD1 [OF node_inv_def, THEN conjunct1]]

text \<open>
  The faults an Apollo node can run into: a \<open>Blame\<close> message, a commit walk that meets a parent that
  was never delivered, a key that does not sign, and a counter that overflows.
\<close>

definition apollo_faults :: "fault set" where
  "apollo_faults =
     {Panic ''Received a blame message'', Panic ''called Option::unwrap on a None value'',
      Panic ''Failed to sign a block'', Overflow}"

abbreviation keeps :: "ext \<Rightarrow> apollo_cx res \<Rightarrow> bool" where
  "keeps E \<equiv> rkeeps (node_inv E) apollo_faults"

section \<open>Parts of a context that the invariant reads\<close>

text \<open>Changes the invariant does not see, or sees only through the storage.\<close>

lemma authentic_mono:
  assumes "authentic E cx p" and "nx_num_nodes (ax_net c) = ax_num_nodes cx" and "nx_myid (ax_net c) = ax_myid cx"
    and "nx_pub_key_map (ax_net c) = nx_pub_key_map (ax_net cx)"
    and "\<And>h b. delivered_block_from_hash (ax_storage cx) h = Some b \<Longrightarrow> delivered_block_from_hash (ax_storage c) h = Some b"
  shows "authentic E c p"
  using assms by (auto simp: authentic_def)

lemma core_inv_cong:
  assumes "core_inv E cx" and "ax_round c = ax_round cx" and "ax_round_leader c = ax_round_leader cx"
    and "nx_num_nodes (ax_net c) = ax_num_nodes cx" and "nx_myid (ax_net c) = ax_myid cx"
    and "nx_pub_key_map (ax_net c) = nx_pub_key_map (ax_net cx)"
    and "storage_ok block_get_hash prev_of (ax_storage c)" and "stored_sealed E (ax_storage c)"
    and "\<And>h b. delivered_block_from_hash (ax_storage cx) h = Some b \<Longrightarrow> delivered_block_from_hash (ax_storage c) h = Some b"
    and "prop_chain_by_round c = prop_chain_by_round cx"
    and "\<And>h p. fmlookup (prop_waiting_parent c) h = Some p \<Longrightarrow>
           fmlookup (prop_waiting_parent cx) h = Some p \<or> is_delivered_by_hash (ax_storage c) (ap_block_hash p)"
    and "set (prop_buf c) \<subseteq> set (prop_buf cx)" and "set (ax_other_buf c) \<subseteq> set (ax_other_buf cx)"
  shows "core_inv E c"
proof -
  have "authentic E c p" if "authentic E cx p" for p
    using authentic_mono [OF that assms(4-6,9)] .
  moreover have "is_delivered_by_hash (ax_storage c) h" if "is_delivered_by_hash (ax_storage cx) h" for h
    using that assms(9) by (auto simp: is_delivered_iff)
  moreover have "leader_ok c" using assms(1-4) by (simp add: core_inv_def leader_ok_def)
  moreover note inv = core_invD [OF assms(1)]
  ultimately show ?thesis
  proof (intro core_invI)
    fix m assume "m \<in> set (ax_other_buf c)"
    then show "(\<exists>f r h. m = ApRequest f r h) \<or> (\<exists>v. m = ApBlame v)" using assms(13) inv(9) by blast
  next
    fix s p b ba assume "(s, p, b, ba) \<in> set (prop_buf c)"
    then show "block_sealed E b" using assms(12) inv(8) by blast
  next
    fix h p assume "fmlookup (prop_waiting_parent c) h = Some p"
    then show "is_delivered_by_hash (ax_storage c) (ap_block_hash p)"
      using assms(11) inv(7) \<open>\<And>h. is_delivered_by_hash (ax_storage cx) h \<Longrightarrow> is_delivered_by_hash (ax_storage c) h\<close> by blast
  next
    fix r p assume "fmlookup (prop_chain_by_round c) r = Some p"
    then show "ap_round p = r \<and> authentic E c p"
      using inv(6) assms(10) \<open>\<And>p. authentic E cx p \<Longrightarrow> authentic E c p\<close> by simp
  qed (use assms(2,4-8,10) inv(2,5) in simp_all)
qed

lemma node_inv_cong:
  assumes "node_inv E cx" and "ax_round c = ax_round cx" and "ax_round_leader c = ax_round_leader cx"
    and "nx_num_nodes (ax_net c) = ax_num_nodes cx" and "nx_myid (ax_net c) = ax_myid cx"
    and "nx_pub_key_map (ax_net c) = nx_pub_key_map (ax_net cx)"
    and "storage_ok block_get_hash prev_of (ax_storage c)" and "stored_sealed E (ax_storage c)"
    and "\<And>h b. delivered_block_from_hash (ax_storage cx) h = Some b \<Longrightarrow> delivered_block_from_hash (ax_storage c) h = Some b"
    and "prop_chain_by_round c = prop_chain_by_round cx"
    and "\<And>h p. fmlookup (prop_waiting_parent c) h = Some p \<Longrightarrow>
           fmlookup (prop_waiting_parent cx) h = Some p \<or> is_delivered_by_hash (ax_storage c) (ap_block_hash p)"
    and "set (prop_buf c) \<subseteq> set (prop_buf cx)" and "set (ax_other_buf c) \<subseteq> set (ax_other_buf cx)"
    and "nx_num_faults (ax_net c) = ax_num_faults cx"
    and "\<And>h. is_committed_by_hash (ax_storage c) h \<longleftrightarrow> is_committed_by_hash (ax_storage cx) h"
  shows "node_inv E c"
proof -
  have "core_inv E cx" "lagged (ax_round cx) cx" using assms(1) by (auto simp: node_inv_def)
  moreover have "settled (ax_round c) c r p \<longleftrightarrow> settled (ax_round cx) cx r p" for r p
    using assms(2,10,14) by (simp add: settled_def)
  ultimately show ?thesis
    unfolding node_inv_def using core_inv_cong [OF _ assms(2-13)] lagged_mono [OF _ _ assms(15,9)] by blast
qed

lemma node_inv_frame [simp]:
  "node_inv E (cx\<lparr>ax_batch := x\<rparr>) = node_inv E cx"
  "node_inv E (cx\<lparr>prop_waiting := w\<rparr>) = node_inv E cx"
  "node_inv E (cx\<lparr>future_msgs := m\<rparr>) = node_inv E cx"
  "node_inv E (cx\<lparr>relay_buf := l\<rparr>) = node_inv E cx"
  "node_inv E (cx\<lparr>ax_last_seen_block := b\<rparr>) = node_inv E cx"
  "node_inv E (cx\<lparr>ax_bench_committed_tx_count := n\<rparr>) = node_inv E cx"
  "node_inv E (cx\<lparr>prop_chain_by_hash := ph\<rparr>) = node_inv E cx"
  "node_inv E (apollo_notify m' cx) = node_inv E cx"
  "node_inv E (apollo_send E' d msg cx) = node_inv E cx"
  "node_inv E (apollo_multicast E' msg cx) = node_inv E cx"
  by (simp_all add: node_inv_def core_inv_def lagged_def settled_def leader_ok_def authentic_def apollo_notify_def apollo_send_def apollo_multicast_def)

lemma node_inv_deliver:
  assumes "collision_free E" and "node_inv E cx" and "block_sealed E b"
  shows "node_inv E (deliver_block b cx)"
proof -
  have s: "storage_ok block_get_hash prev_of (ax_storage cx)" "stored_sealed E (ax_storage cx)"
    using node_invD(3,4) [OF assms(2)] .
  have fresh: "fresh_or_same block_get_hash b (ax_storage cx)" using stored_fresh [OF assms(1) s(2,1) assms(3)] .
  show ?thesis
  proof (rule node_inv_cong [OF assms(2)])
    show "storage_ok block_get_hash prev_of (ax_storage (deliver_block b cx))"
      using storage_ok_deliver [OF s(1) fresh] by simp
    show "stored_sealed E (ax_storage (deliver_block b cx))" using s(2) assms(3) by (simp add: stored_sealed_def)
    show "delivered_block_from_hash (ax_storage (deliver_block b cx)) h = Some c"
      if "delivered_block_from_hash (ax_storage cx) h = Some c" for h c
      using that fresh by (auto simp: fresh_or_same_def)
  qed (simp_all add: deliver_block_def)
qed

lemma deliver_again: "block_sealed E b \<Longrightarrow> collision_free E \<Longrightarrow> node_inv E cx \<Longrightarrow>
   delivered_block_from_hash (ax_storage (deliver_block b cx)) (blk_hash b) = Some b"
  by (simp add: block_get_hash_def)

section \<open>Receiving a proposal\<close>

text \<open>
  A context in which the current round's proposal has been recorded but the round not yet left;
  the commit rule holds with respect to the round \<open>n\<close>.
\<close>

definition mid_round :: "ext \<Rightarrow> nat \<Rightarrow> apollo_cx \<Rightarrow> bool" where
  "mid_round E n cx \<longleftrightarrow>
     (\<exists>p. fmlookup (prop_chain_by_round cx) (ax_round cx) = Some p \<and> ap_round p = ax_round cx \<and> authentic E cx p) \<and>
     core_inv E (cx\<lparr>prop_chain_by_round := fmdrop (ax_round cx) (prop_chain_by_round cx)\<rparr>) \<and> lagged n cx"

lemma mid_roundE:
  assumes "mid_round E n cx"
  obtains p where "fmlookup (prop_chain_by_round cx) (ax_round cx) = Some p" "ap_round p = ax_round cx" "authentic E cx p"
    and "core_inv E (cx\<lparr>prop_chain_by_round := fmdrop (ax_round cx) (prop_chain_by_round cx)\<rparr>)" and "lagged n cx"
    and "leader_ok cx" and "\<And>r. fmmem r (prop_chain_by_round cx) \<longleftrightarrow> 1 \<le> r \<and> r < Suc (ax_round cx)"
proof -
  let ?d = "cx\<lparr>prop_chain_by_round := fmdrop (ax_round cx) (prop_chain_by_round cx)\<rparr>"
  from assms obtain p where p: "fmlookup (prop_chain_by_round cx) (ax_round cx) = Some p" "ap_round p = ax_round cx" "authentic E cx p"
      "core_inv E ?d" "lagged n cx" by (auto simp: mid_round_def)
  have lead: "leader_ok cx" using p(4) by (simp add: core_inv_def leader_ok_def)
  have "fmmem r (prop_chain_by_round cx) \<longleftrightarrow> 1 \<le> r \<and> r < Suc (ax_round cx)" for r
    using core_invD(5) [OF p(4), of r] p(1) lead by (cases "r = ax_round cx") (auto simp: fmmem_Some leader_ok_def)
  with p lead that show thesis by blast
qed

lemma node_inv_update:
  assumes "mid_round E (Suc (ax_round cx)) cx" and "apollo_update_round E cx = r"
  shows "keeps E r"
proof -
  let ?d = "cx\<lparr>prop_chain_by_round := fmdrop (ax_round cx) (prop_chain_by_round cx)\<rparr>"
  from assms(1) obtain p where p: "fmlookup (prop_chain_by_round cx) (ax_round cx) = Some p" "ap_round p = ax_round cx" "authentic E cx p"
    and inv: "core_inv E ?d" and lag: "lagged (Suc (ax_round cx)) cx" and lead: "leader_ok cx"
    and dom: "\<And>r. fmmem r (prop_chain_by_round cx) \<longleftrightarrow> 1 \<le> r \<and> r < Suc (ax_round cx)"
    by (rule mid_roundE) blast
  have next_l: "apollo_next_leader cx = Inr (ax_round cx mod ax_num_nodes cx)" using apollo_next_leader_ok [OF lead] .
  show ?thesis
  proof (cases "ax_round cx + 1 < 2 ^ 64")
    case False
    with assms(2) next_l show ?thesis
      by (auto simp: apollo_update_round_def add_u64_def apollo_faults_def)
  next
    case True
    let ?c = "(apollo_notify (NewRound (ax_round cx mod ax_num_nodes cx) (ax_round cx + 1))
        (cx\<lparr>ax_round_leader := ax_round cx mod ax_num_nodes cx, ax_round := ax_round cx + 1\<rparr>))\<lparr>ax_net := gc_handlers E (ax_net cx)\<rparr>"
    have r: "r = Inr ?c"
      using assms(2) next_l True by (auto simp: apollo_update_round_def add_u64_def apollo_notify_def Let_def)
    have entries: "ap_round q = i \<and> authentic E cx q" if "fmlookup (prop_chain_by_round cx) i = Some q" for i q
      using that core_invD(6) [OF inv, of i q] p by (cases "i = ax_round cx") (auto simp: authentic_def)
    have auth: "authentic E ?c q \<longleftrightarrow> authentic E cx q" for q by (simp add: authentic_def apollo_notify_def)
    have "leader_ok ?c" using lead by (simp add: leader_ok_def apollo_notify_def)
    then have "core_inv E ?c"
      using core_invD(2-4,7-9) [OF inv] dom entries auth by (intro core_invI) (simp_all add: apollo_notify_def)
    moreover have "lagged (ax_round ?c) ?c"
      using lag by (rule lagged_mono) (simp_all add: apollo_notify_def settled_def)
    ultimately show ?thesis unfolding r rkeeps_simps node_inv_def by simp
  qed
qed

lemma fmdrop_fmupd_absent: "\<not> fmmem k m \<Longrightarrow> fmdrop k (fmupd k v m) = m"
  by (rule fmap_ext) (auto simp: fmmem_def)

lemma mid_round_accept:
  assumes "node_inv E cx" and "ap_round p = ax_round cx" and "authentic E cx p"
  shows "mid_round E (ax_round cx) (apollo_accept E p b l cx)"
proof -
  let ?a = "apollo_accept E p b l cx"
  have core: "core_inv E cx" and lag: "lagged (ax_round cx) cx" using assms(1) by (auto simp: node_inv_def)
  have new: "\<not> fmmem (ax_round cx) (prop_chain_by_round cx)" using core_invD(5) [OF core] by simp
  then have "fmdrop (ax_round cx) (fmupd (ax_round cx) p (prop_chain_by_round cx)) = prop_chain_by_round cx"
    by (rule fmdrop_fmupd_absent)
  then have "core_inv E (?a\<lparr>prop_chain_by_round := fmdrop (ax_round cx) (prop_chain_by_round ?a)\<rparr>)"
    using core_invD(3,4) [OF core] by (intro core_inv_cong [OF core]) (simp_all add: assms(2))
  moreover have "authentic E ?a p" using assms(3) by (rule authentic_mono) simp_all
  moreover have "lagged (ax_round cx) ?a"
    using lag by (rule lagged_mono) (auto simp: settled_def assms(2))
  ultimately show ?thesis by (simp add: mid_round_def assms(2))
qed

text \<open>A commit walk settles one more round; before the first \<open>num_faults\<close> rounds there is none to settle.\<close>

lemma lagged_commit:
  assumes "lagged (ax_round cx) cx" and "ax_num_faults cx < ax_round cx"
    and "storage_ok block_get_hash prev_of (ax_storage cx)" and "apollo_do_commit E cx = Inr c"
  shows "lagged (Suc (ax_round cx)) c"
proof -
  from assms(4) obtain v newly st where v: "fmlookup (prop_chain_by_round cx) (ax_round cx - ax_num_faults cx) = Some v" and walk:
    "commit_chain block_get_hash block_get_height prev_of (ap_block_hash v) (ax_storage cx) = Inr (newly, st)"
    "c = fold (apollo_announce_commit E) (rev newly) (cx\<lparr>ax_storage := st\<rparr>)"
    by (elim apollo_do_commit_result)
  note ok = commit_chain_ok [OF assms(3) walk(1)]
  let ?R = "\<lambda>s. (parent_step prev_of s)\<^sup>*\<^sup>*"
  have "parent_step prev_of st = parent_step prev_of (ax_storage cx)" by (simp add: ok(2) parent_step_def fun_eq_iff)
  then have same: "?R st = ?R (ax_storage cx)" by simp
  have last: "r + ax_num_faults cx < Suc (ax_round cx) \<longleftrightarrow> r + ax_num_faults cx < ax_round cx \<or> r = ax_round cx - ax_num_faults cx" for r
    using assms(2) by linarith
  have c: "ax_storage c = st" "settled (Suc (ax_round cx)) c r p \<longleftrightarrow> settled (ax_round cx) cx r p \<or> r = ax_round cx - ax_num_faults cx \<and> p = v" for r p
    using v by (auto simp: walk(2) settled_def last)
  have com: "is_committed_by_hash st h \<longleftrightarrow> h \<in> block_get_hash ` set newly \<or> is_committed_by_hash (ax_storage cx) h" for h by (simp add: ok(2))
  have "?R (ax_storage cx) (ap_block_hash v) h" if "h \<in> block_get_hash ` set newly" for h
    using that commit_chain_ancestors [OF assms(3) walk(1)] by blast
  then show ?thesis using assms(1) ok(5) com unfolding lagged_def c same by metis
qed

lemma lagged_early:
  assumes "lagged (ax_round cx) cx" and "ax_round cx \<le> ax_num_faults cx" and "\<And>r. fmmem r (prop_chain_by_round cx) \<Longrightarrow> 1 \<le> r"
  shows "lagged (Suc (ax_round cx)) cx"
proof -
  have "settled (Suc (ax_round cx)) cx r p \<longleftrightarrow> settled (ax_round cx) cx r p" for r p
    using assms(2) assms(3) [of r] by (auto simp: settled_def fmmem_Some)
  with assms(1) show ?thesis by (simp add: lagged_def)
qed

lemma mid_round_seen: "mid_round E n (cx\<lparr>ax_last_seen_block := b\<rparr>) = mid_round E n cx"
  by (simp add: mid_round_def core_inv_def lagged_def settled_def leader_ok_def authentic_def)

lemma mid_round_commit:
  assumes "mid_round E (ax_round cx) cx" and "ax_num_faults cx < ax_round cx"
  shows "apollo_do_commit E cx = Inr c \<Longrightarrow> mid_round E (Suc (ax_round c)) c"
    and "apollo_do_commit E cx = Inl f \<Longrightarrow> f \<in> apollo_faults"
proof -
  let ?d = "cx\<lparr>prop_chain_by_round := fmdrop (ax_round cx) (prop_chain_by_round cx)\<rparr>"
  from assms(1) obtain p where p: "fmlookup (prop_chain_by_round cx) (ax_round cx) = Some p" "ap_round p = ax_round cx" "authentic E cx p"
    and inv: "core_inv E ?d" and lag: "lagged (ax_round cx) cx"
    and dom: "\<And>r. fmmem r (prop_chain_by_round cx) \<longleftrightarrow> 1 \<le> r \<and> r < Suc (ax_round cx)"
    by (rule mid_roundE) blast
  have s: "storage_ok block_get_hash prev_of (ax_storage cx)" using core_invD(3) [OF inv] by simp
  show "mid_round E (Suc (ax_round c)) c" if c: "apollo_do_commit E cx = Inr c"
  proof -
    from c obtain v newly st where "fmlookup (prop_chain_by_round cx) (ax_round cx - ax_num_faults cx) = Some v" and walk:
      "commit_chain block_get_hash block_get_height prev_of (ap_block_hash v) (ax_storage cx) = Inr (newly, st)"
      "c = fold (apollo_announce_commit E) (rev newly) (cx\<lparr>ax_storage := st\<rparr>)"
      by (elim apollo_do_commit_result)
    note ok = commit_chain_ok [OF s walk(1)]
    have "core_inv E (c\<lparr>prop_chain_by_round := fmdrop (ax_round cx) (prop_chain_by_round cx)\<rparr>)"
      using ok(1) core_invD(4) [OF inv]
      by (intro core_inv_cong [OF inv]) (simp_all add: walk(2) ok(2) stored_sealed_def)
    moreover have "authentic E c p" using p(3) by (rule authentic_mono) (simp_all add: walk(2) ok(2))
    moreover have "lagged (Suc (ax_round c)) c" using lagged_commit [OF lag assms(2) s c] by (simp add: walk(2))
    ultimately show ?thesis using p(1,2) by (simp add: mid_round_def walk(2))
  qed
  have "fmmem (ax_round cx - ax_num_faults cx) (prop_chain_by_round cx)" using assms(2) unfolding dom by arith
  then obtain v where "fmlookup (prop_chain_by_round cx) (ax_round cx - ax_num_faults cx) = Some v" by (auto simp: fmmem_iff)
  then show "f \<in> apollo_faults" if "apollo_do_commit E cx = Inl f"
    using that assms(2) commit_chain_fault [OF s]
    by (auto simp: apollo_do_commit_def sub_u64_def rbind_Inl_iff apollo_faults_def)
qed

lemma keeps_receive:
  assumes "node_inv E cx" and "ap_round p = ax_round cx" and "authentic E cx p"
  shows "keeps E (apollo_on_receive_proposal E p b cx)"
proof (cases "apollo_equivocation b cx")
  case True
  with assms(1) show ?thesis by (simp add: apollo_on_receive_proposal_def)
next
  case False
  let ?a = "apollo_accept E p b (ax_round cx mod ax_num_nodes cx) cx"
  have mid: "mid_round E (ax_round ?a) ?a" using mid_round_accept [OF assms] by simp
  have step: "apollo_on_receive_proposal E p b cx =
      rbind (if ax_num_faults cx < ax_round cx then apollo_do_commit E ?a else Inr ?a)
        (\<lambda>c. apollo_update_round E (c\<lparr>ax_last_seen_block := b\<rparr>))"
    using False apollo_next_leader_ok [OF node_invD(1) [OF assms(1)]] by (simp add: apollo_on_receive_proposal_def)
  have update: "keeps E (apollo_update_round E (c\<lparr>ax_last_seen_block := b\<rparr>))" if "mid_round E (Suc (ax_round c)) c" for c
    using node_inv_update [OF _ refl] that by (simp add: mid_round_seen)
  show ?thesis
  proof (cases "ax_num_faults cx < ax_round cx")
    case True
    then have f: "ax_num_faults ?a < ax_round ?a" by simp
    show ?thesis
    proof (cases "apollo_do_commit E ?a")
      case (Inl e)
      with True mid_round_commit(2) [OF mid f] show ?thesis by (simp add: step)
    next
      case (Inr c)
      with True update [OF mid_round_commit(1) [OF mid f Inr]] show ?thesis by (simp add: step)
    qed
  next
    case f: False
    then have f': "ax_round ?a \<le> ax_num_faults ?a" by simp
    from mid have "lagged (Suc (ax_round ?a)) ?a" by (rule mid_roundE) (rule lagged_early [OF _ f'], blast+)
    with mid have "mid_round E (Suc (ax_round ?a)) ?a" by (simp add: mid_round_def)
    from update [OF this] f show ?thesis by (simp add: step)
  qed
qed

lemma keeps_try:
  assumes "node_inv E cx" and "delivered_block_from_hash (ax_storage cx) (ap_block_hash p) = Some b"
  shows "keeps E (apollo_try_receive_proposal E p b from cx)"
proof (cases "ap_round p = ax_round cx \<and> v_origin (ap_sig p) = ax_round_leader cx \<and> blk_author b = ax_round_leader cx")
  case False
  with assms(1) show ?thesis by (auto simp: apollo_try_receive_proposal_def block_get_author_def)
next
  case True
  let ?o = "v_origin (ap_sig p)"
  have lead: "?o = (ap_round p - 1) mod ax_num_nodes cx" "?o < ax_num_nodes cx"
    using node_invD(1) [OF assms(1)] True by (auto simp: leader_ok_def)
  have "\<exists>pk. fmlookup (nx_pub_key_map (ax_net cx)) ?o = Some pk" if "?o \<noteq> ax_myid cx"
    using node_invD(2) [OF assms(1) lead(2) that] by (simp add: fmmem_iff)
  moreover have "keeps E (apollo_on_receive_proposal E p b cx)"
    if "?o \<noteq> ax_myid cx \<longrightarrow> (\<exists>pk. fmlookup (nx_pub_key_map (ax_net cx)) ?o = Some pk \<and> Propose_check_sig E pk p)"
    using that assms True lead(1) by (intro keeps_receive) (auto simp: authentic_def)
  ultimately show ?thesis
    using True assms(1) by (auto simp: apollo_try_receive_proposal_def)
qed

lemma keeps_queue_or_try:
  assumes "node_inv E cx" and "delivered_block_from_hash (ax_storage cx) (ap_block_hash p) = Some b"
  shows "keeps E (apollo_queue_or_try E p b from cx)"
  using assms keeps_try by (simp add: apollo_queue_or_try_def)

section \<open>Delivering\<close>

lemma node_inv_unwait:
  "node_inv E cx \<Longrightarrow> node_inv E (cx\<lparr>prop_waiting_parent := fmdrop h (prop_waiting_parent cx)\<rparr>)"
  using node_invD(3,4) by (rule_tac node_inv_cong [of E cx]) (auto split: if_splits)

lemma keeps_children: "node_inv E cx \<Longrightarrow> keeps E (apollo_children E sender h cx)"
proof (induction E sender h cx rule: apollo_children.induct)
  case (1 E sender h cx)
  show ?case
  proof (cases "fmlookup (prop_waiting_parent cx) h")
    case None
    with 1(2) show ?thesis by (simp add: apollo_children.simps [of E sender h])
  next
    case (Some p)
    then obtain c where c: "delivered_block_from_hash (ax_storage cx) (ap_block_hash p) = Some c"
      using node_invD(7) [OF 1(2)] by (auto simp: is_delivered_iff)
    let ?cx = "cx\<lparr>prop_waiting_parent := fmdrop h (prop_waiting_parent cx)\<rparr>"
    have "keeps E (apollo_queue_or_try E p c sender ?cx)"
      using c node_inv_unwait [OF 1(2)] by (intro keeps_queue_or_try) simp_all
    then show ?thesis
      using Some c 1(1) [OF Some, of c] by (auto simp: apollo_children.simps [of E sender h cx] intro!: rkeeps_bind)
  qed
qed

lemma keeps_deliver_known:
  assumes "collision_free E" and "node_inv E cx" and "block_sealed E b \<or> delivered_block_from_hash (ax_storage cx) (blk_hash b) = Some b"
    and "ap_block_hash p = blk_hash b"
  shows "keeps E (apollo_deliver_known E sender p b cx)"
proof -
  have inv: "node_inv E (deliver_block b cx)"
  proof (cases "block_sealed E b")
    case True
    with assms(1,2) show ?thesis by (intro node_inv_deliver)
  next
    case False
    with assms(3) have d: "delivered_block_from_hash (ax_storage cx) (blk_hash b) = Some b" by simp
    then have fresh: "fresh_or_same block_get_hash b (ax_storage cx)" by (simp add: fresh_or_same_def block_get_hash_def)
    show ?thesis
    proof (rule node_inv_cong [OF assms(2)])
      show "storage_ok block_get_hash prev_of (ax_storage (deliver_block b cx))"
        using storage_ok_deliver [OF node_invD(3) [OF assms(2)] fresh] by simp
      show "stored_sealed E (ax_storage (deliver_block b cx))"
        using node_invD(4) [OF assms(2)] d by (auto simp: stored_sealed_def)
      show "delivered_block_from_hash (ax_storage (deliver_block b cx)) h = Some c"
        if "delivered_block_from_hash (ax_storage cx) h = Some c" for h c
        using that fresh by (auto simp: fresh_or_same_def)
    qed (simp_all add: deliver_block_def)
  qed
  let ?w = "(deliver_block b cx)\<lparr>prop_waiting_parent := fmupd (blk_prev b) p (prop_waiting_parent (deliver_block b cx))\<rparr>"
  have "node_inv E ?w"
    using node_invD(3,4) [OF inv]
    by (intro node_inv_cong [OF inv])
      (auto simp: assms(4) is_delivered_iff block_get_hash_def split: if_splits)
  moreover have "keeps E (apollo_queue_or_try E p b sender (deliver_block b cx))"
    using inv assms(4) by (intro keeps_queue_or_try) (simp_all add: block_get_hash_def)
  ultimately show ?thesis
    by (auto simp: apollo_deliver_known_def apollo_request_def Let_def intro!: rkeeps_bind keeps_children)
qed

lemma keeps_delivery_check:
  assumes "collision_free E" and "node_inv E cx" and "\<And>b ba. bb = Some (b, ba) \<Longrightarrow> block_sealed E b"
  shows "keeps E (apollo_delivery_check E sender p bb cx)"
proof (cases bb)
  case None
  have "ap_block_hash p = blk_hash b" if "delivered_block_from_hash (ax_storage cx) (ap_block_hash p) = Some b" for b
    using storage_okD(1) [OF node_invD(3) [OF assms(2)] that] by (simp add: block_get_hash_def)
  with None assms(2) keeps_deliver_known [OF assms(1,2)] show ?thesis
    by (fastforce simp: apollo_delivery_check_def apollo_request_def split: option.splits)
next
  case (Some e)
  obtain b ba where "e = (b, ba)" by (cases e)
  with Some assms show ?thesis
    by (auto simp: apollo_delivery_check_def intro!: keeps_deliver_known)
qed

section \<open>The replay of early proposals ends\<close>

text \<open>
  Either the round stays and its queue entry is not refilled, or the round advances and the
  backlog shrinks (\<open>strict\<close>) or at least does not grow.
\<close>

definition progress :: "bool \<Rightarrow> apollo_cx \<Rightarrow> apollo_cx \<Rightarrow> bool" where
  "progress strict cx cx' \<longleftrightarrow>
     (ax_round cx' = ax_round cx \<and> apollo_backlog cx' \<le> apollo_backlog cx + (if strict then 0 else 1) \<and>
        (fmlookup (future_msgs cx) (ax_round cx) = None \<longrightarrow> fmlookup (future_msgs cx') (ax_round cx') = None)) \<or>
     (ax_round cx < ax_round cx' \<and> apollo_backlog cx' + (if strict then 1 else 0) \<le> apollo_backlog cx)"

lemma fcard_fmupd_le: "fcard (fmdom (fmupd k v m)) \<le> Suc (fcard (fmdom m))"
  by (simp add: fcard_finsert_if)

lemma backlog_cong:
  "future_msgs c = future_msgs cx \<Longrightarrow> prop_waiting_parent c = prop_waiting_parent cx \<Longrightarrow> apollo_backlog c = apollo_backlog cx"
  by (simp add: apollo_backlog_def)

lemma progress_queue_or_try:
  assumes "apollo_queue_or_try E p b from cx = Inr cx'"
  shows "progress False cx cx' \<and> (ax_round cx' \<noteq> ax_round cx \<longrightarrow> apollo_backlog cx' = apollo_backlog cx)"
proof -
  note q = same_queues_queue_or_try [OF assms]
  have pwp: "prop_waiting_parent cx' = prop_waiting_parent cx" using q by (simp add: same_queues_def)
  from q consider "future_msgs cx' = future_msgs cx"
    | "ax_round cx' = ax_round cx" "ax_round cx < ap_round p" "future_msgs cx' = fmupd (ap_round p) (from, p) (future_msgs cx)"
    by blast
  then show ?thesis
  proof cases
    case 1
    with q pwp show ?thesis by (auto simp: progress_def apollo_backlog_def)
  next
    case 2
    then show ?thesis
      using pwp fcard_fmupd_le [of "ap_round p" "(from, p)" "future_msgs cx"] by (auto simp: progress_def apollo_backlog_def)
  qed
qed

lemma progress_trans:
  "progress True cx c \<Longrightarrow> progress True c cx' \<Longrightarrow> progress True cx cx'"
  "progress False cx c \<Longrightarrow> (ax_round c \<noteq> ax_round cx \<longrightarrow> apollo_backlog c \<le> apollo_backlog cx) \<Longrightarrow>
     progress True c cx' \<Longrightarrow> progress False cx cx'"
  unfolding progress_def by (auto split: if_splits)

lemma progress_children: "apollo_children E sender h cx = Inr cx' \<Longrightarrow> progress True cx cx'"
proof (induction E sender h cx rule: apollo_children.induct)
  case (1 E sender h cx)
  show ?case
  proof (cases "fmlookup (prop_waiting_parent cx) h")
    case None
    with 1(2) show ?thesis by (simp add: apollo_children.simps [of E sender h] progress_def)
  next
    case (Some p)
    let ?cx = "cx\<lparr>prop_waiting_parent := fmdrop h (prop_waiting_parent cx)\<rparr>"
    from 1(2) Some obtain b c where b: "delivered_block_from_hash (ax_storage cx) (ap_block_hash p) = Some b"
      and c: "apollo_queue_or_try E p b sender ?cx = Inr c" "apollo_children E sender (ap_block_hash p) c = Inr cx'"
      by (auto simp: apollo_children.simps [of E sender h cx])
    have "Suc (apollo_backlog ?cx) = apollo_backlog cx"
      using fcard_fmdrop_Suc [OF Some] by (simp add: apollo_backlog_def)
    with progress_queue_or_try [OF c(1)] have "progress True cx c"
      by (auto simp: progress_def split: if_splits)
    moreover have "progress True c cx'" using 1(1) [OF Some _ c(1) c(2)] b by simp
    ultimately show ?thesis by (rule progress_trans)
  qed
qed

lemma progress_deliver_known:
  assumes "apollo_deliver_known E sender p b cx = Inr cx'" and "fmlookup (future_msgs cx) (ax_round cx) = None"
  shows "ax_round cx' = ax_round cx \<and> fmlookup (future_msgs cx') (ax_round cx') = None \<or>
    ax_round cx < ax_round cx' \<and> apollo_backlog cx' \<le> apollo_backlog cx"
proof (cases "is_delivered_by_hash (ax_storage cx) (blk_prev b)")
  case False
  with assms show ?thesis
    by (auto simp: apollo_deliver_known_def apollo_request_def apollo_send_def deliver_block_def Let_def)
next
  case True
  with assms(1) obtain c where c: "apollo_queue_or_try E p b sender (deliver_block b cx) = Inr c"
      "apollo_children E sender (ap_block_hash p) (c\<lparr>prop_waiting := fmdrop (ap_block_hash p) (prop_waiting c)\<rparr>) = Inr cx'"
    by (auto simp: apollo_deliver_known_def Let_def)
  note q = progress_queue_or_try [OF c(1)]
  have "progress False (deliver_block b cx) cx'"
  proof (rule progress_trans(2))
    show "progress False (deliver_block b cx) c" using q by blast
    show "ax_round c \<noteq> ax_round (deliver_block b cx) \<longrightarrow> apollo_backlog c \<le> apollo_backlog (deliver_block b cx)"
      using q by simp
    show "progress True c cx'"
      using progress_children [OF c(2)] by (simp add: progress_def apollo_backlog_def)
  qed
  with assms(2) show ?thesis by (auto simp: progress_def apollo_backlog_def)
qed

lemma progress_delivery_check:
  assumes "apollo_delivery_check E sender p None cx = Inr cx'" and "fmlookup (future_msgs cx) (ax_round cx) = None"
  shows "ax_round cx' = ax_round cx \<and> fmlookup (future_msgs cx') (ax_round cx') = None \<or>
    ax_round cx < ax_round cx' \<and> apollo_backlog cx' \<le> apollo_backlog cx"
proof (cases "fmmem (ap_round p) (prop_chain_by_round cx) \<or> delivered_block_from_hash (ax_storage cx) (ap_block_hash p) = None")
  case True
  with assms show ?thesis
    by (auto simp: apollo_delivery_check_def apollo_request_def apollo_send_def split: if_splits)
next
  case False
  then obtain b where "delivered_block_from_hash (ax_storage cx) (ap_block_hash p) = Some b" by auto
  with False assms progress_deliver_known [of E sender p b cx cx'] show ?thesis
    by (simp add: apollo_delivery_check_def)
qed

lemma keeps_replay:
  assumes "collision_free E" and "node_inv E cx" and "fmlookup (future_msgs cx) (ax_round cx) = None \<or> apollo_backlog cx < fuel"
  shows "keeps E (apollo_replay E fuel cx)"
  using assms(2,3)
proof (induction fuel arbitrary: cx)
  case 0
  then show ?case by (simp add: apollo_replay.simps [of E 0])
next
  case (Suc n)
  show ?case
  proof (cases "fmlookup (future_msgs cx) (ax_round cx)")
    case None
    with Suc.prems show ?thesis by (simp add: apollo_replay.simps [of E "Suc n"])
  next
    case (Some e)
    obtain sender p where e: "e = (sender, p)" by (cases e)
    let ?cx = "cx\<lparr>future_msgs := fmdrop (ax_round cx) (future_msgs cx)\<rparr>"
    have keep: "keeps E (apollo_delivery_check E sender p None ?cx)"
      using assms(1) Suc.prems(1) by (intro keeps_delivery_check) simp_all
    have small: "Suc (apollo_backlog ?cx) = apollo_backlog cx"
      using fcard_fmdrop_Suc [OF Some] by (simp add: apollo_backlog_def)
    show ?thesis
      using keep Some e
    proof (simp add: apollo_replay.simps [of E "Suc n" cx], intro rkeeps_bind)
      fix c assume c: "apollo_delivery_check E sender p None ?cx = Inr c" and "node_inv E c"
      have "fmlookup (future_msgs c) (ax_round c) = None \<or> apollo_backlog c < n"
        using progress_delivery_check [OF c] small Suc.prems(2) Some by auto
      with Suc.IH \<open>node_inv E c\<close> show "keeps E (apollo_replay E n c)" by blast
    qed
  qed
qed

section \<open>The reactor\<close>

lemma keeps_process:
  assumes "collision_free E" and "node_inv E cx"
  shows "keeps E (apollo_process_message E cx)"
proof -
  have dry: "node_inv E (c\<lparr>prop_buf := []\<rparr>)" "node_inv E (c\<lparr>ax_other_buf := []\<rparr>)" if "node_inv E c" for c
    using node_invD(3,4) [OF that] by (auto intro!: node_inv_cong [OF that])
  have other: "keeps E (apollo_handle_other E m c)" if "m \<in> set (ax_other_buf d)" "node_inv E d" "node_inv E c" for m c d
    using node_invD(9) [OF that(2,1)] that(3)
    by (auto simp: apollo_handle_other_def apollo_on_receive_blame_def apollo_faults_def apollo_on_recv_request_def Let_def
        split: option.splits prod.splits)
  have props: "keeps E ((\<lambda>(sender, p, b, batch). apollo_delivery_check E sender p (Some (b, batch))) x c)"
    if "x \<in> set (prop_buf cx)" "node_inv E c" for x c
  proof -
    obtain s p b ba where x: "x = (s, p, b, ba)" by (metis prod.exhaust)
    then have "block_sealed E b" using that(1) node_invD(8) [OF assms(2)] by blast
    then show ?thesis using keeps_delivery_check [OF assms(1) that(2), of "Some (b, ba)"] by (simp add: x)
  qed
  have relays: "keeps E ((\<lambda>(sender, p). apollo_delivery_check E sender p None) x c)" if "node_inv E c" for x c
    using that assms(1) by (cases x) (auto intro!: keeps_delivery_check)
  show ?thesis
    unfolding apollo_process_message_def
  proof (intro rkeeps_bind)
    show "keeps E (rfold (\<lambda>(sender, p, b, batch). apollo_delivery_check E sender p (Some (b, batch))) (prop_buf cx) (cx\<lparr>prop_buf := []\<rparr>))"
      using props dry(1) [OF assms(2)] by (intro rkeeps_rfold)
    show "keeps E (rfold (\<lambda>(sender, p). apollo_delivery_check E sender p None) (relay_buf c) (c\<lparr>relay_buf := []\<rparr>))"
      if "node_inv E c" for c using that relays by (intro rkeeps_rfold) simp_all
    show "keeps E (rfold (apollo_handle_other E) (ax_other_buf c) (c\<lparr>ax_other_buf := []\<rparr>))" if "node_inv E c" for c
      using that dry(2) [OF that] other by (intro rkeeps_rfold) blast+
    show "keeps E (apollo_replay E (2 * apollo_backlog c + 2) c)" if "node_inv E c" for c
      using that assms(1) by (intro keeps_replay) simp_all
  qed
qed

lemma keeps_propose:
  assumes "collision_free E" and "node_inv E cx" and "ax_round_leader cx = ax_myid cx"
  shows "keeps E (apollo_do_propose E bh batch cx)"
proof (cases "apollo_new_block E bh cx")
  case (Inl f)
  then have "f = Overflow" by (auto simp: apollo_new_block_def Let_def rbind_Inl_iff add_u64_Inl_iff)
  with Inl show ?thesis by (simp add: apollo_do_propose_def apollo_faults_def)
next
  case (Inr nb)
  have nb: "block_sealed E nb" "blk_author nb = ax_myid cx"
    using Inr by (auto simp: apollo_new_block_def Let_def) (simp add: block_init_def)
  let ?q = "\<lparr>ap_sig = \<lparr>v_origin = ax_myid cx, v_auth = []\<rparr>, ap_round = ax_round cx, ap_block_hash = blk_hash nb\<rparr>"
  show ?thesis
  proof (cases "sk_sign E (nx_my_secret_key (ax_net cx)) (blk_hash nb)")
    case None
    with Inr show ?thesis
      by (simp add: apollo_do_propose_def Propose_sign_def Propose_new_def Let_def apollo_faults_def)
  next
    case (Some auth)
    let ?p = "\<lparr>ap_sig = \<lparr>v_origin = ax_myid cx, v_auth = auth\<rparr>, ap_round = ax_round cx, ap_block_hash = blk_hash nb\<rparr>"
    let ?c = "deliver_block nb (apollo_notify (Proposed batch (ax_round cx)) (apollo_multicast E (ApNewProposal ?p nb batch) cx))"
    have "apollo_do_propose E bh batch cx = apollo_on_receive_proposal E ?p nb ?c"
      using Some by (simp add: apollo_do_propose_def Inr Propose_sign_def Propose_new_def Let_def apollo_multicast_def)
    moreover have "node_inv E ?c" using assms(1,2) nb(1) by (intro node_inv_deliver) simp_all
    moreover have "authentic E ?c ?p"
      using assms(3) nb(2) node_invD(1) [OF assms(2)]
      by (simp add: authentic_def block_get_hash_def leader_ok_def apollo_multicast_def apollo_notify_def)
    ultimately show ?thesis
      using keeps_receive [of E ?c ?p nb] by (simp add: apollo_multicast_def apollo_notify_def)
  qed
qed

lemma keeps_drain: "collision_free E \<Longrightarrow> node_inv E cx \<Longrightarrow> keeps E (apollo_drain E cx)"
proof (induction E cx rule: apollo_drain.induct)
  case (1 E cx)
  show ?case
  proof (cases "ax_round_leader cx = ax_myid cx \<and> bx_pending (ax_batch cx) \<noteq> []")
    case False
    with 1(3) show ?thesis by (auto simp: apollo_drain.simps [of E cx] split: list.splits)
  next
    case True
    then obtain bh ba rest where pend: "bx_pending (ax_batch cx) = (bh, ba) # rest" by (cases "bx_pending (ax_batch cx)") auto
    have "keeps E (apollo_do_propose E bh ba (cx\<lparr>ax_batch := (ax_batch cx)\<lparr>bx_pending := rest\<rparr>\<rparr>))"
      using 1 True by (intro keeps_propose) simp_all
    then show ?thesis
      using True pend 1(1) [OF _ pend refl] 1(2) by (auto simp: apollo_drain.simps [of E cx] intro!: rkeeps_bind)
  qed
qed

text \<open>Blocks that arrive over the network went through \<open>Deserialize\<close> and carry their own hash.\<close>

fun msg_sealed :: "ext \<Rightarrow> apollo_msg \<Rightarrow> bool" where
  "msg_sealed E (ApNewProposal p b ba) = block_sealed E b"
| "msg_sealed E (ApResponse f r p b ba) = block_sealed E b"
| "msg_sealed E _ = True"

fun event_sealed :: "ext \<Rightarrow> apollo_event \<Rightarrow> bool" where
  "event_sealed E (ApNet msgs) = list_all (msg_sealed E) msgs"
| "event_sealed E _ = True"

lemma node_inv_handle:
  assumes "node_inv E cx" and "msg_sealed E m"
  shows "node_inv E (apollo_handle_message m cx)"
proof -
  have lag: "lagged (ax_round cx) (cx\<lparr>prop_buf := x\<rparr>)" "lagged (ax_round cx) (cx\<lparr>ax_other_buf := y\<rparr>)" for x y
    using assms(1) by (simp_all add: node_inv_def lagged_def settled_def)
  have buf: "core_inv E (cx\<lparr>prop_buf := prop_buf cx @ [(s, p, b, ba)]\<rparr>)" if "block_sealed E b" for s p b ba
    using node_invD [OF assms(1)] that
    by (intro core_invI) (auto simp: leader_ok_def intro: authentic_mono [of E cx])
  have oth: "core_inv E (cx\<lparr>ax_other_buf := ax_other_buf cx @ [x]\<rparr>)" if "(\<exists>f r h. x = ApRequest f r h) \<or> (\<exists>v. x = ApBlame v)" for x
  proof (intro core_invI)
    fix m assume "m \<in> set (ax_other_buf (cx\<lparr>ax_other_buf := ax_other_buf cx @ [x]\<rparr>))"
    then consider "m = x" | "m \<in> set (ax_other_buf cx)" by auto
    then show "(\<exists>f r h. m = ApRequest f r h) \<or> (\<exists>v. m = ApBlame v)"
      using that node_invD(9) [OF assms(1)] by cases blast+
  qed (use node_invD [OF assms(1)] in \<open>auto simp: leader_ok_def intro: authentic_mono [of E cx]\<close>)
  have "node_inv E (cx\<lparr>prop_buf := prop_buf cx @ [(s, p, b, ba)]\<rparr>)" if "block_sealed E b" for s p b ba
    using buf [OF that] lag(1) by (simp add: node_inv_def)
  moreover have "node_inv E (cx\<lparr>ax_other_buf := ax_other_buf cx @ [x]\<rparr>)" if "(\<exists>f r h. x = ApRequest f r h) \<or> (\<exists>v. x = ApBlame v)" for x
    using oth [OF that] lag(2) by (simp add: node_inv_def)
  ultimately show ?thesis using assms by (cases m) (auto simp: apollo_handle_message_def)
qed

lemma node_inv_handle_all:
  "node_inv E cx \<Longrightarrow> list_all (msg_sealed E) ms \<Longrightarrow> node_inv E (fold apollo_handle_message ms cx)"
  by (induction ms arbitrary: cx) (auto intro: node_inv_handle)

definition keeps_outcome :: "ext \<Rightarrow> apollo_cx reactor_outcome res \<Rightarrow> bool" where
  "keeps_outcome E r \<longleftrightarrow> (case r of Inr (Continue cx) \<Rightarrow> node_inv E cx | Inr _ \<Rightarrow> True | Inl f \<Rightarrow> f \<in> apollo_faults)"

lemma keeps_outcome_bind: "keeps E r \<Longrightarrow> keeps_outcome E (rbind r (\<lambda>cx. Inr (Continue cx)))"
  by (cases r) (simp_all add: keeps_outcome_def)

lemma keeps_reactor_step:
  assumes "collision_free E" and "node_inv E cx" and "event_sealed E ev"
  shows "keeps_outcome E (apollo_reactor_step E ev cx)"
proof (cases ev)
  case (ApNet msgs)
  have "keeps E (apollo_process_message E (fold apollo_handle_message msgs cx))"
    using assms ApNet by (intro keeps_process node_inv_handle_all) simp_all
  then have "keeps E (rbind (apollo_process_message E (fold apollo_handle_message msgs cx)) (apollo_drain E))"
    by (rule rkeeps_bind) (rule keeps_drain [OF assms(1)])
  then show ?thesis
    using keeps_outcome_bind ApNet
    by (cases "apollo_process_message E (fold apollo_handle_message msgs cx)") (auto simp: apollo_reactor_step_def keeps_outcome_def)
next
  case ApTick
  then show ?thesis
    unfolding apollo_reactor_step_def apollo_event.case
    using assms(2) by (auto intro!: keeps_outcome_bind keeps_drain [OF assms(1)])
next
  case (ApBatchReady bh ba)
  then show ?thesis
    unfolding apollo_reactor_step_def using assms(2) by (auto intro!: keeps_outcome_bind keeps_drain [OF assms(1)])
qed (use assms(2) in \<open>simp_all add: apollo_reactor_step_def keeps_outcome_def\<close>)

section \<open>The node as a step system\<close>

text \<open>
  A step is one iteration of the reactor, or the mempool installing a batch in the cache it
  shares with the node.
\<close>

inductive apollo_step :: "ext \<Rightarrow> apollo_cx \<Rightarrow> apollo_cx \<Rightarrow> bool" for E where
  apollo_reacts: "event_sealed E ev \<Longrightarrow> apollo_reactor_step E ev cx = Inr (Continue cx') \<Longrightarrow> apollo_step E cx cx'"
| apollo_caches: "apollo_step E cx (cx\<lparr>ax_batch := (ax_batch cx)\<lparr>bx_cache := cache_insert h b (bx_cache (ax_batch cx))\<rparr>\<rparr>)"

inductive_cases apollo_stepE: "apollo_step E cx cx'"

definition apollo_init :: "ext \<Rightarrow> apollo_cx \<Rightarrow> bool" where
  "apollo_init E cx \<longleftrightarrow>
     (\<exists>config pks cache st. config_ok config pks \<and> apollo_reactor_start E config pks cache st = Inr cx)"

lemma node_inv_start:
  assumes "apollo_init E cx"
  shows "node_inv E cx"
proof -
  obtain config pks cache st where ok: "config_ok config pks" and start: "apollo_reactor_start E config pks cache st = Inr cx"
    using assms by (auto simp: apollo_init_def)
  have chain: "chain_inv E [] cx" using chain_inv_start [OF start] ok by (simp add: config_ok_def)
  from start obtain m where m: "decode_keys E (nc_crypto_alg config) (nc_id config) pks = Inr m"
      "nx_pub_key_map (ax_net cx) = m" "ax_num_nodes cx = nc_num_nodes config" "ax_myid cx = nc_id config"
      "prop_chain_by_round cx = fmempty" "prop_waiting_parent cx = fmempty" "prop_buf cx = []" "ax_other_buf cx = []"
    by (auto simp: apollo_reactor_start_def apollo_Context_new_def net_new_def apollo_notify_def deliver_block_def Let_def)
  have "fmmem i m" if "i < nc_num_nodes config" "i \<noteq> nc_id config" for i
    using that ok decode_keys_lookup [OF m(1)] by (auto simp: config_ok_def)
  then have "core_inv E cx" using chain m by (intro core_invI) (auto simp: chain_inv_def)
  moreover have "lagged (ax_round cx) cx" using chain m(5) by (simp add: chain_inv_def committed_prefix_def lagged_def settled_def)
  ultimately show ?thesis by (simp add: node_inv_def)
qed

lemma apollo_system: "collision_free E \<Longrightarrow> step_system (apollo_init E) (apollo_step E) (node_inv E)"
proof (unfold_locales, goal_cases)
  case (1 cx)
  then show ?case by (simp add: node_inv_start)
next
  case (2 cx cx')
  from 2(3) show ?case
  proof (cases rule: apollo_step.cases)
    case (apollo_reacts ev)
    with keeps_reactor_step [OF 2(1,2)] show ?thesis by (fastforce simp: keeps_outcome_def)
  next
    case (apollo_caches h b)
    with 2(2) show ?thesis by simp
  qed
qed

lemma apollo_reachable_inv:
  "collision_free E \<Longrightarrow> apollo_init E cx0 \<Longrightarrow> (apollo_step E)\<^sup>*\<^sup>* cx0 cx \<Longrightarrow> node_inv E cx"
  using step_system.inv_reachable [OF apollo_system] by blast

text \<open>
  Two nodes and what they have committed: a settled round of one is settled at the other when that
  is not behind, blocks both have committed are equal, and so are their ancestors.
\<close>

lemma settled_committed:
  "node_inv E cx \<Longrightarrow> settled (ax_round cx) cx r p \<Longrightarrow> is_committed_by_hash (ax_storage cx) (ap_block_hash p)"
  by (simp add: node_inv_def lagged_def)

lemma committed_settled:
  assumes "node_inv E cx" and "is_committed_by_hash (ax_storage cx) h"
  shows "\<exists>r p. settled (ax_round cx) cx r p \<and> (parent_step prev_of (ax_storage cx))\<^sup>*\<^sup>* (ap_block_hash p) h"
  using assms by (simp add: node_inv_def lagged_def)

lemma settled_elsewhere:
  assumes "node_inv E c" and "node_inv E d" and "ax_num_faults c = ax_num_faults d" and "ax_round c \<le> ax_round d"
    and "settled (ax_round c) c r p"
  shows "\<exists>q. settled (ax_round d) d r q"
proof -
  have "1 \<le> r" using node_invD(5) [OF assms(1), of r] assms(5) by (auto simp: settled_def fmmem_iff)
  moreover have "r + ax_num_faults d < ax_round d" using assms(3-5) by (simp add: settled_def)
  ultimately show ?thesis using node_invD(5) [OF assms(2), of r] by (auto simp: settled_def fmmem_iff)
qed

lemma common_block:
  assumes "collision_free E" and "node_inv E c" and "node_inv E d"
    and "is_committed_by_hash (ax_storage c) h" and "is_committed_by_hash (ax_storage d) h"
  shows "\<exists>b. delivered_block_from_hash (ax_storage c) h = Some b \<and> delivered_block_from_hash (ax_storage d) h = Some b"
proof -
  note sc = storage_okD [OF node_invD(3) [OF assms(2)]] and sd = storage_okD [OF node_invD(3) [OF assms(3)]]
  obtain b b' where b: "delivered_block_from_hash (ax_storage c) h = Some b" "delivered_block_from_hash (ax_storage d) h = Some b'"
    using sc(2) [OF assms(4)] sd(2) [OF assms(5)] by (auto simp: is_delivered_iff)
  then have hash: "blk_hash b = h" "blk_hash b' = h" using sc(1) sd(1) by (auto simp: block_get_hash_def)
  have "x = y" if "x = GENESIS_BLOCK E \<or> block_sealed E x" "y = GENESIS_BLOCK E \<or> block_sealed E y" "blk_hash x = blk_hash y" for x y
    using that sealed_collision [OF assms(1)] sealed_not_empty [OF assms(1), of x] sealed_not_empty [OF assms(1), of y]
    by (auto simp: GENESIS_BLOCK_def)
  moreover have "b = GENESIS_BLOCK E \<or> block_sealed E b" "b' = GENESIS_BLOCK E \<or> block_sealed E b'"
    using node_invD(4) [OF assms(2)] node_invD(4) [OF assms(3)] b by (auto simp: stored_sealed_def)
  ultimately show ?thesis using b hash by metis
qed

lemma common_ancestors:
  assumes "collision_free E" and "node_inv E c" and "node_inv E d" and "(parent_step prev_of (ax_storage c))\<^sup>*\<^sup>* k h"
    and "is_committed_by_hash (ax_storage c) k" and "is_committed_by_hash (ax_storage d) k"
  shows "is_committed_by_hash (ax_storage c) h \<and> is_committed_by_hash (ax_storage d) h"
  using assms(4)
proof induction
  case base
  with assms(5,6) show ?case by simp
next
  case (step h h')
  from step.hyps(2) obtain b where b: "delivered_block_from_hash (ax_storage c) h = Some b" "prev_of b = h'"
    by (auto simp: parent_step_def)
  with common_block [OF assms(1-3)] step.IH have "delivered_block_from_hash (ax_storage d) h = Some b" by force
  with b step.IH storage_okD(3) [OF node_invD(3) [OF assms(2)]] storage_okD(3) [OF node_invD(3) [OF assms(3)]]
  show ?case by blast
qed

section \<open>Properties\<close>

text \<open>
  C5: Authenticity of the other leaders' rounds. Whatever messages a node receives and in whatever
  order, exactly the rounds before the current one have a recorded proposal; each is for its round,
  carries the id of the round's leader (round robin, replica 0 first) and names a delivered block
  whose author field is that leader; in a round led by another replica it has a valid signature of
  that replica over the block hash, under the key the node was configured with. Rounds the node
  leads itself are exempt from the signature: \<open>try_receive_proposal\<close> does not check a proposal
  that carries the node's own id (\<open>apollo_own_proposal_unchecked\<close>). And the parent of a committed
  block is committed.
\<close>
theorem apollo_accepted_authentic:
  assumes "collision_free E" and "apollo_init E cx0" and "(apollo_step E)\<^sup>*\<^sup>* cx0 cx"
  shows "(\<forall>r. fmmem r (prop_chain_by_round cx) \<longleftrightarrow> 1 \<le> r \<and> r < ax_round cx) \<and>
    (\<forall>r p. fmlookup (prop_chain_by_round cx) r = Some p \<longrightarrow>
       ap_round p = r \<and> v_origin (ap_sig p) = (r - 1) mod ax_num_nodes cx \<and>
       (v_origin (ap_sig p) \<noteq> ax_myid cx \<longrightarrow> (\<exists>pk. fmlookup (nx_pub_key_map (ax_net cx)) (v_origin (ap_sig p)) = Some pk \<and>
          pk_verify E pk (ap_block_hash p) (v_auth (ap_sig p)))) \<and>
       (\<exists>b. delivered_block_from_hash (ax_storage cx) (ap_block_hash p) = Some b \<and> blk_author b = v_origin (ap_sig p))) \<and>
    (\<forall>h b. is_committed_by_hash (ax_storage cx) h \<longrightarrow> delivered_block_from_hash (ax_storage cx) h = Some b \<longrightarrow>
       is_committed_by_hash (ax_storage cx) (blk_prev b))"
proof -
  note inv = apollo_reachable_inv [OF assms]
  have dom: "fmmem r (prop_chain_by_round cx) \<longleftrightarrow> 1 \<le> r \<and> r < ax_round cx" for r using node_invD(5) [OF inv] .
  have auth: "ap_round p = r \<and> authentic E cx p" if "fmlookup (prop_chain_by_round cx) r = Some p" for r p
    using node_invD(6) [OF inv that] .
  have com: "is_committed_by_hash (ax_storage cx) (blk_prev b)"
    if "is_committed_by_hash (ax_storage cx) h" "delivered_block_from_hash (ax_storage cx) h = Some b" for h b
    using storage_okD(3) [OF node_invD(3) [OF inv] that] by simp
  have each: "ap_round p = r \<and> v_origin (ap_sig p) = (r - 1) mod ax_num_nodes cx \<and>
       (v_origin (ap_sig p) \<noteq> ax_myid cx \<longrightarrow> (\<exists>pk. fmlookup (nx_pub_key_map (ax_net cx)) (v_origin (ap_sig p)) = Some pk \<and>
          pk_verify E pk (ap_block_hash p) (v_auth (ap_sig p)))) \<and>
       (\<exists>b. delivered_block_from_hash (ax_storage cx) (ap_block_hash p) = Some b \<and> blk_author b = v_origin (ap_sig p))"
    if "fmlookup (prop_chain_by_round cx) r = Some p" for r p
    using auth [OF that] unfolding authentic_def Propose_check_sig_def by blast
  from dom each com show ?thesis by blast
qed

text \<open>
  C18: The faults that exist. In every reachable state and for every event, an iteration of the
  reactor either returns or ends in one of four faults: a \<open>Blame\<close> message was received, a commit
  walk met a parent that was never delivered, the node's key did not sign, or a 64-bit counter
  overflowed. In particular the loops over waiting and early proposals end, the public key of the
  leader is always found, and a waiting child block is always in the store.
\<close>
theorem apollo_possible_faults:
  assumes "collision_free E" and "apollo_init E cx0" and "(apollo_step E)\<^sup>*\<^sup>* cx0 cx" and "event_sealed E ev"
    and "apollo_reactor_step E ev cx = Inl f"
  shows "f \<in> {Panic ''Received a blame message'', Panic ''called Option::unwrap on a None value'',
    Panic ''Failed to sign a block'', Overflow}"
  using keeps_reactor_step [OF assms(1) apollo_reachable_inv [OF assms(1-3)] assms(4)] assms(5)
  by (simp add: keeps_outcome_def apollo_faults_def)

text \<open>
  A node does not check the signature of a proposal that carries its own id. In a round the node
  leads and has not proposed in, whoever sends a block with the node's id as author, over the last
  block seen, and a proposal with the node's id as origin has it accepted as the block of that
  round, whatever the signature bytes \<open>auth\<close> are.
\<close>
theorem apollo_own_proposal_unchecked:
  assumes "collision_free E" and "hash_acyclic E" and "chain_inv E bs cx" and "ax_round_leader cx = ax_myid cx"
    and "block_sealed E b" and "blk_author b = ax_myid cx" and "blk_prev b = blk_hash (ax_last_seen_block cx)"
    and "apollo_check_batch_hash E b batch" and "fmlookup (prop_waiting_parent cx) (blk_hash b) = None" and "ax_round cx + 1 < 2 ^ 64"
  shows "\<exists>cx'. apollo_delivery_check E sender
       \<lparr>ap_sig = \<lparr>v_origin = ax_myid cx, v_auth = auth\<rparr>, ap_round = ax_round cx, ap_block_hash = blk_hash b\<rparr> (Some (b, batch)) cx = Inr cx' \<and>
     chain_inv E (bs @ [b]) cx'"
  using assms by (intro apollo_delivery_refines) (simp_all add: acceptable_def)

text \<open>
  C32: Agreement. Take two nodes in reachable states, with the same number of faults, the first not
  ahead of the second, that recorded proposals for the same block hashes in the rounds the first
  one has settled (those more than \<open>num_faults\<close> rounds behind it). Then whatever the first node has
  committed, the second has committed too, and both hold the same block under that hash; and the
  block of every settled round is among the committed ones, so the commit of a round is never
  skipped.
\<close>
theorem apollo_agreement:
  assumes ext: "collision_free E" and one: "apollo_init E c0" "(apollo_step E)\<^sup>*\<^sup>* c0 c"
    and two: "apollo_init E d0" "(apollo_step E)\<^sup>*\<^sup>* d0 d"
    and faults: "ax_num_faults c = ax_num_faults d" and behind: "ax_round c \<le> ax_round d"
    and props: "\<And>r p q. r + ax_num_faults c < ax_round c \<Longrightarrow> fmlookup (prop_chain_by_round c) r = Some p \<Longrightarrow>
      fmlookup (prop_chain_by_round d) r = Some q \<Longrightarrow> ap_block_hash p = ap_block_hash q"
  shows "(\<forall>h. is_committed_by_hash (ax_storage c) h \<longrightarrow> is_committed_by_hash (ax_storage d) h \<and>
       (\<exists>b. delivered_block_from_hash (ax_storage c) h = Some b \<and> delivered_block_from_hash (ax_storage d) h = Some b)) \<and>
    (\<forall>r. 1 \<le> r \<longrightarrow> r + ax_num_faults c < ax_round c \<longrightarrow>
       (\<exists>p. fmlookup (prop_chain_by_round c) r = Some p \<and> is_committed_by_hash (ax_storage c) (ap_block_hash p)))"
proof (intro conjI allI impI)
  note c = apollo_reachable_inv [OF ext one] and d = apollo_reachable_inv [OF ext two]
  show "\<exists>p. fmlookup (prop_chain_by_round c) r = Some p \<and> is_committed_by_hash (ax_storage c) (ap_block_hash p)"
    if "1 \<le> r" "r + ax_num_faults c < ax_round c" for r
    using settled_committed [OF c] node_invD(5) [OF c, of r] that by (auto simp: fmmem_iff settled_def)
  fix h assume h: "is_committed_by_hash (ax_storage c) h"
  from committed_settled [OF c h] obtain r p where p: "settled (ax_round c) c r p"
    and path: "(parent_step prev_of (ax_storage c))\<^sup>*\<^sup>* (ap_block_hash p) h" by blast
  from settled_elsewhere [OF c d faults behind p] obtain q where q: "settled (ax_round d) d r q" by blast
  then have "ap_block_hash q = ap_block_hash p" using props p by (metis settled_def)
  then have "is_committed_by_hash (ax_storage c) (ap_block_hash p)" "is_committed_by_hash (ax_storage d) (ap_block_hash p)"
    using settled_committed [OF c p] settled_committed [OF d q] by simp_all
  from common_ancestors [OF ext c d path this]
  show "is_committed_by_hash (ax_storage d) h" by blast
  with common_block [OF ext c d h] show "\<exists>b. delivered_block_from_hash (ax_storage c) h = Some b \<and>
      delivered_block_from_hash (ax_storage d) h = Some b" by blast
qed

text \<open>
  C33: A directly delivered equivocation is not noticed. A node that already has a different block
  \<open>x\<close> of the same leader at the same height, and that is handed the leader's other block \<open>b\<close> over
  the last block seen, accepts \<open>b\<close>: \<open>delivery_check\<close> files \<open>b\<close> under its height before it tries the
  proposal, in the place the check then looks at. (A proposal that waited for its parent is tried
  later, when another block may have been filed at its height: there the check can fire.)
\<close>
theorem apollo_equivocation_undetected:
  assumes "collision_free E" and "hash_acyclic E" and "chain_inv E bs cx" and "acceptable E p b batch cx"
    and "ax_round cx + 1 < 2 ^ 64" and "delivered_block_from_ht (ax_storage cx) (blk_height b) = Some x"
    and "blk_hash x \<noteq> blk_hash b" and "blk_author x = blk_author b"
  shows "apollo_equivocation b cx \<and>
    (\<exists>cx'. apollo_delivery_check E sender p (Some (b, batch)) cx = Inr cx' \<and> chain_inv E (bs @ [b]) cx')"
  using apollo_delivery_refines [OF assms(1-5)] assms(6-8) by (simp add: apollo_equivocation_def)

text \<open>
  The round of a proposal is not authenticated. If a node has recorded a proposal of some
  leader, the same signature passes all checks with the round replaced by the current round,
  whenever that leader leads again: the old block is accepted as the block of the new round.
\<close>
theorem apollo_proposal_replay:
  assumes "collision_free E" and "apollo_init E cx0" and "(apollo_step E)\<^sup>*\<^sup>* cx0 cx"
    and "fmlookup (prop_chain_by_round cx) r = Some p" and "v_origin (ap_sig p) = ax_round_leader cx"
    and "delivered_block_from_hash (ax_storage cx) (ap_block_hash p) = Some b"
  shows "let p' = p\<lparr>ap_round := ax_round cx\<rparr>
    in \<not> fmmem (ap_round p') (prop_chain_by_round cx) \<and> \<not> apollo_equivocation b (deliver_block b cx) \<and>
       apollo_try_receive_proposal E p' b sender (deliver_block b cx) =
         apollo_on_receive_proposal E p' b (deliver_block b cx)"
proof -
  note inv = apollo_reachable_inv [OF assms(1-3)]
  have auth: "authentic E cx p" using node_invD(6) [OF inv assms(4)] by simp
  have "blk_hash b = ap_block_hash p"
    using storage_okD(1) [OF node_invD(3) [OF inv] assms(6)] by (simp add: block_get_hash_def)
  moreover have "blk_author b = v_origin (ap_sig p)" using auth assms(6) by (simp add: authentic_def)
  moreover have "\<exists>pk. fmlookup (nx_pub_key_map (ax_net cx)) (v_origin (ap_sig p)) = Some pk \<and> Propose_check_sig E pk p"
    if "v_origin (ap_sig p) \<noteq> ax_myid cx" using auth that unfolding authentic_def by blast
  moreover have "Propose_check_sig E pk (p\<lparr>ap_round := r'\<rparr>) = Propose_check_sig E pk p" for pk r'
    by (simp add: Propose_check_sig_def)
  moreover have "\<not> fmmem (ax_round cx) (prop_chain_by_round cx)" using node_invD(5) [OF inv] by simp
  ultimately show ?thesis
    using assms(5)
    by (auto simp: apollo_try_receive_proposal_def Let_def block_get_author_def apollo_equivocation_def block_get_height_def)
qed

section \<open>Witnesses\<close>

lemma sample_apollo_init: "me \<in> {0, 1} \<Longrightarrow> apollo_init sample_ext (sample_apollo me)"
  unfolding apollo_init_def using sample_apollo_start(1) [of me]
  by (intro exI [of _ "sample_config me"] exI [of _ sample_pks] exI [of _ fmempty] conjI)
    (auto simp: config_ok_def sample_config_def sample_pks_def)

lemma sample_apollo_buffers:
  "prop_buf (sample_apollo 1) = []" "relay_buf (sample_apollo 1) = []" "ax_other_buf (sample_apollo 1) = []"
  by (simp_all add: sample_apollo_def sample_node_defs apollo_reactor_start_def apollo_Context_new_def
      apollo_notify_def deliver_block_def Let_def upt_conv_Cons)

text \<open>
  A system of two replicas without faults: replica 0 proposes the first block and commits it, and
  replica 1 commits it when the proposal arrives.
\<close>

definition pair_config :: "replica \<Rightarrow> node_config" where
  "pair_config me = (sample_config me)\<lparr>nc_num_nodes := 2, nc_num_faults := 0\<rparr>"

definition pair_apollo :: "replica \<Rightarrow> apollo_cx" where
  "pair_apollo me = projr (apollo_reactor_start sample_ext (pair_config me) sample_pks fmempty fmempty)"

lemma pair_apollo_start:
  assumes "me \<in> {0, 1}"
  shows "apollo_reactor_start sample_ext (pair_config me) sample_pks fmempty fmempty = Inr (pair_apollo me)"
    and "ax_myid (pair_apollo me) = me" and "nx_my_secret_key (ax_net (pair_apollo me)) = [word_of_nat me]"
    and "ax_round (pair_apollo me) = 1" and "ax_round_leader (pair_apollo me) = 0"
    and "ax_last_seen_block (pair_apollo me) = GENESIS_BLOCK sample_ext" and "prop_waiting_parent (pair_apollo me) = fmempty"
    and "ax_num_nodes (pair_apollo me) = 2" and "ax_num_faults (pair_apollo me) = 0"
    and "bx_pending (ax_batch (pair_apollo me)) = []" and "future_msgs (pair_apollo me) = fmempty"
    and "prop_buf (pair_apollo me) = []" and "relay_buf (pair_apollo me) = []" and "ax_other_buf (pair_apollo me) = []"
    and "me = 1 \<Longrightarrow> fmlookup (nx_pub_key_map (ax_net (pair_apollo me))) 0 = Some [0]"
  using assms
  by (auto simp: pair_apollo_def pair_config_def sample_node_defs apollo_reactor_start_def apollo_Context_new_def
      apollo_notify_def deliver_block_def batch_ctx_new_def Let_def upt_conv_Cons)

lemma pair_apollo_init: "me \<in> {0, 1} \<Longrightarrow> apollo_init sample_ext (pair_apollo me)"
  unfolding apollo_init_def using pair_apollo_start(1) [of me]
  by (intro exI [of _ "pair_config me"] exI [of _ sample_pks] exI [of _ fmempty] conjI)
    (auto simp: config_ok_def pair_config_def sample_config_def sample_pks_def)

lemma pair_apollo_chain: "me \<in> {0, 1} \<Longrightarrow> chain_inv sample_ext [] (pair_apollo me)"
  using chain_inv_start [OF pair_apollo_start(1)] by (simp add: pair_config_def sample_config_def)

lemma apollo_leader_reacts:
  assumes "ax_round_leader cx = ax_myid cx" "bx_pending (ax_batch cx) = []" "apollo_do_propose E bh batch cx = Inr cx'"
  shows "apollo_step E cx cx'"
proof -
  have same: "cx\<lparr>ax_batch := (ax_batch cx)\<lparr>bx_pending := []\<rparr>\<rparr> = cx" using assms(2) by simp
  have again: "apollo_do_propose E bh batch (cx\<lparr>ax_batch := (ax_batch cx)\<lparr>bx_pending := []\<rparr>\<rparr>) = Inr cx'"
    unfolding same by (rule assms(3))
  have "bx_pending (ax_batch cx') = []" using apollo_do_propose_pending [OF assms(3)] assms(2) by simp
  then have "apollo_drain E cx' = Inr cx'" by (simp add: apollo_drain.simps [of _ cx'])
  then have "apollo_reactor_step E (ApBatchReady bh batch) cx = Inr (Continue cx')"
    using assms(1,2) again by (simp add: apollo_reactor_step_def apollo_drain.simps [of _ "_\<lparr>ax_batch := _\<rparr>"])
  then show ?thesis by (rule apollo_reacts [rotated]) simp
qed

lemma apollo_follower_reacts:
  assumes "prop_buf cx = []" "relay_buf cx = []" "ax_other_buf cx = []" "future_msgs cx = fmempty" "bx_pending (ax_batch cx) = []"
    and "apollo_delivery_check E (v_origin (ap_sig p)) p (Some (b, batch)) cx = Inr cx'" "same_node cx cx'" "block_sealed E b"
  shows "apollo_step E cx cx'"
proof -
  define c where "c = apollo_handle_message (ApNewProposal p b batch) cx"
  have c: "prop_buf c = [(v_origin (ap_sig p), p, b, batch)]" "c\<lparr>prop_buf := []\<rparr> = cx"
    using assms(1) by (auto simp: c_def apollo_handle_message_def intro!: apollo_cx.equality)
  have q: "relay_buf cx' = []" "ax_other_buf cx' = []" "future_msgs cx' = fmempty" "bx_pending (ax_batch cx') = []"
    using assms(2-5,7) by (auto simp: same_node_def)
  then have same: "cx'\<lparr>relay_buf := []\<rparr> = cx'" "cx'\<lparr>ax_other_buf := []\<rparr> = cx'" by (auto intro!: apollo_cx.equality)
  have "apollo_replay E n cx' = Inr cx'" for n unfolding apollo_replay.simps [of E n cx'] using q(3) by simp
  then have "apollo_process_message E c = Inr cx'"
    unfolding apollo_process_message_def c by (simp add: assms(6) q same)
  moreover have "apollo_drain E cx' = Inr cx'" unfolding apollo_drain.simps [of E cx'] using q(4) by simp
  ultimately have "apollo_reactor_step E (ApNet [ApNewProposal p b batch]) cx = Inr (Continue cx')"
    by (simp add: apollo_reactor_step_def c_def)
  then show ?thesis by (rule apollo_reacts [rotated]) (simp add: assms(8))
qed

lemma same_nodes_propose:
  assumes "apollo_do_propose E bh batch cx = Inr cx'"
  shows "ax_num_nodes cx' = ax_num_nodes cx" and same_faults_propose: "ax_num_faults cx' = ax_num_faults cx"
proof -
  let ?same = "\<lambda>c' c. ax_num_nodes c' = ax_num_nodes c \<and> ax_num_faults c' = ax_num_faults c"
  have update: "?same c' c" if "apollo_update_round E c = Inr c'" for c c'
    using that by (elim apollo_update_round_result) (simp add: apollo_notify_def)
  have commit: "?same c' c" if "apollo_do_commit E c = Inr c'" for c c'
    using that by (elim apollo_do_commit_result) simp
  have "?same c' c" if "apollo_on_receive_proposal E p b c = Inr c'" for p b c c'
    using that
    by (auto simp: apollo_on_receive_proposal_def Let_def dest!: update commit split: if_splits)
  then have "?same cx' cx"
    using assms by (fastforce simp: apollo_do_propose_def apollo_multicast_def apollo_notify_def deliver_block_def Let_def)
  then show "ax_num_nodes cx' = ax_num_nodes cx" "ax_num_faults cx' = ax_num_faults cx" by simp_all
qed

lemma pair_apollo_runs:
  obtains ld fo nb where "apollo_step sample_ext (pair_apollo 0) ld" "apollo_step sample_ext (pair_apollo 1) fo"
    "chain_inv sample_ext [nb] ld" "chain_inv sample_ext [nb] fo" "ax_num_faults ld = 0" "same_node (pair_apollo 1) fo"
proof -
  let ?E = sample_ext and ?ba = "sample_batch [sample_tx 1 1]"
  let ?bh = "fst (CachedBatch_hash ?E ?ba)"
  note l = pair_apollo_start [of 0, OF insertI1] and f = pair_apollo_start [of 1, OF insertI2 [OF singletonI]]
  have inv: "chain_inv ?E [] (pair_apollo 0)" "chain_inv ?E [] (pair_apollo 1)" by (simp_all add: pair_apollo_chain)
  obtain ld nb p auth where ld: "apollo_do_propose ?E ?bh ?ba (pair_apollo 0) = Inr ld" "chain_inv ?E ([] @ [nb]) ld"
    "sk_sign ?E (nx_my_secret_key (ax_net (pair_apollo 0))) (blk_hash nb) = Some auth"
    "p = \<lparr>ap_sig = \<lparr>v_origin = ax_myid (pair_apollo 0), v_auth = auth\<rparr>, ap_round = ax_round (pair_apollo 0), ap_block_hash = blk_hash nb\<rparr>"
    "nb = block_init ?E \<lparr>blk_header = \<lparr>hdr_prev = blk_hash (ax_last_seen_block (pair_apollo 0)), hdr_extra = [],
        hdr_author = ax_myid (pair_apollo 0), hdr_height = blk_height (ax_last_seen_block (pair_apollo 0)) + 1, hdr_blame_certificates = []\<rparr>,
        blk_body = \<lparr>body_batch_hash = ?bh\<rparr>, blk_hash = EMPTY_HASH ?E\<rparr>"
    using apollo_propose_refines [OF sample_collision_free sample_hash_acyclic inv(1), of ?bh ?ba] l(3,4,6)
    by (auto simp: signs_def GENESIS_BLOCK_def)
  have nb: "blk_prev nb = blk_hash (GENESIS_BLOCK ?E)" "blk_author nb = 0" "blk_batch_hash nb = ?bh" "block_sealed ?E nb"
    unfolding ld(5) using l(2,6) by (simp_all add: block_sealed_def) (simp_all add: block_init_def compute_hash_def)
  have "pk_verify ?E [0] (blk_hash nb) auth"
    using sample_sign_verifies [of "[0]"] ld(3) unfolding l(3) by (auto simp: sign_verifies_def)
  then have "acceptable ?E p nb ?ba (pair_apollo 1)"
    using nb l(2,4) f(2,4-7,15) by (simp add: acceptable_def ld(4) apollo_check_batch_hash_def Propose_check_sig_def)
  from apollo_delivery_accepts [OF sample_collision_free sample_hash_acyclic inv(2) this] f(4)
  obtain fo where fo: "apollo_delivery_check ?E (v_origin (ap_sig p)) p (Some (nb, ?ba)) (pair_apollo 1) = Inr fo"
      "chain_inv ?E ([] @ [nb]) fo" "same_node (pair_apollo 1) fo" by auto
  have "apollo_step ?E (pair_apollo 0) ld" using apollo_leader_reacts [OF _ l(10) ld(1)] l(2,5) by simp
  moreover have "apollo_step ?E (pair_apollo 1) fo" using apollo_follower_reacts [OF f(12-14,11,10) fo(1,3) nb(4)] .
  moreover have "ax_num_faults ld = 0" using same_faults_propose [OF ld(1)] l(9) by simp
  ultimately show thesis using that ld(2) fo(2,3) unfolding append_Nil by blast
qed

theorem apollo_accepted_authentic_witness:
  "\<exists>cx p b. (apollo_step sample_ext)\<^sup>*\<^sup>* (pair_apollo 1) cx \<and> fmlookup (prop_chain_by_round cx) 1 = Some p \<and>
     pk_verify sample_ext [0] (ap_block_hash p) (v_auth (ap_sig p)) \<and>
     delivered_block_from_hash (ax_storage cx) (ap_block_hash p) = Some b \<and> blk_author b = 0"
proof -
  obtain fo nb where fo: "apollo_step sample_ext (pair_apollo 1) fo" "chain_inv sample_ext [nb] fo" "same_node (pair_apollo 1) fo"
    by (rule pair_apollo_runs)
  have run: "(apollo_step sample_ext)\<^sup>*\<^sup>* (pair_apollo 1) fo" using fo(1) by (rule r_into_rtranclp)
  note f = pair_apollo_start [of 1, OF insertI2 [OF singletonI]]
  have n: "ax_num_nodes fo = 2" "ax_myid fo = 1" "fmlookup (nx_pub_key_map (ax_net fo)) 0 = Some [0]"
    using fo(3) f(2,8,15) by (simp_all add: same_node_def)
  obtain p where p: "fmlookup (prop_chain_by_round fo) 1 = Some p" using fo(2) by (auto simp: chain_inv_def)
  note auth = apollo_accepted_authentic [OF sample_collision_free pair_apollo_init run, THEN conjunct2, THEN conjunct1, rule_format, OF _ p]
  with n have "v_origin (ap_sig p) = 0" "pk_verify sample_ext [0] (ap_block_hash p) (v_auth (ap_sig p))"
      "\<exists>b. delivered_block_from_hash (ax_storage fo) (ap_block_hash p) = Some b \<and> blk_author b = 0" by auto
  with run p show ?thesis by blast
qed

theorem apollo_agreement_witness:
  "\<exists>c d h. (apollo_step sample_ext)\<^sup>*\<^sup>* (pair_apollo 0) c \<and> (apollo_step sample_ext)\<^sup>*\<^sup>* (pair_apollo 1) d \<and> h \<noteq> EMPTY_HASH sample_ext \<and>
     is_committed_by_hash (ax_storage c) h \<and> is_committed_by_hash (ax_storage d) h \<and>
     delivered_block_from_hash (ax_storage c) h = delivered_block_from_hash (ax_storage d) h"
proof -
  obtain ld fo nb where run: "apollo_step sample_ext (pair_apollo 0) ld" "apollo_step sample_ext (pair_apollo 1) fo"
    and inv: "chain_inv sample_ext [nb] ld" "chain_inv sample_ext [nb] fo" and n: "ax_num_faults ld = 0" "same_node (pair_apollo 1) fo"
    by (rule pair_apollo_runs)
  have runs: "(apollo_step sample_ext)\<^sup>*\<^sup>* (pair_apollo 0) ld" "(apollo_step sample_ext)\<^sup>*\<^sup>* (pair_apollo 1) fo"
    using run by (auto intro: r_into_rtranclp)
  have n2: "ax_num_faults ld = ax_num_faults fo" "ax_round ld \<le> ax_round fo"
    using n pair_apollo_start(9) [of 1] inv by (simp_all add: same_node_def chain_inv_def)
  have props: "ap_block_hash p = ap_block_hash q" if "fmlookup (prop_chain_by_round ld) r = Some p" "fmlookup (prop_chain_by_round fo) r = Some q" for r p q
  proof -
    have "fmmem r (prop_chain_by_round ld)" using that(1) by (simp add: fmmem_iff)
    then have "1 \<le> r \<and> r \<le> 1" using inv(1) by (simp add: chain_inv_def)
    then have "r = 1" by simp
    with inv that show ?thesis by (auto simp: chain_inv_def)
  qed
  have h: "is_committed_by_hash (ax_storage ld) (blk_hash nb)"
    using inv(1) n(1) by (simp add: chain_inv_def committed_prefix_def)
  have "blk_hash nb \<noteq> EMPTY_HASH sample_ext"
    using sealed_not_empty [OF sample_collision_free] inv(1) by (simp add: chain_inv_def)
  moreover from apollo_agreement [OF sample_collision_free pair_apollo_init runs(1) pair_apollo_init runs(2) n2 props] h
  have "is_committed_by_hash (ax_storage fo) (blk_hash nb)"
    "\<exists>b. delivered_block_from_hash (ax_storage ld) (blk_hash nb) = Some b \<and> delivered_block_from_hash (ax_storage fo) (blk_hash nb) = Some b"
    by auto
  ultimately show ?thesis using runs h by (metis (no_types, lifting))
qed

theorem apollo_possible_faults_witness:
  "Panic ''Received a blame message'' \<in> {Panic ''Received a blame message'',
     Panic ''called Option::unwrap on a None value'', Panic ''Failed to sign a block'', Overflow} \<and>
   apollo_reactor_step sample_ext (ApNet [ApBlame \<lparr>v_origin = 3, v_auth = []\<rparr>]) (sample_apollo 1) =
     Inl (Panic ''Received a blame message'')"
proof -
  have "apollo_reactor_step sample_ext (ApNet [ApBlame \<lparr>v_origin = 3, v_auth = []\<rparr>]) (sample_apollo 1) =
     Inl (Panic ''Received a blame message'')"
    by (simp add: apollo_reactor_step_def apollo_process_message_def apollo_handle_message_def apollo_handle_other_def
        apollo_on_receive_blame_def sample_apollo_buffers [unfolded One_nat_def])
  with apollo_possible_faults [OF sample_collision_free sample_apollo_init [of 1] rtranclp.rtrancl_refl _ this]
  show ?thesis by simp
qed

text \<open>Two blocks of replica 0 at height 1.\<close>

definition sample_block :: "hash \<Rightarrow> block" where
  "sample_block bh =
     block_init sample_ext ((with_batch sample_ext bh)\<lparr>blk_header := (Header_new sample_ext)\<lparr>hdr_height := 1\<rparr>\<rparr>)"

lemma sample_block_simps [simp]:
  "block_sealed sample_ext (sample_block bh)" "blk_prev (sample_block bh) = []" "blk_author (sample_block bh) = 0"
  "blk_height (sample_block bh) = 1" "blk_batch_hash (sample_block bh) = bh"
  "blk_hash (sample_block bh) = hash_block sample_ext (blk_header (sample_block bh)) \<lparr>body_batch_hash = bh\<rparr>"
  by (simp_all add: sample_block_def block_sealed_def block_init_def with_batch_def Header_new_def compute_hash_def)

lemma sample_block_inj: "blk_hash (sample_block h) = blk_hash (sample_block h') \<Longrightarrow> h = h'"
  using sample_collision_free unfolding sample_block_simps(6) collision_free_def by (metis body.ext_inject)

theorem apollo_own_proposal_unchecked_witness:
  "\<exists>cx' b. apollo_delivery_check sample_ext 3
       \<lparr>ap_sig = \<lparr>v_origin = 0, v_auth = [13]\<rparr>, ap_round = 1, ap_block_hash = blk_hash b\<rparr> (Some (b, sample_batch [])) (sample_apollo 0) = Inr cx' \<and>
     chain_inv sample_ext [b] cx'"
proof -
  let ?b = "sample_block (fst (CachedBatch_hash sample_ext (sample_batch [])))"
  note st = sample_apollo_start [of 0, OF insertI1]
  have "ax_round_leader (sample_apollo 0) = ax_myid (sample_apollo 0)" "blk_author ?b = ax_myid (sample_apollo 0)"
      "blk_prev ?b = blk_hash (ax_last_seen_block (sample_apollo 0))" "apollo_check_batch_hash sample_ext ?b (sample_batch [])"
      "fmlookup (prop_waiting_parent (sample_apollo 0)) (blk_hash ?b) = None" "ax_round (sample_apollo 0) + 1 < 2 ^ 64"
    by (simp_all only: st(2,4-7) sample_block_simps apollo_check_batch_hash_def) (simp_all add: GENESIS_BLOCK_def)
  with apollo_own_proposal_unchecked [OF sample_collision_free sample_hash_acyclic sample_apollo_chain [of 0], of ?b "sample_batch []" 3 "[13]"]
  obtain cx' where "apollo_delivery_check sample_ext 3 \<lparr>ap_sig = \<lparr>v_origin = ax_myid (sample_apollo 0), v_auth = [13]\<rparr>,
        ap_round = ax_round (sample_apollo 0), ap_block_hash = blk_hash ?b\<rparr> (Some (?b, sample_batch [])) (sample_apollo 0) = Inr cx'"
      "chain_inv sample_ext ([] @ [?b]) cx'" using sample_block_simps(1) by blast
  then show ?thesis unfolding st(2,4) append_Nil by blast
qed

theorem apollo_equivocation_undetected_witness:
  "\<exists>p b cx cx'. apollo_equivocation b cx \<and>
     apollo_delivery_check sample_ext 0 p (Some (b, sample_batch [])) cx = Inr cx' \<and> chain_inv sample_ext [b] cx'"
proof -
  let ?h = "fst (CachedBatch_hash sample_ext (sample_batch []))"
  let ?b = "sample_block ?h" and ?x = "sample_block (0 # ?h)"
  let ?cx = "deliver_block ?x (sample_apollo 1)"
  let ?p = "\<lparr>ap_sig = \<lparr>v_origin = 0, v_auth = 0 # blk_hash ?b\<rparr>, ap_round = 1, ap_block_hash = blk_hash ?b\<rparr>"
  have "chain_inv sample_ext [] ?cx"
    using sample_apollo_chain [of 1] by (intro chain_inv_deliver) (simp_all add: sample_collision_free)
  moreover have "acceptable sample_ext ?p ?b (sample_batch []) ?cx"
    using sample_apollo_start [of 1]
    by (simp add: acceptable_def apollo_check_batch_hash_def Propose_check_sig_def GENESIS_BLOCK_def deliver_block_def)
  moreover have "blk_hash ?x \<noteq> blk_hash ?b" using sample_block_inj [of "0 # ?h" ?h] by auto
  moreover have "delivered_block_from_ht (ax_storage ?cx) (blk_height ?b) = Some ?x"
    by (simp add: deliver_block_def block_get_height_def)
  moreover have "ax_round ?cx + 1 < 2 ^ 64" "blk_author ?x = blk_author ?b"
    using sample_apollo_start(4) [of 1] by (simp_all add: deliver_block_def)
  ultimately have "apollo_equivocation ?b ?cx" and
    "\<exists>cx'. apollo_delivery_check sample_ext 0 ?p (Some (?b, sample_batch [])) ?cx = Inr cx' \<and> chain_inv sample_ext ([] @ [?b]) cx'"
    using apollo_equivocation_undetected [OF sample_collision_free sample_hash_acyclic, of "[]" ?cx ?p ?b "sample_batch []" ?x 0]
    by blast+
  then show ?thesis unfolding append_Nil by blast
qed

text \<open>A system of one replica, which leads every round.\<close>

definition solo_config :: node_config where
  "solo_config = (sample_config 0)\<lparr>nc_num_nodes := 1, nc_num_faults := 0\<rparr>"

definition solo_apollo :: apollo_cx where
  "solo_apollo = projr (apollo_reactor_start sample_ext solo_config sample_pks fmempty fmempty)"

lemma solo_apollo_start:
  "apollo_reactor_start sample_ext solo_config sample_pks fmempty fmempty = Inr solo_apollo"
  "ax_myid solo_apollo = 0" "ax_num_nodes solo_apollo = 1" "ax_round solo_apollo = 1" "ax_round_leader solo_apollo = 0"
  "nx_my_secret_key (ax_net solo_apollo) = [0]" "bx_pending (ax_batch solo_apollo) = []"
  "ax_last_seen_block solo_apollo = GENESIS_BLOCK sample_ext"
  by (simp_all add: solo_apollo_def solo_config_def sample_node_defs apollo_reactor_start_def apollo_Context_new_def
      apollo_notify_def deliver_block_def batch_ctx_new_def Let_def)

lemma solo_apollo_init: "apollo_init sample_ext solo_apollo"
  unfolding apollo_init_def using solo_apollo_start(1)
  by (intro exI [of _ solo_config] exI [of _ sample_pks] exI [of _ fmempty] conjI)
    (auto simp: config_ok_def solo_config_def sample_config_def sample_pks_def)

lemma solo_apollo_proposes:
  "\<exists>cx' nb. apollo_step sample_ext solo_apollo cx' \<and> chain_inv sample_ext [nb] cx' \<and> ax_num_nodes cx' = 1"
proof -
  have chain: "chain_inv sample_ext [] solo_apollo"
    using chain_inv_start [OF solo_apollo_start(1)] by (simp add: solo_config_def)
  from apollo_propose_refines [OF sample_collision_free sample_hash_acyclic chain, of "[7]" "sample_batch []"]
  obtain cx' nb where cx: "apollo_do_propose sample_ext [7] (sample_batch []) solo_apollo = Inr cx'"
      "chain_inv sample_ext ([] @ [nb]) cx'"
    using solo_apollo_start(4,6,8) by (auto simp: signs_def GENESIS_BLOCK_def)
  have "apollo_step sample_ext solo_apollo cx'" using apollo_leader_reacts [OF _ solo_apollo_start(7) cx(1)] solo_apollo_start(2,5) by simp
  moreover have "ax_num_nodes cx' = 1" using same_nodes_propose [OF cx(1)] solo_apollo_start(3) by simp
  ultimately show ?thesis using cx(2) unfolding append_Nil by blast
qed

theorem apollo_proposal_replay_witness:
  "\<exists>cx p b. fmlookup (prop_chain_by_round cx) 1 = Some p \<and> ax_round cx = 2 \<and>
     \<not> apollo_equivocation b (deliver_block b cx) \<and>
     apollo_try_receive_proposal sample_ext (p\<lparr>ap_round := 2\<rparr>) b 0 (deliver_block b cx) =
       apollo_on_receive_proposal sample_ext (p\<lparr>ap_round := 2\<rparr>) b (deliver_block b cx)"
proof -
  obtain cx nb where step: "apollo_step sample_ext solo_apollo cx" and inv: "chain_inv sample_ext [nb] cx"
    and n: "ax_num_nodes cx = 1"
    using solo_apollo_proposes by blast
  then have reach: "(apollo_step sample_ext)\<^sup>*\<^sup>* solo_apollo cx" by blast
  note node = apollo_reachable_inv [OF sample_collision_free solo_apollo_init reach]
  obtain p where p: "fmlookup (prop_chain_by_round cx) 1 = Some p" "ap_block_hash p = blk_hash nb"
    and r: "ax_round cx = 2" and d: "delivered_block_from_hash (ax_storage cx) (blk_hash nb) = Some nb"
    using inv by (auto simp: chain_inv_def)
  have "v_origin (ap_sig p) = ax_round_leader cx"
    using n node_invD(6) [OF node p(1)] node_invD(1) [OF node] by (auto simp: authentic_def leader_ok_def)
  from apollo_proposal_replay [OF sample_collision_free solo_apollo_init reach p(1) this, of nb 0] p d r
  show ?thesis by (auto simp: Let_def)
qed

end
