(* ===== verification/Reactor_Metrics.thy ===== *)
theory Reactor_Metrics
  imports Prelude
begin

text \<open>
  The reactor metrics of Artemis (\<open>consensus/artemis/src/node/metrics.rs\<close>): counters and coarse
  latency histograms. \<open>fetch_add\<close> on an \<open>AtomicU64\<close> wraps; a subtraction of two clock readings is a
  checked one. The clock is an argument: \<open>now\<close> is the result of \<open>now_ns\<close>. The reactor is the only
  writer, so the compare-exchange loop of the maximum is a maximum.

  The node's context records the events in order; \<open>metrics_run\<close> turns the events, paired with
  clock readings, into the state that \<open>print_summary\<close> would print.
\<close>

section \<open>Histograms\<close>

definition BUCKETS_US :: "nat list" where
  "BUCKETS_US = [100, 500, 1000, 5000, 10000, 50000, 100000, 500000, 2 ^ 64 - 1]"

record histogram =
  h_buckets :: "nat list"
  h_sum_us :: nat
  h_count :: nat
  h_max_us :: nat

definition Histogram_new :: histogram where
  "Histogram_new = \<lparr>h_buckets = replicate 9 0, h_sum_us = 0, h_count = 0, h_max_us = 0\<rparr>"

definition fetch_add :: "nat \<Rightarrow> nat \<Rightarrow> nat" where
  "fetch_add x d = (x + d) mod 2 ^ 64"

text \<open>\<open>iter().position\<close>: the first index at which the predicate holds.\<close>

fun position :: "('a \<Rightarrow> bool) \<Rightarrow> 'a list \<Rightarrow> nat option" where
  "position P [] = None"
| "position P (x # xs) = (if P x then Some 0 else map_option Suc (position P xs))"

definition bucket_index :: "nat \<Rightarrow> nat" where
  "bucket_index us =
     (case position (\<lambda>b. us < b) BUCKETS_US of Some i \<Rightarrow> i | None \<Rightarrow> length BUCKETS_US - 1)"

definition record_us :: "nat \<Rightarrow> histogram \<Rightarrow> histogram" where
  "record_us us h =
     (let idx = bucket_index us
      in h\<lparr>h_buckets := (h_buckets h)[idx := fetch_add (h_buckets h ! idx) 1],
           h_sum_us := fetch_add (h_sum_us h) us,
           h_count := fetch_add (h_count h) 1,
           h_max_us := max (h_max_us h) us\<rparr>)"

section \<open>Metrics\<close>

record metrics =
  m_proposes :: nat
  m_votes :: nat
  m_round_advances :: nat
  m_batch_recvs :: nat
  m_reactor_iters :: nat
  m_inter_propose :: histogram
  m_inter_vote :: histogram
  m_inter_round_advance :: histogram
  m_inter_batch_recv :: histogram
  m_last_propose :: nat
  m_last_vote :: nat
  m_last_round_advance :: nat
  m_last_batch_recv :: nat

definition Metrics_new :: metrics where
  "Metrics_new =
     \<lparr>m_proposes = 0, m_votes = 0, m_round_advances = 0, m_batch_recvs = 0, m_reactor_iters = 0,
      m_inter_propose = Histogram_new, m_inter_vote = Histogram_new, m_inter_round_advance = Histogram_new,
      m_inter_batch_recv = Histogram_new, m_last_propose = 0, m_last_vote = 0, m_last_round_advance = 0,
      m_last_batch_recv = 0\<rparr>"

text \<open>The new value of the \<open>last\<close> cell and the histogram.\<close>

definition record_interval :: "nat \<Rightarrow> nat \<Rightarrow> histogram \<Rightarrow> (nat \<times> histogram) res" where
  "record_interval now prev hist =
     (if prev \<noteq> 0 then rbind (sub_u64 now prev) (\<lambda>d. Inr (now, record_us (d div 1000) hist))
      else Inr (now, hist))"

datatype metric_event = RecPropose | RecVote | RecRoundAdvance | RecBatchRecv | RecReactorIter

definition record_propose :: "nat \<Rightarrow> metrics \<Rightarrow> metrics res" where
  "record_propose now m =
     rbind (record_interval now (m_last_propose m) (m_inter_propose m)) (\<lambda>(l, h).
     Inr (m\<lparr>m_proposes := fetch_add (m_proposes m) 1, m_last_propose := l, m_inter_propose := h\<rparr>))"

definition record_vote :: "nat \<Rightarrow> metrics \<Rightarrow> metrics res" where
  "record_vote now m =
     rbind (record_interval now (m_last_vote m) (m_inter_vote m)) (\<lambda>(l, h).
     Inr (m\<lparr>m_votes := fetch_add (m_votes m) 1, m_last_vote := l, m_inter_vote := h\<rparr>))"

definition record_round_advance :: "nat \<Rightarrow> metrics \<Rightarrow> metrics res" where
  "record_round_advance now m =
     rbind (record_interval now (m_last_round_advance m) (m_inter_round_advance m)) (\<lambda>(l, h).
     Inr (m\<lparr>m_round_advances := fetch_add (m_round_advances m) 1, m_last_round_advance := l,
            m_inter_round_advance := h\<rparr>))"

definition record_batch_recv :: "nat \<Rightarrow> metrics \<Rightarrow> metrics res" where
  "record_batch_recv now m =
     rbind (record_interval now (m_last_batch_recv m) (m_inter_batch_recv m)) (\<lambda>(l, h).
     Inr (m\<lparr>m_batch_recvs := fetch_add (m_batch_recvs m) 1, m_last_batch_recv := l,
            m_inter_batch_recv := h\<rparr>))"

definition record_reactor_iter :: "metrics \<Rightarrow> metrics" where
  "record_reactor_iter m = m\<lparr>m_reactor_iters := fetch_add (m_reactor_iters m) 1\<rparr>"

fun record_event :: "metric_event \<times> nat \<Rightarrow> metrics \<Rightarrow> metrics res" where
  "record_event (RecPropose, now) m = record_propose now m"
| "record_event (RecVote, now) m = record_vote now m"
| "record_event (RecRoundAdvance, now) m = record_round_advance now m"
| "record_event (RecBatchRecv, now) m = record_batch_recv now m"
| "record_event (RecReactorIter, now) m = Inr (record_reactor_iter m)"

definition metrics_run :: "(metric_event \<times> nat) list \<Rightarrow> metrics res" where
  "metrics_run evs = rfold record_event evs Metrics_new"

section \<open>Histogram laws\<close>

lemma position_bounds: "position P xs = Some i \<Longrightarrow> i < length xs \<and> P (xs ! i) \<and> (\<forall>j<i. \<not> P (xs ! j))"
  by (induction xs arbitrary: i) (auto split: if_splits simp: nth_Cons' less_Suc_eq_0_disj)

lemma position_None: "position P xs = None \<longleftrightarrow> (\<forall>x\<in>set xs. \<not> P x)"
  by (induction xs) (auto split: if_splits)

lemma length_BUCKETS [simp]: "length BUCKETS_US = 9"
  by (simp add: BUCKETS_US_def)

lemma bucket_index_less: "bucket_index us < 9"
  using position_bounds [of "\<lambda>b. us < b" BUCKETS_US] by (auto simp: bucket_index_def split: option.splits)

lemma sum_list_bump: "i < length xs \<Longrightarrow> sum_list (xs[i := Suc (xs ! i)]) = Suc (sum_list (xs :: nat list))"
  by (simp add: sum_list_update)

text \<open>
  A histogram that has taken \<open>k\<close> samples, none of which wrapped a counter: nine buckets that add
  up to \<open>k\<close>, which is also the count.
\<close>

definition hist_ok :: "nat \<Rightarrow> histogram \<Rightarrow> bool" where
  "hist_ok k h \<longleftrightarrow> length (h_buckets h) = 9 \<and> sum_list (h_buckets h) = k \<and> h_count h = k \<and> k < 2 ^ 64"

lemma hist_ok_new [simp]: "hist_ok 0 Histogram_new"
  by (simp add: hist_ok_def Histogram_new_def sum_list_replicate)

lemma bucket_le_sum: "i < length xs \<Longrightarrow> xs ! i \<le> sum_list (xs :: nat list)"
  by (simp add: member_le_sum_list)

lemma hist_ok_record:
  assumes "hist_ok k h" and "Suc k < 2 ^ 64"
  shows "hist_ok (Suc k) (record_us us h)"
proof -
  have i: "bucket_index us < length (h_buckets h)" using assms(1) bucket_index_less by (simp add: hist_ok_def)
  then have "h_buckets h ! bucket_index us \<le> k" using assms(1) bucket_le_sum by (fastforce simp: hist_ok_def)
  then have "fetch_add (h_buckets h ! bucket_index us) 1 = Suc (h_buckets h ! bucket_index us)"
    using assms(2) by (simp add: fetch_add_def)
  then show ?thesis
    using assms i sum_list_bump by (simp add: hist_ok_def record_us_def Let_def fetch_add_def)
qed

section \<open>Properties\<close>

text \<open>
  Bucket choice. Every sample falls into exactly one of the nine buckets: the first whose
  upper edge exceeds it, so the edge before it does not; a sample of \<open>u64::MAX\<close> microseconds, which
  no edge exceeds, goes to the last.
\<close>
theorem bucket_index_correct:
  assumes "us < 2 ^ 64"
  shows "bucket_index us < 9 \<and> (0 < bucket_index us \<longrightarrow> BUCKETS_US ! (bucket_index us - 1) \<le> us) \<and>
    (us < BUCKETS_US ! bucket_index us \<or> bucket_index us = 8 \<and> us = 2 ^ 64 - 1)"
proof (cases "position (\<lambda>b. us < b) BUCKETS_US")
  case None
  then have "\<forall>b\<in>set BUCKETS_US. b \<le> us" by (auto simp: position_None)
  then have "us = 2 ^ 64 - 1" "BUCKETS_US ! 7 \<le> us" using assms by (simp_all add: BUCKETS_US_def)
  with None show ?thesis by (simp add: bucket_index_def)
next
  case (Some i)
  from position_bounds [OF this] Some show ?thesis by (auto simp: bucket_index_def not_less)
qed

theorem bucket_index_correct_witness: "bucket_index 750 = 2 \<and> 500 \<le> (750 :: nat) \<and> 750 < BUCKETS_US ! 2"
  using bucket_index_correct [of 750] by (simp add: bucket_index_def BUCKETS_US_def)

fun event_count :: "metric_event \<Rightarrow> (metric_event \<times> nat) list \<Rightarrow> nat" where
  "event_count e [] = 0"
| "event_count e ((x, now) # evs) = (if x = e then 1 else 0) + event_count e evs"

lemma event_count_append [simp]: "event_count e (xs @ ys) = event_count e xs + event_count e ys"
  by (induction xs) auto

text \<open>Each series: its counter, its last reading and its histogram.\<close>

definition series_ok :: "nat \<Rightarrow> nat \<Rightarrow> nat \<Rightarrow> nat \<Rightarrow> histogram \<Rightarrow> bool" where
  "series_ok k clock cnt l h \<longleftrightarrow> cnt = k \<and> l \<le> clock \<and> (if l = 0 then k = 0 \<and> hist_ok 0 h else hist_ok (k - 1) h \<and> 0 < k)"

definition metrics_ok :: "(metric_event \<Rightarrow> nat) \<Rightarrow> nat \<Rightarrow> metrics \<Rightarrow> bool" where
  "metrics_ok c clock m \<longleftrightarrow>
     series_ok (c RecPropose) clock (m_proposes m) (m_last_propose m) (m_inter_propose m) \<and>
     series_ok (c RecVote) clock (m_votes m) (m_last_vote m) (m_inter_vote m) \<and>
     series_ok (c RecRoundAdvance) clock (m_round_advances m) (m_last_round_advance m) (m_inter_round_advance m) \<and>
     series_ok (c RecBatchRecv) clock (m_batch_recvs m) (m_last_batch_recv m) (m_inter_batch_recv m) \<and>
     m_reactor_iters m = c RecReactorIter"

lemma series_ok_later: "series_ok k clock cnt l h \<Longrightarrow> clock \<le> now \<Longrightarrow> series_ok k now cnt l h"
  by (auto simp: series_ok_def)

lemma series_ok_record:
  assumes "series_ok k clock cnt l h" and "clock \<le> now" and "0 < now" and "Suc k < 2 ^ 64"
  shows "\<exists>h'. record_interval now l h = Inr (now, h') \<and> series_ok (Suc k) now (fetch_add cnt 1) now h'"
proof (cases "l = 0")
  case True
  with assms show ?thesis by (auto simp: series_ok_def record_interval_def fetch_add_def)
next
  case False
  then have "hist_ok (k - 1) h" "0 < k" "l \<le> now" "cnt = k" using assms(1,2) by (auto simp: series_ok_def)
  moreover from this have "hist_ok (Suc (k - 1)) (record_us ((now - l) div 1000) h)"
    using assms(4) by (intro hist_ok_record) auto
  ultimately show ?thesis
    using False assms(3,4) by (auto simp: series_ok_def record_interval_def sub_u64_def fetch_add_def)
qed

lemma metrics_ok_step:
  assumes ok: "metrics_ok c clock m" and mono: "clock \<le> now" "0 < now" and small: "\<forall>e. Suc (c e) < 2 ^ 64"
  shows "\<exists>m'. record_event (e, now) m = Inr m' \<and> metrics_ok (c(e := Suc (c e))) now m'"
proof -
  note later = series_ok_later [OF _ mono(1)]
  have parts: "series_ok (c RecPropose) clock (m_proposes m) (m_last_propose m) (m_inter_propose m)"
    "series_ok (c RecVote) clock (m_votes m) (m_last_vote m) (m_inter_vote m)"
    "series_ok (c RecRoundAdvance) clock (m_round_advances m) (m_last_round_advance m) (m_inter_round_advance m)"
    "series_ok (c RecBatchRecv) clock (m_batch_recvs m) (m_last_batch_recv m) (m_inter_batch_recv m)"
    "m_reactor_iters m = c RecReactorIter" using ok by (simp_all add: metrics_ok_def)
  note rec = series_ok_record [OF _ mono small [rule_format]]
  note now = parts(1-4) [THEN later]
  show ?thesis
  proof (cases e)
    case RecPropose
    with rec [OF parts(1)] parts(5) now show ?thesis by (auto simp: metrics_ok_def record_propose_def)
  next
    case RecVote
    with rec [OF parts(2)] parts(5) now show ?thesis by (auto simp: metrics_ok_def record_vote_def)
  next
    case RecRoundAdvance
    with rec [OF parts(3)] parts(5) now show ?thesis by (auto simp: metrics_ok_def record_round_advance_def)
  next
    case RecBatchRecv
    with rec [OF parts(4)] parts(5) now show ?thesis by (auto simp: metrics_ok_def record_batch_recv_def)
  next
    case RecReactorIter
    with small parts(5) now show ?thesis
      by (auto simp: metrics_ok_def record_reactor_iter_def fetch_add_def)
  qed
qed

text \<open>Clock readings of a monotone clock, all positive.\<close>

fun clock_ok :: "nat \<Rightarrow> (metric_event \<times> nat) list \<Rightarrow> bool" where
  "clock_ok t [] = True"
| "clock_ok t ((e, now) # evs) = (t \<le> now \<and> 0 < now \<and> clock_ok now evs)"

lemma metrics_ok_run:
  assumes "metrics_ok c clock m" and "clock_ok clock evs" and "\<forall>e. c e + event_count e evs < 2 ^ 64 - 1"
  shows "\<exists>m' t. rfold record_event evs m = Inr m' \<and> metrics_ok (\<lambda>e. c e + event_count e evs) t m'"
  using assms
proof (induction evs arbitrary: c clock m)
  case Nil
  then show ?case by auto
next
  case (Cons p evs)
  obtain e now where p: "p = (e, now)" by (cases p)
  have "\<forall>e. Suc (c e) < 2 ^ 64" using Cons.prems(3) by (metis add_lessD1 less_diff_conv Suc_eq_plus1)
  from metrics_ok_step [OF Cons.prems(1) _ _ this, of now e] Cons.prems(2) p
  obtain m' where m': "record_event (e, now) m = Inr m'" "metrics_ok (c(e := Suc (c e))) now m'" by auto
  have "\<forall>x. (c(e := Suc (c e))) x + event_count x evs < 2 ^ 64 - 1"
    using Cons.prems(3) p by (auto split: if_splits)
  from Cons.IH [OF m'(2) _ this] Cons.prems(2) p obtain m'' t
    where "rfold record_event evs m' = Inr m''" "metrics_ok (\<lambda>x. (c(e := Suc (c e))) x + event_count x evs) t m''" by auto
  moreover have "(\<lambda>x. (c(e := Suc (c e))) x + event_count x evs) = (\<lambda>x. c x + event_count x (p # evs))"
    by (auto simp: p)
  ultimately show ?case using m'(1) p by auto
qed

text \<open>
  The metrics count what happened. On a monotone clock, and with fewer than 2^64 events,
  recording never faults, every counter is the number of its events, and each histogram has one
  sample less than its counter (the first event has no predecessor), all of them in some bucket.
\<close>
theorem metrics_count_events:
  assumes "clock_ok 0 evs" and "\<forall>e. event_count e evs < 2 ^ 64 - 1"
  shows "\<exists>m. metrics_run evs = Inr m \<and> m_reactor_iters m = event_count RecReactorIter evs \<and>
    m_proposes m = event_count RecPropose evs \<and> m_votes m = event_count RecVote evs \<and>
    m_round_advances m = event_count RecRoundAdvance evs \<and> m_batch_recvs m = event_count RecBatchRecv evs \<and>
    sum_list (h_buckets (m_inter_round_advance m)) = event_count RecRoundAdvance evs - 1 \<and>
    h_count (m_inter_round_advance m) = event_count RecRoundAdvance evs - 1"
proof -
  have "metrics_ok (\<lambda>_. 0) 0 Metrics_new" by (simp add: metrics_ok_def series_ok_def Metrics_new_def)
  from metrics_ok_run [OF this assms(1)] assms(2) obtain m t
    where "rfold record_event evs Metrics_new = Inr m" "metrics_ok (\<lambda>e. event_count e evs) t m" by auto
  then show ?thesis
    by (intro exI [of _ m]) (auto simp: metrics_run_def metrics_ok_def series_ok_def hist_ok_def split: if_splits)
qed

theorem metrics_count_events_witness:
  "\<exists>m. metrics_run [(RecReactorIter, 5), (RecRoundAdvance, 1000), (RecRoundAdvance, 900000)] = Inr m \<and>
     m_round_advances m = 2 \<and> h_count (m_inter_round_advance m) = 1"
proof -
  have "\<forall>e. event_count e [(RecReactorIter, 5), (RecRoundAdvance, 1000), (RecRoundAdvance, 900000)] < 2 ^ 64 - 1" by auto
  from metrics_count_events [OF _ this] show ?thesis by auto
qed

end
