(* ===== verification/Artemis_Node.thy ===== *)
theory Artemis_Node
  imports Sample_Node Reactor_Metrics
begin

text \<open>
  The Artemis node (\<open>consensus/artemis/src/node\<close>). A view leader, replica 0, broadcasts blocks; in
  each round a round leader, drawn by a hash from the replicas that did not lead in the last
  \<open>num_faults\<close> rounds, votes for the highest block it has seen; a vote is followed by the next
  round, and the block voted for \<open>num_faults\<close> rounds ago is committed with its ancestors. The
  record \<open>artemis_cx\<close> is the source's \<open>Context\<close>; a function of the source that takes \<open>&mut Context\<close>
  is a function on it. The metrics field is the list of recorded events (theory \<open>Reactor_Metrics\<close>).
\<close>

section \<open>Blocks and votes\<close>

definition artemis_GENESIS_BLOCK :: "ext \<Rightarrow> artemis_block" where
  "artemis_GENESIS_BLOCK E = \<lparr>ab_blk = GENESIS_BLOCK E, ab_sig = \<lparr>v_origin = 0, v_auth = []\<rparr>\<rparr>"

definition artemis_with_batch :: "ext \<Rightarrow> hash \<Rightarrow> artemis_block" where
  "artemis_with_batch E bh = \<lparr>ab_blk = with_batch E bh, ab_sig = \<lparr>v_origin = 0, v_auth = []\<rparr>\<rparr>"

definition artemis_block_check_sig :: "ext \<Rightarrow> public_key \<Rightarrow> artemis_block \<Rightarrow> bool" where
  "artemis_block_check_sig E pk b \<longleftrightarrow> pk_verify E pk (blk_hash (ab_blk b)) (v_auth (ab_sig b))"

definition artemis_block_sign :: "ext \<Rightarrow> keypair \<Rightarrow> artemis_block \<Rightarrow> artemis_block res" where
  "artemis_block_sign E sk b =
     rbind (expect ''Failed to sign the block'' (sk_sign E sk (blk_hash (ab_blk b)))) (\<lambda>auth.
     Inr (b\<lparr>ab_sig := (ab_sig b)\<lparr>v_auth := auth\<rparr>\<rparr>))"

definition artemis_block_init :: "ext \<Rightarrow> artemis_block \<Rightarrow> artemis_block" where
  "artemis_block_init E b = b\<lparr>ab_blk := block_init E (ab_blk b)\<rparr>"

definition artemis_get_hash :: "artemis_block \<Rightarrow> hash" where
  "artemis_get_hash b = blk_hash (ab_blk b)"

definition artemis_get_height :: "artemis_block \<Rightarrow> height" where
  "artemis_get_height b = block_get_height (ab_blk b)"

definition artemis_get_author :: "artemis_block \<Rightarrow> replica" where
  "artemis_get_author b = block_get_author (ab_blk b)"

abbreviation ab_prev :: "artemis_block \<Rightarrow> hash" where
  "ab_prev b \<equiv> hdr_prev (blk_header (ab_blk b))"

definition UCRVote_new :: "ext \<Rightarrow> ucr_vote" where
  "UCRVote_new E = \<lparr>uv_hash = EMPTY_HASH E, uv_round = 0, uv_view = 0, uv_vote = \<lparr>v_origin = 0, v_auth = []\<rparr>\<rparr>"

definition UCRVote_digest :: "ext \<Rightarrow> ucr_vote \<Rightarrow> hash" where
  "UCRVote_digest E v = hash_ucr E (uv_hash v) (uv_round v) (uv_view v)"

definition UCRVote_compute_sig :: "ext \<Rightarrow> replica \<Rightarrow> keypair \<Rightarrow> ucr_vote \<Rightarrow> ucr_vote res" where
  "UCRVote_compute_sig E origin sk v =
     rbind (expect ''Failed to sign a ucr message'' (sk_sign E sk (UCRVote_digest E v))) (\<lambda>auth.
     Inr (v\<lparr>uv_vote := \<lparr>v_origin = origin, v_auth = auth\<rparr>\<rparr>))"

definition UCRVote_check_sig :: "ext \<Rightarrow> public_key \<Rightarrow> ucr_vote \<Rightarrow> bool" where
  "UCRVote_check_sig E pk v \<longleftrightarrow> pk_verify E pk (UCRVote_digest E v) (v_auth (uv_vote v))"

definition UCRVote_origin :: "ucr_vote \<Rightarrow> replica" where
  "UCRVote_origin v = v_origin (uv_vote v)"

section \<open>Context\<close>

record artemis_cx =
  rx_net :: "artemis_msg net_ctx"
  rx_batch :: batch_ctx
  rx_storage :: "artemis_block storage"
  vote_chain :: "(round, ucr_vote) fmap"
  rx_round_leader :: replica
  last_f_leaders :: "replica list"
  eligible_leaders :: "replica list"
  view_leader :: replica
  rx_view :: view
  rx_round :: round
  rx_last_seen_block :: artemis_block
  last_voted_block :: artemis_block
  rx_req_ctr :: nat
  rx_payload :: nat
  rx_block_size :: nat
  rx_bench_committed_tx_count :: nat
  rx_bench_emit_window_secs :: nat
  rx_bench_metrics_node :: replica
  vote_waiting :: "(hash, ucr_vote) fmap"
  vote_ready :: "(round, ucr_vote) fmap"
  block_processing_waiting :: "(artemis_block \<times> cached_batch) list"
  response_waiting :: "(replica \<times> artemis_block \<times> cached_batch) list"
  rx_metrics :: "metric_event list"
  rx_other_buf :: "artemis_msg list"
  block_parent_waiting :: "(hash, hash) fmap"
  undelivered_blocks :: "(hash, artemis_block) fmap"

abbreviation rx_myid :: "artemis_cx \<Rightarrow> replica" where
  "rx_myid cx \<equiv> nx_myid (rx_net cx)"

abbreviation rx_num_faults :: "artemis_cx \<Rightarrow> nat" where
  "rx_num_faults cx \<equiv> nx_num_faults (rx_net cx)"

abbreviation rx_num_nodes :: "artemis_cx \<Rightarrow> nat" where
  "rx_num_nodes cx \<equiv> nx_num_nodes (rx_net cx)"

definition artemis_metric :: "metric_event \<Rightarrow> artemis_cx \<Rightarrow> artemis_cx" where
  "artemis_metric e cx = cx\<lparr>rx_metrics := rx_metrics cx @ [e]\<rparr>"

definition artemis_deliver :: "artemis_block \<Rightarrow> artemis_cx \<Rightarrow> artemis_cx" where
  "artemis_deliver b cx =
     cx\<lparr>rx_storage := add_delivered_block artemis_get_hash artemis_get_height b (rx_storage cx)\<rparr>"

text \<open>\<open>LinkedHashMap::insert\<close> moves a key that is already present to the back.\<close>

definition lhm_insert :: "'k \<Rightarrow> 'k list \<Rightarrow> 'k list" where
  "lhm_insert k ks = hs_remove k ks @ [k]"

definition artemis_Context_new ::
  "ext \<Rightarrow> node_config \<Rightarrow> (replica \<times> bytes) list \<Rightarrow> batch_cache \<Rightarrow> (bytes, bytes) fmap \<Rightarrow> artemis_cx res" where
  "artemis_Context_new E config pks cache st =
     rbind (net_new E config pks) (\<lambda>net.
     rbind (sub_u64 (nc_num_faults config) 1) (\<lambda>first.
     rbind (mul_u64 (nc_payload config) (nc_block_size config)) (\<lambda>pl.
     let c =
       \<lparr>rx_net = net, rx_batch = batch_ctx_new cache st, rx_storage = Storage_new, vote_chain = fmempty,
        rx_round_leader = first mod 2 ^ 16, last_f_leaders = [], eligible_leaders = [], view_leader = 0,
        rx_view = 0, rx_round = 1, rx_last_seen_block = artemis_GENESIS_BLOCK E,
        last_voted_block = artemis_GENESIS_BLOCK E, rx_req_ctr = 0, rx_payload = pl,
        rx_block_size = nc_block_size config, rx_bench_committed_tx_count = 0,
        rx_bench_emit_window_secs = max (nc_bench_emit_window_secs config) 1,
        rx_bench_metrics_node = nc_bench_metrics_node config, vote_waiting = fmempty, vote_ready = fmempty,
        block_processing_waiting = [], response_waiting = [], rx_metrics = [], rx_other_buf = [],
        block_parent_waiting = fmempty, undelivered_blocks = fmempty\<rparr>;
       c = artemis_deliver (rx_last_seen_block c) c;
       c = c\<lparr>last_f_leaders := fold (\<lambda>i. lhm_insert (i mod 2 ^ 16)) [0..<nc_num_faults config] (last_f_leaders c)\<rparr>
     in Inr (c\<lparr>eligible_leaders := eligible_leaders c @
                 map (\<lambda>i. i mod 2 ^ 16) [nc_num_faults config..<nc_num_nodes config]\<rparr>))))"

text \<open>
  The index is the last eight bytes of the hash, read big-endian, modulo the number of eligible
  leaders. Slicing and converting need a hash of 32 bytes, which SHA-256 gives.
\<close>

definition compute_next_round_leader :: "ext \<Rightarrow> artemis_cx \<Rightarrow> (replica \<times> nat) res" where
  "compute_next_round_leader E cx =
     rbind (add_u64 (rx_round cx) 1) (\<lambda>r.
     let h = do_hash E (to_be_bytes r)
     in if length (drop 24 h) \<noteq> 8 then Inl (Panic ''called Result::unwrap on an Err value'')
        else if eligible_leaders cx = [] then Inl (Panic ''attempt to calculate the remainder with a divisor of zero'')
        else let idx = from_be_bytes (drop 24 h) mod length (eligible_leaders cx)
             in Inr (eligible_leaders cx ! idx, idx))"

definition next_round_leader :: "ext \<Rightarrow> artemis_cx \<Rightarrow> replica res" where
  "next_round_leader E cx = rbind (compute_next_round_leader E cx) (\<lambda>(leader, _). Inr leader)"

definition artemis_update_round :: "ext \<Rightarrow> artemis_cx \<Rightarrow> artemis_cx res" where
  "artemis_update_round E cx =
     (let cx = artemis_metric RecRoundAdvance cx
      in rbind (compute_next_round_leader E cx) (\<lambda>(new_leader, idx).
         let cx = cx\<lparr>rx_round_leader := new_leader\<rparr>
         in rbind (add_u64 (rx_round cx) 1) (\<lambda>r.
            let cx = cx\<lparr>rx_round := r\<rparr>
            in case last_f_leaders cx of
                 [] \<Rightarrow> Inl (Panic ''called Option::unwrap on a None value'')
               | eligible_again # rest \<Rightarrow>
                   let cx = cx\<lparr>last_f_leaders := lhm_insert (rx_round_leader cx) rest\<rparr>;
                       cx = cx\<lparr>eligible_leaders := (eligible_leaders cx)[idx := eligible_again]\<rparr>
                   in Inr (cx\<lparr>rx_net := gc_handlers E (rx_net cx)\<rparr>))))"

definition artemis_notify :: "batcher_msg \<Rightarrow> artemis_cx \<Rightarrow> artemis_cx" where
  "artemis_notify m cx = cx\<lparr>rx_batch := notify_batcher m (rx_batch cx)\<rparr>"

definition announce_height_to_batcher :: "artemis_cx \<Rightarrow> artemis_cx res" where
  "announce_height_to_batcher cx =
     rbind (add_u64 (blk_height (ab_blk (rx_last_seen_block cx))) 1) (\<lambda>next_height.
     Inr (artemis_notify (NewRound (view_leader cx) next_height) cx))"

definition artemis_send :: "ext \<Rightarrow> replica \<Rightarrow> artemis_msg \<Rightarrow> artemis_cx \<Rightarrow> artemis_cx" where
  "artemis_send E dest msg cx = cx\<lparr>rx_net := send E (rx_round cx) dest msg (rx_net cx)\<rparr>"

definition artemis_multicast :: "ext \<Rightarrow> artemis_msg \<Rightarrow> artemis_cx \<Rightarrow> artemis_cx" where
  "artemis_multicast E msg cx = cx\<lparr>rx_net := multicast E (rx_round cx) msg (rx_net cx)\<rparr>"

section \<open>Delivery\<close>

text \<open>A delivered block becomes the last seen one when it is higher; the flag records it.\<close>

definition artemis_see :: "artemis_block \<Rightarrow> artemis_cx \<times> bool \<Rightarrow> artemis_cx \<times> bool" where
  "artemis_see b = (\<lambda>(cx, advanced).
     let cx = artemis_deliver b cx
     in if artemis_get_height (rx_last_seen_block cx) < artemis_get_height b
        then (cx\<lparr>rx_last_seen_block := b\<rparr>, True) else (cx, advanced))"

text \<open>A vote that waited for block \<open>h\<close> becomes ready.\<close>

definition artemis_wake_vote :: "hash \<Rightarrow> artemis_cx \<Rightarrow> artemis_cx" where
  "artemis_wake_vote h cx =
     (case fmlookup (vote_waiting cx) h of
        None \<Rightarrow> cx
      | Some v \<Rightarrow>
          cx\<lparr>vote_waiting := fmdrop h (vote_waiting cx), vote_ready := fmupd (uv_round v) v (vote_ready cx)\<rparr>)"

text \<open>One turn of the loop over the blocks that wait for a parent.\<close>

definition artemis_child_turn :: "hash \<Rightarrow> artemis_cx \<times> bool \<Rightarrow> artemis_cx \<times> bool" where
  "artemis_child_turn child s =
     (let (cx, advanced) =
        (case fmlookup (undelivered_blocks (fst s)) child of
           None \<Rightarrow> s
         | Some b \<Rightarrow>
             artemis_see b ((fst s)\<lparr>undelivered_blocks := fmdrop child (undelivered_blocks (fst s))\<rparr>, snd s))
      in (artemis_wake_vote child cx, advanced))"

lemma artemis_see_frame [simp]:
  "block_parent_waiting (fst (artemis_see b s)) = block_parent_waiting (fst s)"
  "rx_batch (fst (artemis_see b s)) = rx_batch (fst s)"
  by (cases s; simp add: artemis_see_def artemis_deliver_def Let_def)+

lemma artemis_wake_vote_frame [simp]:
  "block_parent_waiting (artemis_wake_vote h cx) = block_parent_waiting cx"
  "rx_batch (artemis_wake_vote h cx) = rx_batch cx"
  by (simp_all add: artemis_wake_vote_def split: option.splits)

lemma artemis_child_turn_frame [simp]:
  "block_parent_waiting (fst (artemis_child_turn c s)) = block_parent_waiting (fst s)"
  "rx_batch (fst (artemis_child_turn c s)) = rx_batch (fst s)"
  by (simp_all add: artemis_child_turn_def case_prod_beta split: option.splits)

text \<open>Each turn removes an entry of \<open>block_parent_waiting\<close>, so the loop ends.\<close>

function artemis_children :: "hash \<Rightarrow> artemis_cx \<times> bool \<Rightarrow> artemis_cx \<times> bool" where
  "artemis_children h s =
     (case fmlookup (block_parent_waiting (fst s)) h of
        None \<Rightarrow> s
      | Some child \<Rightarrow>
          artemis_children child
            (artemis_child_turn child
              ((fst s)\<lparr>block_parent_waiting := fmdrop h (block_parent_waiting (fst s))\<rparr>, snd s)))"
  by pat_completeness auto
termination
  by (relation "measure (\<lambda>(h, s). fcard (fmdom (block_parent_waiting (fst s))))")
    (auto intro: fcard_fmdrop_less simp del: fmdom_drop)

declare artemis_children.simps [simp del]

definition do_delivery :: "artemis_block \<Rightarrow> artemis_cx \<Rightarrow> artemis_cx res" where
  "do_delivery b cx =
     (let b_hash = artemis_get_hash b;
          (cx, advanced) = artemis_see b (cx, False);
          cx = cx\<lparr>undelivered_blocks := fmdrop b_hash (undelivered_blocks cx)\<rparr>;
          cx = artemis_wake_vote b_hash cx;
          (cx, advanced) = artemis_children b_hash (cx, advanced)
      in if advanced then announce_height_to_batcher cx else Inr cx)"

definition on_receive_new_block_direct :: "ext \<Rightarrow> artemis_block \<Rightarrow> artemis_cx \<Rightarrow> artemis_cx res" where
  "on_receive_new_block_direct E b cx =
     (if is_delivered_by_hash (rx_storage cx) (artemis_get_hash b) then Inr cx
      else if \<not> is_delivered_by_hash (rx_storage cx) (ab_prev b) then Inr cx
      else if view_leader cx \<noteq> artemis_get_author b \<or> view_leader cx \<noteq> v_origin (ab_sig b) then Inr cx
      else
        rbind (if view_leader cx \<noteq> rx_myid cx
               then rbind (expect ''Must have this node's pubkey'' (fmlookup (nx_pub_key_map (rx_net cx)) (view_leader cx)))
                     (\<lambda>pk. Inr (artemis_block_check_sig E pk b))
               else Inr True) (\<lambda>valid.
        if valid then do_delivery b cx else Inr cx))"

definition artemis_check_batch_hash :: "ext \<Rightarrow> artemis_block \<Rightarrow> cached_batch \<Rightarrow> bool" where
  "artemis_check_batch_hash E b batch \<longleftrightarrow> fst (CachedBatch_hash E batch) = blk_batch_hash (ab_blk b)"

definition artemis_new_block :: "ext \<Rightarrow> hash \<Rightarrow> artemis_cx \<Rightarrow> artemis_block res" where
  "artemis_new_block E batch_hash cx =
     (let nb = artemis_with_batch E batch_hash; parent = rx_last_seen_block cx
      in rbind (add_u64 (artemis_get_height parent) 1) (\<lambda>height.
         let nb = nb\<lparr>ab_blk := (ab_blk nb)\<lparr>blk_header := (blk_header (ab_blk nb))\<lparr>
                  hdr_prev := artemis_get_hash parent, hdr_author := rx_myid cx, hdr_height := height\<rparr>\<rparr>,
                ab_sig := (ab_sig nb)\<lparr>v_origin := rx_myid cx\<rparr>\<rparr>
         in artemis_block_sign E (nx_my_secret_key (rx_net cx)) (artemis_block_init E nb)))"

definition do_new_block :: "ext \<Rightarrow> hash \<Rightarrow> cached_batch \<Rightarrow> artemis_cx \<Rightarrow> artemis_cx res" where
  "do_new_block E batch_hash batch cx =
     (let cx = artemis_metric RecPropose cx
      in rbind (artemis_new_block E batch_hash cx) (\<lambda>nb.
         let cx = artemis_multicast E (ArNewBlock nb batch) cx;
             cx = artemis_notify (Proposed batch (blk_height (ab_blk nb))) cx
         in on_receive_new_block_direct E nb cx))"

section \<open>Commit\<close>

definition artemis_announce_commit :: "ext \<Rightarrow> artemis_block \<Rightarrow> artemis_cx \<Rightarrow> artemis_cx" where
  "artemis_announce_commit E b cx =
     (case read_batch E (blk_batch_hash (ab_blk b)) (rx_batch cx) of
        (None, x) \<Rightarrow> cx\<lparr>rx_batch := x\<rparr>
      | (Some batch, x) \<Rightarrow>
          cx\<lparr>rx_bench_committed_tx_count :=
               saturating_add_u64 (rx_bench_committed_tx_count cx) (length (cb_payload batch)),
             rx_batch := notify_router batch (notify_batcher (Committed batch (blk_height (ab_blk b))) x)\<rparr>)"

definition artemis_do_commit :: "ext \<Rightarrow> artemis_cx \<Rightarrow> artemis_cx res" where
  "artemis_do_commit E cx =
     rbind (debug_assert ''cx.round() > cx.num_faults() as u64'' (rx_round cx > rx_num_faults cx) ()) (\<lambda>_.
     rbind (sub_u64 (rx_round cx) (rx_num_faults cx)) (\<lambda>commit_round.
     rbind (expect ''called Option::unwrap on a None value'' (fmlookup (vote_chain cx) commit_round)) (\<lambda>v.
     rbind (commit_chain artemis_get_hash artemis_get_height (\<lambda>b. ab_prev b) (uv_hash v) (rx_storage cx))
       (\<lambda>(newly_committed, st).
     Inr (fold (artemis_announce_commit E) (rev newly_committed) (cx\<lparr>rx_storage := st\<rparr>))))))"

section \<open>Votes\<close>

definition on_receive_round_vote :: "ext \<Rightarrow> ucr_vote \<Rightarrow> artemis_cx \<Rightarrow> artemis_cx res" where
  "on_receive_round_vote E v cx =
     (if rx_view cx \<noteq> uv_view v then Inr cx
      else
        rbind (if rx_myid cx \<noteq> rx_round_leader cx
               then rbind (expect ''no entry found for key'' (fmlookup (nx_pub_key_map (rx_net cx)) (rx_round_leader cx)))
                     (\<lambda>pk. Inr (UCRVote_check_sig E pk v))
               else Inr True) (\<lambda>valid.
        if \<not> valid then Inr cx
        else
          let cx = cx\<lparr>vote_chain := fmupd (uv_round v) v (vote_chain cx)\<rparr>
          in rbind (if rx_round cx > rx_num_faults cx then artemis_do_commit E cx else Inr cx) (\<lambda>cx.
             rbind (expect ''Obtained a vote for an unknown hash'' (delivered_block_from_hash (rx_storage cx) (uv_hash v))) (\<lambda>b.
             let cx = cx\<lparr>last_voted_block := b\<rparr>
             in rbind (next_round_leader E cx) (\<lambda>l.
                artemis_update_round E (artemis_send E l (ArRelay (rx_myid cx) v) cx))))))"

definition do_round_vote :: "ext \<Rightarrow> artemis_cx \<Rightarrow> artemis_cx res" where
  "do_round_vote E cx =
     (let cx = artemis_metric RecVote cx;
          v = (UCRVote_new E)\<lparr>uv_hash := artemis_get_hash (rx_last_seen_block cx), uv_round := rx_round cx, uv_view := rx_view cx\<rparr>
      in rbind (UCRVote_compute_sig E (rx_myid cx) (nx_my_secret_key (rx_net cx)) v) (\<lambda>v.
         on_receive_round_vote E v (artemis_multicast E (ArUCRVote v) cx)))"

definition try_round_vote :: "ext \<Rightarrow> artemis_cx \<Rightarrow> artemis_cx res" where
  "try_round_vote E cx =
     (if rx_myid cx \<noteq> rx_round_leader cx then Inr cx
      else if artemis_get_height (rx_last_seen_block cx) \<le> artemis_get_height (last_voted_block cx) then Inr cx
      else do_round_vote E cx)"

text \<open>Ask for the block of a vote and park the vote.\<close>

definition artemis_await_block :: "ext \<Rightarrow> replica \<Rightarrow> ucr_vote \<Rightarrow> artemis_cx \<Rightarrow> artemis_cx" where
  "artemis_await_block E from v cx =
     (let cx = artemis_send E from (ArRequest (rx_myid cx) (rx_req_ctr cx) (uv_hash v)) cx
      in cx\<lparr>vote_waiting := fmupd (uv_hash v) v (vote_waiting cx)\<rparr>)"

definition try_receive_round_vote :: "ext \<Rightarrow> replica \<Rightarrow> ucr_vote \<Rightarrow> artemis_cx \<Rightarrow> artemis_cx res" where
  "try_receive_round_vote E from v cx =
     (if rx_round cx > uv_round v then Inr cx
      else if rx_round cx < uv_round v then
        (if is_delivered_by_hash (rx_storage cx) (uv_hash v)
         then Inr (cx\<lparr>vote_ready := fmupd (uv_round v) v (vote_ready cx)\<rparr>)
         else Inr (artemis_await_block E from v cx))
      else if \<not> is_delivered_by_hash (rx_storage cx) (uv_hash v) then Inr (artemis_await_block E from v cx)
      else on_receive_round_vote E v cx)"

section \<open>Messages\<close>

definition artemis_do_request :: "ext \<Rightarrow> replica \<Rightarrow> hash \<Rightarrow> artemis_cx \<Rightarrow> artemis_cx" where
  "artemis_do_request E sender h cx = artemis_send E sender (ArRequest (rx_myid cx) (rx_req_ctr cx) h) cx"

definition update_delivery :: "ext \<Rightarrow> artemis_block \<Rightarrow> replica \<Rightarrow> artemis_cx \<Rightarrow> artemis_cx res" where
  "update_delivery E b sender cx =
     (if is_delivered_by_hash (rx_storage cx) (artemis_get_hash b) then Inr cx
      else
        let p_hash = ab_prev b
        in if fmmem p_hash (block_parent_waiting cx) then Inr cx
           else if \<not> is_delivered_by_hash (rx_storage cx) p_hash then
             let b_hash = artemis_get_hash b;
                 cx = cx\<lparr>block_parent_waiting := fmupd p_hash b_hash (block_parent_waiting cx)\<rparr>;
                 cx = cx\<lparr>undelivered_blocks := fmupd b_hash b (undelivered_blocks cx)\<rparr>
             in Inr (artemis_do_request E sender b_hash cx)
           else do_delivery b cx)"

definition artemis_handle_request :: "ext \<Rightarrow> replica \<Rightarrow> nat \<Rightarrow> hash \<Rightarrow> artemis_cx \<Rightarrow> artemis_cx" where
  "artemis_handle_request E sender req_id h cx =
     (case (case delivered_block_from_hash (rx_storage cx) h of
              Some b \<Rightarrow> Some b
            | None \<Rightarrow> fmlookup (undelivered_blocks cx) h) of
        None \<Rightarrow> cx
      | Some b \<Rightarrow>
          (case read_batch E (blk_batch_hash (ab_blk b)) (rx_batch cx) of
             (None, x) \<Rightarrow> cx\<lparr>rx_batch := x\<rparr>
           | (Some batch, x) \<Rightarrow>
               let cx = cx\<lparr>rx_batch := x\<rparr>
               in artemis_send E sender (ArResponse (rx_myid cx) req_id b batch) cx))"

definition artemis_on_receive_blame :: "vote \<Rightarrow> artemis_cx \<Rightarrow> artemis_cx res" where
  "artemis_on_receive_blame v cx = Inl (Panic ''Currently unimplemented'')"

definition buffer_message :: "artemis_msg \<Rightarrow> artemis_cx \<Rightarrow> artemis_cx" where
  "buffer_message m cx =
     (case m of
        ArInvalid \<Rightarrow> cx
      | ArNewBlock b batch \<Rightarrow> cx\<lparr>block_processing_waiting := block_processing_waiting cx @ [(b, batch)]\<rparr>
      | ArResponse from _ b batch \<Rightarrow> cx\<lparr>response_waiting := response_waiting cx @ [(from, b, batch)]\<rparr>
      | x \<Rightarrow> cx\<lparr>rx_other_buf := rx_other_buf cx @ [x]\<rparr>)"

definition artemis_handle_other :: "ext \<Rightarrow> artemis_msg \<Rightarrow> artemis_cx \<Rightarrow> artemis_cx res" where
  "artemis_handle_other E m cx =
     (case m of
        ArUCRVote v \<Rightarrow> try_receive_round_vote E (UCRVote_origin v) v cx
      | ArRelay from v \<Rightarrow> try_receive_round_vote E from v cx
      | ArRequest from req_id h \<Rightarrow> Inr (artemis_handle_request E from req_id h cx)
      | ArBlame v \<Rightarrow> artemis_on_receive_blame v cx
      | _ \<Rightarrow> Inl (Panic ''unreachable''))"

definition artemis_process_new_block :: "ext \<Rightarrow> artemis_block \<times> cached_batch \<Rightarrow> artemis_cx \<Rightarrow> artemis_cx res" where
  "artemis_process_new_block E = (\<lambda>(b, batch) cx.
     if \<not> artemis_check_batch_hash E b batch then Inr cx
     else on_receive_new_block_direct E b
            (cx\<lparr>rx_batch := persist_batch E (blk_batch_hash (ab_blk b)) (snd (CachedBatch_hash E batch)) (rx_batch cx)\<rparr>))"

definition artemis_process_response ::
  "ext \<Rightarrow> replica \<times> artemis_block \<times> cached_batch \<Rightarrow> artemis_cx \<Rightarrow> artemis_cx res" where
  "artemis_process_response E = (\<lambda>(sender, b, batch) cx.
     if \<not> artemis_check_batch_hash E b batch then Inr cx
     else update_delivery E b sender
            (cx\<lparr>rx_batch := persist_batch E (blk_batch_hash (ab_blk b)) (snd (CachedBatch_hash E batch)) (rx_batch cx)\<rparr>))"

text \<open>What receiving a vote leaves alone.\<close>

lemma artemis_announce_one:
  "\<exists>x n. artemis_announce_commit E b cx = cx\<lparr>rx_batch := x, rx_bench_committed_tx_count := n\<rparr> \<and>
     bx_pending x = bx_pending (rx_batch cx)"
proof -
  obtain r x where rd: "read_batch E (blk_batch_hash (ab_blk b)) (rx_batch cx) = (r, x)" by fastforce
  then have pend: "bx_pending x = bx_pending (rx_batch cx)" by (rule read_batch_result)
  show ?thesis
  proof (cases r)
    case None
    with rd pend show ?thesis
      by (intro exI [of _ x] exI [of _ "rx_bench_committed_tx_count cx"]) (simp add: artemis_announce_commit_def)
  next
    case (Some batch)
    with rd pend show ?thesis
      by (intro exI [of _ "notify_router batch (notify_batcher (Committed batch (blk_height (ab_blk b))) x)"]
          exI [of _ "saturating_add_u64 (rx_bench_committed_tx_count cx) (length (cb_payload batch))"])
        (simp add: artemis_announce_commit_def)
  qed
qed

lemma artemis_announce_fold:
  "\<exists>x n. fold (artemis_announce_commit E) bs cx = cx\<lparr>rx_batch := x, rx_bench_committed_tx_count := n\<rparr> \<and>
     bx_pending x = bx_pending (rx_batch cx)"
proof (induction bs arbitrary: cx)
  case Nil
  show ?case by (intro exI [of _ "rx_batch cx"] exI [of _ "rx_bench_committed_tx_count cx"]) simp
next
  case (Cons b bs)
  obtain y k where c: "artemis_announce_commit E b cx = cx\<lparr>rx_batch := y, rx_bench_committed_tx_count := k\<rparr>"
      "bx_pending y = bx_pending (rx_batch cx)" using artemis_announce_one by blast
  with Cons.IH [of "artemis_announce_commit E b cx"] show ?case by auto
qed

lemma artemis_do_commit_result:
  assumes "artemis_do_commit E cx = Inr cx'"
  obtains v newly st x n where "fmlookup (vote_chain cx) (rx_round cx - rx_num_faults cx) = Some v"
    "rx_num_faults cx < rx_round cx"
    "commit_chain artemis_get_hash artemis_get_height (\<lambda>b. ab_prev b) (uv_hash v) (rx_storage cx) = Inr (newly, st)"
    "cx' = cx\<lparr>rx_storage := st, rx_batch := x, rx_bench_committed_tx_count := n\<rparr>"
    "bx_pending x = bx_pending (rx_batch cx)"
proof -
  obtain v newly st where *: "fmlookup (vote_chain cx) (rx_round cx - rx_num_faults cx) = Some v"
    "rx_num_faults cx < rx_round cx"
    "commit_chain artemis_get_hash artemis_get_height (\<lambda>b. ab_prev b) (uv_hash v) (rx_storage cx) = Inr (newly, st)"
    "cx' = fold (artemis_announce_commit E) (rev newly) (cx\<lparr>rx_storage := st\<rparr>)"
    using assms by (auto simp: artemis_do_commit_def sub_u64_Inr_iff)
  moreover obtain x n where "fold (artemis_announce_commit E) (rev newly) (cx\<lparr>rx_storage := st\<rparr>)
      = cx\<lparr>rx_storage := st, rx_batch := x, rx_bench_committed_tx_count := n\<rparr>" "bx_pending x = bx_pending (rx_batch cx)"
    using artemis_announce_fold [of E "rev newly" "cx\<lparr>rx_storage := st\<rparr>"] by auto
  ultimately show thesis using that by simp
qed

definition same_buffers :: "artemis_cx \<Rightarrow> artemis_cx \<Rightarrow> bool" where
  "same_buffers cx cx' \<longleftrightarrow>
     block_processing_waiting cx' = block_processing_waiting cx \<and> response_waiting cx' = response_waiting cx \<and>
     rx_other_buf cx' = rx_other_buf cx \<and> bx_pending (rx_batch cx') = bx_pending (rx_batch cx)"

lemma artemis_update_round_result:
  assumes "artemis_update_round E cx = Inr cx'"
  obtains l idx e rest where "compute_next_round_leader E cx = Inr (l, idx)" "last_f_leaders cx = e # rest"
    "rx_round cx + 1 < 2 ^ 64"
    "cx' = (artemis_metric RecRoundAdvance cx)\<lparr>rx_round_leader := l, rx_round := rx_round cx + 1,
       last_f_leaders := lhm_insert l rest, eligible_leaders := (eligible_leaders cx)[idx := e],
       rx_net := gc_handlers E (rx_net cx)\<rparr>"
proof -
  have "compute_next_round_leader E (artemis_metric RecRoundAdvance cx) = compute_next_round_leader E cx"
    by (simp add: compute_next_round_leader_def artemis_metric_def cong: if_cong)
  with assms that show thesis
    by (auto simp: artemis_update_round_def artemis_metric_def Let_def add_u64_Inr_iff split: list.splits)
qed

lemma on_receive_round_vote_frame:
  assumes "on_receive_round_vote E v cx = Inr cx'"
  shows "vote_ready cx' = vote_ready cx \<and> same_buffers cx cx'"
proof (cases "cx' = cx")
  case True
  then show ?thesis by (simp add: same_buffers_def)
next
  case False
  let ?c = "cx\<lparr>vote_chain := fmupd (uv_round v) v (vote_chain cx)\<rparr>"
  from assms False obtain c b l m where c: "(if rx_round ?c > rx_num_faults ?c then artemis_do_commit E ?c else Inr ?c) = Inr c"
      "artemis_update_round E (artemis_send E l m (c\<lparr>last_voted_block := b\<rparr>)) = Inr cx'"
    by (auto simp: on_receive_round_vote_def Let_def split: if_splits)
  have "vote_ready c = vote_ready cx \<and> same_buffers cx c"
    using c(1) by (auto simp: same_buffers_def split: if_splits elim!: artemis_do_commit_result)
  with c(2) show ?thesis
    by (auto simp: same_buffers_def artemis_send_def artemis_metric_def elim!: artemis_update_round_result)
qed

text \<open>Votes that are ready for the current round; each turn removes one, so the loop ends.\<close>

function artemis_ready_votes :: "ext \<Rightarrow> artemis_cx \<Rightarrow> artemis_cx res" where
  "artemis_ready_votes E cx =
     (case fmlookup (vote_ready cx) (rx_round cx) of
        None \<Rightarrow> Inr cx
      | Some v \<Rightarrow>
          rbind (on_receive_round_vote E v (cx\<lparr>vote_ready := fmdrop (rx_round cx) (vote_ready cx)\<rparr>))
            (artemis_ready_votes E))"
  by pat_completeness auto
termination
proof (relation "measure (\<lambda>(E, cx). fcard (fmdom (vote_ready cx)))", goal_cases)
  case (2 E cx v cx')
  then have "vote_ready cx' = fmdrop (rx_round cx) (vote_ready cx)"
    using on_receive_round_vote_frame [OF 2(2)] by simp
  with 2(1) fcard_fmdrop_less [of "vote_ready cx" "rx_round cx" v] show ?case by simp
qed simp

declare artemis_ready_votes.simps [simp del]

text \<open>The queues are drained in turn; no handler extends them.\<close>

definition artemis_process_message :: "ext \<Rightarrow> artemis_cx \<Rightarrow> artemis_cx res" where
  "artemis_process_message E cx =
     rbind (rfold (artemis_process_new_block E) (block_processing_waiting cx) (cx\<lparr>block_processing_waiting := []\<rparr>)) (\<lambda>cx.
     rbind (rfold (artemis_process_response E) (response_waiting cx) (cx\<lparr>response_waiting := []\<rparr>)) (\<lambda>cx.
     rbind (artemis_ready_votes E cx) (\<lambda>cx.
     rbind (rfold (artemis_handle_other E) (rx_other_buf cx) (cx\<lparr>rx_other_buf := []\<rparr>)) (\<lambda>cx.
     artemis_ready_votes E cx))))"

section \<open>Reactor\<close>

lemma do_delivery_pending:
  assumes "do_delivery b cx = Inr cx'"
  shows "bx_pending (rx_batch cx') = bx_pending (rx_batch cx)"
proof -
  have kids: "rx_batch (fst (artemis_children h s)) = rx_batch (fst s)" for h s
  proof (induction h s rule: artemis_children.induct)
    case (1 h s)
    then show ?case by (simp add: artemis_children.simps [of h s] split: option.splits)
  qed
  obtain c adv where c: "artemis_see b (cx, False) = (c, adv)" by fastforce
  then have "rx_batch c = rx_batch cx" using artemis_see_frame(2) [of b "(cx, False)"] by simp
  with kids c assms show ?thesis
    by (auto simp: do_delivery_def Let_def case_prod_beta announce_height_to_batcher_def artemis_notify_def split: if_splits)
qed

lemma do_new_block_pending:
  assumes "do_new_block E bh batch cx = Inr cx'"
  shows "bx_pending (rx_batch cx') = bx_pending (rx_batch cx)"
proof -
  have "bx_pending (rx_batch c') = bx_pending (rx_batch c)" if "on_receive_new_block_direct E b c = Inr c'" for b c c'
    using that by (auto simp: on_receive_new_block_direct_def dest!: do_delivery_pending split: if_splits)
  with assms show ?thesis
    by (fastforce simp: do_new_block_def Let_def artemis_notify_def artemis_multicast_def artemis_metric_def)
qed

text \<open>The view leader dispatches every batch the mempool has announced.\<close>

function artemis_drain :: "ext \<Rightarrow> artemis_cx \<Rightarrow> artemis_cx res" where
  "artemis_drain E cx =
     (if view_leader cx = rx_myid cx then
        (case bx_pending (rx_batch cx) of
           [] \<Rightarrow> Inr cx
         | (bh, batch) # rest \<Rightarrow>
             rbind (do_new_block E bh batch (cx\<lparr>rx_batch := (rx_batch cx)\<lparr>bx_pending := rest\<rparr>\<rparr>)) (artemis_drain E))
      else Inr cx)"
  by pat_completeness auto
termination
  by (relation "measure (\<lambda>(E, cx). length (bx_pending (rx_batch cx)))") (auto dest!: do_new_block_pending)

declare artemis_drain.simps [simp del]

datatype artemis_event =
    ArTick
  | ArNet "artemis_msg list"
  | ArNetError
  | ArNetClosed
  | ArBatchReady hash cached_batch
  | ArMempoolClosed

text \<open>What follows the \<open>select!\<close> of an iteration.\<close>

definition artemis_after_select :: "ext \<Rightarrow> artemis_cx \<Rightarrow> artemis_cx res" where
  "artemis_after_select E cx = rbind (artemis_drain E cx) (try_round_vote E)"

definition artemis_reactor_step :: "ext \<Rightarrow> artemis_event \<Rightarrow> artemis_cx \<Rightarrow> artemis_cx reactor_outcome res" where
  "artemis_reactor_step E ev cx =
     (let cx = artemis_metric RecReactorIter cx;
          continue = (\<lambda>cx. rbind (artemis_after_select E cx) (\<lambda>cx. Inr (Continue cx)))
      in case ev of
           ArTick \<Rightarrow>
             continue (if rx_myid cx = rx_bench_metrics_node cx then cx\<lparr>rx_bench_committed_tx_count := 0\<rparr> else cx)
         | ArNet msgs \<Rightarrow> rbind (artemis_process_message E (fold buffer_message msgs cx)) continue
         | ArNetError \<Rightarrow> Inr (Continue cx)
         | ArNetClosed \<Rightarrow> Inr ProcessExit
         | ArBatchReady bh batch \<Rightarrow>
             (let cx = artemis_metric RecBatchRecv cx
              in continue (cx\<lparr>rx_batch := (rx_batch cx)\<lparr>bx_pending := bx_pending (rx_batch cx) @ [(bh, batch)]\<rparr>\<rparr>))
         | ArMempoolClosed \<Rightarrow> Inr ReactorBreak)"

definition artemis_reactor_start ::
  "ext \<Rightarrow> node_config \<Rightarrow> (replica \<times> bytes) list \<Rightarrow> batch_cache \<Rightarrow> (bytes, bytes) fmap \<Rightarrow> artemis_cx res" where
  "artemis_reactor_start E config pks cache st =
     rbind (artemis_Context_new E config pks cache st) announce_height_to_batcher"

end
