(* ===== verification/Leader_Rotation.thy ===== *)
theory Leader_Rotation
  imports Artemis_Node "HOL-Library.Multiset"
begin

text \<open>
  The rotation of Artemis' round leaders as a function of the round alone: the abstract schedule
  that \<open>update_round\<close> refines. State: the last \<open>f\<close> leaders, oldest first, and the eligible ones.
\<close>

section \<open>The schedule\<close>

definition pick_index :: "ext \<Rightarrow> round \<Rightarrow> nat \<Rightarrow> nat" where
  "pick_index E r n = from_be_bytes (drop 24 (do_hash E (to_be_bytes r))) mod n"

text \<open>\<open>rotation E n f k\<close> is the state in round \<open>k + 1\<close>.\<close>

fun rotation :: "ext \<Rightarrow> nat \<Rightarrow> nat \<Rightarrow> nat \<Rightarrow> replica list \<times> replica list" where
  "rotation E n f 0 = ([0..<f], [f..<n])"
| "rotation E n f (Suc k) =
     (let (l, e) = rotation E n f k; i = pick_index E (Suc (Suc k)) (length e)
      in (tl l @ [e ! i], e[i := hd l]))"

definition leader_of_round :: "ext \<Rightarrow> nat \<Rightarrow> nat \<Rightarrow> round \<Rightarrow> replica" where
  "leader_of_round E n f r = last (fst (rotation E n f (r - 1)))"

lemma rotate_mset: "i < length e \<Longrightarrow> add_mset (e ! i) (M + mset (e[i := h])) = add_mset h (M + mset e)"
proof -
  assume "i < length e"
  then have "add_mset (e ! i) (mset (e[i := h])) = add_mset h (mset e)" by (simp add: mset_update)
  then show ?thesis by (metis union_mset_add_mset_right)
qed

lemma rotation_perm:
  assumes "1 \<le> f" and "f < n"
  shows "length (fst (rotation E n f k)) = f \<and> length (snd (rotation E n f k)) = n - f \<and>
    mset (fst (rotation E n f k)) + mset (snd (rotation E n f k)) = mset [0..<n]"
proof (induction k)
  case 0
  have "mset [0..<n] = mset ([0..<f] @ [f..<n])" using assms upt_add_eq_append [of 0 f "n - f"] by simp
  then show ?case by simp
next
  case (Suc k)
  obtain l e where le: "rotation E n f k = (l, e)" by fastforce
  with Suc assms obtain h t where l: "l = h # t" by (cases l) auto
  define i where "i = pick_index E (Suc (Suc k)) (length e)"
  have i: "i < length e" using Suc le assms by (simp add: i_def pick_index_def)
  have "rotation E n f (Suc k) = (t @ [e ! i], e[i := h])" by (simp add: le l i_def Let_def)
  with Suc le l show ?case by (simp add: rotate_mset [OF i])
qed

lemma rotation_distinct:
  assumes "1 \<le> f" and "f < n"
  shows "distinct (fst (rotation E n f k) @ snd (rotation E n f k))"
    and "set (fst (rotation E n f k)) \<union> set (snd (rotation E n f k)) = {0..<n}"
proof -
  have m: "mset (fst (rotation E n f k) @ snd (rotation E n f k)) = mset [0..<n]"
    using rotation_perm [OF assms] by simp
  then show "distinct (fst (rotation E n f k) @ snd (rotation E n f k))"
    using mset_eq_imp_distinct_iff by fastforce
  show "set (fst (rotation E n f k)) \<union> set (snd (rotation E n f k)) = {0..<n}"
    using mset_eq_setD [OF m] by simp
qed

lemma leader_in_window:
  assumes "1 \<le> f" and "f < n" and "d < f"
  shows "leader_of_round E n f (Suc k) = fst (rotation E n f (k + d)) ! (f - 1 - d)"
  using assms(3)
proof (induction d)
  case 0
  have "length (fst (rotation E n f k)) = f" using rotation_perm [OF assms(1,2)] by blast
  moreover from this have "fst (rotation E n f k) \<noteq> []" using assms(1) by auto
  ultimately show ?case by (simp add: leader_of_round_def last_conv_nth)
next
  case (Suc d)
  obtain l e where le: "rotation E n f (k + d) = (l, e)" by fastforce
  have "length l = f" using rotation_perm [OF assms(1,2), of E "k + d"] le by simp
  moreover have "f - 1 - d = Suc (f - 1 - Suc d)" using Suc.prems by simp
  ultimately have "l ! (f - 1 - d) = tl l ! (f - 1 - Suc d)" using Suc.prems by (simp add: nth_tl)
  moreover have "(tl l @ xs) ! (f - 1 - Suc d) = tl l ! (f - 1 - Suc d)" for xs
    using \<open>length l = f\<close> Suc.prems by (auto simp: nth_append)
  ultimately show ?case using Suc le by (simp add: Let_def)
qed

lemma next_leader_eligible:
  assumes "1 \<le> f" and "f < n"
  shows "leader_of_round E n f (Suc (Suc k)) \<in> set (snd (rotation E n f k))"
proof -
  obtain l e where le: "rotation E n f k = (l, e)" by fastforce
  have "length e = n - f" using rotation_perm [OF assms, of E k] le by simp
  then have "pick_index E (Suc (Suc k)) (length e) < length e" using assms by (simp add: pick_index_def)
  then show ?thesis by (simp add: leader_of_round_def le Let_def)
qed

lemma leader_less:
  assumes "1 \<le> f" and "f < n"
  shows "leader_of_round E n f r < n"
proof -
  have "fst (rotation E n f (r - 1)) \<noteq> []" using rotation_perm [OF assms, of E "r - 1"] assms(1) by auto
  then have "leader_of_round E n f r \<in> set (fst (rotation E n f (r - 1)))" by (simp add: leader_of_round_def)
  then show ?thesis using rotation_distinct(2) [OF assms, of E "r - 1"] by auto
qed

section \<open>The context follows the schedule\<close>

text \<open>SHA-256 gives 32 bytes.\<close>

definition hash_32 :: "ext \<Rightarrow> bool" where
  "hash_32 E \<longleftrightarrow> (\<forall>bs. length (do_hash E bs) = 32)"

lemma sample_hash_32: "hash_32 sample_ext"
  by (auto simp: hash_32_def sample_ext_def min_def)

definition rotation_ok :: "ext \<Rightarrow> artemis_cx \<Rightarrow> bool" where
  "rotation_ok E cx \<longleftrightarrow>
     1 \<le> rx_num_faults cx \<and> rx_num_faults cx < rx_num_nodes cx \<and> rx_num_nodes cx \<le> 2 ^ 16 \<and> 1 \<le> rx_round cx \<and>
     rotation E (rx_num_nodes cx) (rx_num_faults cx) (rx_round cx - 1) = (last_f_leaders cx, eligible_leaders cx) \<and>
     rx_round_leader cx = leader_of_round E (rx_num_nodes cx) (rx_num_faults cx) (rx_round cx)"

lemma rotation_okD:
  assumes "rotation_ok E cx"
  shows "length (last_f_leaders cx) = rx_num_faults cx" and "eligible_leaders cx \<noteq> []" and "last_f_leaders cx \<noteq> []"
    and "distinct (last_f_leaders cx @ eligible_leaders cx)"
    and "set (last_f_leaders cx) \<union> set (eligible_leaders cx) = {0..<rx_num_nodes cx}"
    and "rx_round_leader cx = last (last_f_leaders cx)" and "rx_round_leader cx < rx_num_nodes cx"
proof -
  have fn: "1 \<le> rx_num_faults cx" "rx_num_faults cx < rx_num_nodes cx"
    and rot: "rotation E (rx_num_nodes cx) (rx_num_faults cx) (rx_round cx - 1) = (last_f_leaders cx, eligible_leaders cx)"
    and ld: "rx_round_leader cx = leader_of_round E (rx_num_nodes cx) (rx_num_faults cx) (rx_round cx)"
    using assms by (auto simp: rotation_ok_def)
  have "length (last_f_leaders cx) = rx_num_faults cx \<and> length (eligible_leaders cx) = rx_num_nodes cx - rx_num_faults cx"
    using rotation_perm [OF fn, of E "rx_round cx - 1"] rot by simp
  then show "length (last_f_leaders cx) = rx_num_faults cx" "eligible_leaders cx \<noteq> []" "last_f_leaders cx \<noteq> []"
    using fn by auto
  show "distinct (last_f_leaders cx @ eligible_leaders cx)"
    and "set (last_f_leaders cx) \<union> set (eligible_leaders cx) = {0..<rx_num_nodes cx}"
    using rotation_distinct [OF fn, of E "rx_round cx - 1"] rot by simp_all
  show "rx_round_leader cx = last (last_f_leaders cx)" using ld rot by (simp add: leader_of_round_def)
  show "rx_round_leader cx < rx_num_nodes cx" using ld leader_less [OF fn] by simp
qed

lemma compute_next_leader_ok:
  assumes "hash_32 E" and "rotation_ok E cx" and "rx_round cx + 1 < 2 ^ 64"
  shows "compute_next_round_leader E cx =
    (let i = pick_index E (Suc (rx_round cx)) (length (eligible_leaders cx)) in Inr (eligible_leaders cx ! i, i))"
  using assms rotation_okD(2) [OF assms(2)]
  by (simp add: compute_next_round_leader_def add_u64_def hash_32_def pick_index_def Let_def)

lemma compute_next_leader_overflow:
  assumes "\<not> rx_round cx + 1 < 2 ^ 64"
  shows "compute_next_round_leader E cx = Inl Overflow"
  using assms by (simp add: compute_next_round_leader_def add_u64_def)

lemma update_round_refines:
  assumes "hash_32 E" and "rotation_ok E cx" and "rx_round cx + 1 < 2 ^ 64"
  shows "\<exists>l' e'. artemis_update_round E cx = Inr ((artemis_metric RecRoundAdvance cx)\<lparr>
      rx_round_leader := leader_of_round E (rx_num_nodes cx) (rx_num_faults cx) (Suc (rx_round cx)),
      rx_round := Suc (rx_round cx), last_f_leaders := l', eligible_leaders := e', rx_net := gc_handlers E (rx_net cx)\<rparr>) \<and>
    rotation E (rx_num_nodes cx) (rx_num_faults cx) (rx_round cx) = (l', e')"
proof -
  let ?n = "rx_num_nodes cx" and ?f = "rx_num_faults cx" and ?r = "rx_round cx"
  let ?i = "pick_index E (Suc ?r) (length (eligible_leaders cx))"
  obtain h t where ht: "last_f_leaders cx = h # t" using rotation_okD(3) [OF assms(2)] by (cases "last_f_leaders cx") auto
  obtain k where r: "?r = Suc k" "rotation E ?n ?f k = (last_f_leaders cx, eligible_leaders cx)"
    using assms(2) by (cases ?r) (auto simp: rotation_ok_def)
  have rot: "rotation E ?n ?f ?r = (t @ [eligible_leaders cx ! ?i], (eligible_leaders cx)[?i := h])"
    by (simp add: r ht Let_def)
  have "?i < length (eligible_leaders cx)" using rotation_okD(2) [OF assms(2)] by (simp add: pick_index_def)
  then have "eligible_leaders cx ! ?i \<notin> set t" using rotation_okD(4) [OF assms(2)] ht by auto
  then have "lhm_insert (eligible_leaders cx ! ?i) t = t @ [eligible_leaders cx ! ?i]"
    by (auto simp: lhm_insert_def hs_remove_def filter_id_conv)
  moreover have "leader_of_round E ?n ?f (Suc ?r) = eligible_leaders cx ! ?i" by (simp add: leader_of_round_def rot)
  moreover have "compute_next_round_leader E (artemis_metric RecRoundAdvance cx) = compute_next_round_leader E cx"
    by (simp add: compute_next_round_leader_def artemis_metric_def cong: if_cong)
  ultimately show ?thesis
    using compute_next_leader_ok [OF assms] assms(3) ht rot
    by (simp add: artemis_update_round_def Let_def add_u64_def artemis_metric_def)
qed

lemma rotation_ok_update:
  assumes "hash_32 E" and "rotation_ok E cx" and "artemis_update_round E cx = Inr cx'"
  shows "rotation_ok E cx'"
proof -
  have "rx_round cx + 1 < 2 ^ 64" using assms(3) by (elim artemis_update_round_result)
  from update_round_refines [OF assms(1,2) this] assms(3) obtain l' e' where
    "cx' = (artemis_metric RecRoundAdvance cx)\<lparr>
      rx_round_leader := leader_of_round E (rx_num_nodes cx) (rx_num_faults cx) (Suc (rx_round cx)),
      rx_round := Suc (rx_round cx), last_f_leaders := l', eligible_leaders := e', rx_net := gc_handlers E (rx_net cx)\<rparr>"
    "rotation E (rx_num_nodes cx) (rx_num_faults cx) (rx_round cx) = (l', e')" by auto
  with assms(2) show ?thesis by (auto simp: rotation_ok_def artemis_metric_def)
qed

end
