(* ===== verification/Artemis_Safety.thy ===== *)
theory Artemis_Safety
  imports Leader_Rotation
begin

text \<open>
  What holds of an Artemis node whatever arrives from the network: the invariant of its context,
  the faults it can run into, the authenticity of the recorded votes, and the leader schedule.
\<close>

section \<open>Invariant\<close>

definition ab_ok :: "ext \<Rightarrow> artemis_block \<Rightarrow> bool" where
  "ab_ok E b \<longleftrightarrow> block_sealed E (ab_blk b) \<or> ab_blk b = GENESIS_BLOCK E"

definition artemis_store_ok :: "ext \<Rightarrow> artemis_block storage \<Rightarrow> bool" where
  "artemis_store_ok E s \<longleftrightarrow>
     storage_ok artemis_get_hash (\<lambda>b. ab_prev b) s \<and> parents_delivered (\<lambda>b. ab_prev b) s \<and>
     (\<forall>h b. delivered_block_from_hash s h = Some b \<longrightarrow> ab_ok E b)"

definition pub_keys_ok :: "'m net_ctx \<Rightarrow> bool" where
  "pub_keys_ok n \<longleftrightarrow> (\<forall>i<nx_num_nodes n. i \<noteq> nx_myid n \<longrightarrow> fmmem i (nx_pub_key_map n))"

text \<open>A recorded vote: of its round, for a delivered block, signed by the round's leader.\<close>

definition vote_ok :: "ext \<Rightarrow> artemis_cx \<Rightarrow> round \<Rightarrow> ucr_vote \<Rightarrow> bool" where
  "vote_ok E cx r v \<longleftrightarrow>
     uv_round v = r \<and> uv_view v = rx_view cx \<and> is_delivered_by_hash (rx_storage cx) (uv_hash v) \<and>
     (let l = leader_of_round E (rx_num_nodes cx) (rx_num_faults cx) r
      in l \<noteq> rx_myid cx \<longrightarrow> (\<exists>pk. fmlookup (nx_pub_key_map (rx_net cx)) l = Some pk \<and> UCRVote_check_sig E pk v))"

definition votes_ok :: "ext \<Rightarrow> artemis_cx \<Rightarrow> bool" where
  "votes_ok E cx \<longleftrightarrow>
     (\<forall>r. fmmem r (vote_chain cx) \<longleftrightarrow> 1 \<le> r \<and> r < rx_round cx) \<and>
     (\<forall>r v. fmlookup (vote_chain cx) r = Some v \<longrightarrow> vote_ok E cx r v)"

definition waiting_ok :: "ext \<Rightarrow> artemis_cx \<Rightarrow> bool" where
  "waiting_ok E cx \<longleftrightarrow>
     (\<forall>r v. fmlookup (vote_ready cx) r = Some v \<longrightarrow> uv_round v = r \<and> is_delivered_by_hash (rx_storage cx) (uv_hash v)) \<and>
     (\<forall>h v. fmlookup (vote_waiting cx) h = Some v \<longrightarrow> uv_hash v = h) \<and>
     (\<forall>p c. fmlookup (block_parent_waiting cx) p = Some c \<longrightarrow>
        is_delivered_by_hash (rx_storage cx) c \<or> (\<exists>b. fmlookup (undelivered_blocks cx) c = Some b \<and> ab_prev b = p)) \<and>
     (\<forall>h b. fmlookup (undelivered_blocks cx) h = Some b \<longrightarrow> artemis_get_hash b = h \<and> block_sealed E (ab_blk b))"

fun buffered :: "artemis_msg \<Rightarrow> bool" where
  "buffered (ArUCRVote v) = True"
| "buffered (ArRelay f v) = True"
| "buffered (ArRequest f r h) = True"
| "buffered (ArBlame v) = True"
| "buffered _ = False"

definition buffers_ok :: "ext \<Rightarrow> artemis_cx \<Rightarrow> bool" where
  "buffers_ok E cx \<longleftrightarrow>
     list_all (\<lambda>(b, ba). block_sealed E (ab_blk b)) (block_processing_waiting cx) \<and>
     list_all (\<lambda>(s, b, ba). block_sealed E (ab_blk b)) (response_waiting cx) \<and> list_all buffered (rx_other_buf cx)"

text \<open>The last block seen is delivered and no delivered block is higher.\<close>

definition seen_ok :: "artemis_cx \<Rightarrow> bool" where
  "seen_ok cx \<longleftrightarrow>
     is_delivered_by_hash (rx_storage cx) (artemis_get_hash (rx_last_seen_block cx)) \<and>
     (\<forall>h b. delivered_block_from_hash (rx_storage cx) h = Some b \<longrightarrow>
        artemis_get_height b \<le> artemis_get_height (rx_last_seen_block cx))"

definition artemis_inv :: "ext \<Rightarrow> artemis_cx \<Rightarrow> bool" where
  "artemis_inv E cx \<longleftrightarrow>
     rotation_ok E cx \<and> pub_keys_ok (rx_net cx) \<and> artemis_store_ok E (rx_storage cx) \<and>
     seen_ok cx \<and> view_leader cx < rx_num_nodes cx \<and> votes_ok E cx \<and> waiting_ok E cx \<and> buffers_ok E cx"

lemmas artemis_inv_defs = artemis_inv_def rotation_ok_def pub_keys_ok_def seen_ok_def votes_ok_def vote_ok_def waiting_ok_def buffers_ok_def

text \<open>Any peer can stop the node with a blame; otherwise only a failing key or a counter can.\<close>

definition artemis_faults :: "fault set" where
  "artemis_faults =
     {Panic ''Currently unimplemented'', Panic ''Failed to sign the block'', Panic ''Failed to sign a ucr message'', Overflow}"

abbreviation akeeps :: "ext \<Rightarrow> artemis_cx res \<Rightarrow> bool" where
  "akeeps E \<equiv> rkeeps (artemis_inv E) artemis_faults"

lemma artemis_inv_frame [simp]:
  "artemis_inv E (cx\<lparr>rx_batch := x\<rparr>) = artemis_inv E cx"
  "artemis_inv E (cx\<lparr>rx_bench_committed_tx_count := n\<rparr>) = artemis_inv E cx"
  "artemis_inv E (artemis_metric e cx) = artemis_inv E cx"
  "artemis_inv E (artemis_notify m cx) = artemis_inv E cx"
  "artemis_inv E (artemis_send E' d msg cx) = artemis_inv E cx"
  "artemis_inv E (artemis_multicast E' msg cx) = artemis_inv E cx"
  by (simp_all add: artemis_inv_defs artemis_metric_def artemis_notify_def artemis_send_def artemis_multicast_def)

section \<open>Delivery\<close>

lemma artemis_collision:
  assumes "collision_free E" and "ab_ok E c" and "block_sealed E (ab_blk b)" and "artemis_get_hash c = artemis_get_hash b"
  shows "ab_blk c = ab_blk b"
  using assms sealed_collision [OF assms(1), of "ab_blk c" "ab_blk b"] sealed_not_empty [OF assms(1,3)]
  by (auto simp: ab_ok_def artemis_get_hash_def GENESIS_BLOCK_def)

lemma artemis_store_deliver:
  assumes "collision_free E" and "artemis_store_ok E s" and "block_sealed E (ab_blk b)"
    and "is_delivered_by_hash s (ab_prev b)"
  shows "artemis_store_ok E (add_delivered_block artemis_get_hash artemis_get_height b s)"
proof -
  have ok: "storage_ok artemis_get_hash (\<lambda>b. ab_prev b) s" "parents_delivered (\<lambda>b. ab_prev b) s"
    "delivered_block_from_hash s h = Some c \<Longrightarrow> ab_ok E c" for h c
    using assms(2) by (auto simp: artemis_store_ok_def)
  have same: "ab_prev c = ab_prev b" if "delivered_block_from_hash s (artemis_get_hash b) = Some c" for c
    using artemis_collision [OF assms(1) ok(3) [OF that] assms(3)] storage_okD(1) [OF ok(1) that] by simp
  have "parents_delivered (\<lambda>b. ab_prev b) (add_delivered_block artemis_get_hash artemis_get_height b s)"
    using assms(4) by (intro parents_delivered_add [OF ok(2)]) simp
  with storage_ok_deliver_prev [OF ok(1) same] show ?thesis
    using ok(3) assms(3) by (auto simp: artemis_store_ok_def ab_ok_def)
qed

lemma delivered_parent:
  assumes "collision_free E" and "artemis_store_ok E s" and "block_sealed E (ab_blk b)"
    and "is_delivered_by_hash s (artemis_get_hash b)"
  shows "is_delivered_by_hash s (ab_prev b)"
proof -
  obtain c where c: "delivered_block_from_hash s (artemis_get_hash b) = Some c" using assms(4) by (auto simp: is_delivered_iff)
  have "artemis_get_hash c = artemis_get_hash b" "ab_ok E c" "is_delivered_by_hash s (ab_prev c)"
    using assms(2) c storage_okD(1) by (fastforce simp: artemis_store_ok_def parents_delivered_def)+
  with artemis_collision [OF assms(1) _ assms(3)] show ?thesis by metis
qed

text \<open>Delivery of one block whose parent is there, and what it keeps.\<close>

lemma inv_see:
  assumes "collision_free E" and "artemis_inv E cx" and "block_sealed E (ab_blk b)"
    and "is_delivered_by_hash (rx_storage cx) (ab_prev b)"
  shows "artemis_inv E (fst (artemis_see b (cx, adv)))"
    and "is_delivered_by_hash (rx_storage (fst (artemis_see b (cx, adv)))) h \<longleftrightarrow>
      h = artemis_get_hash b \<or> is_delivered_by_hash (rx_storage cx) h"
proof -
  have "artemis_store_ok E (add_delivered_block artemis_get_hash artemis_get_height b (rx_storage cx))"
    using assms by (intro artemis_store_deliver) (auto simp: artemis_inv_def)
  moreover have top: "artemis_get_height c \<le> artemis_get_height (rx_last_seen_block cx)"
    if "delivered_block_from_hash (rx_storage cx) k = Some c" for k c
    using assms(2) that by (simp add: artemis_inv_def seen_ok_def)
  have "seen_ok (fst (artemis_see b (cx, adv)))"
    using assms(2) by (auto simp: artemis_inv_def seen_ok_def artemis_see_def artemis_deliver_def Let_def dest!: top)
  ultimately show "artemis_inv E (fst (artemis_see b (cx, adv)))"
    using assms(2) by (auto simp: artemis_see_def artemis_deliver_def Let_def artemis_inv_def rotation_ok_def
        votes_ok_def vote_ok_def waiting_ok_def buffers_ok_def)
  show "is_delivered_by_hash (rx_storage (fst (artemis_see b (cx, adv)))) h \<longleftrightarrow>
      h = artemis_get_hash b \<or> is_delivered_by_hash (rx_storage cx) h"
    by (simp add: artemis_see_def artemis_deliver_def Let_def)
qed

lemma inv_wake:
  assumes "artemis_inv E cx" and "is_delivered_by_hash (rx_storage cx) h"
  shows "artemis_inv E (artemis_wake_vote h cx)"
  using assms by (auto simp: artemis_wake_vote_def artemis_inv_defs split: option.splits)

lemma wake_storage [simp]: "rx_storage (artemis_wake_vote h cx) = rx_storage cx"
  by (simp add: artemis_wake_vote_def split: option.splits)

lemma inv_drop:
  assumes "artemis_inv E cx"
  shows "is_delivered_by_hash (rx_storage cx) h \<Longrightarrow>
      artemis_inv E (cx\<lparr>undelivered_blocks := fmdrop h (undelivered_blocks cx)\<rparr>)"
    and "artemis_inv E (cx\<lparr>block_parent_waiting := fmdrop h (block_parent_waiting cx)\<rparr>)"
    and "artemis_inv E (cx\<lparr>vote_ready := fmdrop r (vote_ready cx)\<rparr>)"
  using assms by (auto simp: artemis_inv_defs)

lemma see_undelivered:
  "fst (artemis_see b (cx\<lparr>undelivered_blocks := u\<rparr>, adv)) = (fst (artemis_see b (cx, adv)))\<lparr>undelivered_blocks := u\<rparr>"
  "undelivered_blocks (fst (artemis_see b (cx, adv))) = undelivered_blocks cx"
  by (simp_all add: artemis_see_def artemis_deliver_def Let_def)

lemma inv_child_turn:
  assumes "collision_free E" and "artemis_inv E cx" and "is_delivered_by_hash (rx_storage cx) h"
    and "fmlookup (block_parent_waiting cx) h = Some child"
  shows "artemis_inv E (fst (artemis_child_turn child (cx\<lparr>block_parent_waiting := fmdrop h (block_parent_waiting cx)\<rparr>, adv)))"
    and "is_delivered_by_hash (rx_storage (fst (artemis_child_turn child
           (cx\<lparr>block_parent_waiting := fmdrop h (block_parent_waiting cx)\<rparr>, adv)))) child"
proof -
  let ?c = "cx\<lparr>block_parent_waiting := fmdrop h (block_parent_waiting cx)\<rparr>"
  have inv: "artemis_inv E ?c" using inv_drop(2) [OF assms(2)] .
  have w: "is_delivered_by_hash (rx_storage cx) child \<or>
      (\<exists>b. fmlookup (undelivered_blocks cx) child = Some b \<and> ab_prev b = h)"
    "fmlookup (undelivered_blocks cx) child = Some b \<Longrightarrow> artemis_get_hash b = child \<and> block_sealed E (ab_blk b)" for b
    using assms(2,4) by (auto simp: artemis_inv_def waiting_ok_def)
  show "artemis_inv E (fst (artemis_child_turn child (?c, adv)))"
    and "is_delivered_by_hash (rx_storage (fst (artemis_child_turn child (?c, adv)))) child"
  proof (atomize (full), cases "fmlookup (undelivered_blocks cx) child")
    case None
    with w inv show "artemis_inv E (fst (artemis_child_turn child (?c, adv))) \<and>
        is_delivered_by_hash (rx_storage (fst (artemis_child_turn child (?c, adv)))) child"
      by (auto simp: artemis_child_turn_def intro!: inv_wake)
  next
    case (Some b)
    have "artemis_store_ok E (rx_storage cx)" using assms(2) by (simp add: artemis_inv_def)
    with w Some assms(3) have del: "is_delivered_by_hash (rx_storage ?c) (ab_prev b)"
      using delivered_parent [OF assms(1), of "rx_storage cx" b] by auto
    let ?s = "fst (artemis_see b (?c, adv))"
    have seen: "artemis_inv E ?s" "is_delivered_by_hash (rx_storage ?s) child"
      using inv_see [OF assms(1) inv _ del, of adv] w(2) [OF Some] by auto
    have "artemis_inv E (?s\<lparr>undelivered_blocks := fmdrop child (undelivered_blocks cx)\<rparr>)"
      using inv_drop(1) [OF seen] by (simp add: see_undelivered(2))
    then have "artemis_inv E (artemis_wake_vote child (?s\<lparr>undelivered_blocks := fmdrop child (undelivered_blocks cx)\<rparr>))"
      by (rule inv_wake) (simp add: seen(2))
    then show "artemis_inv E (fst (artemis_child_turn child (?c, adv))) \<and>
        is_delivered_by_hash (rx_storage (fst (artemis_child_turn child (?c, adv)))) child"
      using Some seen(2) by (simp add: artemis_child_turn_def case_prod_beta see_undelivered(1))
  qed
qed

lemma inv_children:
  assumes "collision_free E" and "artemis_inv E (fst s)" and "is_delivered_by_hash (rx_storage (fst s)) h"
  shows "artemis_inv E (fst (artemis_children h s))"
  using assms(2,3)
proof (induction h s rule: artemis_children.induct)
  case (1 h s)
  show ?case
  proof (cases "fmlookup (block_parent_waiting (fst s)) h")
    case None
    with 1 show ?thesis by (simp add: artemis_children.simps [of h s])
  next
    case (Some child)
    with 1(1) [OF Some] inv_child_turn [OF assms(1) 1(2,3) Some] show ?thesis
      by (simp add: artemis_children.simps [of h s])
  qed
qed

lemma akeeps_announce: "artemis_inv E cx \<Longrightarrow> akeeps E (announce_height_to_batcher cx)"
  by (auto simp: announce_height_to_batcher_def add_u64_def artemis_faults_def)

lemma akeeps_delivery:
  assumes "collision_free E" and "artemis_inv E cx" and "block_sealed E (ab_blk b)"
    and "is_delivered_by_hash (rx_storage cx) (ab_prev b)"
  shows "akeeps E (do_delivery b cx)"
proof -
  let ?h = "artemis_get_hash b" and ?s = "artemis_see b (cx, False)"
  have seen: "artemis_inv E (fst ?s)" "is_delivered_by_hash (rx_storage (fst ?s)) ?h"
    using inv_see [OF assms] by auto
  let ?w = "artemis_wake_vote ?h ((fst ?s)\<lparr>undelivered_blocks := fmdrop ?h (undelivered_blocks (fst ?s))\<rparr>)"
  have "artemis_inv E ?w" using seen by (intro inv_wake inv_drop) auto
  moreover have "is_delivered_by_hash (rx_storage ?w) ?h" using seen(2) by simp
  ultimately have "artemis_inv E (fst (artemis_children ?h (?w, snd ?s)))" using inv_children [OF assms(1)] by simp
  then show ?thesis by (auto simp: do_delivery_def Let_def case_prod_beta intro: akeeps_announce)
qed

lemma akeeps_new_block_direct:
  assumes "collision_free E" and "artemis_inv E cx" and "block_sealed E (ab_blk b)"
  shows "akeeps E (on_receive_new_block_direct E b cx)"
proof -
  have "fmmem (view_leader cx) (nx_pub_key_map (rx_net cx))" if "view_leader cx \<noteq> rx_myid cx"
    using that assms(2) by (auto simp: artemis_inv_def pub_keys_ok_def)
  then show ?thesis
    using assms(2) akeeps_delivery [OF assms]
    by (auto simp: on_receive_new_block_direct_def fmmem_iff)
qed

lemma akeeps_do_new_block:
  assumes "collision_free E" and "artemis_inv E cx"
  shows "akeeps E (do_new_block E bh batch cx)"
proof (cases "artemis_new_block E bh (artemis_metric RecPropose cx)")
  case (Inl f)
  then have "f \<in> artemis_faults"
    by (auto simp: artemis_new_block_def artemis_block_sign_def artemis_faults_def rbind_Inl_iff add_u64_def Let_def
        expect_def split: option.splits if_splits)
  with Inl show ?thesis by (simp add: do_new_block_def Let_def)
next
  case (Inr nb)
  then have "block_sealed E (ab_blk nb)"
    by (auto simp: artemis_new_block_def artemis_block_sign_def artemis_block_init_def Let_def)
  with Inr assms show ?thesis
    by (auto simp: do_new_block_def Let_def intro!: akeeps_new_block_direct)
qed

section \<open>Votes\<close>

lemma artemis_commit_total:
  assumes "artemis_store_ok E (rx_storage cx)" and "rx_num_faults cx < rx_round cx"
    and "fmlookup (vote_chain cx) (rx_round cx - rx_num_faults cx) = Some v"
    and "is_delivered_by_hash (rx_storage cx) (uv_hash v)"
  shows "\<exists>cx'. artemis_do_commit E cx = Inr cx'"
proof -
  obtain bs st where "commit_chain artemis_get_hash artemis_get_height (\<lambda>b. ab_prev b) (uv_hash v) (rx_storage cx) = Inr (bs, st)"
    using commit_chain_total assms(1,4) by (fastforce simp: artemis_store_ok_def)
  with assms(2,3) show ?thesis by (simp add: artemis_do_commit_def sub_u64_def)
qed

lemma artemis_commit_store:
  assumes "artemis_store_ok E (rx_storage cx)" and "artemis_do_commit E cx = Inr cx'"
  obtains st x n where "cx' = cx\<lparr>rx_storage := st, rx_batch := x, rx_bench_committed_tx_count := n\<rparr>"
    "artemis_store_ok E st" "\<And>h. delivered_block_from_hash st h = delivered_block_from_hash (rx_storage cx) h"
    "\<And>h. is_delivered_by_hash st h = is_delivered_by_hash (rx_storage cx) h"
proof (rule artemis_do_commit_result [OF assms(2)])
  fix v newly st x n
  assume c: "commit_chain artemis_get_hash artemis_get_height (\<lambda>b. ab_prev b) (uv_hash v) (rx_storage cx) = Inr (newly, st)"
    "cx' = cx\<lparr>rx_storage := st, rx_batch := x, rx_bench_committed_tx_count := n\<rparr>"
  have ok: "storage_ok artemis_get_hash (\<lambda>b. ab_prev b) (rx_storage cx)" using assms(1) by (simp add: artemis_store_ok_def)
  note res = commit_chain_ok [OF ok c(1)]
  show thesis
  proof (rule that [OF c(2)])
    show "artemis_store_ok E st" using assms(1) res(1) by (simp add: artemis_store_ok_def res(2) parents_delivered_def)
  qed (simp_all add: res(2))
qed

text \<open>Recording the vote and committing, before the round is left.\<close>

lemma artemis_record_vote:
  assumes "artemis_inv E cx" and "uv_round v = rx_round cx" and "is_delivered_by_hash (rx_storage cx) (uv_hash v)"
  defines "c0 \<equiv> cx\<lparr>vote_chain := fmupd (uv_round v) v (vote_chain cx)\<rparr>"
  shows "\<exists>st x n. (if rx_round c0 > rx_num_faults c0 then artemis_do_commit E c0 else Inr c0) =
      Inr (c0\<lparr>rx_storage := st, rx_batch := x, rx_bench_committed_tx_count := n\<rparr>) \<and>
    artemis_store_ok E st \<and> (\<forall>h. delivered_block_from_hash st h = delivered_block_from_hash (rx_storage cx) h) \<and>
    (\<forall>h. is_delivered_by_hash st h = is_delivered_by_hash (rx_storage cx) h)"
proof (cases "rx_round c0 > rx_num_faults c0")
  case False
  with assms(1) show ?thesis
    by (intro exI [of _ "rx_storage c0"] exI [of _ "rx_batch c0"] exI [of _ "rx_bench_committed_tx_count c0"])
      (simp add: c0_def artemis_inv_def)
next
  case True
  have st: "artemis_store_ok E (rx_storage c0)" using assms(1) by (simp add: c0_def artemis_inv_def)
  let ?r = "rx_round c0 - rx_num_faults c0"
  have "\<exists>w. fmlookup (vote_chain c0) ?r = Some w \<and> is_delivered_by_hash (rx_storage c0) (uv_hash w)"
  proof (cases "?r = rx_round cx")
    case True
    then show ?thesis using assms(2,3) by (simp add: c0_def)
  next
    case False
    have votes: "votes_ok E cx" using assms(1) by (simp add: artemis_inv_def)
    with False True have "fmmem ?r (vote_chain cx)" by (auto simp: c0_def votes_ok_def)
    then obtain w where w: "fmlookup (vote_chain cx) ?r = Some w" by (auto simp: fmmem_iff)
    with votes have "vote_ok E cx ?r w" unfolding votes_ok_def by blast
    with w show ?thesis using assms(2) False by (auto simp: c0_def vote_ok_def)
  qed
  with artemis_commit_total [OF st] True obtain c where c: "artemis_do_commit E c0 = Inr c" by blast
  from artemis_commit_store [OF st this] obtain st' x n where
    "c = c0\<lparr>rx_storage := st', rx_batch := x, rx_bench_committed_tx_count := n\<rparr>" "artemis_store_ok E st'"
    "\<And>h. delivered_block_from_hash st' h = delivered_block_from_hash (rx_storage c0) h"
    "\<And>h. is_delivered_by_hash st' h = is_delivered_by_hash (rx_storage c0) h" by blast
  with True c show ?thesis by (intro exI [of _ st'] exI [of _ x] exI [of _ n]) (simp add: c0_def)
qed

lemma vote_signature_checked:
  assumes "artemis_inv E cx"
  shows "\<exists>valid. (if rx_myid cx \<noteq> rx_round_leader cx
      then rbind (expect ''no entry found for key'' (fmlookup (nx_pub_key_map (rx_net cx)) (rx_round_leader cx)))
             (\<lambda>pk. Inr (UCRVote_check_sig E pk v)) else Inr True) = Inr valid \<and>
    (valid \<longrightarrow> rx_myid cx \<noteq> rx_round_leader cx \<longrightarrow>
       (\<exists>pk. fmlookup (nx_pub_key_map (rx_net cx)) (rx_round_leader cx) = Some pk \<and> UCRVote_check_sig E pk v))"
proof -
  have "rx_round_leader cx < rx_num_nodes cx" using assms rotation_okD(7) unfolding artemis_inv_def by blast
  then have "fmmem (rx_round_leader cx) (nx_pub_key_map (rx_net cx))" if "rx_myid cx \<noteq> rx_round_leader cx"
    using that assms by (auto simp: artemis_inv_def pub_keys_ok_def)
  then show ?thesis by (auto simp: fmmem_iff)
qed

lemma votes_ok_extend:
  assumes "votes_ok E cx" and "vote_ok E cx (rx_round cx) v" and "1 \<le> rx_round cx"
    and "rx_round c = Suc (rx_round cx)" and "vote_chain c = fmupd (rx_round cx) v (vote_chain cx)"
    and "\<And>r w. vote_ok E cx r w \<Longrightarrow> vote_ok E c r w"
  shows "votes_ok E c"
proof -
  have "fmmem r (vote_chain c) \<longleftrightarrow> 1 \<le> r \<and> r < rx_round c" for r
    using assms(1,3-5) by (auto simp: votes_ok_def)
  moreover have "vote_ok E c r w" if "fmlookup (vote_chain c) r = Some w" for r w
    using that assms(1,2,5,6) by (cases "r = rx_round cx") (auto simp: votes_ok_def)
  ultimately show ?thesis by (simp add: votes_ok_def)
qed

text \<open>A vote with a good signature is recorded and ends the round.\<close>

definition voted_cx :: "ucr_vote \<Rightarrow> artemis_block storage \<Rightarrow> batch_ctx \<Rightarrow> nat \<Rightarrow> artemis_block \<Rightarrow> artemis_cx \<Rightarrow> artemis_cx" where
  "voted_cx v st x n b cx = cx\<lparr>vote_chain := fmupd (uv_round v) v (vote_chain cx), rx_storage := st,
     rx_batch := x, rx_bench_committed_tx_count := n, last_voted_block := b\<rparr>"

lemma round_vote_unfold:
  assumes inv: "artemis_inv E cx" and v: "uv_round v = rx_round cx" "is_delivered_by_hash (rx_storage cx) (uv_hash v)"
    and view: "rx_view cx = uv_view v"
    and sig: "rx_myid cx \<noteq> rx_round_leader cx \<Longrightarrow>
       \<exists>pk. fmlookup (nx_pub_key_map (rx_net cx)) (rx_round_leader cx) = Some pk \<and> UCRVote_check_sig E pk v"
  shows "\<exists>st x n b. on_receive_round_vote E v cx = rbind (next_round_leader E (voted_cx v st x n b cx))
       (\<lambda>l. artemis_update_round E (artemis_send E l (ArRelay (rx_myid cx) v) (voted_cx v st x n b cx))) \<and>
     artemis_store_ok E st \<and> (\<forall>h. delivered_block_from_hash st h = delivered_block_from_hash (rx_storage cx) h) \<and>
     (\<forall>h. is_delivered_by_hash st h = is_delivered_by_hash (rx_storage cx) h)"
proof -
  let ?c0 = "cx\<lparr>vote_chain := fmupd (uv_round v) v (vote_chain cx)\<rparr>"
  obtain st x n where com: "(if rx_round ?c0 > rx_num_faults ?c0 then artemis_do_commit E ?c0 else Inr ?c0) =
      Inr (?c0\<lparr>rx_storage := st, rx_batch := x, rx_bench_committed_tx_count := n\<rparr>)" "artemis_store_ok E st"
    "\<And>h. delivered_block_from_hash st h = delivered_block_from_hash (rx_storage cx) h"
    "\<And>h. is_delivered_by_hash st h = is_delivered_by_hash (rx_storage cx) h"
    using artemis_record_vote [OF inv v] by blast
  moreover obtain b where "delivered_block_from_hash st (uv_hash v) = Some b" using v(2) com(3) by (auto simp: is_delivered_iff)
  moreover have "(if rx_myid cx \<noteq> rx_round_leader cx
      then rbind (expect ''no entry found for key'' (fmlookup (nx_pub_key_map (rx_net cx)) (rx_round_leader cx)))
             (\<lambda>pk. Inr (UCRVote_check_sig E pk v)) else Inr True) = Inr True" using sig by auto
  ultimately have "on_receive_round_vote E v cx = rbind (next_round_leader E (voted_cx v st x n b cx))
       (\<lambda>l. artemis_update_round E (artemis_send E l (ArRelay (rx_myid cx) v) (voted_cx v st x n b cx)))"
    using view by (simp add: on_receive_round_vote_def voted_cx_def Let_def)
  with com(2-4) show ?thesis by blast
qed

lemma round_vote_effect:
  assumes "hash_32 E" and inv: "artemis_inv E cx" and v: "uv_round v = rx_round cx" "is_delivered_by_hash (rx_storage cx) (uv_hash v)"
    and view: "rx_view cx = uv_view v"
    and sig: "rx_myid cx \<noteq> rx_round_leader cx \<Longrightarrow>
       \<exists>pk. fmlookup (nx_pub_key_map (rx_net cx)) (rx_round_leader cx) = Some pk \<and> UCRVote_check_sig E pk v"
    and small: "rx_round cx + 1 < 2 ^ 64"
  shows "\<exists>cx' more. on_receive_round_vote E v cx = Inr cx' \<and> artemis_inv E cx' \<and> rx_round cx' = Suc (rx_round cx) \<and>
    vote_chain cx' = fmupd (rx_round cx) v (vote_chain cx) \<and> nx_sent (rx_net cx') = nx_sent (rx_net cx) @ more \<and>
    rx_num_nodes cx' = rx_num_nodes cx \<and> rx_num_faults cx' = rx_num_faults cx"
proof -
  obtain st x n b where step: "on_receive_round_vote E v cx = rbind (next_round_leader E (voted_cx v st x n b cx))
       (\<lambda>l. artemis_update_round E (artemis_send E l (ArRelay (rx_myid cx) v) (voted_cx v st x n b cx)))"
    and st: "artemis_store_ok E st" "\<And>h. delivered_block_from_hash st h = delivered_block_from_hash (rx_storage cx) h"
      "\<And>h. is_delivered_by_hash st h = is_delivered_by_hash (rx_storage cx) h"
    using round_vote_unfold [OF inv v view sig] by blast
  let ?c2 = "voted_cx v st x n b cx"
  have rot: "rotation_ok E cx" using inv by (simp add: artemis_inv_def)
  then have rot2: "rotation_ok E ?c2" by (simp add: rotation_ok_def voted_cx_def)
  from compute_next_leader_ok [OF assms(1) rot2] small obtain l where l: "next_round_leader E ?c2 = Inr l"
    by (auto simp: next_round_leader_def voted_cx_def Let_def)
  let ?c3 = "artemis_send E l (ArRelay (rx_myid cx) v) ?c2"
  have rot3: "rotation_ok E ?c3" using rot2 by (simp add: rotation_ok_def artemis_send_def voted_cx_def)
  from update_round_refines [OF assms(1) rot3] small obtain l' e' where
    up: "artemis_update_round E ?c3 = Inr ((artemis_metric RecRoundAdvance ?c3)\<lparr>
       rx_round_leader := leader_of_round E (rx_num_nodes cx) (rx_num_faults cx) (Suc (rx_round cx)),
       rx_round := Suc (rx_round cx), last_f_leaders := l', eligible_leaders := e', rx_net := gc_handlers E (rx_net ?c3)\<rparr>)"
    (is "_ = Inr ?c4")
    by (auto simp: artemis_send_def voted_cx_def)
  have "votes_ok E ?c4"
  proof (rule votes_ok_extend)
    show "votes_ok E cx" "1 \<le> rx_round cx" using inv rot by (auto simp: artemis_inv_def rotation_ok_def)
    have "rx_round_leader cx = leader_of_round E (rx_num_nodes cx) (rx_num_faults cx) (rx_round cx)"
      using rot by (simp add: rotation_ok_def)
    then show "vote_ok E cx (rx_round cx) v" using sig view v by (auto simp: vote_ok_def Let_def)
    show "vote_ok E ?c4 r w" if "vote_ok E cx r w" for r w
      using that st(3) by (simp add: vote_ok_def artemis_metric_def artemis_send_def voted_cx_def)
  qed (simp_all add: artemis_metric_def artemis_send_def voted_cx_def v(1))
  moreover have "rotation_ok E ?c4" using rotation_ok_update [OF assms(1) rot3 up] .
  moreover have "pub_keys_ok (rx_net ?c4)" "view_leader ?c4 < rx_num_nodes ?c4" "waiting_ok E ?c4" "buffers_ok E ?c4"
    "seen_ok ?c4" "artemis_store_ok E (rx_storage ?c4)"
    using inv st
    by (simp_all add: artemis_inv_def pub_keys_ok_def seen_ok_def waiting_ok_def buffers_ok_def artemis_metric_def artemis_send_def voted_cx_def)
  ultimately have "artemis_inv E ?c4" by (simp add: artemis_inv_def)
  with step l up show ?thesis
    by (intro exI [of _ ?c4]) (simp add: Let_def artemis_send_def artemis_metric_def send_sent voted_cx_def v(1))
qed

lemma akeeps_round_vote:
  assumes "hash_32 E" and "artemis_inv E cx" and "uv_round v = rx_round cx"
    and "is_delivered_by_hash (rx_storage cx) (uv_hash v)"
  shows "akeeps E (on_receive_round_vote E v cx)"
proof -
  obtain valid where valid: "(if rx_myid cx \<noteq> rx_round_leader cx
      then rbind (expect ''no entry found for key'' (fmlookup (nx_pub_key_map (rx_net cx)) (rx_round_leader cx)))
             (\<lambda>pk. Inr (UCRVote_check_sig E pk v)) else Inr True) = Inr valid"
    "valid \<Longrightarrow> rx_myid cx \<noteq> rx_round_leader cx \<Longrightarrow>
       \<exists>pk. fmlookup (nx_pub_key_map (rx_net cx)) (rx_round_leader cx) = Some pk \<and> UCRVote_check_sig E pk v"
    using vote_signature_checked [OF assms(2)] by blast
  show ?thesis
  proof (cases "valid \<and> rx_view cx = uv_view v")
    case False
    with valid(1) assms(2) show ?thesis by (auto simp: on_receive_round_vote_def)
  next
    case True
    then have view: "rx_view cx = uv_view v" and sig: "rx_myid cx \<noteq> rx_round_leader cx \<Longrightarrow>
       \<exists>pk. fmlookup (nx_pub_key_map (rx_net cx)) (rx_round_leader cx) = Some pk \<and> UCRVote_check_sig E pk v"
      using valid(2) by auto
    show ?thesis
    proof (cases "rx_round cx + 1 < 2 ^ 64")
      case False
      obtain st x n b where "on_receive_round_vote E v cx = rbind (next_round_leader E (voted_cx v st x n b cx))
          (\<lambda>l. artemis_update_round E (artemis_send E l (ArRelay (rx_myid cx) v) (voted_cx v st x n b cx)))"
        using round_vote_unfold [OF assms(2-4) view sig] by blast
      with False show ?thesis
        by (simp add: next_round_leader_def compute_next_leader_overflow voted_cx_def artemis_faults_def)
    next
      case small: True
      from round_vote_effect [OF assms view sig small] show ?thesis by auto
    qed
  qed
qed

section \<open>Messages and reactor\<close>

lemma akeeps_ready_votes: "hash_32 E \<Longrightarrow> artemis_inv E cx \<Longrightarrow> akeeps E (artemis_ready_votes E cx)"
proof (induction E cx rule: artemis_ready_votes.induct)
  case (1 E cx)
  show ?case
  proof (cases "fmlookup (vote_ready cx) (rx_round cx)")
    case None
    with 1(3) show ?thesis by (simp add: artemis_ready_votes.simps [of E cx])
  next
    case (Some v)
    let ?c = "cx\<lparr>vote_ready := fmdrop (rx_round cx) (vote_ready cx)\<rparr>"
    have "uv_round v = rx_round ?c" "is_delivered_by_hash (rx_storage ?c) (uv_hash v)"
      using 1(3) Some by (auto simp: artemis_inv_def waiting_ok_def)
    then have "akeeps E (on_receive_round_vote E v ?c)" using 1(2,3) by (intro akeeps_round_vote inv_drop)
    then show ?thesis
      using 1(1) [OF Some] 1(2) Some by (auto simp: artemis_ready_votes.simps [of E cx] intro!: rkeeps_bind)
  qed
qed

lemma inv_await_block: "artemis_inv E cx \<Longrightarrow> artemis_inv E (artemis_await_block E' from v cx)"
  by (auto simp: artemis_await_block_def artemis_send_def Let_def artemis_inv_defs)

lemma akeeps_try_receive:
  assumes "hash_32 E" and "artemis_inv E cx"
  shows "akeeps E (try_receive_round_vote E from v cx)"
proof -
  have "artemis_inv E (cx\<lparr>vote_ready := fmupd (uv_round v) v (vote_ready cx)\<rparr>)"
    if "is_delivered_by_hash (rx_storage cx) (uv_hash v)" using that assms(2) by (auto simp: artemis_inv_defs)
  then show ?thesis
    using assms by (auto simp: try_receive_round_vote_def intro!: inv_await_block akeeps_round_vote)
qed

lemma inv_handle_request: "artemis_inv E cx \<Longrightarrow> artemis_inv E (artemis_handle_request E' from r h cx)"
  by (auto simp: artemis_handle_request_def Let_def split: option.splits prod.splits)

lemma akeeps_update_delivery:
  assumes "collision_free E" and "artemis_inv E cx" and "block_sealed E (ab_blk b)"
  shows "akeeps E (update_delivery E b sender cx)"
proof -
  have "artemis_inv E (cx\<lparr>block_parent_waiting := fmupd (ab_prev b) (artemis_get_hash b) (block_parent_waiting cx),
      undelivered_blocks := fmupd (artemis_get_hash b) b (undelivered_blocks cx)\<rparr>)"
    if new: "\<not> is_delivered_by_hash (rx_storage cx) (artemis_get_hash b)"
  proof -
    have prev: "ab_prev c = ab_prev b" if "fmlookup (undelivered_blocks cx) (artemis_get_hash b) = Some c" for c
    proof -
      have "artemis_get_hash c = artemis_get_hash b" "ab_ok E c"
        using that assms(2) by (auto simp: artemis_inv_def waiting_ok_def ab_ok_def)
      with artemis_collision [OF assms(1) _ assms(3)] show ?thesis by metis
    qed
    have w: "waiting_ok E cx" using assms(2) by (simp add: artemis_inv_def)
    have "waiting_ok E (cx\<lparr>block_parent_waiting := fmupd (ab_prev b) (artemis_get_hash b) (block_parent_waiting cx),
      undelivered_blocks := fmupd (artemis_get_hash b) b (undelivered_blocks cx)\<rparr>)" (is "waiting_ok E ?c")
      unfolding waiting_ok_def
    proof (intro conjI allI impI, goal_cases)
      case (4 p c)
      show ?case
      proof (cases "c = artemis_get_hash b")
        case True
        have "ab_prev b = p"
        proof (cases "p = ab_prev b")
          case False
          then have "fmlookup (block_parent_waiting cx) p = Some c" using 4 by simp
          with w True new obtain d where "fmlookup (undelivered_blocks cx) c = Some d" "ab_prev d = p"
            unfolding waiting_ok_def by blast
          with prev True show ?thesis by simp
        qed simp
        with True show ?thesis by simp
      next
        case False
        with 4 have "fmlookup (block_parent_waiting cx) p = Some c" by (auto split: if_splits)
        with w False show ?thesis unfolding waiting_ok_def by auto
      qed
    qed (use w assms(3) in \<open>auto simp: waiting_ok_def split: if_splits\<close>)
    then show ?thesis using assms(2) by (simp add: artemis_inv_def seen_ok_def rotation_ok_def votes_ok_def vote_ok_def buffers_ok_def)
  qed
  then show ?thesis
    using assms by (auto simp: update_delivery_def artemis_do_request_def Let_def intro!: akeeps_delivery)
qed

lemma akeeps_other:
  assumes "hash_32 E" and "artemis_inv E cx" and "buffered m"
  shows "akeeps E (artemis_handle_other E m cx)"
proof -
  have "Panic ''Currently unimplemented'' \<in> artemis_faults" by (simp add: artemis_faults_def)
  with assms show ?thesis
    by (cases m) (auto simp: artemis_handle_other_def artemis_on_receive_blame_def
        intro: akeeps_try_receive inv_handle_request)
qed

lemma inv_clear:
  assumes "artemis_inv E cx"
  shows "artemis_inv E (cx\<lparr>block_processing_waiting := []\<rparr>)" "artemis_inv E (cx\<lparr>response_waiting := []\<rparr>)"
    "artemis_inv E (cx\<lparr>rx_other_buf := []\<rparr>)"
  using assms by (simp_all add: artemis_inv_defs)

lemma akeeps_process:
  assumes "collision_free E" and "hash_32 E" and "artemis_inv E cx"
  shows "akeeps E (artemis_process_message E cx)"
  unfolding artemis_process_message_def
proof (intro rkeeps_bind)
  have "block_sealed E (ab_blk b)" if "(b, ba) \<in> set (block_processing_waiting cx)" for b ba
    using that assms(3) by (auto simp: artemis_inv_def buffers_ok_def list_all_iff)
  then show "akeeps E (rfold (artemis_process_new_block E) (block_processing_waiting cx) (cx\<lparr>block_processing_waiting := []\<rparr>))"
    using assms(1,3)
    by (intro rkeeps_rfold inv_clear) (auto simp: artemis_process_new_block_def intro!: akeeps_new_block_direct)
next
  fix c assume c: "artemis_inv E c"
  have "block_sealed E (ab_blk b)" if "(s, b, ba) \<in> set (response_waiting c)" for s b ba
    using that c by (auto simp: artemis_inv_def buffers_ok_def list_all_iff)
  then show "akeeps E (rfold (artemis_process_response E) (response_waiting c) (c\<lparr>response_waiting := []\<rparr>))"
    using assms(1) c
    by (intro rkeeps_rfold inv_clear) (auto simp: artemis_process_response_def intro!: akeeps_update_delivery)
next
  fix c assume c: "artemis_inv E c"
  have "buffered m" if "m \<in> set (rx_other_buf c)" for m
    using that c by (auto simp: artemis_inv_def buffers_ok_def list_all_iff)
  then show "akeeps E (rfold (artemis_handle_other E) (rx_other_buf c) (c\<lparr>rx_other_buf := []\<rparr>))"
    using assms(2) c by (intro rkeeps_rfold inv_clear akeeps_other) auto
qed (intro akeeps_ready_votes assms(2); assumption)+

lemma akeeps_drain: "collision_free E \<Longrightarrow> artemis_inv E cx \<Longrightarrow> akeeps E (artemis_drain E cx)"
proof (induction E cx rule: artemis_drain.induct)
  case (1 E cx)
  show ?case
  proof (cases "view_leader cx = rx_myid cx \<and> bx_pending (rx_batch cx) \<noteq> []")
    case False
    with 1(3) show ?thesis by (auto simp: artemis_drain.simps [of E cx] split: list.splits)
  next
    case True
    then obtain bh ba rest where pend: "bx_pending (rx_batch cx) = (bh, ba) # rest" by (cases "bx_pending (rx_batch cx)") auto
    have "akeeps E (do_new_block E bh ba (cx\<lparr>rx_batch := (rx_batch cx)\<lparr>bx_pending := rest\<rparr>\<rparr>))"
      using 1(2,3) by (intro akeeps_do_new_block) simp_all
    then show ?thesis
      using True pend 1(1) [OF _ pend refl] 1(2) by (auto simp: artemis_drain.simps [of E cx] intro!: rkeeps_bind)
  qed
qed

lemma akeeps_try_round_vote:
  assumes "hash_32 E" and "artemis_inv E cx"
  shows "akeeps E (try_round_vote E cx)"
proof -
  let ?v = "(UCRVote_new E)\<lparr>uv_hash := artemis_get_hash (rx_last_seen_block cx), uv_round := rx_round cx, uv_view := rx_view cx\<rparr>"
  have "akeeps E (do_round_vote E cx)"
  proof (cases "sk_sign E (nx_my_secret_key (rx_net cx)) (UCRVote_digest E ?v)")
    case None
    then show ?thesis by (simp add: do_round_vote_def UCRVote_compute_sig_def artemis_metric_def Let_def artemis_faults_def)
  next
    case (Some auth)
    let ?w = "?v\<lparr>uv_vote := \<lparr>v_origin = rx_myid cx, v_auth = auth\<rparr>\<rparr>"
    let ?c = "artemis_multicast E (ArUCRVote ?w) (artemis_metric RecVote cx)"
    have "do_round_vote E cx = on_receive_round_vote E ?w ?c"
      using Some by (simp add: do_round_vote_def UCRVote_compute_sig_def artemis_metric_def Let_def)
    moreover have "akeeps E (on_receive_round_vote E ?w ?c)"
    proof (rule akeeps_round_vote [OF assms(1)])
      show "artemis_inv E ?c" using assms(2) by simp
      show "is_delivered_by_hash (rx_storage ?c) (uv_hash ?w)"
        using assms(2) by (simp add: artemis_multicast_def artemis_metric_def artemis_inv_def seen_ok_def)
    qed (simp add: artemis_multicast_def artemis_metric_def)
    ultimately show ?thesis by simp
  qed
  with assms(2) show ?thesis by (simp add: try_round_vote_def)
qed

text \<open>Blocks that arrive over the network went through \<open>Deserialize\<close> and carry their own hash.\<close>

fun artemis_msg_sealed :: "ext \<Rightarrow> artemis_msg \<Rightarrow> bool" where
  "artemis_msg_sealed E (ArNewBlock b ba) = block_sealed E (ab_blk b)"
| "artemis_msg_sealed E (ArResponse f r b ba) = block_sealed E (ab_blk b)"
| "artemis_msg_sealed E _ = True"

fun artemis_event_sealed :: "ext \<Rightarrow> artemis_event \<Rightarrow> bool" where
  "artemis_event_sealed E (ArNet msgs) = list_all (artemis_msg_sealed E) msgs"
| "artemis_event_sealed E _ = True"

lemma inv_buffer:
  assumes "artemis_inv E cx" and "artemis_msg_sealed E m"
  shows "artemis_inv E (buffer_message m cx)"
  using assms by (cases m) (simp_all add: buffer_message_def artemis_inv_defs)

lemma inv_buffer_all:
  "artemis_inv E cx \<Longrightarrow> list_all (artemis_msg_sealed E) ms \<Longrightarrow> artemis_inv E (fold buffer_message ms cx)"
  by (induction ms arbitrary: cx) (auto intro: inv_buffer)

fun outcome_inv :: "ext \<Rightarrow> artemis_cx reactor_outcome \<Rightarrow> bool" where
  "outcome_inv E (Continue cx) = artemis_inv E cx"
| "outcome_inv E _ = True"

lemma akeeps_after_select:
  assumes "collision_free E" and "hash_32 E" and "artemis_inv E cx"
  shows "rkeeps (outcome_inv E) artemis_faults (rbind (artemis_after_select E cx) (\<lambda>cx. Inr (Continue cx)))"
  unfolding artemis_after_select_def
  by (intro rkeeps_bind [where P = "artemis_inv E"] akeeps_drain akeeps_try_round_vote) (simp_all add: assms)

lemma akeeps_reactor_step:
  assumes "collision_free E" and "hash_32 E" and "artemis_inv E cx" and "artemis_event_sealed E ev"
  shows "rkeeps (outcome_inv E) artemis_faults (artemis_reactor_step E ev cx)"
proof (cases ev)
  case (ArNet msgs)
  have "akeeps E (artemis_process_message E (fold buffer_message msgs (artemis_metric RecReactorIter cx)))"
    using assms ArNet by (intro akeeps_process inv_buffer_all) simp_all
  then show ?thesis
    unfolding artemis_reactor_step_def ArNet Let_def artemis_event.case
    by (rule rkeeps_bind) (rule akeeps_after_select [OF assms(1,2)])
next
  case ArTick
  then show ?thesis
    unfolding artemis_reactor_step_def Let_def using assms(3)
    by (auto intro!: akeeps_after_select [OF assms(1,2)])
next
  case (ArBatchReady bh ba)
  then show ?thesis
    unfolding artemis_reactor_step_def Let_def using assms(3)
    by (auto intro!: akeeps_after_select [OF assms(1,2)])
qed (use assms(3) in \<open>simp_all add: artemis_reactor_step_def\<close>)

end
