(* ===== verification/Artemis_Laws.thy ===== *)
theory Artemis_Laws
  imports Artemis_Safety
begin

text \<open>
  The Artemis node as a step system and the properties of everything it can reach: leader
  schedule, authenticity of votes, possible faults, one round of the protocol, and two gaps in
  the checks of the code.
\<close>

section \<open>The node as a step system\<close>

definition artemis_config_ok :: "node_config \<Rightarrow> (replica \<times> bytes) list \<Rightarrow> bool" where
  "artemis_config_ok config pks \<longleftrightarrow>
     config_ok config pks \<and> 1 \<le> nc_num_faults config \<and> nc_num_faults config < nc_num_nodes config"

definition artemis_init :: "ext \<Rightarrow> artemis_cx \<Rightarrow> bool" where
  "artemis_init E cx \<longleftrightarrow>
     (\<exists>config pks cache st. artemis_config_ok config pks \<and> artemis_reactor_start E config pks cache st = Inr cx)"

inductive artemis_step :: "ext \<Rightarrow> artemis_cx \<Rightarrow> artemis_cx \<Rightarrow> bool" for E where
  artemis_reacts:
    "artemis_event_sealed E ev \<Longrightarrow> artemis_reactor_step E ev cx = Inr (Continue cx') \<Longrightarrow> artemis_step E cx cx'"
| artemis_caches:
    "artemis_step E cx (cx\<lparr>rx_batch := (rx_batch cx)\<lparr>bx_cache := cache_insert h b (bx_cache (rx_batch cx))\<rparr>\<rparr>)"

inductive_cases artemis_stepE: "artemis_step E cx cx'"

lemma artemis_genesis [simp]:
  "artemis_get_hash (artemis_GENESIS_BLOCK E) = EMPTY_HASH E" "artemis_get_height (artemis_GENESIS_BLOCK E) = 0"
  by (simp_all add: artemis_get_hash_def artemis_get_height_def block_get_height_def artemis_GENESIS_BLOCK_def GENESIS_BLOCK_def)

lemma initial_leaders: "f \<le> 2 ^ 16 \<Longrightarrow> fold (\<lambda>i. lhm_insert (i mod 2 ^ 16)) [0..<f] [] = [0..<f]"
proof (induction f)
  case (Suc f)
  then have "fold (\<lambda>i. lhm_insert (i mod 2 ^ 16)) [0..<Suc f] [] = lhm_insert f [0..<f]" by simp
  moreover have "filter (\<lambda>y. y \<noteq> f) [0..<f] = [0..<f]" by (auto simp: filter_id_conv)
  then have "lhm_insert f [0..<f] = [0..<Suc f]" by (simp add: lhm_insert_def hs_remove_def)
  ultimately show ?case by (rule trans)
qed simp

lemma genesis_store_ok:
  "artemis_store_ok E (add_delivered_block artemis_get_hash artemis_get_height (artemis_GENESIS_BLOCK E) Storage_new)"
  by (auto simp: artemis_store_ok_def storage_ok_def parents_delivered_def storage_defs ab_ok_def artemis_get_hash_def
      artemis_GENESIS_BLOCK_def GENESIS_BLOCK_def split: if_splits)

lemma artemis_inv_start:
  assumes "artemis_init E cx"
  shows "artemis_inv E cx"
proof -
  obtain config pks cache st where ok: "artemis_config_ok config pks"
    and start: "artemis_reactor_start E config pks cache st = Inr cx" using assms by (auto simp: artemis_init_def)
  let ?n = "nc_num_nodes config" and ?f = "nc_num_faults config"
  have nf: "1 \<le> ?f" "?f < ?n" "?n \<le> 2 ^ 16" using ok by (auto simp: artemis_config_ok_def config_ok_def)
  from start obtain m where m: "decode_keys E (nc_crypto_alg config) (nc_id config) pks = Inr m"
      "nx_pub_key_map (rx_net cx) = m" "rx_num_nodes cx = ?n" "rx_num_faults cx = ?f" "rx_myid cx = nc_id config"
      "rx_round cx = 1" "rx_round_leader cx = (?f - 1) mod 2 ^ 16" "view_leader cx = 0"
      "last_f_leaders cx = fold (\<lambda>i. lhm_insert (i mod 2 ^ 16)) [0..<?f] []"
      "eligible_leaders cx = map (\<lambda>i. i mod 2 ^ 16) [?f..<?n]"
      "rx_storage cx = add_delivered_block artemis_get_hash artemis_get_height (artemis_GENESIS_BLOCK E) Storage_new"
      "rx_last_seen_block cx = artemis_GENESIS_BLOCK E" "vote_chain cx = fmempty" "vote_ready cx = fmempty"
      "vote_waiting cx = fmempty" "block_parent_waiting cx = fmempty" "undelivered_blocks cx = fmempty"
      "block_processing_waiting cx = []" "response_waiting cx = []" "rx_other_buf cx = []"
    by (auto simp: artemis_reactor_start_def artemis_Context_new_def net_new_def announce_height_to_batcher_def
        artemis_notify_def artemis_deliver_def Let_def checked_Inr_iff)
  have "map (\<lambda>i. i mod 2 ^ 16) [?f..<?n] = [?f..<?n]" using nf(3) by (intro map_idI) auto
  then have "rotation_ok E cx"
    using nf m initial_leaders [of ?f] by (simp add: rotation_ok_def leader_of_round_def last_conv_nth)
  moreover have "fmmem i m" if "i < ?n" "i \<noteq> nc_id config" for i
    using that ok decode_keys_lookup [OF m(1)] by (auto simp: artemis_config_ok_def config_ok_def)
  then have "pub_keys_ok (rx_net cx)" using m(2,3,5) by (simp add: pub_keys_ok_def)
  ultimately show ?thesis
    using m(3,6,8,11-) nf(1,2) genesis_store_ok [of E]
    by (auto simp: artemis_inv_def seen_ok_def votes_ok_def waiting_ok_def buffers_ok_def split: if_splits)
qed

lemma artemis_system:
  assumes "collision_free E" and "hash_32 E"
  shows "step_system (artemis_init E) (artemis_step E) (artemis_inv E)"
proof (unfold_locales, goal_cases)
  case (1 cx)
  then show ?case by (simp add: artemis_inv_start)
next
  case (2 cx cx')
  from 2(2) show ?case
  proof (cases rule: artemis_step.cases)
    case (artemis_reacts ev)
    with akeeps_reactor_step [OF assms 2(1)] show ?thesis by fastforce
  next
    case (artemis_caches h b)
    with 2(1) show ?thesis by simp
  qed
qed

lemma artemis_reachable_inv:
  "collision_free E \<Longrightarrow> hash_32 E \<Longrightarrow> artemis_init E cx0 \<Longrightarrow> (artemis_step E)\<^sup>*\<^sup>* cx0 cx \<Longrightarrow> artemis_inv E cx"
  using step_system.inv_reachable [OF artemis_system] by blast

section \<open>Properties\<close>

text \<open>
  C9: Leaders agree. Two nodes of a system with the same number of replicas and faults that have
  reached the same round, by whatever messages and in whatever order, have the same round leader,
  the same list of recent leaders and the same eligible leaders; the leader is a replica.
\<close>
theorem artemis_leaders_agree:
  assumes "collision_free E" and "hash_32 E" and "artemis_init E a0" and "(artemis_step E)\<^sup>*\<^sup>* a0 a"
    and "artemis_init E b0" and "(artemis_step E)\<^sup>*\<^sup>* b0 b" and "rx_num_nodes a = rx_num_nodes b"
    and "rx_num_faults a = rx_num_faults b" and "rx_round a = rx_round b"
  shows "rx_round_leader a = rx_round_leader b \<and> last_f_leaders a = last_f_leaders b \<and>
    eligible_leaders a = eligible_leaders b \<and> rx_round_leader a < rx_num_nodes a"
proof -
  have "rotation_ok E a" "rotation_ok E b"
    using artemis_reachable_inv assms(1-6) unfolding artemis_inv_def by blast+
  then show ?thesis using assms(7-9) rotation_okD(7) [of E a] by (auto simp: rotation_ok_def)
qed

text \<open>
  C8: Fair rotation. In every reachable state the recent leaders and the eligible ones are together
  exactly the replicas, without repetition; \<open>update_round\<close> does not panic below the overflow of the
  round, picks a leader that did not lead in the last \<open>num_faults\<close> rounds, and retires the oldest
  of the recent leaders. So any \<open>num_faults + 1\<close> consecutive leaders are different replicas.
\<close>
theorem artemis_rotation_fair:
  assumes "collision_free E" and "hash_32 E" and "artemis_init E cx0" and "(artemis_step E)\<^sup>*\<^sup>* cx0 cx"
    and "rx_round cx + 1 < 2 ^ 64"
  shows "distinct (last_f_leaders cx @ eligible_leaders cx) \<and>
    set (last_f_leaders cx @ eligible_leaders cx) = {0..<rx_num_nodes cx} \<and>
    length (last_f_leaders cx) = rx_num_faults cx \<and> last (last_f_leaders cx) = rx_round_leader cx \<and>
    (\<exists>cx'. artemis_update_round E cx = Inr cx' \<and> rx_round cx' = rx_round cx + 1 \<and>
       rx_round_leader cx' \<notin> set (last_f_leaders cx) \<and>
       last_f_leaders cx' = tl (last_f_leaders cx) @ [rx_round_leader cx'] \<and>
       mset (eligible_leaders cx') = mset (eligible_leaders cx) - {#rx_round_leader cx'#} + {#hd (last_f_leaders cx)#})"
proof -
  have rot: "rotation_ok E cx" using artemis_reachable_inv [OF assms(1-4)] by (simp add: artemis_inv_def)
  note ok = rotation_okD [OF rot]
  define i where "i = pick_index E (Suc (rx_round cx)) (length (eligible_leaders cx))"
  have i: "i < length (eligible_leaders cx)" using ok(2) by (simp add: i_def pick_index_def)
  obtain h t where ht: "last_f_leaders cx = h # t" using ok(3) by (cases "last_f_leaders cx") auto
  have fresh: "eligible_leaders cx ! i \<notin> set (last_f_leaders cx)" using ok(4) i by auto
  then have ins: "lhm_insert (eligible_leaders cx ! i) t = t @ [eligible_leaders cx ! i]"
    using ht by (auto simp: lhm_insert_def hs_remove_def filter_id_conv)
  have "compute_next_round_leader E (artemis_metric RecRoundAdvance cx) = Inr (eligible_leaders cx ! i, i)"
    using compute_next_leader_ok [OF assms(2), of "artemis_metric RecRoundAdvance cx"] rot assms(5)
    by (simp add: rotation_ok_def artemis_metric_def Let_def i_def)
  then have "\<exists>cx'. artemis_update_round E cx = Inr cx' \<and> rx_round cx' = rx_round cx + 1 \<and>
      rx_round_leader cx' = eligible_leaders cx ! i \<and> last_f_leaders cx' = t @ [eligible_leaders cx ! i] \<and>
      eligible_leaders cx' = (eligible_leaders cx)[i := h]"
    using assms(5) ht ins by (simp add: artemis_update_round_def artemis_metric_def Let_def add_u64_def)
  then show ?thesis using ok(1,4-6) fresh ht i by (auto simp: mset_update)
qed

text \<open>
  C6: Authenticity of votes under attack, for the rounds that other replicas lead. Whatever messages a
  node receives, exactly the rounds before the current one have a recorded vote; the vote recorded
  for a round is for that round and the node's view and names a delivered block; if another replica
  leads the round, it carries a valid signature of that leader; a delivered block has a delivered
  parent and a committed block a committed parent. Votes for the rounds that the node leads itself are
  exempt, because the code does not check them: \<open>artemis_own_round_vote_unchecked\<close> shows that anybody's
  vote is recorded there.
\<close>
theorem artemis_votes_authentic:
  assumes "collision_free E" and "hash_32 E" and "artemis_init E cx0" and "(artemis_step E)\<^sup>*\<^sup>* cx0 cx"
  shows "(\<forall>r. fmmem r (vote_chain cx) \<longleftrightarrow> 1 \<le> r \<and> r < rx_round cx) \<and>
    (\<forall>r v. fmlookup (vote_chain cx) r = Some v \<longrightarrow>
       uv_round v = r \<and> uv_view v = rx_view cx \<and> is_delivered_by_hash (rx_storage cx) (uv_hash v) \<and>
       (leader_of_round E (rx_num_nodes cx) (rx_num_faults cx) r \<noteq> rx_myid cx \<longrightarrow>
          (\<exists>pk. fmlookup (nx_pub_key_map (rx_net cx)) (leader_of_round E (rx_num_nodes cx) (rx_num_faults cx) r) = Some pk \<and>
             pk_verify E pk (hash_ucr E (uv_hash v) (uv_round v) (uv_view v)) (v_auth (uv_vote v))))) \<and>
    (\<forall>h b. delivered_block_from_hash (rx_storage cx) h = Some b \<longrightarrow> is_delivered_by_hash (rx_storage cx) (ab_prev b)) \<and>
    (\<forall>h b. is_committed_by_hash (rx_storage cx) h \<longrightarrow> delivered_block_from_hash (rx_storage cx) h = Some b \<longrightarrow>
       is_committed_by_hash (rx_storage cx) (ab_prev b))"
proof -
  note inv = artemis_reachable_inv [OF assms]
  have votes: "votes_ok E cx" and st: "artemis_store_ok E (rx_storage cx)" using inv by (auto simp: artemis_inv_def)
  have dom: "fmmem r (vote_chain cx) \<longleftrightarrow> 1 \<le> r \<and> r < rx_round cx" for r using votes by (simp add: votes_ok_def)
  have each: "uv_round v = r \<and> uv_view v = rx_view cx \<and> is_delivered_by_hash (rx_storage cx) (uv_hash v) \<and>
       (leader_of_round E (rx_num_nodes cx) (rx_num_faults cx) r \<noteq> rx_myid cx \<longrightarrow>
          (\<exists>pk. fmlookup (nx_pub_key_map (rx_net cx)) (leader_of_round E (rx_num_nodes cx) (rx_num_faults cx) r) = Some pk \<and>
             pk_verify E pk (hash_ucr E (uv_hash v) (uv_round v) (uv_view v)) (v_auth (uv_vote v))))"
    if "fmlookup (vote_chain cx) r = Some v" for r v
  proof -
    have "vote_ok E cx r v" using votes that by (simp add: votes_ok_def)
    then show ?thesis unfolding vote_ok_def Let_def UCRVote_check_sig_def UCRVote_digest_def .
  qed
  have par: "is_delivered_by_hash (rx_storage cx) (ab_prev b)" if "delivered_block_from_hash (rx_storage cx) h = Some b" for h b
    using st that by (auto simp: artemis_store_ok_def parents_delivered_def)
  have com: "is_committed_by_hash (rx_storage cx) (ab_prev b)"
    if "is_committed_by_hash (rx_storage cx) h" "delivered_block_from_hash (rx_storage cx) h = Some b" for h b
    using storage_okD(3) [OF st [unfolded artemis_store_ok_def, THEN conjunct1] that] .
  show ?thesis
    by (intro conjI allI, rule dom, rule impI, erule each, rule impI, erule par, intro impI, erule (1) com)
qed

text \<open>
  C4: The faults that exist. In every reachable state and for every event, an iteration of the
  reactor either returns or ends in one of four faults: a \<open>Blame\<close> message was received, the node's
  key did not sign a block or a vote, or a 64-bit counter overflowed. In particular the commit
  walk always finds the blocks it needs, the vote of the committed round is there, and every loop
  ends.
\<close>
theorem artemis_possible_faults:
  assumes "collision_free E" and "hash_32 E" and "artemis_init E cx0" and "(artemis_step E)\<^sup>*\<^sup>* cx0 cx"
    and "artemis_event_sealed E ev" and "artemis_reactor_step E ev cx = Inl f"
  shows "f \<in> {Panic ''Currently unimplemented'', Panic ''Failed to sign the block'',
    Panic ''Failed to sign a ucr message'', Overflow}"
  using akeeps_reactor_step [OF assms(1,2) artemis_reachable_inv [OF assms(1-4)] assms(5)] assms(6)
  by (simp add: artemis_faults_def)

text \<open>The vote of a round leader: it is broadcast, recorded, and the leader leaves the round.\<close>

lemma leader_votes:
  assumes ext: "hash_32 E" and inv: "artemis_inv E ld" and leads: "rx_myid ld = rx_round_leader ld"
    and new: "artemis_get_height (last_voted_block ld) < artemis_get_height (rx_last_seen_block ld)"
    and small: "rx_round ld + 1 < 2 ^ 64"
    and v0: "v0 = (UCRVote_new E)\<lparr>uv_hash := artemis_get_hash (rx_last_seen_block ld), uv_round := rx_round ld, uv_view := rx_view ld\<rparr>"
    and auth: "sk_sign E (nx_my_secret_key (rx_net ld)) (UCRVote_digest E v0) = Some auth"
    and v: "v = v0\<lparr>uv_vote := \<lparr>v_origin = rx_myid ld, v_auth = auth\<rparr>\<rparr>"
  shows "\<exists>ld' more. try_round_vote E ld = Inr ld' \<and> artemis_inv E ld' \<and> rx_round ld' = Suc (rx_round ld) \<and>
    vote_chain ld' = fmupd (rx_round ld) v (vote_chain ld) \<and>
    nx_sent (rx_net ld') = nx_sent (rx_net (artemis_multicast E (ArUCRVote v) (artemis_metric RecVote ld))) @ more \<and>
    rx_num_nodes ld' = rx_num_nodes ld \<and> rx_num_faults ld' = rx_num_faults ld"
proof -
  let ?m = "artemis_multicast E (ArUCRVote v) (artemis_metric RecVote ld)"
  have minv: "artemis_inv E ?m" using inv by simp
  have m: "uv_round v = rx_round ?m" "is_delivered_by_hash (rx_storage ?m) (uv_hash v)"
      "rx_view ?m = uv_view v" "rx_myid ?m = rx_round_leader ?m" "rx_round ?m + 1 < 2 ^ 64"
    using inv leads small by (auto simp: v v0 artemis_multicast_def artemis_metric_def artemis_inv_def seen_ok_def)
  obtain ld' more where ld': "on_receive_round_vote E v ?m = Inr ld'" "artemis_inv E ld'" "rx_round ld' = Suc (rx_round ?m)"
      "vote_chain ld' = fmupd (rx_round ?m) v (vote_chain ?m)" "nx_sent (rx_net ld') = nx_sent (rx_net ?m) @ more"
      "rx_num_nodes ld' = rx_num_nodes ?m" "rx_num_faults ld' = rx_num_faults ?m"
    using round_vote_effect [OF ext minv m(1-3) _ m(5)] m(4) by blast
  moreover have "try_round_vote E ld = Inr ld'"
    using leads new auth ld'(1)
    by (simp add: try_round_vote_def do_round_vote_def UCRVote_compute_sig_def artemis_metric_def v0 v Let_def)
  ultimately show ?thesis
    by (intro exI [of _ ld'] exI [of _ more]) (simp add: artemis_multicast_def artemis_metric_def)
qed

text \<open>
  C11: One round of the protocol. A round leader that has seen a block higher than the last one it
  voted for, and a follower in the same round and view that has that block and the leader's public
  key: the leader votes, the follower receives the vote the leader broadcast, both record the same
  vote for the round, move to the next round and agree on its leader.
\<close>
theorem artemis_round_synchronises:
  assumes ext: "hash_32 E" and inv: "artemis_inv E ld" "artemis_inv E fo"
    and same: "rx_num_nodes fo = rx_num_nodes ld" "rx_num_faults fo = rx_num_faults ld" "rx_round fo = rx_round ld"
      "rx_view fo = rx_view ld"
    and leads: "rx_myid ld = rx_round_leader ld" "rx_myid fo \<in> set (nx_broadcast_peers (rx_net ld))"
    and new: "artemis_get_height (last_voted_block ld) < artemis_get_height (rx_last_seen_block ld)"
      "is_delivered_by_hash (rx_storage fo) (artemis_get_hash (rx_last_seen_block ld))"
    and keys: "sign_verifies E (nx_my_secret_key (rx_net ld)) pk"
      "fmlookup (nx_pub_key_map (rx_net fo)) (rx_myid ld) = Some pk"
    and small: "rx_round ld + 1 < 2 ^ 64"
  shows "\<exists>ld' fo' v. try_round_vote E ld = Inr ld' \<and> (rx_myid fo, ArUCRVote v) \<in> set (nx_sent (rx_net ld')) \<and>
    artemis_handle_other E (ArUCRVote v) fo = Inr fo' \<and> uv_hash v = artemis_get_hash (rx_last_seen_block ld) \<and>
    fmlookup (vote_chain ld') (rx_round ld) = Some v \<and> fmlookup (vote_chain fo') (rx_round ld) = Some v \<and>
    rx_round ld' = rx_round ld + 1 \<and> rx_round fo' = rx_round ld' \<and> rx_round_leader fo' = rx_round_leader ld'"
proof -
  define v0 where "v0 = (UCRVote_new E)\<lparr>uv_hash := artemis_get_hash (rx_last_seen_block ld), uv_round := rx_round ld, uv_view := rx_view ld\<rparr>"
  obtain auth where auth: "sk_sign E (nx_my_secret_key (rx_net ld)) (UCRVote_digest E v0) = Some auth"
      "pk_verify E pk (UCRVote_digest E v0) auth" using keys(1) unfolding sign_verifies_def by blast
  define v where "v = v0\<lparr>uv_vote := \<lparr>v_origin = rx_myid ld, v_auth = auth\<rparr>\<rparr>"
  have dig: "UCRVote_digest E v = UCRVote_digest E v0" by (simp add: UCRVote_digest_def v_def)
  have v: "uv_hash v = artemis_get_hash (rx_last_seen_block ld)" "uv_round v = rx_round ld" "uv_view v = rx_view ld"
    by (simp_all add: v_def v0_def)
  let ?m = "artemis_multicast E (ArUCRVote v) (artemis_metric RecVote ld)"
  obtain ld' more where vote: "try_round_vote E ld = Inr ld'"
    and ld': "artemis_inv E ld'" "rx_round ld' = Suc (rx_round ld)"
      "vote_chain ld' = fmupd (rx_round ld) v (vote_chain ld)" "nx_sent (rx_net ld') = nx_sent (rx_net ?m) @ more"
      "rx_num_nodes ld' = rx_num_nodes ld" "rx_num_faults ld' = rx_num_faults ld"
    using leader_votes [OF ext inv(1) leads(1) new(1) small v0_def auth(1) v_def] by blast
  have lead: "rx_round_leader fo = rx_myid ld"
    using inv same leads(1) by (auto simp: artemis_inv_def rotation_ok_def)
  have sig: "UCRVote_check_sig E pk v" using auth(2) by (simp add: UCRVote_check_sig_def dig) (simp add: v_def)
  have fv: "uv_round v = rx_round fo" "is_delivered_by_hash (rx_storage fo) (uv_hash v)" "rx_view fo = uv_view v"
    "rx_round fo + 1 < 2 ^ 64" using v same new(2) small by simp_all
  obtain fo' where fo': "on_receive_round_vote E v fo = Inr fo'" "artemis_inv E fo'" "rx_round fo' = Suc (rx_round fo)"
      "vote_chain fo' = fmupd (rx_round fo) v (vote_chain fo)" "rx_num_nodes fo' = rx_num_nodes fo"
      "rx_num_faults fo' = rx_num_faults fo"
    using round_vote_effect [OF ext inv(2) fv(1-3) _ fv(4)] lead keys(2) sig by auto
  have "artemis_handle_other E (ArUCRVote v) fo = Inr fo'"
    using fv fo'(1) by (simp add: artemis_handle_other_def try_receive_round_vote_def)
  moreover have "(rx_myid fo, ArUCRVote v) \<in> set (nx_sent (rx_net ld'))"
    using ld'(4) leads(2) by (simp add: artemis_multicast_def artemis_metric_def)
  moreover have "rx_round_leader fo' = rx_round_leader ld'"
    using ld'(1,2,5,6) fo'(2,3,5,6) same by (auto simp: artemis_inv_def rotation_ok_def artemis_multicast_def artemis_metric_def)
  ultimately show ?thesis
    using vote v(1) ld'(2,3) fo'(3,4) same(3) by (intro exI [of _ ld'] exI [of _ fo'] exI [of _ v]) simp
qed

lemma artemis_delivery_effect:
  assumes "block_parent_waiting cx = fmempty" and "artemis_get_height (rx_last_seen_block cx) < artemis_get_height b"
    and "artemis_get_height b + 1 < 2 ^ 64"
  shows "\<exists>cx'. do_delivery b cx = Inr cx' \<and> rx_last_seen_block cx' = b \<and> rx_net cx' = rx_net cx \<and>
    rx_storage cx' = add_delivered_block artemis_get_hash artemis_get_height b (rx_storage cx) \<and>
    bx_to_batcher (rx_batch cx') = bx_to_batcher (rx_batch cx) @ [NewRound (view_leader cx) (artemis_get_height b + 1)] \<and>
    bx_pending (rx_batch cx') = bx_pending (rx_batch cx) \<and> last_voted_block cx' = last_voted_block cx \<and>
    rx_round cx' = rx_round cx"
proof -
  have kids: "artemis_children h s = s" if "block_parent_waiting (fst s) = fmempty" for h s
    using that by (simp add: artemis_children.simps [of h s])
  have wake: "rx_last_seen_block (artemis_wake_vote h c) = rx_last_seen_block c \<and> rx_net (artemis_wake_vote h c) = rx_net c \<and>
      view_leader (artemis_wake_vote h c) = view_leader c \<and> last_voted_block (artemis_wake_vote h c) = last_voted_block c \<and>
      rx_round (artemis_wake_vote h c) = rx_round c" for h c
    by (simp add: artemis_wake_vote_def split: option.splits)
  show ?thesis
    using assms kids wake
    by (auto simp: do_delivery_def artemis_see_def artemis_deliver_def Let_def announce_height_to_batcher_def add_u64_def
        artemis_notify_def artemis_get_height_def block_get_height_def)
qed

lemma higher_not_delivered:
  assumes "collision_free E" and "artemis_inv E cx" and "block_sealed E (ab_blk b)"
    and "artemis_get_height (rx_last_seen_block cx) < artemis_get_height b"
  shows "\<not> is_delivered_by_hash (rx_storage cx) (artemis_get_hash b)"
proof
  assume "is_delivered_by_hash (rx_storage cx) (artemis_get_hash b)"
  then obtain c where c: "delivered_block_from_hash (rx_storage cx) (artemis_get_hash b) = Some c" by (auto simp: is_delivered_iff)
  have "artemis_store_ok E (rx_storage cx)" using assms(2) by (simp add: artemis_inv_def)
  then have "artemis_get_hash c = artemis_get_hash b" "ab_ok E c"
    using c storage_okD(1) by (fastforce simp: artemis_store_ok_def)+
  with artemis_collision [OF assms(1) _ assms(3)] have "ab_blk c = ab_blk b" by blast
  then have "artemis_get_height c = artemis_get_height b" by (simp add: artemis_get_height_def)
  moreover have "artemis_get_height c \<le> artemis_get_height (rx_last_seen_block cx)"
    using assms(2) c by (auto simp: artemis_inv_def seen_ok_def)
  ultimately show False using assms(4) by simp
qed

text \<open>The block of a view leader: it is broadcast, delivered, and the leader builds on it next.\<close>

lemma leader_makes_block:
  assumes ext: "collision_free E" and inv: "artemis_inv E ld" and leads: "view_leader ld = rx_myid ld"
    and idle: "block_parent_waiting ld = fmempty" and small: "artemis_get_height (rx_last_seen_block ld) + 2 < 2 ^ 64"
    and blk: "blk = block_init E ((with_batch E bh)\<lparr>blk_header := (Header_new E)\<lparr>hdr_prev := artemis_get_hash (rx_last_seen_block ld),
        hdr_author := rx_myid ld, hdr_height := artemis_get_height (rx_last_seen_block ld) + 1\<rparr>\<rparr>)"
    and auth: "sk_sign E (nx_my_secret_key (rx_net ld)) (blk_hash blk) = Some auth"
    and b: "b = \<lparr>ab_blk = blk, ab_sig = \<lparr>v_origin = rx_myid ld, v_auth = auth\<rparr>\<rparr>"
  shows "\<exists>ld'. do_new_block E bh batch ld = Inr ld' \<and> rx_last_seen_block ld' = b \<and>
      rx_net ld' = rx_net (artemis_multicast E (ArNewBlock b batch) ld) \<and> bx_pending (rx_batch ld') = bx_pending (rx_batch ld) \<and>
      last_voted_block ld' = last_voted_block ld \<and> rx_round ld' = rx_round ld"
    and "ab_prev b = artemis_get_hash (rx_last_seen_block ld)" and "artemis_get_author b = rx_myid ld"
    and "blk_batch_hash (ab_blk b) = bh" and "artemis_get_height b = artemis_get_height (rx_last_seen_block ld) + 1"
    and "block_sealed E (ab_blk b)"
proof -
  let ?L = "rx_last_seen_block ld"
  show b': "ab_prev b = artemis_get_hash ?L" "artemis_get_author b = rx_myid ld" "blk_batch_hash (ab_blk b) = bh"
      "artemis_get_height b = artemis_get_height ?L + 1" "block_sealed E (ab_blk b)"
    by (simp_all add: b blk artemis_get_author_def artemis_get_height_def block_get_author_def block_get_height_def)
      (simp_all add: block_init_def with_batch_def compute_hash_def)
  have new: "artemis_new_block E bh (artemis_metric RecPropose ld) = Inr b"
    using small auth
    by (simp add: artemis_new_block_def artemis_with_batch_def artemis_block_init_def artemis_block_sign_def artemis_metric_def
        add_u64_def b blk with_batch_def Let_def)
  let ?m = "artemis_notify (Proposed batch (blk_height (ab_blk b))) (artemis_multicast E (ArNewBlock b batch) (artemis_metric RecPropose ld))"
  have lower: "artemis_get_height (rx_last_seen_block ?m) < artemis_get_height b"
    using b'(4) by (simp add: artemis_notify_def artemis_multicast_def artemis_metric_def)
  have inv': "artemis_inv E ?m" using inv by simp
  have fresh: "\<not> is_delivered_by_hash (rx_storage ?m) (artemis_get_hash b)"
    using higher_not_delivered [OF ext inv' b'(5) lower] .
  have par: "is_delivered_by_hash (rx_storage ?m) (ab_prev b)"
    using inv b'(1) by (simp add: artemis_inv_def seen_ok_def artemis_notify_def artemis_multicast_def artemis_metric_def)
  have ht: "artemis_get_height b + 1 < 2 ^ 64" using b'(4) small by simp
  have idle': "block_parent_waiting ?m = fmempty"
    using idle by (simp add: artemis_notify_def artemis_multicast_def artemis_metric_def)
  obtain ld' where ld': "do_delivery b ?m = Inr ld'" "rx_last_seen_block ld' = b" "rx_net ld' = rx_net ?m"
      "bx_pending (rx_batch ld') = bx_pending (rx_batch ?m)" "last_voted_block ld' = last_voted_block ?m" "rx_round ld' = rx_round ?m"
    using artemis_delivery_effect [OF idle' lower ht] by blast
  have "on_receive_new_block_direct E b ?m = Inr ld'"
    using fresh par ld'(1) leads b'(2)
    by (simp add: on_receive_new_block_direct_def artemis_notify_def artemis_multicast_def artemis_metric_def b)
  with new have "do_new_block E bh batch ld = Inr ld'" by (simp add: do_new_block_def Let_def)
  then show "\<exists>ld'. do_new_block E bh batch ld = Inr ld' \<and> rx_last_seen_block ld' = b \<and>
      rx_net ld' = rx_net (artemis_multicast E (ArNewBlock b batch) ld) \<and> bx_pending (rx_batch ld') = bx_pending (rx_batch ld) \<and>
      last_voted_block ld' = last_voted_block ld \<and> rx_round ld' = rx_round ld"
    using ld'(2-6) by (intro exI [of _ ld']) (simp add: artemis_notify_def artemis_multicast_def artemis_metric_def notify_batcher_def)
qed

text \<open>
  C12: Blocks spread. A view leader and a follower have seen the same last block, nothing waits for a
  parent, and the follower has the leader's public key. The leader makes a block for a batch under
  its hash, one higher than and naming the last block; the follower, handed the message the leader
  broadcast, verifies and delivers it; both now have it as their last block.
\<close>
theorem artemis_block_dissemination:
  assumes ext: "collision_free E" and inv: "artemis_inv E ld" "artemis_inv E fo"
    and same: "rx_last_seen_block fo = rx_last_seen_block ld" "view_leader ld = rx_myid ld" "view_leader fo = rx_myid ld"
      "rx_myid fo \<noteq> rx_myid ld" "rx_myid fo \<in> set (nx_broadcast_peers (rx_net ld))"
    and keys: "sign_verifies E (nx_my_secret_key (rx_net ld)) pk"
      "fmlookup (nx_pub_key_map (rx_net fo)) (rx_myid ld) = Some pk"
    and bh: "fst (CachedBatch_hash E batch) = bh"
    and idle: "block_parent_waiting ld = fmempty" "block_parent_waiting fo = fmempty"
    and small: "artemis_get_height (rx_last_seen_block ld) + 2 < 2 ^ 64"
  shows "\<exists>ld' fo' b. do_new_block E bh batch ld = Inr ld' \<and> (rx_myid fo, ArNewBlock b batch) \<in> set (nx_sent (rx_net ld')) \<and>
    artemis_process_new_block E (b, batch) fo = Inr fo' \<and> rx_last_seen_block ld' = b \<and> rx_last_seen_block fo' = b \<and>
    is_delivered_by_hash (rx_storage fo') (artemis_get_hash b) \<and> ab_prev b = artemis_get_hash (rx_last_seen_block ld) \<and>
    artemis_get_height b = artemis_get_height (rx_last_seen_block ld) + 1 \<and> blk_batch_hash (ab_blk b) = bh"
proof -
  let ?L = "rx_last_seen_block ld"
  define blk where "blk = block_init E ((with_batch E bh)\<lparr>blk_header := (Header_new E)\<lparr>hdr_prev := artemis_get_hash ?L,
      hdr_author := rx_myid ld, hdr_height := artemis_get_height ?L + 1\<rparr>\<rparr>)"
  obtain auth where auth: "sk_sign E (nx_my_secret_key (rx_net ld)) (blk_hash blk) = Some auth" "pk_verify E pk (blk_hash blk) auth"
    using keys(1) unfolding sign_verifies_def by blast
  define b where "b = \<lparr>ab_blk = blk, ab_sig = \<lparr>v_origin = rx_myid ld, v_auth = auth\<rparr>\<rparr>"
  note made = leader_makes_block [OF ext inv(1) same(2) idle(1) small blk_def auth(1) b_def]
  note b = made(2-6)
  obtain ld' where ld': "do_new_block E bh batch ld = Inr ld'" "rx_last_seen_block ld' = b"
      "rx_net ld' = rx_net (artemis_multicast E (ArNewBlock b batch) ld)"
    using made(1) by blast
  let ?p = "fo\<lparr>rx_batch := persist_batch E bh (snd (CachedBatch_hash E batch)) (rx_batch fo)\<rparr>"
  have lower: "artemis_get_height (rx_last_seen_block ?p) < artemis_get_height b" using b(4) same(1) by simp
  have inv': "artemis_inv E ?p" using inv by simp
  have fresh: "\<not> is_delivered_by_hash (rx_storage ?p) (artemis_get_hash b)" by (rule higher_not_delivered [OF ext inv' b(5) lower])
  have par: "is_delivered_by_hash (rx_storage ?p) (ab_prev b)"
    using inv(2) b(1) same(1) by (simp add: artemis_inv_def seen_ok_def)
  have ht: "artemis_get_height b + 1 < 2 ^ 64" using b(4) small by simp
  obtain fo' where fo': "do_delivery b ?p = Inr fo'" "rx_last_seen_block fo' = b"
      "rx_storage fo' = add_delivered_block artemis_get_hash artemis_get_height b (rx_storage ?p)"
    using artemis_delivery_effect [of ?p, OF _ lower ht] idle(2) by auto
  have sig: "v_origin (ab_sig b) = rx_myid ld" "artemis_block_check_sig E pk b"
    using auth(2) by (simp_all add: b_def artemis_block_check_sig_def)
  have "on_receive_new_block_direct E b ?p = Inr fo'"
    using fresh par fo'(1) same(3,4) b(2) sig keys(2) by (simp add: on_receive_new_block_direct_def)
  then have "artemis_process_new_block E (b, batch) fo = Inr fo'"
    using bh b(3) by (simp add: artemis_process_new_block_def artemis_check_batch_hash_def)
  moreover have "(rx_myid fo, ArNewBlock b batch) \<in> set (nx_sent (rx_net ld'))"
    using ld'(3) same(5) by (simp add: artemis_multicast_def)
  ultimately show ?thesis
    using b ld'(1,2) fo'(2,3) by (intro exI [of _ ld'] exI [of _ fo'] exI [of _ b]) simp
qed

text \<open>
  A gap in the checks: responses are not authenticated. A node accepts in a \<open>Response\<close> any block
  whose parent is delivered and whose batch matches, whatever its author and whatever signature it
  carries, and a higher one becomes the block the node votes for and builds on.
\<close>
theorem artemis_response_unauthenticated:
  assumes "collision_free E" and "artemis_inv E cx" and "block_sealed E (ab_blk b)"
    and "is_delivered_by_hash (rx_storage cx) (ab_prev b)" and "artemis_check_batch_hash E b batch"
    and "artemis_get_height (rx_last_seen_block cx) < artemis_get_height b" and "artemis_get_height b + 1 < 2 ^ 64"
    and "block_parent_waiting cx = fmempty"
  shows "\<exists>cx'. artemis_process_response E (sender, b, batch) cx = Inr cx' \<and> rx_last_seen_block cx' = b \<and>
    is_delivered_by_hash (rx_storage cx') (artemis_get_hash b)"
proof -
  let ?p = "cx\<lparr>rx_batch := persist_batch E (blk_batch_hash (ab_blk b)) (snd (CachedBatch_hash E batch)) (rx_batch cx)\<rparr>"
  have "\<not> is_delivered_by_hash (rx_storage ?p) (artemis_get_hash b)"
    using higher_not_delivered [OF assms(1-3,6)] by simp
  moreover obtain cx' where "do_delivery b ?p = Inr cx'" "rx_last_seen_block cx' = b"
      "rx_storage cx' = add_delivered_block artemis_get_hash artemis_get_height b (rx_storage ?p)"
    using artemis_delivery_effect [of ?p b] assms(6-8) by auto
  ultimately show ?thesis
    using assms(4,5,8) by (simp add: artemis_process_response_def update_delivery_def Let_def)
qed

text \<open>
  A gap in the checks: the leader of the round does not check votes for it. When the node itself
  leads the current round, it records any vote for the round that names a delivered block, with
  whatever signature, and leaves the round.
\<close>
theorem artemis_own_round_vote_unchecked:
  assumes "hash_32 E" and "artemis_inv E cx" and "rx_myid cx = rx_round_leader cx"
    and "uv_round v = rx_round cx" and "uv_view v = rx_view cx" and "is_delivered_by_hash (rx_storage cx) (uv_hash v)"
    and "rx_round cx + 1 < 2 ^ 64"
  shows "\<exists>cx'. artemis_handle_other E (ArRelay sender v) cx = Inr cx' \<and> rx_round cx' = rx_round cx + 1 \<and>
    fmlookup (vote_chain cx') (rx_round cx) = Some v"
proof -
  obtain cx' where "on_receive_round_vote E v cx = Inr cx'" "rx_round cx' = Suc (rx_round cx)"
      "vote_chain cx' = fmupd (rx_round cx) v (vote_chain cx)"
    using round_vote_effect [OF assms(1,2,4,6) _ _ assms(7)] assms(3,5) by auto
  then show ?thesis using assms(4,6) by (simp add: artemis_handle_other_def try_receive_round_vote_def)
qed

section \<open>Witnesses\<close>

definition sample_artemis :: "replica \<Rightarrow> artemis_cx" where
  "sample_artemis me = projr (artemis_reactor_start sample_ext (sample_config me) sample_pks fmempty fmempty)"

lemma sample_artemis_start:
  assumes "me \<in> {0, 1}"
  shows "artemis_reactor_start sample_ext (sample_config me) sample_pks fmempty fmempty = Inr (sample_artemis me)"
    and "rx_myid (sample_artemis me) = me" and "nx_my_secret_key (rx_net (sample_artemis me)) = [word_of_nat me]"
    and "rx_num_nodes (sample_artemis me) = 4" and "rx_num_faults (sample_artemis me) = 1"
    and "rx_round (sample_artemis me) = 1" and "rx_round_leader (sample_artemis me) = 0" and "rx_view (sample_artemis me) = 0"
    and "view_leader (sample_artemis me) = 0" and "rx_last_seen_block (sample_artemis me) = artemis_GENESIS_BLOCK sample_ext"
    and "last_voted_block (sample_artemis me) = artemis_GENESIS_BLOCK sample_ext"
    and "me = 1 \<Longrightarrow> fmlookup (nx_pub_key_map (rx_net (sample_artemis me))) 0 = Some [0]"
    and "nx_broadcast_peers (rx_net (sample_artemis 0)) = [1, 2, 3]" and "block_parent_waiting (sample_artemis me) = fmempty"
    and "rx_other_buf (sample_artemis me) = []" and "response_waiting (sample_artemis me) = []"
    and "block_processing_waiting (sample_artemis me) = []" and "vote_ready (sample_artemis me) = fmempty"
    and "rx_storage (sample_artemis me) = add_delivered_block artemis_get_hash artemis_get_height (artemis_GENESIS_BLOCK sample_ext) Storage_new"
  using assms
  by (auto simp: sample_artemis_def sample_node_defs artemis_reactor_start_def artemis_Context_new_def mul_u64_def
      sub_u64_def add_u64_def announce_height_to_batcher_def artemis_GENESIS_BLOCK_def GENESIS_BLOCK_def
      artemis_notify_def artemis_deliver_def Let_def upt_conv_Cons)

lemma sample_artemis_init: "me \<in> {0, 1} \<Longrightarrow> artemis_init sample_ext (sample_artemis me)"
  unfolding artemis_init_def using sample_artemis_start(1) [of me]
  by (intro exI [of _ "sample_config me"] exI [of _ sample_pks] exI [of _ fmempty] conjI)
    (auto simp: artemis_config_ok_def config_ok_def sample_config_def sample_pks_def)

lemma sample_artemis_inv: "me \<in> {0, 1} \<Longrightarrow> artemis_inv sample_ext (sample_artemis me)"
  using artemis_inv_start [OF sample_artemis_init] .

lemma Suc_0_in: "Suc 0 \<in> {0, 1}"
  by simp

lemmas sample_artemis_0 = sample_artemis_start(2-11,13-) [of 0, OF insertI1]
lemmas sample_artemis_1 = sample_artemis_start(2-11,14-) [of "Suc 0", OF Suc_0_in] sample_artemis_start(12) [OF Suc_0_in, unfolded One_nat_def, OF refl]

theorem artemis_leaders_agree_witness:
  "rx_round_leader (sample_artemis 0) = rx_round_leader (sample_artemis 1) \<and>
   eligible_leaders (sample_artemis 0) = eligible_leaders (sample_artemis 1)"
  using artemis_leaders_agree [OF sample_collision_free sample_hash_32 sample_artemis_init [of 0] rtranclp.rtrancl_refl
      sample_artemis_init [of 1] rtranclp.rtrancl_refl] sample_artemis_0 sample_artemis_1 by simp

theorem artemis_rotation_fair_witness:
  "\<exists>cx'. artemis_update_round sample_ext (sample_artemis 1) = Inr cx' \<and> rx_round cx' = 2 \<and>
     rx_round_leader cx' \<notin> set (last_f_leaders (sample_artemis 1))"
  using artemis_rotation_fair [OF sample_collision_free sample_hash_32 sample_artemis_init [of 1] rtranclp.rtrancl_refl]
    sample_artemis_1 by auto

text \<open>Replica 1 takes the vote of replica 0, the leader of round 1, for the genesis block.\<close>

lemma round_vote_frame:
  assumes "on_receive_round_vote E v cx = Inr cx'"
  shows "rx_myid cx' = rx_myid cx" "view_leader cx' = view_leader cx" "rx_last_seen_block cx' = rx_last_seen_block cx"
    "nx_pub_key_map (rx_net cx') = nx_pub_key_map (rx_net cx)"
proof -
  have "rx_myid cx' = rx_myid cx \<and> view_leader cx' = view_leader cx \<and> rx_last_seen_block cx' = rx_last_seen_block cx \<and>
      nx_pub_key_map (rx_net cx') = nx_pub_key_map (rx_net cx)"
  proof (cases "cx' = cx")
    case False
    let ?c = "cx\<lparr>vote_chain := fmupd (uv_round v) v (vote_chain cx)\<rparr>"
    from assms False obtain c b l m where c: "(if rx_round ?c > rx_num_faults ?c then artemis_do_commit E ?c else Inr ?c) = Inr c"
        "artemis_update_round E (artemis_send E l m (c\<lparr>last_voted_block := b\<rparr>)) = Inr cx'"
      by (auto simp: on_receive_round_vote_def Let_def split: if_splits)
    have "rx_myid c = rx_myid cx \<and> view_leader c = view_leader cx \<and> rx_last_seen_block c = rx_last_seen_block cx \<and> rx_net c = rx_net cx"
      using c(1) by (auto split: if_splits elim!: artemis_do_commit_result)
    with c(2) show ?thesis by (auto simp: artemis_send_def artemis_metric_def elim!: artemis_update_round_result)
  qed simp
  then show "rx_myid cx' = rx_myid cx" "view_leader cx' = view_leader cx" "rx_last_seen_block cx' = rx_last_seen_block cx"
    "nx_pub_key_map (rx_net cx') = nx_pub_key_map (rx_net cx)" by blast+
qed

definition sample_vote :: ucr_vote where
  "sample_vote = \<lparr>uv_hash = [], uv_round = 1, uv_view = 0,
     uv_vote = \<lparr>v_origin = 0, v_auth = the (sk_sign sample_ext [0] (hash_ucr sample_ext [] 1 0))\<rparr>\<rparr>"

lemma sample_vote_signed: "UCRVote_check_sig sample_ext [0] sample_vote"
  using sample_sign_verifies [of "[0]"] by (auto simp: UCRVote_check_sig_def UCRVote_digest_def sample_vote_def sign_verifies_def)

lemma artemis_process_relayed_vote:
  assumes "block_processing_waiting cx = []" "response_waiting cx = []" "rx_other_buf cx = []" "vote_ready cx = fmempty"
    and "artemis_handle_other E (ArRelay from v) cx = Inr cx'" "vote_ready cx' = fmempty"
  shows "artemis_process_message E (fold buffer_message [ArRelay from v] cx) = Inr cx'"
proof -
  define b where "b = cx\<lparr>rx_other_buf := [ArRelay from v]\<rparr>"
  have same: "b\<lparr>block_processing_waiting := []\<rparr> = b" "b\<lparr>response_waiting := []\<rparr> = b" "b\<lparr>rx_other_buf := []\<rparr> = cx"
    using assms(1-3) by (auto simp: b_def intro!: artemis_cx.equality)
  have b: "block_processing_waiting b = []" "response_waiting b = []" "rx_other_buf b = [ArRelay from v]" "vote_ready b = fmempty"
    using assms(1,2,4) by (simp_all add: b_def)
  have "artemis_ready_votes E b = Inr b" "artemis_ready_votes E cx' = Inr cx'"
    unfolding artemis_ready_votes.simps [of E b] artemis_ready_votes.simps [of E cx'] using b(4) assms(6) by simp_all
  moreover have "fold buffer_message [ArRelay from v] cx = b" using assms(3) by (simp add: b_def buffer_message_def)
  ultimately show ?thesis unfolding artemis_process_message_def by (simp add: same b(1-3) assms(5))
qed

lemma sample_artemis_votes:
  obtains cx where "artemis_step sample_ext (sample_artemis 1) cx" "rx_round cx = 2" "fmlookup (vote_chain cx) 1 = Some sample_vote"
    "rx_myid cx = 1" "rx_num_nodes cx = 4" "rx_num_faults cx = 1" "nx_pub_key_map (rx_net cx) = nx_pub_key_map (rx_net (sample_artemis 1))"
proof -
  define c where "c = artemis_metric RecReactorIter (sample_artemis 1)"
  have "artemis_inv sample_ext c" using sample_artemis_inv [of 1] by (simp add: c_def)
  moreover have "block_processing_waiting c = []" "response_waiting c = []" "rx_other_buf c = []" "vote_ready c = fmempty"
    using sample_artemis_1 by (simp_all add: c_def artemis_metric_def)
  moreover have "rx_round c = 1" "rx_myid c = 1" "rx_round_leader c = 0" "rx_view c = 0" "view_leader c = 0"
      "rx_num_nodes c = 4" "rx_num_faults c = 1" "rx_net c = rx_net (sample_artemis 1)" "fmlookup (nx_pub_key_map (rx_net c)) 0 = Some [0]"
      "is_delivered_by_hash (rx_storage c) []"
    using sample_artemis_1 by (simp_all add: c_def artemis_metric_def)
  ultimately have c: "artemis_inv sample_ext c" "block_processing_waiting c = []" "response_waiting c = []" "rx_other_buf c = []"
      "vote_ready c = fmempty" "rx_round c = 1" "rx_myid c = 1" "rx_round_leader c = 0" "rx_view c = 0" "view_leader c = 0"
      "rx_num_nodes c = 4" "rx_num_faults c = 1" "rx_net c = rx_net (sample_artemis 1)" "fmlookup (nx_pub_key_map (rx_net c)) 0 = Some [0]"
      "is_delivered_by_hash (rx_storage c) []" by blast+
  have v: "uv_round sample_vote = 1" "uv_view sample_vote = 0" "uv_hash sample_vote = []" by (simp_all add: sample_vote_def)
  obtain cx where cx: "on_receive_round_vote sample_ext sample_vote c = Inr cx" "rx_round cx = 2" "vote_chain cx = fmupd 1 sample_vote (vote_chain c)"
      "rx_num_nodes cx = 4" "rx_num_faults cx = 1"
    using round_vote_effect [OF sample_hash_32 c(1), of sample_vote] c sample_vote_signed by (auto simp: v)
  note frame = round_vote_frame [OF cx(1)]
  have "vote_ready cx = fmempty" using on_receive_round_vote_frame [OF cx(1)] c(5) by simp
  moreover have "artemis_handle_other sample_ext (ArRelay 0 sample_vote) c = Inr cx"
    using cx(1) c v by (simp add: artemis_handle_other_def try_receive_round_vote_def)
  ultimately have "artemis_process_message sample_ext (fold buffer_message [ArRelay 0 sample_vote] c) = Inr cx"
    using artemis_process_relayed_vote [OF c(2-5)] by blast
  moreover have "rx_last_seen_block cx = artemis_GENESIS_BLOCK sample_ext" using frame(3) sample_artemis_1 by (simp add: c_def artemis_metric_def)
  then have "try_round_vote sample_ext cx = Inr cx"
    by (simp add: try_round_vote_def artemis_GENESIS_BLOCK_def GENESIS_BLOCK_def artemis_get_height_def block_get_height_def Header_new_def)
  then have "artemis_after_select sample_ext cx = Inr cx"
    using frame(1,2) c(7,10) by (simp add: artemis_after_select_def artemis_drain.simps [of sample_ext cx])
  ultimately have "artemis_reactor_step sample_ext (ArNet [ArRelay 0 sample_vote]) (sample_artemis 1) = Inr (Continue cx)"
    by (simp add: artemis_reactor_step_def c_def [symmetric] Let_def del: One_nat_def)
  then have "artemis_step sample_ext (sample_artemis 1) cx" by (intro artemis_reacts [of _ "ArNet [ArRelay 0 sample_vote]"]) simp_all
  with cx frame c that show thesis by simp
qed

theorem artemis_votes_authentic_witness:
  "\<exists>cx v. (artemis_step sample_ext)\<^sup>*\<^sup>* (sample_artemis 1) cx \<and> fmlookup (vote_chain cx) 1 = Some v \<and> uv_round v = 1 \<and>
     pk_verify sample_ext [0] (hash_ucr sample_ext (uv_hash v) 1 (uv_view v)) (v_auth (uv_vote v))"
proof -
  obtain cx where cx: "artemis_step sample_ext (sample_artemis 1) cx" "fmlookup (vote_chain cx) 1 = Some sample_vote"
    "rx_myid cx = 1" "rx_num_nodes cx = 4" "rx_num_faults cx = 1" "nx_pub_key_map (rx_net cx) = nx_pub_key_map (rx_net (sample_artemis 1))"
    by (rule sample_artemis_votes)
  have run: "(artemis_step sample_ext)\<^sup>*\<^sup>* (sample_artemis 1) cx" using cx(1) by (rule r_into_rtranclp)
  have lead: "leader_of_round sample_ext 4 1 1 = 0"
    using sample_artemis_inv [of 1] sample_artemis_1 by (simp add: artemis_inv_def rotation_ok_def)
  have "0 \<noteq> rx_myid cx" "fmlookup (nx_pub_key_map (rx_net cx)) 0 = Some [0]" using cx(3,6) sample_artemis_1 by simp_all
  moreover have "artemis_init sample_ext (sample_artemis 1)" by (rule sample_artemis_init) simp
  ultimately have "uv_round sample_vote = 1" "pk_verify sample_ext [0] (hash_ucr sample_ext (uv_hash sample_vote) 1 (uv_view sample_vote)) (v_auth (uv_vote sample_vote))"
    using artemis_votes_authentic [OF sample_collision_free sample_hash_32 _ run, THEN conjunct2, THEN conjunct1,
      rule_format, OF _ cx(2)] cx(4,5) lead
    by auto
  with run cx(2) show ?thesis by blast
qed

theorem artemis_possible_faults_witness:
  "Panic ''Currently unimplemented'' \<in> {Panic ''Currently unimplemented'', Panic ''Failed to sign the block'',
     Panic ''Failed to sign a ucr message'', Overflow} \<and>
   artemis_reactor_step sample_ext (ArNet [ArBlame \<lparr>v_origin = 3, v_auth = []\<rparr>]) (sample_artemis 1) =
     Inl (Panic ''Currently unimplemented'')"
proof -
  have "artemis_reactor_step sample_ext (ArNet [ArBlame \<lparr>v_origin = 3, v_auth = []\<rparr>]) (sample_artemis 1) =
     Inl (Panic ''Currently unimplemented'')"
    using sample_artemis_1
    by (simp add: artemis_reactor_step_def artemis_process_message_def buffer_message_def artemis_handle_other_def
        artemis_on_receive_blame_def artemis_metric_def artemis_ready_votes.simps)
  with artemis_possible_faults [OF sample_collision_free sample_hash_32 sample_artemis_init [of 1] rtranclp.rtrancl_refl _ this]
  show ?thesis by simp
qed

text \<open>A block of replica 0 at height 1, over the empty batch, without a signature.\<close>

definition sample_ab :: artemis_block where
  "sample_ab = \<lparr>ab_blk = block_init sample_ext ((with_batch sample_ext (fst (CachedBatch_hash sample_ext (sample_batch []))))
      \<lparr>blk_header := (Header_new sample_ext)\<lparr>hdr_height := 1\<rparr>\<rparr>), ab_sig = \<lparr>v_origin = 0, v_auth = []\<rparr>\<rparr>"

lemma sample_ab_simps:
  "block_sealed sample_ext (ab_blk sample_ab)" "ab_prev sample_ab = []" "artemis_get_height sample_ab = 1"
  "artemis_check_batch_hash sample_ext sample_ab (sample_batch [])"
  by (simp_all add: sample_ab_def artemis_get_height_def block_get_height_def artemis_check_batch_hash_def)
    (simp_all add: block_init_def with_batch_def Header_new_def)

theorem artemis_response_unauthenticated_witness:
  "\<exists>cx'. artemis_process_response sample_ext (3, sample_ab, sample_batch []) (sample_artemis 1) = Inr cx' \<and>
     rx_last_seen_block cx' = sample_ab"
proof -
  have "\<exists>cx'. artemis_process_response sample_ext (3, sample_ab, sample_batch []) (sample_artemis 1) = Inr cx' \<and>
      rx_last_seen_block cx' = sample_ab \<and> is_delivered_by_hash (rx_storage cx') (artemis_get_hash sample_ab)"
    by (rule artemis_response_unauthenticated [OF sample_collision_free sample_artemis_inv])
      (simp_all add: sample_ab_simps sample_artemis_1)
  then show ?thesis by blast
qed

theorem artemis_own_round_vote_unchecked_witness:
  "\<exists>cx'. artemis_handle_other sample_ext (ArRelay 3 \<lparr>uv_hash = [], uv_round = 1, uv_view = 0, uv_vote = \<lparr>v_origin = 9, v_auth = [13]\<rparr>\<rparr>)
       (sample_artemis 0) = Inr cx' \<and> rx_round cx' = 2"
proof -
  let ?v = "\<lparr>uv_hash = [], uv_round = 1, uv_view = 0, uv_vote = \<lparr>v_origin = 9, v_auth = [13]\<rparr>\<rparr>"
  have "\<exists>cx'. artemis_handle_other sample_ext (ArRelay 3 ?v) (sample_artemis 0) = Inr cx' \<and>
      rx_round cx' = rx_round (sample_artemis 0) + 1 \<and> fmlookup (vote_chain cx') (rx_round (sample_artemis 0)) = Some ?v"
    by (rule artemis_own_round_vote_unchecked [OF sample_hash_32 sample_artemis_inv])
      (simp_all add: sample_artemis_0)
  then show ?thesis by (auto simp: sample_artemis_0)
qed

theorem artemis_block_dissemination_witness:
  "\<exists>ld' fo' b. do_new_block sample_ext (fst (CachedBatch_hash sample_ext (sample_batch []))) (sample_batch []) (sample_artemis 0) = Inr ld' \<and>
     artemis_process_new_block sample_ext (b, sample_batch []) (sample_artemis 1) = Inr fo' \<and>
     rx_last_seen_block ld' = b \<and> rx_last_seen_block fo' = b \<and> artemis_get_height b = 1"
proof -
  have sg: "sign_verifies sample_ext (nx_my_secret_key (rx_net (sample_artemis 0))) [0]"
    using sample_sign_verifies [of "[0]"] by (simp add: sample_artemis_0)
  let ?h = "fst (CachedBatch_hash sample_ext (sample_batch []))"
  have "\<exists>ld' fo' b. do_new_block sample_ext ?h (sample_batch []) (sample_artemis 0) = Inr ld' \<and>
      (rx_myid (sample_artemis 1), ArNewBlock b (sample_batch [])) \<in> set (nx_sent (rx_net ld')) \<and>
      artemis_process_new_block sample_ext (b, sample_batch []) (sample_artemis 1) = Inr fo' \<and>
      rx_last_seen_block ld' = b \<and> rx_last_seen_block fo' = b \<and>
      is_delivered_by_hash (rx_storage fo') (artemis_get_hash b) \<and> ab_prev b = artemis_get_hash (rx_last_seen_block (sample_artemis 0)) \<and>
      artemis_get_height b = artemis_get_height (rx_last_seen_block (sample_artemis 0)) + 1 \<and> blk_batch_hash (ab_blk b) = ?h"
    by (rule artemis_block_dissemination [OF sample_collision_free sample_artemis_inv sample_artemis_inv _ _ _ _ _ sg])
      (simp_all add: sample_artemis_0 sample_artemis_1)
  then show ?thesis by (auto simp: sample_artemis_0)
qed

theorem artemis_round_synchronises_witness:
  "\<exists>ld fo ld' fo' v. try_round_vote sample_ext ld = Inr ld' \<and> artemis_handle_other sample_ext (ArUCRVote v) fo = Inr fo' \<and>
     fmlookup (vote_chain ld') 1 = Some v \<and> fmlookup (vote_chain fo') 1 = Some v \<and>
     rx_round ld' = 2 \<and> rx_round fo' = 2 \<and> rx_round_leader fo' = rx_round_leader ld'"
proof -
  let ?ld = "fst (artemis_see sample_ab (sample_artemis 0, False))" and ?fo = "fst (artemis_see sample_ab (sample_artemis 1, False))"
  have inv: "artemis_inv sample_ext ?ld" "artemis_inv sample_ext ?fo"
    using inv_see(1) [OF sample_collision_free sample_artemis_inv sample_ab_simps(1)]
    by (simp_all add: sample_ab_simps(2) sample_artemis_0 sample_artemis_1)
  have sg: "sign_verifies sample_ext (nx_my_secret_key (rx_net ?ld)) [0]"
    using sample_sign_verifies [of "[0]"] by (simp add: sample_artemis_0 artemis_see_def artemis_deliver_def Let_def)
  have "\<exists>ld' fo' v. try_round_vote sample_ext ?ld = Inr ld' \<and> (rx_myid ?fo, ArUCRVote v) \<in> set (nx_sent (rx_net ld')) \<and>
    artemis_handle_other sample_ext (ArUCRVote v) ?fo = Inr fo' \<and> uv_hash v = artemis_get_hash (rx_last_seen_block ?ld) \<and>
    fmlookup (vote_chain ld') (rx_round ?ld) = Some v \<and> fmlookup (vote_chain fo') (rx_round ?ld) = Some v \<and>
    rx_round ld' = rx_round ?ld + 1 \<and> rx_round fo' = rx_round ld' \<and> rx_round_leader fo' = rx_round_leader ld'"
    by (rule artemis_round_synchronises [OF sample_hash_32 inv _ _ _ _ _ _ _ _ sg])
      (simp_all add: sample_artemis_0 sample_artemis_1 sample_ab_simps artemis_see_def artemis_deliver_def Let_def)
  then obtain ld' fo' v where "try_round_vote sample_ext ?ld = Inr ld'" "artemis_handle_other sample_ext (ArUCRVote v) ?fo = Inr fo'"
      "fmlookup (vote_chain ld') (rx_round ?ld) = Some v" "fmlookup (vote_chain fo') (rx_round ?ld) = Some v"
      "rx_round ld' = rx_round ?ld + 1" "rx_round fo' = rx_round ld'" "rx_round_leader fo' = rx_round_leader ld'"
    by (elim exE conjE) (rule that)
  moreover have "rx_round ?ld = 1" by (simp add: sample_artemis_0 artemis_see_def artemis_deliver_def Let_def)
  ultimately show ?thesis by (intro exI [of _ ?ld] exI [of _ ?fo] exI [of _ ld'] exI [of _ fo'] exI [of _ v]) simp
qed

end
