(* ===== verification/Loops.thy ===== *)
theory Loops
  imports Apollo_Safety Artemis_Laws
begin

text \<open>
  The loops whose end is not visible from their text: the commit walk over the parents of a block and
  the replay of proposals that came early. In the model they have fuel; here it is shown for reachable
  states that they end, after how many turns at most, and that with that much fuel the result is the
  one of any larger amount, so that the fuel is not observable.
\<close>

section \<open>More fuel does not change a result\<close>

lemma commit_walk_more_fuel:
  assumes "commit_walk hs ht prev fuel h newly s = r" and "r \<noteq> Inl OutOfFuel" and "fuel \<le> fuel'"
  shows "commit_walk hs ht prev fuel' h newly s = r"
  using assms
proof (induction fuel arbitrary: fuel' h newly s)
  case 0
  then show ?case by (auto simp: commit_walk.simps [of _ _ _ 0] commit_walk.simps [of _ _ _ fuel'] split: if_splits)
next
  case (Suc n)
  obtain m where m: "fuel' = Suc m" "n \<le> m" using Suc.prems(3) by (cases fuel') auto
  show ?case
  proof (cases "is_committed_by_hash s h \<or> delivered_block_from_hash s h = None")
    case True
    with Suc.prems(1) show ?thesis by (auto simp: m commit_walk.simps [of _ _ _ "Suc _"])
  next
    case False
    then obtain b where "delivered_block_from_hash s h = Some b" by auto
    with False Suc.prems Suc.IH [OF _ _ m(2)] show ?thesis by (auto simp: m commit_walk.simps [of _ _ _ "Suc _"])
  qed
qed

lemma replay_more_fuel:
  assumes "apollo_replay E fuel cx = r" and "r \<noteq> Inl OutOfFuel" and "fuel \<le> fuel'"
  shows "apollo_replay E fuel' cx = r"
  using assms
proof (induction fuel arbitrary: fuel' cx)
  case 0
  then show ?case by (auto simp: apollo_replay.simps [of _ 0] apollo_replay.simps [of _ fuel'] split: option.splits prod.splits)
next
  case (Suc n)
  obtain m where m: "fuel' = Suc m" "n \<le> m" using Suc.prems(3) by (cases fuel') auto
  show ?case
  proof (cases "fmlookup (future_msgs cx) (ax_round cx)")
    case None
    with Suc.prems(1) show ?thesis by (simp add: apollo_replay.simps [of _ "Suc n"] apollo_replay.simps [of _ fuel'])
  next
    case (Some e)
    obtain sender p where e: "e = (sender, p)" by (cases e)
    let ?d = "apollo_delivery_check E sender p None (cx\<lparr>future_msgs := fmdrop (ax_round cx) (future_msgs cx)\<rparr>)"
    have "rbind ?d (apollo_replay E n) = r" using Suc.prems(1) Some e by (simp add: apollo_replay.simps [of _ "Suc n"])
    then have "rbind ?d (apollo_replay E m) = r" using Suc.prems(2) Suc.IH [OF _ _ m(2)] by (cases ?d) auto
    with Some e show ?thesis by (simp add: m apollo_replay.simps [of _ "Suc m"])
  qed
qed

section \<open>Properties\<close>

text \<open>
  C39: The replay of early Apollo proposals ends. In every reachable state its loop makes at most one
  turn more than there are proposals queued for a later round or waiting for a parent: with that much
  fuel it does not run out, and any larger amount gives the same result.
\<close>
theorem apollo_replay_terminates:
  assumes "collision_free E" and "apollo_init E cx0" and "(apollo_step E)\<^sup>*\<^sup>* cx0 cx" and "apollo_backlog cx < fuel"
  shows "apollo_replay E fuel cx = apollo_replay E (Suc (apollo_backlog cx)) cx \<and> apollo_replay E fuel cx \<noteq> Inl OutOfFuel"
proof -
  have "keeps E (apollo_replay E (Suc (apollo_backlog cx)) cx)"
    by (rule keeps_replay [OF assms(1) apollo_reachable_inv [OF assms(1-3)]]) simp
  then have ends: "apollo_replay E (Suc (apollo_backlog cx)) cx \<noteq> Inl OutOfFuel" by (auto simp: apollo_faults_def)
  with replay_more_fuel [OF refl ends, of fuel] assms(4) show ?thesis by auto
qed

text \<open>
  C40: A commit of the Artemis node always finishes. In every reachable state and from every delivered
  block the walk over the parents reaches a committed block, after at most as many turns as there are
  delivered blocks, and returns; the amount of fuel beyond that does not matter.
\<close>
theorem artemis_commit_terminates:
  assumes "collision_free E" and "hash_32 E" and "artemis_init E cx0" and "(artemis_step E)\<^sup>*\<^sup>* cx0 cx"
    and "is_delivered_by_hash (rx_storage cx) h" and "fcard (fmdom (all_delivered_blocks_by_hash (rx_storage cx))) < fuel"
  shows "\<exists>bs s. commit_walk artemis_get_hash artemis_get_height (\<lambda>b. ab_prev b) fuel h [] (rx_storage cx) = Inr (bs, s) \<and>
    is_committed_by_hash s h"
proof -
  have ok: "artemis_store_ok E (rx_storage cx)"
    using artemis_reachable_inv [OF assms(1-4)] by (simp add: artemis_inv_def)
  have st: "storage_ok artemis_get_hash (\<lambda>b. ab_prev b) (rx_storage cx)" "parents_delivered (\<lambda>b. ab_prev b) (rx_storage cx)"
    using ok by (simp_all add: artemis_store_ok_def)
  obtain bs s where c: "commit_chain artemis_get_hash artemis_get_height (\<lambda>b. ab_prev b) h (rx_storage cx) = Inr (bs, s)"
    using commit_chain_total [OF st assms(5)] by blast
  then have "commit_walk artemis_get_hash artemis_get_height (\<lambda>b. ab_prev b) fuel h [] (rx_storage cx) = Inr (bs, s)"
    using assms(6) by (intro commit_walk_more_fuel [OF c [unfolded commit_chain_def]]) auto
  moreover have "is_committed_by_hash s h" using commit_walk_success [OF c [unfolded commit_chain_def] st(1)] by auto
  ultimately show ?thesis by blast
qed

section \<open>Witnesses\<close>

theorem apollo_replay_terminates_witness:
  "apollo_replay sample_ext (apollo_backlog (sample_apollo 1) + 7) (sample_apollo 1) =
     apollo_replay sample_ext (Suc (apollo_backlog (sample_apollo 1))) (sample_apollo 1)"
proof -
  have "apollo_init sample_ext (sample_apollo 1)" by (rule sample_apollo_init) simp
  then show ?thesis using apollo_replay_terminates [OF sample_collision_free _ rtranclp.rtrancl_refl] by (metis less_add_same_cancel1 zero_less_numeral)
qed

theorem artemis_commit_terminates_witness:
  "\<exists>bs s. commit_walk artemis_get_hash artemis_get_height (\<lambda>b. ab_prev b)
      (Suc (fcard (fmdom (all_delivered_blocks_by_hash (rx_storage (sample_artemis 1))))))
      (artemis_get_hash (rx_last_seen_block (sample_artemis 1))) [] (rx_storage (sample_artemis 1)) = Inr (bs, s)"
proof -
  have init: "artemis_init sample_ext (sample_artemis 1)" by (rule sample_artemis_init) simp
  have "is_delivered_by_hash (rx_storage (sample_artemis 1)) (artemis_get_hash (rx_last_seen_block (sample_artemis 1)))"
    using sample_artemis_inv [of 1] by (simp add: artemis_inv_def seen_ok_def)
  from artemis_commit_terminates [OF sample_collision_free sample_hash_32 init rtranclp.rtrancl_refl this lessI] show ?thesis by blast
qed

end
