(* ===== verification/Synchs_Node.thy ===== *)
theory Synchs_Node
  imports Sample_Node
begin

text \<open>
  The Sync HotStuff node (\<open>consensus/synchs/src/node\<close>). The leader, replica 0, proposes a block for
  every batch the mempool announces while the last block it has seen is certified; a replica that
  accepts a proposal broadcasts a vote and commits the block when a timer of \<open>2 * delta\<close> fires, and
  \<open>num_faults + 1\<close> votes certify a block. The record \<open>synchs_cx\<close> is the source's \<open>Context\<close>. The timer
  queue is the list of the proposals that wait in it; which one fires is part of the event, for
  \<open>DelayQueue\<close> does not promise an order of equal deadlines. Operations that the Opt Sync node has in
  common with this one take any extension of the record.
\<close>

section \<open>The sender towards the clients\<close>

text \<open>
  \<open>client_sent\<close> lists the legs of the broadcasts in the order they are handed to the sender, with or without
  success: a leg that the sender refuses leaves no handler and a log line, and is not sent again.
\<close>

record client_net =
  all_clients :: "client_id list"
  client_handlers :: "(height, handler list) fmap"
  client_sent :: "(client_id \<times> sync_client_msg) list"

definition remember_client :: "height \<Rightarrow> handler \<Rightarrow> client_net \<Rightarrow> client_net" where
  "remember_client ht h n =
     n\<lparr>client_handlers := fmupd ht (fmget_or [] (client_handlers n) ht @ [h]) (client_handlers n)\<rparr>"

definition client_post :: "ext \<Rightarrow> height \<Rightarrow> sync_client_msg \<Rightarrow> client_id \<Rightarrow> client_net \<Rightarrow> client_net" where
  "client_post E ht msg dest n =
     (let i = length (client_sent n);
          n = n\<lparr>client_sent := client_sent n @ [(dest, msg)]\<rparr>
      in case client_send E i dest of
           Some h \<Rightarrow> remember_client ht h n
         | None \<Rightarrow> n)"

definition client_multicast :: "ext \<Rightarrow> height \<Rightarrow> sync_client_msg \<Rightarrow> client_net \<Rightarrow> client_net" where
  "client_multicast E ht msg n =
     (if all_clients n = [] then n else fold (client_post E ht msg) (all_clients n) n)"

definition client_gc :: "ext \<Rightarrow> client_net \<Rightarrow> client_net" where
  "client_gc E n =
     n\<lparr>client_handlers :=
         fmfilter (\<lambda>ht. filter (client_in_flight E (length (client_sent n))) (fmget_or [] (client_handlers n) ht) \<noteq> [])
           (fmmap (filter (client_in_flight E (length (client_sent n)))) (client_handlers n))\<rparr>"

section \<open>Context\<close>

record synchs_cx =
  hx_net :: "sync_msg net_ctx"
  hx_client_net :: client_net
  hx_batch :: batch_ctx
  hx_payload :: nat
  hx_storage :: "block storage"
  cert_map :: "(hash, certificate) fmap"
  hx_height :: height
  last_leader :: replica
  hx_last_seen_block :: block
  last_seen_cert :: certificate
  last_committed_block_ht :: height
  vote_map :: "(hash, certificate) fmap"
  hx_view :: view
  commit_queue :: "sync_propose list"

abbreviation hx_myid :: "'z synchs_cx_scheme \<Rightarrow> replica" where
  "hx_myid cx \<equiv> nx_myid (hx_net cx)"

abbreviation hx_num_faults :: "'z synchs_cx_scheme \<Rightarrow> nat" where
  "hx_num_faults cx \<equiv> nx_num_faults (hx_net cx)"

abbreviation hx_num_nodes :: "'z synchs_cx_scheme \<Rightarrow> nat" where
  "hx_num_nodes cx \<equiv> nx_num_nodes (hx_net cx)"

abbreviation hx_keys :: "'z synchs_cx_scheme \<Rightarrow> (replica, public_key) fmap" where
  "hx_keys cx \<equiv> nx_pub_key_map (hx_net cx)"

abbreviation hx_secret :: "'z synchs_cx_scheme \<Rightarrow> keypair" where
  "hx_secret cx \<equiv> nx_my_secret_key (hx_net cx)"

definition synchs_deliver :: "block \<Rightarrow> 'z synchs_cx_scheme \<Rightarrow> 'z synchs_cx_scheme" where
  "synchs_deliver b cx = cx\<lparr>hx_storage := add_delivered_block block_get_hash block_get_height b (hx_storage cx)\<rparr>"

definition synchs_commit_block :: "block \<Rightarrow> 'z synchs_cx_scheme \<Rightarrow> 'z synchs_cx_scheme" where
  "synchs_commit_block b cx = cx\<lparr>hx_storage := add_committed_block block_get_hash block_get_height b (hx_storage cx)\<rparr>"

text \<open>The loop over \<open>pk_map\<close>, which here keeps the node's own key.\<close>

definition decode_all_keys :: "ext \<Rightarrow> algorithm \<Rightarrow> (replica \<times> bytes) list \<Rightarrow> (replica, public_key) fmap res" where
  "decode_all_keys E alg pks =
     rfold (\<lambda>(i, bs) m. rbind (decode_public E alg bs) (\<lambda>pk. Inr (fmupd i pk m))) pks fmempty"

text \<open>\<open>pks\<close> lists the entries of \<open>config.pk_map\<close>, \<open>cids\<close> the keys of \<open>config.client_net_map\<close>.\<close>

definition synchs_Context_new ::
  "ext \<Rightarrow> node_config \<Rightarrow> (replica \<times> bytes) list \<Rightarrow> client_id list \<Rightarrow> batch_cache \<Rightarrow> (bytes, bytes) fmap \<Rightarrow>
   synchs_cx res" where
  "synchs_Context_new E config pks cids cache st =
     rbind (decode_secret E (nc_crypto_alg config) (nc_secret_key_bytes config)) (\<lambda>sk.
     rbind (mul_u64 (nc_payload config) (nc_block_size config)) (\<lambda>pl.
     rbind (decode_all_keys E (nc_crypto_alg config) pks) (\<lambda>pkm.
     let c =
       \<lparr>hx_net =
          \<lparr>nx_num_nodes = nc_num_nodes config, nx_num_faults = nc_num_faults config, nx_myid = nc_id config,
           nx_pub_key_map = pkm, nx_my_secret_key = sk,
           nx_broadcast_peers = filter (\<lambda>r. r \<noteq> nc_id config) [0..<nc_num_nodes config mod 2 ^ 16],
           nx_handlers = fmempty, nx_sent = []\<rparr>,
        hx_client_net = \<lparr>all_clients = cids, client_handlers = fmempty, client_sent = []\<rparr>,
        hx_batch = batch_ctx_new cache st, hx_payload = pl, hx_storage = Storage_new, cert_map = fmempty,
        hx_height = 0, last_leader = 0, hx_last_seen_block = GENESIS_BLOCK E, last_seen_cert = empty_cert,
        last_committed_block_ht = 0, vote_map = fmempty, hx_view = 0, commit_queue = []\<rparr>;
       c = synchs_deliver (GENESIS_BLOCK E) c;
       c = synchs_commit_block (GENESIS_BLOCK E) c
     in Inr (c\<lparr>cert_map := fmupd (blk_hash (GENESIS_BLOCK E)) empty_cert (cert_map c)\<rparr>))))"

definition synchs_next_leader :: "'z synchs_cx_scheme \<Rightarrow> replica" where
  "synchs_next_leader cx = last_leader cx"

definition leader_of_view :: "'z synchs_cx_scheme \<Rightarrow> replica res" where
  "leader_of_view cx =
     (if hx_num_nodes cx = 0 then Inl (Panic ''attempt to calculate the remainder with a divisor of zero'')
      else Inr (hx_view cx mod hx_num_nodes cx mod 2 ^ 16))"

definition synchs_multicast :: "ext \<Rightarrow> sync_msg \<Rightarrow> 'z synchs_cx_scheme \<Rightarrow> 'z synchs_cx_scheme" where
  "synchs_multicast E msg cx = cx\<lparr>hx_net := multicast E (hx_height cx) msg (hx_net cx)\<rparr>"

definition multicast_client :: "ext \<Rightarrow> sync_client_msg \<Rightarrow> 'z synchs_cx_scheme \<Rightarrow> 'z synchs_cx_scheme" where
  "multicast_client E msg cx = cx\<lparr>hx_client_net := client_multicast E (hx_height cx) msg (hx_client_net cx)\<rparr>"

definition synchs_gc_handlers :: "ext \<Rightarrow> 'z synchs_cx_scheme \<Rightarrow> 'z synchs_cx_scheme" where
  "synchs_gc_handlers E cx =
     cx\<lparr>hx_net := gc_handlers E (hx_net cx), hx_client_net := client_gc E (hx_client_net cx)\<rparr>"

section \<open>Proposals\<close>

definition SyncPropose_new :: "ext \<Rightarrow> sync_propose" where
  "SyncPropose_new E = \<lparr>sp_proof = [], sp_cert = empty_cert, sp_view = 0, sp_block_hash = EMPTY_HASH E\<rparr>"

text \<open>The loop over the votes of a certificate: the distinct origins, or nothing at a vote that fails.\<close>

fun check_cert_votes ::
  "ext \<Rightarrow> (replica, public_key) fmap \<Rightarrow> bytes \<Rightarrow> vote list \<Rightarrow> replica list \<Rightarrow> replica list option" where
  "check_cert_votes E pkm data [] uniq_votes = Some uniq_votes"
| "check_cert_votes E pkm data (v # vs) uniq_votes =
     (case fmlookup pkm (v_origin v) of
        None \<Rightarrow> None
      | Some pk \<Rightarrow>
          if \<not> pk_verify E pk data (v_auth v) then None
          else check_cert_votes E pkm data vs (hs_insert (v_origin v) uniq_votes))"

definition synchs_check_proposal :: "ext \<Rightarrow> sync_propose \<Rightarrow> block \<Rightarrow> 'z synchs_cx_scheme \<Rightarrow> bool res" where
  "synchs_check_proposal E p new_block cx =
     (if blk_hash new_block \<noteq> sp_block_hash p then Inr False
      else rbind (leader_of_view cx) (\<lambda>leader.
        if blk_author new_block \<noteq> leader then Inr False
        else if blk_height new_block = 1 \<and> blk_prev new_block \<noteq> EMPTY_HASH E then Inr False
        else if blk_height new_block > 1 \<and> length (cert_votes (sp_cert p)) \<le> hx_num_faults cx then Inr False
        else rbind (expect ''called Option::unwrap on a None value'' (fmlookup (hx_keys cx) (blk_author new_block))) (\<lambda>pk.
          if \<not> pk_verify E pk (blk_hash new_block) (sp_proof p) then Inr False
          else if hx_view cx \<noteq> sp_view p then Inl (Panic ''This view check should be unreachable'')
          else if blk_height new_block = 1 then Inr True
          else rbind (add_u64 (hx_num_faults cx) 1) (\<lambda>capacity.
            case cert_msg (sp_cert p) of
              VoteCert _ h \<Rightarrow>
                (if h \<noteq> blk_prev new_block then Inr False
                 else
                   case check_cert_votes E (hx_keys cx) (ser_cert_type E (cert_msg (sp_cert p))) (cert_votes (sp_cert p)) [] of
                     None \<Rightarrow> Inr False
                   | Some uniq_votes \<Rightarrow>
                       if length uniq_votes < hx_num_faults cx then Inr False
                       else if blk_prev new_block \<noteq> blk_hash (hx_last_seen_block cx) then Inr False
                       else Inr True)
            | _ \<Rightarrow> Inr False))))"

definition synchs_check_batch_hash :: "ext \<Rightarrow> block \<Rightarrow> cached_batch \<Rightarrow> bool" where
  "synchs_check_batch_hash E b batch \<longleftrightarrow> fst (CachedBatch_hash E batch) = blk_batch_hash b"

text \<open>A certificate with this node's vote for \<open>h\<close> in the current view.\<close>

definition own_vote :: "ext \<Rightarrow> string \<Rightarrow> hash \<Rightarrow> 'z synchs_cx_scheme \<Rightarrow> certificate res" where
  "own_vote E err h cx =
     (let vt = empty_cert\<lparr>cert_msg := VoteCert (hx_view cx) h\<rparr>
      in rbind (expect err (sk_sign E (hx_secret cx) (ser_cert_type E (cert_msg vt)))) (\<lambda>auth.
         Inr (vt\<lparr>cert_votes := cert_votes vt @ [\<lparr>v_origin = hx_myid cx, v_auth = auth\<rparr>]\<rparr>)))"

definition synchs_on_new_valid_proposal :: "ext \<Rightarrow> sync_propose \<Rightarrow> block \<Rightarrow> synchs_cx \<Rightarrow> (bool \<times> synchs_cx) res" where
  "synchs_on_new_valid_proposal E p new_block cx =
     (if \<not> is_delivered_by_hash (hx_storage cx) (blk_prev new_block) then Inr (False, cx)
      else rbind (own_vote E ''Failed to sign a vote'' (blk_hash new_block) cx) (\<lambda>my_vote.
        let cx = synchs_deliver new_block cx;
            cx = cx\<lparr>hx_height := blk_height new_block\<rparr>;
            cx = cx\<lparr>hx_last_seen_block := new_block\<rparr>;
            cx = cx\<lparr>last_seen_cert := sp_cert p\<rparr>
        in Inr (True, synchs_multicast E (SyVoteMsg my_vote p) cx)))"

definition synchs_on_receive_proposal ::
  "ext \<Rightarrow> sync_propose \<Rightarrow> block \<Rightarrow> cached_batch \<Rightarrow> synchs_cx \<Rightarrow> (bool \<times> synchs_cx) res" where
  "synchs_on_receive_proposal E p new_block batch cx =
     (if is_delivered_by_hash (hx_storage cx) (blk_hash new_block) then Inr (False, cx)
      else rbind (synchs_check_proposal E p new_block cx) (\<lambda>ok.
        if \<not> ok then Inr (False, cx)
        else if \<not> synchs_check_batch_hash E new_block batch then Inr (False, cx)
        else
          let batch = snd (CachedBatch_hash E batch);
              cx = cx\<lparr>hx_batch := persist_batch E (blk_batch_hash new_block) batch (hx_batch cx)\<rparr>
          in synchs_on_new_valid_proposal E p new_block cx))"

definition synchs_do_propose :: "ext \<Rightarrow> hash \<Rightarrow> cached_batch \<Rightarrow> synchs_cx \<Rightarrow> (sync_propose \<times> synchs_cx) res" where
  "synchs_do_propose E batch_hash batch cx =
     (let parent = hx_last_seen_block cx; nb = with_batch E batch_hash
      in rbind (add_u64 (blk_height parent) 1) (\<lambda>height.
         let nb = nb\<lparr>blk_header := (blk_header nb)\<lparr>hdr_author := hx_myid cx, hdr_prev := blk_hash parent,
                       hdr_height := height\<rparr>\<rparr>;
             new_block = block_init E nb
         in rbind (expect ''Failed to sign the new proposal'' (sk_sign E (hx_secret cx) (blk_hash new_block))) (\<lambda>proof.
            rbind (own_vote E ''Failed to sign the new proposal'' (blk_hash new_block) cx) (\<lambda>new_block_cert.
            let p = (SyncPropose_new E)\<lparr>sp_proof := proof, sp_block_hash := blk_hash new_block\<rparr>
            in rbind (expect ''Must call propose only if the parent is certified'' (fmlookup (cert_map cx) (blk_hash parent))) (\<lambda>cert.
               let p = p\<lparr>sp_cert := cert, sp_view := hx_view cx\<rparr>;
                   cx = synchs_deliver new_block cx
               in Inr (p, synchs_multicast E (SyNewProposal p new_block batch) cx))))))"

section \<open>Votes\<close>

text \<open>\<open>c.votes.pop()\<close> is the last vote of the message.\<close>

definition pop_vote :: "certificate \<Rightarrow> vote res" where
  "pop_vote c =
     expect ''called Option::unwrap on a None value'' (if cert_votes c = [] then None else Some (last (cert_votes c)))"

definition synchs_add_vote :: "certificate \<Rightarrow> hash \<Rightarrow> synchs_cx \<Rightarrow> synchs_cx res" where
  "synchs_add_vote c h cx =
     (if fmmem h (cert_map cx) then Inr cx
      else
        case fmlookup (vote_map cx) h of
          None \<Rightarrow> Inr (cx\<lparr>vote_map := fmupd h c (vote_map cx)\<rparr>)
        | Some cert \<Rightarrow>
            let cx = cx\<lparr>vote_map := fmdrop h (vote_map cx)\<rparr>
            in rbind (pop_vote c) (\<lambda>v.
               let cert = cert\<lparr>cert_votes := cert_votes cert @ [v]\<rparr>
               in if length (cert_votes cert) > hx_num_faults cx
                  then Inr (cx\<lparr>cert_map := fmupd h cert (cert_map cx), last_seen_cert := cert\<rparr>)
                  else Inr (cx\<lparr>vote_map := fmupd h cert (vote_map cx)\<rparr>)))"

text \<open>
  The checks of \<open>on_vote\<close> before the vote is counted: the hash voted for, or nothing when the message
  is dropped.
\<close>

definition synchs_vote_target :: "ext \<Rightarrow> certificate \<Rightarrow> sync_propose \<Rightarrow> 'z synchs_cx_scheme \<Rightarrow> hash option res" where
  "synchs_vote_target E c p cx =
     (if length (cert_votes c) \<noteq> 1 then Inr None
      else
        let vote = cert_votes c ! 0
        in case fmlookup (hx_keys cx) (v_origin vote) of
             None \<Rightarrow> Inr None
           | Some pk \<Rightarrow>
               (case cert_msg c of
                  VoteCert _ h \<Rightarrow>
                    if h \<noteq> sp_block_hash p then Inr None
                    else if \<not> pk_verify E pk (ser_cert_type E (cert_msg c)) (v_auth vote) then Inr None
                    else if \<not> is_delivered_by_hash (hx_storage cx) h then Inr None
                    else
                      rbind (expect ''called Option::unwrap on a None value'' (delivered_block_from_hash (hx_storage cx) h))
                        (\<lambda>new_block.
                         case delivered_block_from_ht (hx_storage cx) (blk_height new_block) of
                           Some x \<Rightarrow> Inr (if blk_hash x \<noteq> h then None else Some h)
                         | None \<Rightarrow> Inr (Some h))
                | _ \<Rightarrow> Inl (Panic ''other vote types cant be here'')))"

definition synchs_on_vote :: "ext \<Rightarrow> certificate \<Rightarrow> sync_propose \<Rightarrow> synchs_cx \<Rightarrow> (bool \<times> synchs_cx) res" where
  "synchs_on_vote E c p cx =
     rbind (synchs_vote_target E c p cx) (\<lambda>target.
     case target of
       None \<Rightarrow> Inr (False, cx)
     | Some h \<Rightarrow> rbind (synchs_add_vote c h cx) (\<lambda>cx. Inr (False, cx)))"

section \<open>Commit\<close>

text \<open>
  Reading the hashes of a batch's transactions fills the cell of the batch, which the cache holds
  after the read.
\<close>

definition batch_tx_hashes :: "ext \<Rightarrow> hash \<Rightarrow> batch_ctx \<Rightarrow> hash list \<times> batch_ctx" where
  "batch_tx_hashes E h x =
     (case read_batch E h x of
        (Some batch, x) \<Rightarrow>
          let (hs, batch) = CachedBatch_tx_hashes E batch
          in (hs, x\<lparr>bx_cache := fmupd h batch (bx_cache x)\<rparr>)
      | (None, x) \<Rightarrow> ([], x))"

definition synchs_on_commit :: "ext \<Rightarrow> sync_propose \<Rightarrow> 'z synchs_cx_scheme \<Rightarrow> 'z synchs_cx_scheme" where
  "synchs_on_commit E p cx =
     (case delivered_block_from_hash (hx_storage cx) (sp_block_hash p) of
        None \<Rightarrow> cx
      | Some b \<Rightarrow>
          if is_committed_by_hash (hx_storage cx) (blk_hash b) then cx
          else
            let cx = cx\<lparr>last_committed_block_ht := blk_height b\<rparr>;
                cx = synchs_commit_block b cx;
                (tx_hashes, x) = batch_tx_hashes E (blk_batch_hash b) (hx_batch cx);
                cx = cx\<lparr>hx_batch := x\<rparr>;
                payload = with_payload (hx_payload cx);
                cx = multicast_client E (SyNewBlock b tx_hashes payload) cx
            in synchs_gc_handlers E cx)"

definition synchs_on_receive_blame :: "vote \<Rightarrow> synchs_cx \<Rightarrow> synchs_cx res" where
  "synchs_on_receive_blame v cx = Inl (Panic ''Unimplemented'')"

section \<open>Reactor\<close>

definition start_timer :: "sync_propose \<Rightarrow> 'z synchs_cx_scheme \<Rightarrow> 'z synchs_cx_scheme" where
  "start_timer p cx = cx\<lparr>commit_queue := commit_queue cx @ [p]\<rparr>"

lemma synchs_do_propose_result:
  assumes "synchs_do_propose E bh batch cx = Inr (p, cx')"
  obtains b cert where "fmlookup (cert_map cx) (blk_hash (hx_last_seen_block cx)) = Some cert"
    "b = block_init E ((with_batch E bh)\<lparr>blk_header := (Header_new E)\<lparr>hdr_author := hx_myid cx,
       hdr_prev := blk_hash (hx_last_seen_block cx), hdr_height := blk_height (hx_last_seen_block cx) + 1\<rparr>\<rparr>)"
    "sk_sign E (hx_secret cx) (blk_hash b) = Some (sp_proof p)"
    "sp_cert p = cert" "sp_view p = hx_view cx" "sp_block_hash p = blk_hash b"
    "blk_height (hx_last_seen_block cx) + 1 < 2 ^ 64"
    "cx' = synchs_multicast E (SyNewProposal p b batch) (synchs_deliver b cx)"
  using assms that by (auto simp: synchs_do_propose_def Let_def add_u64_Inr_iff with_batch_def)

text \<open>The leader proposes while the last block it has seen is certified; each turn takes a batch.\<close>

function synchs_drain :: "ext \<Rightarrow> synchs_cx \<Rightarrow> synchs_cx res" where
  "synchs_drain E cx =
     (if synchs_next_leader cx = hx_myid cx \<and> fmmem (blk_hash (hx_last_seen_block cx)) (cert_map cx) then
        (case bx_pending (hx_batch cx) of
           [] \<Rightarrow> Inr cx
         | (bh, batch) # rest \<Rightarrow>
             rbind (synchs_do_propose E bh batch (cx\<lparr>hx_batch := (hx_batch cx)\<lparr>bx_pending := rest\<rparr>\<rparr>))
               (\<lambda>(p, cx). synchs_drain E (start_timer p cx)))
      else Inr cx)"
  by pat_completeness auto
termination
  by (relation "measure (\<lambda>(E, cx). length (bx_pending (hx_batch cx)))")
    (auto elim!: synchs_do_propose_result simp: synchs_multicast_def synchs_deliver_def start_timer_def)

declare synchs_drain.simps [simp del]

datatype sync_event =
    SyNet sync_msg
  | SyNetError
  | SyNetClosed
  | SyBatchReady hash cached_batch
  | SyMempoolClosed
  | SyTimer nat
  | SyTimerError

definition synchs_process :: "ext \<Rightarrow> sync_msg \<Rightarrow> synchs_cx \<Rightarrow> synchs_cx res" where
  "synchs_process E protmsg cx =
     (case protmsg of
        SyNewProposal p b batch \<Rightarrow>
          rbind (synchs_on_receive_proposal E p b batch cx) (\<lambda>(decision, cx).
          Inr (if decision then start_timer p cx else cx))
      | SyVoteMsg v p \<Rightarrow> rbind (synchs_on_vote E v p cx) (\<lambda>(_, cx). Inr cx)
      | _ \<Rightarrow> Inr cx)"

text \<open>The timer of entry \<open>i\<close> of the queue fires; with no such entry there is nothing to commit.\<close>

definition synchs_timer :: "ext \<Rightarrow> nat \<Rightarrow> 'z synchs_cx_scheme \<Rightarrow> 'z synchs_cx_scheme" where
  "synchs_timer E i cx =
     (if i < length (commit_queue cx)
      then synchs_on_commit E (commit_queue cx ! i)
             (cx\<lparr>commit_queue := take i (commit_queue cx) @ drop (Suc i) (commit_queue cx)\<rparr>)
      else cx)"

definition synchs_reactor_step :: "ext \<Rightarrow> sync_event \<Rightarrow> synchs_cx \<Rightarrow> synchs_cx reactor_outcome res" where
  "synchs_reactor_step E ev cx =
     (let continue = (\<lambda>cx. rbind (synchs_drain E cx) (\<lambda>cx. Inr (Continue cx)))
      in case ev of
           SyNet protmsg \<Rightarrow> rbind (synchs_process E protmsg cx) continue
         | SyNetError \<Rightarrow> Inr (Continue cx)
         | SyNetClosed \<Rightarrow> Inr ReactorBreak
         | SyBatchReady bh batch \<Rightarrow>
             continue (cx\<lparr>hx_batch := (hx_batch cx)\<lparr>bx_pending := bx_pending (hx_batch cx) @ [(bh, batch)]\<rparr>\<rparr>)
         | SyMempoolClosed \<Rightarrow> Inr ReactorBreak
         | SyTimer i \<Rightarrow> continue (synchs_timer E i cx)
         | SyTimerError \<Rightarrow> Inr (Continue cx))"

definition synchs_reactor_start ::
  "ext \<Rightarrow> node_config \<Rightarrow> (replica \<times> bytes) list \<Rightarrow> client_id list \<Rightarrow> batch_cache \<Rightarrow> (bytes, bytes) fmap \<Rightarrow>
   synchs_cx res" where
  "synchs_reactor_start E config pks cids cache st =
     rbind (mul_u64 2 (nc_delta config)) (\<lambda>d2. synchs_Context_new E config pks cids cache st)"

end
