(* ===== verification/Optsync_Node.thy ===== *)
theory Optsync_Node
  imports Synchs_Node
begin

text \<open>
  The Opt Sync node (\<open>consensus/optsync/src/node\<close>). It adds to Sync HotStuff the responsive
  certificate: a block with votes of three quarters of the replicas is committed at once, without
  waiting for the timer. Its \<open>Context\<close> has the fields of Sync HotStuff's and two more, so the record
  \<open>optsync_cx\<close> extends \<open>synchs_cx\<close>. Functions that both crates have are written out for each and
  shown equal at the end, so that what is proved of one holds of the other.
\<close>

section \<open>Context\<close>

record optsync_cx = synchs_cx +
  d2 :: nat
  resp_cert :: "(hash, certificate) fmap"

definition optsync_Context_new ::
  "ext \<Rightarrow> node_config \<Rightarrow> (replica \<times> bytes) list \<Rightarrow> client_id list \<Rightarrow> batch_cache \<Rightarrow> (bytes, bytes) fmap \<Rightarrow>
   optsync_cx res" where
  "optsync_Context_new E config pks cids cache st =
     rbind (decode_secret E (nc_crypto_alg config) (nc_secret_key_bytes config)) (\<lambda>sk.
     rbind (mul_u64 2 (nc_delta config)) (\<lambda>delay.
     rbind (mul_u64 (nc_payload config) (nc_block_size config)) (\<lambda>pl.
     rbind (decode_all_keys E (nc_crypto_alg config) pks) (\<lambda>pkm.
     let c =
       \<lparr>hx_net =
          \<lparr>nx_num_nodes = nc_num_nodes config, nx_num_faults = nc_num_faults config, nx_myid = nc_id config,
           nx_pub_key_map = pkm, nx_my_secret_key = sk,
           nx_broadcast_peers = filter (\<lambda>r. r \<noteq> nc_id config) [0..<nc_num_nodes config mod 2 ^ 16],
           nx_handlers = fmempty, nx_sent = []\<rparr>,
        hx_client_net = \<lparr>all_clients = cids, client_handlers = fmempty, client_sent = []\<rparr>,
        hx_batch = batch_ctx_new cache st, hx_payload = pl, hx_storage = Storage_new, cert_map = fmempty,
        hx_height = 0, last_leader = 0, hx_last_seen_block = GENESIS_BLOCK E, last_seen_cert = empty_cert,
        last_committed_block_ht = 0, vote_map = fmempty, hx_view = 0, commit_queue = [], d2 = delay,
        resp_cert = fmempty\<rparr>;
       c = synchs_deliver (GENESIS_BLOCK E) c;
       c = synchs_commit_block (GENESIS_BLOCK E) c
     in Inr (c\<lparr>cert_map := fmupd (blk_hash (GENESIS_BLOCK E)) empty_cert (cert_map c)\<rparr>)))))"

definition optsync_next_leader :: "optsync_cx \<Rightarrow> replica" where
  "optsync_next_leader cx = last_leader cx"

definition optsync_leader_of_view :: "optsync_cx \<Rightarrow> replica res" where
  "optsync_leader_of_view cx =
     (if hx_num_nodes cx = 0 then Inl (Panic ''attempt to calculate the remainder with a divisor of zero'')
      else Inr (hx_view cx mod hx_num_nodes cx mod 2 ^ 16))"

definition optsync_multicast :: "ext \<Rightarrow> sync_msg \<Rightarrow> optsync_cx \<Rightarrow> optsync_cx" where
  "optsync_multicast E msg cx = cx\<lparr>hx_net := multicast E (hx_height cx) msg (hx_net cx)\<rparr>"

definition optsync_multicast_client :: "ext \<Rightarrow> sync_client_msg \<Rightarrow> optsync_cx \<Rightarrow> optsync_cx" where
  "optsync_multicast_client E msg cx = cx\<lparr>hx_client_net := client_multicast E (hx_height cx) msg (hx_client_net cx)\<rparr>"

definition optsync_gc_handlers :: "ext \<Rightarrow> optsync_cx \<Rightarrow> optsync_cx" where
  "optsync_gc_handlers E cx =
     cx\<lparr>hx_net := gc_handlers E (hx_net cx), hx_client_net := client_gc E (hx_client_net cx)\<rparr>"

section \<open>Proposals\<close>

definition optsync_check_proposal :: "ext \<Rightarrow> sync_propose \<Rightarrow> block \<Rightarrow> optsync_cx \<Rightarrow> bool res" where
  "optsync_check_proposal E p new_block cx =
     (if blk_hash new_block \<noteq> sp_block_hash p then Inr False
      else rbind (optsync_leader_of_view cx) (\<lambda>leader.
        if blk_author new_block \<noteq> leader then Inr False
        else if blk_height new_block = 1 \<and> blk_prev new_block \<noteq> EMPTY_HASH E then Inr False
        else if blk_height new_block > 1 \<and> length (cert_votes (sp_cert p)) \<le> hx_num_faults cx then Inr False
        else rbind (expect ''called Option::unwrap on a None value'' (fmlookup (hx_keys cx) (blk_author new_block))) (\<lambda>pk.
          if \<not> pk_verify E pk (blk_hash new_block) (sp_proof p) then Inr False
          else if hx_view cx \<noteq> sp_view p then Inl (Panic ''This view check should be unreachable'')
          else if blk_height new_block = 1 then Inr True
          else rbind (add_u64 (hx_num_faults cx) 1) (\<lambda>capacity.
            case cert_msg (sp_cert p) of
              VoteCert _ h \<Rightarrow>
                (if h \<noteq> blk_prev new_block then Inr False
                 else
                   case check_cert_votes E (hx_keys cx) (ser_cert_type E (cert_msg (sp_cert p))) (cert_votes (sp_cert p)) [] of
                     None \<Rightarrow> Inr False
                   | Some uniq_votes \<Rightarrow>
                       if length uniq_votes < hx_num_faults cx then Inr False
                       else if blk_prev new_block \<noteq> blk_hash (hx_last_seen_block cx) then Inr False
                       else Inr True)
            | _ \<Rightarrow> Inr False))))"

definition optsync_check_batch_hash :: "ext \<Rightarrow> block \<Rightarrow> cached_batch \<Rightarrow> bool" where
  "optsync_check_batch_hash E b batch \<longleftrightarrow> fst (CachedBatch_hash E batch) = blk_batch_hash b"

text \<open>The node's own vote goes into \<open>vote_map\<close> before the block is delivered.\<close>

definition optsync_on_new_valid_proposal ::
  "ext \<Rightarrow> sync_propose \<Rightarrow> block \<Rightarrow> optsync_cx \<Rightarrow> (bool \<times> optsync_cx) res" where
  "optsync_on_new_valid_proposal E p new_block cx =
     (if \<not> is_delivered_by_hash (hx_storage cx) (blk_prev new_block) then Inr (False, cx)
      else rbind (own_vote E ''Failed to sign a vote'' (blk_hash new_block) cx) (\<lambda>my_vote.
        if fmmem (sp_block_hash p) (vote_map cx) then Inl (Panic ''Already have a vote'')
        else
          let cx = cx\<lparr>vote_map := fmupd (sp_block_hash p) my_vote (vote_map cx)\<rparr>;
              cx = synchs_deliver new_block cx;
              cx = cx\<lparr>hx_height := blk_height new_block\<rparr>;
              cx = cx\<lparr>hx_last_seen_block := new_block\<rparr>;
              cx = cx\<lparr>last_seen_cert := sp_cert p\<rparr>
          in Inr (True, optsync_multicast E (SyVoteMsg my_vote p) cx)))"

definition optsync_on_receive_proposal ::
  "ext \<Rightarrow> sync_propose \<Rightarrow> block \<Rightarrow> cached_batch \<Rightarrow> optsync_cx \<Rightarrow> (bool \<times> optsync_cx) res" where
  "optsync_on_receive_proposal E p new_block batch cx =
     (if is_delivered_by_hash (hx_storage cx) (blk_hash new_block) then Inr (False, cx)
      else rbind (optsync_check_proposal E p new_block cx) (\<lambda>ok.
        if \<not> ok then Inr (False, cx)
        else if \<not> optsync_check_batch_hash E new_block batch then Inr (False, cx)
        else
          let batch = snd (CachedBatch_hash E batch);
              cx = cx\<lparr>hx_batch := persist_batch E (blk_batch_hash new_block) batch (hx_batch cx)\<rparr>
          in optsync_on_new_valid_proposal E p new_block cx))"

definition optsync_do_propose :: "ext \<Rightarrow> hash \<Rightarrow> cached_batch \<Rightarrow> optsync_cx \<Rightarrow> (sync_propose \<times> optsync_cx) res" where
  "optsync_do_propose E batch_hash batch cx =
     (let parent = hx_last_seen_block cx; nb = with_batch E batch_hash
      in rbind (add_u64 (blk_height parent) 1) (\<lambda>height.
         let nb = nb\<lparr>blk_header := (blk_header nb)\<lparr>hdr_author := hx_myid cx, hdr_prev := blk_hash parent,
                       hdr_height := height\<rparr>\<rparr>;
             new_block = block_init E nb
         in rbind (expect ''Failed to sign the new proposal'' (sk_sign E (hx_secret cx) (blk_hash new_block))) (\<lambda>proof.
            rbind (own_vote E ''Failed to sign the new proposal'' (blk_hash new_block) cx) (\<lambda>new_block_cert.
            let p = (SyncPropose_new E)\<lparr>sp_proof := proof, sp_block_hash := blk_hash new_block\<rparr>
            in rbind (expect ''Must call propose only if the parent is certified'' (fmlookup (cert_map cx) (blk_hash parent))) (\<lambda>cert.
               let p = p\<lparr>sp_cert := cert, sp_view := hx_view cx\<rparr>;
                   cx = synchs_deliver new_block cx;
                   cx = cx\<lparr>vote_map := fmupd (blk_hash new_block) new_block_cert (vote_map cx)\<rparr>;
                   cx = cx\<lparr>hx_height := blk_height new_block\<rparr>;
                   cx = cx\<lparr>hx_last_seen_block := new_block\<rparr>;
                   cx = cx\<lparr>last_committed_block_ht := hx_height cx\<rparr>;
                   cx = optsync_multicast E (SyNewProposal p new_block batch) cx
               in Inr (p, start_timer p cx))))))"

section \<open>Votes\<close>

definition optsync_add_vote :: "certificate \<Rightarrow> hash \<Rightarrow> optsync_cx \<Rightarrow> (bool \<times> optsync_cx) res" where
  "optsync_add_vote c h cx =
     (case fmlookup (vote_map cx) h of
        None \<Rightarrow> Inr (False, cx\<lparr>vote_map := fmupd h c (vote_map cx)\<rparr>)
      | Some cert \<Rightarrow>
          let cx = cx\<lparr>vote_map := fmdrop h (vote_map cx)\<rparr>
          in rbind (pop_vote c) (\<lambda>v.
             let cert = cert\<lparr>cert_votes := cert_votes cert @ [v]\<rparr>
             in rbind (mul_u64 3 (hx_num_nodes cx)) (\<lambda>n3.
                let commit_decision = length (cert_votes cert) \<ge> n3 div 4;
                    cx = (if commit_decision then cx\<lparr>resp_cert := fmupd h cert (resp_cert cx)\<rparr> else cx);
                    cx = (if length (cert_votes cert) > hx_num_faults cx
                          then cx\<lparr>cert_map := fmupd h cert (cert_map cx), last_seen_cert := cert\<rparr> else cx)
                in Inr (commit_decision, cx\<lparr>vote_map := fmupd h cert (vote_map cx)\<rparr>))))"

text \<open>The checks of \<open>on_vote\<close>: the hash voted for, or nothing when the message is dropped.\<close>

definition optsync_vote_target :: "ext \<Rightarrow> certificate \<Rightarrow> sync_propose \<Rightarrow> optsync_cx \<Rightarrow> hash option res" where
  "optsync_vote_target E c p cx =
     (if length (cert_votes c) \<noteq> 1 then Inr None
      else
        let vote = cert_votes c ! 0
        in case fmlookup (hx_keys cx) (v_origin vote) of
             None \<Rightarrow> Inr None
           | Some pk \<Rightarrow>
               (case cert_msg c of
                  VoteCert _ h \<Rightarrow>
                    if h \<noteq> sp_block_hash p then Inr None
                    else if \<not> pk_verify E pk (ser_cert_type E (cert_msg c)) (v_auth vote) then Inr None
                    else if \<not> is_delivered_by_hash (hx_storage cx) h then Inr None
                    else
                      rbind (expect ''called Option::unwrap on a None value'' (delivered_block_from_hash (hx_storage cx) h))
                        (\<lambda>new_block.
                         case delivered_block_from_ht (hx_storage cx) (blk_height new_block) of
                           Some x \<Rightarrow> Inr (if blk_hash x \<noteq> h then None else Some h)
                         | None \<Rightarrow> Inr (Some h))
                | _ \<Rightarrow> Inl (Panic ''other vote types cant be here'')))"

definition optsync_on_vote :: "ext \<Rightarrow> certificate \<Rightarrow> sync_propose \<Rightarrow> optsync_cx \<Rightarrow> (bool \<times> optsync_cx) res" where
  "optsync_on_vote E c p cx =
     rbind (optsync_vote_target E c p cx) (\<lambda>target.
     case target of
       None \<Rightarrow> Inr (False, cx)
     | Some h \<Rightarrow> if fmmem h (resp_cert cx) then Inr (False, cx) else optsync_add_vote c h cx)"

section \<open>Commit\<close>

definition optsync_on_commit :: "ext \<Rightarrow> sync_propose \<Rightarrow> optsync_cx \<Rightarrow> optsync_cx" where
  "optsync_on_commit E p cx =
     (case delivered_block_from_hash (hx_storage cx) (sp_block_hash p) of
        None \<Rightarrow> cx
      | Some b \<Rightarrow>
          if is_committed_by_hash (hx_storage cx) (blk_hash b) then cx
          else
            let cx = cx\<lparr>last_committed_block_ht := blk_height b\<rparr>;
                cx = synchs_commit_block b cx;
                (tx_hashes, x) = batch_tx_hashes E (blk_batch_hash b) (hx_batch cx);
                cx = cx\<lparr>hx_batch := x\<rparr>;
                payload = with_payload (hx_payload cx);
                cx = optsync_multicast_client E (SyNewBlock b tx_hashes payload) cx
            in optsync_gc_handlers E cx)"

definition optsync_on_receive_blame :: "vote \<Rightarrow> optsync_cx \<Rightarrow> optsync_cx res" where
  "optsync_on_receive_blame v cx = Inl (Panic ''Unimplemented'')"

section \<open>Reactor\<close>

definition optsync_process_msg :: "ext \<Rightarrow> sync_msg \<Rightarrow> optsync_cx \<Rightarrow> optsync_cx res" where
  "optsync_process_msg E protmsg cx =
     (case protmsg of
        SyNewProposal p b batch \<Rightarrow>
          rbind (optsync_on_receive_proposal E p b batch cx) (\<lambda>(decision, cx).
          Inr (if decision then start_timer p cx else cx))
      | SyVoteMsg v p \<Rightarrow>
          rbind (optsync_on_vote E v p cx) (\<lambda>(decision, cx).
          Inr (if decision then optsync_on_commit E p cx else cx))
      | _ \<Rightarrow> Inr cx)"

definition optsync_timer :: "ext \<Rightarrow> nat \<Rightarrow> optsync_cx \<Rightarrow> optsync_cx" where
  "optsync_timer E i cx =
     (if i < length (commit_queue cx)
      then optsync_on_commit E (commit_queue cx ! i)
             (cx\<lparr>commit_queue := take i (commit_queue cx) @ drop (Suc i) (commit_queue cx)\<rparr>)
      else cx)"

lemma optsync_do_propose_result:
  assumes "optsync_do_propose E bh batch cx = Inr (p, cx')"
  obtains b cert vt where "fmlookup (cert_map cx) (blk_hash (hx_last_seen_block cx)) = Some cert"
    "b = block_init E ((with_batch E bh)\<lparr>blk_header := (Header_new E)\<lparr>hdr_author := hx_myid cx,
       hdr_prev := blk_hash (hx_last_seen_block cx), hdr_height := blk_height (hx_last_seen_block cx) + 1\<rparr>\<rparr>)"
    "sk_sign E (hx_secret cx) (blk_hash b) = Some (sp_proof p)"
    "sp_cert p = cert" "sp_view p = hx_view cx" "sp_block_hash p = blk_hash b"
    "own_vote E ''Failed to sign the new proposal'' (blk_hash b) cx = Inr vt"
    "blk_height (hx_last_seen_block cx) + 1 < 2 ^ 64"
    "cx' = start_timer p (optsync_multicast E (SyNewProposal p b batch)
       ((synchs_deliver b cx)\<lparr>vote_map := fmupd (blk_hash b) vt (vote_map cx), hx_height := blk_height b,
         hx_last_seen_block := b, last_committed_block_ht := blk_height b\<rparr>))"
  using assms that by (auto simp: optsync_do_propose_def Let_def add_u64_Inr_iff with_batch_def synchs_deliver_def)

function optsync_drain :: "ext \<Rightarrow> optsync_cx \<Rightarrow> optsync_cx res" where
  "optsync_drain E cx =
     (if optsync_next_leader cx = hx_myid cx \<and> fmmem (blk_hash (hx_last_seen_block cx)) (cert_map cx) then
        (case bx_pending (hx_batch cx) of
           [] \<Rightarrow> Inr cx
         | (bh, batch) # rest \<Rightarrow>
             rbind (optsync_do_propose E bh batch (cx\<lparr>hx_batch := (hx_batch cx)\<lparr>bx_pending := rest\<rparr>\<rparr>))
               (\<lambda>(p, cx). optsync_drain E cx))
      else Inr cx)"
  by pat_completeness auto
termination
  by (relation "measure (\<lambda>(E, cx). length (bx_pending (hx_batch cx)))")
    (auto elim!: optsync_do_propose_result simp: optsync_multicast_def synchs_deliver_def start_timer_def)

declare optsync_drain.simps [simp del]

definition optsync_reactor_step :: "ext \<Rightarrow> sync_event \<Rightarrow> optsync_cx \<Rightarrow> optsync_cx reactor_outcome res" where
  "optsync_reactor_step E ev cx =
     (let continue = (\<lambda>cx. rbind (optsync_drain E cx) (\<lambda>cx. Inr (Continue cx)))
      in case ev of
           SyNet protmsg \<Rightarrow> rbind (optsync_process_msg E protmsg cx) continue
         | SyNetError \<Rightarrow> Inr (Continue cx)
         | SyNetClosed \<Rightarrow> Inr ReactorBreak
         | SyBatchReady bh batch \<Rightarrow>
             continue (cx\<lparr>hx_batch := (hx_batch cx)\<lparr>bx_pending := bx_pending (hx_batch cx) @ [(bh, batch)]\<rparr>\<rparr>)
         | SyMempoolClosed \<Rightarrow> Inr ReactorBreak
         | SyTimer i \<Rightarrow> continue (optsync_timer E i cx)
         | SyTimerError \<Rightarrow> Inr (Continue cx))"

section \<open>What the two crates share\<close>

lemma optsync_helpers_eq:
  "optsync_leader_of_view = leader_of_view" "optsync_multicast = synchs_multicast"
  "optsync_multicast_client = multicast_client" "optsync_gc_handlers = synchs_gc_handlers"
  "optsync_check_batch_hash = synchs_check_batch_hash" "optsync_next_leader = synchs_next_leader"
  by (intro ext; simp add: optsync_leader_of_view_def leader_of_view_def optsync_multicast_def synchs_multicast_def
      optsync_multicast_client_def multicast_client_def optsync_gc_handlers_def synchs_gc_handlers_def
      optsync_check_batch_hash_def synchs_check_batch_hash_def optsync_next_leader_def synchs_next_leader_def)+

lemma optsync_check_proposal_eq: "optsync_check_proposal = synchs_check_proposal"
  by (intro ext) (simp only: optsync_check_proposal_def synchs_check_proposal_def optsync_helpers_eq)

lemma optsync_vote_target_eq: "optsync_vote_target = synchs_vote_target"
  by (intro ext) (simp only: optsync_vote_target_def synchs_vote_target_def)

lemma optsync_on_commit_eq: "optsync_on_commit = synchs_on_commit"
  by (intro ext) (simp only: optsync_on_commit_def synchs_on_commit_def optsync_helpers_eq)

lemma optsync_timer_eq: "optsync_timer = synchs_timer"
  by (intro ext) (simp only: optsync_timer_def synchs_timer_def optsync_on_commit_eq)

lemmas optsync_shared =
  optsync_helpers_eq optsync_check_proposal_eq optsync_vote_target_eq optsync_on_commit_eq optsync_timer_eq

end
