(* ===== verification/Sync_Laws.thy ===== *)
theory Sync_Laws
  imports Optsync_Node
begin

text \<open>
  What holds of a Sync HotStuff and of an Opt Sync node whatever arrives from the network: one
  invariant over the part of the context both have, kept by every operation of either; the loop of
  the reactor as an interface that the two nodes interpret; the faults either can run into.
\<close>

section \<open>Votes and certificates\<close>

text \<open>
  A vote for \<open>h\<close> carries a valid signature of its origin. The view it was signed for is open: no
  check of the source compares it with the node's view.
\<close>

definition signed_vote :: "ext \<Rightarrow> (replica, public_key) fmap \<Rightarrow> hash \<Rightarrow> vote \<Rightarrow> bool" where
  "signed_vote E keys h vt \<longleftrightarrow>
     (\<exists>pk v. fmlookup keys (v_origin vt) = Some pk \<and> pk_verify E pk (ser_cert_type E (VoteCert v h)) (v_auth vt))"

definition cert_for :: "ext \<Rightarrow> (replica, public_key) fmap \<Rightarrow> hash \<Rightarrow> certificate \<Rightarrow> bool" where
  "cert_for E keys h c \<longleftrightarrow>
     (\<exists>v. cert_msg c = VoteCert v h) \<and> cert_votes c \<noteq> [] \<and> (\<forall>vt\<in>set (cert_votes c). signed_vote E keys h vt)"

lemma cert_for_add:
  assumes "cert_for E keys h cert" and "signed_vote E keys h vt"
  shows "cert_for E keys h (cert\<lparr>cert_votes := cert_votes cert @ [vt]\<rparr>)"
  using assms by (auto simp: cert_for_def)

text \<open>What the loop over a certificate's votes accepts.\<close>

lemma check_cert_votes_Some:
  assumes "check_cert_votes E pkm data vs us = Some us'" and "distinct us"
  shows "distinct us' \<and> set us' = set us \<union> v_origin ` set vs \<and>
    (\<forall>vt\<in>set vs. \<exists>pk. fmlookup pkm (v_origin vt) = Some pk \<and> pk_verify E pk data (v_auth vt))"
  using assms by (induction vs arbitrary: us) (auto split: option.splits if_splits)

lemma check_cert_votes_ok:
  assumes "\<forall>vt\<in>set vs. \<exists>pk. fmlookup pkm (v_origin vt) = Some pk \<and> pk_verify E pk data (v_auth vt)"
  shows "check_cert_votes E pkm data vs us = Some (fold (\<lambda>vt. hs_insert (v_origin vt)) vs us)"
  using assms by (induction vs arbitrary: us) auto

section \<open>Invariant\<close>

definition sync_store_ok :: "ext \<Rightarrow> block storage \<Rightarrow> bool" where
  "sync_store_ok E s \<longleftrightarrow>
     (\<forall>h b. delivered_block_from_hash s h = Some b \<longrightarrow> blk_hash b = h \<and> (block_sealed E b \<or> b = GENESIS_BLOCK E)) \<and>
     (\<forall>h. is_committed_by_hash s h \<longrightarrow> is_delivered_by_hash s h) \<and> parents_delivered (\<lambda>b. blk_prev b) s \<and>
     is_committed_by_hash s (EMPTY_HASH E)"

definition sync_keys_ok :: "ext \<Rightarrow> sync_msg net_ctx \<Rightarrow> bool" where
  "sync_keys_ok E n \<longleftrightarrow>
     0 < nx_num_nodes n \<and> (\<forall>i<nx_num_nodes n. fmmem i (nx_pub_key_map n)) \<and>
     (\<exists>pk. fmlookup (nx_pub_key_map n) (nx_myid n) = Some pk \<and> sign_verifies E (nx_my_secret_key n) pk)"

definition sync_votes_ok :: "ext \<Rightarrow> 'z synchs_cx_scheme \<Rightarrow> bool" where
  "sync_votes_ok E cx \<longleftrightarrow>
     (\<forall>h c. fmlookup (vote_map cx) h = Some c \<longrightarrow> is_delivered_by_hash (hx_storage cx) h \<and> cert_for E (hx_keys cx) h c) \<and>
     (\<forall>h c. fmlookup (cert_map cx) h = Some c \<longrightarrow> is_delivered_by_hash (hx_storage cx) h \<and>
        (h = EMPTY_HASH E \<and> c = empty_cert \<or> cert_for E (hx_keys cx) h c \<and> hx_num_faults cx < length (cert_votes c)))"

text \<open>The hashes announced to a client, in order.\<close>

fun announced :: "sync_client_msg \<Rightarrow> hash list" where
  "announced (SyNewBlock b hs pl) = [blk_hash b]"
| "announced _ = []"

definition notified :: "client_id \<Rightarrow> client_net \<Rightarrow> hash list" where
  "notified c n = concat (map (\<lambda>(d, m). if d = c then announced m else []) (client_sent n))"

text \<open>
  For every client the node has handed to its sender one announcement of each committed block, except of
  the genesis block, and of no other block.
\<close>

definition sync_notified :: "ext \<Rightarrow> 'z synchs_cx_scheme \<Rightarrow> bool" where
  "sync_notified E cx \<longleftrightarrow>
     distinct (all_clients (hx_client_net cx)) \<and>
     (\<forall>c\<in>set (all_clients (hx_client_net cx)). distinct (notified c (hx_client_net cx)) \<and>
        set (notified c (hx_client_net cx)) = {h. is_committed_by_hash (hx_storage cx) h} - {EMPTY_HASH E})"

definition sync_inv :: "ext \<Rightarrow> 'z synchs_cx_scheme \<Rightarrow> bool" where
  "sync_inv E cx \<longleftrightarrow>
     sync_keys_ok E (hx_net cx) \<and> sync_store_ok E (hx_storage cx) \<and> hx_view cx = 0 \<and> last_leader cx = 0 \<and>
     is_delivered_by_hash (hx_storage cx) (blk_hash (hx_last_seen_block cx)) \<and> sync_votes_ok E cx \<and>
     (\<forall>p\<in>set (commit_queue cx). is_delivered_by_hash (hx_storage cx) (sp_block_hash p)) \<and> sync_notified E cx"

lemmas sync_inv_defs = sync_inv_def sync_keys_ok_def sync_votes_ok_def sync_notified_def

text \<open>
  The three faults a node can run into: the "unreachable" view check and the "unreachable" kind of
  vote, both of which a peer can reach, and a counter that leaves its type.
\<close>

definition sync_faults :: "fault set" where
  "sync_faults =
     {Panic ''This view check should be unreachable'', Panic ''other vote types cant be here'', Overflow}"

lemma synchs_multicast_frame [simp]:
  "hx_storage (synchs_multicast E m cx) = hx_storage cx" "vote_map (synchs_multicast E m cx) = vote_map cx"
  "cert_map (synchs_multicast E m cx) = cert_map cx" "hx_last_seen_block (synchs_multicast E m cx) = hx_last_seen_block cx"
  "hx_batch (synchs_multicast E m cx) = hx_batch cx" "commit_queue (synchs_multicast E m cx) = commit_queue cx"
  "hx_view (synchs_multicast E m cx) = hx_view cx" "last_leader (synchs_multicast E m cx) = last_leader cx"
  by (simp_all add: synchs_multicast_def)

lemma synchs_deliver_frame [simp]:
  "hx_storage (synchs_deliver b cx) = add_delivered_block block_get_hash block_get_height b (hx_storage cx)"
  "hx_net (synchs_deliver b cx) = hx_net cx" "vote_map (synchs_deliver b cx) = vote_map cx"
  "cert_map (synchs_deliver b cx) = cert_map cx" "hx_last_seen_block (synchs_deliver b cx) = hx_last_seen_block cx"
  "hx_batch (synchs_deliver b cx) = hx_batch cx" "commit_queue (synchs_deliver b cx) = commit_queue cx"
  "hx_view (synchs_deliver b cx) = hx_view cx" "last_leader (synchs_deliver b cx) = last_leader cx"
  by (simp_all add: synchs_deliver_def)

lemma sync_inv_frame [simp]:
  "sync_inv E (cx\<lparr>hx_batch := x\<rparr>) = sync_inv E cx"
  "sync_inv E (cx\<lparr>last_seen_cert := c\<rparr>) = sync_inv E cx"
  "sync_inv E (cx\<lparr>hx_height := ht\<rparr>) = sync_inv E cx"
  "sync_inv E (cx\<lparr>last_committed_block_ht := ht\<rparr>) = sync_inv E cx"
  "sync_inv E (synchs_multicast E' msg cx) = sync_inv E cx"
  by (simp_all add: sync_inv_defs synchs_multicast_def)

lemma sync_inv_seen:
  "sync_inv E cx \<Longrightarrow> is_delivered_by_hash (hx_storage cx) (blk_hash b) \<Longrightarrow> sync_inv E (cx\<lparr>hx_last_seen_block := b\<rparr>)"
  by (simp add: sync_inv_defs)

lemma sync_inv_timer:
  "sync_inv E cx \<Longrightarrow> is_delivered_by_hash (hx_storage cx) (sp_block_hash p) \<Longrightarrow> sync_inv E (start_timer p cx)"
  by (simp add: sync_inv_defs start_timer_def)

lemma sync_inv_vote:
  assumes "sync_inv E cx" and "is_delivered_by_hash (hx_storage cx) h" and "cert_for E (hx_keys cx) h c"
  shows "sync_inv E (cx\<lparr>vote_map := fmupd h c (vote_map cx)\<rparr>)"
  using assms by (simp add: sync_inv_defs)

lemma sync_inv_cert:
  assumes "sync_inv E cx" and "is_delivered_by_hash (hx_storage cx) h" and "cert_for E (hx_keys cx) h c"
    and "hx_num_faults cx < length (cert_votes c)"
  shows "sync_inv E (cx\<lparr>cert_map := fmupd h c (cert_map cx)\<rparr>)"
  using assms by (simp add: sync_inv_defs)

lemma sync_inv_drop_vote: "sync_inv E cx \<Longrightarrow> sync_inv E (cx\<lparr>vote_map := fmdrop h (vote_map cx)\<rparr>)"
  by (simp add: sync_inv_defs)

lemma sync_store_deliver:
  assumes "sync_store_ok E s" and "block_sealed E b" and "is_delivered_by_hash s (blk_prev b)"
  shows "sync_store_ok E (add_delivered_block block_get_hash block_get_height b s)"
proof -
  have "parents_delivered (\<lambda>b. blk_prev b) (add_delivered_block block_get_hash block_get_height b s)"
    using assms by (intro parents_delivered_add) (auto simp: sync_store_ok_def)
  with assms show ?thesis by (auto simp: sync_store_ok_def block_get_hash_def)
qed

lemma sync_inv_deliver:
  assumes "sync_inv E cx" and "block_sealed E b" and "is_delivered_by_hash (hx_storage cx) (blk_prev b)"
  shows "sync_inv E (synchs_deliver b cx)"
  using assms sync_store_deliver [OF _ assms(2,3)] by (simp add: sync_inv_defs synchs_deliver_def)

lemma own_vote_ok:
  assumes "sync_inv E cx"
  obtains vt where "own_vote E err h cx = Inr vt" "cert_for E (hx_keys cx) h vt" "length (cert_votes vt) = 1"
    "cert_msg vt = VoteCert (hx_view cx) h"
    "\<exists>pk. fmlookup (hx_keys cx) (v_origin (hd (cert_votes vt))) = Some pk \<and>
       pk_verify E pk (ser_cert_type E (cert_msg vt)) (v_auth (hd (cert_votes vt)))"
proof -
  obtain pk where pk: "fmlookup (hx_keys cx) (hx_myid cx) = Some pk" "sign_verifies E (hx_secret cx) pk"
    using assms by (auto simp: sync_inv_def sync_keys_ok_def)
  then obtain auth where "sk_sign E (hx_secret cx) (ser_cert_type E (VoteCert (hx_view cx) h)) = Some auth"
      "pk_verify E pk (ser_cert_type E (VoteCert (hx_view cx) h)) auth" by (auto simp: sign_verifies_def)
  with pk that show thesis by (auto simp: own_vote_def cert_for_def signed_vote_def empty_cert_def)
qed

section \<open>Commit\<close>

lemma client_post_frame [simp]:
  "all_clients (client_post E ht m d n) = all_clients n" "client_sent (client_post E ht m d n) = client_sent n @ [(d, m)]"
  by (simp_all add: client_post_def remember_client_def Let_def split: option.splits)

lemma client_fold_frame:
  "all_clients (fold (client_post E ht m) ds n) = all_clients n"
  "client_sent (fold (client_post E ht m) ds n) = client_sent n @ map (\<lambda>d. (d, m)) ds"
  by (induction ds arbitrary: n) simp_all

lemma client_multicast_frame [simp]:
  "all_clients (client_multicast E ht m n) = all_clients n"
  "client_sent (client_multicast E ht m n) = client_sent n @ map (\<lambda>d. (d, m)) (all_clients n)"
  by (simp_all add: client_multicast_def client_fold_frame)

lemma client_gc_frame [simp]: "all_clients (client_gc E n) = all_clients n" "client_sent (client_gc E n) = client_sent n"
  by (simp_all add: client_gc_def)

lemma concat_one:
  "distinct ds \<Longrightarrow> concat (map (\<lambda>d. if d = c then [h] else []) ds) = (if c \<in> set ds then [h] else [])"
  by (induction ds) auto

lemma notified_multicast:
  assumes "distinct (all_clients n)" and "c \<in> set (all_clients n)"
  shows "notified c (client_gc E (client_multicast E ht (SyNewBlock b hs pl) n)) = notified c n @ [blk_hash b]"
  using assms concat_one [OF assms(1), of c "blk_hash b"]
  by (simp add: notified_def comp_def cong: if_cong)

text \<open>A commit does nothing, or it commits the one block of the proposal and tells the clients of it.\<close>

lemma synchs_on_commit_cases:
  obtains "synchs_on_commit E p cx = cx"
      "\<And>b. delivered_block_from_hash (hx_storage cx) (sp_block_hash p) = Some b \<Longrightarrow> is_committed_by_hash (hx_storage cx) (blk_hash b)"
  | b hs x where "delivered_block_from_hash (hx_storage cx) (sp_block_hash p) = Some b"
      "\<not> is_committed_by_hash (hx_storage cx) (blk_hash b)"
      "batch_tx_hashes E (blk_batch_hash b) (hx_batch cx) = (hs, x)"
      "synchs_on_commit E p cx = cx\<lparr>last_committed_block_ht := blk_height b,
         hx_storage := add_committed_block block_get_hash block_get_height b (hx_storage cx), hx_batch := x,
         hx_net := gc_handlers E (hx_net cx),
         hx_client_net := client_gc E (client_multicast E (hx_height cx) (SyNewBlock b hs (with_payload (hx_payload cx))) (hx_client_net cx))\<rparr>"
proof (cases "\<exists>b. delivered_block_from_hash (hx_storage cx) (sp_block_hash p) = Some b \<and> \<not> is_committed_by_hash (hx_storage cx) (blk_hash b)")
  case False
  then have "synchs_on_commit E p cx = cx" by (auto simp: synchs_on_commit_def split: option.splits)
  with that(1) False show thesis by blast
next
  case True
  then obtain b where b: "delivered_block_from_hash (hx_storage cx) (sp_block_hash p) = Some b"
      "\<not> is_committed_by_hash (hx_storage cx) (blk_hash b)" by blast
  obtain hs x where "batch_tx_hashes E (blk_batch_hash b) (hx_batch cx) = (hs, x)" by fastforce
  with b that(2) show thesis
    by (simp add: synchs_on_commit_def synchs_commit_block_def multicast_client_def synchs_gc_handlers_def Let_def)
qed

lemma sync_inv_commit:
  assumes "sync_inv E cx"
  shows "sync_inv E (synchs_on_commit E p cx)"
proof (cases rule: synchs_on_commit_cases [of E p cx])
  case 1
  with assms show ?thesis by simp
next
  case (2 b hs x)
  let ?s = "add_committed_block block_get_hash block_get_height b (hx_storage cx)"
  have st: "sync_store_ok E (hx_storage cx)" and told: "sync_notified E cx" using assms by (auto simp: sync_inv_def)
  have b: "is_delivered_by_hash (hx_storage cx) (blk_hash b)" "blk_hash b \<noteq> EMPTY_HASH E"
    using st 2(1,2) by (auto simp: sync_store_ok_def is_delivered_iff)
  have "sync_store_ok E ?s"
    using st b(1) by (auto simp: sync_store_ok_def block_get_hash_def parents_delivered_def)
  moreover have "sync_notified E (synchs_on_commit E p cx)"
    using told 2(2) b(2) by (auto simp: 2(4) sync_notified_def notified_multicast block_get_hash_def)
  ultimately show ?thesis using assms by (simp add: sync_inv_def sync_keys_ok_def sync_votes_ok_def 2(4))
qed

lemma sync_inv_synchs_timer:
  assumes "sync_inv E cx"
  shows "sync_inv E (synchs_timer E i cx)"
proof -
  let ?q = "take i (commit_queue cx) @ drop (Suc i) (commit_queue cx)"
  have "set ?q \<subseteq> set (commit_queue cx)" by (auto dest: in_set_takeD in_set_dropD)
  then have "sync_inv E (cx\<lparr>commit_queue := ?q\<rparr>)" using assms by (auto simp: sync_inv_defs)
  from sync_inv_commit [OF this] assms show ?thesis by (simp add: synchs_timer_def)
qed

section \<open>Proposals and votes\<close>

text \<open>What \<open>check_proposal\<close> accepts.\<close>

definition certified_parent :: "ext \<Rightarrow> (replica, public_key) fmap \<Rightarrow> nat \<Rightarrow> sync_propose \<Rightarrow> block \<Rightarrow> bool" where
  "certified_parent E keys f p b \<longleftrightarrow>
     (\<exists>v. cert_msg (sp_cert p) = VoteCert v (blk_prev b)) \<and>
     (\<forall>vt\<in>set (cert_votes (sp_cert p)). \<exists>pk. fmlookup keys (v_origin vt) = Some pk \<and>
        pk_verify E pk (ser_cert_type E (cert_msg (sp_cert p))) (v_auth vt)) \<and>
     f \<le> card (v_origin ` set (cert_votes (sp_cert p)))"

lemma check_proposal_accepts:
  assumes "synchs_check_proposal E p b cx = Inr True"
  shows "blk_hash b = sp_block_hash p" and "leader_of_view cx = Inr (blk_author b)" and "sp_view p = hx_view cx"
    and "\<exists>pk. fmlookup (hx_keys cx) (blk_author b) = Some pk \<and> pk_verify E pk (blk_hash b) (sp_proof p)"
    and "blk_height b = 1 \<Longrightarrow> blk_prev b = EMPTY_HASH E"
    and "blk_height b \<noteq> 1 \<Longrightarrow> blk_prev b = blk_hash (hx_last_seen_block cx) \<and>
      certified_parent E (hx_keys cx) (hx_num_faults cx) p b"
    and "1 < blk_height b \<Longrightarrow> hx_num_faults cx < length (cert_votes (sp_cert p))"
proof -
  note chk = assms [unfolded synchs_check_proposal_def]
  from chk show "blk_hash b = sp_block_hash p" by (auto split: if_splits)
  from chk show "leader_of_view cx = Inr (blk_author b)" by (auto split: if_splits)
  from chk show "sp_view p = hx_view cx" by (auto split: if_splits)
  from chk show "\<exists>pk. fmlookup (hx_keys cx) (blk_author b) = Some pk \<and> pk_verify E pk (blk_hash b) (sp_proof p)"
    by (auto split: if_splits)
  from chk show "blk_prev b = EMPTY_HASH E" if "blk_height b = 1" using that by (auto split: if_splits)
  from chk show "hx_num_faults cx < length (cert_votes (sp_cert p))" if "1 < blk_height b"
    using that by (auto split: if_splits)
  assume ht: "blk_height b \<noteq> 1"
  with chk obtain v us where c: "cert_msg (sp_cert p) = VoteCert v (blk_prev b)"
      "check_cert_votes E (hx_keys cx) (ser_cert_type E (cert_msg (sp_cert p))) (cert_votes (sp_cert p)) [] = Some us"
      "\<not> length us < hx_num_faults cx" "blk_prev b = blk_hash (hx_last_seen_block cx)"
    by (auto split: if_splits cert_type.splits option.splits)
  from check_cert_votes_Some [OF c(2)] have us: "distinct us" "set us = v_origin ` set (cert_votes (sp_cert p))"
    "\<forall>vt\<in>set (cert_votes (sp_cert p)). \<exists>pk. fmlookup (hx_keys cx) (v_origin vt) = Some pk \<and>
        pk_verify E pk (ser_cert_type E (cert_msg (sp_cert p))) (v_auth vt)" by auto
  with c distinct_card [OF us(1)] show "blk_prev b = blk_hash (hx_last_seen_block cx) \<and>
      certified_parent E (hx_keys cx) (hx_num_faults cx) p b" by (simp add: certified_parent_def)
qed

lemma check_proposal_faults:
  assumes "sync_inv E cx"
  shows "rkeeps (\<lambda>_. True) sync_faults (synchs_check_proposal E p b cx)"
proof -
  have n: "0 < hx_num_nodes cx" and keys: "fmmem 0 (hx_keys cx)" and v: "hx_view cx = 0"
    using assms by (auto simp: sync_inv_defs)
  then obtain pk where "fmlookup (hx_keys cx) 0 = Some pk" by (auto simp: fmmem_iff)
  with n v show ?thesis
    by (simp add: synchs_check_proposal_def leader_of_view_def sync_faults_def add_u64_def split: cert_type.split option.split)
qed

text \<open>Both nodes accept a proposal by the same three updates of the shared part.\<close>

lemma sync_inv_accept:
  assumes "sync_inv E cx" and "block_sealed E b" and "is_delivered_by_hash (hx_storage cx) (blk_prev b)"
  shows "sync_inv E ((synchs_deliver b cx)\<lparr>hx_height := ht, hx_last_seen_block := b, last_seen_cert := c\<rparr>)"
proof -
  have "sync_inv E ((synchs_deliver b cx)\<lparr>hx_height := ht\<rparr>)" using sync_inv_deliver [OF assms] by simp
  then have "sync_inv E ((synchs_deliver b cx)\<lparr>hx_height := ht, hx_last_seen_block := b\<rparr>)"
    by (rule sync_inv_seen) (simp add: synchs_deliver_def block_get_hash_def)
  then show ?thesis by simp
qed

definition took_vote :: "ext \<Rightarrow> certificate \<Rightarrow> hash \<Rightarrow> 'z synchs_cx_scheme \<Rightarrow> bool" where
  "took_vote E c h cx \<longleftrightarrow>
     length (cert_votes c) = 1 \<and> cert_for E (hx_keys cx) h c \<and> is_delivered_by_hash (hx_storage cx) h"

lemma vote_target_cases:
  shows "rkeeps (\<lambda>t. case t of None \<Rightarrow> True | Some h \<Rightarrow> took_vote E c h cx) sync_faults (synchs_vote_target E c p cx)"
proof (cases "length (cert_votes c) = 1 \<and> fmlookup (hx_keys cx) (v_origin (cert_votes c ! 0)) \<noteq> None")
  case False
  then show ?thesis by (auto simp: synchs_vote_target_def split: option.splits)
next
  case True
  then obtain vt pk where c: "cert_votes c = [vt]" "fmlookup (hx_keys cx) (v_origin vt) = Some pk"
    by (auto simp: length_Suc_conv)
  show ?thesis
  proof (cases "cert_msg c")
    case (VoteCert v h)
    show ?thesis
    proof (cases "h = sp_block_hash p \<and> pk_verify E pk (ser_cert_type E (cert_msg c)) (v_auth vt) \<and> is_delivered_by_hash (hx_storage cx) h")
      case True
      then obtain b where "delivered_block_from_hash (hx_storage cx) h = Some b" by (auto simp: is_delivered_iff)
      moreover have "took_vote E c h cx"
        using c True VoteCert by (auto simp: took_vote_def cert_for_def signed_vote_def)
      ultimately show ?thesis
        using c True VoteCert by (auto simp: synchs_vote_target_def Let_def split: option.splits)
    qed (use c VoteCert in \<open>auto simp: synchs_vote_target_def Let_def\<close>)
  qed (use c in \<open>simp_all add: synchs_vote_target_def sync_faults_def\<close>)
qed

lemma took_vote_pop:
  assumes "took_vote E c h cx"
  obtains vt where "cert_votes c = [vt]" "pop_vote c = Inr vt" "signed_vote E (hx_keys cx) h vt"
  using assms that by (auto simp: took_vote_def pop_vote_def cert_for_def length_Suc_conv)

section \<open>Sync HotStuff\<close>

abbreviation skeeps :: "ext \<Rightarrow> synchs_cx res \<Rightarrow> bool" where
  "skeeps E \<equiv> rkeeps (sync_inv E) sync_faults"

lemma synchs_accept_effect:
  assumes "synchs_on_new_valid_proposal E p b cx = Inr (True, cx')"
  obtains vt where "own_vote E ''Failed to sign a vote'' (blk_hash b) cx = Inr vt"
    "is_delivered_by_hash (hx_storage cx) (blk_prev b)"
    "cx' = synchs_multicast E (SyVoteMsg vt p)
       ((synchs_deliver b cx)\<lparr>hx_height := blk_height b, hx_last_seen_block := b, last_seen_cert := sp_cert p\<rparr>)"
  using assms that by (auto simp: synchs_on_new_valid_proposal_def Let_def split: if_splits)

lemma skeeps_new_valid:
  assumes "sync_inv E cx" and "block_sealed E b"
  shows "rkeeps (\<lambda>(d, c). sync_inv E c \<and> (d \<longrightarrow> is_delivered_by_hash (hx_storage c) (blk_hash b))) sync_faults
    (synchs_on_new_valid_proposal E p b cx)"
proof (cases "is_delivered_by_hash (hx_storage cx) (blk_prev b)")
  case True
  obtain vt where "own_vote E ''Failed to sign a vote'' (blk_hash b) cx = Inr vt"
    by (rule own_vote_ok [OF assms(1)])
  with True sync_inv_accept [OF assms True] show ?thesis
    by (simp add: synchs_on_new_valid_proposal_def Let_def block_get_hash_def)
qed (use assms in \<open>simp add: synchs_on_new_valid_proposal_def\<close>)

lemma skeeps_receive_proposal:
  assumes "sync_inv E cx" and "block_sealed E b"
  shows "rkeeps (\<lambda>(d, c). sync_inv E c \<and> (d \<longrightarrow> is_delivered_by_hash (hx_storage c) (sp_block_hash p))) sync_faults
    (synchs_on_receive_proposal E p b ba cx)"
proof (cases "synchs_check_proposal E p b cx")
  case (Inl f)
  with check_proposal_faults [OF assms(1), of p b] assms(1) show ?thesis
    by (simp add: synchs_on_receive_proposal_def)
next
  case (Inr ok)
  show ?thesis
  proof (cases ok)
    case True
    then have "sp_block_hash p = blk_hash b" using check_proposal_accepts(1) Inr by metis
    with Inr assms show ?thesis by (auto simp: synchs_on_receive_proposal_def Let_def intro!: skeeps_new_valid)
  qed (use Inr assms(1) in \<open>simp add: synchs_on_receive_proposal_def\<close>)
qed

lemma skeeps_add_vote:
  assumes "sync_inv E cx" and "took_vote E c h cx"
  shows "skeeps E (synchs_add_vote c h cx)"
proof (cases "fmlookup (vote_map cx) h")
  case None
  with assms show ?thesis by (auto simp: synchs_add_vote_def took_vote_def intro: sync_inv_vote)
next
  case (Some cert)
  obtain vt where vt: "pop_vote c = Inr vt" "signed_vote E (hx_keys cx) h vt"
    using took_vote_pop [OF assms(2)] by metis
  let ?cert = "cert\<lparr>cert_votes := cert_votes cert @ [vt]\<rparr>" and ?cx = "cx\<lparr>vote_map := fmdrop h (vote_map cx)\<rparr>"
  have cf: "cert_for E (hx_keys cx) h ?cert" and del: "is_delivered_by_hash (hx_storage cx) h"
    using assms Some vt(2) by (auto simp: sync_inv_def sync_votes_ok_def took_vote_def intro: cert_for_add)
  have inv: "sync_inv E ?cx" by (rule sync_inv_drop_vote [OF assms(1)])
  have "sync_inv E (?cx\<lparr>cert_map := fmupd h ?cert (cert_map ?cx), last_seen_cert := ?cert\<rparr>)"
    if "hx_num_faults cx < Suc (length (cert_votes cert))"
    using sync_inv_cert [OF inv _ _, of h ?cert] cf del that by simp
  moreover have "sync_inv E (?cx\<lparr>vote_map := fmupd h ?cert (vote_map ?cx)\<rparr>)"
    using sync_inv_vote [OF inv, of h ?cert] cf del by simp
  ultimately show ?thesis using Some vt(1) assms(1) by (simp add: synchs_add_vote_def Let_def)
qed

lemma skeeps_process:
  assumes "sync_inv E cx" and "\<And>p b ba. m = SyNewProposal p b ba \<Longrightarrow> block_sealed E b"
  shows "skeeps E (synchs_process E m cx)"
proof (cases m)
  case (SyNewProposal p b ba)
  from skeeps_receive_proposal [OF assms(1) assms(2) [OF this], of p ba] show ?thesis
    unfolding synchs_process_def SyNewProposal
    by (auto intro!: rkeeps_bind sync_inv_timer)
next
  case (SyVoteMsg c p)
  have "rkeeps (\<lambda>(d, c). sync_inv E c) sync_faults (synchs_on_vote E c p cx)"
    unfolding synchs_on_vote_def
  proof (rule rkeeps_bind [OF vote_target_cases])
    fix t assume "case t of None \<Rightarrow> True | Some h \<Rightarrow> took_vote E c h cx"
    then show "rkeeps (\<lambda>(d, c). sync_inv E c) sync_faults
        (case t of None \<Rightarrow> Inr (False, cx) | Some h \<Rightarrow> rbind (synchs_add_vote c h cx) (\<lambda>cx. Inr (False, cx)))"
      using assms(1) by (cases t) (auto intro: rkeeps_bind [OF skeeps_add_vote])
  qed
  then show ?thesis unfolding synchs_process_def SyVoteMsg by (auto intro!: rkeeps_bind)
qed (use assms in \<open>simp_all add: synchs_process_def\<close>)

text \<open>The block that a leader builds on the last one it has seen.\<close>

definition child_block :: "ext \<Rightarrow> hash \<Rightarrow> 'z synchs_cx_scheme \<Rightarrow> block" where
  "child_block E bh cx =
     block_init E ((with_batch E bh)\<lparr>blk_header := (Header_new E)\<lparr>hdr_author := hx_myid cx,
       hdr_prev := blk_hash (hx_last_seen_block cx), hdr_height := blk_height (hx_last_seen_block cx) + 1\<rparr>\<rparr>)"

lemma child_block_simps [simp]:
  "block_sealed E (child_block E bh cx)" "blk_prev (child_block E bh cx) = blk_hash (hx_last_seen_block cx)"
  "blk_height (child_block E bh cx) = Suc (blk_height (hx_last_seen_block cx))"
  "blk_author (child_block E bh cx) = hx_myid cx" "blk_batch_hash (child_block E bh cx) = bh"
  by (simp_all add: child_block_def) (simp_all add: block_init_def with_batch_def)

text \<open>A proposal carries the certificate of the parent and a signature that the peers can verify.\<close>

lemma synchs_do_propose_total:
  assumes "sync_inv E cx" and "fmlookup (cert_map cx) (blk_hash (hx_last_seen_block cx)) = Some cert"
  shows "synchs_do_propose E bh ba cx = Inl Overflow \<and> 2 ^ 64 \<le> blk_height (hx_last_seen_block cx) + 1 \<or>
    (\<exists>p cx'. synchs_do_propose E bh ba cx = Inr (p, cx'))"
proof -
  obtain pk where "sign_verifies E (hx_secret cx) pk" using assms(1) by (auto simp: sync_inv_defs)
  then have sg: "\<exists>s. sk_sign E (hx_secret cx) m = Some s" for m by (auto simp: sign_verifies_def)
  show ?thesis
  proof (cases "blk_height (hx_last_seen_block cx) + 1 < 2 ^ 64")
    case True
    let ?b = "child_block E bh cx"
    obtain s where "sk_sign E (hx_secret cx) (blk_hash ?b) = Some s" using sg by blast
    moreover obtain vt where "own_vote E ''Failed to sign the new proposal'' (blk_hash ?b) cx = Inr vt"
      by (rule own_vote_ok [OF assms(1)])
    ultimately show ?thesis
      using True assms(2) by (simp add: synchs_do_propose_def Let_def add_u64_ok child_block_def with_batch_def)
  qed (simp add: synchs_do_propose_def Let_def add_u64_def)
qed

lemma skeeps_do_propose:
  assumes "sync_inv E cx" and "fmmem (blk_hash (hx_last_seen_block cx)) (cert_map cx)"
  shows "rkeeps (\<lambda>(p, c). sync_inv E c \<and> is_delivered_by_hash (hx_storage c) (sp_block_hash p)) sync_faults
    (synchs_do_propose E bh ba cx)"
proof -
  obtain cert where cert: "fmlookup (cert_map cx) (blk_hash (hx_last_seen_block cx)) = Some cert"
    using assms(2) by (auto simp: fmmem_iff)
  from synchs_do_propose_total [OF assms(1) cert, of bh ba] show ?thesis
  proof (elim disjE exE)
    fix p cx' assume r: "synchs_do_propose E bh ba cx = Inr (p, cx')"
    then have c: "cx' = synchs_multicast E (SyNewProposal p (child_block E bh cx) ba) (synchs_deliver (child_block E bh cx) cx)"
      "sp_block_hash p = blk_hash (child_block E bh cx)"
      by (auto elim!: synchs_do_propose_result simp: child_block_def)
    have "is_delivered_by_hash (hx_storage cx) (blk_prev (child_block E bh cx))" using assms(1) by (simp add: sync_inv_def)
    from sync_inv_deliver [OF assms(1) child_block_simps(1) this] c r show ?thesis
      by (simp add: block_get_hash_def)
  qed (simp add: sync_faults_def)
qed

lemma skeeps_drain: "sync_inv E cx \<Longrightarrow> skeeps E (synchs_drain E cx)"
proof (induction E cx rule: synchs_drain.induct)
  case (1 E cx)
  show ?case
  proof (cases "synchs_next_leader cx = hx_myid cx \<and> fmmem (blk_hash (hx_last_seen_block cx)) (cert_map cx) \<and> bx_pending (hx_batch cx) \<noteq> []")
    case False
    with 1(2) show ?thesis by (auto simp: synchs_drain.simps [of E cx] split: list.splits)
  next
    case True
    then obtain bh ba rest where pend: "bx_pending (hx_batch cx) = (bh, ba) # rest" by (cases "bx_pending (hx_batch cx)") auto
    let ?cx = "cx\<lparr>hx_batch := (hx_batch cx)\<lparr>bx_pending := rest\<rparr>\<rparr>"
    have "rkeeps (\<lambda>(p, c). sync_inv E c \<and> is_delivered_by_hash (hx_storage c) (sp_block_hash p)) sync_faults
        (synchs_do_propose E bh ba ?cx)"
      using 1(2) True by (intro skeeps_do_propose) simp_all
    then have "skeeps E (rbind (synchs_do_propose E bh ba ?cx) (\<lambda>(p, cx). synchs_drain E (start_timer p cx)))"
    proof (rule rkeeps_bind, clarify)
      fix p c assume "synchs_do_propose E bh ba ?cx = Inr (p, c)" "sync_inv E c" "is_delivered_by_hash (hx_storage c) (sp_block_hash p)"
      with 1(1) [OF _ pend refl, of "(p, c)" p c] True show "skeeps E (synchs_drain E (start_timer p c))"
        by (auto intro: sync_inv_timer)
    qed
    with True pend show ?thesis by (simp add: synchs_drain.simps [of E cx])
  qed
qed

end
