(* ===== verification/Sync_Safety.thy ===== *)
theory Sync_Safety
  imports Sync_Laws
begin

text \<open>
  The Opt Sync node keeps the same invariant, with one more clause for its responsive
  certificates; the reactor loop of the two nodes as one interface; and the properties that hold
  in every reachable state of either.
\<close>

section \<open>Opt Sync\<close>

definition resp_ok :: "ext \<Rightarrow> optsync_cx \<Rightarrow> bool" where
  "resp_ok E cx \<longleftrightarrow>
     (\<forall>h c. fmlookup (resp_cert cx) h = Some c \<longrightarrow>
        cert_for E (hx_keys cx) h c \<and> 3 * hx_num_nodes cx div 4 \<le> length (cert_votes c))"

definition opt_inv :: "ext \<Rightarrow> optsync_cx \<Rightarrow> bool" where
  "opt_inv E cx \<longleftrightarrow> sync_inv E cx \<and> resp_ok E cx"

abbreviation okeeps :: "ext \<Rightarrow> optsync_cx res \<Rightarrow> bool" where
  "okeeps E \<equiv> rkeeps (opt_inv E) sync_faults"

lemma sync_inv_resp [simp]: "sync_inv E (cx\<lparr>resp_cert := r\<rparr>) = sync_inv E cx"
  by (simp add: sync_inv_defs)

lemma resp_ok_frame [simp]:
  "resp_ok E (cx\<lparr>hx_batch := x\<rparr>) = resp_ok E cx" "resp_ok E (cx\<lparr>last_seen_cert := c\<rparr>) = resp_ok E cx"
  "resp_ok E (cx\<lparr>hx_height := ht\<rparr>) = resp_ok E cx" "resp_ok E (cx\<lparr>last_committed_block_ht := ht\<rparr>) = resp_ok E cx"
  "resp_ok E (cx\<lparr>vote_map := m\<rparr>) = resp_ok E cx" "resp_ok E (cx\<lparr>cert_map := m\<rparr>) = resp_ok E cx"
  "resp_ok E (cx\<lparr>hx_last_seen_block := b\<rparr>) = resp_ok E cx" "resp_ok E (synchs_deliver b cx) = resp_ok E cx"
  "resp_ok E (synchs_multicast E' msg cx) = resp_ok E cx" "resp_ok E (start_timer p cx) = resp_ok E cx"
  by (simp_all add: resp_ok_def synchs_deliver_def synchs_multicast_def start_timer_def)

lemma resp_ok_commit [simp]: "resp_ok E (synchs_on_commit E p cx) = resp_ok E cx"
  by (cases rule: synchs_on_commit_cases [of E p cx]) (simp_all add: resp_ok_def)

lemma opt_inv_batch [simp]: "opt_inv E (cx\<lparr>hx_batch := x\<rparr>) = opt_inv E cx"
  by (simp add: opt_inv_def)

lemma opt_inv_commit: "opt_inv E cx \<Longrightarrow> opt_inv E (synchs_on_commit E p cx)"
  by (simp add: opt_inv_def sync_inv_commit)

lemma opt_inv_timer: "opt_inv E cx \<Longrightarrow> opt_inv E (synchs_timer E i cx)"
  using sync_inv_synchs_timer [of E cx i] by (simp add: opt_inv_def synchs_timer_def) (simp add: resp_ok_def)

text \<open>The own vote of an accepted proposal is the first for its block.\<close>

lemma okeeps_new_valid:
  assumes "opt_inv E cx" and "block_sealed E b" and "sp_block_hash p = blk_hash b"
    and "\<not> is_delivered_by_hash (hx_storage cx) (blk_hash b)"
  shows "rkeeps (\<lambda>(d, c). opt_inv E c \<and> (d \<longrightarrow> is_delivered_by_hash (hx_storage c) (blk_hash b))) sync_faults
    (optsync_on_new_valid_proposal E p b cx)"
proof (cases "is_delivered_by_hash (hx_storage cx) (blk_prev b)")
  case True
  have inv: "sync_inv E cx" using assms(1) by (simp add: opt_inv_def)
  obtain vt where vt: "own_vote E ''Failed to sign a vote'' (blk_hash b) cx = Inr vt" "cert_for E (hx_keys cx) (blk_hash b) vt"
    by (rule own_vote_ok [OF inv])
  have fresh: "\<not> fmmem (blk_hash b) (vote_map cx)"
    using inv assms(4) by (cases "fmlookup (vote_map cx) (blk_hash b)") (auto simp: sync_inv_def sync_votes_ok_def fmmem_def)
  let ?c = "(synchs_deliver b cx)\<lparr>hx_height := blk_height b, hx_last_seen_block := b, last_seen_cert := sp_cert p\<rparr>"
  have "sync_inv E (?c\<lparr>vote_map := fmupd (blk_hash b) vt (vote_map ?c)\<rparr>)"
    using vt(2) by (intro sync_inv_vote sync_inv_accept [OF inv assms(2) True]) (simp_all add: block_get_hash_def)
  moreover have "(synchs_deliver b (cx\<lparr>vote_map := fmupd (blk_hash b) vt (vote_map cx)\<rparr>))
      \<lparr>hx_height := blk_height b, hx_last_seen_block := b, last_seen_cert := sp_cert p\<rparr> = ?c\<lparr>vote_map := fmupd (blk_hash b) vt (vote_map ?c)\<rparr>"
    by (simp add: synchs_deliver_def)
  ultimately show ?thesis
    using True vt(1) fresh assms(1,3)
    by (simp add: optsync_on_new_valid_proposal_def optsync_shared Let_def opt_inv_def block_get_hash_def)
qed (use assms in \<open>simp add: optsync_on_new_valid_proposal_def\<close>)

lemma okeeps_receive_proposal:
  assumes "opt_inv E cx" and "block_sealed E b"
  shows "rkeeps (\<lambda>(d, c). opt_inv E c \<and> (d \<longrightarrow> is_delivered_by_hash (hx_storage c) (sp_block_hash p))) sync_faults
    (optsync_on_receive_proposal E p b ba cx)"
proof (cases "synchs_check_proposal E p b cx")
  case (Inl f)
  with check_proposal_faults [of E cx p b] assms(1) show ?thesis
    by (simp add: optsync_on_receive_proposal_def optsync_shared opt_inv_def)
next
  case (Inr ok)
  show ?thesis
  proof (cases ok)
    case True
    then have "sp_block_hash p = blk_hash b" using check_proposal_accepts(1) Inr by metis
    with Inr assms show ?thesis
      by (auto simp: optsync_on_receive_proposal_def optsync_shared Let_def intro!: okeeps_new_valid)
  qed (use Inr assms(1) in \<open>simp add: optsync_on_receive_proposal_def optsync_shared\<close>)
qed

lemma okeeps_add_vote:
  assumes "opt_inv E cx" and "took_vote E c h cx"
  shows "rkeeps (\<lambda>(d, c). opt_inv E c) sync_faults (optsync_add_vote c h cx)"
proof (cases "fmlookup (vote_map cx) h")
  case None
  with assms show ?thesis by (auto simp: optsync_add_vote_def took_vote_def opt_inv_def intro: sync_inv_vote)
next
  case (Some cert)
  have inv: "sync_inv E cx" and resp: "resp_ok E cx" using assms(1) by (auto simp: opt_inv_def)
  obtain vt where vt: "pop_vote c = Inr vt" "signed_vote E (hx_keys cx) h vt"
    using took_vote_pop [OF assms(2)] by metis
  let ?cert = "cert\<lparr>cert_votes := cert_votes cert @ [vt]\<rparr>"
  have cf: "cert_for E (hx_keys cx) h ?cert" and del: "is_delivered_by_hash (hx_storage cx) h"
    using inv assms(2) Some vt(2) by (auto simp: sync_inv_def sync_votes_ok_def took_vote_def intro: cert_for_add)
  define c0 where "c0 = cx\<lparr>vote_map := fmdrop h (vote_map cx)\<rparr>"
  define c1 where "c1 = (if 3 * hx_num_nodes cx div 4 \<le> length (cert_votes ?cert) then c0\<lparr>resp_cert := fmupd h ?cert (resp_cert c0)\<rparr> else c0)"
  define c2 where "c2 = (if hx_num_faults cx < length (cert_votes ?cert)
    then c1\<lparr>cert_map := fmupd h ?cert (cert_map c1), last_seen_cert := ?cert\<rparr> else c1)"
  have same: "hx_storage c1 = hx_storage cx" "hx_net c1 = hx_net cx" "hx_storage c2 = hx_storage cx" "hx_net c2 = hx_net cx"
    by (simp_all add: c0_def c1_def c2_def)
  have "sync_inv E c1" by (simp add: c1_def c0_def sync_inv_drop_vote [OF inv])
  then have "sync_inv E c2" using cf del by (simp add: c2_def same sync_inv_cert)
  then have "sync_inv E (c2\<lparr>vote_map := fmupd h ?cert (vote_map c2)\<rparr>)" using cf del by (intro sync_inv_vote) (simp_all add: same)
  moreover have "resp_ok E c0" using resp by (simp add: c0_def)
  then have "resp_ok E c1" using cf by (simp add: c1_def resp_ok_def) (simp add: c0_def)
  then have "resp_ok E c2" by (simp add: c2_def)
  moreover have "optsync_add_vote c h cx = (if 3 * hx_num_nodes cx < 2 ^ 64
      then Inr (3 * hx_num_nodes cx div 4 \<le> length (cert_votes ?cert), c2\<lparr>vote_map := fmupd h ?cert (vote_map c2)\<rparr>) else Inl Overflow)"
    using Some vt(1) by (simp add: optsync_add_vote_def Let_def mul_u64_def c2_def c1_def c0_def)
  ultimately show ?thesis by (simp add: opt_inv_def sync_faults_def)
qed

lemma okeeps_process:
  assumes "opt_inv E cx" and "\<And>p b ba. m = SyNewProposal p b ba \<Longrightarrow> block_sealed E b"
  shows "okeeps E (optsync_process_msg E m cx)"
proof (cases m)
  case (SyNewProposal p b ba)
  from okeeps_receive_proposal [OF assms(1) assms(2) [OF this], of p ba] show ?thesis
    unfolding optsync_process_msg_def SyNewProposal
    by (auto intro!: rkeeps_bind simp: opt_inv_def intro: sync_inv_timer)
next
  case (SyVoteMsg c p)
  have "rkeeps (\<lambda>(d, c). opt_inv E c) sync_faults (optsync_on_vote E c p cx)"
    unfolding optsync_on_vote_def optsync_shared
  proof (rule rkeeps_bind [OF vote_target_cases])
    fix t assume "case t of None \<Rightarrow> True | Some h \<Rightarrow> took_vote E c h cx"
    then show "rkeeps (\<lambda>(d, c). opt_inv E c) sync_faults (case t of None \<Rightarrow> Inr (False, cx)
        | Some h \<Rightarrow> if fmmem h (resp_cert cx) then Inr (False, cx) else optsync_add_vote c h cx)"
      using assms(1) by (cases t) (auto intro: okeeps_add_vote)
  qed
  then show ?thesis unfolding optsync_process_msg_def SyVoteMsg
    by (auto intro!: rkeeps_bind opt_inv_commit simp: optsync_shared)
qed (use assms in \<open>simp_all add: optsync_process_msg_def\<close>)

lemma optsync_do_propose_total:
  assumes "sync_inv E cx" and "fmlookup (cert_map cx) (blk_hash (hx_last_seen_block cx)) = Some cert"
  shows "optsync_do_propose E bh ba cx = Inl Overflow \<and> 2 ^ 64 \<le> blk_height (hx_last_seen_block cx) + 1 \<or>
    (\<exists>p cx'. optsync_do_propose E bh ba cx = Inr (p, cx'))"
proof -
  obtain pk where "sign_verifies E (hx_secret cx) pk" using assms(1) by (auto simp: sync_inv_defs)
  then have sg: "\<exists>s. sk_sign E (hx_secret cx) m = Some s" for m by (auto simp: sign_verifies_def)
  show ?thesis
  proof (cases "blk_height (hx_last_seen_block cx) + 1 < 2 ^ 64")
    case True
    let ?b = "child_block E bh cx"
    obtain s where "sk_sign E (hx_secret cx) (blk_hash ?b) = Some s" using sg by blast
    moreover obtain vt where "own_vote E ''Failed to sign the new proposal'' (blk_hash ?b) cx = Inr vt"
      by (rule own_vote_ok [OF assms(1)])
    ultimately show ?thesis
      using True assms(2) by (simp add: optsync_do_propose_def Let_def add_u64_ok child_block_def with_batch_def)
  qed (simp add: optsync_do_propose_def Let_def add_u64_def)
qed

lemma okeeps_do_propose:
  assumes "opt_inv E cx" and "fmmem (blk_hash (hx_last_seen_block cx)) (cert_map cx)"
  shows "rkeeps (\<lambda>(p, c). opt_inv E c) sync_faults (optsync_do_propose E bh ba cx)"
proof -
  have inv: "sync_inv E cx" and resp: "resp_ok E cx" using assms(1) by (auto simp: opt_inv_def)
  obtain cert where cert: "fmlookup (cert_map cx) (blk_hash (hx_last_seen_block cx)) = Some cert"
    using assms(2) by (auto simp: fmmem_iff)
  from optsync_do_propose_total [OF inv cert, of bh ba] show ?thesis
  proof (elim disjE exE)
    fix p cx' assume r: "optsync_do_propose E bh ba cx = Inr (p, cx')"
    let ?b = "child_block E bh cx"
    from r obtain vt where vt: "own_vote E ''Failed to sign the new proposal'' (blk_hash ?b) cx = Inr vt"
      and p: "sp_block_hash p = blk_hash ?b" and cx': "cx' = start_timer p (optsync_multicast E (SyNewProposal p ?b ba)
       ((synchs_deliver ?b cx)\<lparr>vote_map := fmupd (blk_hash ?b) vt (vote_map cx), hx_height := blk_height ?b,
         hx_last_seen_block := ?b, last_committed_block_ht := blk_height ?b\<rparr>))"
      by (auto elim!: optsync_do_propose_result simp: child_block_def)
    have cf: "cert_for E (hx_keys cx) (blk_hash ?b) vt"
      by (rule own_vote_ok [OF inv, of "''Failed to sign the new proposal''" "blk_hash ?b"]) (use vt in simp)
    let ?c = "synchs_deliver ?b cx"
    have del: "is_delivered_by_hash (hx_storage ?c) (blk_hash ?b)" by (simp add: block_get_hash_def)
    have "sync_inv E ?c" using inv by (intro sync_inv_deliver) (simp_all add: sync_inv_def)
    then have "sync_inv E (?c\<lparr>vote_map := fmupd (blk_hash ?b) vt (vote_map ?c)\<rparr>)"
      using cf del by (intro sync_inv_vote) simp_all
    then have "sync_inv E (?c\<lparr>vote_map := fmupd (blk_hash ?b) vt (vote_map ?c), hx_height := blk_height ?b, hx_last_seen_block := ?b\<rparr>)"
      using del by (intro sync_inv_seen) simp_all
    then have "sync_inv E cx'" using del by (simp add: cx' optsync_shared p sync_inv_timer)
    with r resp show ?thesis by (simp add: opt_inv_def cx' optsync_shared)
  qed (simp add: sync_faults_def)
qed

lemma okeeps_drain: "opt_inv E cx \<Longrightarrow> okeeps E (optsync_drain E cx)"
proof (induction E cx rule: optsync_drain.induct)
  case (1 E cx)
  show ?case
  proof (cases "optsync_next_leader cx = hx_myid cx \<and> fmmem (blk_hash (hx_last_seen_block cx)) (cert_map cx) \<and> bx_pending (hx_batch cx) \<noteq> []")
    case False
    with 1(2) show ?thesis by (auto simp: optsync_drain.simps [of E cx] split: list.splits)
  next
    case True
    then obtain bh ba rest where pend: "bx_pending (hx_batch cx) = (bh, ba) # rest" by (cases "bx_pending (hx_batch cx)") auto
    let ?cx = "cx\<lparr>hx_batch := (hx_batch cx)\<lparr>bx_pending := rest\<rparr>\<rparr>"
    have "rkeeps (\<lambda>(p, c). opt_inv E c) sync_faults (optsync_do_propose E bh ba ?cx)"
      using 1(2) True by (intro okeeps_do_propose) simp_all
    then have "okeeps E (rbind (optsync_do_propose E bh ba ?cx) (\<lambda>(p, cx). optsync_drain E cx))"
    proof (rule rkeeps_bind, clarify)
      fix p c assume "optsync_do_propose E bh ba ?cx = Inr (p, c)" "opt_inv E c"
      with 1(1) [OF _ pend refl, of "(p, c)" p c] True show "okeeps E (optsync_drain E c)" by auto
    qed
    with True pend show ?thesis by (simp add: optsync_drain.simps [of E cx])
  qed
qed

section \<open>The reactor\<close>

text \<open>
  The loop body that both reactors have, over the operations of a node, and the interface: every
  operation keeps an invariant or ends in one of the known faults. The mempool writes the shared
  batch cache between two iterations.
\<close>

definition sync_loop ::
  "(sync_msg \<Rightarrow> 'c \<Rightarrow> 'c res) \<Rightarrow> ('c \<Rightarrow> 'c res) \<Rightarrow> (nat \<Rightarrow> 'c \<Rightarrow> 'c) \<Rightarrow> (hash \<Rightarrow> cached_batch \<Rightarrow> 'c \<Rightarrow> 'c) \<Rightarrow>
   sync_event \<Rightarrow> 'c \<Rightarrow> 'c reactor_outcome res" where
  "sync_loop process drain fire enqueue ev cx =
     (let continue = (\<lambda>cx. rbind (drain cx) (\<lambda>cx. Inr (Continue cx)))
      in case ev of
           SyNet m \<Rightarrow> rbind (process m cx) continue
         | SyNetError \<Rightarrow> Inr (Continue cx)
         | SyNetClosed \<Rightarrow> Inr ReactorBreak
         | SyBatchReady bh batch \<Rightarrow> continue (enqueue bh batch cx)
         | SyMempoolClosed \<Rightarrow> Inr ReactorBreak
         | SyTimer i \<Rightarrow> continue (fire i cx)
         | SyTimerError \<Rightarrow> Inr (Continue cx))"

definition enqueue_batch :: "hash \<Rightarrow> cached_batch \<Rightarrow> 'z synchs_cx_scheme \<Rightarrow> 'z synchs_cx_scheme" where
  "enqueue_batch bh ba cx = cx\<lparr>hx_batch := (hx_batch cx)\<lparr>bx_pending := bx_pending (hx_batch cx) @ [(bh, ba)]\<rparr>\<rparr>"

lemma synchs_loop: "synchs_reactor_step E = sync_loop (synchs_process E) (synchs_drain E) (synchs_timer E) enqueue_batch"
  by (intro ext) (simp add: synchs_reactor_step_def sync_loop_def enqueue_batch_def split: sync_event.split)

lemma optsync_loop: "optsync_reactor_step E = sync_loop (optsync_process_msg E) (optsync_drain E) (optsync_timer E) enqueue_batch"
  by (intro ext) (simp add: optsync_reactor_step_def sync_loop_def enqueue_batch_def split: sync_event.split)

text \<open>Blocks that arrive over the network went through \<open>Deserialize\<close> and carry their own hash.\<close>

fun sync_msg_sealed :: "ext \<Rightarrow> sync_msg \<Rightarrow> bool" where
  "sync_msg_sealed E (SyNewProposal p b ba) = block_sealed E b"
| "sync_msg_sealed E _ = True"

fun sync_event_sealed :: "ext \<Rightarrow> sync_event \<Rightarrow> bool" where
  "sync_event_sealed E (SyNet m) = sync_msg_sealed E m"
| "sync_event_sealed E _ = True"

fun loop_inv :: "('c \<Rightarrow> bool) \<Rightarrow> 'c reactor_outcome \<Rightarrow> bool" where
  "loop_inv P (Continue cx) = P cx"
| "loop_inv P _ = True"

locale sync_node =
  fixes E :: ext
    and process :: "sync_msg \<Rightarrow> 'c \<Rightarrow> 'c res"
    and drain :: "'c \<Rightarrow> 'c res"
    and fire :: "nat \<Rightarrow> 'c \<Rightarrow> 'c"
    and enqueue :: "hash \<Rightarrow> cached_batch \<Rightarrow> 'c \<Rightarrow> 'c"
    and inv :: "'c \<Rightarrow> bool"
    and faults :: "fault set"
  assumes process_keeps: "inv cx \<Longrightarrow> sync_msg_sealed E m \<Longrightarrow> rkeeps inv faults (process m cx)"
    and drain_keeps: "inv cx \<Longrightarrow> rkeeps inv faults (drain cx)"
    and fire_keeps: "inv cx \<Longrightarrow> inv (fire i cx)"
    and enqueue_keeps: "inv cx \<Longrightarrow> inv (enqueue bh ba cx)"
begin

lemma loop_keeps:
  assumes "inv cx" and "sync_event_sealed E ev"
  shows "rkeeps (loop_inv inv) faults (sync_loop process drain fire enqueue ev cx)"
proof -
  have go: "rkeeps (loop_inv inv) faults (rbind (drain c) (\<lambda>c. Inr (Continue c)))" if "inv c" for c
    by (rule rkeeps_bind [OF drain_keeps [OF that]]) simp
  show ?thesis
  proof (cases ev)
    case (SyNet m)
    with assms have "rkeeps inv faults (process m cx)" by (intro process_keeps) simp_all
    from rkeeps_bind [OF this go] SyNet show ?thesis by (simp add: sync_loop_def)
  qed (use assms(1) go fire_keeps enqueue_keeps in \<open>simp_all add: sync_loop_def\<close>)
qed

lemma loop_continue:
  assumes "inv cx" and "sync_event_sealed E ev" and "sync_loop process drain fire enqueue ev cx = Inr (Continue cx')"
  shows "inv cx'"
  using loop_keeps [OF assms(1,2)] assms(3) by simp

lemma loop_fault:
  assumes "inv cx" and "sync_event_sealed E ev" and "sync_loop process drain fire enqueue ev cx = Inl f"
  shows "f \<in> faults"
  using loop_keeps [OF assms(1,2)] assms(3) by simp

end

interpretation synchs: sync_node E "synchs_process E" "synchs_drain E" "synchs_timer E" enqueue_batch "sync_inv E" sync_faults
  for E
proof unfold_locales
  fix cx :: synchs_cx and m i bh ba
  assume inv: "sync_inv E cx"
  show "skeeps E (synchs_process E m cx)" if "sync_msg_sealed E m" using inv that by (intro skeeps_process) auto
  show "skeeps E (synchs_drain E cx)" using inv by (rule skeeps_drain)
  show "sync_inv E (synchs_timer E i cx)" using inv by (rule sync_inv_synchs_timer)
  show "sync_inv E (enqueue_batch bh ba cx)" using inv by (simp add: enqueue_batch_def)
qed

interpretation optsync: sync_node E "optsync_process_msg E" "optsync_drain E" "optsync_timer E" enqueue_batch "opt_inv E" sync_faults
  for E
proof unfold_locales
  fix cx :: optsync_cx and m i bh ba
  assume inv: "opt_inv E cx"
  show "okeeps E (optsync_process_msg E m cx)" if "sync_msg_sealed E m" using inv that by (intro okeeps_process) auto
  show "okeeps E (optsync_drain E cx)" using inv by (rule okeeps_drain)
  show "opt_inv E (optsync_timer E i cx)" using inv by (simp add: optsync_shared opt_inv_timer)
  show "opt_inv E (enqueue_batch bh ba cx)" using inv by (simp add: enqueue_batch_def)
qed

end
