(* ===== verification/Sync_Properties.thy ===== *)
theory Sync_Properties
  imports Sync_Safety
begin

text \<open>
  The Sync HotStuff and the Opt Sync node as step systems, and the properties of everything they
  can reach: authentic certificates, one notification per commit, what an accepted proposal
  satisfies, possible faults, a round between leader and replica, and what the code's gaps allow.
\<close>

section \<open>The nodes as step systems\<close>

text \<open>A configuration with a key for every replica, in which the node's own keys belong together.\<close>

definition sync_config_ok :: "ext \<Rightarrow> node_config \<Rightarrow> (replica \<times> bytes) list \<Rightarrow> client_id list \<Rightarrow> bool" where
  "sync_config_ok E config pks cids \<longleftrightarrow>
     config_ok config pks \<and> distinct cids \<and>
     (\<forall>sk keys. decode_secret E (nc_crypto_alg config) (nc_secret_key_bytes config) = Inr sk \<longrightarrow>
        decode_all_keys E (nc_crypto_alg config) pks = Inr keys \<longrightarrow>
        (\<exists>pk. fmlookup keys (nc_id config) = Some pk \<and> sign_verifies E sk pk))"

definition synchs_init :: "ext \<Rightarrow> synchs_cx \<Rightarrow> bool" where
  "synchs_init E cx \<longleftrightarrow>
     (\<exists>config pks cids cache st. sync_config_ok E config pks cids \<and>
        synchs_reactor_start E config pks cids cache st = Inr cx)"

definition optsync_init :: "ext \<Rightarrow> optsync_cx \<Rightarrow> bool" where
  "optsync_init E cx \<longleftrightarrow>
     (\<exists>config pks cids cache st. sync_config_ok E config pks cids \<and>
        optsync_Context_new E config pks cids cache st = Inr cx)"

text \<open>A node reacts to an event, or the mempool writes the batch cache they share.\<close>

inductive synchs_step :: "ext \<Rightarrow> synchs_cx \<Rightarrow> synchs_cx \<Rightarrow> bool" for E where
  synchs_reacts:
    "sync_event_sealed E ev \<Longrightarrow> synchs_reactor_step E ev cx = Inr (Continue cx') \<Longrightarrow> synchs_step E cx cx'"
| synchs_caches:
    "synchs_step E cx (cx\<lparr>hx_batch := (hx_batch cx)\<lparr>bx_cache := cache_insert h b (bx_cache (hx_batch cx))\<rparr>\<rparr>)"

inductive optsync_step :: "ext \<Rightarrow> optsync_cx \<Rightarrow> optsync_cx \<Rightarrow> bool" for E where
  optsync_reacts:
    "sync_event_sealed E ev \<Longrightarrow> optsync_reactor_step E ev cx = Inr (Continue cx') \<Longrightarrow> optsync_step E cx cx'"
| optsync_caches:
    "optsync_step E cx (cx\<lparr>hx_batch := (hx_batch cx)\<lparr>bx_cache := cache_insert h b (bx_cache (hx_batch cx))\<rparr>\<rparr>)"

lemma decode_all_keys_lookup:
  assumes "decode_all_keys E alg pks = Inr m"
  shows "fmmem i m \<longleftrightarrow> i \<in> fst ` set pks"
proof -
  let ?f = "\<lambda>(i, bs) m. rbind (decode_public E alg bs) (\<lambda>pk. Inr (fmupd i pk m))"
  have "fmmem i m \<longleftrightarrow> i \<in> fst ` set pks \<or> fmmem i m0" if "rfold ?f pks m0 = Inr m" for m0
    using that
  proof (induction pks arbitrary: m0)
    case (Cons e pks)
    obtain j bs where e: "e = (j, bs)" by (cases e)
    with Cons.prems obtain pk where "rfold ?f pks (fmupd j pk m0) = Inr m" by auto
    with Cons.IH show ?case by (auto simp: e)
  qed simp
  from this [OF assms [unfolded decode_all_keys_def]] show ?thesis by simp
qed

definition genesis_storage :: "ext \<Rightarrow> block storage" where
  "genesis_storage E = add_committed_block block_get_hash block_get_height (GENESIS_BLOCK E)
     (add_delivered_block block_get_hash block_get_height (GENESIS_BLOCK E) Storage_new)"

lemma genesis_storage_simps [simp]:
  "delivered_block_from_hash (genesis_storage E) h = (if h = EMPTY_HASH E then Some (GENESIS_BLOCK E) else None)"
  "is_delivered_by_hash (genesis_storage E) h \<longleftrightarrow> h = EMPTY_HASH E"
  "is_committed_by_hash (genesis_storage E) h \<longleftrightarrow> h = EMPTY_HASH E"
  by (auto simp: genesis_storage_def block_get_hash_def GENESIS_BLOCK_def)

text \<open>Both constructors give a context that satisfies the invariant.\<close>

lemma sync_inv_fresh:
  assumes "sync_config_ok E config pks cids"
    and "decode_secret E (nc_crypto_alg config) (nc_secret_key_bytes config) = Inr sk"
    and "decode_all_keys E (nc_crypto_alg config) pks = Inr keys"
    and "hx_keys cx = keys" "hx_secret cx = sk" "hx_num_nodes cx = nc_num_nodes config" "hx_myid cx = nc_id config"
    and "hx_storage cx = genesis_storage E" "hx_last_seen_block cx = GENESIS_BLOCK E" "hx_view cx = 0" "last_leader cx = 0"
    and "vote_map cx = fmempty" "cert_map cx = fmupd (EMPTY_HASH E) empty_cert fmempty" "commit_queue cx = []"
    and "all_clients (hx_client_net cx) = cids" "client_sent (hx_client_net cx) = []"
  shows "sync_inv E cx"
proof -
  have "sync_keys_ok E (hx_net cx)"
    using assms(1-7) decode_all_keys_lookup [OF assms(3)] by (auto simp: sync_config_ok_def config_ok_def sync_keys_ok_def)
  moreover have "sync_store_ok E (genesis_storage E)"
    by (simp add: sync_store_ok_def parents_delivered_def GENESIS_BLOCK_def)
  moreover have "sync_notified E cx"
    using assms(1,8,15,16) by (auto simp: sync_notified_def notified_def sync_config_ok_def)
  ultimately show ?thesis using assms(8-14) by (simp add: sync_inv_def sync_votes_ok_def GENESIS_BLOCK_def)
qed

lemma synchs_inv_start: "synchs_init E cx \<Longrightarrow> sync_inv E cx"
  by (auto simp: synchs_init_def synchs_reactor_start_def synchs_Context_new_def Let_def synchs_deliver_def
      synchs_commit_block_def genesis_storage_def GENESIS_BLOCK_def elim!: sync_inv_fresh)

lemma opt_inv_start:
  assumes "optsync_init E cx"
  shows "opt_inv E cx"
proof -
  have "sync_inv E cx"
    using assms by (auto simp: optsync_init_def optsync_Context_new_def Let_def synchs_deliver_def
      synchs_commit_block_def genesis_storage_def GENESIS_BLOCK_def elim!: sync_inv_fresh)
  moreover have "resp_cert cx = fmempty"
    using assms by (auto simp: optsync_init_def optsync_Context_new_def Let_def synchs_deliver_def synchs_commit_block_def)
  ultimately show ?thesis by (simp add: opt_inv_def resp_ok_def)
qed

interpretation synchs_sys: step_system "synchs_init E" "synchs_step E" "sync_inv E" for E
proof unfold_locales
  fix cx cx' :: synchs_cx
  show "sync_inv E cx" if "synchs_init E cx" using that by (rule synchs_inv_start)
  show "sync_inv E cx'" if "sync_inv E cx" "synchs_step E cx cx'"
    using that(2,1) by (cases rule: synchs_step.cases) (auto simp: synchs_loop dest: synchs.loop_continue)
qed

interpretation optsync_sys: step_system "optsync_init E" "optsync_step E" "opt_inv E" for E
proof unfold_locales
  fix cx cx' :: optsync_cx
  show "opt_inv E cx" if "optsync_init E cx" using that by (rule opt_inv_start)
  show "opt_inv E cx'" if "opt_inv E cx" "optsync_step E cx cx'"
    using that(2,1) by (cases rule: optsync_step.cases) (auto simp: optsync_loop dest: optsync.loop_continue)
qed

section \<open>Properties\<close>

text \<open>
  C20: In every reachable state of an Opt Sync node, a certificate held for a block other than the
  genesis block names that block and has more than \<open>num_faults\<close> votes, a responsive certificate has
  at least three quarters of the replicas' number of votes, every one of these votes carries a
  valid signature of a known replica over a vote for that very block, and the block was delivered.
\<close>
theorem optsync_certificates_authentic:
  assumes "optsync_init E cx0" and "(optsync_step E)\<^sup>*\<^sup>* cx0 cx"
  shows "(\<forall>h c. fmlookup (cert_map cx) h = Some c \<and> h \<noteq> EMPTY_HASH E \<longrightarrow>
      is_delivered_by_hash (hx_storage cx) h \<and> (\<exists>v. cert_msg c = VoteCert v h) \<and>
      hx_num_faults cx < length (cert_votes c) \<and> (\<forall>vt\<in>set (cert_votes c). signed_vote E (hx_keys cx) h vt)) \<and>
    (\<forall>h c. fmlookup (resp_cert cx) h = Some c \<longrightarrow> (\<exists>v. cert_msg c = VoteCert v h) \<and>
      3 * hx_num_nodes cx div 4 \<le> length (cert_votes c) \<and> (\<forall>vt\<in>set (cert_votes c). signed_vote E (hx_keys cx) h vt))"
proof -
  have "opt_inv E cx" by (rule optsync_sys.inv_reachable [OF assms])
  then have "sync_votes_ok E cx" "resp_ok E cx" by (simp_all add: opt_inv_def sync_inv_def)
  then show ?thesis unfolding sync_votes_ok_def resp_ok_def cert_for_def by blast
qed

text \<open>
  C23: In every reachable state of a Sync HotStuff node, the announcements that the node has handed to
  its sender for a registered client name every committed block but the genesis block, each exactly
  once, and no other block; and only delivered blocks are committed. Whether a leg of the broadcast
  then reaches the client is up to the sender: a leg that fails is logged and not repeated.
\<close>
theorem synchs_clients_notified_once:
  assumes "synchs_init E cx0" and "(synchs_step E)\<^sup>*\<^sup>* cx0 cx"
  shows "(\<forall>c\<in>set (all_clients (hx_client_net cx)). distinct (notified c (hx_client_net cx)) \<and>
      set (notified c (hx_client_net cx)) = {h. is_committed_by_hash (hx_storage cx) h \<and> h \<noteq> EMPTY_HASH E}) \<and>
    (\<forall>h. is_committed_by_hash (hx_storage cx) h \<longrightarrow> is_delivered_by_hash (hx_storage cx) h)"
proof -
  have "sync_inv E cx" by (rule synchs_sys.inv_reachable [OF assms])
  then have "sync_notified E cx" "sync_store_ok E (hx_storage cx)" by (simp_all add: sync_inv_def)
  then show ?thesis unfolding sync_notified_def sync_store_ok_def by blast
qed

text \<open>
  C21: The only faults a reachable Opt Sync node can run into on any event are the view check and the
  kind of vote that the source calls unreachable, and a height counter that overflows. In
  particular the node never finds a vote of its own for a new block, never proposes on an
  uncertified parent, and never misses a key or a delivered block.
\<close>
theorem optsync_possible_faults:
  assumes "optsync_init E cx0" and "(optsync_step E)\<^sup>*\<^sup>* cx0 cx" and "sync_event_sealed E ev"
    and "optsync_reactor_step E ev cx = Inl f"
  shows "f \<in> {Panic ''This view check should be unreachable'', Panic ''other vote types cant be here'', Overflow}"
proof -
  have "opt_inv E cx" by (rule optsync_sys.inv_reachable [OF assms(1,2)])
  from optsync.loop_fault [OF this assms(3)] assms(4) show ?thesis by (simp add: optsync_loop sync_faults_def)
qed

text \<open>
  C22: A proposal that a reachable Sync HotStuff node accepts was made by the leader of view 0 and is
  signed by it, carries the batch the block names, was not delivered before, extends a delivered
  block, and above height 1 extends the last block seen and carries more than \<open>num_faults\<close> valid
  votes for that block from at least \<open>num_faults\<close> distinct replicas; accepting it delivers the block,
  makes it the last one seen and sends a vote to every peer.
\<close>
theorem synchs_accepts_only_certified:
  assumes "synchs_init E cx0" and "(synchs_step E)\<^sup>*\<^sup>* cx0 cx"
    and "synchs_on_receive_proposal E p b ba cx = Inr (True, cx')"
  shows "blk_author b = 0 \<and> (\<exists>pk. fmlookup (hx_keys cx) 0 = Some pk \<and> pk_verify E pk (blk_hash b) (sp_proof p)) \<and>
    fst (CachedBatch_hash E ba) = blk_batch_hash b \<and> \<not> is_delivered_by_hash (hx_storage cx) (blk_hash b) \<and>
    is_delivered_by_hash (hx_storage cx) (blk_prev b) \<and> (blk_height b = 1 \<longrightarrow> blk_prev b = EMPTY_HASH E) \<and>
    (1 < blk_height b \<longrightarrow> blk_prev b = blk_hash (hx_last_seen_block cx) \<and> hx_num_faults cx < length (cert_votes (sp_cert p)) \<and>
       certified_parent E (hx_keys cx) (hx_num_faults cx) p b) \<and>
    hx_last_seen_block cx' = b \<and> delivered_block_from_hash (hx_storage cx') (blk_hash b) = Some b \<and>
    (\<exists>vt. \<forall>d\<in>set (nx_broadcast_peers (hx_net cx)). (d, SyVoteMsg vt p) \<in> set (nx_sent (hx_net cx')))"
proof -
  have inv: "sync_inv E cx" by (rule synchs_sys.inv_reachable [OF assms(1,2)])
  from assms(3) have chk: "synchs_check_proposal E p b cx = Inr True" "\<not> is_delivered_by_hash (hx_storage cx) (blk_hash b)"
    "fst (CachedBatch_hash E ba) = blk_batch_hash b"
    by (auto simp: synchs_on_receive_proposal_def synchs_check_batch_hash_def split: if_splits)
  note acc = check_proposal_accepts [OF chk(1)]
  have "blk_author b = 0" using acc(2) inv by (auto simp: leader_of_view_def sync_inv_def split: if_splits)
  moreover from assms(3) chk obtain x where "synchs_on_new_valid_proposal E p b (cx\<lparr>hx_batch := x\<rparr>) = Inr (True, cx')"
    by (auto simp: synchs_on_receive_proposal_def synchs_check_batch_hash_def Let_def)
  then obtain vt where "is_delivered_by_hash (hx_storage cx) (blk_prev b)"
      "cx' = synchs_multicast E (SyVoteMsg vt p)
         ((synchs_deliver b (cx\<lparr>hx_batch := x\<rparr>))\<lparr>hx_height := blk_height b, hx_last_seen_block := b, last_seen_cert := sp_cert p\<rparr>)"
    by (auto elim!: synchs_accept_effect)
  then have "is_delivered_by_hash (hx_storage cx) (blk_prev b) \<and> hx_last_seen_block cx' = b \<and>
      delivered_block_from_hash (hx_storage cx') (blk_hash b) = Some b \<and>
      (\<exists>vt. \<forall>d\<in>set (nx_broadcast_peers (hx_net cx)). (d, SyVoteMsg vt p) \<in> set (nx_sent (hx_net cx')))"
    by (intro conjI exI [of _ vt]) (simp_all add: block_get_hash_def synchs_multicast_def)
  ultimately show ?thesis using chk(2,3) acc(4-7) by auto
qed

section \<open>A correct leader forks Sync HotStuff\<close>

lemma synchs_propose_step:
  assumes "sync_inv E cx" and "fmmem (blk_hash (hx_last_seen_block cx)) (cert_map cx)"
    and "blk_height (hx_last_seen_block cx) + 1 < 2 ^ 64"
  obtains p cx' where "synchs_do_propose E bh ba cx = Inr (p, cx')" "sync_inv E (start_timer p cx')"
    "cx' = synchs_multicast E (SyNewProposal p (child_block E bh cx) ba) (synchs_deliver (child_block E bh cx) cx)"
    "sp_block_hash p = blk_hash (child_block E bh cx)" "sp_view p = hx_view cx"
    "sk_sign E (hx_secret cx) (blk_hash (child_block E bh cx)) = Some (sp_proof p)"
    "fmlookup (cert_map cx) (blk_hash (hx_last_seen_block cx)) = Some (sp_cert p)"
proof -
  from assms(2) obtain cert where cert: "fmlookup (cert_map cx) (blk_hash (hx_last_seen_block cx)) = Some cert"
    by (auto simp: fmmem_iff)
  then obtain p cx' where r: "synchs_do_propose E bh ba cx = Inr (p, cx')"
    using synchs_do_propose_total [OF assms(1) cert, of bh ba] assms(3) by auto
  from skeeps_do_propose [OF assms(1,2), of bh ba] r have "sync_inv E (start_timer p cx')" by (auto intro: sync_inv_timer)
  with r that show thesis by (auto elim!: synchs_do_propose_result simp: child_block_def)
qed

text \<open>Proposing leaves alone what the next proposal depends on, and only adds messages.\<close>

definition same_proposer :: "synchs_cx \<Rightarrow> synchs_cx \<Rightarrow> bool" where
  "same_proposer cx cx' \<longleftrightarrow>
     hx_last_seen_block cx' = hx_last_seen_block cx \<and> cert_map cx' = cert_map cx \<and> hx_myid cx' = hx_myid cx \<and>
     hx_secret cx' = hx_secret cx \<and> nx_broadcast_peers (hx_net cx') = nx_broadcast_peers (hx_net cx) \<and>
     set (nx_sent (hx_net cx)) \<subseteq> set (nx_sent (hx_net cx'))"

text \<open>The leader turns every pending batch into a block on the same parent.\<close>

lemma synchs_drain_siblings:
  assumes "sync_inv E cx" and "fmmem (blk_hash (hx_last_seen_block cx)) (cert_map cx)" and "hx_myid cx = 0"
    and "blk_height (hx_last_seen_block cx) + 1 < 2 ^ 64" and "bx_pending (hx_batch cx) = pbs"
  shows "\<exists>cx'. synchs_drain E cx = Inr cx' \<and> same_proposer cx cx' \<and> bx_pending (hx_batch cx') = [] \<and>
    (\<forall>bh ba d. (bh, ba) \<in> set pbs \<longrightarrow> d \<in> set (nx_broadcast_peers (hx_net cx)) \<longrightarrow>
       (\<exists>p. (d, SyNewProposal p (child_block E bh cx) ba) \<in> set (nx_sent (hx_net cx')) \<and>
          sp_block_hash p = blk_hash (child_block E bh cx) \<and> sp_view p = 0 \<and>
          sk_sign E (hx_secret cx) (blk_hash (child_block E bh cx)) = Some (sp_proof p)))"
  using assms
proof (induction pbs arbitrary: cx)
  case Nil
  then show ?case by (simp add: synchs_drain.simps [of E cx] same_proposer_def)
next
  case (Cons e pbs)
  obtain bh ba where e: "e = (bh, ba)" by (cases e)
  let ?cx = "cx\<lparr>hx_batch := (hx_batch cx)\<lparr>bx_pending := pbs\<rparr>\<rparr>" and ?b = "child_block E bh cx"
  have lead: "last_leader cx = 0" "hx_view cx = 0" using Cons.prems(1) by (auto simp: sync_inv_def)
  have kid: "child_block E bh ?cx = ?b" by (simp add: child_block_def)
  obtain p c where p: "synchs_do_propose E bh ba ?cx = Inr (p, c)" "sync_inv E (start_timer p c)"
      "c = synchs_multicast E (SyNewProposal p ?b ba) (synchs_deliver ?b ?cx)"
      "sp_block_hash p = blk_hash ?b" "sp_view p = hx_view cx" "sk_sign E (hx_secret cx) (blk_hash ?b) = Some (sp_proof p)"
    by (rule synchs_propose_step [of E ?cx bh ba]) (use Cons.prems kid in simp_all)
  let ?c = "start_timer p c"
  have c: "hx_last_seen_block ?c = hx_last_seen_block cx" "cert_map ?c = cert_map cx" "hx_myid ?c = hx_myid cx"
    "bx_pending (hx_batch ?c) = pbs" "hx_secret ?c = hx_secret cx" "nx_broadcast_peers (hx_net ?c) = nx_broadcast_peers (hx_net cx)"
    "nx_sent (hx_net ?c) = nx_sent (hx_net cx) @ map (\<lambda>d. (d, SyNewProposal p ?b ba)) (nx_broadcast_peers (hx_net cx))"
    by (simp_all add: p(3) start_timer_def) (simp_all add: synchs_multicast_def)
  have same: "child_block E h ?c = child_block E h cx" for h by (simp add: child_block_def c)
  have "synchs_drain E cx = synchs_drain E ?c"
    using Cons.prems lead p(1) by (simp add: synchs_drain.simps [of E cx] synchs_next_leader_def e)
  moreover from Cons.IH [OF p(2)] Cons.prems obtain c' where c': "synchs_drain E ?c = Inr c'"
      "same_proposer ?c c'" "bx_pending (hx_batch c') = []"
      "\<And>bh ba d. (bh, ba) \<in> set pbs \<Longrightarrow> d \<in> set (nx_broadcast_peers (hx_net cx)) \<Longrightarrow>
       \<exists>p. (d, SyNewProposal p (child_block E bh cx) ba) \<in> set (nx_sent (hx_net c')) \<and>
          sp_block_hash p = blk_hash (child_block E bh cx) \<and> sp_view p = 0 \<and>
          sk_sign E (hx_secret cx) (blk_hash (child_block E bh cx)) = Some (sp_proof p)"
    by (auto simp: c(1-6) same)
  moreover have "same_proposer cx c'" using c'(2) c by (auto simp: same_proposer_def)
  moreover have "\<exists>q. (d, SyNewProposal q ?b ba) \<in> set (nx_sent (hx_net c')) \<and> sp_block_hash q = blk_hash ?b \<and> sp_view q = 0 \<and>
      sk_sign E (hx_secret cx) (blk_hash ?b) = Some (sp_proof q)" if "d \<in> set (nx_broadcast_peers (hx_net cx))" for d
    using that c'(2) c(7) p(4-6) lead by (intro exI [of _ p]) (auto simp: same_proposer_def)
  ultimately show ?case by (auto simp: e)
qed

definition first_proposal :: "ext \<Rightarrow> synchs_cx \<Rightarrow> sync_propose \<Rightarrow> block \<Rightarrow> cached_batch \<Rightarrow> bool" where
  "first_proposal E cx p b ba \<longleftrightarrow>
     block_sealed E b \<and> blk_height b = 1 \<and> blk_prev b = EMPTY_HASH E \<and> blk_author b = 0 \<and> sp_block_hash p = blk_hash b \<and>
     sp_view p = 0 \<and> (\<exists>pk. fmlookup (hx_keys cx) 0 = Some pk \<and> pk_verify E pk (blk_hash b) (sp_proof p)) \<and>
     fst (CachedBatch_hash E ba) = blk_batch_hash b \<and> \<not> is_delivered_by_hash (hx_storage cx) (blk_hash b)"

text \<open>A well-formed proposal of a block on the genesis block is accepted, whatever was seen before.\<close>

lemma synchs_first_received:
  assumes "sync_inv E cx" and "first_proposal E cx p b ba"
  shows "\<exists>cx'. synchs_on_receive_proposal E p b ba cx = Inr (True, cx') \<and> hx_keys cx' = hx_keys cx \<and>
    hx_storage cx' = add_delivered_block block_get_hash block_get_height b (hx_storage cx) \<and> commit_queue cx' = commit_queue cx \<and>
    hx_myid cx' = hx_myid cx \<and> hx_client_net cx' = hx_client_net cx"
proof -
  have v: "hx_view cx = 0" "0 < hx_num_nodes cx" "is_delivered_by_hash (hx_storage cx) (EMPTY_HASH E)"
    using assms(1) by (auto simp: sync_inv_defs sync_store_ok_def)
  obtain x where x: "x = persist_batch E (blk_batch_hash b) (snd (CachedBatch_hash E ba)) (hx_batch cx)" by simp
  obtain vt where "own_vote E ''Failed to sign a vote'' (blk_hash b) (cx\<lparr>hx_batch := x\<rparr>) = Inr vt"
    by (rule own_vote_ok [of E "cx\<lparr>hx_batch := x\<rparr>"]) (use assms(1) in simp_all)
  with assms(2) v show ?thesis
    unfolding first_proposal_def
    by (elim conjE exE) (simp add: synchs_on_receive_proposal_def synchs_check_proposal_def leader_of_view_def
        synchs_check_batch_hash_def synchs_on_new_valid_proposal_def Let_def x, simp add: synchs_multicast_def synchs_deliver_def)
qed

lemma synchs_first_accepted:
  assumes "sync_inv E cx" and "first_proposal E cx p b ba"
  shows "\<exists>cx'. synchs_process E (SyNewProposal p b ba) cx = Inr cx' \<and> sync_inv E cx' \<and> hx_keys cx' = hx_keys cx \<and>
    hx_storage cx' = add_delivered_block block_get_hash block_get_height b (hx_storage cx) \<and> commit_queue cx' = commit_queue cx @ [p] \<and>
    hx_myid cx' = hx_myid cx \<and> hx_client_net cx' = hx_client_net cx"
proof -
  have "skeeps E (synchs_process E (SyNewProposal p b ba) cx)"
    using assms by (intro skeeps_process) (auto simp: first_proposal_def)
  with synchs_first_received [OF assms] show ?thesis by (auto simp: synchs_process_def start_timer_def)
qed

lemma synchs_timer_commits:
  assumes "sync_inv E cx" and "commit_queue cx = p # ps"
  shows "commit_queue (synchs_timer E 0 cx) = ps"
    and "is_committed_by_hash (hx_storage (synchs_timer E 0 cx)) h \<longleftrightarrow> h = sp_block_hash p \<or> is_committed_by_hash (hx_storage cx) h"
proof -
  let ?cx = "cx\<lparr>commit_queue := ps\<rparr>"
  obtain b where b: "delivered_block_from_hash (hx_storage cx) (sp_block_hash p) = Some b"
    using assms by (auto simp: sync_inv_def is_delivered_iff)
  then have h: "blk_hash b = sp_block_hash p" using assms(1) by (auto simp: sync_inv_def sync_store_ok_def)
  have t: "synchs_timer E 0 cx = synchs_on_commit E p ?cx" using assms(2) by (simp add: synchs_timer_def)
  have "commit_queue (synchs_on_commit E p ?cx) = ps \<and>
      (is_committed_by_hash (hx_storage (synchs_on_commit E p ?cx)) h \<longleftrightarrow> h = sp_block_hash p \<or> is_committed_by_hash (hx_storage cx) h)"
  proof (cases rule: synchs_on_commit_cases [of E p ?cx])
    case 1
    with b have "is_committed_by_hash (hx_storage cx) (blk_hash b)" by simp
    with 1 h show ?thesis by auto
  next
    case (2 b' hs x)
    with b h show ?thesis by (auto simp: block_get_hash_def)
  qed
  then show "commit_queue (synchs_timer E 0 cx) = ps"
    and "is_committed_by_hash (hx_storage (synchs_timer E 0 cx)) h \<longleftrightarrow> h = sp_block_hash p \<or> is_committed_by_hash (hx_storage cx) h"
    by (simp_all add: t)
qed

lemma synchs_timer_frame:
  fixes cx :: synchs_cx
  shows "hx_myid (synchs_timer E i cx) = hx_myid cx" "all_clients (hx_client_net (synchs_timer E i cx)) = all_clients (hx_client_net cx)"
proof -
  have "hx_myid (synchs_on_commit E p cx) = hx_myid cx \<and> all_clients (hx_client_net (synchs_on_commit E p cx)) = all_clients (hx_client_net cx)" for p and cx :: synchs_cx
    by (cases rule: synchs_on_commit_cases [of E p cx]) simp_all
  then show "hx_myid (synchs_timer E i cx) = hx_myid cx" "all_clients (hx_client_net (synchs_timer E i cx)) = all_clients (hx_client_net cx)"
    by (simp_all add: synchs_timer_def Let_def)
qed

text \<open>A replica that does not lead proposes nothing.\<close>

lemma synchs_drain_follower: "sync_inv E cx \<Longrightarrow> hx_myid cx \<noteq> 0 \<Longrightarrow> synchs_drain E cx = Inr cx"
  by (simp add: synchs_drain.simps [of E cx] synchs_next_leader_def sync_inv_def)

lemma synchs_batch_ready:
  assumes "sync_inv E ld" and "hx_myid ld = 0" and "hx_last_seen_block ld = GENESIS_BLOCK E" and "fmmem (EMPTY_HASH E) (cert_map ld)"
    and "bx_pending (hx_batch ld) = []" and "d \<in> set (nx_broadcast_peers (hx_net ld))"
  shows "\<exists>ld' p. synchs_reactor_step E (SyBatchReady bh ba) ld = Inr (Continue ld') \<and> sync_inv E ld' \<and> same_proposer ld ld' \<and>
    bx_pending (hx_batch ld') = [] \<and> (d, SyNewProposal p (child_block E bh ld) ba) \<in> set (nx_sent (hx_net ld')) \<and>
    sp_block_hash p = blk_hash (child_block E bh ld) \<and> sp_view p = 0 \<and>
    sk_sign E (hx_secret ld) (blk_hash (child_block E bh ld)) = Some (sp_proof p)"
proof -
  let ?ld = "enqueue_batch bh ba ld"
  have eq: "sync_inv E ?ld" "hx_myid ?ld = 0" "fmmem (blk_hash (hx_last_seen_block ?ld)) (cert_map ?ld)"
    "blk_height (hx_last_seen_block ?ld) + 1 < 2 ^ 64" "bx_pending (hx_batch ?ld) = [(bh, ba)]" "child_block E bh ?ld = child_block E bh ld"
    using assms(1-5) by (simp_all add: enqueue_batch_def child_block_def GENESIS_BLOCK_def)
  from synchs_drain_siblings [OF eq(1,3,2,4,5)] assms(6) eq(6) obtain ld' p where "synchs_drain E ?ld = Inr ld'" "same_proposer ?ld ld'"
      "bx_pending (hx_batch ld') = []" "(d, SyNewProposal p (child_block E bh ld) ba) \<in> set (nx_sent (hx_net ld'))"
      "sp_block_hash p = blk_hash (child_block E bh ld)" "sp_view p = 0" "sk_sign E (hx_secret ld) (blk_hash (child_block E bh ld)) = Some (sp_proof p)"
    by (fastforce simp: enqueue_batch_def)
  moreover from this have "synchs_reactor_step E (SyBatchReady bh ba) ld = Inr (Continue ld')" by (simp add: synchs_loop sync_loop_def)
  moreover from this have "sync_inv E ld'" using synchs.loop_continue [OF assms(1), of "SyBatchReady bh ba" ld'] by (simp add: synchs_loop)
  ultimately show ?thesis by (auto simp: same_proposer_def enqueue_batch_def)
qed

text \<open>
  C19: A correct Sync HotStuff leader makes every replica commit two conflicting blocks as soon as the
  mempool has announced two batches. The leader does not advance the last block it has seen when it
  proposes, so both batches become blocks on the genesis block, both at height 1; a replica accepts
  the two proposals and, when their timers fire, has committed both.
\<close>
theorem synchs_correct_leader_forks:
  assumes "collision_free E" and "synchs_init E ld0" and "(synchs_step E)\<^sup>*\<^sup>* ld0 ld" and "synchs_init E fo0" and "(synchs_step E)\<^sup>*\<^sup>* fo0 fo"
    and "hx_myid ld = 0" and "hx_last_seen_block ld = GENESIS_BLOCK E" and "fmmem (EMPTY_HASH E) (cert_map ld)"
    and "bx_pending (hx_batch ld) = []" and "h1 \<noteq> h2" and "fst (CachedBatch_hash E ba1) = h1" and "fst (CachedBatch_hash E ba2) = h2"
    and "hx_myid fo \<in> set (nx_broadcast_peers (hx_net ld))" and "commit_queue fo = []"
    and "fmlookup (hx_keys fo) 0 = Some pk" and "sign_verifies E (hx_secret ld) pk"
    and "\<not> is_delivered_by_hash (hx_storage fo) (blk_hash (child_block E h1 ld))"
    and "\<not> is_delivered_by_hash (hx_storage fo) (blk_hash (child_block E h2 ld))"
  shows "\<exists>ld1 ld2 fo1 fo2 p1 p2 b1 b2. synchs_reactor_step E (SyBatchReady h1 ba1) ld = Inr (Continue ld1) \<and>
    synchs_reactor_step E (SyBatchReady h2 ba2) ld1 = Inr (Continue ld2) \<and>
    (hx_myid fo, SyNewProposal p1 b1 ba1) \<in> set (nx_sent (hx_net ld1)) \<and> (hx_myid fo, SyNewProposal p2 b2 ba2) \<in> set (nx_sent (hx_net ld2)) \<and>
    synchs_process E (SyNewProposal p1 b1 ba1) fo = Inr fo1 \<and> synchs_process E (SyNewProposal p2 b2 ba2) fo1 = Inr fo2 \<and>
    is_committed_by_hash (hx_storage (synchs_timer E 0 (synchs_timer E 0 fo2))) (blk_hash b1) \<and>
    is_committed_by_hash (hx_storage (synchs_timer E 0 (synchs_timer E 0 fo2))) (blk_hash b2) \<and>
    blk_hash b1 \<noteq> blk_hash b2 \<and> blk_prev b1 = blk_prev b2 \<and> blk_height b1 = 1 \<and> blk_height b2 = 1"
proof -
  have ld: "sync_inv E ld" and fo: "sync_inv E fo" using assms(2-5) synchs_sys.inv_reachable by blast+
  let ?b1 = "child_block E h1 ld" and ?b2 = "child_block E h2 ld"
  have signed: "pk_verify E pk m s" if "sk_sign E (hx_secret ld) m = Some s" for m s
    using assms(16) that unfolding sign_verifies_def by (metis option.inject)
  obtain ld1 p1 where p1: "synchs_reactor_step E (SyBatchReady h1 ba1) ld = Inr (Continue ld1)" "sync_inv E ld1" "same_proposer ld ld1"
      "bx_pending (hx_batch ld1) = []" "(hx_myid fo, SyNewProposal p1 ?b1 ba1) \<in> set (nx_sent (hx_net ld1))"
      "sp_block_hash p1 = blk_hash ?b1" "sp_view p1 = 0" "sk_sign E (hx_secret ld) (blk_hash ?b1) = Some (sp_proof p1)"
    using synchs_batch_ready [OF ld assms(6-9,13), of h1 ba1] by blast
  have ld1: "hx_myid ld1 = 0" "hx_last_seen_block ld1 = GENESIS_BLOCK E" "fmmem (EMPTY_HASH E) (cert_map ld1)"
    "hx_myid fo \<in> set (nx_broadcast_peers (hx_net ld1))" "child_block E h2 ld1 = ?b2" "hx_secret ld1 = hx_secret ld"
    using p1(3) assms(6-8,13) by (simp_all add: same_proposer_def child_block_def)
  obtain ld2 p2 where p2: "synchs_reactor_step E (SyBatchReady h2 ba2) ld1 = Inr (Continue ld2)"
      "(hx_myid fo, SyNewProposal p2 ?b2 ba2) \<in> set (nx_sent (hx_net ld2))"
      "sp_block_hash p2 = blk_hash ?b2" "sp_view p2 = 0" "sk_sign E (hx_secret ld) (blk_hash ?b2) = Some (sp_proof p2)"
    using synchs_batch_ready [OF p1(2) ld1(1-3) p1(4) ld1(4), of h2 ba2] ld1(5,6) by auto
  have b: "blk_height (child_block E h ld) = 1" "blk_prev (child_block E h ld) = EMPTY_HASH E" "blk_author (child_block E h ld) = 0" for h
    using assms(6,7) by (simp_all add: GENESIS_BLOCK_def)
  have "?b1 \<noteq> ?b2" using assms(10) child_block_simps(5) by metis
  then have diff: "blk_hash ?b1 \<noteq> blk_hash ?b2" using sealed_collision [OF assms(1), of ?b1 ?b2] by auto
  have "first_proposal E fo p1 ?b1 ba1"
    using assms(6,11,15,17) b p1(6,7) signed [OF p1(8)] by (simp add: first_proposal_def)
  from synchs_first_accepted [OF fo this] assms(14) obtain fo1 where
    fo1: "synchs_process E (SyNewProposal p1 ?b1 ba1) fo = Inr fo1" "sync_inv E fo1" "hx_keys fo1 = hx_keys fo"
      "hx_storage fo1 = add_delivered_block block_get_hash block_get_height ?b1 (hx_storage fo)" "commit_queue fo1 = [p1]" by auto
  have "first_proposal E fo1 p2 ?b2 ba2"
    using assms(6,12,15,18) b p2(3,4) signed [OF p2(5)] diff by (simp add: first_proposal_def fo1(3,4) block_get_hash_def)
  from synchs_first_accepted [OF fo1(2) this] fo1(5) obtain fo2 where
    fo2: "synchs_process E (SyNewProposal p2 ?b2 ba2) fo1 = Inr fo2" "sync_inv E fo2" "commit_queue fo2 = [p1, p2]" by auto
  note t1 = synchs_timer_commits [OF fo2(2,3)]
  note t2 = synchs_timer_commits [OF sync_inv_synchs_timer [OF fo2(2)] t1(1)]
  show ?thesis
    by (intro exI conjI, rule p1(1), rule p2(1), rule p1(5), rule p2(2), rule fo1(1), rule fo2(1))
      (simp_all add: t1(2) t2(2) p1(6) p2(3) diff assms(7) GENESIS_BLOCK_def)
qed

section \<open>Opt Sync: a round, and a vote that spoils a certificate\<close>

lemma vote_target_ok:
  assumes "cert_votes c = [vt]" and "fmlookup (hx_keys cx) (v_origin vt) = Some pk" and "cert_msg c = VoteCert v h"
    and "pk_verify E pk (ser_cert_type E (VoteCert v h)) (v_auth vt)" and "sp_block_hash p = h"
    and "delivered_block_from_hash (hx_storage cx) h = Some b" and "delivered_block_from_ht (hx_storage cx) (blk_height b) = Some b"
    and "blk_hash b = h"
  shows "synchs_vote_target E c p cx = Inr (Some h)"
  using assms by (simp add: synchs_vote_target_def is_delivered_iff)

text \<open>A second vote for a block that has one.\<close>

lemma optsync_vote_counted:
  assumes "cert_votes c = [vt]" and "fmlookup (hx_keys cx) (v_origin vt) = Some pk" and "cert_msg c = VoteCert v h"
    and "pk_verify E pk (ser_cert_type E (VoteCert v h)) (v_auth vt)" and "sp_block_hash p = h"
    and "delivered_block_from_hash (hx_storage cx) h = Some b" and "delivered_block_from_ht (hx_storage cx) (blk_height b) = Some b"
    and "blk_hash b = h" and "fmlookup (vote_map cx) h = Some cert" and "\<not> fmmem h (resp_cert cx)" and "3 * hx_num_nodes cx < 2 ^ 64"
  defines "cert' \<equiv> cert\<lparr>cert_votes := cert_votes cert @ [vt]\<rparr>"
  shows "\<exists>cx'. optsync_on_vote E c p cx = Inr (3 * hx_num_nodes cx div 4 \<le> length (cert_votes cert'), cx') \<and>
    fmlookup (vote_map cx') h = Some cert' \<and>
    (hx_num_faults cx < length (cert_votes cert') \<longrightarrow> fmlookup (cert_map cx') h = Some cert')"
  using assms vote_target_ok [OF assms(1-8)]
  by (auto simp: optsync_on_vote_def optsync_shared optsync_add_vote_def pop_vote_def mul_u64_def Let_def)

text \<open>
  One faulty replica can stop Opt Sync with a single vote. The view inside a vote is not compared
  with the node's view, so the leader accepts a vote that is validly signed for another view and
  appends it to the certificate it is collecting; every proposal that carries this certificate is
  rejected by every replica that knows the same keys.
\<close>
theorem optsync_foreign_view_vote_spoils_certificate:
  assumes "optsync_init E ld0" and "(optsync_step E)\<^sup>*\<^sup>* ld0 ld" and "fmlookup (vote_map ld) h = Some cert"
    and "\<not> fmmem h (resp_cert ld)" and "3 * hx_num_nodes ld < 2 ^ 64" and "hx_num_faults ld \<le> length (cert_votes cert)"
    and "delivered_block_from_hash (hx_storage ld) h = Some b" and "delivered_block_from_ht (hx_storage ld) (blk_height b) = Some b"
    and "fmlookup (hx_keys ld) (v_origin vt) = Some pk" and "pk_verify E pk (ser_cert_type E (VoteCert v h)) (v_auth vt)"
    and "\<not> pk_verify E pk (ser_cert_type E (cert_msg cert)) (v_auth vt)" and "sp_block_hash p = h"
  shows "\<exists>d ld' cert'. optsync_on_vote E \<lparr>cert_msg = VoteCert v h, cert_votes = [vt]\<rparr> p ld = Inr (d, ld') \<and>
    fmlookup (cert_map ld') h = Some cert' \<and>
    (\<forall>fo q blk. hx_keys fo = hx_keys ld \<longrightarrow> sp_cert q = cert' \<longrightarrow> blk_height blk \<noteq> 1 \<longrightarrow>
       optsync_check_proposal E q blk fo \<noteq> Inr True)"
proof -
  have "sync_inv E ld" using optsync_sys.inv_reachable [OF assms(1,2)] by (simp add: opt_inv_def)
  then have "blk_hash b = h" using assms(7) by (auto simp: sync_inv_def sync_store_ok_def)
  let ?cert' = "cert\<lparr>cert_votes := cert_votes cert @ [vt]\<rparr>"
  obtain ld' where ld': "optsync_on_vote E \<lparr>cert_msg = VoteCert v h, cert_votes = [vt]\<rparr> p ld =
      Inr (3 * hx_num_nodes ld div 4 \<le> length (cert_votes ?cert'), ld')" "fmlookup (cert_map ld') h = Some ?cert'"
    using optsync_vote_counted [OF _ assms(9) _ assms(10,12,7,8) \<open>blk_hash b = h\<close> assms(3,4,5),
        of "\<lparr>cert_msg = VoteCert v h, cert_votes = [vt]\<rparr>"] assms(6) by auto
  have "optsync_check_proposal E q blk fo \<noteq> Inr True"
    if "hx_keys fo = hx_keys ld" "sp_cert q = ?cert'" "blk_height blk \<noteq> 1" for fo q blk
  proof
    assume "optsync_check_proposal E q blk fo = Inr True"
    from check_proposal_accepts(6) [OF this [unfolded optsync_shared] that(3)] that(1,2) assms(9,11) show False
      by (auto simp: certified_parent_def)
  qed
  with ld' show ?thesis by (intro exI conjI allI impI) auto
qed

lemma optsync_propose_step:
  assumes "opt_inv E cx" and "fmlookup (cert_map cx) (blk_hash (hx_last_seen_block cx)) = Some cert"
    and "blk_height (hx_last_seen_block cx) + 1 < 2 ^ 64"
  obtains p cx' vt where "optsync_do_propose E bh ba cx = Inr (p, cx')" "opt_inv E cx'"
    "own_vote E ''Failed to sign the new proposal'' (blk_hash (child_block E bh cx)) cx = Inr vt"
    "cx' = start_timer p (synchs_multicast E (SyNewProposal p (child_block E bh cx) ba)
       ((synchs_deliver (child_block E bh cx) cx)\<lparr>vote_map := fmupd (blk_hash (child_block E bh cx)) vt (vote_map cx),
         hx_height := blk_height (child_block E bh cx), hx_last_seen_block := child_block E bh cx,
         last_committed_block_ht := blk_height (child_block E bh cx)\<rparr>))"
    "sp_block_hash p = blk_hash (child_block E bh cx)" "sp_view p = hx_view cx" "sp_cert p = cert"
    "sk_sign E (hx_secret cx) (blk_hash (child_block E bh cx)) = Some (sp_proof p)"
proof -
  have inv: "sync_inv E cx" and cert: "fmmem (blk_hash (hx_last_seen_block cx)) (cert_map cx)"
    using assms(1,2) by (auto simp: opt_inv_def fmmem_iff)
  obtain p cx' where r: "optsync_do_propose E bh ba cx = Inr (p, cx')"
    using optsync_do_propose_total [OF inv assms(2), of bh ba] assms(3) by auto
  from okeeps_do_propose [OF assms(1) cert, of bh ba] r have "opt_inv E cx'" by simp
  with r that assms(2) show thesis by (auto elim!: optsync_do_propose_result simp: child_block_def optsync_shared)
qed

text \<open>A certificate that a replica accepts for the parent \<open>b\<close>.\<close>

definition acceptable_cert :: "ext \<Rightarrow> 'z synchs_cx_scheme \<Rightarrow> block \<Rightarrow> certificate \<Rightarrow> bool" where
  "acceptable_cert E cx b cert \<longleftrightarrow>
     b = GENESIS_BLOCK E \<or>
     0 < blk_height b \<and> (\<exists>v. cert_msg cert = VoteCert v (blk_hash b)) \<and> hx_num_faults cx < length (cert_votes cert) \<and>
     hx_num_faults cx \<le> card (v_origin ` set (cert_votes cert)) \<and>
     (\<forall>vt\<in>set (cert_votes cert). \<exists>pk. fmlookup (hx_keys cx) (v_origin vt) = Some pk \<and>
        pk_verify E pk (ser_cert_type E (cert_msg cert)) (v_auth vt))"

lemma length_fold_hs_insert: "length (fold (\<lambda>vt. hs_insert (v_origin vt)) vs []) = card (v_origin ` set vs)"
proof -
  have "distinct (fold (\<lambda>vt. hs_insert (v_origin vt)) vs us) \<and>
      set (fold (\<lambda>vt. hs_insert (v_origin vt)) vs us) = v_origin ` set vs \<union> set us" if "distinct us" for us
    using that by (induction vs arbitrary: us) auto
  from this [of "[]"] show ?thesis using distinct_card by fastforce
qed

lemma check_proposal_child:
  assumes "sync_inv E cx" and "hx_last_seen_block cx = parent" and "acceptable_cert E cx parent (sp_cert p)"
    and "blk_prev b = blk_hash parent" and "blk_height b = Suc (blk_height parent)" and "blk_author b = 0"
    and "sp_block_hash p = blk_hash b" and "sp_view p = 0" and "fmlookup (hx_keys cx) 0 = Some pk"
    and "pk_verify E pk (blk_hash b) (sp_proof p)" and "hx_num_faults cx + 1 < 2 ^ 64"
  shows "synchs_check_proposal E p b cx = Inr True"
proof -
  have v: "hx_view cx = 0" "0 < hx_num_nodes cx" using assms(1) by (auto simp: sync_inv_defs)
  show ?thesis
  proof (cases "parent = GENESIS_BLOCK E")
    case True
    then have "blk_height b = 1" "blk_prev b = EMPTY_HASH E" using assms(4,5) by (simp_all add: GENESIS_BLOCK_def)
    with v assms(6-10) show ?thesis by (simp add: synchs_check_proposal_def leader_of_view_def)
  next
    case False
    let ?c = "sp_cert p"
    from False assms(3) obtain w where c: "cert_msg ?c = VoteCert w (blk_prev b)" "hx_num_faults cx < length (cert_votes ?c)"
      "hx_num_faults cx \<le> card (v_origin ` set (cert_votes ?c))" "0 < blk_height parent"
      "\<forall>vt\<in>set (cert_votes ?c). \<exists>pk. fmlookup (hx_keys cx) (v_origin vt) = Some pk \<and>
        pk_verify E pk (ser_cert_type E (cert_msg ?c)) (v_auth vt)"
      by (auto simp: acceptable_cert_def assms(4))
    from check_cert_votes_ok [OF c(5), of "[]"] c(1-4) v assms(2,4-11) show ?thesis
      by (simp add: synchs_check_proposal_def leader_of_view_def add_u64_def length_fold_hs_insert)
  qed
qed

lemma optsync_accepts:
  assumes "opt_inv E cx" and "block_sealed E b" and "synchs_check_proposal E p b cx = Inr True"
    and "\<not> is_delivered_by_hash (hx_storage cx) (blk_hash b)" and "is_delivered_by_hash (hx_storage cx) (blk_prev b)"
    and "fst (CachedBatch_hash E ba) = blk_batch_hash b"
  obtains cx' auth where "optsync_process_msg E (SyNewProposal p b ba) cx = Inr cx'" "opt_inv E cx'"
    "hx_last_seen_block cx' = b" "p \<in> set (commit_queue cx')"
    "sk_sign E (hx_secret cx) (ser_cert_type E (VoteCert 0 (blk_hash b))) = Some auth"
    "\<forall>d\<in>set (nx_broadcast_peers (hx_net cx)). (d, SyVoteMsg \<lparr>cert_msg = VoteCert 0 (blk_hash b),
       cert_votes = [\<lparr>v_origin = hx_myid cx, v_auth = auth\<rparr>]\<rparr> p) \<in> set (nx_sent (hx_net cx'))"
proof -
  have inv: "sync_inv E cx" and v: "hx_view cx = 0" using assms(1) by (auto simp: opt_inv_def sync_inv_def)
  have p: "sp_block_hash p = blk_hash b" using check_proposal_accepts(1) [OF assms(3)] by simp
  have fresh: "\<not> fmmem (blk_hash b) (vote_map cx)"
    using inv assms(4) by (cases "fmlookup (vote_map cx) (blk_hash b)") (auto simp: sync_inv_def sync_votes_ok_def fmmem_def)
  obtain pk where "sign_verifies E (hx_secret cx) pk" using inv by (auto simp: sync_inv_defs)
  then obtain auth where auth: "sk_sign E (hx_secret cx) (ser_cert_type E (VoteCert 0 (blk_hash b))) = Some auth"
    by (auto simp: sign_verifies_def)
  let ?vt = "\<lparr>cert_msg = VoteCert 0 (blk_hash b), cert_votes = [\<lparr>v_origin = hx_myid cx, v_auth = auth\<rparr>]\<rparr>"
  have "\<exists>cx'. optsync_process_msg E (SyNewProposal p b ba) cx = Inr cx' \<and> hx_last_seen_block cx' = b \<and> p \<in> set (commit_queue cx') \<and>
      (\<forall>d\<in>set (nx_broadcast_peers (hx_net cx)). (d, SyVoteMsg ?vt p) \<in> set (nx_sent (hx_net cx')))"
    using assms(3-6) p fresh auth v
    by (simp add: optsync_process_msg_def optsync_on_receive_proposal_def optsync_shared synchs_check_batch_hash_def
        optsync_on_new_valid_proposal_def own_vote_def empty_cert_def Let_def start_timer_def) (simp add: synchs_multicast_def)
  moreover have "okeeps E (optsync_process_msg E (SyNewProposal p b ba) cx)" using assms(1,2) by (intro okeeps_process) auto
  ultimately show thesis using that auth by auto
qed

text \<open>
  C24: One round of Opt Sync between a correct leader and a correct replica that agree on the last
  block and whose keys verify each other's signatures, when the leader holds an acceptable
  certificate: the leader proposes the pending batch on that block, the replica accepts the proposal
  as the last block seen, starts its timer and sends a vote, and the leader adds this vote to its own.
\<close>
theorem optsync_round:
  assumes "optsync_init E ld0" and "(optsync_step E)\<^sup>*\<^sup>* ld0 ld" and "optsync_init E fo0" and "(optsync_step E)\<^sup>*\<^sup>* fo0 fo"
    and "hx_myid ld = 0" and "hx_last_seen_block fo = hx_last_seen_block ld" and "blk_height (hx_last_seen_block ld) + 1 < 2 ^ 64"
    and "fmlookup (cert_map ld) (blk_hash (hx_last_seen_block ld)) = Some cert" and "acceptable_cert E fo (hx_last_seen_block ld) cert"
    and "hx_myid fo \<in> set (nx_broadcast_peers (hx_net ld))" and "hx_myid ld \<in> set (nx_broadcast_peers (hx_net fo))"
    and "fmlookup (hx_keys fo) 0 = Some pk" and "sign_verifies E (hx_secret ld) pk"
    and "fmlookup (hx_keys ld) (hx_myid fo) = Some pk'" and "sign_verifies E (hx_secret fo) pk'"
    and "fst (CachedBatch_hash E ba) = bh" and "hx_num_faults fo + 1 < 2 ^ 64" and "3 * hx_num_nodes ld < 2 ^ 64"
    and "\<not> is_delivered_by_hash (hx_storage fo) (blk_hash (child_block E bh ld))" and "\<not> fmmem (blk_hash (child_block E bh ld)) (resp_cert ld)"
  shows "\<exists>p ld' fo' vt d ld'' cert'. optsync_do_propose E bh ba ld = Inr (p, ld') \<and>
    (hx_myid fo, SyNewProposal p (child_block E bh ld) ba) \<in> set (nx_sent (hx_net ld')) \<and>
    optsync_process_msg E (SyNewProposal p (child_block E bh ld) ba) fo = Inr fo' \<and>
    hx_last_seen_block fo' = child_block E bh ld \<and> hx_last_seen_block ld' = child_block E bh ld \<and> p \<in> set (commit_queue fo') \<and>
    (hx_myid ld, SyVoteMsg vt p) \<in> set (nx_sent (hx_net fo')) \<and> optsync_on_vote E vt p ld' = Inr (d, ld'') \<and>
    fmlookup (vote_map ld'') (blk_hash (child_block E bh ld)) = Some cert' \<and> map v_origin (cert_votes cert') = [0, hx_myid fo]"
proof -
  have ld: "opt_inv E ld" and fo: "opt_inv E fo" using assms(1-4) optsync_sys.inv_reachable by blast+
  let ?b = "child_block E bh ld"
  obtain p ld' own where p: "optsync_do_propose E bh ba ld = Inr (p, ld')" "opt_inv E ld'"
      "own_vote E ''Failed to sign the new proposal'' (blk_hash ?b) ld = Inr own"
      "ld' = start_timer p (synchs_multicast E (SyNewProposal p ?b ba) ((synchs_deliver ?b ld)\<lparr>vote_map := fmupd (blk_hash ?b) own (vote_map ld),
         hx_height := blk_height ?b, hx_last_seen_block := ?b, last_committed_block_ht := blk_height ?b\<rparr>))"
      "sp_block_hash p = blk_hash ?b" "sp_view p = hx_view ld" "sp_cert p = cert" "sk_sign E (hx_secret ld) (blk_hash ?b) = Some (sp_proof p)"
    by (rule optsync_propose_step [OF ld assms(8,7), of bh ba])
  have pv: "pk_verify E pk (blk_hash ?b) (sp_proof p)" using assms(13) p(8) unfolding sign_verifies_def by (metis option.inject)
  have fi: "sync_inv E fo" "sync_inv E ld" "hx_view ld = 0" using fo ld by (auto simp: opt_inv_def sync_inv_def)
  have chk: "synchs_check_proposal E p ?b fo = Inr True"
    using assms(5,9) p(5-7) fi(3) by (intro check_proposal_child [OF fi(1) assms(6) _ _ _ _ _ _ assms(12) pv assms(17)]) simp_all
  have par: "is_delivered_by_hash (hx_storage fo) (blk_prev ?b)" using fi(1) assms(6) by (simp add: sync_inv_def)
  have bh: "fst (CachedBatch_hash E ba) = blk_batch_hash ?b" by (simp add: assms(16))
  obtain fo' auth where fo': "optsync_process_msg E (SyNewProposal p ?b ba) fo = Inr fo'" "opt_inv E fo'" "hx_last_seen_block fo' = ?b"
      "p \<in> set (commit_queue fo')" "sk_sign E (hx_secret fo) (ser_cert_type E (VoteCert 0 (blk_hash ?b))) = Some auth"
      "\<forall>d\<in>set (nx_broadcast_peers (hx_net fo)). (d, SyVoteMsg \<lparr>cert_msg = VoteCert 0 (blk_hash ?b),
       cert_votes = [\<lparr>v_origin = hx_myid fo, v_auth = auth\<rparr>]\<rparr> p) \<in> set (nx_sent (hx_net fo'))"
    by (rule optsync_accepts [OF fo child_block_simps(1) chk assms(19) par bh])
  have av: "pk_verify E pk' (ser_cert_type E (VoteCert 0 (blk_hash ?b))) auth"
    using assms(15) fo'(5) unfolding sign_verifies_def by (metis option.inject)
  have own: "map v_origin (cert_votes own) = [0]" using p(3) assms(5) by (auto simp: own_vote_def empty_cert_def Let_def)
  let ?vt = "\<lparr>cert_msg = VoteCert 0 (blk_hash ?b), cert_votes = [\<lparr>v_origin = hx_myid fo, v_auth = auth\<rparr>]\<rparr>"
  have l: "hx_keys ld' = hx_keys ld" "hx_num_nodes ld' = hx_num_nodes ld" "resp_cert ld' = resp_cert ld" "hx_last_seen_block ld' = ?b"
    "fmlookup (vote_map ld') (blk_hash ?b) = Some own" "delivered_block_from_hash (hx_storage ld') (blk_hash ?b) = Some ?b"
    "delivered_block_from_ht (hx_storage ld') (blk_height ?b) = Some ?b"
    "(hx_myid fo, SyNewProposal p ?b ba) \<in> set (nx_sent (hx_net ld'))"
    using assms(10)
    by (simp_all add: p(4) start_timer_def block_get_hash_def block_get_height_def)
      (simp_all add: synchs_multicast_def synchs_deliver_def)
  obtain ld'' where ld'': "optsync_on_vote E ?vt p ld' = Inr (3 * hx_num_nodes ld' div 4 \<le> length (cert_votes (own\<lparr>cert_votes := cert_votes own @ cert_votes ?vt\<rparr>)), ld'')"
      "fmlookup (vote_map ld'') (blk_hash ?b) = Some (own\<lparr>cert_votes := cert_votes own @ cert_votes ?vt\<rparr>)"
    using optsync_vote_counted [of ?vt "\<lparr>v_origin = hx_myid fo, v_auth = auth\<rparr>" ld' pk' 0 "blk_hash ?b" E p ?b own]
      assms(14,18,20) av p(5) l by auto
  show ?thesis
    by (intro exI conjI, rule p(1), rule l(8), rule fo'(1), rule fo'(3), rule l(4), rule fo'(4), rule bspec [OF fo'(6) assms(11)],
        rule ld''(1), rule ld''(2)) (simp add: own)
qed

section \<open>Witnesses\<close>

text \<open>Replicas 0 and 1 of the sample configuration, each with one client, before any event.\<close>

definition sample_synchs :: "replica \<Rightarrow> synchs_cx" where
  "sample_synchs me = projr (synchs_reactor_start sample_ext (sample_config me) sample_pks [7] fmempty fmempty)"

definition sample_optsync :: "replica \<Rightarrow> optsync_cx" where
  "sample_optsync me = projr (optsync_Context_new sample_ext (sample_config me) sample_pks [7] fmempty fmempty)"

lemmas sample_sync_defs = sample_config_def sample_pks_def decode_secret_def decode_all_keys_def decode_public_def
  mul_u64_def synchs_deliver_def synchs_commit_block_def Let_def

lemma sample_synchs_start:
  "synchs_reactor_start sample_ext (sample_config me) sample_pks [7] fmempty fmempty = Inr (sample_synchs me)"
  "optsync_Context_new sample_ext (sample_config me) sample_pks [7] fmempty fmempty = Inr (sample_optsync me)"
  by (simp_all add: sample_synchs_def sample_optsync_def synchs_reactor_start_def synchs_Context_new_def
      optsync_Context_new_def sample_sync_defs)

lemma sample_sync_config:
  assumes "me \<in> {0, 1}"
  shows "sync_config_ok sample_ext (sample_config me) sample_pks [7]"
  using assms sample_sign_verifies [of "[0]"] sample_sign_verifies [of "[1]"]
  by (auto simp: sync_config_ok_def config_ok_def sample_config_def sample_pks_def decode_secret_def decode_all_keys_def
      decode_public_def)

lemma sample_synchs_init: "me \<in> {0, 1} \<Longrightarrow> synchs_init sample_ext (sample_synchs me)"
  unfolding synchs_init_def using sample_sync_config sample_synchs_start(1) by blast

lemma sample_optsync_init: "me \<in> {0, 1} \<Longrightarrow> optsync_init sample_ext (sample_optsync me)"
  unfolding optsync_init_def using sample_sync_config sample_synchs_start(2) by blast

lemmas sample_synchs_inits = sample_synchs_init [of 0, OF insertI1] sample_synchs_init [of 1, OF insertI2 [OF insertI1]]
lemmas sample_optsync_inits = sample_optsync_init [of 0, OF insertI1] sample_optsync_init [of 1, OF insertI2 [OF insertI1]]

lemma sample_synchs_simps:
  "hx_myid (sample_synchs me) = me" "hx_secret (sample_synchs me) = [word_of_nat me]" "hx_num_faults (sample_synchs me) = 1"
  "hx_last_seen_block (sample_synchs me) = GENESIS_BLOCK sample_ext" "fmmem [] (cert_map (sample_synchs me))"
  "commit_queue (sample_synchs me) = []" "fmlookup (hx_keys (sample_synchs me)) 0 = Some [0]"
  "hx_storage (sample_synchs me) = genesis_storage sample_ext" "all_clients (hx_client_net (sample_synchs me)) = [7]"
  "nx_broadcast_peers (hx_net (sample_synchs 0)) = [1, 2, 3]"
  by (simp_all add: sample_synchs_def synchs_reactor_start_def synchs_Context_new_def sample_sync_defs genesis_storage_def
      GENESIS_BLOCK_def upt_conv_Cons)

lemma sample_optsync_simps:
  "hx_myid (sample_optsync me) = me" "hx_secret (sample_optsync me) = [word_of_nat me]" "hx_num_faults (sample_optsync me) = 1"
  "hx_num_nodes (sample_optsync me) = 4"
  "hx_last_seen_block (sample_optsync me) = GENESIS_BLOCK sample_ext" "cert_map (sample_optsync me) = fmupd [] empty_cert fmempty"
  "commit_queue (sample_optsync me) = []" "fmlookup (hx_keys (sample_optsync me)) 0 = Some [0]" "fmlookup (hx_keys (sample_optsync me)) (Suc 0) = Some [1]"
  "hx_storage (sample_optsync me) = genesis_storage sample_ext" "resp_cert (sample_optsync me) = fmempty"
  "nx_broadcast_peers (hx_net (sample_optsync 0)) = [1, 2, 3]" "nx_broadcast_peers (hx_net (sample_optsync (Suc 0))) = [0, 2, 3]"
  by (simp_all add: sample_optsync_def optsync_Context_new_def sample_sync_defs genesis_storage_def GENESIS_BLOCK_def upt_conv_Cons)

theorem optsync_possible_faults_witness:
  "optsync_reactor_step sample_ext (SyNet (SyVoteMsg \<lparr>cert_msg = DEFAULT, cert_votes = [\<lparr>v_origin = 1, v_auth = []\<rparr>]\<rparr> (SyncPropose_new sample_ext)))
     (sample_optsync 0) = Inl (Panic ''other vote types cant be here'') \<and>
   Panic ''other vote types cant be here'' \<in>
     {Panic ''This view check should be unreachable'', Panic ''other vote types cant be here'', Overflow}"
proof -
  let ?ev = "SyNet (SyVoteMsg \<lparr>cert_msg = DEFAULT, cert_votes = [\<lparr>v_origin = 1, v_auth = []\<rparr>]\<rparr> (SyncPropose_new sample_ext))"
  have "optsync_reactor_step sample_ext ?ev (sample_optsync 0) = Inl (Panic ''other vote types cant be here'')"
    by (simp add: optsync_reactor_step_def optsync_process_msg_def optsync_on_vote_def optsync_vote_target_def Let_def sample_optsync_simps)
  with optsync_possible_faults [OF sample_optsync_inits(1) rtranclp.rtrancl_refl _ this] show ?thesis by simp
qed

definition sample_bh :: "transaction list \<Rightarrow> hash" where
  "sample_bh txs = fst (CachedBatch_hash sample_ext (sample_batch txs))"

definition sample_first :: "transaction list \<Rightarrow> block" where
  "sample_first txs = child_block sample_ext (sample_bh txs) (sample_synchs 0)"

definition sample_sp :: "transaction list \<Rightarrow> sync_propose" where
  "sample_sp txs =
     \<lparr>sp_proof = 0 # blk_hash (sample_first txs), sp_cert = empty_cert, sp_view = 0, sp_block_hash = blk_hash (sample_first txs)\<rparr>"

lemma sample_first_fresh: "blk_hash (sample_first txs) \<noteq> []"
  using sealed_not_empty [OF sample_collision_free, of "sample_first txs"] by (simp add: sample_first_def)

lemma sample_first_proposal: "first_proposal sample_ext (sample_synchs 1) (sample_sp txs) (sample_first txs) (sample_batch txs)"
  using sample_first_fresh [of txs]
  by (simp add: first_proposal_def sample_sp_def sample_synchs_simps) (simp add: sample_first_def sample_bh_def sample_synchs_simps GENESIS_BLOCK_def)

theorem synchs_accepts_only_certified_witness:
  "\<exists>cx'. synchs_on_receive_proposal sample_ext (sample_sp []) (sample_first []) (sample_batch []) (sample_synchs 1) = Inr (True, cx') \<and>
     hx_last_seen_block cx' = sample_first [] \<and> blk_author (sample_first []) = 0"
proof -
  obtain cx' where "synchs_on_receive_proposal sample_ext (sample_sp []) (sample_first []) (sample_batch []) (sample_synchs 1) = Inr (True, cx')"
    using synchs_first_received [OF synchs_inv_start [OF sample_synchs_inits(2)] sample_first_proposal] by auto
  with synchs_accepts_only_certified [OF sample_synchs_inits(2) rtranclp.rtrancl_refl this] show ?thesis by simp
qed

text \<open>Replica 1 accepts a block and, when its timer fires, commits it and announces it to its client.\<close>

theorem synchs_clients_notified_once_witness:
  "\<exists>cx. (synchs_step sample_ext)\<^sup>*\<^sup>* (sample_synchs 1) cx \<and> is_committed_by_hash (hx_storage cx) (blk_hash (sample_first [])) \<and>
     notified 7 (hx_client_net cx) = [blk_hash (sample_first [])]"
proof -
  let ?m = "SyNewProposal (sample_sp []) (sample_first []) (sample_batch [])" and ?h = "blk_hash (sample_first [])"
  obtain c1 where c1: "synchs_process sample_ext ?m (sample_synchs 1) = Inr c1" "sync_inv sample_ext c1" "commit_queue c1 = [sample_sp []]"
      "hx_myid c1 = 1" "all_clients (hx_client_net c1) = [7]" "is_committed_by_hash (hx_storage c1) h \<longleftrightarrow> h = []" for h
    using synchs_first_accepted [OF synchs_inv_start [OF sample_synchs_inits(2)] sample_first_proposal, of "[]"]
    by (auto simp: sample_synchs_simps)
  let ?c2 = "synchs_timer sample_ext 0 c1"
  have com: "is_committed_by_hash (hx_storage ?c2) h \<longleftrightarrow> h = ?h \<or> h = []" for h
    using synchs_timer_commits(2) [OF c1(2,3)] c1(6) by (simp add: sample_sp_def)
  have c2: "sync_inv sample_ext ?c2" "hx_myid ?c2 = 1" "all_clients (hx_client_net ?c2) = [7]"
    using sync_inv_synchs_timer [OF c1(2)] c1(4,5) by (simp_all add: synchs_timer_frame)
  have "synchs_reactor_step sample_ext (SyNet ?m) (sample_synchs 1) = Inr (Continue c1)"
      "synchs_reactor_step sample_ext (SyTimer 0) c1 = Inr (Continue ?c2)"
    using c1(1,4) c2(2) synchs_drain_follower [OF c1(2)] synchs_drain_follower [OF c2(1)] by (simp_all add: synchs_reactor_step_def)
  moreover have "sync_event_sealed sample_ext (SyNet ?m)" "sync_event_sealed sample_ext (SyTimer 0)"
    using sample_first_proposal [of "[]"] by (simp_all add: first_proposal_def)
  ultimately have run: "(synchs_step sample_ext)\<^sup>*\<^sup>* (sample_synchs 1) ?c2"
    by (meson synchs_reacts converse_rtranclp_into_rtranclp r_into_rtranclp)
  from synchs_clients_notified_once [OF sample_synchs_inits(2) run] c2(3)
  have "distinct (notified 7 (hx_client_net ?c2))" "set (notified 7 (hx_client_net ?c2)) = {?h}"
    using sample_first_fresh [of "[]"] by (auto simp: com)
  then have "notified 7 (hx_client_net ?c2) = [?h]"
    by (metis distinct_card card_1_singleton_iff length_0_conv length_Suc_conv list.set_intros(1) singletonD One_nat_def)
  with run com show ?thesis by blast
qed

lemma sample_bh_diff: "sample_bh [] \<noteq> sample_bh [sample_tx 0 0]"
  by (simp add: sample_bh_def CachedBatch_hash_def CachedBatch_serialize_def sample_batch_def sample_ext_def enc_list_def enc_nat_def Let_def)

theorem synchs_correct_leader_forks_witness:
  "\<exists>(fo' :: synchs_cx) b1 b2. is_committed_by_hash (hx_storage fo') (blk_hash b1) \<and> is_committed_by_hash (hx_storage fo') (blk_hash b2) \<and>
     blk_hash b1 \<noteq> blk_hash b2 \<and> blk_prev b1 = blk_prev b2 \<and> blk_height b1 = 1 \<and> blk_height b2 = 1"
proof -
  have sg: "sign_verifies sample_ext (hx_secret (sample_synchs 0)) [0]"
    using sample_sign_verifies [of "[0]"] by (simp add: sample_synchs_simps)
  have pend: "bx_pending (hx_batch (sample_synchs 0)) = []"
    by (simp add: sample_synchs_def synchs_reactor_start_def synchs_Context_new_def sample_sync_defs batch_ctx_new_def)
  have "\<not> is_delivered_by_hash (hx_storage (sample_synchs 1)) (blk_hash (child_block sample_ext (sample_bh txs) (sample_synchs 0)))" for txs
    using sample_first_fresh [of txs] by (simp add: sample_synchs_simps sample_first_def)
  note fresh = this
  have prem: "hx_myid (sample_synchs 0) = 0" "hx_last_seen_block (sample_synchs 0) = GENESIS_BLOCK sample_ext"
      "fmmem (EMPTY_HASH sample_ext) (cert_map (sample_synchs 0))"
      "hx_myid (sample_synchs 1) \<in> set (nx_broadcast_peers (hx_net (sample_synchs 0)))" "commit_queue (sample_synchs 1) = []" "fmlookup (hx_keys (sample_synchs 1)) 0 = Some [0]"
    by (simp_all add: sample_synchs_simps)
  obtain fo2 :: synchs_cx and b1 b2 where
      "is_committed_by_hash (hx_storage (synchs_timer sample_ext 0 (synchs_timer sample_ext 0 fo2))) (blk_hash b1)"
      "is_committed_by_hash (hx_storage (synchs_timer sample_ext 0 (synchs_timer sample_ext 0 fo2))) (blk_hash b2)"
      "blk_hash b1 \<noteq> blk_hash b2" "blk_prev b1 = blk_prev b2" "blk_height b1 = 1" "blk_height b2 = 1"
    using synchs_correct_leader_forks [OF sample_collision_free sample_synchs_inits(1) rtranclp.rtrancl_refl
      sample_synchs_inits(2) rtranclp.rtrancl_refl prem(1-3) pend sample_bh_diff sample_bh_def [symmetric] sample_bh_def [symmetric]
      prem(4-6) sg fresh fresh]
    apply (elim exE conjE)
    subgoal for ld1 ld2 fo1 fo2 p1 p2 b1 b2 by (rule that [of fo2 b1 b2])
    done
  then show ?thesis
    by (intro exI [of _ "synchs_timer sample_ext 0 (synchs_timer sample_ext 0 fo2)"] exI [of _ b1] exI [of _ b2]) simp
qed

text \<open>The Opt Sync leader after the mempool has announced the empty batch.\<close>

definition sample_opt_block :: block where
  "sample_opt_block = child_block sample_ext (sample_bh []) (sample_optsync 0)"

lemma sample_opt_block_simps: "blk_hash sample_opt_block \<noteq> []" "blk_height sample_opt_block = 1"
  using sealed_not_empty [OF sample_collision_free, of sample_opt_block]
  by (simp_all add: sample_opt_block_def sample_optsync_simps GENESIS_BLOCK_def)

lemma sample_opt_leader:
  obtains ld own where "optsync_step sample_ext (sample_optsync 0) ld" "fmlookup (vote_map ld) (blk_hash sample_opt_block) = Some own"
    "cert_msg own = VoteCert 0 (blk_hash sample_opt_block)" "length (cert_votes own) = 1" "resp_cert ld = fmempty" "hx_num_nodes ld = 4" "hx_num_faults ld = 1"
    "delivered_block_from_hash (hx_storage ld) (blk_hash sample_opt_block) = Some sample_opt_block"
    "delivered_block_from_ht (hx_storage ld) 1 = Some sample_opt_block" "hx_keys ld = hx_keys (sample_optsync 0)" "bx_pending (hx_batch ld) = []"
proof -
  let ?ld = "(sample_optsync 0)\<lparr>hx_batch := (hx_batch (sample_optsync 0))\<lparr>bx_pending := []\<rparr>\<rparr>"
  have pend: "bx_pending (hx_batch (sample_optsync 0)) = []"
    by (simp add: sample_optsync_def optsync_Context_new_def sample_sync_defs batch_ctx_new_def)
  have kid: "child_block sample_ext (sample_bh []) ?ld = sample_opt_block" by (simp add: sample_opt_block_def child_block_def)
  have inv: "opt_inv sample_ext ?ld" using opt_inv_start [OF sample_optsync_inits(1)] by simp
  have cert: "fmlookup (cert_map ?ld) (blk_hash (hx_last_seen_block ?ld)) = Some empty_cert" and ht: "blk_height (hx_last_seen_block ?ld) + 1 < 2 ^ 64"
    by (simp_all add: sample_optsync_simps GENESIS_BLOCK_def)
  obtain p ld own where p: "optsync_do_propose sample_ext (sample_bh []) (sample_batch []) ?ld = Inr (p, ld)" "opt_inv sample_ext ld"
      "own_vote sample_ext ''Failed to sign the new proposal'' (blk_hash sample_opt_block) ?ld = Inr own"
      "ld = start_timer p (synchs_multicast sample_ext (SyNewProposal p sample_opt_block (sample_batch []))
         ((synchs_deliver sample_opt_block ?ld)\<lparr>vote_map := fmupd (blk_hash sample_opt_block) own (vote_map ?ld), hx_height := blk_height sample_opt_block,
           hx_last_seen_block := sample_opt_block, last_committed_block_ht := blk_height sample_opt_block\<rparr>))"
      "sp_block_hash p = blk_hash sample_opt_block"
    by (rule optsync_propose_step [OF inv cert ht, of "sample_bh []" "sample_batch []", unfolded kid])
  have own: "cert_msg own = VoteCert 0 (blk_hash sample_opt_block)" "length (cert_votes own) = 1"
    using p(3) opt_inv_start [OF sample_optsync_inits(1)] by (auto simp: own_vote_def empty_cert_def Let_def opt_inv_def sync_inv_def)
  have l: "hx_storage ld = add_delivered_block block_get_hash block_get_height sample_opt_block (genesis_storage sample_ext)"
    "cert_map ld = fmupd [] empty_cert fmempty" "hx_last_seen_block ld = sample_opt_block" "bx_pending (hx_batch ld) = []"
    "resp_cert ld = fmempty" "vote_map ld = fmupd (blk_hash sample_opt_block) own (vote_map (sample_optsync 0))"
    "hx_num_nodes ld = 4" "hx_num_faults ld = 1" "hx_keys ld = hx_keys (sample_optsync 0)"
    by (simp_all add: p(4) start_timer_def sample_optsync_simps) (simp_all add: synchs_multicast_def synchs_deliver_def sample_optsync_simps)
  have "optsync_drain sample_ext ld = Inr ld"
    using sample_opt_block_simps(1) by (simp add: optsync_drain.simps [of _ ld] l)
  moreover have "last_leader (sample_optsync 0) = 0" using opt_inv_start [OF sample_optsync_inits(1)] by (simp add: opt_inv_def sync_inv_def)
  ultimately have "optsync_drain sample_ext (enqueue_batch (sample_bh []) (sample_batch []) (sample_optsync 0)) = Inr ld"
    using p(1) by (subst optsync_drain.simps) (simp add: enqueue_batch_def pend optsync_next_leader_def sample_optsync_simps GENESIS_BLOCK_def)
  then have "optsync_step sample_ext (sample_optsync 0) ld"
    by (intro optsync_reacts [of _ "SyBatchReady (sample_bh []) (sample_batch [])"]) (simp_all add: optsync_loop sync_loop_def)
  with own l that show thesis by (simp add: block_get_hash_def block_get_height_def sample_opt_block_simps)
qed

theorem optsync_foreign_view_vote_spoils_certificate_witness:
  "\<exists>ld d ld' cert'. optsync_on_vote sample_ext \<lparr>cert_msg = VoteCert 9 (blk_hash sample_opt_block),
       cert_votes = [\<lparr>v_origin = 1, v_auth = 1 # enc_cert_type (VoteCert 9 (blk_hash sample_opt_block))\<rparr>]\<rparr>
       ((SyncPropose_new sample_ext)\<lparr>sp_block_hash := blk_hash sample_opt_block\<rparr>) ld = Inr (d, ld') \<and>
     fmlookup (cert_map ld') (blk_hash sample_opt_block) = Some cert'"
proof -
  obtain ld own where ld: "optsync_step sample_ext (sample_optsync 0) ld" "fmlookup (vote_map ld) (blk_hash sample_opt_block) = Some own"
    "cert_msg own = VoteCert 0 (blk_hash sample_opt_block)" "length (cert_votes own) = 1" "resp_cert ld = fmempty" "hx_num_nodes ld = 4" "hx_num_faults ld = 1"
    "delivered_block_from_hash (hx_storage ld) (blk_hash sample_opt_block) = Some sample_opt_block"
    "delivered_block_from_ht (hx_storage ld) 1 = Some sample_opt_block" "hx_keys ld = hx_keys (sample_optsync 0)" "bx_pending (hx_batch ld) = []"
    by (rule sample_opt_leader)
  let ?h = "blk_hash sample_opt_block" and ?vt = "\<lparr>v_origin = 1, v_auth = 1 # enc_cert_type (VoteCert 9 (blk_hash sample_opt_block))\<rparr>"
  have ser: "ser_cert_type sample_ext = enc_cert_type" by (simp add: sample_ext_def)
  have "\<exists>d ld' cert'. optsync_on_vote sample_ext \<lparr>cert_msg = VoteCert 9 ?h, cert_votes = [?vt]\<rparr>
      ((SyncPropose_new sample_ext)\<lparr>sp_block_hash := ?h\<rparr>) ld = Inr (d, ld') \<and> fmlookup (cert_map ld') ?h = Some cert' \<and>
      (\<forall>fo q blk. hx_keys fo = hx_keys ld \<longrightarrow> sp_cert q = cert' \<longrightarrow> blk_height blk \<noteq> 1 \<longrightarrow>
         optsync_check_proposal sample_ext q blk fo \<noteq> Inr True)"
    by (rule optsync_foreign_view_vote_spoils_certificate [OF sample_optsync_inits(1) r_into_rtranclp [of "optsync_step sample_ext", OF ld(1)] ld(2) _ _ _ ld(8), where pk = "[1]"])
      (simp_all add: ld(3-7,10) ld(9) [unfolded One_nat_def] sample_opt_block_simps(2) sample_optsync_simps ser enc_nat_def)
  then show ?thesis by blast
qed

theorem optsync_certificates_authentic_witness:
  "\<exists>cx c. (optsync_step sample_ext)\<^sup>*\<^sup>* (sample_optsync 0) cx \<and> fmlookup (cert_map cx) (blk_hash sample_opt_block) = Some c \<and>
     1 < length (cert_votes c) \<and> signed_vote sample_ext (hx_keys cx) (blk_hash sample_opt_block) (last (cert_votes c))"
proof -
  obtain ld own where ld: "optsync_step sample_ext (sample_optsync 0) ld" "fmlookup (vote_map ld) (blk_hash sample_opt_block) = Some own"
    "cert_msg own = VoteCert 0 (blk_hash sample_opt_block)" "length (cert_votes own) = 1" "resp_cert ld = fmempty" "hx_num_nodes ld = 4" "hx_num_faults ld = 1"
    "delivered_block_from_hash (hx_storage ld) (blk_hash sample_opt_block) = Some sample_opt_block"
    "delivered_block_from_ht (hx_storage ld) 1 = Some sample_opt_block" "hx_keys ld = hx_keys (sample_optsync 0)" "bx_pending (hx_batch ld) = []"
    by (rule sample_opt_leader)
  let ?h = "blk_hash sample_opt_block" and ?p = "(SyncPropose_new sample_ext)\<lparr>sp_block_hash := blk_hash sample_opt_block\<rparr>"
  let ?vt = "\<lparr>v_origin = 1, v_auth = 1 # enc_cert_type (VoteCert 0 ?h)\<rparr>"
  let ?c = "\<lparr>cert_msg = VoteCert 0 ?h, cert_votes = [?vt]\<rparr>" and ?cert = "own\<lparr>cert_votes := cert_votes own @ [?vt]\<rparr>"
  have ser: "ser_cert_type sample_ext = enc_cert_type" by (simp add: sample_ext_def)
  have "optsync_vote_target sample_ext ?c ?p ld = Inr (Some ?h)"
    unfolding optsync_shared using ld(8,9) sample_opt_block_simps(2)
    by (intro vote_target_ok [where pk = "[1]" and v = 0 and vt = ?vt and b = sample_opt_block]) (simp_all add: ld(10) sample_optsync_simps ser)
  then have v: "optsync_process_msg sample_ext (SyVoteMsg ?c ?p) ld =
      Inr (ld\<lparr>vote_map := fmupd ?h ?cert (fmdrop ?h (vote_map ld)), cert_map := fmupd ?h ?cert (cert_map ld), last_seen_cert := ?cert\<rparr>)"
    using ld(2,4-7) by (simp add: optsync_process_msg_def optsync_on_vote_def optsync_add_vote_def pop_vote_def mul_u64_def Let_def)
  let ?ld = "ld\<lparr>vote_map := fmupd ?h ?cert (fmdrop ?h (vote_map ld)), cert_map := fmupd ?h ?cert (cert_map ld), last_seen_cert := ?cert\<rparr>"
  have "optsync_drain sample_ext ?ld = Inr ?ld" by (subst optsync_drain.simps) (simp add: ld(11))
  with v have "optsync_step sample_ext ld ?ld"
    by (intro optsync_reacts [of _ "SyNet (SyVoteMsg ?c ?p)"]) (simp_all add: optsync_loop sync_loop_def)
  with ld(1) have reach: "(optsync_step sample_ext)\<^sup>*\<^sup>* (sample_optsync 0) ?ld" by (meson r_into_rtranclp rtranclp.rtrancl_into_rtrancl)
  have c: "fmlookup (cert_map ?ld) ?h = Some ?cert" "?h \<noteq> EMPTY_HASH sample_ext" using sample_opt_block_simps(1) by simp_all
  with optsync_certificates_authentic [OF sample_optsync_inits(1) reach] have "hx_num_faults ?ld < length (cert_votes ?cert)"
      "\<forall>vt\<in>set (cert_votes ?cert). signed_vote sample_ext (hx_keys ?ld) ?h vt" by blast+
  with reach c(1) ld(7) show ?thesis by (intro exI [of _ ?ld] exI [of _ ?cert]) simp
qed

theorem optsync_round_witness:
  "\<exists>p ld' fo'. optsync_do_propose sample_ext (sample_bh []) (sample_batch []) (sample_optsync 0) = Inr (p, ld') \<and>
     optsync_process_msg sample_ext (SyNewProposal p sample_opt_block (sample_batch [])) (sample_optsync 1) = Inr fo' \<and>
     hx_last_seen_block ld' = sample_opt_block \<and> hx_last_seen_block fo' = sample_opt_block"
proof -
  have sg: "sign_verifies sample_ext (hx_secret (sample_optsync 0)) [0]" "sign_verifies sample_ext (hx_secret (sample_optsync 1)) [1]"
    using sample_sign_verifies [of "[0]"] sample_sign_verifies [of "[1]"] by (simp_all add: sample_optsync_simps)
  have fresh: "\<not> is_delivered_by_hash (hx_storage (sample_optsync 1)) (blk_hash sample_opt_block)"
    "\<not> fmmem (blk_hash sample_opt_block) (resp_cert (sample_optsync 0))"
    using sample_opt_block_simps(1) by (simp_all add: sample_optsync_simps)
  have prem: "hx_myid (sample_optsync 0) = 0" "hx_last_seen_block (sample_optsync 1) = hx_last_seen_block (sample_optsync 0)"
    "blk_height (hx_last_seen_block (sample_optsync 0)) + 1 < 2 ^ 64"
    "fmlookup (cert_map (sample_optsync 0)) (blk_hash (hx_last_seen_block (sample_optsync 0))) = Some empty_cert"
    "acceptable_cert sample_ext (sample_optsync 1) (hx_last_seen_block (sample_optsync 0)) empty_cert"
    "hx_myid (sample_optsync 1) \<in> set (nx_broadcast_peers (hx_net (sample_optsync 0)))"
    "hx_myid (sample_optsync 0) \<in> set (nx_broadcast_peers (hx_net (sample_optsync 1)))"
    "fmlookup (hx_keys (sample_optsync 1)) 0 = Some [0]" "fmlookup (hx_keys (sample_optsync 0)) (hx_myid (sample_optsync 1)) = Some [1]"
    "hx_num_faults (sample_optsync 1) + 1 < 2 ^ 64" "3 * hx_num_nodes (sample_optsync 0) < 2 ^ 64"
    by (simp_all add: sample_optsync_simps acceptable_cert_def GENESIS_BLOCK_def)
  show ?thesis
    using optsync_round [OF sample_optsync_inits(1) rtranclp.rtrancl_refl sample_optsync_inits(2) rtranclp.rtrancl_refl prem(1-8)
        sg(1) prem(9) sg(2) sample_bh_def [symmetric] prem(10,11) fresh [unfolded sample_opt_block_def]]
    unfolding sample_opt_block_def
    apply (elim exE conjE)
    subgoal for p ld' fo' vt d ld'' cert' by (intro exI [of _ p] exI [of _ ld'] exI [of _ fo'] conjI)
    done
qed

end
