(* ===== verification/Command_Line.thy ===== *)
theory Command_Line
  imports Prelude
begin

text \<open>
  The command lines of the programs (the \<open>cli.yml\<close> files of \<open>tools/genconfig\<close>,
  \<open>examples/*/node\<close> and \<open>examples/*/client\<close>). The parser, clap, is another repository: a function from a description of the
  options and the arguments to the values, about which \<open>clap_ok\<close> states what its documentation
  promises for arguments that match the description.
\<close>

record cli_arg =
  ca_name :: string
  ca_short :: "string option"
  ca_long :: "string option"
  ca_takes_value :: bool
  ca_required :: bool
  ca_possible :: "string list"

type_synonym clap = "cli_arg list \<Rightarrow> string list \<Rightarrow> (string \<Rightarrow> string option) option"

section \<open>The descriptions\<close>

definition value_arg :: "bool \<Rightarrow> string \<Rightarrow> string option \<Rightarrow> string option \<Rightarrow> cli_arg" where
  "value_arg req name s l =
     \<lparr>ca_name = name, ca_short = s, ca_long = l, ca_takes_value = True, ca_required = req, ca_possible = []\<rparr>"

definition flag_arg :: "string \<Rightarrow> string \<Rightarrow> cli_arg" where
  "flag_arg name s =
     \<lparr>ca_name = name, ca_short = Some s, ca_long = None, ca_takes_value = False, ca_required = False, ca_possible = []\<rparr>"

definition genconfig_cli :: "cli_arg list" where
  "genconfig_cli =
     [value_arg True ''num_nodes'' (Some ''n'') (Some ''NumNodes''),
      value_arg True ''delay'' (Some ''d'') (Some ''delay''),
      value_arg True ''block_size'' (Some ''b'') (Some ''blocksize''),
      value_arg True ''client_base_port'' (Some ''C'') (Some ''client_base_port''),
      value_arg True ''base_port'' (Some ''P'') (Some ''base_port''),
      (value_arg False ''crypto'' (Some ''A'') (Some ''algorithm''))\<lparr>ca_possible := [''ED25519'', ''SECP256K1'']\<rparr>,
      value_arg False ''num_faults'' (Some ''f'') (Some ''faults''),
      (value_arg False ''out_type'' (Some ''o'') (Some ''out_type''))\<lparr>ca_possible := [''json'', ''binary'', ''toml'', ''yaml'']\<rparr>,
      value_arg False ''target'' (Some ''t'') (Some ''target''),
      value_arg False ''payload'' (Some ''l'') (Some ''payload''),
      value_arg True ''client_listen_port'' (Some ''L'') (Some ''client_listen_port''),
      value_arg False ''num_clients'' (Some ''c'') (Some ''num_clients''),
      value_arg True ''mempool_base_port'' (Some ''M'') (Some ''mempool_base_port''),
      value_arg False ''node_ips'' (Some ''I'') (Some ''node_ips''),
      value_arg False ''client_ips'' (Some ''K'') (Some ''client_ips'')]"

definition keyed_node_cli :: "cli_arg list" where
  "keyed_node_cli =
     [value_arg True ''config'' (Some ''c'') (Some ''config''),
      flag_arg ''debug'' ''v'',
      value_arg True ''ip'' (Some ''i'') (Some ''ip''),
      flag_arg ''special_client'' ''s'',
      value_arg False ''delta'' (Some ''d'') (Some ''delta''),
      value_arg False ''sleep'' None (Some ''sleep''),
      value_arg False ''store'' None (Some ''store'')]"

definition count_node_cli :: "cli_arg list" where
  "count_node_cli =
     [value_arg True ''config'' (Some ''c'') (Some ''config''),
      flag_arg ''debug'' ''v'',
      value_arg True ''ip'' (Some ''i'') (Some ''ip''),
      value_arg False ''delta'' (Some ''d'') (Some ''delta''),
      value_arg False ''sleep'' None (Some ''sleep''),
      value_arg False ''store'' (Some ''s'') (Some ''store'')]"

definition keyed_client_cli :: "cli_arg list" where
  "keyed_client_cli =
     [value_arg True ''config'' (Some ''c'') (Some ''config''),
      flag_arg ''debug'' ''v'',
      value_arg False ''metrics'' (Some ''m'') None,
      value_arg False ''window'' (Some ''w'') None,
      value_arg False ''rate'' (Some ''r'') (Some ''rate''),
      value_arg False ''burst_interval_ms'' None (Some ''burst-interval-ms''),
      value_arg True ''ip'' (Some ''i'') (Some ''ip'')]"

definition count_client_cli :: "cli_arg list" where
  "count_client_cli =
     [value_arg True ''config'' (Some ''c'') (Some ''config''),
      flag_arg ''debug'' ''v'',
      value_arg False ''metrics'' (Some ''m'') None,
      value_arg False ''window'' (Some ''w'') None,
      value_arg True ''ip'' (Some ''i'') (Some ''ip'')]"

section \<open>Arguments that match a description\<close>

datatype given = Val string string | Flag string

fun render :: "given \<Rightarrow> string list" where
  "render (Val f v) = [f, v]"
| "render (Flag f) = [f]"

definition answers :: "string \<Rightarrow> cli_arg \<Rightarrow> bool" where
  "answers f a \<longleftrightarrow>
     (case ca_short a of None \<Rightarrow> False | Some s \<Rightarrow> f = ''-'' @ s) \<or> (case ca_long a of None \<Rightarrow> False | Some l \<Rightarrow> f = ''--'' @ l)"

definition find_arg :: "cli_arg list \<Rightarrow> string \<Rightarrow> cli_arg option" where
  "find_arg cli f = List.find (answers f) cli"

fun given_name :: "cli_arg list \<Rightarrow> given \<Rightarrow> string" where
  "given_name cli (Val f v) = (case find_arg cli f of None \<Rightarrow> [] | Some a \<Rightarrow> ca_name a)"
| "given_name cli (Flag f) = (case find_arg cli f of None \<Rightarrow> [] | Some a \<Rightarrow> ca_name a)"

fun given_ok :: "cli_arg list \<Rightarrow> given \<Rightarrow> bool" where
  "given_ok cli (Val f v) \<longleftrightarrow>
     (case find_arg cli f of
        None \<Rightarrow> False
      | Some a \<Rightarrow> ca_takes_value a \<and> v \<noteq> [] \<and> hd v \<noteq> CHR ''-'' \<and> (ca_possible a = [] \<or> v \<in> set (ca_possible a)))"
| "given_ok cli (Flag f) \<longleftrightarrow> (case find_arg cli f of None \<Rightarrow> False | Some a \<Rightarrow> \<not> ca_takes_value a)"

definition well_given :: "cli_arg list \<Rightarrow> given list \<Rightarrow> bool" where
  "well_given cli gs \<longleftrightarrow>
     list_all (given_ok cli) gs \<and> distinct (map (given_name cli) gs) \<and>
     list_all (\<lambda>a. ca_required a \<longrightarrow> ca_name a \<in> set (map (given_name cli) gs)) cli"

fun given_values :: "cli_arg list \<Rightarrow> given list \<Rightarrow> (string \<times> string) list" where
  "given_values cli [] = []"
| "given_values cli (Val f v # gs) = (given_name cli (Val f v), v) # given_values cli gs"
| "given_values cli (Flag f # gs) = given_values cli gs"

definition clap_ok :: "clap \<Rightarrow> bool" where
  "clap_ok clap \<longleftrightarrow>
     (\<forall>cli gs. well_given cli gs \<longrightarrow> clap cli (concat (map render gs)) = Some (map_of (given_values cli gs)))"

lemma clap_given: "clap_ok clap \<Longrightarrow> args = concat (map render gs) \<Longrightarrow> well_given cli gs \<Longrightarrow> clap cli args = Some (map_of (given_values cli gs))"
  by (simp add: clap_ok_def)

section \<open>A parser that keeps the promise\<close>

fun walk_args :: "cli_arg list \<Rightarrow> string list \<Rightarrow> (string \<times> string) list option" where
  "walk_args cli [] = Some []"
| "walk_args cli (f # rest) =
     (case find_arg cli f of
        None \<Rightarrow> None
      | Some a \<Rightarrow>
          if ca_takes_value a
          then (case rest of v # rest' \<Rightarrow> map_option (Cons (ca_name a, v)) (walk_args cli rest') | [] \<Rightarrow> None)
          else walk_args cli rest)"

definition sample_clap :: clap where
  "sample_clap cli args = map_option map_of (walk_args cli args)"

lemma walk_args_given: "list_all (given_ok cli) gs \<Longrightarrow> walk_args cli (concat (map render gs)) = Some (given_values cli gs)"
proof (induction gs)
  case (Cons g gs)
  then show ?case by (cases g) (auto split: option.splits)
qed simp

lemma sample_clap_ok: "clap_ok sample_clap"
  by (simp add: clap_ok_def sample_clap_def well_given_def walk_args_given)

end
