(* ===== verification/Config.thy ===== *)
theory Config
  imports Sample_Node
begin

text \<open>
  The configuration of nodes and clients (crate \<open>config\<close>): validation, defaults, and the update of
  the address map from a list of addresses. A hash map is a finite map; where the code iterates over
  one, the order is an argument: \<open>ids\<close> lists the keys of \<open>net_map\<close>, \<open>pks\<close> the entries of \<open>pk_map\<close> or
  \<open>server_pk\<close>. Reading and writing configurations is in
  \<open>Config_Files\<close>.
\<close>

section \<open>Errors\<close>

datatype parse_error =
    InvalidMapLen nat nat
  | IncorrectFaults nat nat
  | InvalidMapEntry replica
  | InvalidPkSize nat
  | InvalidSkSize nat
  | Unimplemented string

definition is_valid_replica :: "replica \<Rightarrow> nat \<Rightarrow> bool" where
  "is_valid_replica r n \<longleftrightarrow> n > r"

section \<open>Validation\<close>

fun check_replicas :: "nat \<Rightarrow> replica list \<Rightarrow> parse_error + unit" where
  "check_replicas n [] = Inr ()"
| "check_replicas n (r # rs) = (if \<not> is_valid_replica r n then Inl (InvalidMapEntry r) else check_replicas n rs)"

fun check_public_keys :: "nat \<Rightarrow> (replica \<times> bytes) list \<Rightarrow> parse_error + unit" where
  "check_public_keys n [] = Inr ()"
| "check_public_keys n ((r, pk) # rest) =
     (if \<not> is_valid_replica r n then Inl (InvalidMapEntry r)
      else if pk = [] then Inl (InvalidPkSize (length pk))
      else check_public_keys n rest)"

definition Node_validate :: "node_config \<Rightarrow> replica list \<Rightarrow> (replica \<times> bytes) list \<Rightarrow> (parse_error + unit) res" where
  "Node_validate c ids pks =
     (let len = fcard (fmdom (nc_net_map c))
      in if len \<noteq> nc_num_nodes c then Inr (Inl (InvalidMapLen (nc_num_nodes c) len))
         else rbind (mul_u64 2 (nc_num_faults c)) (\<lambda>f2.
           if f2 \<ge> nc_num_nodes c then Inr (Inl (IncorrectFaults (nc_num_faults c) (nc_num_nodes c)))
           else
             case check_replicas (nc_num_nodes c) ids of
               Inl e \<Rightarrow> Inr (Inl e)
             | Inr _ \<Rightarrow>
                 (case nc_crypto_alg c of
                    RSA \<Rightarrow> Inr (Inl (Unimplemented ''RSA''))
                  | _ \<Rightarrow>
                      (case check_public_keys (nc_num_nodes c) pks of
                         Inl e \<Rightarrow> Inr (Inl e)
                       | Inr _ \<Rightarrow>
                           if nc_secret_key_bytes c = [] then Inr (Inl (InvalidSkSize (length (nc_secret_key_bytes c))))
                           else Inr (Inr ())))))"

definition default_bench_emit_window_secs :: nat where
  "default_bench_emit_window_secs = 1"

definition Node_new :: node_config where
  "Node_new =
     \<lparr>nc_net_map = fmempty, nc_mempool_net_map = fmempty, nc_client_net_map = fmempty, nc_delta = 50, nc_id = 0,
      nc_num_nodes = 0, nc_num_faults = 0, nc_block_size = 0, nc_client_port = 0, nc_mempool_port = 0, nc_payload = 0,
      nc_bench_emit_window_secs = default_bench_emit_window_secs, nc_bench_metrics_node = 0, nc_crypto_alg = ED25519,
      nc_pk_map = fmempty, nc_secret_key_bytes = [], nc_my_cert_path = [], nc_my_cert_key_path = [],
      nc_root_cert_path = []\<rparr>"

record client_config =
  cc_net_map :: "(replica, string) fmap"
  cc_crypto_alg :: algorithm
  cc_server_pk :: "(replica, bytes) fmap"
  cc_num_nodes :: nat
  cc_num_faults :: nat
  cc_block_size :: nat
  cc_payload :: nat
  cc_my_id :: client_id
  cc_my_listen_addr :: string
  cc_my_cert_path :: string
  cc_my_cert_key_path :: string
  cc_root_cert_path :: string

definition Client_validate :: "client_config \<Rightarrow> replica list \<Rightarrow> (replica \<times> bytes) list \<Rightarrow> (parse_error + unit) res" where
  "Client_validate c ids pks =
     (let len = fcard (fmdom (cc_net_map c))
      in if len \<noteq> cc_num_nodes c then Inr (Inl (InvalidMapLen (cc_num_nodes c) len))
         else rbind (mul_u64 2 (cc_num_faults c)) (\<lambda>f2.
           if f2 \<ge> cc_num_nodes c then Inr (Inl (IncorrectFaults (cc_num_faults c) (cc_num_nodes c)))
           else
             case check_replicas (cc_num_nodes c) ids of
               Inl e \<Rightarrow> Inr (Inl e)
             | Inr _ \<Rightarrow>
                 (case cc_crypto_alg c of
                    RSA \<Rightarrow> Inr (Inl (Unimplemented ''RSA''))
                  | _ \<Rightarrow> Inr (check_public_keys (cc_num_nodes c) pks))))"

definition Client_new :: client_config where
  "Client_new =
     \<lparr>cc_net_map = fmempty, cc_crypto_alg = ED25519, cc_server_pk = fmempty, cc_num_nodes = 0, cc_num_faults = 0,
      cc_block_size = 0, cc_payload = 0, cc_my_id = 0, cc_my_listen_addr = [], cc_my_cert_path = [],
      cc_my_cert_key_path = [], cc_root_cert_path = []\<rparr>"

section \<open>Addresses\<close>

text \<open>The decimal text of a number, as \<open>format!\<close> prints it, and \<open>u16::from_str\<close>, which accepts a leading \<open>+\<close>.\<close>

definition digit_char :: "nat \<Rightarrow> char" where
  "digit_char d = char_of (48 + d)"

fun show_nat :: "nat \<Rightarrow> string" where
  "show_nat n = (if n < 10 then [digit_char n] else show_nat (n div 10) @ [digit_char (n mod 10)])"

declare show_nat.simps [simp del]

definition digit_of :: "char \<Rightarrow> nat option" where
  "digit_of c = (let k = of_char c :: nat in if 48 \<le> k \<and> k \<le> 57 then Some (k - 48) else None)"

fun parse_digits :: "nat \<Rightarrow> string \<Rightarrow> nat option" where
  "parse_digits acc [] = Some acc"
| "parse_digits acc (c # cs) = (case digit_of c of None \<Rightarrow> None | Some d \<Rightarrow> parse_digits (10 * acc + d) cs)"

definition parse_u16 :: "string \<Rightarrow> nat option" where
  "parse_u16 s =
     (let t = (case s of c # cs \<Rightarrow> if c = CHR ''+'' then cs else s | [] \<Rightarrow> [])
      in if t = [] then None
         else case parse_digits 0 t of None \<Rightarrow> None | Some n \<Rightarrow> if n < 2 ^ 16 then Some n else None)"

text \<open>\<open>ip.split(":").last()\<close>: what follows the last colon, or the whole text when there is none.\<close>

definition after_last_colon :: "string \<Rightarrow> string" where
  "after_last_colon ip = rev (takeWhile (\<lambda>c. c \<noteq> CHR '':'') (rev ip))"

definition any_addr :: "nat \<Rightarrow> string" where
  "any_addr port = ''0.0.0.0:'' @ show_nat port"

text \<open>One turn of the loop over the addresses; the state is the counter and the map.\<close>

definition node_put_ip :: "replica \<Rightarrow> string \<Rightarrow> nat \<times> (replica, string) fmap \<Rightarrow> (nat \<times> (replica, string) fmap) res" where
  "node_put_ip me ip = (\<lambda>(idx, m).
     if idx = me then
       rbind (expect ''failed to parse the port after :'' (parse_u16 (after_last_colon ip))) (\<lambda>port.
       rbind (add_u16 idx 1) (\<lambda>next. Inr (next, fmupd idx (any_addr port) m)))
     else rbind (add_u16 idx 1) (\<lambda>next. Inr (next, fmupd idx ip m)))"

definition Node_update_config :: "string list \<Rightarrow> node_config \<Rightarrow> node_config res" where
  "Node_update_config ips c =
     rbind (rfold (node_put_ip (nc_id c)) ips (0, nc_net_map c)) (\<lambda>(_, m). Inr (c\<lparr>nc_net_map := m\<rparr>))"

definition client_put_ip :: "string \<Rightarrow> nat \<times> (replica, string) fmap \<Rightarrow> (nat \<times> (replica, string) fmap) res" where
  "client_put_ip ip = (\<lambda>(idx, m). rbind (add_u16 idx 1) (\<lambda>next. Inr (next, fmupd idx ip m)))"

definition Client_update_config :: "string list \<Rightarrow> client_config \<Rightarrow> client_config res" where
  "Client_update_config ips c =
     rbind (rfold client_put_ip ips (0, cc_net_map c)) (\<lambda>(_, m). Inr (c\<lparr>cc_net_map := m\<rparr>))"

definition my_ip :: "node_config \<Rightarrow> string res" where
  "my_ip c = expect ''Failed to obtain IP for self. Incorrect config file.'' (fmlookup (nc_net_map c) (nc_id c))"

definition client_ip :: "node_config \<Rightarrow> string" where
  "client_ip c = any_addr (nc_client_port c)"

definition mempool_ip :: "node_config \<Rightarrow> string" where
  "mempool_ip c = any_addr (nc_mempool_port c)"

section \<open>Laws of the text of a port\<close>

lemma digit_roundtrip: "d < 10 \<Longrightarrow> digit_of (digit_char d) = Some d"
  by (simp add: digit_of_def digit_char_def Let_def)

lemma parse_digits_append: "parse_digits acc (xs @ ys) = (case parse_digits acc xs of None \<Rightarrow> None | Some a \<Rightarrow> parse_digits a ys)"
  by (induction xs arbitrary: acc) (simp_all split: option.splits)

lemma parse_show: "parse_digits 0 (show_nat n) = Some n"
proof (induction n rule: show_nat.induct)
  case (1 n)
  show ?case
  proof (cases "n < 10")
    case True
    then show ?thesis by (simp add: show_nat.simps [of n] digit_roundtrip)
  next
    case False
    then show ?thesis using 1 by (simp add: show_nat.simps [of n] parse_digits_append digit_roundtrip)
  qed
qed

lemma show_nat_digits: "c \<in> set (show_nat n) \<Longrightarrow> digit_of c \<noteq> None"
proof (induction n rule: show_nat.induct)
  case (1 n)
  then show ?case by (cases "n < 10") (auto simp: show_nat.simps [of n] digit_roundtrip)
qed

lemma show_nat_nonempty: "show_nat n \<noteq> []"
  by (subst show_nat.simps) simp

lemma show_nat_no_sign: "c \<in> set (show_nat n) \<Longrightarrow> c \<noteq> CHR ''+'' \<and> c \<noteq> CHR '':''"
  using show_nat_digits [of c n] by (auto simp: digit_of_def)

lemma parse_u16_show: "n < 2 ^ 16 \<Longrightarrow> parse_u16 (show_nat n) = Some n"
proof -
  assume n: "n < 2 ^ 16"
  obtain c cs where s: "show_nat n = c # cs" using show_nat_nonempty by (cases "show_nat n") auto
  then have "c \<noteq> CHR ''+''" using show_nat_no_sign [of c n] by simp
  with s n parse_show [of n] show ?thesis by (simp add: parse_u16_def)
qed

lemma after_last_colon_any: "after_last_colon (any_addr n) = show_nat n"
proof -
  have "takeWhile (\<lambda>c. c \<noteq> CHR '':'') (rev (show_nat n) @ CHR '':'' # rest) = rev (show_nat n)" for rest
    using show_nat_no_sign [of _ n] by (subst takeWhile_append2) auto
  then show ?thesis by (simp add: after_last_colon_def any_addr_def)
qed

section \<open>Properties\<close>

lemma check_replicas_ok: "check_replicas n rs = Inr () \<longleftrightarrow> (\<forall>r\<in>set rs. r < n)"
  by (induction rs) (simp_all add: is_valid_replica_def)

lemma check_public_keys_ok: "check_public_keys n pks = Inr () \<longleftrightarrow> (\<forall>(r, pk)\<in>set pks. r < n \<and> pk \<noteq> [])"
  by (induction pks rule: check_public_keys.induct) (auto simp: is_valid_replica_def)

lemma node_validate_steps:
  "Node_validate c ids pks = Inr (Inr ()) \<longleftrightarrow>
     fcard (fmdom (nc_net_map c)) = nc_num_nodes c \<and> 2 * nc_num_faults c < 2 ^ 64 \<and> 2 * nc_num_faults c < nc_num_nodes c \<and>
     check_replicas (nc_num_nodes c) ids = Inr () \<and> nc_crypto_alg c \<noteq> RSA \<and>
     check_public_keys (nc_num_nodes c) pks = Inr () \<and> nc_secret_key_bytes c \<noteq> []"
  by (cases "check_replicas (nc_num_nodes c) ids"; cases "check_public_keys (nc_num_nodes c) pks")
    (auto simp: Node_validate_def Let_def mul_u64_def split: algorithm.splits if_splits)

lemma client_validate_steps:
  "Client_validate c ids pks = Inr (Inr ()) \<longleftrightarrow>
     fcard (fmdom (cc_net_map c)) = cc_num_nodes c \<and> 2 * cc_num_faults c < 2 ^ 64 \<and> 2 * cc_num_faults c < cc_num_nodes c \<and>
     check_replicas (cc_num_nodes c) ids = Inr () \<and> cc_crypto_alg c \<noteq> RSA \<and> check_public_keys (cc_num_nodes c) pks = Inr ()"
  by (cases "check_replicas (cc_num_nodes c) ids"; cases "check_public_keys (cc_num_nodes c) pks")
    (auto simp: Client_validate_def Let_def mul_u64_def split: algorithm.splits if_splits)

text \<open>A map with as many entries as there are replicas, all of them replicas, has exactly the replicas as keys.\<close>

lemma exact_keys:
  assumes "set ids = fset (fmdom m)"
  shows "fcard (fmdom m) = n \<and> (\<forall>r\<in>set ids. r < n) \<longleftrightarrow> fset (fmdom m) = {0..<n :: nat}"
proof
  assume "fcard (fmdom m) = n \<and> (\<forall>r\<in>set ids. r < n)"
  then have "fset (fmdom m) \<subseteq> {0..<n}" "card (fset (fmdom m)) = card {0..<n}" using assms by (auto simp: fcard.rep_eq)
  then show "fset (fmdom m) = {0..<n}" by (intro card_subset_eq) simp_all
next
  assume "fset (fmdom m) = {0..<n}"
  with assms show "fcard (fmdom m) = n \<and> (\<forall>r\<in>set ids. r < n)" by (auto simp: fcard.rep_eq)
qed

text \<open>
  C34: A node's configuration is valid exactly when the address map has one entry for each of the
  replicas 0 to \<open>num_nodes - 1\<close> and no other, fewer than half of them may be faulty, the algorithm is
  implemented, every public key present belongs to such a replica and is not empty, and the secret
  key is not empty. (That every replica has a public key is not among the conditions.)
\<close>
theorem node_validate_correct:
  assumes "set ids = fset (fmdom (nc_net_map c))" and "2 * nc_num_faults c < 2 ^ 64"
  shows "Node_validate c ids pks = Inr (Inr ()) \<longleftrightarrow>
    fset (fmdom (nc_net_map c)) = {0..<nc_num_nodes c} \<and> 2 * nc_num_faults c < nc_num_nodes c \<and> nc_crypto_alg c \<noteq> RSA \<and>
    (\<forall>(r, pk)\<in>set pks. r < nc_num_nodes c \<and> pk \<noteq> []) \<and> nc_secret_key_bytes c \<noteq> []"
  using assms(2) exact_keys [OF assms(1)]
  unfolding node_validate_steps check_replicas_ok check_public_keys_ok by blast

lemma put_ips:
  assumes "idx + length ips < 2 ^ 16"
    and "\<And>k. k < length ips \<Longrightarrow> idx + k = me \<Longrightarrow> parse_u16 (after_last_colon (ips ! k)) = Some port"
  shows "\<exists>m'. rfold (node_put_ip me) ips (idx, m) = Inr (idx + length ips, m') \<and>
    (\<forall>i. fmlookup m' i = (if idx \<le> i \<and> i < idx + length ips then Some (if i = me then any_addr port else ips ! (i - idx)) else fmlookup m i))"
  using assms
proof (induction ips arbitrary: idx m)
  case Nil
  then show ?case by auto
next
  case (Cons ip ips)
  let ?v = "if idx = me then any_addr port else ip"
  have step: "node_put_ip me ip (idx, m) = Inr (Suc idx, fmupd idx ?v m)"
    using Cons.prems(1) Cons.prems(2) [of 0] by (simp add: node_put_ip_def add_u16_def)
  have "parse_u16 (after_last_colon (ips ! k)) = Some port" if "k < length ips" "Suc idx + k = me" for k
    using that Cons.prems(2) [of "Suc k"] by simp
  with Cons.IH [of "Suc idx" "fmupd idx ?v m"] Cons.prems(1) obtain m' where
    m': "rfold (node_put_ip me) ips (Suc idx, fmupd idx ?v m) = Inr (Suc idx + length ips, m')"
      "\<forall>i. fmlookup m' i = (if Suc idx \<le> i \<and> i < Suc idx + length ips then Some (if i = me then any_addr port else ips ! (i - Suc idx))
         else fmlookup (fmupd idx ?v m) i)" by auto
  have "fmlookup m' i = (if idx \<le> i \<and> i < idx + length (ip # ips) then Some (if i = me then any_addr port else (ip # ips) ! (i - idx))
      else fmlookup m i)" for i
  proof (cases "i = idx")
    case False
    then have "i - idx = Suc (i - Suc idx)" if "idx \<le> i" using that by simp
    with False m'(2) show ?thesis by auto
  qed (use m'(2) in auto)
  with m'(1) step show ?case by (intro exI [of _ m']) simp
qed

text \<open>
  Updating a node's address map from a list of addresses files the i-th address under replica i,
  leaves the entries beyond the list alone, and replaces the node's own address by the wildcard
  address with the same port: the port read back from \<open>my_ip\<close> is the one of the list.
\<close>
theorem update_config_addresses:
  assumes "length ips < 2 ^ 16" and "nc_id c < length ips" and "parse_u16 (after_last_colon (ips ! nc_id c)) = Some port"
  shows "\<exists>c'. Node_update_config ips c = Inr c' \<and> my_ip c' = Inr (any_addr port) \<and>
    parse_u16 (after_last_colon (any_addr port)) = Some port \<and> nc_id c' = nc_id c \<and>
    (\<forall>i. i \<noteq> nc_id c \<longrightarrow> fmlookup (nc_net_map c') i = (if i < length ips then Some (ips ! i) else fmlookup (nc_net_map c) i))"
proof -
  obtain m' where m': "rfold (node_put_ip (nc_id c)) ips (0, nc_net_map c) = Inr (length ips, m')"
      "\<forall>i. fmlookup m' i = (if i < length ips then Some (if i = nc_id c then any_addr port else ips ! i) else fmlookup (nc_net_map c) i)"
    using put_ips [of 0 ips "nc_id c" port "nc_net_map c"] assms by auto
  have "port < 2 ^ 16" using assms(3) by (auto simp: parse_u16_def Let_def split: if_splits option.splits)
  with m' assms(2) show ?thesis
    by (simp add: Node_update_config_def my_ip_def after_last_colon_any parse_u16_show)
qed

section \<open>Witnesses\<close>

theorem node_validate_correct_witness:
  "Node_validate ((sample_config 0)\<lparr>nc_net_map := fmap_of_list [(0, ''a''), (1, ''b''), (2, ''c''), (3, ''d'')]\<rparr>) [0, 1, 2, 3] [] = Inr (Inr ())"
proof -
  let ?c = "(sample_config 0)\<lparr>nc_net_map := fmap_of_list [(0, ''a''), (1, ''b''), (2, ''c''), (3, ''d'')]\<rparr>"
  have dom: "fset (fmdom (nc_net_map ?c)) = {0, 1, 2, 3}" by (auto simp: fset_of_list.rep_eq)
  have "{0..<4 :: nat} = {0, 1, 2, 3}" by auto
  with node_validate_correct [of "[0, 1, 2, 3]" ?c "[]"] dom show ?thesis by (simp add: sample_config_def)
qed

theorem update_config_addresses_witness:
  "\<exists>c'. Node_update_config [''10.0.0.1:4000'', ''10.0.0.2:4001''] (sample_config 1) = Inr c' \<and> my_ip c' = Inr ''0.0.0.0:4001''"
proof -
  have p: "parse_u16 (after_last_colon ([''10.0.0.1:4000'', ''10.0.0.2:4001''] ! nc_id (sample_config 1))) = Some 4001"
    by (simp add: sample_config_def after_last_colon_def parse_u16_def digit_of_def Let_def)
  have "any_addr 4001 = ''0.0.0.0:4001''" by (simp add: any_addr_def show_nat.simps digit_char_def char_of_def bit_0)
  with update_config_addresses [OF _ _ p] show ?thesis by (auto simp: sample_config_def)
qed

end
