(* ===== verification/Clients.thy ===== *)
theory Clients
  imports Config
begin

text \<open>
  The benchmark clients. Those of Apollo and Artemis (\<open>consensus/apollo/src/client/start.rs\<close>; the
  Artemis file differs in comments only) send bursts of keyed transactions and count one
  confirmation per transaction. Those of Sync HotStuff and Opt Sync
  (\<open>consensus/synchs/src/client/start.rs\<close>, likewise) keep a window of outstanding transactions and
  wait for more than \<open>num_faults\<close> announcements of a block. The clock is part of the events, in
  milliseconds; sockets are outside: what is broadcast is appended to a list.
\<close>

section \<open>Latency windows\<close>

definition add_u128 :: "nat \<Rightarrow> nat \<Rightarrow> nat res" where
  "add_u128 a b = (if a + b < 2 ^ 128 then Inr (a + b) else Inl Overflow)"

text \<open>What is printed, if anything, and the emptied samples.\<close>

definition emit_window_latency :: "nat list \<Rightarrow> (nat option \<times> nat list) res" where
  "emit_window_latency samples =
     (if samples = [] then Inr (None, samples)
      else
        let samples = sort samples; mid = length samples div 2
        in if length samples mod 2 = 0
           then rbind (add_u128 (samples ! (mid - 1)) (samples ! mid)) (\<lambda>s. Inr (Some (s div 2), []))
           else Inr (Some (samples ! mid), []))"

section \<open>The client of the keyed mempool\<close>

record keyed_client =
  kc_nonce :: nat
  kc_time_map :: "(hash, nat) fmap"
  kc_num_cmds :: nat
  kc_window_samples :: "nat list"
  kc_sent :: "client_msg list"
  kc_printed :: "nat list"

definition keyed_client_start :: keyed_client where
  "keyed_client_start =
     \<lparr>kc_nonce = 1, kc_time_map = fmempty, kc_num_cmds = 0, kc_window_samples = [], kc_sent = [], kc_printed = []\<rparr>"

definition kc_emit :: "keyed_client \<Rightarrow> keyed_client res" where
  "kc_emit s =
     rbind (emit_window_latency (kc_window_samples s)) (\<lambda>(out, samples).
     Inr (s\<lparr>kc_window_samples := samples,
            kc_printed := kc_printed s @ (case out of None \<Rightarrow> [] | Some m \<Rightarrow> [m])\<rparr>))"

text \<open>One transaction of a burst; the state is the client and the batch so far.\<close>

definition kc_mint :: "ext \<Rightarrow> client_config \<Rightarrow> nat \<Rightarrow> keyed_client \<times> transaction list \<Rightarrow> (keyed_client \<times> transaction list) res" where
  "kc_mint E c now = (\<lambda>(s, batch).
     let tx = new_dummy_tx_keyed (cc_my_id c) (kc_nonce s) (cc_payload c)
     in rbind (add_u64 (kc_nonce s) 1) (\<lambda>next.
        let s = s\<lparr>kc_nonce := next\<rparr>; s = s\<lparr>kc_time_map := fmupd (hash_tx E tx) now (kc_time_map s)\<rparr>
        in Inr (s, batch @ [tx])))"

definition kc_burst :: "ext \<Rightarrow> client_config \<Rightarrow> nat \<Rightarrow> nat \<Rightarrow> keyed_client \<Rightarrow> keyed_client res" where
  "kc_burst E c txs_per_burst now s =
     (let burst_size = max txs_per_burst 1
      in rbind (rfold (\<lambda>_. kc_mint E c now) [0..<burst_size] (s, [])) (\<lambda>(s, batch).
         Inr (s\<lparr>kc_sent := kc_sent s @ [NewBatch batch (cc_my_listen_addr c)]\<rparr>)))"

text \<open>\<open>duration_since\<close> of an earlier time is an error, which counts as latency 0.\<close>

definition kc_confirm :: "nat \<Rightarrow> hash \<Rightarrow> keyed_client \<Rightarrow> keyed_client res" where
  "kc_confirm now h s =
     (case fmlookup (kc_time_map s) h of
        None \<Rightarrow> Inr s
      | Some t0 \<Rightarrow>
          let s = s\<lparr>kc_time_map := fmdrop h (kc_time_map s)\<rparr>;
              s = s\<lparr>kc_window_samples := kc_window_samples s @ [now - t0]\<rparr>
          in rbind (add_u128 (kc_num_cmds s) 1) (\<lambda>n. Inr (s\<lparr>kc_num_cmds := n\<rparr>)))"

text \<open>
  The messages that are already there when a confirmation arrives; \<open>None\<close> is one that does not
  decode. The first that is not a confirmation ends the loop.
\<close>

fun kc_drain :: "nat \<Rightarrow> client_msg option list \<Rightarrow> keyed_client \<Rightarrow> keyed_client res" where
  "kc_drain now (Some (Confirmation h) # ms) s = rbind (kc_confirm now h s) (kc_drain now ms)"
| "kc_drain now _ s = Inr s"

datatype keyed_client_event =
    KcLatWindow
  | KcBurst nat
  | KcMessage nat client_msg "client_msg option list"
  | KcBadBytes
  | KcClosed

text \<open>The flag says that \<open>start\<close> has returned.\<close>

definition kc_step ::
  "ext \<Rightarrow> client_config \<Rightarrow> nat \<Rightarrow> nat \<Rightarrow> keyed_client_event \<Rightarrow> keyed_client \<Rightarrow> (keyed_client \<times> bool) res" where
  "kc_step E c metric txs_per_burst ev s =
     (let check = (\<lambda>s. if kc_num_cmds s > metric then rbind (kc_emit s) (\<lambda>s. Inr (s, True)) else Inr (s, False))
      in case ev of
           KcLatWindow \<Rightarrow> rbind (kc_emit s) check
         | KcBurst now \<Rightarrow> rbind (kc_burst E c txs_per_burst now s) check
         | KcMessage now m waiting \<Rightarrow>
             (case m of
                Confirmation h \<Rightarrow> rbind (rbind (kc_confirm now h s) (kc_drain now waiting)) check
              | _ \<Rightarrow> check s)
         | KcBadBytes \<Rightarrow> Inr (s, False)
         | KcClosed \<Rightarrow> Inr (s, False))"

section \<open>The client of Sync HotStuff and Opt Sync\<close>

record sync_client =
  sc_pending :: nat
  sc_time_map :: "(hash, nat) fmap"
  sc_count_map :: "(hash, nat) fmap"
  sc_finished_map :: "hash fset"
  sc_latency_map :: "(hash, nat \<times> nat) fmap"
  sc_num_cmds :: nat
  sc_sent :: "transaction list"

definition sync_client_start :: "nat \<Rightarrow> sync_client" where
  "sync_client_start window =
     \<lparr>sc_pending = window, sc_time_map = fmempty, sc_count_map = fmempty, sc_finished_map = {||},
      sc_latency_map = fmempty, sc_num_cmds = 0, sc_sent = []\<rparr>"

text \<open>One transaction hash of a finished block.\<close>

definition sc_tx_done :: "nat \<Rightarrow> hash \<Rightarrow> sync_client \<Rightarrow> sync_client res" where
  "sc_tx_done now t s =
     (case fmlookup (sc_time_map s) t of
        Some old \<Rightarrow> Inr (s\<lparr>sc_latency_map := fmupd t (old, now) (sc_latency_map s)\<rparr>)
      | None \<Rightarrow> rbind (sub_u64 (sc_num_cmds s) 1) (\<lambda>n. Inr (s\<lparr>sc_num_cmds := n\<rparr>)))"

text \<open>The flag is false when the loop goes on with \<open>continue\<close>.\<close>

definition sc_new_block :: "client_config \<Rightarrow> nat \<Rightarrow> block \<Rightarrow> hash list \<Rightarrow> sync_client \<Rightarrow> (bool \<times> sync_client) res" where
  "sc_new_block c now b tx_hashes s =
     rbind (add_u64 (fmget_or 0 (sc_count_map s) (blk_hash b)) 1) (\<lambda>entry.
     let s = s\<lparr>sc_count_map := fmupd (blk_hash b) entry (sc_count_map s)\<rparr>
     in rbind (add_u64 (cc_num_faults c) 1) (\<lambda>quorum.
        if entry < quorum then Inr (False, s)
        else if blk_hash b |\<in>| sc_finished_map s then Inr (False, s)
        else
          rbind (add_u64 (sc_pending s) (cc_block_size c)) (\<lambda>pending.
          rbind (add_u128 (sc_num_cmds s) (cc_block_size c)) (\<lambda>cmds.
          let s = s\<lparr>sc_pending := pending, sc_num_cmds := cmds\<rparr>
          in rbind (rfold (sc_tx_done now) tx_hashes s) (\<lambda>s.
             Inr (True, s\<lparr>sc_finished_map := finsert (blk_hash b) (sc_finished_map s)\<rparr>))))))"

text \<open>A transaction is taken from the producer only while \<open>pending > 0\<close>.\<close>

definition sc_send :: "ext \<Rightarrow> nat \<Rightarrow> transaction \<Rightarrow> sync_client \<Rightarrow> sync_client" where
  "sc_send E now tx s =
     s\<lparr>sc_sent := sc_sent s @ [tx], sc_time_map := fmupd (hash_tx E tx) now (sc_time_map s), sc_pending := sc_pending s - 1\<rparr>"

datatype sync_client_event =
    ScTx nat transaction
  | ScTxClosed
  | ScMessage nat sync_client_msg
  | ScBadBytes
  | ScClosed

definition sc_step ::
  "ext \<Rightarrow> client_config \<Rightarrow> nat \<Rightarrow> sync_client_event \<Rightarrow> sync_client \<Rightarrow> sync_client reactor_outcome res" where
  "sc_step E c metric ev s =
     (let check = (\<lambda>s. if sc_num_cmds s > metric then Inr ReactorBreak else Inr (Continue s))
      in case ev of
           ScTx now tx \<Rightarrow> if sc_pending s > 0 then check (sc_send E now tx s) else Inr (Continue s)
         | ScTxClosed \<Rightarrow> if sc_pending s > 0 then Inr ProcessExit else Inr (Continue s)
         | ScMessage now m \<Rightarrow>
             (case m of
                SyNewBlock b tx_hashes _ \<Rightarrow> rbind (sc_new_block c now b tx_hashes s) (\<lambda>(finished, s).
                  if finished then check s else Inr (Continue s))
              | _ \<Rightarrow> Inr (Continue s))
         | ScBadBytes \<Rightarrow> check s
         | ScClosed \<Rightarrow> Inl (Panic ''server push listener closed''))"

section \<open>Invariant of the window\<close>

definition sc_inv :: "client_config \<Rightarrow> nat \<Rightarrow> sync_client \<Rightarrow> bool" where
  "sc_inv c window s \<longleftrightarrow>
     length (sc_sent s) + sc_pending s = window + cc_block_size c * fcard (sc_finished_map s) \<and>
     (\<forall>h. h |\<in>| sc_finished_map s \<longleftrightarrow> cc_num_faults c < fmget_or 0 (sc_count_map s) h)"

inductive sc_moves :: "ext \<Rightarrow> client_config \<Rightarrow> nat \<Rightarrow> sync_client \<Rightarrow> sync_client \<Rightarrow> bool" for E c metric where
  sc_moves: "sc_step E c metric ev s = Inr (Continue s') \<Longrightarrow> sc_moves E c metric s s'"

lemma sc_txs_done_frame:
  assumes "rfold (sc_tx_done now) ts s = Inr s'"
  shows "sc_sent s' = sc_sent s" "sc_pending s' = sc_pending s" "sc_count_map s' = sc_count_map s" "sc_finished_map s' = sc_finished_map s"
  by (rule rfold_frame [OF assms]; auto simp: sc_tx_done_def split: option.splits)+

lemma sc_inv_new_block:
  assumes "sc_inv c w s" and "sc_new_block c now b ts s = Inr (done_now, s')"
  shows "sc_inv c w s'"
proof -
  let ?h = "blk_hash b" and ?e = "Suc (fmget_or 0 (sc_count_map s) (blk_hash b))"
  let ?s = "s\<lparr>sc_count_map := fmupd ?h ?e (sc_count_map s)\<rparr>"
  note inv = assms(1) [unfolded sc_inv_def]
  have step: "(if ?e < Suc (cc_num_faults c) then Inr (False, ?s) else if ?h |\<in>| sc_finished_map s then Inr (False, ?s)
      else rbind (add_u64 (sc_pending s) (cc_block_size c)) (\<lambda>pending. rbind (add_u128 (sc_num_cmds s) (cc_block_size c)) (\<lambda>cmds.
        rbind (rfold (sc_tx_done now) ts (?s\<lparr>sc_pending := pending, sc_num_cmds := cmds\<rparr>)) (\<lambda>s.
          Inr (True, s\<lparr>sc_finished_map := finsert ?h (sc_finished_map s)\<rparr>))))) = Inr (done_now, s')"
    using assms(2) by (auto simp: sc_new_block_def add_u64_def Let_def split: if_splits)
  consider "?e < Suc (cc_num_faults c)" | "\<not> ?e < Suc (cc_num_faults c)" "?h |\<in>| sc_finished_map s"
    | "\<not> ?e < Suc (cc_num_faults c)" "?h |\<notin>| sc_finished_map s" by blast
  then show ?thesis
  proof cases
    case 3
    with step obtain n t where t: "rfold (sc_tx_done now) ts (?s\<lparr>sc_pending := sc_pending s + cc_block_size c, sc_num_cmds := n\<rparr>) = Inr t"
        "s' = t\<lparr>sc_finished_map := finsert ?h (sc_finished_map t)\<rparr>"
      by (auto simp: add_u64_Inr_iff)
    with 3 inv sc_txs_done_frame [OF t(1)] show ?thesis
      by (auto simp: sc_inv_def fcard_finsert_disjoint algebra_simps)
  qed (use step inv in \<open>auto simp: sc_inv_def split: if_splits\<close>)
qed

lemma sc_inv_step: "sc_inv c w s \<Longrightarrow> sc_step E c metric ev s = Inr (Continue s') \<Longrightarrow> sc_inv c w s'"
proof (cases ev)
  case (ScMessage now m)
  assume "sc_inv c w s" "sc_step E c metric ev s = Inr (Continue s')"
  with ScMessage show ?thesis by (cases m) (auto simp: sc_step_def Let_def split: if_splits dest: sc_inv_new_block)
qed (auto simp: sc_step_def sc_inv_def sc_send_def Let_def split: if_splits)

interpretation sync_client_sys: step_system "\<lambda>s. s = sync_client_start w" "sc_moves E c metric" "sc_inv c w" for E c metric w
proof unfold_locales
  fix s s'
  show "sc_inv c w s" if "s = sync_client_start w" using that by (simp add: sc_inv_def sync_client_start_def)
  show "sc_inv c w s'" if "sc_inv c w s" "sc_moves E c metric s s'" using that(2,1) by cases (rule sc_inv_step)
qed

text \<open>
  C35: The send budget of the client of Sync HotStuff and Opt Sync is exact: at any time it has sent its
  window plus one block size for each finished block, less what it may still send at once; and a block
  is finished exactly when it has been announced more than \<open>num_faults\<close> times, whoever announced it. The
  budget bounds what has been sent, not what is unanswered: a finished block is worth \<open>block_size\<close>
  transactions whatever hashes it names.
\<close>
theorem sync_client_window:
  assumes "(sc_moves E c metric)\<^sup>*\<^sup>* (sync_client_start window) s"
  shows "length (sc_sent s) + sc_pending s = window + cc_block_size c * fcard (sc_finished_map s) \<and>
    (\<forall>h. h |\<in>| sc_finished_map s \<longleftrightarrow> cc_num_faults c < fmget_or 0 (sc_count_map s) h)"
  using sync_client_sys.inv_reachable [OF refl assms] by (simp add: sc_inv_def)

text \<open>
  The window can be overrun. When one announcement is enough, a block without transactions lets the
  client send \<open>block_size\<close> more, with none of the transactions of its window answered.
\<close>

lemma sc_sends:
  assumes "n \<le> sc_pending s" and "sc_num_cmds s \<le> metric"
  shows "\<exists>s'. (sc_moves E c metric)\<^sup>*\<^sup>* s s' \<and> length (sc_sent s') = length (sc_sent s) + n \<and> sc_latency_map s' = sc_latency_map s \<and>
    sc_pending s' = sc_pending s - n \<and> sc_num_cmds s' = sc_num_cmds s \<and> sc_count_map s' = sc_count_map s \<and> sc_finished_map s' = sc_finished_map s"
  using assms(1)
proof (induction n)
  case 0
  then show ?case by auto
next
  case (Suc n)
  then obtain t where t: "(sc_moves E c metric)\<^sup>*\<^sup>* s t" "length (sc_sent t) = length (sc_sent s) + n" "sc_latency_map t = sc_latency_map s"
      "sc_pending t = sc_pending s - n" "sc_num_cmds t = sc_num_cmds s" "sc_count_map t = sc_count_map s" "sc_finished_map t = sc_finished_map s" by auto
  have "sc_moves E c metric t (sc_send E 0 tx t)" for tx
    using t(4,5) Suc.prems assms(2) by (intro sc_moves [of _ _ _ "ScTx 0 tx"]) (simp add: sc_step_def sc_send_def)
  with t show ?case by (intro exI [of _ "sc_send E 0 (new_dummy_tx 0 0) t"] conjI) (auto simp: sc_send_def intro: rtranclp.rtrancl_into_rtrancl)
qed

theorem sync_client_overruns_window:
  assumes "cc_num_faults c = 0" and "cc_block_size c < 2 ^ 64" and "cc_block_size c \<le> metric"
  shows "\<exists>s. (sc_moves E c metric)\<^sup>*\<^sup>* (sync_client_start window) s \<and> length (sc_sent s) = window + cc_block_size c \<and> sc_latency_map s = fmempty"
proof -
  obtain t where t: "(sc_moves E c metric)\<^sup>*\<^sup>* (sync_client_start window) t" "length (sc_sent t) = window" "sc_latency_map t = fmempty"
      "sc_pending t = 0" "sc_num_cmds t = 0" "sc_count_map t = fmempty" "sc_finished_map t = {||}"
    using sc_sends [of window "sync_client_start window" metric E c] by (auto simp: sync_client_start_def)
  let ?b = "GENESIS_BLOCK E"
  let ?u = "t\<lparr>sc_count_map := fmupd (blk_hash ?b) 1 fmempty, sc_pending := cc_block_size c, sc_num_cmds := cc_block_size c,
    sc_finished_map := {|blk_hash ?b|}\<rparr>"
  have "sc_step E c metric (ScMessage 0 (SyNewBlock ?b [] payload_empty)) t = Inr (Continue ?u)"
    using t assms by (simp add: sc_step_def sc_new_block_def add_u64_def add_u128_def Let_def)
  then have "(sc_moves E c metric)\<^sup>*\<^sup>* (sync_client_start window) ?u" using t(1) sc_moves by (meson rtranclp.rtrancl_into_rtrancl)
  with sc_sends [of "cc_block_size c" ?u metric E c] t assms(3) show ?thesis by (auto intro: rtranclp_trans)
qed

section \<open>Invariant of the nonces\<close>

definition kc_txs :: "client_config \<Rightarrow> nat \<Rightarrow> nat \<Rightarrow> transaction list" where
  "kc_txs c i j = map (\<lambda>n. new_dummy_tx_keyed (cc_my_id c) n (cc_payload c)) [i..<j]"

fun batch_txs :: "client_msg \<Rightarrow> transaction list" where
  "batch_txs (NewBatch txs a) = txs"
| "batch_txs _ = []"

definition kc_inv :: "ext \<Rightarrow> client_config \<Rightarrow> keyed_client \<Rightarrow> bool" where
  "kc_inv E c s \<longleftrightarrow>
     0 < kc_nonce s \<and> concat (map batch_txs (kc_sent s)) = kc_txs c 1 (kc_nonce s) \<and>
     kc_num_cmds s + fcard (fmdom (kc_time_map s)) < kc_nonce s \<and>
     fset (fmdom (kc_time_map s)) \<subseteq> hash_tx E ` set (kc_txs c 1 (kc_nonce s))"

lemma kc_txs_snoc: "i \<le> j \<Longrightarrow> kc_txs c i (Suc j) = kc_txs c i j @ [new_dummy_tx_keyed (cc_my_id c) j (cc_payload c)]"
  by (simp add: kc_txs_def)

lemma kc_inv_emit: "kc_inv E c s \<Longrightarrow> kc_emit s = Inr s' \<Longrightarrow> kc_inv E c s'"
  by (auto simp: kc_emit_def kc_inv_def)

lemma kc_inv_confirm:
  assumes "kc_inv E c s" and "kc_confirm now h s = Inr s'"
  shows "kc_inv E c s'"
proof (cases "fmlookup (kc_time_map s) h")
  case None
  with assms show ?thesis by (simp add: kc_confirm_def)
next
  case (Some t)
  with assms(2) have s': "s' = s\<lparr>kc_time_map := fmdrop h (kc_time_map s), kc_window_samples := kc_window_samples s @ [now - t],
      kc_num_cmds := Suc (kc_num_cmds s)\<rparr>" by (auto simp: kc_confirm_def add_u128_def Let_def split: if_splits)
  have "fcard (fmdom (kc_time_map s)) = Suc (fcard (fmdom (fmdrop h (kc_time_map s))))" by (rule fcard_fmdrop_Suc [OF Some])
  moreover have "fset (fmdom (fmdrop h (kc_time_map s))) \<subseteq> fset (fmdom (kc_time_map s))" by auto
  ultimately show ?thesis using assms(1) by (auto simp: s' kc_inv_def simp del: fmdom_drop)
qed

lemma kc_inv_drain: "kc_inv E c s \<Longrightarrow> kc_drain now ms s = Inr s' \<Longrightarrow> kc_inv E c s'"
  by (induction now ms s rule: kc_drain.induct) (auto dest: kc_inv_confirm)

lemma kc_mint_effect:
  assumes "kc_mint E c now (s, batch) = Inr (s', batch')"
  shows "batch' = batch @ [new_dummy_tx_keyed (cc_my_id c) (kc_nonce s) (cc_payload c)]"
    "s' = s\<lparr>kc_nonce := Suc (kc_nonce s),
       kc_time_map := fmupd (hash_tx E (new_dummy_tx_keyed (cc_my_id c) (kc_nonce s) (cc_payload c))) now (kc_time_map s)\<rparr>"
  using assms by (auto simp: kc_mint_def Let_def add_u64_def split: if_splits)

text \<open>While a burst is minted, the transactions not yet sent are those of the batch.\<close>

definition kc_minting :: "ext \<Rightarrow> client_config \<Rightarrow> keyed_client \<times> transaction list \<Rightarrow> bool" where
  "kc_minting E c = (\<lambda>(s, batch).
     0 < kc_nonce s \<and> concat (map batch_txs (kc_sent s)) @ batch = kc_txs c 1 (kc_nonce s) \<and>
     kc_num_cmds s + fcard (fmdom (kc_time_map s)) < kc_nonce s \<and>
     fset (fmdom (kc_time_map s)) \<subseteq> hash_tx E ` set (kc_txs c 1 (kc_nonce s)))"

lemma kc_minting_step:
  assumes "kc_minting E c (s, batch)" and "kc_mint E c now (s, batch) = Inr (s', batch')"
  shows "kc_minting E c (s', batch')"
proof -
  let ?tx = "new_dummy_tx_keyed (cc_my_id c) (kc_nonce s) (cc_payload c)"
  have "fcard (finsert (hash_tx E ?tx) (fmdom (kc_time_map s))) \<le> Suc (fcard (fmdom (kc_time_map s)))"
    by (simp add: fcard.rep_eq card_insert_if)
  moreover have "kc_txs c 1 (Suc (kc_nonce s)) = kc_txs c 1 (kc_nonce s) @ [?tx]"
    using assms(1) by (intro kc_txs_snoc) (simp add: kc_minting_def)
  ultimately show ?thesis
    using assms(1) unfolding kc_mint_effect [OF assms(2)] kc_minting_def by (auto simp flip: append_assoc)
qed

lemma kc_inv_burst:
  assumes "kc_inv E c s" and "kc_burst E c k now s = Inr s'"
  shows "kc_inv E c s'"
proof -
  obtain t batch where t: "rfold (\<lambda>_. kc_mint E c now) [0..<max k 1] (s, []) = Inr (t, batch)"
      "s' = t\<lparr>kc_sent := kc_sent t @ [NewBatch batch (cc_my_listen_addr c)]\<rparr>"
    using assms(2) by (auto simp: kc_burst_def)
  have "kc_minting E c (t, batch)"
  proof (rule rfold_inv [OF t(1)])
    show "kc_minting E c (s, [])" using assms(1) by (simp add: kc_minting_def kc_inv_def)
    show "kc_minting E c y" if "kc_minting E c x" "kc_mint E c now x = Inr y" for x y
      using that kc_minting_step by (cases x, cases y) blast
  qed
  then show ?thesis by (simp add: t(2) kc_minting_def kc_inv_def)
qed

inductive kc_moves :: "ext \<Rightarrow> client_config \<Rightarrow> nat \<Rightarrow> nat \<Rightarrow> keyed_client \<Rightarrow> keyed_client \<Rightarrow> bool" for E c metric k where
  kc_moves: "kc_step E c metric k ev s = Inr (s', returned) \<Longrightarrow> kc_moves E c metric k s s'"

lemma kc_inv_step:
  assumes "kc_inv E c s" and "kc_step E c metric k ev s = Inr (s', r)"
  shows "kc_inv E c s'"
proof -
  have chk: "kc_inv E c s'" if "kc_inv E c t"
    "(if kc_num_cmds t > metric then rbind (kc_emit t) (\<lambda>s. Inr (s, True)) else Inr (t, False)) = Inr (s', r)" for t
    using that by (auto split: if_splits dest: kc_inv_emit)
  show ?thesis
  proof (cases ev)
    case (KcMessage now m ms)
    with assms chk show ?thesis by (cases m) (auto simp: kc_step_def Let_def dest: kc_inv_confirm kc_inv_drain)
  qed (use assms chk in \<open>auto simp: kc_step_def Let_def dest: kc_inv_emit kc_inv_burst\<close>)
qed

interpretation keyed_client_sys: step_system "\<lambda>s. s = keyed_client_start" "kc_moves E c metric k" "kc_inv E c" for E c metric k
proof unfold_locales
  fix s s'
  show "kc_inv E c s" if "s = keyed_client_start" using that by (simp add: kc_inv_def keyed_client_start_def kc_txs_def)
  show "kc_inv E c s'" if "kc_inv E c s" "kc_moves E c metric k s s'" using that(2,1) by cases (rule kc_inv_step)
qed

text \<open>
  The transactions that an Apollo or Artemis client has sent, in order, are its dummy transactions
  with the nonces 1, 2, 3 and so on, each once, so that every replica's replay protection lets them
  through; and a transaction is counted as confirmed at most once: the confirmations counted and
  the transactions still waiting are together no more than the transactions sent.
\<close>
theorem keyed_client_nonces:
  assumes "(kc_moves E c metric k)\<^sup>*\<^sup>* keyed_client_start s"
  shows "concat (map batch_txs (kc_sent s)) = map (\<lambda>n. new_dummy_tx_keyed (cc_my_id c) n (cc_payload c)) [1..<kc_nonce s] \<and>
    map tx_nonce (concat (map batch_txs (kc_sent s))) = [1..<kc_nonce s] \<and>
    kc_num_cmds s + fcard (fmdom (kc_time_map s)) \<le> length (concat (map batch_txs (kc_sent s)))"
proof -
  have "kc_inv E c s" by (rule keyed_client_sys.inv_reachable [OF refl assms])
  moreover have "map tx_nonce (kc_txs c 1 n) = [1..<n]" for n by (simp add: kc_txs_def new_dummy_tx_keyed_def comp_def)
  ultimately show ?thesis by (simp add: kc_inv_def) (auto simp: kc_txs_def)
qed

section \<open>Witnesses\<close>

definition sample_client :: client_config where
  "sample_client = Client_new\<lparr>cc_num_nodes := 4, cc_num_faults := 1, cc_block_size := 10, cc_my_id := 7\<rparr>"

text \<open>One transaction is sent, then a block is announced twice, which finishes it.\<close>

theorem sync_client_window_witness:
  "\<exists>s. (sc_moves sample_ext sample_client 100)\<^sup>*\<^sup>* (sync_client_start 5) s \<and> length (sc_sent s) = 1 \<and>
     sc_finished_map s = {|blk_hash (GENESIS_BLOCK sample_ext)|} \<and> sc_pending s = 14"
proof -
  let ?b = "GENESIS_BLOCK sample_ext" and ?tx = "sample_tx 0 0"
  let ?ev = "ScMessage 3 (SyNewBlock ?b [hash_tx sample_ext ?tx] payload_empty)"
  define s1 where "s1 = sc_send sample_ext 0 ?tx (sync_client_start 5)"
  obtain s2 where s2: "sc_step sample_ext sample_client 100 ?ev s1 = Inr (Continue s2)" "s2 = s1\<lparr>sc_count_map := fmupd (blk_hash ?b) 1 fmempty\<rparr>"
    by (simp add: sc_step_def sc_new_block_def s1_def sc_send_def sync_client_start_def sample_client_def add_u64_def Let_def)
  obtain s3 where s3: "sc_step sample_ext sample_client 100 ?ev s2 = Inr (Continue s3)" "sc_sent s3 = [?tx]" "sc_finished_map s3 = {|blk_hash ?b|}"
    by (simp add: s2(2) sc_step_def sc_new_block_def sc_tx_done_def s1_def sc_send_def sync_client_start_def sample_client_def add_u64_def add_u128_def Let_def)
  have "sc_moves sample_ext sample_client 100 (sync_client_start 5) s1"
    by (rule sc_moves [of _ _ _ "ScTx 0 ?tx"]) (simp add: s1_def sc_step_def sync_client_start_def sc_send_def)
  then have run: "(sc_moves sample_ext sample_client 100)\<^sup>*\<^sup>* (sync_client_start 5) s3"
    using sc_moves [OF s2(1)] sc_moves [OF s3(1)] by (meson converse_rtranclp_into_rtranclp r_into_rtranclp)
  from sync_client_window [OF run] run s3(2,3) show ?thesis
    by (intro exI [of _ s3]) (simp add: sample_client_def fcard_finsert_disjoint)
qed

theorem sync_client_overruns_window_witness:
  "\<exists>s. (sc_moves sample_ext (sample_client\<lparr>cc_num_faults := 0\<rparr>) 100)\<^sup>*\<^sup>* (sync_client_start 1) s \<and> length (sc_sent s) = 11 \<and> sc_latency_map s = fmempty"
  using sync_client_overruns_window [of "sample_client\<lparr>cc_num_faults := 0\<rparr>" 100 sample_ext 1] by (simp add: sample_client_def)

theorem keyed_client_nonces_witness:
  "\<exists>s. kc_moves sample_ext sample_client 100 2 keyed_client_start s \<and> map tx_nonce (concat (map batch_txs (kc_sent s))) = [1, 2]"
proof -
  obtain s where s: "kc_step sample_ext sample_client 100 2 (KcBurst 0) keyed_client_start = Inr (s, False)" "kc_nonce s = 3"
    by (simp add: kc_step_def kc_burst_def kc_mint_def keyed_client_start_def add_u64_def Let_def upt_conv_Cons)
  then have m: "kc_moves sample_ext sample_client 100 2 keyed_client_start s" by (auto intro: kc_moves)
  then have "(kc_moves sample_ext sample_client 100 2)\<^sup>*\<^sup>* keyed_client_start s" by (rule r_into_rtranclp)
  from keyed_client_nonces [OF this] m s(2) show ?thesis by (intro exI [of _ s]) (simp add: upt_conv_Cons new_dummy_tx_keyed_def)
qed

end
