(* ===== verification/Rust_Text.thy ===== *)
theory Rust_Text
  imports Config
begin

text \<open>
  The parts of Rust's standard library on text, numbers, paths and socket addresses that the
  programs of the repository use: \<open>str::trim\<close>, \<open>str::split\<close>, \<open>BufRead::lines\<close>, \<open>str::find\<close>, the
  \<open>FromStr\<close> instances of the unsigned integers and of \<open>SocketAddr\<close>, and \<open>Path::extension\<close>,
  \<open>Path::parent\<close> and \<open>Path::join\<close> on Unix. Text is ASCII; the code of a character is its byte. A file
  system is a finite map from path texts to contents.
\<close>

section \<open>Trimming, splitting, lines\<close>

definition is_whitespace :: "char \<Rightarrow> bool" where
  "is_whitespace c \<longleftrightarrow> (let k = of_char c :: nat in 9 \<le> k \<and> k \<le> 13 \<or> k = 32)"

definition trim :: "string \<Rightarrow> string" where
  "trim s = rev (dropWhile is_whitespace (rev (dropWhile is_whitespace s)))"

text \<open>\<open>s.split(c)\<close>: one piece more than there are separators.\<close>

fun split_on :: "char \<Rightarrow> string \<Rightarrow> string list" where
  "split_on c [] = [[]]"
| "split_on c (x # xs) =
     (if x = c then [] # split_on c xs
      else case split_on c xs of [] \<Rightarrow> [[x]] | p # ps \<Rightarrow> (x # p) # ps)"

definition newline :: char where
  "newline = char_of (10 :: nat)"

definition chomp_cr :: "string \<Rightarrow> string" where
  "chomp_cr s = (if s \<noteq> [] \<and> last s = char_of (13 :: nat) then butlast s else s)"

text \<open>
  \<open>BufRead::lines\<close>: a line ends at a line feed, which a carriage return may precede. What follows
  the last line feed is a line only if it is not empty, and keeps its carriage return.
\<close>

definition text_lines :: "string \<Rightarrow> string list" where
  "text_lines s =
     (let ps = split_on newline s
      in map chomp_cr (butlast ps) @ (if last ps = [] then [] else [last ps]))"

definition starts_with :: "string \<Rightarrow> string \<Rightarrow> bool" where
  "starts_with p s \<longleftrightarrow> take (length p) s = p"

text \<open>What follows the first occurrence of a text, if there is one.\<close>

fun after_first :: "string \<Rightarrow> string \<Rightarrow> string option" where
  "after_first p s =
     (if starts_with p s then Some (drop (length p) s)
      else case s of [] \<Rightarrow> None | _ # s' \<Rightarrow> after_first p s')"

declare after_first.simps [simp del]

section \<open>Numbers\<close>

text \<open>\<open>FromStr\<close> of an unsigned integer of \<open>w\<close> bits.\<close>

definition parse_uint :: "nat \<Rightarrow> string \<Rightarrow> nat option" where
  "parse_uint w s =
     (let t = (case s of c # cs \<Rightarrow> if c = CHR ''+'' then cs else s | [] \<Rightarrow> [])
      in if t = [] then None
         else case parse_digits 0 t of None \<Rightarrow> None | Some n \<Rightarrow> if n < 2 ^ w then Some n else None)"

lemma parse_uint_16: "parse_uint 16 = parse_u16"
  by (simp add: fun_eq_iff parse_uint_def parse_u16_def)

lemma show_nat_head: "\<exists>c cs. show_nat n = c # cs \<and> c \<noteq> CHR ''+''"
  using show_nat_nonempty [of n] show_nat_no_sign [of "hd (show_nat n)" n]
  by (cases "show_nat n") auto

lemma parse_uint_show [simp]: "n < 2 ^ w \<Longrightarrow> parse_uint w (show_nat n) = Some n"
proof -
  assume n: "n < 2 ^ w"
  obtain c cs where "show_nat n = c # cs" "c \<noteq> CHR ''+''" using show_nat_head by blast
  with n parse_show [of n] show ?thesis by (simp add: parse_uint_def)
qed

lemma parse_uint_bound: "parse_uint w s = Some n \<Longrightarrow> n < 2 ^ w"
  by (auto simp: parse_uint_def Let_def split: if_splits option.splits)

lemma show_nat_inject [simp]: "show_nat m = show_nat n \<longleftrightarrow> m = n"
  by (metis parse_show option.inject)

section \<open>Paths\<close>

text \<open>
  The components of a path: empty pieces and dots are dropped, except for a dot in front; the flag
  says that the path is absolute.
\<close>

type_synonym path = "bool \<times> string list"

definition path_of :: "string \<Rightarrow> path" where
  "path_of s =
     (let ps = split_on (CHR ''/'') s; keep = filter (\<lambda>p. p \<noteq> [] \<and> p \<noteq> ''.'')
      in (hd ps = [] \<and> s \<noteq> [], (if hd ps = ''.'' then [''.''] else keep [hd ps]) @ keep (tl ps)))"

definition file_name :: "path \<Rightarrow> string option" where
  "file_name p =
     (case rev (snd p) of [] \<Rightarrow> None | l # _ \<Rightarrow> if l = ''..'' \<or> l = ''.'' then None else Some l)"

text \<open>\<open>rsplit_file_at_dot\<close>: the part after the last dot, unless that dot is the first character.\<close>

definition extension :: "path \<Rightarrow> string option" where
  "extension p =
     (case file_name p of
        None \<Rightarrow> None
      | Some f \<Rightarrow>
          let ext = rev (takeWhile (\<lambda>c. c \<noteq> CHR ''.'') (rev f))
          in if length ext = length f \<or> length ext + 1 = length f then None else Some ext)"

definition parent :: "path \<Rightarrow> path option" where
  "parent p = (if snd p = [] then None else Some (fst p, butlast (snd p)))"

text \<open>\<open>Path::join\<close> with a plain file name, on components and on the text.\<close>

definition path_join :: "path \<Rightarrow> string \<Rightarrow> path" where
  "path_join p name = (fst p, snd p @ [name])"

definition join_text :: "string \<Rightarrow> string \<Rightarrow> string" where
  "join_text dir name =
     (if dir = [] then name else if last dir = CHR ''/'' then dir @ name else dir @ ''/'' @ name)"

text \<open>The extension of a file name depends on the text after the last slash only.\<close>

lemma split_on_nonempty [simp]: "split_on c s \<noteq> []"
  by (induction s) (auto split: list.splits)

lemma split_on_two: "split_on c (s @ c # t) = split_on c s @ split_on c t"
  by (induction s) (auto split: list.splits)

lemma split_on_single: "c \<notin> set t \<Longrightarrow> split_on c t = [t]"
  by (induction t) auto

lemma file_name_join:
  assumes "CHR ''/'' \<notin> set name" and "name \<notin> {[], ''.'', ''..''}"
  shows "file_name (path_of (dir @ ''/'' @ name)) = Some name"
proof -
  have "split_on (CHR ''/'') (dir @ ''/'' @ name) = split_on (CHR ''/'') dir @ [name]"
    using assms(1) split_on_two [of "CHR ''/''" dir name] by (simp add: split_on_single)
  with assms(2) show ?thesis
    by (cases "split_on (CHR ''/'') dir") (auto simp: path_of_def file_name_def Let_def)
qed

lemma extension_join:
  assumes "CHR ''/'' \<notin> set (stem @ ''.'' @ ext)" and "CHR ''.'' \<notin> set ext" and "stem \<noteq> []" and "ext \<noteq> []"
  shows "extension (path_of (dir @ ''/'' @ stem @ ''.'' @ ext)) = Some ext"
proof -
  let ?f = "stem @ ''.'' @ ext"
  have "?f \<notin> {[], ''.'', ''..''}"
    using assms(2-4) by (auto simp: append_eq_Cons_conv Cons_eq_append_conv)
  then have "file_name (path_of (dir @ ''/'' @ ?f)) = Some ?f"
    using assms(1) by (intro file_name_join)
  moreover have "takeWhile (\<lambda>c. c \<noteq> CHR ''.'') (rev ?f) = rev ext"
    using assms(2) by (simp add: takeWhile_append)
  ultimately show ?thesis using assms(3) by (simp add: extension_def)
qed

section \<open>Socket addresses\<close>

text \<open>
  The parser of \<open>std::net\<close>: each reader returns the value and the rest of the text, or nothing.
  \<open>read_number radix max_digits zero_prefix bound\<close> reads as many digits as there are; too many digits,
  a number that does not fit, and (for the parts of an IPv4 address) a leading zero are failures.
\<close>

datatype sock_addr = SockV4 "nat list" nat | SockV6 "nat list" nat nat

definition digit_value :: "nat \<Rightarrow> char \<Rightarrow> nat option" where
  "digit_value radix c =
     (let k = of_char c :: nat;
          d = (if 48 \<le> k \<and> k \<le> 57 then k - 48 else if 97 \<le> k \<and> k \<le> 122 then k - 87
               else if 65 \<le> k \<and> k \<le> 90 then k - 55 else radix)
      in if d < radix then Some d else None)"

definition is_digit :: "nat \<Rightarrow> char \<Rightarrow> bool" where
  "is_digit radix c \<longleftrightarrow> digit_value radix c \<noteq> None"

definition digits_value :: "nat \<Rightarrow> string \<Rightarrow> nat" where
  "digits_value radix ds = foldl (\<lambda>acc c. radix * acc + the (digit_value radix c)) 0 ds"

definition read_number :: "nat \<Rightarrow> nat option \<Rightarrow> bool \<Rightarrow> nat \<Rightarrow> string \<Rightarrow> (nat \<times> string) option" where
  "read_number radix max_digits zero_prefix bound s =
     (let ds = takeWhile (is_digit radix) s; n = digits_value radix ds
      in if ds = [] \<or> \<not> n < bound then None
         else if (case max_digits of None \<Rightarrow> False | Some m \<Rightarrow> m < length ds) then None
         else if \<not> zero_prefix \<and> hd ds = CHR ''0'' \<and> 1 < length ds then None
         else Some (n, dropWhile (is_digit radix) s))"

fun read_char :: "char \<Rightarrow> string \<Rightarrow> string option" where
  "read_char c (x # s) = (if x = c then Some s else None)"
| "read_char c [] = None"

text \<open>\<open>read_separator\<close>: the separator is expected in front of every part but the first.\<close>

definition read_separator :: "char \<Rightarrow> nat \<Rightarrow> (string \<Rightarrow> ('a \<times> string) option) \<Rightarrow> string \<Rightarrow> ('a \<times> string) option" where
  "read_separator sep i rd s = (if i = 0 then rd s else Option.bind (read_char sep s) rd)"

fun read_v4_parts :: "nat \<Rightarrow> nat list \<Rightarrow> string \<Rightarrow> (nat list \<times> string) option" where
  "read_v4_parts 0 acc s = Some (acc, s)"
| "read_v4_parts (Suc k) acc s =
     Option.bind (read_separator (CHR ''.'') (length acc) (read_number 10 (Some 3) False 256) s)
       (\<lambda>(n, s). read_v4_parts k (acc @ [n]) s)"

definition read_ipv4_addr :: "string \<Rightarrow> (nat list \<times> string) option" where
  "read_ipv4_addr s = read_v4_parts 4 [] s"

definition read_port :: "string \<Rightarrow> (nat \<times> string) option" where
  "read_port s = Option.bind (read_char (CHR '':'') s) (read_number 10 None True (2 ^ 16))"

text \<open>Up to \<open>left\<close> groups of an IPv6 address; the flag reports a trailing IPv4 address.\<close>

fun read_v6_groups :: "nat \<Rightarrow> nat list \<Rightarrow> string \<Rightarrow> nat list \<times> bool \<times> string" where
  "read_v6_groups 0 acc s = (acc, False, s)"
| "read_v6_groups (Suc k) acc s =
     (case (if 0 < k then read_separator (CHR '':'') (length acc) read_ipv4_addr s else None) of
        Some (v4, s') \<Rightarrow> (acc @ [256 * v4 ! 0 + v4 ! 1, 256 * v4 ! 2 + v4 ! 3], True, s')
      | None \<Rightarrow>
          (case read_separator (CHR '':'') (length acc) (read_number 16 (Some 4) True (2 ^ 16)) s of
             None \<Rightarrow> (acc, False, s)
           | Some (g, s') \<Rightarrow> read_v6_groups k (acc @ [g]) s'))"

definition read_ipv6_addr :: "string \<Rightarrow> (nat list \<times> string) option" where
  "read_ipv6_addr s =
     (case read_v6_groups 8 [] s of
        (head, v4, s) \<Rightarrow>
          if length head = 8 then Some (head, s)
          else if v4 then None
          else
            Option.bind (read_char (CHR '':'') s) (\<lambda>s.
            Option.bind (read_char (CHR '':'') s) (\<lambda>s.
            case read_v6_groups (8 - (length head + 1)) [] s of
              (tail, _, s) \<Rightarrow> Some (head @ replicate (8 - (length head + length tail)) 0 @ tail, s))))"

definition read_scope_id :: "string \<Rightarrow> (nat \<times> string) option" where
  "read_scope_id s = Option.bind (read_char (CHR ''%'') s) (read_number 10 None True (2 ^ 32))"

definition read_socket_addr_v4 :: "string \<Rightarrow> (sock_addr \<times> string) option" where
  "read_socket_addr_v4 s =
     Option.bind (read_ipv4_addr s) (\<lambda>(ip, s).
     Option.bind (read_port s) (\<lambda>(port, s). Some (SockV4 ip port, s)))"

definition read_socket_addr_v6 :: "string \<Rightarrow> (sock_addr \<times> string) option" where
  "read_socket_addr_v6 s =
     Option.bind (read_char (CHR ''['') s) (\<lambda>s.
     Option.bind (read_ipv6_addr s) (\<lambda>(ip, s).
     let (scope, s) = (case read_scope_id s of Some r \<Rightarrow> r | None \<Rightarrow> (0, s))
     in Option.bind (read_char (CHR '']'') s) (\<lambda>s.
        Option.bind (read_port s) (\<lambda>(port, s). Some (SockV6 ip port scope, s)))))"

text \<open>\<open>SocketAddr::from_str\<close>: the whole text must be used up.\<close>

definition parse_socket_addr :: "string \<Rightarrow> sock_addr option" where
  "parse_socket_addr s =
     (case (case read_socket_addr_v4 s of Some r \<Rightarrow> Some r | None \<Rightarrow> read_socket_addr_v6 s) of
        Some (a, []) \<Rightarrow> Some a
      | _ \<Rightarrow> None)"

section \<open>The addresses the repository prints\<close>

lemma digit_value_of: "digit_value 10 c = digit_of c"
  by (auto simp: digit_value_def digit_of_def Let_def)

lemma digits_parse: "parse_digits acc s = Some n \<Longrightarrow> foldl (\<lambda>acc c. 10 * acc + the (digit_value 10 c)) acc s = n"
  by (induction s arbitrary: acc) (auto simp: digit_value_of split: option.splits)

lemma show_nat_all_digits: "c \<in> set (show_nat n) \<Longrightarrow> is_digit 10 c"
  using show_nat_digits [of c n] by (simp add: is_digit_def digit_value_of)

lemma read_port_show:
  assumes "n < 2 ^ 16"
  shows "read_port ('':'' @ show_nat n) = Some (n, [])"
proof -
  have tw: "takeWhile (is_digit 10) (show_nat n) = show_nat n" "dropWhile (is_digit 10) (show_nat n) = []"
    using show_nat_all_digits by auto
  have "digits_value 10 (show_nat n) = n"
    using digits_parse [OF parse_show] by (simp add: digits_value_def)
  with assms show ?thesis by (simp add: read_port_def read_number_def Let_def tw show_nat_nonempty)
qed

lemma is_digit_colon [simp]: "\<not> is_digit 10 (CHR '':'')" "\<not> is_digit 10 (CHR ''.'')"
  by (simp_all add: is_digit_def digit_value_def Let_def)

lemma read_ipv4_loopback: "read_ipv4_addr (''127.0.0.1:'' @ s) = Some ([127, 0, 0, 1], '':'' @ s)"
  by (simp add: read_ipv4_addr_def eval_nat_numeral read_separator_def read_number_def Let_def digits_value_def
      is_digit_def digit_value_def)

lemma read_ipv4_any: "read_ipv4_addr (''0.0.0.0:'' @ s) = Some ([0, 0, 0, 0], '':'' @ s)"
  by (simp add: read_ipv4_addr_def eval_nat_numeral read_separator_def read_number_def Let_def digits_value_def
      is_digit_def digit_value_def)

definition loopback_addr :: "nat \<Rightarrow> string" where
  "loopback_addr port = ''127.0.0.1:'' @ show_nat port"

lemma parse_loopback: "n < 2 ^ 16 \<Longrightarrow> parse_socket_addr (loopback_addr n) = Some (SockV4 [127, 0, 0, 1] n)"
  using read_ipv4_loopback [of "show_nat n"] read_port_show [of n]
  by (simp add: parse_socket_addr_def read_socket_addr_v4_def loopback_addr_def)

lemma parse_any: "n < 2 ^ 16 \<Longrightarrow> parse_socket_addr (any_addr n) = Some (SockV4 [0, 0, 0, 0] n)"
  using read_ipv4_any [of "show_nat n"] read_port_show [of n]
  by (simp add: parse_socket_addr_def read_socket_addr_v4_def any_addr_def)

lemma after_last_colon_loopback: "after_last_colon (loopback_addr n) = show_nat n"
proof -
  have "takeWhile (\<lambda>c. c \<noteq> CHR '':'') (rev (show_nat n) @ CHR '':'' # rest) = rev (show_nat n)" for rest
    using show_nat_no_sign [of _ n] by (subst takeWhile_append2) auto
  then show ?thesis by (simp add: after_last_colon_def loopback_addr_def)
qed

end
