(* ===== verification/Config_Files.thy ===== *)
theory Config_Files
  imports Rust_Text
begin

text \<open>
  Configuration files: writing an object in one of the four formats (crate \<open>util\<close>, \<open>io.rs\<close>), reading
  a node's or a client's configuration back (\<open>from_json\<close> and its siblings in crate \<open>config\<close>) and
  reading a list of addresses. The encoders and decoders of serde and the operating system's answer
  to \<open>File::create\<close> are the record \<open>cfg_sys\<close>; every failure here is an \<open>unwrap\<close> or \<open>expect\<close>, a panic.
\<close>

datatype file_type = JSON | BIN | TOML | YAML

type_synonym files = "(string, bytes) fmap"

record cfg_sys =
  can_create :: "string \<Rightarrow> bool"
  ser_node :: "file_type \<Rightarrow> node_config \<Rightarrow> bytes option"
  de_node :: "file_type \<Rightarrow> bytes \<Rightarrow> node_config option"
  ser_client :: "file_type \<Rightarrow> client_config \<Rightarrow> bytes option"
  de_client :: "file_type \<Rightarrow> bytes \<Rightarrow> client_config option"

text \<open>
  What the theorems rely on: JSON, bincode and YAML write every configuration and read it back. The
  keys of a TOML table are strings; the serializer of crate \<open>toml\<close> refuses a map with other keys (its
  error \<open>KeyNotString\<close>), and \<open>net_map\<close>, the first field of both structs, has keys of type \<open>u16\<close>.
\<close>

definition cfg_codec_ok :: "'z cfg_sys_scheme \<Rightarrow> bool" where
  "cfg_codec_ok S \<longleftrightarrow>
     (\<forall>t c. t \<noteq> TOML \<longrightarrow> (\<exists>bs. ser_node S t c = Some bs \<and> de_node S t bs = Some c)) \<and>
     (\<forall>t c. t \<noteq> TOML \<longrightarrow> (\<exists>bs. ser_client S t c = Some bs \<and> de_client S t bs = Some c)) \<and>
     (\<forall>c. nc_net_map c \<noteq> fmempty \<longrightarrow> ser_node S TOML c = None) \<and>
     (\<forall>c. cc_net_map c \<noteq> fmempty \<longrightarrow> ser_client S TOML c = None)"

section \<open>Writing\<close>

text \<open>\<open>File::create\<close> empties the file; then the encoded object is written.\<close>

definition file_create :: "'z cfg_sys_scheme \<Rightarrow> string \<Rightarrow> files \<Rightarrow> files res" where
  "file_create S filename fs =
     (if can_create S filename then Inr (fmupd filename [] fs)
      else Inl (Panic ''called Result::unwrap on an Err value''))"

definition unwrap :: "'a option \<Rightarrow> 'a res" where
  "unwrap = expect ''called Result::unwrap on an Err value''"

definition write_json :: "'z cfg_sys_scheme \<Rightarrow> (file_type \<Rightarrow> 'a \<Rightarrow> bytes option) \<Rightarrow> string \<Rightarrow> 'a \<Rightarrow> files \<Rightarrow> files res" where
  "write_json S ser filename obj fs =
     rbind (file_create S filename fs) (\<lambda>fs.
     rbind (unwrap (ser JSON obj)) (\<lambda>bytes. Inr (fmupd filename bytes fs)))"

definition write_bin :: "'z cfg_sys_scheme \<Rightarrow> (file_type \<Rightarrow> 'a \<Rightarrow> bytes option) \<Rightarrow> string \<Rightarrow> 'a \<Rightarrow> files \<Rightarrow> files res" where
  "write_bin S ser filename obj fs =
     rbind (file_create S filename fs) (\<lambda>fs.
     rbind (expect ''Failed to serialize object'' (ser BIN obj)) (\<lambda>bytes. Inr (fmupd filename bytes fs)))"

definition write_toml :: "'z cfg_sys_scheme \<Rightarrow> (file_type \<Rightarrow> 'a \<Rightarrow> bytes option) \<Rightarrow> string \<Rightarrow> 'a \<Rightarrow> files \<Rightarrow> files res" where
  "write_toml S ser filename obj fs =
     rbind (file_create S filename fs) (\<lambda>fs.
     rbind (unwrap (ser TOML obj)) (\<lambda>bytes. Inr (fmupd filename bytes fs)))"

definition write_yaml :: "'z cfg_sys_scheme \<Rightarrow> (file_type \<Rightarrow> 'a \<Rightarrow> bytes option) \<Rightarrow> string \<Rightarrow> 'a \<Rightarrow> files \<Rightarrow> files res" where
  "write_yaml S ser filename obj fs =
     rbind (file_create S filename fs) (\<lambda>fs.
     rbind (unwrap (ser YAML obj)) (\<lambda>bytes. Inr (fmupd filename bytes fs)))"

section \<open>Reading\<close>

definition Node_from_json :: "'z cfg_sys_scheme \<Rightarrow> files \<Rightarrow> string \<Rightarrow> node_config res" where
  "Node_from_json S fs filename = rbind (unwrap (fmlookup fs filename)) (\<lambda>f. unwrap (de_node S JSON f))"

definition Node_from_toml :: "'z cfg_sys_scheme \<Rightarrow> files \<Rightarrow> string \<Rightarrow> node_config res" where
  "Node_from_toml S fs filename = rbind (unwrap (fmlookup fs filename)) (\<lambda>f. unwrap (de_node S TOML f))"

definition Node_from_yaml :: "'z cfg_sys_scheme \<Rightarrow> files \<Rightarrow> string \<Rightarrow> node_config res" where
  "Node_from_yaml S fs filename = rbind (unwrap (fmlookup fs filename)) (\<lambda>f. unwrap (de_node S YAML f))"

definition Node_from_bin :: "'z cfg_sys_scheme \<Rightarrow> files \<Rightarrow> string \<Rightarrow> node_config res" where
  "Node_from_bin S fs filename = rbind (unwrap (fmlookup fs filename)) (\<lambda>f. unwrap (de_node S BIN f))"

definition Client_from_json :: "'z cfg_sys_scheme \<Rightarrow> files \<Rightarrow> string \<Rightarrow> client_config res" where
  "Client_from_json S fs filename = rbind (unwrap (fmlookup fs filename)) (\<lambda>f. unwrap (de_client S JSON f))"

definition Client_from_toml :: "'z cfg_sys_scheme \<Rightarrow> files \<Rightarrow> string \<Rightarrow> client_config res" where
  "Client_from_toml S fs filename = rbind (unwrap (fmlookup fs filename)) (\<lambda>f. unwrap (de_client S TOML f))"

definition Client_from_yaml :: "'z cfg_sys_scheme \<Rightarrow> files \<Rightarrow> string \<Rightarrow> client_config res" where
  "Client_from_yaml S fs filename = rbind (unwrap (fmlookup fs filename)) (\<lambda>f. unwrap (de_client S YAML f))"

definition Client_from_bin :: "'z cfg_sys_scheme \<Rightarrow> files \<Rightarrow> string \<Rightarrow> client_config res" where
  "Client_from_bin S fs filename = rbind (unwrap (fmlookup fs filename)) (\<lambda>f. unwrap (de_client S BIN f))"

text \<open>
  A text is represented by its bytes. \<open>lines\<close> gives an error for a line that is not UTF-8, and such a
  line is skipped.
\<close>

definition text_bytes :: "string \<Rightarrow> bytes" where
  "text_bytes s = map (\<lambda>c. word_of_nat (of_char c)) s"

definition bytes_text :: "bytes \<Rightarrow> string" where
  "bytes_text bs = map (\<lambda>b. char_of (unat b)) bs"

definition utf8_tail :: "nat \<Rightarrow> bool" where
  "utf8_tail b \<longleftrightarrow> 128 \<le> b \<and> b < 192"

fun utf8 :: "nat list \<Rightarrow> bool" where
  "utf8 [] \<longleftrightarrow> True"
| "utf8 (a # bs) \<longleftrightarrow>
     (if a < 128 then utf8 bs
      else if 194 \<le> a \<and> a < 224 then (case bs of b # r \<Rightarrow> utf8_tail b \<and> utf8 r | [] \<Rightarrow> False)
      else if 224 \<le> a \<and> a < 240 then
        (case bs of b # c # r \<Rightarrow> utf8_tail b \<and> utf8_tail c \<and> (a = 224 \<longrightarrow> 160 \<le> b) \<and> (a = 237 \<longrightarrow> b < 160) \<and> utf8 r
         | _ \<Rightarrow> False)
      else if 240 \<le> a \<and> a < 245 then
        (case bs of b # c # d # r \<Rightarrow>
           utf8_tail b \<and> utf8_tail c \<and> utf8_tail d \<and> (a = 240 \<longrightarrow> 144 \<le> b) \<and> (a = 244 \<longrightarrow> b < 144) \<and> utf8 r
         | _ \<Rightarrow> False)
      else False)"

definition is_text :: "string \<Rightarrow> bool" where
  "is_text s \<longleftrightarrow> utf8 (map of_char s)"

definition file_to_ips :: "files \<Rightarrow> string \<Rightarrow> string list res" where
  "file_to_ips fs filename =
     rbind (expect ''Failed to open the file'' (fmlookup fs filename)) (\<lambda>f.
     Inr (map trim (filter is_text (text_lines (bytes_text f)))))"

section \<open>Round trips\<close>

lemma unwrap_simps [simp]: "unwrap (Some v) = Inr v" "unwrap None = Inl (Panic ''called Result::unwrap on an Err value'')"
  by (simp_all add: unwrap_def)

lemmas write_defs = write_json_def write_bin_def write_toml_def write_yaml_def file_create_def
lemmas read_defs = Node_from_json_def Node_from_toml_def Node_from_yaml_def Node_from_bin_def
  Client_from_json_def Client_from_toml_def Client_from_yaml_def Client_from_bin_def

lemma bytes_text_of [simp]: "bytes_text (text_bytes s) = s"
proof -
  have "char_of (unat (word_of_nat (of_char c) :: 8 word)) = c" for c
  proof -
    have "(of_char c :: nat) < 256" by simp
    then show ?thesis by (simp add: unat_of_nat)
  qed
  then show ?thesis by (simp add: bytes_text_def text_bytes_def comp_def)
qed

text \<open>A list of addresses, one per line, is read back.\<close>

definition ip_text :: "string list \<Rightarrow> string" where
  "ip_text ips = concat (map (\<lambda>ip. ip @ [newline]) ips)"

definition plain_line :: "string \<Rightarrow> bool" where
  "plain_line s \<longleftrightarrow> (\<forall>c\<in>set s. (of_char c :: nat) < 128 \<and> \<not> is_whitespace c)"

lemma utf8_ascii: "(\<And>a. a \<in> set bs \<Longrightarrow> a < 128) \<Longrightarrow> utf8 bs"
  by (induction bs) auto

lemma plain_is_text: "plain_line s \<Longrightarrow> is_text s"
  unfolding is_text_def plain_line_def by (rule utf8_ascii) auto

lemma whitespace_special [simp]: "is_whitespace newline" "is_whitespace (char_of (13 :: nat))"
  by (simp_all add: is_whitespace_def newline_def Let_def)

lemma trim_plain [simp]: "plain_line s \<Longrightarrow> trim s = s"
proof -
  assume "plain_line s"
  then have "dropWhile is_whitespace s = s" "dropWhile is_whitespace (rev s) = rev s"
    by (auto simp: plain_line_def dropWhile_eq_self_iff hd_rev)
  then show ?thesis by (simp add: trim_def)
qed

lemma chomp_plain [simp]: "plain_line s \<Longrightarrow> chomp_cr s = s"
  by (auto simp: chomp_cr_def plain_line_def dest!: bspec [OF _ last_in_set])

lemma split_ip_text:
  "(\<And>ip. ip \<in> set ips \<Longrightarrow> plain_line ip) \<Longrightarrow> split_on newline (ip_text ips) = ips @ [[]]"
proof (induction ips)
  case Nil
  then show ?case by (simp add: ip_text_def)
next
  case (Cons ip ips)
  have "newline \<notin> set ip" using Cons.prems [of ip] by (auto simp: plain_line_def)
  then have "split_on newline (ip @ newline # ip_text ips) = ip # split_on newline (ip_text ips)"
    by (simp add: split_on_two split_on_single)
  with Cons show ?case by (simp add: ip_text_def)
qed

lemma file_to_ips_text:
  assumes "fmlookup fs f = Some (text_bytes (ip_text ips))" and "\<And>ip. ip \<in> set ips \<Longrightarrow> plain_line ip"
  shows "file_to_ips fs f = Inr ips"
proof -
  have "text_lines (ip_text ips) = ips"
    using split_ip_text [OF assms(2)] assms(2) by (auto simp: text_lines_def intro: map_idI)
  moreover have "filter is_text ips = ips" "map trim ips = ips"
    using assms(2) by (auto simp: filter_id_conv intro: map_idI plain_is_text)
  ultimately show ?thesis using assms(1) by (simp add: file_to_ips_def)
qed

lemma plain_loopback: "plain_line (loopback_addr n)"
proof -
  have "(of_char c :: nat) < 128 \<and> \<not> is_whitespace c" if "c \<in> set (show_nat n)" for c
    using show_nat_digits [OF that] by (auto simp: digit_of_def is_whitespace_def Let_def split: if_splits)
  then show ?thesis by (auto simp: plain_line_def loopback_addr_def is_whitespace_def Let_def)
qed

end
