(* ===== verification/Gen_Config.thy ===== *)
theory Gen_Config
  imports Config_Files
begin

text \<open>
  The tool that writes the configuration of a cluster (\<open>tools/genconfig/src/main.rs\<close>): it reads its
  options, makes keys, certificates and address maps for every node and client, and writes one
  configuration file for each. Options come as \<open>value_of\<close> gives them. OpenSSL, the key generators,
  and the file system are the record \<open>gen_sys\<close>; the k-th draw of randomness has number k. An error
  that the code passes on with \<open>?\<close> is a value \<open>Inl\<close> inside the result, a panic is a fault.
\<close>

section \<open>Errors passed on with the question mark\<close>

type_synonym 'a attempt = "(string + 'a) res"

definition qbind :: "'a attempt \<Rightarrow> ('a \<Rightarrow> 'b attempt) \<Rightarrow> 'b attempt" where
  "qbind r f = rbind r (\<lambda>x. case x of Inl e \<Rightarrow> Inr (Inl e) | Inr y \<Rightarrow> f y)"

definition attempt_opt :: "string \<Rightarrow> 'a option \<Rightarrow> 'a attempt" where
  "attempt_opt e x = Inr (case x of None \<Rightarrow> Inl e | Some v \<Rightarrow> Inr v)"

fun qfold :: "('x \<Rightarrow> 's \<Rightarrow> 's attempt) \<Rightarrow> 'x list \<Rightarrow> 's \<Rightarrow> 's attempt" where
  "qfold f [] s = Inr (Inr s)"
| "qfold f (x # xs) s = qbind (f x s) (qfold f xs)"

section \<open>Certificates\<close>

datatype key_usage = KeyCertSign | CrlSign | NonRepudiation | DigitalSignature | KeyEncipherment

datatype cert_extension =
    BasicConstraints bool bool
  | KeyUsage bool "key_usage list"
  | SubjectKeyIdentifier
  | AuthorityKeyIdentifier bool bool
  | SubjectAlternativeName "string list" "string list"

text \<open>
  What the builder is told: subject and issuer are the entries of an X509 name, the validity is in
  days from now. The booleans are: critical and CA; critical; \<open>keyid\<close> and \<open>issuer\<close>.
\<close>

record cert_spec =
  cs_version :: nat
  cs_serial :: bytes
  cs_subject :: "(string \<times> string) list"
  cs_issuer :: "(string \<times> string) list"
  cs_pubkey :: bytes
  cs_not_before :: nat
  cs_not_after :: nat
  cs_extensions :: "cert_extension list"

record x509 =
  x_spec :: cert_spec
  x_sig :: bytes

record x509_req =
  rq_subject :: "(string \<times> string) list"
  rq_pubkey :: bytes
  rq_sig :: bytes

record gen_sys = cfg_sys +
  can_mkdir :: "string \<Rightarrow> bool"
  canonicalize :: "string \<Rightarrow> string option"
  rsa_generate :: "nat \<Rightarrow> bytes option"
  rand_serial :: "nat \<Rightarrow> bytes option"
  x509_extension :: "cert_spec \<Rightarrow> cert_extension \<Rightarrow> bool"
  x509_sign :: "bytes \<Rightarrow> cert_spec \<Rightarrow> bytes option"
  req_sign :: "bytes \<Rightarrow> (string \<times> string) list \<Rightarrow> bytes option"
  cert_to_pem :: "x509 \<Rightarrow> bytes option"
  key_to_pem :: "bytes \<Rightarrow> bytes option"
  ed25519_keypair :: "nat \<Rightarrow> (bytes \<times> bytes) option"
  secp256k1_keypair :: "nat \<Rightarrow> bytes \<times> bytes"
  algorithm_from_str :: "string \<Rightarrow> algorithm option"

definition append_extension :: "gen_sys \<Rightarrow> cert_extension \<Rightarrow> cert_spec \<Rightarrow> cert_spec attempt" where
  "append_extension S e c =
     attempt_opt ''ErrorStack''
       (if x509_extension S c e then Some (c\<lparr>cs_extensions := cs_extensions c @ [e]\<rparr>) else None)"

definition new_root_cert :: "gen_sys \<Rightarrow> nat \<Rightarrow> (x509 \<times> bytes) attempt" where
  "new_root_cert S k =
     qbind (attempt_opt ''ErrorStack'' (rsa_generate S k)) (\<lambda>privkey.
     let x509_name = [(''C'', ''US''), (''ST'', ''IN''), (''O'', ''Libchatter Test''), (''CN'', ''Root'')]
     in qbind (attempt_opt ''ErrorStack'' (rand_serial S k)) (\<lambda>serial.
     let c = \<lparr>cs_version = 2, cs_serial = serial, cs_subject = x509_name, cs_issuer = x509_name, cs_pubkey = privkey,
              cs_not_before = 0, cs_not_after = 365, cs_extensions = []\<rparr>
     in qbind (append_extension S (BasicConstraints True True) c) (\<lambda>c.
     qbind (append_extension S (KeyUsage True [KeyCertSign, CrlSign]) c) (\<lambda>c.
     qbind (append_extension S SubjectKeyIdentifier c) (\<lambda>c.
     qbind (attempt_opt ''ErrorStack'' (x509_sign S privkey c)) (\<lambda>s.
     Inr (Inr (\<lparr>x_spec = c, x_sig = s\<rparr>, privkey))))))))"

definition mk_request :: "gen_sys \<Rightarrow> bytes \<Rightarrow> x509_req attempt" where
  "mk_request S privkey =
     (let x509_name = [(''C'', ''US''), (''ST'', ''IN''), (''O'', ''Nodes''), (''CN'', ''nodes.com'')]
      in qbind (attempt_opt ''ErrorStack'' (req_sign S privkey x509_name)) (\<lambda>s.
         Inr (Inr \<lparr>rq_subject = x509_name, rq_pubkey = privkey, rq_sig = s\<rparr>)))"

definition get_signed_cert :: "gen_sys \<Rightarrow> nat \<Rightarrow> x509 \<Rightarrow> bytes \<Rightarrow> string list \<Rightarrow> (x509 \<times> bytes) attempt" where
  "get_signed_cert S k ca_cert ca_privkey extra_ip_sans =
     qbind (attempt_opt ''ErrorStack'' (rsa_generate S k)) (\<lambda>privkey.
     qbind (mk_request S privkey) (\<lambda>req.
     qbind (attempt_opt ''ErrorStack'' (rand_serial S k)) (\<lambda>serial.
     let c = \<lparr>cs_version = 2, cs_serial = serial, cs_subject = rq_subject req, cs_issuer = cs_subject (x_spec ca_cert),
              cs_pubkey = privkey, cs_not_before = 0, cs_not_after = 365, cs_extensions = []\<rparr>
     in qbind (append_extension S (BasicConstraints False False) c) (\<lambda>c.
     qbind (append_extension S (KeyUsage True [NonRepudiation, DigitalSignature, KeyEncipherment]) c) (\<lambda>c.
     qbind (append_extension S SubjectKeyIdentifier c) (\<lambda>c.
     qbind (append_extension S (AuthorityKeyIdentifier False False) c) (\<lambda>c.
     qbind (append_extension S (SubjectAlternativeName [''localhost'', ''nodes.com''] (''127.0.0.1'' # extra_ip_sans)) c) (\<lambda>c.
     qbind (attempt_opt ''ErrorStack'' (x509_sign S ca_privkey c)) (\<lambda>s.
     Inr (Inr (\<lparr>x_spec = c, x_sig = s\<rparr>, privkey)))))))))))"

definition write_cert_file :: "gen_sys \<Rightarrow> string \<Rightarrow> string \<Rightarrow> bytes \<Rightarrow> files \<Rightarrow> (string \<times> files) attempt" where
  "write_cert_file S target_dir name bytes fs =
     (let p = join_text target_dir name
      in if \<not> can_create S p then Inr (Inl ''io error'')
         else qbind (attempt_opt ''io error'' (canonicalize S p)) (\<lambda>abs. Inr (Inr (abs, fmupd p bytes fs))))"

section \<open>Options\<close>

record gen_args =
  ga_num_nodes :: nat
  ga_num_faults :: nat
  ga_delay :: nat
  ga_base_port :: nat
  ga_blocksize :: nat
  ga_client_base_port :: nat
  ga_t :: algorithm
  ga_out :: string
  ga_target :: string
  ga_payload :: nat
  ga_client_listen_port :: nat
  ga_mempool_base_port :: nat
  ga_num_clients :: nat
  ga_node_ip_sans :: "string list"
  ga_client_ip_sans :: "string list"

definition parse_ip_list :: "string option \<Rightarrow> string list" where
  "parse_ip_list spec =
     (case spec of None \<Rightarrow> [] | Some s \<Rightarrow> filter (\<lambda>x. x \<noteq> []) (map trim (split_on (CHR '','') s)))"

definition uint_arg :: "nat \<Rightarrow> string \<Rightarrow> string \<Rightarrow> string option \<Rightarrow> nat res" where
  "uint_arg w missing bad v = rbind (expect missing v) (\<lambda>s. expect bad (parse_uint w s))"

definition or_default :: "'a \<Rightarrow> 'a option \<Rightarrow> 'a" where
  "or_default d x = (case x of None \<Rightarrow> d | Some v \<Rightarrow> v)"

definition parse_gen_args :: "gen_sys \<Rightarrow> (string \<Rightarrow> string option) \<Rightarrow> gen_args res" where
  "parse_gen_args S m =
     rbind (uint_arg 64 ''number of nodes not specified'' ''unable to convert number of nodes into a number'' (m ''num_nodes'')) (\<lambda>num_nodes.
     rbind (case m ''num_faults'' of
              Some x \<Rightarrow> expect ''unable to convert number of faults into a number'' (parse_uint 64 x)
            | None \<Rightarrow> rbind (sub_u64 num_nodes 1) (\<lambda>k. Inr (k div 2))) (\<lambda>num_faults.
     rbind (uint_arg 64 ''delay value not specified'' ''unable to parse delay value into a number'' (m ''delay'')) (\<lambda>delay.
     rbind (uint_arg 16 ''base_port value not specified'' ''failed to parse base_port into a number'' (m ''base_port'')) (\<lambda>base_port.
     rbind (uint_arg 64 ''no block_size specified'' ''unable to convert blocksize into a number'' (m ''block_size'')) (\<lambda>blocksize.
     rbind (uint_arg 16 ''no client_base_port specified'' ''unable to parse client_base_port into an integer'' (m ''client_base_port'')) (\<lambda>client_base_port.
     let t = or_default ED25519 (algorithm_from_str S (or_default ''ED25519'' (m ''algorithm'')));
         out = or_default ''json'' (m ''out_type'')
     in rbind (expect ''target directory for the config not specified'' (m ''target'')) (\<lambda>target.
     rbind (unwrap (parse_uint 64 (or_default ''0'' (m ''payload'')))) (\<lambda>payload.
     rbind (uint_arg 16 ''client_listen_port value not specified'' ''failed to parse client_listen_port into an integer'' (m ''client_listen_port'')) (\<lambda>client_listen_port.
     rbind (uint_arg 16 ''mempool_base_port value not specified'' ''failed to parse mempool_base_port into an integer'' (m ''mempool_base_port'')) (\<lambda>mempool_base_port.
     rbind (expect ''failed to parse num_clients into an integer'' (parse_uint 16 (or_default ''1'' (m ''num_clients'')))) (\<lambda>num_clients.
     if num_clients = 0 then Inl (Panic ''num_clients must be >= 1'')
     else Inr \<lparr>ga_num_nodes = num_nodes, ga_num_faults = num_faults, ga_delay = delay, ga_base_port = base_port,
               ga_blocksize = blocksize, ga_client_base_port = client_base_port, ga_t = t, ga_out = out, ga_target = target,
               ga_payload = payload, ga_client_listen_port = client_listen_port, ga_mempool_base_port = mempool_base_port,
               ga_num_clients = num_clients, ga_node_ip_sans = parse_ip_list (m ''node_ips''),
               ga_client_ip_sans = parse_ip_list (m ''client_ips'')\<rparr>)))))))))))"

section \<open>Nodes and clients\<close>

record gen_state =
  gs_nodes :: "node_config list"
  gs_clients :: "client_config list"
  gs_pk :: "(replica, bytes) fmap"
  gs_ip :: "(replica, string) fmap"
  gs_mempool_ip :: "(replica, string) fmap"
  gs_client_net_map :: "(client_id, string) fmap"
  gs_files :: files

definition gen_client :: "gen_args \<Rightarrow> client_config" where
  "gen_client a =
     Client_new\<lparr>cc_block_size := ga_blocksize a, cc_crypto_alg := ga_t a, cc_num_nodes := ga_num_nodes a,
                cc_num_faults := ga_num_faults a\<rparr>"

definition gen_state_new :: "gen_args \<Rightarrow> files \<Rightarrow> gen_state" where
  "gen_state_new a fs =
     \<lparr>gs_nodes = [], gs_clients = replicate (ga_num_clients a) (gen_client a), gs_pk = fmempty, gs_ip = fmempty,
      gs_mempool_ip = fmempty, gs_client_net_map = fmempty, gs_files = fs\<rparr>"

text \<open>The key pair of node \<open>i\<close>, if the algorithm has one: public part and whole pair, serialised.\<close>

definition gen_keypair :: "gen_sys \<Rightarrow> gen_args \<Rightarrow> nat \<Rightarrow> (bytes \<times> bytes) option res" where
  "gen_keypair S a i =
     (case ga_t a of
        ED25519 \<Rightarrow> rbind (expect ''ed25519 keypair generation'' (ed25519_keypair S i)) (\<lambda>kp. Inr (Some kp))
      | SECP256K1 \<Rightarrow> Inr (Some (secp256k1_keypair S i))
      | RSA \<Rightarrow> Inr None)"

text \<open>
  Node \<open>i\<close>. The casts \<open>i as u16\<close> and \<open>i as Replica\<close> keep 16 bits. Randomness for certificates is
  numbered: the root has 0, node \<open>i\<close> has \<open>i + 1\<close>, client \<open>j\<close> has \<open>num_nodes + j + 1\<close>.
\<close>

definition gen_node :: "gen_sys \<Rightarrow> gen_args \<Rightarrow> x509 \<times> bytes \<Rightarrow> bytes \<Rightarrow> string \<Rightarrow> nat \<Rightarrow> gen_state \<Rightarrow> gen_state attempt" where
  "gen_node S a root root_cert_pem root_cert_path i st =
     (let r = i mod 2 ^ 16
      in rbind (add_u16 (ga_client_base_port a) r) (\<lambda>client_port.
         rbind (add_u16 (ga_mempool_base_port a) r) (\<lambda>mempool_port.
         rbind (gen_keypair S a i) (\<lambda>kp.
         rbind (add_u16 (ga_base_port a) r) (\<lambda>port.
         let pk = (case kp of None \<Rightarrow> gs_pk st | Some (pub, _) \<Rightarrow> fmupd r pub (gs_pk st));
             sk = (case kp of None \<Rightarrow> [] | Some (_, pair) \<Rightarrow> pair);
             ip = fmupd r (loopback_addr port) (gs_ip st);
             mempool_ip = fmupd r (loopback_addr mempool_port) (gs_mempool_ip st);
             clients = map (\<lambda>c. c\<lparr>cc_net_map := fmupd r (loopback_addr client_port) (cc_net_map c)\<rparr>) (gs_clients st)
         in qbind (get_signed_cert S (Suc i) (fst root) (snd root) (ga_node_ip_sans a)) (\<lambda>(new_cert, new_pkey).
            qbind (attempt_opt ''ErrorStack'' (cert_to_pem S new_cert)) (\<lambda>pem.
            qbind (attempt_opt ''ErrorStack'' (key_to_pem S new_pkey)) (\<lambda>node_key_pem.
            qbind (write_cert_file S (ga_target a) (''node-'' @ show_nat i @ ''.chain.pem'') (pem @ root_cert_pem) (gs_files st)) (\<lambda>(cert_path, fs).
            qbind (write_cert_file S (ga_target a) (''node-'' @ show_nat i @ ''.key.pem'') node_key_pem fs) (\<lambda>(key_path, fs).
            let node = Node_new\<lparr>nc_delta := ga_delay a, nc_id := r, nc_num_nodes := ga_num_nodes a,
                   nc_num_faults := ga_num_faults a, nc_block_size := ga_blocksize a, nc_payload := ga_payload a,
                   nc_client_port := client_port, nc_mempool_port := mempool_port, nc_crypto_alg := ga_t a,
                   nc_secret_key_bytes := sk, nc_root_cert_path := root_cert_path, nc_my_cert_path := cert_path,
                   nc_my_cert_key_path := key_path\<rparr>
            in Inr (Inr (st\<lparr>gs_nodes := gs_nodes st @ [node], gs_clients := clients, gs_pk := pk, gs_ip := ip,
                            gs_mempool_ip := mempool_ip, gs_files := fs\<rparr>))))))))))))"

definition gen_client_id :: "gen_sys \<Rightarrow> gen_args \<Rightarrow> x509 \<times> bytes \<Rightarrow> bytes \<Rightarrow> string \<Rightarrow> nat \<Rightarrow> gen_state \<Rightarrow> gen_state attempt" where
  "gen_client_id S a root root_cert_pem root_cert_path j st =
     rbind (add_u16 (ga_client_listen_port a) j) (\<lambda>port.
     let client_addr = loopback_addr port
     in qbind (get_signed_cert S (Suc (ga_num_nodes a + j)) (fst root) (snd root) (ga_client_ip_sans a)) (\<lambda>(client_cert, client_pkey).
        qbind (attempt_opt ''ErrorStack'' (cert_to_pem S client_cert)) (\<lambda>pem.
        qbind (attempt_opt ''ErrorStack'' (key_to_pem S client_pkey)) (\<lambda>client_key_pem.
        qbind (write_cert_file S (ga_target a) (''client-'' @ show_nat j @ ''.chain.pem'') (pem @ root_cert_pem) (gs_files st)) (\<lambda>(cert_path, fs).
        qbind (write_cert_file S (ga_target a) (''client-'' @ show_nat j @ ''.key.pem'') client_key_pem fs) (\<lambda>(key_path, fs).
        let c = (gs_clients st ! j)\<lparr>cc_my_id := j, cc_my_listen_addr := client_addr, cc_my_cert_path := cert_path,
                   cc_my_cert_key_path := key_path, cc_root_cert_path := root_cert_path\<rparr>
        in Inr (Inr (st\<lparr>gs_client_net_map := fmupd j client_addr (gs_client_net_map st),
                        gs_clients := (gs_clients st)[j := c], gs_files := fs\<rparr>))))))))"

section \<open>The files\<close>

text \<open>
  The order in which \<open>validate\<close> visits the hash maps decides only which error is reported, and here
  every error is a panic; the model visits them in the order of the keys.
\<close>

definition key_order :: "(replica, 'v) fmap \<Rightarrow> replica list" where
  "key_order m = sorted_list_of_fset (fmdom m)"

definition expect_valid :: "string \<Rightarrow> (parse_error + unit) res \<Rightarrow> 'a \<Rightarrow> 'a res" where
  "expect_valid msg v x = rbind v (\<lambda>r. case r of Inl _ \<Rightarrow> Inl (Panic msg) | Inr _ \<Rightarrow> Inr x)"

definition node_validates :: "node_config \<Rightarrow> (parse_error + unit) res" where
  "node_validates c = Node_validate c (key_order (nc_net_map c)) (sorted_list_of_fmap (nc_pk_map c))"

definition client_validates :: "client_config \<Rightarrow> (parse_error + unit) res" where
  "client_validates c = Client_validate c (key_order (cc_net_map c)) (sorted_list_of_fmap (cc_server_pk c))"

text \<open>One object under the name that the output type gives it; another output type writes nothing.\<close>

definition write_as :: "gen_sys \<Rightarrow> (file_type \<Rightarrow> 'a \<Rightarrow> bytes option) \<Rightarrow> string \<Rightarrow> string \<Rightarrow> 'a \<Rightarrow> files \<Rightarrow> files res" where
  "write_as S ser out stem obj fs =
     (if out = ''json'' then write_json S ser (stem @ ''.json'') obj fs
      else if out = ''binary'' then write_bin S ser (stem @ ''.dat'') obj fs
      else if out = ''toml'' then write_toml S ser (stem @ ''.toml'') obj fs
      else if out = ''yaml'' then write_yaml S ser (stem @ ''.yml'') obj fs
      else Inr fs)"

definition write_node_file :: "gen_sys \<Rightarrow> gen_args \<Rightarrow> nat \<times> node_config \<Rightarrow> files \<Rightarrow> files res" where
  "write_node_file S a = (\<lambda>(i, c) fs.
     rbind (write_as S (ser_node S) (ga_out a) (ga_target a @ ''/nodes-'' @ show_nat i) c fs) (\<lambda>fs.
     expect_valid ''failed to validate node config'' (node_validates c) fs))"

definition write_client_file :: "gen_sys \<Rightarrow> gen_args \<Rightarrow> nat \<times> client_config \<Rightarrow> files \<Rightarrow> files res" where
  "write_client_file S a = (\<lambda>(j, c) fs.
     rbind (write_as S (ser_client S) (ga_out a) (ga_target a @ ''/client-'' @ show_nat j) c fs) (\<lambda>fs.
     expect_valid ''failed to validate the client config'' (client_validates c) fs))"

definition finish_nodes :: "gen_state \<Rightarrow> node_config list" where
  "finish_nodes st =
     map (\<lambda>c. c\<lparr>nc_pk_map := gs_pk st, nc_net_map := gs_ip st, nc_mempool_net_map := gs_mempool_ip st,
                nc_client_net_map := gs_client_net_map st\<rparr>) (gs_nodes st)"

definition finish_clients :: "gen_state \<Rightarrow> client_config list" where
  "finish_clients st = map (\<lambda>c. c\<lparr>cc_server_pk := gs_pk st\<rparr>) (gs_clients st)"

definition gen_configs :: "gen_sys \<Rightarrow> gen_args \<Rightarrow> files \<Rightarrow> files attempt" where
  "gen_configs S a fs =
     qbind (new_root_cert S 0) (\<lambda>root.
     qbind (attempt_opt ''io error'' (if can_mkdir S (ga_target a) then Some () else None)) (\<lambda>_.
     qbind (attempt_opt ''ErrorStack'' (cert_to_pem S (fst root))) (\<lambda>root_cert_pem.
     qbind (write_cert_file S (ga_target a) ''root-cert.pem'' root_cert_pem fs) (\<lambda>(root_cert_path, fs).
     qbind (qfold (gen_node S a root root_cert_pem root_cert_path) [0..<ga_num_nodes a] (gen_state_new a fs)) (\<lambda>st.
     qbind (qfold (gen_client_id S a root root_cert_pem root_cert_path) [0..<ga_num_clients a] st) (\<lambda>st.
     rbind (rfold (write_node_file S a) (enumerate 0 (finish_nodes st)) (gs_files st)) (\<lambda>fs.
     rbind (rfold (write_client_file S a) (enumerate 0 (finish_clients st)) fs) (\<lambda>fs.
     rbind (write_as S (ser_client S) (ga_out a) (ga_target a @ ''/client'') (finish_clients st ! 0) fs) (\<lambda>fs.
     Inr (Inr fs))))))))))"

definition genconfig_main :: "gen_sys \<Rightarrow> (string \<Rightarrow> string option) \<Rightarrow> files \<Rightarrow> files attempt" where
  "genconfig_main S m fs = rbind (parse_gen_args S m) (\<lambda>a. gen_configs S a fs)"

end
