(* ===== verification/RR_Batcher.thy ===== *)
theory RR_Batcher
  imports Tx_Pool_Laws Batch
begin

text \<open>
  The round-robin batcher task of the keyed mempool (\<open>mempool/src/rr_batcher.rs\<close>): it owns the
  transaction pool and, while this replica leads the current round and has not proposed in it,
  seals batches on a timer tick, when enough bytes have arrived, or on entering the round. Each
  arm of its \<open>select!\<close> loop is a function; \<open>rr_step\<close> is one iteration of the loop, whose timer
  arm is guarded by \<open>can_propose\<close>.
\<close>

section \<open>State and handlers\<close>

record parameters =
  pm_my_id :: replica
  pm_initial_leader :: replica
  pm_batch_size :: nat
  pm_batch_timeout :: nat

definition Parameters_new :: "replica \<Rightarrow> replica \<Rightarrow> nat \<Rightarrow> nat \<Rightarrow> parameters" where
  "Parameters_new my_id initial_leader batch_size batch_timeout =
     \<lparr>pm_my_id = my_id, pm_initial_leader = initial_leader, pm_batch_size = batch_size,
      pm_batch_timeout = batch_timeout\<rparr>"

text \<open>
  \<open>outgoing\<close> is what was sent on \<open>tx_outgoing_batch\<close>; \<open>outgoing_open\<close> says whether the seal task
  still receives.
\<close>

record rr_batcher =
  rr_my_id :: replica
  current_leader :: replica
  current_round :: round
  proposed :: bool
  pool :: txpool
  outgoing :: "cached_batch list"
  outgoing_open :: bool

datatype rr_error = IncomingTxClosed | ConsensusChannelClosed | OutgoingClosed

text \<open>\<open>run\<close> returns only with an error; otherwise the loop goes on.\<close>

type_synonym rr_result = "rr_error + rr_batcher"

definition RRBatcher_spawn :: "parameters \<Rightarrow> rr_batcher" where
  "RRBatcher_spawn params =
     \<lparr>rr_my_id = pm_my_id params, current_leader = pm_initial_leader params, current_round = 0,
      proposed = False, pool = Txpool_new (pm_batch_size params), outgoing = [], outgoing_open = True\<rparr>"

definition can_propose :: "rr_batcher \<Rightarrow> bool" where
  "can_propose s \<longleftrightarrow> rr_my_id s = current_leader s \<and> \<not> proposed s"

definition propose :: "cached_batch \<Rightarrow> rr_batcher \<Rightarrow> rr_result" where
  "propose b s =
     (let s = s\<lparr>proposed := True\<rparr>
      in if outgoing_open s then Inr (s\<lparr>outgoing := outgoing s @ [b]\<rparr>) else Inl OutgoingClosed)"

text \<open>The three places that seal a batch share this code: make it, send it unless it is empty.\<close>

definition seal_and_propose :: "rr_batcher \<Rightarrow> rr_result res" where
  "seal_and_propose s =
     rbind (make_batch (current_round s) (pool s)) (\<lambda>(payload, p).
     let s = s\<lparr>pool := p\<rparr>
     in Inr (if payload = [] then Inr s else propose (CachedBatch_new payload) s))"

definition try_propose :: "rr_batcher \<Rightarrow> rr_result res" where
  "try_propose s =
     (if rr_my_id s = current_leader s \<and> \<not> proposed s \<and> ready (pool s) then seal_and_propose s
      else Inr (Inr s))"

definition on_tick :: "rr_batcher \<Rightarrow> rr_result res" where
  "on_tick s = seal_and_propose s"

definition on_incoming_tx :: "(transaction \<times> nat) option \<Rightarrow> rr_batcher \<Rightarrow> rr_result res" where
  "on_incoming_tx m s =
     (case m of
        None \<Rightarrow> Inr (Inl IncomingTxClosed)
      | Some (tx, sz) \<Rightarrow>
          rbind (add_tx tx sz (pool s)) (\<lambda>p.
          let s' = s\<lparr>pool := p\<rparr>
          in if can_propose s \<and> ready (pool s') then seal_and_propose s' else Inr (Inr s')))"

definition on_consensus :: "ext \<Rightarrow> batcher_msg option \<Rightarrow> rr_batcher \<Rightarrow> rr_result res" where
  "on_consensus E m s =
     (case m of
        None \<Rightarrow> Inr (Inl ConsensusChannelClosed)
      | Some (NewRound leader r) \<Rightarrow>
          try_propose (s\<lparr>current_leader := leader, current_round := r, proposed := False,
                         pool := reset_timer (pool s)\<rparr>)
      | Some (Proposed b r) \<Rightarrow>
          rbind (admit_proposal E b r (pool s)) (\<lambda>p. Inr (Inr (s\<lparr>pool := p\<rparr>)))
      | Some (Committed b r) \<Rightarrow>
          rbind (commit b r (pool s)) (\<lambda>p. Inr (Inr (s\<lparr>pool := p\<rparr>)))
      | Some (Rollback rounds) \<Rightarrow>
          rbind (rollback rounds (pool s)) (\<lambda>p. Inr (Inr (s\<lparr>pool := p\<rparr>))))"

section \<open>The loop\<close>

datatype rr_event =
    Tick
  | IncomingTx "(transaction \<times> nat) option"
  | IncomingConsensus "batcher_msg option"

fun rr_handle :: "ext \<Rightarrow> rr_event \<Rightarrow> rr_batcher \<Rightarrow> rr_result res" where
  "rr_handle E Tick s = on_tick s"
| "rr_handle E (IncomingTx m) s = on_incoming_tx m s"
| "rr_handle E (IncomingConsensus m) s = on_consensus E m s"

fun rr_enabled :: "rr_event \<Rightarrow> rr_batcher \<Rightarrow> bool" where
  "rr_enabled Tick s = can_propose s"
| "rr_enabled _ s = True"

inductive rr_step :: "ext \<Rightarrow> rr_event \<Rightarrow> rr_batcher \<Rightarrow> rr_batcher \<Rightarrow> bool" for E where
  "rr_enabled ev s \<Longrightarrow> rr_handle E ev s = Inr (Inr s') \<Longrightarrow> rr_step E ev s s'"

inductive_cases rr_stepE: "rr_step E ev s s'"

text \<open>Runs of the loop with the events they handle.\<close>

inductive rr_run :: "ext \<Rightarrow> rr_batcher \<Rightarrow> rr_event list \<Rightarrow> rr_batcher \<Rightarrow> bool" for E where
  rr_nil: "rr_run E s [] s"
| rr_cons: "rr_step E ev s t \<Longrightarrow> rr_run E t evs s' \<Longrightarrow> rr_run E s (ev # evs) s'"

fun is_NewRound :: "rr_event \<Rightarrow> bool" where
  "is_NewRound (IncomingConsensus (Some (NewRound l r))) = True"
| "is_NewRound _ = False"

section \<open>What one iteration does\<close>

text \<open>
  A batch that a state has just sent: this replica leads the round and has proposed in it, and the
  batch is a non-empty list of transactions that are InFlight in the current round and above the
  watermark of their client.
\<close>

definition sends :: "rr_batcher \<Rightarrow> cached_batch \<Rightarrow> bool" where
  "sends s b \<longleftrightarrow>
     proposed s \<and> rr_my_id s = current_leader s \<and> cb_payload b \<noteq> [] \<and>
     (\<forall>tx\<in>set (cb_payload b).
        \<exists>e. fmlookup (inflight (pool s)) (tx_key tx) = Some e \<and> ie_tx e = tx \<and> ie_round e = current_round s \<and>
          hi_nonce (pool s) (tx_client_id tx) < tx_nonce tx)"

text \<open>What sealing does from \<open>s\<close>: nothing is sent, or one such batch.\<close>

definition sealed_from :: "rr_batcher \<Rightarrow> rr_batcher \<Rightarrow> bool" where
  "sealed_from s s' \<longleftrightarrow>
     pool_inv (pool s') \<and> rr_my_id s' = rr_my_id s \<and> current_leader s' = current_leader s \<and>
     current_round s' = current_round s \<and>
     (outgoing s' = outgoing s \<and> proposed s' = proposed s \<or>
      (\<exists>b. outgoing s' = outgoing s @ [b] \<and> sends s' b))"

lemma make_batch_promotes:
  assumes "pool_inv p" and "make_batch r p = Inr (txs, p')" and "tx \<in> set txs"
  shows "\<exists>e. fmlookup (inflight p') (tx_key tx) = Some e \<and> ie_tx e = tx \<and> ie_round e = r \<and>
    hi_nonce p' (tx_client_id tx) < tx_nonce tx"
proof -
  obtain t rest where t: "seal (pool_batch_size p) 0 (mineable p) = (t, rest)" by fastforce
  from make_batch_seal [OF assms(1) t, of r] assms(2) have
    p': "txs = map (fst \<circ> snd) t" "\<forall>k. fmlookup (inflight p') k = (case map_of t k of
          Some (tx, sz) \<Rightarrow> Some \<lparr>ie_tx = tx, ie_size = sz, ie_round = r\<rparr>
        | None \<Rightarrow> fmlookup (inflight p) k)" "high_committed_nonce p' = high_committed_nonce p"
    by auto
  from p'(1) assms(3) obtain k sz where k: "(k, tx, sz) \<in> set t" by auto
  then have m: "map_of t k = Some (tx, sz)"
    using distinct_seal_keys(1) [OF assms(1) t] by simp
  then have "bt_get (mineable p) k = Some (tx, sz)"
    using distinct_seal_keys(2) [OF assms(1) t] by blast
  from pool_inv_mineable [OF assms(1) this] have "tx_key tx = k" "hi_nonce p (fst k) < snd k" by auto
  with m p'(2) [rule_format, of k] p'(3) show ?thesis
    by (auto simp: hi_nonce_def tx_key_def)
qed

lemma seal_and_propose_ok:
  assumes "pool_inv (pool s)"
  shows "\<exists>r. seal_and_propose s = Inr r"
    and "seal_and_propose s = Inr (Inr s') \<Longrightarrow> rr_my_id s = current_leader s \<Longrightarrow> sealed_from s s'"
proof -
  obtain txs p where mk: "make_batch (current_round s) (pool s) = Inr (txs, p)" "pool_inv p"
    using make_batch_ok [OF assms] by blast
  then show "\<exists>r. seal_and_propose s = Inr r" by (simp add: seal_and_propose_def Let_def)
  assume "seal_and_propose s = Inr (Inr s')" and "rr_my_id s = current_leader s"
  with mk make_batch_promotes [OF assms mk(1)] show "sealed_from s s'"
    by (auto simp: seal_and_propose_def propose_def Let_def sealed_from_def sends_def split: if_splits)
qed

definition rr_inv :: "rr_batcher \<Rightarrow> bool" where
  "rr_inv s \<longleftrightarrow> pool_inv (pool s)"

lemma rr_inv_spawn: "rr_inv (RRBatcher_spawn params)"
  by (simp add: rr_inv_def RRBatcher_spawn_def pool_inv_new)

text \<open>
  The effect of one iteration on the channel: without a new round, a batch is sent only by a
  replica that may propose, which then no longer may.
\<close>

definition quiet :: "rr_batcher \<Rightarrow> rr_batcher \<Rightarrow> bool" where
  "quiet s s' \<longleftrightarrow>
     rr_my_id s' = rr_my_id s \<and> current_leader s' = current_leader s \<and> current_round s' = current_round s \<and>
     (outgoing s' = outgoing s \<and> proposed s' = proposed s \<or>
      can_propose s \<and> (\<exists>b. outgoing s' = outgoing s @ [b] \<and> sends s' b))"

lemma pool_inv_reset: "pool_inv (reset_timer p) = pool_inv p"
  by (simp add: pool_inv_def pool_inv_x_reset)

lemma on_incoming_tx_ok:
  assumes "rr_inv s" and "on_incoming_tx m s = Inr (Inr s')"
  shows "rr_inv s' \<and> quiet s s'"
proof -
  from assms(2) obtain tx sz p where p: "m = Some (tx, sz)" "add_tx tx sz (pool s) = Inr p"
    by (auto simp: on_incoming_tx_def split: option.splits)
  let ?s = "s\<lparr>pool := p\<rparr>"
  have inv: "pool_inv (pool ?s)" using pool_inv_add_tx p(2) assms(1) by (auto simp: rr_inv_def)
  show ?thesis
  proof (cases "can_propose s \<and> ready p")
    case True
    with assms(2) p have "seal_and_propose ?s = Inr (Inr s')" by (simp add: on_incoming_tx_def)
    moreover have "rr_my_id ?s = current_leader ?s" using True by (simp add: can_propose_def)
    ultimately show ?thesis
      using seal_and_propose_ok(2) [OF inv] True by (auto simp: sealed_from_def rr_inv_def quiet_def)
  next
    case False
    with assms(2) p inv show ?thesis by (auto simp: on_incoming_tx_def quiet_def rr_inv_def)
  qed
qed

lemma try_propose_ok:
  assumes "pool_inv (pool s)" and "try_propose s = Inr (Inr s')"
  shows "sealed_from s s'"
proof (cases "rr_my_id s = current_leader s \<and> \<not> proposed s \<and> ready (pool s)")
  case True
  with assms seal_and_propose_ok(2) [OF assms(1)] show ?thesis by (simp add: try_propose_def)
next
  case False
  with assms have "s' = s" by (auto simp: try_propose_def)
  with assms(1) show ?thesis by (simp add: sealed_from_def)
qed

lemma on_consensus_ok:
  assumes "rr_inv s" and "on_consensus E m s = Inr (Inr s')"
  shows "rr_inv s' \<and> (\<not> is_NewRound (IncomingConsensus m) \<longrightarrow> quiet s s') \<and>
    (outgoing s' = outgoing s \<or> (\<exists>b. outgoing s' = outgoing s @ [b] \<and> sends s' b))"
proof -
  have inv: "pool_inv (pool s)" using assms(1) by (simp add: rr_inv_def)
  from assms(2) obtain msg where m: "m = Some msg" by (auto simp: on_consensus_def split: option.splits)
  show ?thesis
  proof (cases msg)
    case (NewRound l r)
    let ?s = "s\<lparr>current_leader := l, current_round := r, proposed := False, pool := reset_timer (pool s)\<rparr>"
    have "sealed_from ?s s'"
      using assms(2) inv by (intro try_propose_ok) (simp_all add: on_consensus_def m NewRound pool_inv_reset)
    then show ?thesis by (auto simp: m NewRound rr_inv_def sealed_from_def)
  next
    case (Proposed b r)
    with assms(2) m admit_proposal_ok [OF inv, of E b r] show ?thesis
      by (auto simp: on_consensus_def rr_inv_def quiet_def)
  next
    case (Committed b r)
    with assms(2) m commit_ok [OF inv, of b r] show ?thesis
      by (auto simp: on_consensus_def rr_inv_def quiet_def)
  next
    case (Rollback rs)
    with assms(2) m rollback_spec [OF inv, of rs] show ?thesis
      by (auto simp: on_consensus_def rr_inv_def quiet_def)
  qed
qed

lemma rr_step_ok:
  assumes "rr_inv s" and "rr_step E ev s s'"
  shows "rr_inv s' \<and> (\<not> is_NewRound ev \<longrightarrow> quiet s s') \<and>
    (outgoing s' = outgoing s \<or> (\<exists>b. outgoing s' = outgoing s @ [b] \<and> sends s' b))"
proof -
  from assms(2) have en: "rr_enabled ev s" and h: "rr_handle E ev s = Inr (Inr s')"
    by (auto elim: rr_stepE)
  show ?thesis
  proof (cases ev)
    case Tick
    with en h have "seal_and_propose s = Inr (Inr s')" "rr_my_id s = current_leader s"
      by (simp_all add: on_tick_def can_propose_def)
    with seal_and_propose_ok(2) [of s s'] assms(1) en Tick show ?thesis
      by (auto simp: sealed_from_def rr_inv_def quiet_def)
  next
    case (IncomingTx m)
    with h on_incoming_tx_ok [OF assms(1)] show ?thesis by (auto simp: quiet_def)
  next
    case (IncomingConsensus m)
    with h on_consensus_ok [OF assms(1)] show ?thesis by simp
  qed
qed

interpretation rr: step_system "\<lambda>s. \<exists>params. s = RRBatcher_spawn params" "\<lambda>s s'. \<exists>ev. rr_step E ev s s'" rr_inv for E
  by unfold_locales (auto simp: rr_inv_spawn dest: rr_step_ok)

lemma rr_run_inv: "rr_run E s evs s' \<Longrightarrow> rr_inv s \<Longrightarrow> rr_inv s'"
  by (induction rule: rr_run.induct) (auto dest: rr_step_ok)

lemma rr_run_quiet:
  assumes "rr_run E s evs s'" and "rr_inv s" and "\<not> can_propose s" and "\<forall>ev\<in>set evs. \<not> is_NewRound ev"
  shows "outgoing s' = outgoing s \<and> \<not> can_propose s'"
  using assms
proof (induction rule: rr_run.induct)
  case (rr_cons ev s t evs s')
  from rr_step_ok [OF rr_cons.prems(1) rr_cons.hyps(1)] rr_cons.prems have
    "rr_inv t" "quiet s t" by auto
  with rr_cons.prems rr_cons.IH show ?case by (auto simp: quiet_def can_propose_def)
qed simp

lemma rr_run_once:
  assumes "rr_run E s evs s'" and "rr_inv s" and "\<forall>ev\<in>set evs. \<not> is_NewRound ev"
  shows "outgoing s' = outgoing s \<or> can_propose s \<and> (\<exists>b. outgoing s' = outgoing s @ [b] \<and> cb_payload b \<noteq> [])"
  using assms
proof (induction rule: rr_run.induct)
  case (rr_cons ev s t evs s')
  from rr_step_ok [OF rr_cons.prems(1) rr_cons.hyps(1)] rr_cons.prems have
    t: "rr_inv t" "quiet s t" by auto
  show ?case
  proof (cases "outgoing t = outgoing s \<and> proposed t = proposed s")
    case True
    with t rr_cons.prems rr_cons.IH show ?thesis by (auto simp: quiet_def can_propose_def)
  next
    case False
    with t(2) obtain b where "can_propose s" "outgoing t = outgoing s @ [b]" "sends t b"
      by (auto simp: quiet_def)
    moreover from this have "\<not> can_propose t" by (simp add: sends_def can_propose_def)
    with rr_run_quiet [OF rr_cons.hyps(2) t(1)] rr_cons.prems have "outgoing s' = outgoing t" by auto
    ultimately show ?thesis by (auto simp: sends_def)
  qed
qed simp

lemma rr_handle_fault:
  assumes "rr_inv s" and "rr_handle E ev s = Inl f"
  shows "f = Overflow"
proof -
  have inv: "pool_inv (pool s)" using assms(1) by (simp add: rr_inv_def)
  have seal: "seal_and_propose s' \<noteq> Inl f" if "pool_inv (pool s')" for s'
    using seal_and_propose_ok(1) [OF that] by auto
  have add: "pool_inv p" if "add_tx tx sz (pool s) = Inr p" for tx sz p
    using pool_inv_add_tx [OF inv that] .
  show ?thesis
  proof (cases ev)
    case Tick
    with assms(2) seal inv show ?thesis by (simp add: on_tick_def)
  next
    case (IncomingTx m)
    with assms(2) obtain tx sz where "rbind (add_tx tx sz (pool s)) (\<lambda>p.
        if can_propose s \<and> ready p then seal_and_propose (s\<lparr>pool := p\<rparr>) else Inr (Inr (s\<lparr>pool := p\<rparr>))) = Inl f"
      by (auto simp: on_incoming_tx_def Let_def split: option.splits)
    then have "add_tx tx sz (pool s) = Inl f"
      using seal add by (cases "add_tx tx sz (pool s)") (auto split: if_splits)
    then show ?thesis by (simp add: add_tx_spec [OF inv] split: if_splits)
  next
    case (IncomingConsensus m)
    with assms(2) obtain msg where m: "m = Some msg" by (auto simp: on_consensus_def split: option.splits)
    show ?thesis
    proof (cases msg)
      case (NewRound l r)
      let ?s = "s\<lparr>current_leader := l, current_round := r, proposed := False, pool := reset_timer (pool s)\<rparr>"
      have "seal_and_propose ?s \<noteq> Inl f" using inv by (intro seal) (simp add: pool_inv_reset)
      with assms(2) show ?thesis
        by (auto simp: IncomingConsensus m NewRound on_consensus_def try_propose_def split: if_splits)
    next
      case (Proposed b r)
      with assms(2) admit_proposal_ok [OF inv, of E b r] show ?thesis
        by (auto simp: IncomingConsensus m on_consensus_def)
    next
      case (Committed b r)
      with assms(2) commit_ok [OF inv, of b r] show ?thesis
        by (auto simp: IncomingConsensus m on_consensus_def)
    next
      case (Rollback rs)
      with assms(2) rollback_spec [OF inv, of rs] show ?thesis
        by (auto simp: IncomingConsensus m on_consensus_def rbind_Inl_iff)
    qed
  qed
qed

section \<open>Properties\<close>

text \<open>
  C30: One batch per round, and only from the leader. Along any run of the batcher task, between two
  \<open>NewRound\<close> signals of consensus (that is, over any stretch of events without one) at most one
  batch is sent, it is not empty, and none is sent unless this replica is the leader of the round
  and has not yet proposed in it.
\<close>
theorem one_batch_per_round:
  assumes "rr_run E (RRBatcher_spawn params) evs0 s" and "rr_run E s evs s'"
    and "\<forall>ev\<in>set evs. \<not> is_NewRound ev"
  shows "outgoing s' = outgoing s \<or>
    rr_my_id s = current_leader s \<and> \<not> proposed s \<and> (\<exists>b. outgoing s' = outgoing s @ [b] \<and> cb_payload b \<noteq> [])"
  using rr_run_once [OF assms(2) rr_run_inv [OF assms(1) rr_inv_spawn] assms(3)]
  by (simp add: can_propose_def)

text \<open>
  When the batcher sends a batch, its transactions are afterwards InFlight in the pool, tagged
  with the round the batcher is in, and above their client's watermark; the replica leads that
  round and is marked as having proposed.
\<close>
theorem sent_batch_in_flight:
  assumes "rr_run E (RRBatcher_spawn params) evs s" and "rr_step E ev s s'"
    and "outgoing s' = outgoing s @ [b]"
  shows "proposed s' \<and> rr_my_id s' = current_leader s' \<and> cb_payload b \<noteq> [] \<and>
    (\<forall>tx\<in>set (cb_payload b). \<exists>e. fmlookup (inflight (pool s')) (tx_key tx) = Some e \<and> ie_tx e = tx \<and>
       ie_round e = current_round s' \<and> hi_nonce (pool s') (tx_client_id tx) < tx_nonce tx)"
  using rr_step_ok [OF rr_run_inv [OF assms(1) rr_inv_spawn] assms(2)] assms(3)
  by (auto simp: sends_def)

text \<open>
  C31: The batcher task never panics: along every run, handling the next event returns, unless the
  pool's byte counter overflows. It stops only with one of its three channel errors.
\<close>
theorem batcher_never_panics:
  assumes "rr_run E (RRBatcher_spawn params) evs s"
  shows "rr_handle E ev s \<in> {Inl Overflow, Inr (Inl IncomingTxClosed), Inr (Inl ConsensusChannelClosed),
      Inr (Inl OutgoingClosed)} \<or> (\<exists>s'. rr_handle E ev s = Inr (Inr s'))"
proof (cases "rr_handle E ev s")
  case (Inl f)
  with rr_handle_fault [OF rr_run_inv [OF assms rr_inv_spawn]] show ?thesis by simp
next
  case (Inr r)
  then show ?thesis by (cases r; cases "projl r") auto
qed

definition sample_params :: parameters where
  "sample_params = Parameters_new 1 1 4 100"

lemmas rr_run_defs = sample_params_def Parameters_new_def RRBatcher_spawn_def on_tick_def
  on_incoming_tx_def on_consensus_def try_propose_def seal_and_propose_def propose_def can_propose_def
  ready_def CachedBatch_new_def

lemma rr_run_one: "rr_step E ev s s' \<Longrightarrow> rr_run E s [ev] s'"
  by (blast intro: rr_run.intros)

lemma sample_rr_step:
  "rr_step sample_ext (IncomingTx (Some (sample_tx 1 1, 6))) (RRBatcher_spawn sample_params)
     (projr (projr (on_incoming_tx (Some (sample_tx 1 1, 6)) (RRBatcher_spawn sample_params))))"
  "outgoing (projr (projr (on_incoming_tx (Some (sample_tx 1 1, 6)) (RRBatcher_spawn sample_params))))
     = outgoing (RRBatcher_spawn sample_params) @ [CachedBatch_new [sample_tx 1 1]]"
  by (auto intro!: rr_step.intros simp: rr_run_defs pool_run_defs)

theorem one_batch_per_round_witness:
  "\<exists>s. rr_run sample_ext (RRBatcher_spawn sample_params) [IncomingTx (Some (sample_tx 1 1, 6))] s \<and>
     outgoing s \<noteq> outgoing (RRBatcher_spawn sample_params) \<and> rr_my_id (RRBatcher_spawn sample_params) = 1"
  using one_batch_per_round [OF rr_nil rr_run_one [OF sample_rr_step(1)]] sample_rr_step(2)
    rr_run_one [OF sample_rr_step(1)]
  by (auto simp: RRBatcher_spawn_def sample_params_def Parameters_new_def)

theorem sent_batch_in_flight_witness:
  "\<exists>s. rr_step sample_ext (IncomingTx (Some (sample_tx 1 1, 6))) (RRBatcher_spawn sample_params) s \<and>
     fmmem (1, 1) (inflight (pool s)) \<and> proposed s"
  using sent_batch_in_flight [OF rr_nil sample_rr_step(1,2)] sample_rr_step(1)
  by (auto simp: tx_key_def fmmem_def)

theorem batcher_never_panics_witness:
  "rr_handle sample_ext (IncomingTx None) (RRBatcher_spawn sample_params) = Inr (Inl IncomingTxClosed)"
  using batcher_never_panics [OF rr_nil, of sample_ext "IncomingTx None" sample_params]
  by (auto simp: on_incoming_tx_def)

end
