(* ===== verification/Keyed_Mempool.thy ===== *)
theory Keyed_Mempool
  imports RR_Batcher
begin

text \<open>
  The client side of the keyed mempool (\<open>client_listener.rs\<close>, \<open>confirmation_router.rs\<close>) and the
  whole of \<open>KeyedMempool\<close> (\<open>lib.rs\<close>): listener, batcher, seal task and confirmation router as
  tasks that communicate over channels. In the composed system a channel is the list of
  everything sent on it with the number of messages already taken; a step of \<open>km_task\<close> is one task
  handling one message, in any order, so the relation covers every interleaving.
\<close>

section \<open>Client listener\<close>

record listener =
  ls_to_batcher :: "(transaction \<times> nat) list"
  ls_to_router :: "(hash \<times> socket_addr) list"
  ls_exited :: bool

definition listener_new :: listener where
  "listener_new = \<lparr>ls_to_batcher = [], ls_to_router = [], ls_exited = False\<rparr>"

text \<open>One transaction; \<open>router_open\<close> and \<open>batcher_open\<close> are the states of the two channels.\<close>

definition listen_tx :: "ext \<Rightarrow> bool \<Rightarrow> bool \<Rightarrow> socket_addr \<Rightarrow> transaction \<Rightarrow> listener \<Rightarrow> listener" where
  "listen_tx E router_open batcher_open reply_to tx s =
     (if ls_exited s then s
      else
        let tx_hash = hash_tx E tx;
            s = (if router_open then s\<lparr>ls_to_router := ls_to_router s @ [(tx_hash, reply_to)]\<rparr> else s);
            sz = (case tx_serialized_size E tx of Some n \<Rightarrow> n | None \<Rightarrow> 0)
        in if batcher_open then s\<lparr>ls_to_batcher := ls_to_batcher s @ [(tx, sz)]\<rparr>
           else s\<lparr>ls_exited := True\<rparr>)"

text \<open>\<open>None\<close> is a frame that does not decode.\<close>

definition on_client_msg :: "ext \<Rightarrow> bool \<Rightarrow> bool \<Rightarrow> client_msg option \<Rightarrow> listener \<Rightarrow> listener" where
  "on_client_msg E router_open batcher_open m s =
     (case m of
        Some (NewBatch batch reply_to) \<Rightarrow> fold (listen_tx E router_open batcher_open reply_to) batch s
      | Some (NewTx tx reply_to) \<Rightarrow> listen_tx E router_open batcher_open reply_to tx s
      | Some (Confirmation _) \<Rightarrow> s
      | None \<Rightarrow> s)"

section \<open>Confirmation router\<close>

text \<open>\<open>rt_sent\<close> is what was handed to the reply sender, \<open>rt_peers\<close> the addresses it knows.\<close>

record router =
  rt_pending :: "(hash, socket_addr) fmap"
  rt_peers :: "socket_addr fset"
  rt_sent :: "(socket_addr \<times> bytes) list"

definition router_new :: router where
  "router_new = \<lparr>rt_pending = fmempty, rt_peers = {||}, rt_sent = []\<rparr>"

definition router_register :: "hash \<times> socket_addr \<Rightarrow> router \<Rightarrow> router" where
  "router_register reg s = s\<lparr>rt_pending := fmupd (fst reg) (snd reg) (rt_pending s)\<rparr>"

definition router_confirm :: "ext \<Rightarrow> transaction \<Rightarrow> router \<Rightarrow> router" where
  "router_confirm E tx s =
     (let tx_hash = hash_tx E tx
      in case fmlookup (rt_pending s) tx_hash of
           None \<Rightarrow> s
         | Some addr \<Rightarrow>
             let s = s\<lparr>rt_pending := fmdrop tx_hash (rt_pending s)\<rparr>
             in case ser_client_msg E (Confirmation tx_hash) of
                  None \<Rightarrow> s
                | Some bs \<Rightarrow>
                    let s = (if addr |\<in>| rt_peers s then s else s\<lparr>rt_peers := finsert addr (rt_peers s)\<rparr>)
                    in s\<lparr>rt_sent := rt_sent s @ [(addr, bs)]\<rparr>)"

definition router_committed :: "ext \<Rightarrow> cached_batch \<Rightarrow> router \<Rightarrow> router" where
  "router_committed E b s = fold (router_confirm E) (cb_payload b) s"

section \<open>The composed mempool\<close>

record keyed_mempool =
  km_listener :: listener
  km_batcher :: rr_batcher
  km_sink :: batch_sink
  km_router :: router
  km_batcher_taken :: nat
  km_sealed_taken :: nat
  km_router_taken :: nat

definition KeyedMempool_spawn :: "parameters \<Rightarrow> (bytes, bytes) fmap \<Rightarrow> keyed_mempool" where
  "KeyedMempool_spawn params st =
     \<lparr>km_listener = listener_new, km_batcher = RRBatcher_spawn params, km_sink = batch_sink_new st,
      km_router = router_new, km_batcher_taken = 0, km_sealed_taken = 0, km_router_taken = 0\<rparr>"

text \<open>
  The mempool's own tasks, each step labelled by the client frame it takes (\<open>None\<close> for a step that
  takes none). What consensus sends arrives on two further channels, whose senders the mempool does
  not know: in \<open>km_step\<close> they may send anything.
\<close>

inductive km_task :: "ext \<Rightarrow> client_msg option option \<Rightarrow> keyed_mempool \<Rightarrow> keyed_mempool \<Rightarrow> bool" for E where
  km_client: "km_task E (Some msg) m (m\<lparr>km_listener := on_client_msg E True True msg (km_listener m)\<rparr>)"
| km_tx:
    "km_batcher_taken m < length (ls_to_batcher (km_listener m)) \<Longrightarrow>
     rr_step E (IncomingTx (Some (ls_to_batcher (km_listener m) ! km_batcher_taken m))) (km_batcher m) b \<Longrightarrow>
     km_task E None m (m\<lparr>km_batcher := b, km_batcher_taken := Suc (km_batcher_taken m)\<rparr>)"
| km_tick: "rr_step E Tick (km_batcher m) b \<Longrightarrow> km_task E None m (m\<lparr>km_batcher := b\<rparr>)"
| km_seal:
    "km_sealed_taken m < length (outgoing (km_batcher m)) \<Longrightarrow>
     km_task E None m (m\<lparr>km_sink := process_batch E True (outgoing (km_batcher m) ! km_sealed_taken m) (km_sink m),
                         km_sealed_taken := Suc (km_sealed_taken m)\<rparr>)"
| km_register:
    "km_router_taken m < length (ls_to_router (km_listener m)) \<Longrightarrow>
     km_task E None m (m\<lparr>km_router := router_register (ls_to_router (km_listener m) ! km_router_taken m) (km_router m),
                         km_router_taken := Suc (km_router_taken m)\<rparr>)"

inductive km_step :: "ext \<Rightarrow> keyed_mempool \<Rightarrow> keyed_mempool \<Rightarrow> bool" for E where
  km_own: "km_task E l m m' \<Longrightarrow> km_step E m m'"
| km_consensus:
    "rr_step E (IncomingConsensus (Some c)) (km_batcher m) b \<Longrightarrow> km_step E m (m\<lparr>km_batcher := b\<rparr>)"
| km_committed: "km_step E m (m\<lparr>km_router := router_committed E c (km_router m)\<rparr>)"

section \<open>Listener and router\<close>

lemma listen_batch:
  assumes "\<not> ls_exited s"
  shows "fold (listen_tx E True True r) txs s =
    s\<lparr>ls_to_router := ls_to_router s @ map (\<lambda>tx. (hash_tx E tx, r)) txs,
      ls_to_batcher := ls_to_batcher s @
        map (\<lambda>tx. (tx, case tx_serialized_size E tx of Some n \<Rightarrow> n | None \<Rightarrow> 0)) txs\<rparr>"
  using assms by (induction txs arbitrary: s) (simp_all add: listen_tx_def Let_def)

text \<open>The confirmations a commit owes: one per pending hash among the committed transactions.\<close>

definition owed :: "ext \<Rightarrow> transaction list \<Rightarrow> router \<Rightarrow> hash set" where
  "owed E txs s =
     {h \<in> hash_tx E ` set txs. fmmem h (rt_pending s) \<and> ser_client_msg E (Confirmation h) \<noteq> None}"

lemma finite_owed [simp]: "finite (owed E txs s)"
  by (simp add: owed_def)

definition confirmation :: "ext \<Rightarrow> router \<Rightarrow> hash \<Rightarrow> socket_addr \<times> bytes" where
  "confirmation E s h = (the (fmlookup (rt_pending s) h), the (ser_client_msg E (Confirmation h)))"

lemma router_confirm_pending [simp]:
  "rt_pending (router_confirm E tx s) = fmdrop (hash_tx E tx) (rt_pending s)"
  by (auto simp: router_confirm_def Let_def fmdrop_idle' fmlookup_dom'_iff split: option.splits)

lemma router_confirm_sent:
  "rt_sent (router_confirm E tx s) =
     rt_sent s @ (if hash_tx E tx \<in> owed E [tx] s then [confirmation E s (hash_tx E tx)] else [])"
  by (auto simp: router_confirm_def Let_def owed_def confirmation_def fmmem_def split: option.splits)

lemma owed_Cons:
  "owed E (tx # txs) s = owed E [tx] s \<union> owed E txs (router_confirm E tx s)"
  "owed E [tx] s \<inter> owed E txs (router_confirm E tx s) = {}"
  by (auto simp: owed_def)

lemma router_commit_spec:
  "\<exists>new. rt_sent (fold (router_confirm E) txs s) = rt_sent s @ map (confirmation E s) new \<and>
     distinct new \<and> set new = owed E txs s \<and>
     (\<forall>h. fmlookup (rt_pending (fold (router_confirm E) txs s)) h =
        (if h \<in> hash_tx E ` set txs then None else fmlookup (rt_pending s) h))"
proof (induction txs arbitrary: s)
  case Nil
  then show ?case by (auto simp: owed_def intro: exI [of _ "[]"])
next
  case (Cons tx txs)
  let ?h = "hash_tx E tx" and ?s = "router_confirm E tx s"
  obtain new where new: "rt_sent (fold (router_confirm E) txs ?s) = rt_sent ?s @ map (confirmation E ?s) new"
      "distinct new" "set new = owed E txs ?s"
      "\<forall>h. fmlookup (rt_pending (fold (router_confirm E) txs ?s)) h =
        (if h \<in> hash_tx E ` set txs then None else fmlookup (rt_pending ?s) h)"
    using Cons.IH [of ?s] by blast
  have "?h \<notin> set new" using new(3) by (auto simp: owed_def)
  then have "map (confirmation E ?s) new = map (confirmation E s) new"
    by (auto simp: confirmation_def)
  moreover have "owed E [tx] s = (if ?h \<in> owed E [tx] s then {?h} else {})" by (auto simp: owed_def)
  ultimately show ?case
    using new owed_Cons(1) [of E tx txs s] \<open>?h \<notin> set new\<close> router_confirm_sent [of E tx s]
    by (intro exI [of _ "(if ?h \<in> owed E [tx] s then [?h] else []) @ new"]) (auto split: if_splits)
qed

section \<open>Invariant of the composed system\<close>

definition km_inv :: "ext \<Rightarrow> keyed_mempool \<Rightarrow> bool" where
  "km_inv E m \<longleftrightarrow>
     rr_inv (km_batcher m) \<and> sink_ok E (km_sink m) \<and> \<not> bs_exited (km_sink m) \<and>
     (\<forall>b\<in>set (outgoing (km_batcher m)). batch_ok E b \<and> cb_payload b \<noteq> []) \<and>
     km_sealed_taken m \<le> length (outgoing (km_batcher m)) \<and>
     map (cb_payload \<circ> snd) (bs_to_consensus (km_sink m)) =
       map cb_payload (take (km_sealed_taken m) (outgoing (km_batcher m)))"

lemma rr_handle_fresh:
  assumes "rr_handle E ev s = Inr (Inr s')"
  shows "outgoing s' = outgoing s \<or> (\<exists>txs. outgoing s' = outgoing s @ [CachedBatch_new txs] \<and> txs \<noteq> [])"
proof -
  have seal: "outgoing t' = outgoing t \<or> (\<exists>txs. outgoing t' = outgoing t @ [CachedBatch_new txs] \<and> txs \<noteq> [])"
    if "seal_and_propose t = Inr (Inr t')" for t t'
    using that by (auto simp: seal_and_propose_def propose_def Let_def split: if_splits)
  have attempt: "outgoing t' = outgoing t \<or> (\<exists>txs. outgoing t' = outgoing t @ [CachedBatch_new txs] \<and> txs \<noteq> [])"
    if "try_propose t = Inr (Inr t')" for t t'
    using that seal [of t t'] by (auto simp: try_propose_def split: if_splits)
  show ?thesis
  proof (cases ev)
    case Tick
    with assms seal show ?thesis by (simp add: on_tick_def)
  next
    case (IncomingTx m)
    with assms show ?thesis
      by (fastforce simp: on_incoming_tx_def Let_def split: option.splits if_splits dest!: seal)
  next
    case (IncomingConsensus m)
    with assms show ?thesis
      by (fastforce simp: on_consensus_def split: option.splits batcher_msg.splits dest!: attempt)
  qed
qed

lemma km_inv_batcher:
  assumes "km_inv E m" and "rr_step E ev (km_batcher m) b"
  shows "km_inv E (m\<lparr>km_batcher := b, km_batcher_taken := n\<rparr>)"
proof -
  have "rr_inv b" using assms rr_step_ok by (auto simp: km_inv_def)
  moreover have "outgoing b = outgoing (km_batcher m) \<or>
      (\<exists>txs. outgoing b = outgoing (km_batcher m) @ [CachedBatch_new txs] \<and> txs \<noteq> [])"
    using assms(2) by (elim rr_stepE) (rule rr_handle_fresh)
  ultimately show ?thesis
    using assms(1) by (auto simp: km_inv_def)
qed

lemma process_batch_announces:
  assumes "\<not> bs_exited s"
  shows "\<not> bs_exited (process_batch E True b s)"
    and "map (cb_payload \<circ> snd) (bs_to_consensus (process_batch E True b s)) =
      map (cb_payload \<circ> snd) (bs_to_consensus s) @ [cb_payload b]"
proof -
  obtain h b' where "CachedBatch_hash E b = (h, b')" by fastforce
  moreover from this have "cb_payload b' = cb_payload b" using CachedBatch_payload(2) [of E b] by simp
  ultimately show "\<not> bs_exited (process_batch E True b s)"
    and "map (cb_payload \<circ> snd) (bs_to_consensus (process_batch E True b s)) =
      map (cb_payload \<circ> snd) (bs_to_consensus s) @ [cb_payload b]"
    using assms by (simp_all add: process_batch_def Let_def)
qed

lemma km_inv_task:
  assumes "store_ok E" and "km_inv E m" and "km_task E l m m'"
  shows "km_inv E m'"
  using assms(3)
proof cases
  case (km_tx b)
  with km_inv_batcher [OF assms(2)] show ?thesis by blast
next
  case (km_tick b)
  with km_inv_batcher [OF assms(2) km_tick(3), of "km_batcher_taken m"] show ?thesis by simp
next
  case km_seal
  let ?b = "outgoing (km_batcher m) ! km_sealed_taken m"
  have "batch_ok E ?b" using assms(2) km_seal(3) by (simp add: km_inv_def)
  then have "sink_ok E (process_batch E True ?b (km_sink m))"
    using assms by (intro sink_ok_process) (simp_all add: km_inv_def)
  with km_seal assms(2) show ?thesis
    by (simp add: km_inv_def process_batch_announces take_Suc_conv_app_nth)
qed (use assms(2) in \<open>simp_all add: km_inv_def\<close>)

lemma km_inv_consensus:
  "km_inv E m \<Longrightarrow> rr_step E (IncomingConsensus (Some c)) (km_batcher m) b \<Longrightarrow> km_inv E (m\<lparr>km_batcher := b\<rparr>)"
  using km_inv_batcher [of E m _ b "km_batcher_taken m"] by simp

lemma km_inv_router [simp]: "km_inv E (m\<lparr>km_router := r\<rparr>) = km_inv E m"
  by (simp add: km_inv_def)

lemma km_inv_step:
  assumes "store_ok E" and "km_inv E m" and "km_step E m m'"
  shows "km_inv E m'"
  using assms(3) by cases (use assms(1,2) in \<open>auto intro: km_inv_task km_inv_consensus\<close>)

text \<open>The composed mempool over a lawful store is a step system.\<close>

lemma km_inv_spawn: "km_inv E (KeyedMempool_spawn params st)"
  by (simp add: km_inv_def KeyedMempool_spawn_def rr_inv_spawn sink_ok_new)
    (simp add: RRBatcher_spawn_def batch_sink_new_def)

lemma km_system:
  "store_ok E \<Longrightarrow> step_system (\<lambda>m. \<exists>params st. m = KeyedMempool_spawn params st) (km_step E) (km_inv E)"
  by unfold_locales (auto simp: km_inv_spawn intro: km_inv_step)

lemma km_reachable_inv: "store_ok E \<Longrightarrow> (km_step E)\<^sup>*\<^sup>* (KeyedMempool_spawn params st) m \<Longrightarrow> km_inv E m"
  using step_system.inv_reachable [OF km_system] by blast

section \<open>Properties\<close>

text \<open>
  In the keyed mempool, under every interleaving of its tasks, the batches announced to
  consensus are the batches the batcher sent, in the same order and without gaps; each of them is
  non-empty, is in the cache under the announced hash, and both the cached and the durably stored
  batch have this hash.
\<close>
theorem announced_are_the_sealed:
  assumes "store_ok E" and "(km_step E)\<^sup>*\<^sup>* (KeyedMempool_spawn params st) m"
  shows "(\<exists>n. map (cb_payload \<circ> snd) (bs_to_consensus (km_sink m)) = map cb_payload (take n (outgoing (km_batcher m)))) \<and>
    (\<forall>(h, b)\<in>set (bs_to_consensus (km_sink m)).
       cb_payload b \<noteq> [] \<and> h = batch_digest E (cb_payload b) \<and>
       (\<exists>c. cache_get (bs_cache (km_sink m)) h = Some c \<and> batch_digest E (cb_payload c) = h) \<and>
       (\<exists>txs. store_read E h (bs_store (km_sink m)) = Some (ser_batch E txs) \<and> batch_digest E txs = h))"
proof -
  have inv: "km_inv E m" using assms by (rule km_reachable_inv)
  then have eq: "map (cb_payload \<circ> snd) (bs_to_consensus (km_sink m)) =
      map cb_payload (take (km_sealed_taken m) (outgoing (km_batcher m)))" by (simp add: km_inv_def)
  have "cb_payload b \<noteq> []" if "(h, b) \<in> set (bs_to_consensus (km_sink m))" for h b
  proof -
    have "cb_payload b \<in> set (map (cb_payload \<circ> snd) (bs_to_consensus (km_sink m)))"
      using that by force
    then obtain c where "c \<in> set (outgoing (km_batcher m))" "cb_payload b = cb_payload c"
      unfolding eq by (auto dest: in_set_takeD)
    with inv show ?thesis by (simp add: km_inv_def)
  qed
  with eq inv show ?thesis by (fastforce simp: km_inv_def sink_ok_def cache_ok_def)
qed

text \<open>
  Confirmations. When a batch commits, every pending transaction hash among its transactions is
  confirmed exactly once, to the address registered for it last, and is no longer pending; hashes
  that are not pending (never registered, or confirmed before) are not confirmed.
\<close>
theorem confirmations_exactly_once:
  "\<exists>hs. rt_sent (router_committed E b s) = rt_sent s @
       map (\<lambda>h. (the (fmlookup (rt_pending s) h), the (ser_client_msg E (Confirmation h)))) hs \<and>
     distinct hs \<and>
     set hs = {h \<in> hash_tx E ` set (cb_payload b).
                 fmlookup (rt_pending s) h \<noteq> None \<and> ser_client_msg E (Confirmation h) \<noteq> None} \<and>
     (\<forall>h. fmlookup (rt_pending (router_committed E b s)) h =
        (if h \<in> hash_tx E ` set (cb_payload b) then None else fmlookup (rt_pending s) h))"
  using router_commit_spec [of E "cb_payload b" s]
  by (simp add: router_committed_def owed_def confirmation_def [abs_def] fmmem_def)

text \<open>
  From submission to confirmation. The client listener registers every transaction of a
  \<open>NewBatch\<close> with the router under the client's reply address and passes it to the batcher with its
  size, in order. Once the router has taken these registrations, a committed batch that contains
  one of the transactions makes it send the confirmation of that transaction to that client.
\<close>
theorem submission_is_confirmed:
  assumes "\<not> ls_exited s" and "tx \<in> set txs" and "tx \<in> set (cb_payload b)"
    and "ser_client_msg E (Confirmation (hash_tx E tx)) = Some bs"
  shows "let s' = on_client_msg E True True (Some (NewBatch txs reply)) s;
             regs = drop (length (ls_to_router s)) (ls_to_router s');
             r' = router_committed E b (fold router_register regs r)
         in map fst (drop (length (ls_to_batcher s)) (ls_to_batcher s')) = txs \<and> (reply, bs) \<in> set (rt_sent r')"
proof -
  let ?regs = "map (\<lambda>tx. (hash_tx E tx, reply)) txs"
  let ?r = "fold router_register ?regs r"
  have reg: "fmlookup (rt_pending (fold router_register (map (\<lambda>tx. (hash_tx E tx, reply)) ts) q)) h =
      (if h \<in> hash_tx E ` set ts then Some reply else fmlookup (rt_pending q) h)" for ts q h
    by (induction ts arbitrary: q) (auto simp: router_register_def)
  obtain new where new: "rt_sent (fold (router_confirm E) (cb_payload b) ?r) = rt_sent ?r @ map (confirmation E ?r) new"
      "set new = owed E (cb_payload b) ?r"
    using router_commit_spec [of E "cb_payload b" ?r] by blast
  have "hash_tx E tx \<in> set new" "confirmation E ?r (hash_tx E tx) = (reply, bs)"
    using assms(2-4) by (auto simp: new(2) owed_def fmmem_def reg confirmation_def)
  then have "(reply, bs) \<in> set (rt_sent (router_committed E b ?r))"
    by (auto simp: router_committed_def new(1) intro: rev_image_eqI)
  then show ?thesis
    by (simp add: on_client_msg_def listen_batch [OF assms(1)] comp_def)
qed

lemma sample_size: "tx_serialized_size sample_ext (sample_tx 1 1) = Some 6"
  by (simp add: sample_ext_def enc_tx_def sample_tx_def enc_nat_def enc_bytes_def)

theorem announced_are_the_sealed_witness:
  "\<exists>m. (km_step sample_ext)\<^sup>*\<^sup>* (KeyedMempool_spawn sample_params fmempty) m \<and>
     length (bs_to_consensus (km_sink m)) = 1 \<and>
     (\<forall>(h, b)\<in>set (bs_to_consensus (km_sink m)). cb_payload b \<noteq> [])"
proof -
  let ?m0 = "KeyedMempool_spawn sample_params fmempty"
  let ?l = "on_client_msg sample_ext True True (Some (NewTx (sample_tx 1 1) ''a'')) listener_new"
  let ?m1 = "?m0\<lparr>km_listener := ?l\<rparr>"
  let ?b = "projr (projr (on_incoming_tx (Some (sample_tx 1 1, 6)) (RRBatcher_spawn sample_params)))"
  let ?m2 = "?m1\<lparr>km_batcher := ?b, km_batcher_taken := Suc (km_batcher_taken ?m1)\<rparr>"
  let ?m3 = "?m2\<lparr>km_sink := process_batch sample_ext True (outgoing (km_batcher ?m2) ! km_sealed_taken ?m2) (km_sink ?m2),
                    km_sealed_taken := Suc (km_sealed_taken ?m2)\<rparr>"
  have l: "ls_to_batcher ?l = [(sample_tx 1 1, 6)]"
    by (simp add: on_client_msg_def listen_tx_def listener_new_def Let_def sample_size [simplified])
  have "km_step sample_ext ?m0 ?m1"
    using km_own [OF km_client [of sample_ext "Some (NewTx (sample_tx 1 1) ''a'')" ?m0]] by (simp add: KeyedMempool_spawn_def)
  moreover have "km_step sample_ext ?m1 ?m2"
    using sample_rr_step(1) by (intro km_own [OF km_tx]) (simp_all add: l [simplified] KeyedMempool_spawn_def)
  moreover have "km_step sample_ext ?m2 ?m3"
    using sample_rr_step(2) by (intro km_own [OF km_seal]) (simp add: KeyedMempool_spawn_def)
  ultimately have run: "(km_step sample_ext)\<^sup>*\<^sup>* ?m0 ?m3" by (meson converse_rtranclp_into_rtranclp rtranclp.rtrancl_refl)
  moreover have "length (bs_to_consensus (km_sink ?m3)) = 1"
    using arg_cong [OF process_batch_announces(2) [of "batch_sink_new fmempty" sample_ext], of length]
    by (simp add: KeyedMempool_spawn_def batch_sink_new_def)
  ultimately show ?thesis using announced_are_the_sealed [OF sample_store_ok run] by blast
qed

theorem submission_is_confirmed_witness:
  "let s' = on_client_msg sample_ext True True (Some (NewBatch [sample_tx 1 1] ''a'')) listener_new;
       regs = drop 0 (ls_to_router s');
       r' = router_committed sample_ext (sample_batch [sample_tx 1 1]) (fold router_register regs router_new)
   in (''a'', []) \<in> set (rt_sent r')"
  using submission_is_confirmed [of listener_new "sample_tx 1 1" "[sample_tx 1 1]" "sample_batch [sample_tx 1 1]"
      sample_ext "[]" "''a''" router_new]
  by (simp add: listener_new_def Let_def sample_ext_def)

end
