(* ===== verification/Node_Programs.thy ===== *)
theory Node_Programs
  imports Config_Files Gen_Config Keyed_Mempool Apollo_Node Artemis_Node Optsync_Node
begin

text \<open>
  The node programs (\<open>examples/*/node/src/main.rs\<close>): read the configuration named on the command
  line, apply the options, work out addresses, and assemble the mempool and the protocol node. The
  result of a program is the assembled replica at the moment its reactor starts. Opening the batch
  store and setting up the TLS senders are the record \<open>node_sys\<close>. Raising the file descriptor limit
  and the log lines are output only.
\<close>

record node_sys = cfg_sys +
  open_store :: "path \<Rightarrow> (bytes, bytes) fmap option"
  consensus_sender :: "(replica, sock_addr) fmap \<Rightarrow> bool"
  client_sender :: "(client_id, sock_addr) fmap \<Rightarrow> bool"

section \<open>Options\<close>

definition read_node_config :: "'z cfg_sys_scheme \<Rightarrow> files \<Rightarrow> string \<Rightarrow> node_config res" where
  "read_node_config S fs conf_str =
     rbind (expect ''Unable to get file extension'' (extension (path_of conf_str))) (\<lambda>ext.
     if ext = ''json'' then Node_from_json S fs conf_str
     else if ext = ''dat'' then Node_from_bin S fs conf_str
     else if ext = ''toml'' then Node_from_toml S fs conf_str
     else if ext = ''yaml'' then Node_from_yaml S fs conf_str
     else Inl (Panic ''Invalid config file extension''))"

definition override_delta :: "string option \<Rightarrow> node_config \<Rightarrow> node_config res" where
  "override_delta v c =
     (case v of
        Some v \<Rightarrow> rbind (expect ''unexpected delta value provided'' (parse_uint 64 v)) (\<lambda>d. Inr (c\<lparr>nc_delta := d\<rparr>))
      | None \<Rightarrow> Inr c)"

definition sleep_time :: "string option \<Rightarrow> node_config \<Rightarrow> nat res" where
  "sleep_time v c =
     (case v of
        Some v \<Rightarrow> expect ''unexpected sleep time'' (parse_uint 64 v)
      | None \<Rightarrow> add_u64 5 (nc_num_nodes c))"

datatype log_level = Info | Debug | Trace

definition log_level_of :: "nat \<Rightarrow> log_level" where
  "log_level_of x = (if x = 0 then Info else if x = 1 then Debug else Trace)"

definition update_from_file :: "files \<Rightarrow> string option \<Rightarrow> node_config \<Rightarrow> node_config res" where
  "update_from_file fs ip c =
     (case ip of
        Some f \<Rightarrow> rbind (file_to_ips fs f) (\<lambda>ips. Node_update_config ips c)
      | None \<Rightarrow> Inr c)"

definition rocksdb_path :: "string option \<Rightarrow> string \<Rightarrow> node_config \<Rightarrow> path res" where
  "rocksdb_path store conf_str c =
     (case store of
        Some s \<Rightarrow> Inr (path_of s)
      | None \<Rightarrow>
          rbind (expect ''config file has no parent dir'' (parent (path_of conf_str))) (\<lambda>dir.
          Inr (path_join dir (''node-'' @ show_nat (nc_id c) @ ''.rocksdb''))))"

text \<open>What all four programs do before they start the runtime.\<close>

record node_setup =
  su_config :: node_config
  su_sleep_time :: nat
  su_level :: log_level
  su_store_path :: path

definition node_setup :: "'z cfg_sys_scheme \<Rightarrow> files \<Rightarrow> (string \<Rightarrow> string option) \<Rightarrow> nat \<Rightarrow> node_setup res" where
  "node_setup S fs m debug =
     rbind (expect ''unable to convert config file into a string'' (m ''config'')) (\<lambda>conf_str.
     rbind (read_node_config S fs conf_str) (\<lambda>config.
     rbind (override_delta (m ''delta'') config) (\<lambda>config.
     rbind (sleep_time (m ''sleep'') config) (\<lambda>slp.
     rbind (expect_valid ''The decoded config is not valid'' (node_validates config) config) (\<lambda>config.
     rbind (update_from_file fs (m ''ip'') config) (\<lambda>config.
     rbind (rocksdb_path (m ''store'') conf_str config) (\<lambda>p.
     Inr \<lparr>su_config = config, su_sleep_time = slp, su_level = log_level_of debug, su_store_path = p\<rparr>)))))))"

section \<open>Addresses\<close>

text \<open>The loop over an address map; the entry of the node itself is skipped, if there is one.\<close>

definition parse_addrs :: "string \<Rightarrow> nat option \<Rightarrow> (nat, string) fmap \<Rightarrow> (nat, sock_addr) fmap res" where
  "parse_addrs msg skip addrs =
     rfold (\<lambda>(id, addr) m.
         if skip = Some id then Inr m
         else rbind (expect msg (parse_socket_addr addr)) (\<lambda>a. Inr (fmupd id a m)))
       (sorted_list_of_fmap addrs) fmempty"

record node_links =
  ln_listen :: sock_addr
  ln_peers :: "(replica, sock_addr) fmap"
  ln_intake :: sock_addr

definition consensus_links :: "node_sys \<Rightarrow> node_config \<Rightarrow> (sock_addr \<times> (replica, sock_addr) fmap) res" where
  "consensus_links S config =
     rbind (my_ip config) (\<lambda>ip.
     rbind (expect ''failed to parse consensus listen addr'' (parse_socket_addr ip)) (\<lambda>listen.
     rbind (parse_addrs ''invalid peer addr'' (Some (nc_id config)) (nc_net_map config)) (\<lambda>peer_map.
     if consensus_sender S peer_map then Inr (listen, peer_map) else Inl (Panic ''consensus sender setup''))))"

definition client_intake :: "node_config \<Rightarrow> sock_addr res" where
  "client_intake config = expect ''failed to parse mempool client-facing addr'' (parse_socket_addr (client_ip config))"

section \<open>Apollo and Artemis\<close>

record 'cx keyed_replica =
  kr_setup :: node_setup
  kr_links :: node_links
  kr_mempool :: keyed_mempool
  kr_cx :: 'cx

definition pk_entries :: "node_config \<Rightarrow> (replica \<times> bytes) list" where
  "pk_entries config = sorted_list_of_fmap (nc_pk_map config)"

definition apollo_main :: "ext \<Rightarrow> node_sys \<Rightarrow> files \<Rightarrow> (string \<Rightarrow> string option) \<Rightarrow> nat \<Rightarrow> apollo_cx keyed_replica res" where
  "apollo_main E S fs m debug =
     rbind (node_setup S fs m debug) (\<lambda>su.
     let config = su_config su
     in rbind (expect ''rocksdb store init'' (open_store S (su_store_path su))) (\<lambda>batch_store.
        rbind (consensus_links S config) (\<lambda>(listen, peer_map).
        rbind (client_intake config) (\<lambda>intake.
        let initial_leader = 0; batch_timeout = 50;
            keyed = KeyedMempool_spawn (Parameters_new (nc_id config) initial_leader (nc_block_size config) batch_timeout) batch_store
        in rbind (apollo_reactor_start E config (pk_entries config) (bs_cache (km_sink keyed)) batch_store) (\<lambda>cx.
           Inr \<lparr>kr_setup = su, kr_links = \<lparr>ln_listen = listen, ln_peers = peer_map, ln_intake = intake\<rparr>,
                kr_mempool = keyed, kr_cx = cx\<rparr>)))))"

definition artemis_main :: "ext \<Rightarrow> node_sys \<Rightarrow> files \<Rightarrow> (string \<Rightarrow> string option) \<Rightarrow> nat \<Rightarrow> artemis_cx keyed_replica res" where
  "artemis_main E S fs m debug =
     rbind (node_setup S fs m debug) (\<lambda>su.
     let config = su_config su
     in rbind (expect ''rocksdb store init'' (open_store S (su_store_path su))) (\<lambda>batch_store.
        rbind (consensus_links S config) (\<lambda>(listen, peer_map).
        rbind (client_intake config) (\<lambda>intake.
        let initial_leader = 0; batch_timeout = 50;
            keyed = KeyedMempool_spawn (Parameters_new (nc_id config) initial_leader (nc_block_size config) batch_timeout) batch_store
        in rbind (artemis_reactor_start E config (pk_entries config) (bs_cache (km_sink keyed)) batch_store) (\<lambda>cx.
           Inr \<lparr>kr_setup = su, kr_links = \<lparr>ln_listen = listen, ln_peers = peer_map, ln_intake = intake\<rparr>,
                kr_mempool = keyed, kr_cx = cx\<rparr>)))))"

section \<open>Sync HotStuff and Opt Sync\<close>

record 'cx count_replica =
  cr_setup :: node_setup
  cr_links :: node_links
  cr_client_map :: "(client_id, sock_addr) fmap"
  cr_threshold :: nat
  cr_mempool :: legacy_mempool
  cr_cx :: 'cx

definition client_links :: "node_sys \<Rightarrow> node_config \<Rightarrow> (client_id, sock_addr) fmap res" where
  "client_links S config =
     rbind (parse_addrs ''invalid client addr'' None (nc_client_net_map config)) (\<lambda>client_map.
     if client_sender S client_map then Inr client_map else Inl (Panic ''client sender setup''))"

definition client_ids :: "node_config \<Rightarrow> client_id list" where
  "client_ids config = key_order (nc_client_net_map config)"

definition synchs_main :: "ext \<Rightarrow> node_sys \<Rightarrow> files \<Rightarrow> (string \<Rightarrow> string option) \<Rightarrow> nat \<Rightarrow> synchs_cx count_replica res" where
  "synchs_main E S fs m debug =
     rbind (node_setup S fs m debug) (\<lambda>su.
     let config = su_config su
     in rbind (expect ''rocksdb store init'' (open_store S (su_store_path su))) (\<lambda>batch_store.
        rbind (consensus_links S config) (\<lambda>(listen, peer_map).
        rbind (client_links S config) (\<lambda>client_map.
        rbind (client_intake config) (\<lambda>intake.
        rbind (CountSealer_new (nc_block_size config)) (\<lambda>threshold.
        let mempool = Mempool_spawn batch_store
        in rbind (synchs_reactor_start E config (pk_entries config) (client_ids config) (bs_cache (lm_sink mempool)) batch_store) (\<lambda>cx.
           Inr \<lparr>cr_setup = su, cr_links = \<lparr>ln_listen = listen, ln_peers = peer_map, ln_intake = intake\<rparr>,
                cr_client_map = client_map, cr_threshold = threshold, cr_mempool = mempool, cr_cx = cx\<rparr>)))))))"

definition optsync_main :: "ext \<Rightarrow> node_sys \<Rightarrow> files \<Rightarrow> (string \<Rightarrow> string option) \<Rightarrow> nat \<Rightarrow> optsync_cx count_replica res" where
  "optsync_main E S fs m debug =
     rbind (node_setup S fs m debug) (\<lambda>su.
     let config = su_config su
     in rbind (expect ''rocksdb store init'' (open_store S (su_store_path su))) (\<lambda>batch_store.
        rbind (consensus_links S config) (\<lambda>(listen, peer_map).
        rbind (client_links S config) (\<lambda>client_map.
        rbind (client_intake config) (\<lambda>intake.
        rbind (CountSealer_new (nc_block_size config)) (\<lambda>threshold.
        let mempool = Mempool_spawn batch_store
        in rbind (optsync_Context_new E config (pk_entries config) (client_ids config) (bs_cache (lm_sink mempool)) batch_store) (\<lambda>cx.
           Inr \<lparr>cr_setup = su, cr_links = \<lparr>ln_listen = listen, ln_peers = peer_map, ln_intake = intake\<rparr>,
                cr_client_map = client_map, cr_threshold = threshold, cr_mempool = mempool, cr_cx = cx\<rparr>)))))))"

section \<open>Address maps\<close>

lemma rfold_parse_addrs:
  assumes "\<And>id a. (id, a) \<in> set xs \<Longrightarrow> skip \<noteq> Some id \<Longrightarrow> parse_socket_addr a = Some (f id)" and "distinct (map fst xs)"
  shows "\<exists>m. rfold (\<lambda>(id, addr) m. if skip = Some id then Inr m
        else rbind (expect msg (parse_socket_addr addr)) (\<lambda>a. Inr (fmupd id a m))) xs m0 = Inr m \<and>
      (\<forall>id. fmlookup m id = (if id \<in> fst ` set xs \<and> skip \<noteq> Some id then Some (f id) else fmlookup m0 id))"
  using assms
proof (induction xs arbitrary: m0)
  case (Cons x xs)
  obtain i a where x: "x = (i, a)" by (cases x)
  show ?case
  proof (cases "skip = Some i")
    case True
    with Cons.IH [of m0] Cons.prems show ?thesis by (auto simp: x)
  next
    case False
    then have p: "parse_socket_addr a = Some (f i)" using Cons.prems(1) by (auto simp: x)
    obtain m where m: "rfold (\<lambda>(id, addr) m. if skip = Some id then Inr m
          else rbind (expect msg (parse_socket_addr addr)) (\<lambda>a. Inr (fmupd id a m))) xs (fmupd i (f i) m0) = Inr m"
        "\<forall>id. fmlookup m id = (if id \<in> fst ` set xs \<and> skip \<noteq> Some id then Some (f id) else fmlookup (fmupd i (f i) m0) id)"
      using Cons.IH [of "fmupd i (f i) m0"] Cons.prems by auto
    then show ?thesis by (intro exI [of _ m]) (auto simp: x p False)
  qed
qed simp

lemma parse_addrs_table:
  assumes "\<And>id. fmlookup addrs id = (if id < n then Some (txt id) else None)"
    and "\<And>id. id < n \<Longrightarrow> skip \<noteq> Some id \<Longrightarrow> parse_socket_addr (txt id) = Some (f id)"
  shows "\<exists>m. parse_addrs msg skip addrs = Inr m \<and>
    (\<forall>id. fmlookup m id = (if id < n \<and> skip \<noteq> Some id then Some (f id) else None))"
proof -
  let ?xs = "sorted_list_of_fmap addrs"
  have entries: "set ?xs = {(k, v). fmlookup addrs k = Some v}"
    by (force simp: sorted_list_of_fmap_def fmlookup_dom_iff)
  then have "fst ` set ?xs = {0..<n}" using assms(1) by (force simp: image_iff split: if_splits)
  moreover have "distinct (map fst ?xs)" by (simp add: sorted_list_of_fmap_def comp_def sorted_list_of_fset.rep_eq)
  moreover have "parse_socket_addr a = Some (f id)" if "(id, a) \<in> set ?xs" "skip \<noteq> Some id" for id a
    using that assms by (auto simp: entries split: if_splits)
  ultimately show ?thesis
    using rfold_parse_addrs [of ?xs skip f msg fmempty] by (auto simp: parse_addrs_def)
qed

end
