(* ===== verification/Stress_Test.thy ===== *)
theory Stress_Test
  imports Gen_Config
begin

text \<open>
  The stress test (\<open>stress-test/src/main.rs\<close>): for every protocol and cluster size it generates a
  configuration, starts the nodes and then the clients as child processes, reads the numbers the
  clients print, stops the nodes and summarises. The operating system and the child processes are the
  record \<open>bench_sys\<close>; floating-point arithmetic is the record \<open>f64_ops\<close> over a type of numbers. What a
  run changes outside itself is \<open>bench_world\<close>: the files, and the child processes that are running. An
  error that is passed on with \<open>?\<close> keeps the world it has reached. Printing is output only.
\<close>

section \<open>Protocols and configurations\<close>

datatype protocol = Apollo | Artemis | Synchs | Optsync

fun protocol_short :: "protocol \<Rightarrow> string" where
  "protocol_short Apollo = ''apollo''"
| "protocol_short Artemis = ''artemis''"
| "protocol_short Synchs = ''synchs''"
| "protocol_short Optsync = ''optsync''"

definition bootstrap_secs :: "nat \<Rightarrow> nat res" where
  "bootstrap_secs num_nodes = add_u64 5 (max num_nodes 3)"

definition wants_special_client :: "protocol \<Rightarrow> bool" where
  "wants_special_client p \<longleftrightarrow> p = Apollo \<or> p = Artemis"

record bench_config =
  bc_protocol :: protocol
  bc_num_nodes :: nat
  bc_num_faults :: nat
  bc_num_clients :: nat
  bc_block_size :: nat
  bc_payload :: nat
  bc_total_txs :: nat
  bc_window :: nat

record 'f bench_result =
  br_throughput :: 'f
  br_throughput_src :: string
  br_latency_ms :: 'f
  br_per_client :: "('f option \<times> 'f) list"

section \<open>The world of a run\<close>

text \<open>Parsing, adding, dividing, the cast of a length, comparison, the literals \<open>0.0\<close> and \<open>2.0\<close>, and what \<open>Sum\<close> starts from.\<close>

record 'f f64_ops =
  f_parse :: "string \<Rightarrow> 'f option"
  f_add :: "'f \<Rightarrow> 'f \<Rightarrow> 'f"
  f_div :: "'f \<Rightarrow> 'f \<Rightarrow> 'f"
  f_of_usize :: "nat \<Rightarrow> 'f"
  f_greater :: "'f \<Rightarrow> 'f \<Rightarrow> bool"
  f_zero :: 'f
  f_two :: 'f
  f_sum_start :: 'f

type_synonym command = "string \<times> string list"

record bench_world =
  bw_files :: files
  bw_running :: "command list"

text \<open>
  What a client prints, in the order in which its two streams become readable; \<open>None\<close> is the end of a
  stream or an error. What has not come after 600 seconds is not in the list.
\<close>

datatype stream_event = Stderr "string option" | Stdout "string option"

record bench_sys =
  be_var :: "string \<Rightarrow> string option"
  be_cwd :: "string option"
  be_exists :: "string \<Rightarrow> bool"
  be_mkdir :: "string \<Rightarrow> bool"
  be_remove_dir :: "string \<Rightarrow> bool"
  be_create :: "string \<Rightarrow> bool"
  be_output :: "command \<Rightarrow> files \<Rightarrow> string + (bool \<times> string \<times> files)"
  be_spawn :: "command \<Rightarrow> bool"
  be_printed :: "command \<Rightarrow> stream_event list"
  be_node_log :: "string \<Rightarrow> string option"

type_synonym 'a act = "bench_world \<Rightarrow> ((string + 'a) \<times> bench_world) res"

definition abind :: "'a act \<Rightarrow> ('a \<Rightarrow> 'b act) \<Rightarrow> 'b act" where
  "abind m f = (\<lambda>w. rbind (m w) (\<lambda>(r, w). case r of Inl e \<Rightarrow> Inr (Inl e, w) | Inr x \<Rightarrow> f x w))"

definition aret :: "'a \<Rightarrow> 'a act" where
  "aret x = (\<lambda>w. Inr (Inr x, w))"

definition afail :: "string \<Rightarrow> 'a act" where
  "afail e = (\<lambda>w. Inr (Inl e, w))"

definition alift :: "'a res \<Rightarrow> 'a act" where
  "alift r = (\<lambda>w. rbind r (\<lambda>x. Inr (Inr x, w)))"

definition aensure :: "string \<Rightarrow> bool \<Rightarrow> unit act" where
  "aensure e b = (if b then aret () else afail e)"

definition write_file :: "bench_sys \<Rightarrow> string \<Rightarrow> string \<Rightarrow> unit act" where
  "write_file B path text =
     abind (aensure ''io error'' (be_create B path)) (\<lambda>_ w.
     Inr (Inr (), w\<lparr>bw_files := fmupd path (text_bytes text) (bw_files w)\<rparr>))"

definition spawn_child :: "bench_sys \<Rightarrow> command \<Rightarrow> unit act" where
  "spawn_child B c =
     abind (aensure ''io error'' (be_spawn B c)) (\<lambda>_ w. Inr (Inr (), w\<lparr>bw_running := bw_running w @ [c]\<rparr>))"

definition kill_child :: "command \<Rightarrow> bench_world \<Rightarrow> bench_world" where
  "kill_child c w = w\<lparr>bw_running := remove1 c (bw_running w)\<rparr>"

section \<open>The harness\<close>

record harness =
  h_repo_root :: string
  h_runs_dir :: string
  h_run_idx :: nat

definition Harness_new :: "bench_sys \<Rightarrow> string \<Rightarrow> string + harness" where
  "Harness_new B repo_root =
     (let runs_dir = join_text repo_root ''stress-test/runs''
      in if be_mkdir B runs_dir then Inr \<lparr>h_repo_root = repo_root, h_runs_dir = runs_dir, h_run_idx = 0\<rparr>
         else Inl ''io error'')"

definition mul_u16 :: "nat \<Rightarrow> nat \<Rightarrow> nat res" where
  "mul_u16 a b = (if a * b < 2 ^ 16 then Inr (a * b) else Inl Overflow)"

definition alloc_ports :: "harness \<Rightarrow> ((nat \<times> nat \<times> nat \<times> nat) \<times> harness) res" where
  "alloc_ports h =
     rbind (mul_u16 (h_run_idx h) 300) (\<lambda>off.
     rbind (add_u16 21000 off) (\<lambda>base.
     rbind (add_u16 base 100) (\<lambda>cli_base.
     rbind (add_u16 base 200) (\<lambda>mempool_base.
     rbind (add_u16 base 275) (\<lambda>client_listen.
     rbind (add_u16 (h_run_idx h) 1) (\<lambda>idx.
     Inr ((base, cli_base, mempool_base, client_listen), h\<lparr>h_run_idx := idx\<rparr>)))))))"

definition run_dir :: "harness \<Rightarrow> bench_config \<Rightarrow> nat \<Rightarrow> string" where
  "run_dir h cfg base_port =
     join_text (h_runs_dir h)
       (protocol_short (bc_protocol cfg) @ ''-n'' @ show_nat (bc_num_nodes cfg) @ ''-c'' @ show_nat (bc_num_clients cfg) @
        ''-b'' @ show_nat (bc_block_size cfg) @ ''-p'' @ show_nat (bc_payload cfg) @ ''-'' @ show_nat base_port)"

text \<open>\<open>fs::remove_dir_all\<close> of a directory that exists, its failure ignored; then \<open>fs::create_dir_all\<close>.\<close>

definition fresh_dir :: "bench_sys \<Rightarrow> string \<Rightarrow> unit act" where
  "fresh_dir B dir = (\<lambda>w.
     let w = (if be_exists B dir \<and> be_remove_dir B dir
              then w\<lparr>bw_files := fmfilter (\<lambda>p. \<not> starts_with (dir @ ''/'') p) (bw_files w)\<rparr> else w)
     in aensure ''io error'' (be_mkdir B dir) w)"

section \<open>Commands\<close>

definition genconfig_args :: "string \<Rightarrow> bench_config \<Rightarrow> nat \<Rightarrow> nat \<Rightarrow> nat \<Rightarrow> nat \<Rightarrow> string list" where
  "genconfig_args dir cfg base_port cli_base_port mempool_base_port client_listen_port =
     [''-n'', show_nat (bc_num_nodes cfg), ''-f'', show_nat (bc_num_faults cfg), ''-d'', ''50'',
      ''--blocksize'', show_nat (bc_block_size cfg), ''--base_port'', show_nat base_port,
      ''--client_base_port'', show_nat cli_base_port, ''--mempool_base_port'', show_nat mempool_base_port,
      ''--client_listen_port'', show_nat client_listen_port, ''--num_clients'', show_nat (bc_num_clients cfg),
      ''--payload'', show_nat (bc_payload cfg), ''--target'', dir]"

definition genconfig :: "bench_sys \<Rightarrow> string \<Rightarrow> string \<Rightarrow> bench_config \<Rightarrow> nat \<Rightarrow> nat \<Rightarrow> nat \<Rightarrow> nat \<Rightarrow> unit act" where
  "genconfig B repo_root dir cfg base_port cli_base_port mempool_base_port client_listen_port = (\<lambda>w.
     let c = (join_text repo_root ''target/release/genconfig'',
              genconfig_args dir cfg base_port cli_base_port mempool_base_port client_listen_port)
     in case be_output B c (bw_files w) of
          Inl e \<Rightarrow> Inr (Inl e, w)
        | Inr (success, stderr, fs) \<Rightarrow>
            if \<not> success then Inr (Inl (''genconfig exited non-zero: '' @ stderr), w\<lparr>bw_files := fs\<rparr>)
            else Inr (Inr (), w\<lparr>bw_files := fs\<rparr>))"

definition write_ip_files :: "bench_sys \<Rightarrow> string \<Rightarrow> nat \<Rightarrow> nat \<Rightarrow> nat \<Rightarrow> unit act" where
  "write_ip_files B dir n base_port cli_base_port =
     abind (alift (rfold (\<lambda>i (ip, cli_ip).
              rbind (add_u64 base_port i) (\<lambda>p.
              rbind (add_u64 cli_base_port i) (\<lambda>q.
              Inr (ip @ loopback_addr p @ [newline], cli_ip @ loopback_addr q @ [newline])))) [0..<n] ([], []))) (\<lambda>(ip, cli_ip).
     abind (write_file B (join_text dir ''ip_file'') ip) (\<lambda>_.
     write_file B (join_text dir ''cli_ip_file'') cli_ip))"

definition node_command :: "string \<Rightarrow> string \<Rightarrow> bench_config \<Rightarrow> nat \<Rightarrow> nat \<Rightarrow> command" where
  "node_command repo_root dir cfg i secs =
     (join_text repo_root (''target/release/node-'' @ protocol_short (bc_protocol cfg)),
      [''-c'', join_text dir (''nodes-'' @ show_nat i @ ''.json''), ''-i'', join_text dir ''ip_file'',
       ''--sleep'', show_nat secs, ''--delta'', ''50''] @
      (if wants_special_client (bc_protocol cfg) then [''-s''] else []))"

definition spawn_node :: "bench_sys \<Rightarrow> string \<Rightarrow> string \<Rightarrow> bench_config \<Rightarrow> nat \<Rightarrow> nat \<Rightarrow> unit act" where
  "spawn_node B repo_root dir cfg i secs =
     abind (write_file B (join_text dir (''node-'' @ show_nat i @ ''.log'')) []) (\<lambda>_.
     spawn_child B (node_command repo_root dir cfg i secs))"

definition client_command :: "string \<Rightarrow> string \<Rightarrow> bench_config \<Rightarrow> nat \<Rightarrow> command" where
  "client_command repo_root dir cfg j =
     (join_text repo_root (''target/release/client-'' @ protocol_short (bc_protocol cfg)),
      [''-c'', join_text dir (''client-'' @ show_nat j @ ''.json''), ''-i'', join_text dir ''cli_ip_file'',
       ''-m'', show_nat (bc_total_txs cfg), ''-w'', show_nat (bc_window cfg)])"

section \<open>What a client prints\<close>

definition extract_after :: "'f f64_ops \<Rightarrow> string \<Rightarrow> string \<Rightarrow> 'f option" where
  "extract_after F line prefix = Option.bind (after_first prefix line) (\<lambda>rest. f_parse F (trim rest))"

record 'f parse_state =
  ps_throughput :: "'f option"
  ps_latency :: "'f option"
  ps_stderr_eof :: bool
  ps_stdout_eof :: bool
  ps_log :: string

definition or_keep :: "'a option \<Rightarrow> 'a option \<Rightarrow> 'a option" where
  "or_keep new old = (case new of Some v \<Rightarrow> Some v | None \<Rightarrow> old)"

definition parse_line :: "'f f64_ops \<Rightarrow> string \<Rightarrow> string \<Rightarrow> 'f parse_state \<Rightarrow> 'f parse_state" where
  "parse_line F tag l st =
     st\<lparr>ps_log := ps_log st @ tag @ l @ [newline],
        ps_throughput := or_keep (extract_after F l ''DP[Throughput]: '') (ps_throughput st),
        ps_latency := or_keep (extract_after F l ''DP[Latency]: '') (ps_latency st)\<rparr>"

text \<open>A stream that has ended is not polled any more.\<close>

fun parse_event :: "'f f64_ops \<Rightarrow> stream_event \<Rightarrow> 'f parse_state \<Rightarrow> 'f parse_state" where
  "parse_event F (Stderr x) st =
     (if ps_stderr_eof st then st
      else case x of Some l \<Rightarrow> parse_line F ''[stderr] '' l st | None \<Rightarrow> st\<lparr>ps_stderr_eof := True\<rparr>)"
| "parse_event F (Stdout x) st =
     (if ps_stdout_eof st then st
      else case x of Some l \<Rightarrow> parse_line F ''[stdout] '' l st | None \<Rightarrow> st\<lparr>ps_stdout_eof := True\<rparr>)"

text \<open>The loop: it ends when both streams have; the flag is false when the time is up before that.\<close>

fun parse_streams :: "'f f64_ops \<Rightarrow> stream_event list \<Rightarrow> 'f parse_state \<Rightarrow> bool \<times> 'f parse_state" where
  "parse_streams F [] st = (ps_stderr_eof st \<and> ps_stdout_eof st, st)"
| "parse_streams F (e # es) st =
     (if ps_stderr_eof st \<and> ps_stdout_eof st then (True, st) else parse_streams F es (parse_event F e st))"

definition parse_start :: "'f parse_state" where
  "parse_start = \<lparr>ps_throughput = None, ps_latency = None, ps_stderr_eof = False, ps_stdout_eof = False, ps_log = []\<rparr>"

definition spawn_one_client_and_parse ::
    "bench_sys \<Rightarrow> 'f f64_ops \<Rightarrow> string \<Rightarrow> string \<Rightarrow> bench_config \<Rightarrow> nat \<Rightarrow> ('f option \<times> 'f) act" where
  "spawn_one_client_and_parse B F repo_root dir cfg j =
     (let c = client_command repo_root dir cfg j; log_path = join_text dir (''client-'' @ show_nat j @ ''.log'')
      in abind (spawn_child B c) (\<lambda>_.
         abind (write_file B log_path []) (\<lambda>_ w.
         case parse_streams F (be_printed B c) parse_start of
           (ended, st) \<Rightarrow>
             let w = kill_child c (w\<lparr>bw_files := fmupd log_path (text_bytes (ps_log st)) (bw_files w)\<rparr>)
             in if \<not> ended then Inr (Inl ''client timed out before reporting DP stats'', w)
                else case ps_latency st of
                       Some l \<Rightarrow> Inr (Inr (ps_throughput st, l), w)
                     | None \<Rightarrow> Inr (Inl (''client '' @ show_nat j @ '' produced no DP[Latency] line (check '' @ log_path @ '')''), w))))"

text \<open>
  The clients run in parallel, each with its own process and files; their results are collected in
  order, and the error of the first that failed is the error of all. The first alternative of a result
  is a task that panicked.
\<close>

fun collect_clients :: "nat \<Rightarrow> (string + string + 'r) list \<Rightarrow> 'r list \<Rightarrow> string option \<Rightarrow> 'r list \<times> string option" where
  "collect_clients j [] out first_err = (out, first_err)"
| "collect_clients j (Inr (Inr pair) # ts) out first_err = collect_clients (Suc j) ts (out @ [pair]) first_err"
| "collect_clients j (Inr (Inl e) # ts) out first_err =
     collect_clients (Suc j) ts out (or_keep first_err (Some (''client '' @ show_nat j @ '': '' @ e)))"
| "collect_clients j (Inl e # ts) out first_err =
     collect_clients (Suc j) ts out (or_keep first_err (Some (''client '' @ show_nat j @ '' task: '' @ e)))"

definition spawn_clients_and_aggregate ::
    "bench_sys \<Rightarrow> 'f f64_ops \<Rightarrow> string \<Rightarrow> string \<Rightarrow> bench_config \<Rightarrow> ('f option \<times> 'f) list act" where
  "spawn_clients_and_aggregate B F repo_root dir cfg = (\<lambda>w.
     rbind (rfold (\<lambda>j (ts, w).
              rbind (spawn_one_client_and_parse B F repo_root dir cfg j w) (\<lambda>(r, w). Inr (ts @ [Inr r], w)))
            [0..<bc_num_clients cfg] ([], w)) (\<lambda>(ts, w).
     case collect_clients 0 ts [] None of
       (out, Some e) \<Rightarrow> Inr (Inl e, w)
     | (out, None) \<Rightarrow> Inr (Inr out, w)))"

section \<open>Summaries\<close>

text \<open>
  A stable sort by \<open>partial_cmp\<close>, where numbers that do not compare are equal. When some number of the
  list is a NaN the comparison is not an order and Rust leaves the result open; this is one of them.
\<close>

fun insert_by :: "('f \<Rightarrow> 'f \<Rightarrow> bool) \<Rightarrow> 'f \<Rightarrow> 'f list \<Rightarrow> 'f list" where
  "insert_by gt x [] = [x]"
| "insert_by gt x (y # ys) = (if gt x y then y # insert_by gt x ys else x # y # ys)"

definition sort_by :: "('f \<Rightarrow> 'f \<Rightarrow> bool) \<Rightarrow> 'f list \<Rightarrow> 'f list" where
  "sort_by gt xs = foldr (insert_by gt) xs []"

definition parse_server_throughput_median :: "'f f64_ops \<Rightarrow> string option \<Rightarrow> 'f option" where
  "parse_server_throughput_median F node0_log =
     (case node0_log of
        None \<Rightarrow> None
      | Some text \<Rightarrow>
          let vals = List.map_filter (\<lambda>l. extract_after F l ''DP[Throughput]: '') (text_lines text)
          in if vals = [] then None
             else
               let vals = sort_by (f_greater F) vals; mid = length vals div 2
               in Some (if length vals mod 2 = 0 then f_div F (f_add F (vals ! (mid - 1)) (vals ! mid)) (f_two F)
                        else vals ! mid))"

definition f_sum :: "'f f64_ops \<Rightarrow> 'f list \<Rightarrow> 'f" where
  "f_sum F xs = foldl (f_add F) (f_sum_start F) xs"

definition summarise :: "'f f64_ops \<Rightarrow> string option \<Rightarrow> ('f option \<times> 'f) list \<Rightarrow> 'f bench_result" where
  "summarise F node0_log per_client =
     (let (throughput, src) =
        (case parse_server_throughput_median F node0_log of
           Some m \<Rightarrow> (m, ''server-median'')
         | None \<Rightarrow> (f_sum F (List.map_filter fst per_client), ''client-sum''));
        latency_ms = (if per_client = [] then f_zero F
                      else f_div F (f_sum F (map snd per_client)) (f_of_usize F (length per_client)))
      in \<lparr>br_throughput = throughput, br_throughput_src = src, br_latency_ms = latency_ms, br_per_client = per_client\<rparr>)"

section \<open>A run\<close>

text \<open>Until all nodes are started: ports, directory, configurations, address files, nodes.\<close>

definition spawn_nodes :: "bench_sys \<Rightarrow> string \<Rightarrow> string \<Rightarrow> bench_config \<Rightarrow> nat \<Rightarrow> nat list \<Rightarrow> unit act" where
  "spawn_nodes B repo_root dir cfg secs is =
     foldr (\<lambda>i rest. abind (spawn_node B repo_root dir cfg i secs) (\<lambda>_. rest)) is (aret ())"

definition start_cluster :: "bench_sys \<Rightarrow> harness \<Rightarrow> bench_config \<Rightarrow> nat \<times> nat \<times> nat \<times> nat \<Rightarrow> (string \<times> nat) act" where
  "start_cluster B h cfg = (\<lambda>(base_port, cli_base_port, mempool_base_port, client_listen_port).
     let dir = run_dir h cfg base_port
     in abind (fresh_dir B dir) (\<lambda>_.
        abind (genconfig B (h_repo_root h) dir cfg base_port cli_base_port mempool_base_port client_listen_port) (\<lambda>_.
        abind (write_ip_files B dir (bc_num_nodes cfg) base_port cli_base_port) (\<lambda>_.
        abind (alift (bootstrap_secs (bc_num_nodes cfg))) (\<lambda>secs.
        abind (spawn_nodes B (h_repo_root h) dir cfg secs [0..<bc_num_nodes cfg]) (\<lambda>_. aret (dir, secs)))))))"

definition Harness_run ::
    "bench_sys \<Rightarrow> 'f f64_ops \<Rightarrow> bench_config \<Rightarrow> harness \<Rightarrow> bench_world \<Rightarrow> ((string + 'f bench_result) \<times> harness \<times> bench_world) res" where
  "Harness_run B F cfg h w =
     rbind (alloc_ports h) (\<lambda>(ports, h').
     rbind (start_cluster B h cfg ports w) (\<lambda>(r, w).
     case r of
       Inl e \<Rightarrow> Inr (Inl e, h', w)
     | Inr (dir, secs) \<Rightarrow>
         rbind (spawn_clients_and_aggregate B F (h_repo_root h) dir cfg w) (\<lambda>(client_out, w).
         let w = foldl (\<lambda>w i. kill_child (node_command (h_repo_root h) dir cfg i secs) w) w [0..<bc_num_nodes cfg]
         in case client_out of
              Inl e \<Rightarrow> Inr (Inl e, h', w)
            | Inr per_client \<Rightarrow>
                Inr (Inr (summarise F (be_node_log B (join_text dir ''node-0.log'')) per_client), h', w))))"

section \<open>The program\<close>

definition build_matrix :: "bench_sys \<Rightarrow> bench_config list" where
  "build_matrix B =
     (let only = be_var B ''PROTO'';
          selected = (if only = Some ''apollo'' then [Apollo] else if only = Some ''artemis'' then [Artemis]
                      else if only = Some ''synchs'' then [Synchs] else if only = Some ''optsync'' then [Optsync]
                      else [Apollo, Artemis, Synchs, Optsync]);
          num_clients = max (or_default 1 (Option.bind (be_var B ''NUM_CLIENTS'') (parse_uint 16))) 1
      in concat (map (\<lambda>p. map (\<lambda>(n, f).
           \<lparr>bc_protocol = p, bc_num_nodes = n, bc_num_faults = f, bc_num_clients = num_clients, bc_block_size = 400,
            bc_payload = 0, bc_total_txs = 50000, bc_window = 10000\<rparr>) [(3, 1), (7, 3)]) selected))"

definition binaries :: "string list" where
  "binaries = [''genconfig'', ''node-apollo'', ''client-apollo'', ''node-artemis'', ''client-artemis'',
     ''node-synchs'', ''client-synchs'', ''node-optsync'', ''client-optsync'']"

fun missing_binary :: "bench_sys \<Rightarrow> string \<Rightarrow> string list \<Rightarrow> string option" where
  "missing_binary B repo_root [] = None"
| "missing_binary B repo_root (bin # bins) =
     (if \<not> be_exists B (join_text repo_root (''target/release/'' @ bin))
      then Some (''missing target/release/'' @ bin @ ''. Run `cargo build --release` first.'')
      else missing_binary B repo_root bins)"

fun run_matrix :: "bench_sys \<Rightarrow> 'f f64_ops \<Rightarrow> bench_config list \<Rightarrow> harness \<times> bench_world \<Rightarrow>
    ((bench_config \<times> 'f bench_result option) list \<times> harness \<times> bench_world) res" where
  "run_matrix B F [] (h, w) = Inr ([], h, w)"
| "run_matrix B F (cfg # cfgs) (h, w) =
     rbind (Harness_run B F cfg h w) (\<lambda>(r, h, w).
     rbind (run_matrix B F cfgs (h, w)) (\<lambda>(results, hw).
     Inr ((cfg, case r of Inr x \<Rightarrow> Some x | Inl _ \<Rightarrow> None) # results, hw)))"

definition stress_main :: "bench_sys \<Rightarrow> 'f f64_ops \<Rightarrow> (bench_config \<times> 'f bench_result option) list act" where
  "stress_main B F = (\<lambda>w.
     case be_cwd B of
       None \<Rightarrow> Inr (Inl ''io error'', w)
     | Some repo_root \<Rightarrow>
         case missing_binary B repo_root binaries of
           Some e \<Rightarrow> Inr (Inl e, w)
         | None \<Rightarrow>
             case Harness_new B repo_root of
               Inl e \<Rightarrow> Inr (Inl e, w)
             | Inr h \<Rightarrow> rbind (run_matrix B F (build_matrix B) (h, w)) (\<lambda>(results, h, w). Inr (Inr results, w)))"

end
