(* ===== verification/Client_Programs.thy ===== *)
theory Client_Programs
  imports Clients Node_Programs Stress_Test
begin

text \<open>
  The client programs (\<open>examples/*/client/src/main.rs\<close>, \<open>examples/apollo/normal-client/src/main.rs\<close>) up to
  the start of the loops of \<open>Clients\<close>: configuration, options, addresses. Also the statistics at the end
  of a run (\<open>consensus/src/lib.rs\<close>), over the arithmetic of \<open>f64_ops\<close>. A clock reading is in milliseconds.
\<close>

section \<open>Configuration\<close>

definition read_client_config :: "'z cfg_sys_scheme \<Rightarrow> files \<Rightarrow> string \<Rightarrow> client_config res" where
  "read_client_config S fs conf_str =
     rbind (expect ''Unable to get file extension'' (extension (path_of conf_str))) (\<lambda>ext.
     if ext = ''json'' then Client_from_json S fs conf_str
     else if ext = ''dat'' then Client_from_bin S fs conf_str
     else if ext = ''toml'' then Client_from_toml S fs conf_str
     else if ext = ''yaml'' then Client_from_yaml S fs conf_str
     else Inl (Panic ''Invalid config file extension''))"

definition client_setup :: "'z cfg_sys_scheme \<Rightarrow> files \<Rightarrow> (string \<Rightarrow> string option) \<Rightarrow> client_config res" where
  "client_setup S fs m =
     rbind (expect ''unable to convert config file into a string'' (m ''config'')) (\<lambda>conf_str.
     rbind (read_client_config S fs conf_str) (\<lambda>config.
     rbind (expect_valid ''The decoded config is not valid'' (client_validates config) config) (\<lambda>config.
     case m ''ip'' of
       Some f \<Rightarrow> rbind (file_to_ips fs f) (\<lambda>ips. Client_update_config ips config)
     | None \<Rightarrow> Inr config)))"

definition uint_or :: "nat \<Rightarrow> string \<Rightarrow> string option \<Rightarrow> nat res" where
  "uint_or w d v = unwrap (parse_uint w (or_default d v))"

section \<open>Apollo and Artemis\<close>

record keyed_client_run =
  kr_config :: client_config
  kr_metric :: nat
  kr_txs_per_burst :: nat
  kr_burst_interval_ms :: nat
  kr_servers :: "(replica, sock_addr) fmap"
  kr_reply_to :: sock_addr
  kr_client :: keyed_client

text \<open>\<open>apollo::client::start\<close> up to its loop. \<open>tokio::time::interval\<close> panics on a period of zero.\<close>

definition keyed_client_launch :: "client_config \<Rightarrow> nat \<Rightarrow> nat \<Rightarrow> nat \<Rightarrow> keyed_client_run res" where
  "keyed_client_launch c metric txs_per_burst burst_interval_ms =
     rbind (parse_addrs ''invalid server addr'' None (cc_net_map c)) (\<lambda>peer_map.
     rbind (expect ''invalid client listen addr'' (parse_socket_addr (cc_my_listen_addr c))) (\<lambda>reply_to.
     if burst_interval_ms = 0 then Inl (Panic ''`period` must be non-zero.'')
     else Inr \<lparr>kr_config = c, kr_metric = metric, kr_txs_per_burst = max txs_per_burst 1, kr_burst_interval_ms = burst_interval_ms,
               kr_servers = peer_map, kr_reply_to = reply_to, kr_client = keyed_client_start\<rparr>))"

definition txs_per_burst_of :: "(string \<Rightarrow> string option) \<Rightarrow> nat \<Rightarrow> nat \<Rightarrow> nat res" where
  "txs_per_burst_of m rate burst_interval_ms =
     (if rate > 0
      then rbind (mul_u64 rate burst_interval_ms) (\<lambda>x. Inr (max (x div 1000) 1))
      else uint_or 64 ''1000'' (case m ''txs_per_burst'' of Some v \<Rightarrow> Some v | None \<Rightarrow> m ''window''))"

definition keyed_client_main :: "'z cfg_sys_scheme \<Rightarrow> files \<Rightarrow> (string \<Rightarrow> string option) \<Rightarrow> keyed_client_run res" where
  "keyed_client_main S fs m =
     rbind (client_setup S fs m) (\<lambda>config.
     rbind (uint_or 64 ''500000'' (m ''metrics'')) (\<lambda>metrics.
     rbind (uint_or 64 ''100'' (m ''burst_interval_ms'')) (\<lambda>burst_interval_ms.
     rbind (uint_or 64 ''0'' (m ''rate'')) (\<lambda>rate.
     rbind (txs_per_burst_of m rate burst_interval_ms) (\<lambda>txs_per_burst.
     keyed_client_launch config metrics txs_per_burst burst_interval_ms)))))"

text \<open>The programs of the two protocols are the same up to the crate they call.\<close>

definition apollo_client_main :: "'z cfg_sys_scheme \<Rightarrow> files \<Rightarrow> (string \<Rightarrow> string option) \<Rightarrow> keyed_client_run res" where
  "apollo_client_main = keyed_client_main"

definition artemis_client_main :: "'z cfg_sys_scheme \<Rightarrow> files \<Rightarrow> (string \<Rightarrow> string option) \<Rightarrow> keyed_client_run res" where
  "artemis_client_main = keyed_client_main"

definition normal_client_start :: "client_config \<Rightarrow> nat \<Rightarrow> nat \<Rightarrow> keyed_client_run res" where
  "normal_client_start c metric window = (let txs_per_burst = max window 1 in keyed_client_launch c metric txs_per_burst 100)"

definition normal_client_main :: "'z cfg_sys_scheme \<Rightarrow> files \<Rightarrow> (string \<Rightarrow> string option) \<Rightarrow> keyed_client_run res" where
  "normal_client_main S fs m =
     rbind (client_setup S fs m) (\<lambda>config.
     rbind (uint_or 64 ''500000'' (m ''metrics'')) (\<lambda>metrics.
     rbind (uint_or 64 ''1000'' (m ''window'')) (\<lambda>window.
     normal_client_start config metrics window)))"

section \<open>Sync HotStuff and Opt Sync\<close>

record sync_client_run =
  sr_config :: client_config
  sr_metric :: nat
  sr_servers :: "(replica, sock_addr) fmap"
  sr_listen :: sock_addr
  sr_client :: sync_client

definition sync_client_launch :: "client_config \<Rightarrow> nat \<Rightarrow> nat \<Rightarrow> sync_client_run res" where
  "sync_client_launch c metric window =
     rbind (parse_addrs ''invalid server addr'' None (cc_net_map c)) (\<lambda>peer_map.
     rbind (expect ''invalid client listen addr'' (parse_socket_addr (cc_my_listen_addr c))) (\<lambda>listen.
     Inr \<lparr>sr_config = c, sr_metric = metric, sr_servers = peer_map, sr_listen = listen, sr_client = sync_client_start window\<rparr>))"

text \<open>The transaction producer: the \<open>i\<close>-th transaction it puts into the channel.\<close>

definition produced_tx :: "client_config \<Rightarrow> nat \<Rightarrow> transaction" where
  "produced_tx c i = new_dummy_tx i (cc_payload c)"

definition sync_client_main :: "'z cfg_sys_scheme \<Rightarrow> files \<Rightarrow> (string \<Rightarrow> string option) \<Rightarrow> sync_client_run res" where
  "sync_client_main S fs m =
     rbind (client_setup S fs m) (\<lambda>config.
     rbind (uint_or 64 ''500000'' (m ''metrics'')) (\<lambda>metrics.
     rbind (uint_or 64 ''1000'' (m ''window'')) (\<lambda>window.
     sync_client_launch config metrics window)))"

definition synchs_client_main :: "'z cfg_sys_scheme \<Rightarrow> files \<Rightarrow> (string \<Rightarrow> string option) \<Rightarrow> sync_client_run res" where
  "synchs_client_main = sync_client_main"

definition optsync_client_main :: "'z cfg_sys_scheme \<Rightarrow> files \<Rightarrow> (string \<Rightarrow> string option) \<Rightarrow> sync_client_run res" where
  "optsync_client_main = sync_client_main"

section \<open>The loops of the other two protocols\<close>

text \<open>
  The loop of the Artemis client has the statements of Apollo's, that of the Opt Sync client those of
  Sync HotStuff's; only the crates they import differ.
\<close>

definition artemis_client_step ::
  "ext \<Rightarrow> client_config \<Rightarrow> nat \<Rightarrow> nat \<Rightarrow> keyed_client_event \<Rightarrow> keyed_client \<Rightarrow> (keyed_client \<times> bool) res" where
  "artemis_client_step = kc_step"

definition optsync_client_step ::
  "ext \<Rightarrow> client_config \<Rightarrow> nat \<Rightarrow> sync_client_event \<Rightarrow> sync_client \<Rightarrow> sync_client reactor_outcome res" where
  "optsync_client_step = sc_step"

section \<open>Statistics\<close>

definition duration_since :: "nat \<Rightarrow> nat \<Rightarrow> nat res" where
  "duration_since now earlier = (if earlier \<le> now then Inr (now - earlier) else Inl (Panic ''time differencing errors''))"

text \<open>\<open>secs\<close> is \<open>as_secs_f64\<close>. The numbers printed: throughput.\<close>

definition emit_run_throughput :: "'f f64_ops \<Rightarrow> (nat \<Rightarrow> 'f) \<Rightarrow> nat \<Rightarrow> nat \<Rightarrow> nat \<Rightarrow> 'f res" where
  "emit_run_throughput F secs now start confirmed =
     rbind (duration_since now start) (\<lambda>d.
     let elapsed = secs d
     in Inr (if f_greater F elapsed (f_zero F) then f_div F (f_of_usize F confirmed) elapsed else f_zero F))"

definition latency_step :: "hash \<times> nat \<times> nat \<Rightarrow> nat \<times> nat \<Rightarrow> (nat \<times> nat) res" where
  "latency_step = (\<lambda>(_, t0, t1) (idx, total_time).
     rbind (duration_since t1 t0) (\<lambda>time.
     rbind (add_u64 idx 1) (\<lambda>idx.
     rbind (add_u128 total_time time) (\<lambda>total_time. Inr (idx, total_time)))))"

text \<open>\<open>entries\<close> lists the latency map in the order of the hash map; the result is throughput and mean latency.\<close>

definition statistics :: "'f f64_ops \<Rightarrow> (nat \<Rightarrow> 'f) \<Rightarrow> nat \<Rightarrow> nat \<Rightarrow> (hash \<times> nat \<times> nat) list \<Rightarrow> ('f \<times> 'f) res" where
  "statistics F secs now start entries =
     rbind (rfold latency_step entries (0, 0)) (\<lambda>(idx, total_time).
     rbind (duration_since now start) (\<lambda>d.
     Inr (f_div F (f_of_usize F idx) (secs d), f_div F (f_of_usize F total_time) (f_of_usize F idx))))"

definition statistics_latency :: "'f f64_ops \<Rightarrow> (hash \<times> nat \<times> nat) list \<Rightarrow> 'f res" where
  "statistics_latency F entries =
     rbind (rfold latency_step entries (0, 0)) (\<lambda>(idx, total_time).
     Inr (if idx > 0 then f_div F (f_of_usize F total_time) (f_of_usize F idx) else f_zero F))"

end
