(* ===== verification/Gen_Config_Laws.thy ===== *)
theory Gen_Config_Laws
  imports Gen_Config
begin

text \<open>
  What \<open>genconfig\<close> guarantees when OpenSSL, the key generators and the file system do not fail: the
  exact condition under which it finishes, and what the files it leaves behind contain.
\<close>

section \<open>Sequencing\<close>

lemma qbind_simps [simp]:
  "qbind (Inr (Inr y)) f = f y" "qbind (Inr (Inl e)) f = Inr (Inl e)" "qbind (Inl flt) f = Inl flt"
  by (simp_all add: qbind_def)

lemma qbind_Ok_iff: "qbind r f = Inr (Inr y) \<longleftrightarrow> (\<exists>x. r = Inr (Inr x) \<and> f x = Inr (Inr y))"
  by (cases r; cases "projr r") (auto simp: qbind_def)

lemma attempt_opt_simps [simp]:
  "attempt_opt e (Some v) = Inr (Inr v)" "attempt_opt e None = Inr (Inl e)"
  by (simp_all add: attempt_opt_def)

lemma qfold_append: "qfold f (xs @ ys) s = qbind (qfold f xs s) (qfold f ys)"
  by (induction xs arbitrary: s) (auto simp: qbind_def rbind_def split: sum.splits)

text \<open>A counting loop: its body keeps an invariant that mentions the counter.\<close>

lemma qfold_upt_inv:
  assumes "qfold f [0..<n] s = Inr (Inr s')" and "P 0 s"
    and "\<And>i t t'. i < n \<Longrightarrow> P i t \<Longrightarrow> f i t = Inr (Inr t') \<Longrightarrow> P (Suc i) t'"
  shows "P n s'"
  using assms
proof (induction n arbitrary: s')
  case (Suc n)
  then obtain t where "qfold f [0..<n] s = Inr (Inr t)" "f n t = Inr (Inr s')"
    by (auto simp: qfold_append qbind_Ok_iff)
  with Suc show ?case by (meson less_Suc_eq)
qed simp

lemma qfold_upt_total:
  assumes "P 0 s" and "\<And>i t. i < n \<Longrightarrow> P i t \<Longrightarrow> \<exists>t'. f i t = Inr (Inr t') \<and> P (Suc i) t'"
  shows "\<exists>s'. qfold f [0..<n] s = Inr (Inr s')"
proof -
  have "\<exists>s'. qfold f [0..<n] s = Inr (Inr s') \<and> P n s'"
    using assms
  proof (induction n)
    case (Suc n)
    then obtain t where "qfold f [0..<n] s = Inr (Inr t)" "P n t" by (meson less_SucI)
    with Suc.prems(2) [of n t] show ?case by (auto simp: qfold_append)
  qed simp
  then show ?thesis by blast
qed

section \<open>A system that does not fail\<close>

text \<open>The format and the file name extension of an output type.\<close>

definition out_format :: "string \<Rightarrow> (file_type \<times> string) option" where
  "out_format out =
     (if out = ''json'' then Some (JSON, ''.json'') else if out = ''binary'' then Some (BIN, ''.dat'')
      else if out = ''toml'' then Some (TOML, ''.toml'') else if out = ''yaml'' then Some (YAML, ''.yml'') else None)"

text \<open>The certificate and key files of a run, and its configuration files without their extension.\<close>

definition cert_names :: "gen_args \<Rightarrow> string set" where
  "cert_names a =
     {''root-cert.pem''} \<union>
     (\<Union>i<ga_num_nodes a. {''node-'' @ show_nat i @ ''.chain.pem'', ''node-'' @ show_nat i @ ''.key.pem''}) \<union>
     (\<Union>j<ga_num_clients a. {''client-'' @ show_nat j @ ''.chain.pem'', ''client-'' @ show_nat j @ ''.key.pem''})"

definition config_stems :: "gen_args \<Rightarrow> string set" where
  "config_stems a =
     {''/client''} \<union> (\<lambda>i. ''/nodes-'' @ show_nat i) ` {..<ga_num_nodes a} \<union> (\<lambda>j. ''/client-'' @ show_nat j) ` {..<ga_num_clients a}"

text \<open>The target directory and the files of the run can be created, and the certificates that were written have a canonical path.\<close>

definition target_ok :: "gen_sys \<Rightarrow> gen_args \<Rightarrow> bool" where
  "target_ok S a \<longleftrightarrow>
     can_mkdir S (ga_target a) \<and>
     (\<forall>name\<in>cert_names a. can_create S (join_text (ga_target a) name) \<and> canonicalize S (join_text (ga_target a) name) \<noteq> None) \<and>
     (\<forall>stem\<in>config_stems a. \<forall>t ext. out_format (ga_out a) = Some (t, ext) \<longrightarrow> can_create S (ga_target a @ stem @ ext))"

definition gen_sys_ok :: "gen_sys \<Rightarrow> gen_args \<Rightarrow> bool" where
  "gen_sys_ok S a \<longleftrightarrow>
     cfg_codec_ok S \<and> target_ok S a \<and>
     (\<forall>k. rsa_generate S k \<noteq> None \<and> rand_serial S k \<noteq> None) \<and>
     (\<forall>key c subj. x509_sign S key c \<noteq> None \<and> req_sign S key subj \<noteq> None \<and> key_to_pem S key \<noteq> None) \<and>
     (\<forall>c. cert_to_pem S c \<noteq> None) \<and>
     (\<forall>c e. (\<forall>ds ips. e = SubjectAlternativeName ds ips \<longrightarrow>
         set ips \<subseteq> {''127.0.0.1''} \<union> set (ga_node_ip_sans a) \<union> set (ga_client_ip_sans a)) \<longrightarrow> x509_extension S c e) \<and>
     (\<forall>i. \<exists>pub kp. ed25519_keypair S i = Some (pub, kp) \<and> pub \<noteq> [] \<and> kp \<noteq> []) \<and>
     (\<forall>i. fst (secp256k1_keypair S i) \<noteq> [] \<and> snd (secp256k1_keypair S i) \<noteq> [])"

lemma gen_sys_okD:
  assumes "gen_sys_ok S a"
  shows "target_ok S a" "can_mkdir S (ga_target a)" "\<exists>x. rsa_generate S k = Some x"
    "\<exists>x. rand_serial S k = Some x" "\<exists>x. x509_sign S key spec = Some x" "\<exists>x. req_sign S key subj = Some x"
    "\<exists>x. key_to_pem S key = Some x" "\<exists>x. cert_to_pem S cert = Some x" "cfg_codec_ok S"
    "\<exists>pub kp. ed25519_keypair S i = Some (pub, kp) \<and> pub \<noteq> [] \<and> kp \<noteq> []"
    "fst (secp256k1_keypair S i) \<noteq> []" "snd (secp256k1_keypair S i) \<noteq> []"
  using assms by (simp_all add: gen_sys_ok_def target_ok_def)

lemma append_extension_ok:
  assumes "gen_sys_ok S a" and "\<And>ds ips. e = SubjectAlternativeName ds ips \<Longrightarrow>
    set ips \<subseteq> {''127.0.0.1''} \<union> set (ga_node_ip_sans a) \<union> set (ga_client_ip_sans a)"
  shows "append_extension S e c = Inr (Inr (c\<lparr>cs_extensions := cs_extensions c @ [e]\<rparr>))"
  using assms by (simp add: append_extension_def gen_sys_ok_def)

lemma append_extension_plain:
  assumes "gen_sys_ok S a"
  shows "append_extension S (BasicConstraints x y) c = Inr (Inr (c\<lparr>cs_extensions := cs_extensions c @ [BasicConstraints x y]\<rparr>))"
    "append_extension S (KeyUsage x us) c = Inr (Inr (c\<lparr>cs_extensions := cs_extensions c @ [KeyUsage x us]\<rparr>))"
    "append_extension S SubjectKeyIdentifier c = Inr (Inr (c\<lparr>cs_extensions := cs_extensions c @ [SubjectKeyIdentifier]\<rparr>))"
    "append_extension S (AuthorityKeyIdentifier x y) c = Inr (Inr (c\<lparr>cs_extensions := cs_extensions c @ [AuthorityKeyIdentifier x y]\<rparr>))"
  by (rule append_extension_ok [OF assms]; simp)+

lemma new_root_cert_ok:
  assumes ok: "gen_sys_ok S a"
  shows "\<exists>r. new_root_cert S k = Inr (Inr r)"
proof -
  obtain key ser where "rsa_generate S k = Some key" "rand_serial S k = Some ser"
    using gen_sys_okD(3,4) [OF ok] by blast
  moreover have "\<exists>r. qbind (attempt_opt ''ErrorStack'' (x509_sign S key c)) (\<lambda>s. Inr (Inr (\<lparr>x_spec = c, x_sig = s\<rparr>, key))) = Inr (Inr r)" for c
    using gen_sys_okD(5) [OF ok, of key c] by auto
  ultimately show ?thesis by (simp add: new_root_cert_def append_extension_plain [OF ok] Let_def)
qed

lemma get_signed_cert_ok:
  assumes ok: "gen_sys_ok S a" and "set extra \<subseteq> set (ga_node_ip_sans a) \<union> set (ga_client_ip_sans a)"
  shows "\<exists>c key. get_signed_cert S k ca ca_key extra = Inr (Inr (c, key))"
proof -
  obtain key ser where "rsa_generate S k = Some key" "rand_serial S k = Some ser"
    using gen_sys_okD(3,4) [OF ok] by blast
  moreover obtain rq where "mk_request S key = Inr (Inr rq)"
    using gen_sys_okD(6) [OF ok, of key "[(''C'', ''US''), (''ST'', ''IN''), (''O'', ''Nodes''), (''CN'', ''nodes.com'')]"]
    by (auto simp: mk_request_def)
  moreover have "append_extension S (SubjectAlternativeName ds (''127.0.0.1'' # extra)) c =
      Inr (Inr (c\<lparr>cs_extensions := cs_extensions c @ [SubjectAlternativeName ds (''127.0.0.1'' # extra)]\<rparr>))" for ds c
    using assms by (intro append_extension_ok) auto
  moreover have "\<exists>c' k'. qbind (attempt_opt ''ErrorStack'' (x509_sign S ca_key c)) (\<lambda>s. Inr (Inr (\<lparr>x_spec = c, x_sig = s\<rparr>, key))) = Inr (Inr (c', k'))" for c
    using gen_sys_okD(5) [OF ok, of ca_key c] by auto
  ultimately show ?thesis by (simp add: get_signed_cert_def append_extension_plain [OF ok] Let_def)
qed

lemma write_cert_file_ok:
  "gen_sys_ok S a \<Longrightarrow> name \<in> cert_names a \<Longrightarrow> \<exists>p fs'. write_cert_file S (ga_target a) name bs fs = Inr (Inr (p, fs'))"
  using gen_sys_okD(1) [of S a] by (auto simp: target_ok_def write_cert_file_def Let_def)

lemma cert_names_in:
  "''root-cert.pem'' \<in> cert_names a"
  "i < ga_num_nodes a \<Longrightarrow> ''node-'' @ show_nat i @ ''.chain.pem'' \<in> cert_names a"
  "i < ga_num_nodes a \<Longrightarrow> ''node-'' @ show_nat i @ ''.key.pem'' \<in> cert_names a"
  "j < ga_num_clients a \<Longrightarrow> ''client-'' @ show_nat j @ ''.chain.pem'' \<in> cert_names a"
  "j < ga_num_clients a \<Longrightarrow> ''client-'' @ show_nat j @ ''.key.pem'' \<in> cert_names a"
  unfolding cert_names_def by blast+

lemmas pem_ok = gen_sys_okD(8,7)

section \<open>What a turn of the two loops does\<close>

definition node_keypair :: "gen_sys \<Rightarrow> gen_args \<Rightarrow> nat \<Rightarrow> (bytes \<times> bytes) option" where
  "node_keypair S a i =
     (case ga_t a of ED25519 \<Rightarrow> ed25519_keypair S i | SECP256K1 \<Rightarrow> Some (secp256k1_keypair S i) | RSA \<Rightarrow> None)"

lemma gen_keypair_ok: "gen_sys_ok S a \<Longrightarrow> gen_keypair S a i = Inr (node_keypair S a i)"
  using gen_sys_okD(10) [of S a i] by (auto simp: gen_keypair_def node_keypair_def split: algorithm.splits)

lemma node_keypair_ok:
  "gen_sys_ok S a \<Longrightarrow> ga_t a \<noteq> RSA \<Longrightarrow> \<exists>pub kp. node_keypair S a i = Some (pub, kp) \<and> pub \<noteq> [] \<and> kp \<noteq> []"
  using gen_sys_okD(10-12) [of S a i] by (cases "secp256k1_keypair S i") (auto simp: node_keypair_def split: algorithm.splits)

definition node_fits :: "gen_args \<Rightarrow> nat \<Rightarrow> bool" where
  "node_fits a r \<longleftrightarrow> ga_client_base_port a + r < 2 ^ 16 \<and> ga_mempool_base_port a + r < 2 ^ 16 \<and> ga_base_port a + r < 2 ^ 16"

definition node_shape :: "gen_sys \<Rightarrow> gen_args \<Rightarrow> string \<Rightarrow> string \<Rightarrow> string \<Rightarrow> nat \<Rightarrow> node_config" where
  "node_shape S a rp cp kp i =
     Node_new\<lparr>nc_delta := ga_delay a, nc_id := i mod 2 ^ 16, nc_num_nodes := ga_num_nodes a,
       nc_num_faults := ga_num_faults a, nc_block_size := ga_blocksize a, nc_payload := ga_payload a,
       nc_client_port := ga_client_base_port a + i mod 2 ^ 16, nc_mempool_port := ga_mempool_base_port a + i mod 2 ^ 16,
       nc_crypto_alg := ga_t a,
       nc_secret_key_bytes := (case node_keypair S a i of None \<Rightarrow> [] | Some (_, pair) \<Rightarrow> pair),
       nc_root_cert_path := rp, nc_my_cert_path := cp, nc_my_cert_key_path := kp\<rparr>"

definition node_turn :: "gen_sys \<Rightarrow> gen_args \<Rightarrow> node_config \<Rightarrow> files \<Rightarrow> nat \<Rightarrow> gen_state \<Rightarrow> gen_state" where
  "node_turn S a node fs i st =
     (let r = i mod 2 ^ 16
      in st\<lparr>gs_nodes := gs_nodes st @ [node],
            gs_clients := map (\<lambda>c. c\<lparr>cc_net_map := fmupd r (loopback_addr (ga_client_base_port a + r)) (cc_net_map c)\<rparr>) (gs_clients st),
            gs_pk := (case node_keypair S a i of None \<Rightarrow> gs_pk st | Some (pub, _) \<Rightarrow> fmupd r pub (gs_pk st)),
            gs_ip := fmupd r (loopback_addr (ga_base_port a + r)) (gs_ip st),
            gs_mempool_ip := fmupd r (loopback_addr (ga_mempool_base_port a + r)) (gs_mempool_ip st), gs_files := fs\<rparr>)"

lemma gen_node_turn:
  assumes ok: "gen_sys_ok S a" and i: "i < ga_num_nodes a"
  shows "\<exists>cp kp fs. gen_node S a root pem rp i st =
    (if node_fits a (i mod 2 ^ 16) then Inr (Inr (node_turn S a (node_shape S a rp cp kp i) fs i st)) else Inl Overflow)"
proof -
  obtain c key where cert: "get_signed_cert S (Suc i) (fst root) (snd root) (ga_node_ip_sans a) = Inr (Inr (c, key))"
    using get_signed_cert_ok [OF ok] by blast
  obtain b k where pems: "cert_to_pem S c = Some b" "key_to_pem S key = Some k" using pem_ok [OF ok] by blast
  obtain cp fs1 where w1: "write_cert_file S (ga_target a) (''node-'' @ show_nat i @ ''.chain.pem'') (b @ pem) (gs_files st) = Inr (Inr (cp, fs1))"
    using write_cert_file_ok [OF ok cert_names_in(2) [OF i]] by blast
  obtain kp fs2 where w2: "write_cert_file S (ga_target a) (''node-'' @ show_nat i @ ''.key.pem'') k fs1 = Inr (Inr (kp, fs2))"
    using write_cert_file_ok [OF ok cert_names_in(3) [OF i]] by blast
  have "gen_node S a root pem rp i st =
      (if node_fits a (i mod 2 ^ 16) then Inr (Inr (node_turn S a (node_shape S a rp cp kp i) fs2 i st)) else Inl Overflow)"
    using cert pems w1 w2
    by (simp add: gen_node_def gen_keypair_ok [OF ok] add_u16_def node_fits_def node_turn_def node_shape_def Let_def)
  then show ?thesis by blast
qed

definition client_turn :: "gen_args \<Rightarrow> string \<Rightarrow> string \<Rightarrow> string \<Rightarrow> files \<Rightarrow> nat \<Rightarrow> gen_state \<Rightarrow> gen_state" where
  "client_turn a rp cp kp fs j st =
     (let addr = loopback_addr (ga_client_listen_port a + j)
      in st\<lparr>gs_client_net_map := fmupd j addr (gs_client_net_map st),
            gs_clients := (gs_clients st)[j := (gs_clients st ! j)\<lparr>cc_my_id := j, cc_my_listen_addr := addr,
               cc_my_cert_path := cp, cc_my_cert_key_path := kp, cc_root_cert_path := rp\<rparr>], gs_files := fs\<rparr>)"

lemma gen_client_turn:
  assumes ok: "gen_sys_ok S a" and j: "j < ga_num_clients a"
  shows "\<exists>cp kp fs. gen_client_id S a root pem rp j st =
    (if ga_client_listen_port a + j < 2 ^ 16 then Inr (Inr (client_turn a rp cp kp fs j st)) else Inl Overflow)"
proof -
  obtain c key where cert: "get_signed_cert S (Suc (ga_num_nodes a + j)) (fst root) (snd root) (ga_client_ip_sans a) = Inr (Inr (c, key))"
    using get_signed_cert_ok [OF ok] by blast
  obtain b k where pems: "cert_to_pem S c = Some b" "key_to_pem S key = Some k" using pem_ok [OF ok] by blast
  obtain cp fs1 where w1: "write_cert_file S (ga_target a) (''client-'' @ show_nat j @ ''.chain.pem'') (b @ pem) (gs_files st) = Inr (Inr (cp, fs1))"
    using write_cert_file_ok [OF ok cert_names_in(4) [OF j]] by blast
  obtain kp fs2 where w2: "write_cert_file S (ga_target a) (''client-'' @ show_nat j @ ''.key.pem'') k fs1 = Inr (Inr (kp, fs2))"
    using write_cert_file_ok [OF ok cert_names_in(5) [OF j]] by blast
  have "gen_client_id S a root pem rp j st =
      (if ga_client_listen_port a + j < 2 ^ 16 then Inr (Inr (client_turn a rp cp kp fs2 j st)) else Inl Overflow)"
    using cert pems w1 w2 by (simp add: gen_client_id_def add_u16_def client_turn_def Let_def)
  then show ?thesis by blast
qed

section \<open>The state after the loops\<close>

definition fm_fold :: "(nat \<Rightarrow> 'k) \<Rightarrow> nat \<Rightarrow> (nat \<Rightarrow> 'v) \<Rightarrow> ('k, 'v) fmap" where
  "fm_fold key n f = fold (\<lambda>i. fmupd (key i) (f i)) [0..<n] fmempty"

lemma fm_fold_Suc [simp]: "fm_fold key 0 f = fmempty" "fm_fold key (Suc n) f = fmupd (key n) (f n) (fm_fold key n f)"
  by (simp_all add: fm_fold_def)

lemma fm_fold_dom: "fset (fmdom (fm_fold key n f)) = key ` {0..<n}"
  by (induction n) (auto simp: atLeast0_lessThan_Suc)

lemma fm_fold_upto: "fmlookup (fm_fold (\<lambda>i. i) n f) k = (if k < n then Some (f k) else None)"
  by (induction n) (auto simp: less_Suc_eq)

lemma fm_fold_mod: "n \<le> 2 ^ 16 \<Longrightarrow> fm_fold (\<lambda>i. i mod 2 ^ 16) n f = fm_fold (\<lambda>i. i) n f"
  by (induction n) simp_all

definition node_phase :: "gen_sys \<Rightarrow> gen_args \<Rightarrow> string \<Rightarrow> nat \<Rightarrow> gen_state \<Rightarrow> bool" where
  "node_phase S a rp i st \<longleftrightarrow>
     (\<forall>k<i. node_fits a (k mod 2 ^ 16)) \<and> length (gs_nodes st) = i \<and>
     (\<forall>k<i. \<exists>cp kp. gs_nodes st ! k = node_shape S a rp cp kp k) \<and>
     gs_pk st = (if ga_t a = RSA then fmempty else fm_fold (\<lambda>k. k mod 2 ^ 16) i (\<lambda>k. fst (the (node_keypair S a k)))) \<and>
     gs_ip st = fm_fold (\<lambda>k. k mod 2 ^ 16) i (\<lambda>k. loopback_addr (ga_base_port a + k mod 2 ^ 16)) \<and>
     gs_mempool_ip st = fm_fold (\<lambda>k. k mod 2 ^ 16) i (\<lambda>k. loopback_addr (ga_mempool_base_port a + k mod 2 ^ 16)) \<and>
     gs_client_net_map st = fmempty \<and>
     gs_clients st = replicate (ga_num_clients a)
       ((gen_client a)\<lparr>cc_net_map := fm_fold (\<lambda>k. k mod 2 ^ 16) i (\<lambda>k. loopback_addr (ga_client_base_port a + k mod 2 ^ 16))\<rparr>)"

lemma node_phase_new: "node_phase S a rp 0 (gen_state_new a fs)"
  by (simp add: node_phase_def gen_state_new_def gen_client_def Client_new_def)

lemma node_phase_turn:
  assumes ok: "gen_sys_ok S a" and "node_phase S a rp i st" and "node_fits a (i mod 2 ^ 16)"
  shows "node_phase S a rp (Suc i) (node_turn S a (node_shape S a rp cp kp i) fs i st)"
proof -
  have pk: "gs_pk (node_turn S a (node_shape S a rp cp kp i) fs i st) =
      (if ga_t a = RSA then fmempty else fm_fold (\<lambda>k. k mod 2 ^ 16) (Suc i) (\<lambda>k. fst (the (node_keypair S a k))))"
  proof (cases "ga_t a = RSA")
    case True
    then have "node_keypair S a i = None" by (simp add: node_keypair_def)
    with True assms(2) show ?thesis by (simp add: node_turn_def node_phase_def Let_def)
  next
    case False
    with node_keypair_ok [OF ok False, of i] assms(2) show ?thesis by (auto simp: node_turn_def node_phase_def Let_def)
  qed
  have nodes: "\<exists>cp' kp'. (gs_nodes st @ [node_shape S a rp cp kp i]) ! k = node_shape S a rp cp' kp' k" if "k < Suc i" for k
    using that assms(2) by (cases "k = i") (auto simp: node_phase_def nth_append)
  show ?thesis
    unfolding node_phase_def
    using assms(2,3) pk nodes by (simp add: node_phase_def node_turn_def Let_def less_Suc_eq)
qed

definition client_phase :: "gen_args \<Rightarrow> gen_state \<Rightarrow> nat \<Rightarrow> gen_state \<Rightarrow> bool" where
  "client_phase a st0 j st \<longleftrightarrow>
     (\<forall>k<j. ga_client_listen_port a + k < 2 ^ 16) \<and>
     gs_nodes st = gs_nodes st0 \<and> gs_pk st = gs_pk st0 \<and> gs_ip st = gs_ip st0 \<and> gs_mempool_ip st = gs_mempool_ip st0 \<and>
     length (gs_clients st) = ga_num_clients a \<and>
     gs_client_net_map st = fm_fold (\<lambda>k. k) j (\<lambda>k. loopback_addr (ga_client_listen_port a + k)) \<and>
     (\<forall>k<ga_num_clients a. \<exists>id addr cp kp rp.
        gs_clients st ! k = (gs_clients st0 ! k)\<lparr>cc_my_id := id, cc_my_listen_addr := addr, cc_my_cert_path := cp,
          cc_my_cert_key_path := kp, cc_root_cert_path := rp\<rparr> \<and>
        (k < j \<longrightarrow> id = k \<and> addr = loopback_addr (ga_client_listen_port a + k)))"

lemma client_phase_new:
  assumes "node_phase S a rp n st"
  shows "client_phase a st 0 st"
proof -
  have "\<exists>id addr cp kp rp. c = c\<lparr>cc_my_id := id, cc_my_listen_addr := addr, cc_my_cert_path := cp,
      cc_my_cert_key_path := kp, cc_root_cert_path := rp\<rparr>" for c :: client_config
    by (cases c) auto
  with assms show ?thesis by (simp add: client_phase_def node_phase_def)
qed

lemma client_phase_turn:
  assumes "client_phase a st0 j st" and "ga_client_listen_port a + j < 2 ^ 16" and "j < ga_num_clients a"
  shows "client_phase a st0 (Suc j) (client_turn a rp cp kp fs j st)"
proof -
  have "\<exists>id addr cp' kp' rp'. gs_clients (client_turn a rp cp kp fs j st) ! k =
        (gs_clients st0 ! k)\<lparr>cc_my_id := id, cc_my_listen_addr := addr, cc_my_cert_path := cp', cc_my_cert_key_path := kp', cc_root_cert_path := rp'\<rparr> \<and>
        (k < Suc j \<longrightarrow> id = k \<and> addr = loopback_addr (ga_client_listen_port a + k))" if k: "k < ga_num_clients a" for k
  proof -
    obtain id addr cp' kp' rp' where old: "gs_clients st ! k = (gs_clients st0 ! k)\<lparr>cc_my_id := id, cc_my_listen_addr := addr,
        cc_my_cert_path := cp', cc_my_cert_key_path := kp', cc_root_cert_path := rp'\<rparr>"
        "k < j \<longrightarrow> id = k \<and> addr = loopback_addr (ga_client_listen_port a + k)"
      using assms(1) k unfolding client_phase_def by blast
    show ?thesis
    proof (cases "k = j")
      case True
      with old(1) k assms(1) have "gs_clients (client_turn a rp cp kp fs j st) ! k = (gs_clients st0 ! k)\<lparr>cc_my_id := k,
          cc_my_listen_addr := loopback_addr (ga_client_listen_port a + k), cc_my_cert_path := cp, cc_my_cert_key_path := kp, cc_root_cert_path := rp\<rparr>"
        by (simp add: client_turn_def client_phase_def Let_def)
      then show ?thesis by blast
    next
      case False
      with old have "gs_clients (client_turn a rp cp kp fs j st) ! k = (gs_clients st0 ! k)\<lparr>cc_my_id := id, cc_my_listen_addr := addr,
          cc_my_cert_path := cp', cc_my_cert_key_path := kp', cc_root_cert_path := rp'\<rparr>"
        by (simp add: client_turn_def Let_def)
      with old(2) False show ?thesis by (metis less_Suc_eq)
    qed
  qed
  with assms show ?thesis by (simp add: client_phase_def client_turn_def Let_def less_Suc_eq)
qed

text \<open>The two loops run to their end exactly when all ports fit.\<close>

lemma node_loop:
  assumes ok: "gen_sys_ok S a" and n: "n \<le> ga_num_nodes a"
  shows "(\<exists>st. qfold (gen_node S a root pem rp) [0..<n] (gen_state_new a fs) = Inr (Inr st)) \<longleftrightarrow> (\<forall>k<n. node_fits a (k mod 2 ^ 16))"
    and "qfold (gen_node S a root pem rp) [0..<n] (gen_state_new a fs) = Inr (Inr st) \<Longrightarrow> node_phase S a rp n st"
proof -
  have turn: "node_fits a (i mod 2 ^ 16) \<and> node_phase S a rp (Suc i) t'"
    if "i < n" "node_phase S a rp i t" "gen_node S a root pem rp i t = Inr (Inr t')" for i t t'
    using gen_node_turn [OF ok, of i root pem rp t] that n node_phase_turn [OF ok that(2)] by (auto split: if_splits)
  show phase: "qfold (gen_node S a root pem rp) [0..<n] (gen_state_new a fs) = Inr (Inr st) \<Longrightarrow> node_phase S a rp n st" for st
    by (erule qfold_upt_inv [where P = "node_phase S a rp"]) (use turn node_phase_new in blast)+
  show "(\<exists>st. qfold (gen_node S a root pem rp) [0..<n] (gen_state_new a fs) = Inr (Inr st)) \<longleftrightarrow> (\<forall>k<n. node_fits a (k mod 2 ^ 16))"
  proof
    assume "\<exists>st. qfold (gen_node S a root pem rp) [0..<n] (gen_state_new a fs) = Inr (Inr st)"
    then show "\<forall>k<n. node_fits a (k mod 2 ^ 16)" using phase by (auto simp: node_phase_def)
  next
    assume fits: "\<forall>k<n. node_fits a (k mod 2 ^ 16)"
    show "\<exists>st. qfold (gen_node S a root pem rp) [0..<n] (gen_state_new a fs) = Inr (Inr st)"
    proof (rule qfold_upt_total [where P = "node_phase S a rp"])
      fix i t assume "i < n" "node_phase S a rp i t"
      with fits n gen_node_turn [OF ok, of i root pem rp t] node_phase_turn [OF ok]
      show "\<exists>t'. gen_node S a root pem rp i t = Inr (Inr t') \<and> node_phase S a rp (Suc i) t'" by auto
    qed (rule node_phase_new)
  qed
qed

lemma client_loop:
  assumes ok: "gen_sys_ok S a" and "client_phase a st0 0 st0"
  shows "(\<exists>st. qfold (gen_client_id S a root pem rp) [0..<ga_num_clients a] st0 = Inr (Inr st)) \<longleftrightarrow>
      (\<forall>k<ga_num_clients a. ga_client_listen_port a + k < 2 ^ 16)"
    and "qfold (gen_client_id S a root pem rp) [0..<ga_num_clients a] st0 = Inr (Inr st) \<Longrightarrow> client_phase a st0 (ga_num_clients a) st"
proof -
  have turn: "client_phase a st0 (Suc i) t'"
    if "i < ga_num_clients a" "client_phase a st0 i t" "gen_client_id S a root pem rp i t = Inr (Inr t')" for i t t'
    using gen_client_turn [OF ok that(1), of root pem rp t] that client_phase_turn [OF that(2)] by (auto split: if_splits)
  show phase: "qfold (gen_client_id S a root pem rp) [0..<ga_num_clients a] st0 = Inr (Inr st) \<Longrightarrow> client_phase a st0 (ga_num_clients a) st" for st
    by (erule qfold_upt_inv [where P = "client_phase a st0"]) (use turn assms(2) in blast)+
  show "(\<exists>st. qfold (gen_client_id S a root pem rp) [0..<ga_num_clients a] st0 = Inr (Inr st)) \<longleftrightarrow>
      (\<forall>k<ga_num_clients a. ga_client_listen_port a + k < 2 ^ 16)"
  proof
    assume "\<exists>st. qfold (gen_client_id S a root pem rp) [0..<ga_num_clients a] st0 = Inr (Inr st)"
    then show "\<forall>k<ga_num_clients a. ga_client_listen_port a + k < 2 ^ 16" using phase by (auto simp: client_phase_def)
  next
    assume fits: "\<forall>k<ga_num_clients a. ga_client_listen_port a + k < 2 ^ 16"
    show "\<exists>st. qfold (gen_client_id S a root pem rp) [0..<ga_num_clients a] st0 = Inr (Inr st)"
    proof (rule qfold_upt_total [where P = "client_phase a st0"])
      fix i t assume i: "i < ga_num_clients a" and "client_phase a st0 i t"
      with fits gen_client_turn [OF ok i, of root pem rp t] client_phase_turn [of a st0 i t]
      show "\<exists>t'. gen_client_id S a root pem rp i t = Inr (Inr t') \<and> client_phase a st0 (Suc i) t'" by auto
    qed (rule assms(2))
  qed
qed

section \<open>The files\<close>

lemma write_as_eq:
  assumes ok: "gen_sys_ok S a" and stem: "stem \<in> config_stems a" and out: "ga_out a \<noteq> ''toml''"
    and ser: "\<And>t. t \<noteq> TOML \<Longrightarrow> \<exists>bs. ser t obj = Some bs"
  shows "write_as S ser (ga_out a) (ga_target a @ stem) obj fs =
    Inr (case out_format (ga_out a) of None \<Rightarrow> fs | Some (t, ext) \<Rightarrow> fmupd (ga_target a @ stem @ ext) (the (ser t obj)) fs)"
proof -
  obtain j b y where "ser JSON obj = Some j" "ser BIN obj = Some b" "ser YAML obj = Some y" using ser by blast
  moreover have "can_create S (ga_target a @ stem @ ext)" if "out_format (ga_out a) = Some (t, ext)" for t ext
    using gen_sys_okD(1) [OF ok] stem that by (simp add: target_ok_def)
  ultimately show ?thesis using out by (simp add: write_as_def write_defs out_format_def)
qed

lemma codec_total:
  assumes "gen_sys_ok S a" and "t \<noteq> TOML"
  shows "\<exists>bs. ser_node S t c = Some bs" "\<exists>bs. ser_client S t d = Some bs"
  using gen_sys_okD(9) [OF assms(1)] assms(2) unfolding cfg_codec_ok_def by blast+

lemma config_stems_in:
  "''/client'' \<in> config_stems a" "i < ga_num_nodes a \<Longrightarrow> ''/nodes-'' @ show_nat i \<in> config_stems a"
  "j < ga_num_clients a \<Longrightarrow> ''/client-'' @ show_nat j \<in> config_stems a"
  by (auto simp: config_stems_def)

lemma expect_valid_iff [simp]: "expect_valid msg v x = Inr y \<longleftrightarrow> v = Inr (Inr ()) \<and> y = x"
  by (auto simp: expect_valid_def split: sum.splits)

definition put_file :: "gen_args \<Rightarrow> (file_type \<Rightarrow> 'c \<Rightarrow> bytes option) \<Rightarrow> string \<Rightarrow> nat \<times> 'c \<Rightarrow> files \<Rightarrow> files" where
  "put_file a ser stem = (\<lambda>(i, c) fs.
     case out_format (ga_out a) of
       None \<Rightarrow> fs
     | Some (t, ext) \<Rightarrow> fmupd (ga_target a @ stem @ show_nat i @ ext) (the (ser t c)) fs)"

text \<open>A loop that writes and validates succeeds exactly when everything is valid.\<close>

lemma rfold_checked:
  assumes "\<And>x fs fs'. x \<in> set xs \<Longrightarrow> f x fs = Inr fs' \<longleftrightarrow> v x \<and> fs' = g x fs"
  shows "rfold f xs fs = Inr fs' \<longleftrightarrow> (\<forall>x\<in>set xs. v x) \<and> fs' = fold g xs fs"
  using assms by (induction xs arbitrary: fs) (auto simp: rbind_Inr_iff)

lemma enumerate_all: "(\<forall>x\<in>set (enumerate n xs). P (snd x)) \<longleftrightarrow> (\<forall>c\<in>set xs. P c)"
  using map_snd_enumerate [of n xs] by (metis (no_types, lifting) imageE imageI list.set_map)

lemma enumerate_index: "x \<in> set (enumerate 0 cs) \<Longrightarrow> fst x < length cs"
  by (auto simp: in_set_enumerate_eq)

lemma write_nodes:
  assumes "gen_sys_ok S a" and "ga_out a \<noteq> ''toml''" and "length cs \<le> ga_num_nodes a"
  shows "rfold (write_node_file S a) (enumerate 0 cs) fs = Inr fs' \<longleftrightarrow>
    (\<forall>c\<in>set cs. node_validates c = Inr (Inr ())) \<and> fs' = fold (put_file a (ser_node S) ''/nodes-'') (enumerate 0 cs) fs"
  unfolding enumerate_all [of 0 cs "\<lambda>c. node_validates c = Inr (Inr ())", symmetric]
proof (rule rfold_checked)
  fix x fs fs' assume "x \<in> set (enumerate 0 cs)"
  then have "fst x < ga_num_nodes a" using enumerate_index assms(3) by fastforce
  note w = write_as_eq [where ser = "ser_node S" and obj = "snd x" and fs = fs, OF assms(1) config_stems_in(2) [OF this] assms(2) codec_total(1) [OF assms(1)]]
  show "write_node_file S a x fs = Inr fs' \<longleftrightarrow> node_validates (snd x) = Inr (Inr ()) \<and> fs' = put_file a (ser_node S) ''/nodes-'' x fs"
    using w by (cases x) (auto simp: write_node_file_def put_file_def split: option.splits)
qed

lemma write_clients:
  assumes "gen_sys_ok S a" and "ga_out a \<noteq> ''toml''" and "length cs \<le> ga_num_clients a"
  shows "rfold (write_client_file S a) (enumerate 0 cs) fs = Inr fs' \<longleftrightarrow>
    (\<forall>c\<in>set cs. client_validates c = Inr (Inr ())) \<and> fs' = fold (put_file a (ser_client S) ''/client-'') (enumerate 0 cs) fs"
  unfolding enumerate_all [of 0 cs "\<lambda>c. client_validates c = Inr (Inr ())", symmetric]
proof (rule rfold_checked)
  fix x fs fs' assume "x \<in> set (enumerate 0 cs)"
  then have "fst x < ga_num_clients a" using enumerate_index assms(3) by fastforce
  note w = write_as_eq [where ser = "ser_client S" and obj = "snd x" and fs = fs, OF assms(1) config_stems_in(3) [OF this] assms(2) codec_total(2) [OF assms(1)]]
  show "write_client_file S a x fs = Inr fs' \<longleftrightarrow> client_validates (snd x) = Inr (Inr ()) \<and> fs' = put_file a (ser_client S) ''/client-'' x fs"
    using w by (cases x) (auto simp: write_client_file_def put_file_def split: option.splits)
qed

lemma put_file_other:
  assumes "\<And>i. p \<noteq> ga_target a @ stem @ show_nat i @ ext" and "out_format (ga_out a) = Some (t, ext)"
  shows "fmlookup (fold (put_file a ser stem) xs fs) p = fmlookup fs p"
proof (induction xs arbitrary: fs)
  case (Cons x xs)
  obtain i c where "x = (i, c)" by (cases x)
  with Cons assms(1) [of i] show ?case by (simp add: put_file_def assms(2))
qed simp

lemma put_files_lookup:
  assumes "out_format (ga_out a) = Some (t, ext)" and "i < length cs"
  shows "fmlookup (fold (put_file a ser stem) (enumerate 0 cs) fs) (ga_target a @ stem @ show_nat i @ ext) = Some (the (ser t (cs ! i)))"
  using assms(2)
proof (induction cs rule: rev_induct)
  case (snoc c cs)
  then show ?case using assms(1)
    by (cases "i = length cs") (auto simp: enumerate_append_eq put_file_def nth_append)
qed simp

section \<open>Validation of what was generated\<close>

lemma key_order_set [simp]: "set (key_order m) = fset (fmdom m)"
  by (simp add: key_order_def)

lemma sorted_entries_set: "set (sorted_list_of_fmap m) = {(k, v). fmlookup m k = Some v}"
  by (force simp: sorted_list_of_fmap_def fmlookup_dom_iff)

lemma node_validates_iff:
  "node_validates c = Inr (Inr ()) \<longleftrightarrow>
     fset (fmdom (nc_net_map c)) = {0..<nc_num_nodes c} \<and> 2 * nc_num_faults c < 2 ^ 64 \<and> 2 * nc_num_faults c < nc_num_nodes c \<and>
     nc_crypto_alg c \<noteq> RSA \<and> (\<forall>r pk. fmlookup (nc_pk_map c) r = Some pk \<longrightarrow> r < nc_num_nodes c \<and> pk \<noteq> []) \<and> nc_secret_key_bytes c \<noteq> []"
  using exact_keys [of "key_order (nc_net_map c)" "nc_net_map c" "nc_num_nodes c"]
  by (auto simp: node_validates_def node_validate_steps check_replicas_ok check_public_keys_ok sorted_entries_set)

lemma client_validates_iff:
  "client_validates c = Inr (Inr ()) \<longleftrightarrow>
     fset (fmdom (cc_net_map c)) = {0..<cc_num_nodes c} \<and> 2 * cc_num_faults c < 2 ^ 64 \<and> 2 * cc_num_faults c < cc_num_nodes c \<and>
     cc_crypto_alg c \<noteq> RSA \<and> (\<forall>r pk. fmlookup (cc_server_pk c) r = Some pk \<longrightarrow> r < cc_num_nodes c \<and> pk \<noteq> [])"
  using exact_keys [of "key_order (cc_net_map c)" "cc_net_map c" "cc_num_nodes c"]
  by (auto simp: client_validates_def client_validate_steps check_replicas_ok check_public_keys_ok sorted_entries_set)

lemma mod_image: "(\<lambda>k. k mod 2 ^ 16) ` {0..<n} = {0..<n} \<longleftrightarrow> n \<le> (2 ^ 16 :: nat)"
proof
  assume eq: "(\<lambda>k. k mod 2 ^ 16) ` {0..<n} = {0..<n}"
  show "n \<le> 2 ^ 16"
  proof (rule ccontr)
    assume "\<not> n \<le> 2 ^ 16"
    then have "(2 ^ 16 :: nat) \<in> {0..<n}" by simp
    then have "(2 ^ 16 :: nat) \<in> (\<lambda>k. k mod 2 ^ 16) ` {0..<n}" unfolding eq .
    then obtain k where "(2 ^ 16 :: nat) = k mod 2 ^ 16" by (rule imageE)
    moreover have "k mod 2 ^ 16 < (2 ^ 16 :: nat)" by simp
    ultimately show False by linarith
  qed
qed force

definition shape_ok :: "gen_args \<Rightarrow> bool" where
  "shape_ok a \<longleftrightarrow> ga_num_nodes a \<le> 2 ^ 16 \<and> 2 * ga_num_faults a < ga_num_nodes a \<and> ga_t a \<noteq> RSA"

lemma pk_phase:
  assumes "gen_sys_ok S a" and "node_phase S a rp n st" and "fmlookup (gs_pk st) r = Some pk"
  shows "pk \<noteq> []" and "n \<le> 2 ^ 16 \<Longrightarrow> r < n"
proof -
  have pk: "ga_t a \<noteq> RSA" "fmlookup (fm_fold (\<lambda>k. k mod 2 ^ 16) n (\<lambda>k. fst (the (node_keypair S a k)))) r = Some pk"
    using assms(2,3) by (auto simp: node_phase_def split: if_splits)
  have "fst (the (node_keypair S a k)) \<noteq> []" for k using node_keypair_ok [OF assms(1) pk(1), of k] by auto
  with pk(2) show "pk \<noteq> []" by (induction n) (auto split: if_splits)
  show "r < n" if "n \<le> 2 ^ 16" using pk(2) unfolding fm_fold_mod [OF that] fm_fold_upto by (simp split: if_splits)
qed

lemma finished_node:
  assumes ok: "gen_sys_ok S a" and n: "node_phase S a rp (ga_num_nodes a) st0" and "client_phase a st0 j st" and "k < ga_num_nodes a"
  shows "\<exists>cp kp. finish_nodes st ! k = (node_shape S a rp cp kp k)\<lparr>nc_pk_map := gs_pk st0, nc_net_map := gs_ip st0,
      nc_mempool_net_map := gs_mempool_ip st0, nc_client_net_map := gs_client_net_map st\<rparr>"
    and "node_validates (finish_nodes st ! k) = Inr (Inr ()) \<longleftrightarrow> shape_ok a"
proof -
  obtain cp kp where c: "finish_nodes st ! k = (node_shape S a rp cp kp k)\<lparr>nc_pk_map := gs_pk st0, nc_net_map := gs_ip st0,
      nc_mempool_net_map := gs_mempool_ip st0, nc_client_net_map := gs_client_net_map st\<rparr>"
    using assms by (fastforce simp: finish_nodes_def node_phase_def client_phase_def)
  then show "\<exists>cp kp. finish_nodes st ! k = (node_shape S a rp cp kp k)\<lparr>nc_pk_map := gs_pk st0, nc_net_map := gs_ip st0,
      nc_mempool_net_map := gs_mempool_ip st0, nc_client_net_map := gs_client_net_map st\<rparr>" by blast
  have dom: "fset (fmdom (gs_ip st0)) = {0..<ga_num_nodes a} \<longleftrightarrow> ga_num_nodes a \<le> 2 ^ 16"
    using n by (simp add: node_phase_def fm_fold_dom mod_image del: power_numeral)
  have sk: "(case node_keypair S a k of None \<Rightarrow> [] | Some (_, pair) \<Rightarrow> pair) \<noteq> []" if "ga_t a \<noteq> RSA"
    using node_keypair_ok [OF ok that, of k] by auto
  show "node_validates (finish_nodes st ! k) = Inr (Inr ()) \<longleftrightarrow> shape_ok a"
    using dom sk pk_phase [OF ok n] by (auto simp: c node_validates_iff node_shape_def shape_ok_def)
qed

lemma finished_client:
  assumes ok: "gen_sys_ok S a" and n: "node_phase S a rp (ga_num_nodes a) st0" and j: "client_phase a st0 (ga_num_clients a) st" and k: "k < ga_num_clients a"
  shows "cc_my_id (finish_clients st ! k) = k" "cc_my_listen_addr (finish_clients st ! k) = loopback_addr (ga_client_listen_port a + k)"
    "cc_server_pk (finish_clients st ! k) = gs_pk st0" "cc_num_nodes (finish_clients st ! k) = ga_num_nodes a"
    "cc_num_faults (finish_clients st ! k) = ga_num_faults a" "cc_block_size (finish_clients st ! k) = ga_blocksize a"
    "cc_payload (finish_clients st ! k) = 0"
    "cc_net_map (finish_clients st ! k) = fm_fold (\<lambda>k. k mod 2 ^ 16) (ga_num_nodes a) (\<lambda>k. loopback_addr (ga_client_base_port a + k mod 2 ^ 16))"
    "client_validates (finish_clients st ! k) = Inr (Inr ()) \<longleftrightarrow> shape_ok a"
proof -
  obtain cp kp rp' where c: "finish_clients st ! k = (gs_clients st0 ! k)\<lparr>cc_my_id := k, cc_my_listen_addr := loopback_addr (ga_client_listen_port a + k),
      cc_my_cert_path := cp, cc_my_cert_key_path := kp, cc_root_cert_path := rp', cc_server_pk := gs_pk st0\<rparr>"
    using j k by (fastforce simp: finish_clients_def client_phase_def)
  have base: "gs_clients st0 ! k = (gen_client a)\<lparr>cc_net_map := fm_fold (\<lambda>k. k mod 2 ^ 16) (ga_num_nodes a)
      (\<lambda>k. loopback_addr (ga_client_base_port a + k mod 2 ^ 16))\<rparr>"
    using n k by (simp add: node_phase_def)
  note fields = c base gen_client_def Client_new_def
  show "cc_my_id (finish_clients st ! k) = k" "cc_my_listen_addr (finish_clients st ! k) = loopback_addr (ga_client_listen_port a + k)"
    "cc_server_pk (finish_clients st ! k) = gs_pk st0" "cc_num_nodes (finish_clients st ! k) = ga_num_nodes a"
    "cc_num_faults (finish_clients st ! k) = ga_num_faults a" "cc_block_size (finish_clients st ! k) = ga_blocksize a"
    "cc_payload (finish_clients st ! k) = 0"
    "cc_net_map (finish_clients st ! k) = fm_fold (\<lambda>k. k mod 2 ^ 16) (ga_num_nodes a) (\<lambda>k. loopback_addr (ga_client_base_port a + k mod 2 ^ 16))"
    by (simp_all add: fields)
  have "fset (fmdom (cc_net_map (finish_clients st ! k))) = {0..<ga_num_nodes a} \<longleftrightarrow> ga_num_nodes a \<le> 2 ^ 16"
    by (simp add: fields fm_fold_dom mod_image del: power_numeral)
  then show "client_validates (finish_clients st ! k) = Inr (Inr ()) \<longleftrightarrow> shape_ok a"
    using pk_phase [OF ok n] by (auto simp: fields client_validates_iff shape_ok_def)
qed

section \<open>The whole run\<close>

definition gen_files :: "gen_sys \<Rightarrow> gen_args \<Rightarrow> gen_state \<Rightarrow> files" where
  "gen_files S a st =
     (let fs = fold (put_file a (ser_node S) ''/nodes-'') (enumerate 0 (finish_nodes st)) (gs_files st);
          fs = fold (put_file a (ser_client S) ''/client-'') (enumerate 0 (finish_clients st)) fs
      in case out_format (ga_out a) of
           None \<Rightarrow> fs
         | Some (t, ext) \<Rightarrow> fmupd (ga_target a @ ''/client'' @ ext) (the (ser_client S t (finish_clients st ! 0))) fs)"

text \<open>The last part of a run: it writes what the two loops made.\<close>

definition gen_write :: "gen_sys \<Rightarrow> gen_args \<Rightarrow> gen_state \<Rightarrow> files attempt" where
  "gen_write S a st =
     rbind (rfold (write_node_file S a) (enumerate 0 (finish_nodes st)) (gs_files st)) (\<lambda>fs.
     rbind (rfold (write_client_file S a) (enumerate 0 (finish_clients st)) fs) (\<lambda>fs.
     rbind (write_as S (ser_client S) (ga_out a) (ga_target a @ ''/client'') (finish_clients st ! 0) fs) (\<lambda>fs. Inr (Inr fs))))"

lemma gen_configs_loops:
  assumes ok: "gen_sys_ok S a"
  obtains root pem rp fs1 where "gen_configs S a fs =
    qbind (qfold (gen_node S a root pem rp) [0..<ga_num_nodes a] (gen_state_new a fs1)) (\<lambda>st.
     qbind (qfold (gen_client_id S a root pem rp) [0..<ga_num_clients a] st) (gen_write S a))"
proof -
  obtain root where root: "new_root_cert S 0 = Inr (Inr root)" using new_root_cert_ok [OF ok] by blast
  obtain pem where pem: "cert_to_pem S (fst root) = Some pem" using pem_ok(1) [OF ok] by blast
  obtain rp fs1 where w: "write_cert_file S (ga_target a) ''root-cert.pem'' pem fs = Inr (Inr (rp, fs1))"
    using write_cert_file_ok [OF ok cert_names_in(1)] by blast
  show ?thesis by (rule that [of root pem rp fs1]) (simp add: gen_configs_def gen_write_def [abs_def] root pem w gen_sys_okD(2) [OF ok])
qed

lemma phase_lengths:
  assumes "node_phase S a rp (ga_num_nodes a) st0" and "client_phase a st0 (ga_num_clients a) st"
  shows "length (finish_nodes st) = ga_num_nodes a" "length (finish_clients st) = ga_num_clients a"
  using assms by (auto simp: finish_nodes_def finish_clients_def node_phase_def client_phase_def)

lemma gen_configs_run:
  assumes ok: "gen_sys_ok S a" and out: "ga_out a \<noteq> ''toml''"
  obtains root pem rp fs1 where "\<And>fs'. gen_configs S a fs = Inr (Inr fs') \<longleftrightarrow>
    (\<exists>st0 st. qfold (gen_node S a root pem rp) [0..<ga_num_nodes a] (gen_state_new a fs1) = Inr (Inr st0) \<and>
      qfold (gen_client_id S a root pem rp) [0..<ga_num_clients a] st0 = Inr (Inr st) \<and>
      (\<forall>c\<in>set (finish_nodes st). node_validates c = Inr (Inr ())) \<and>
      (\<forall>c\<in>set (finish_clients st). client_validates c = Inr (Inr ())) \<and> fs' = gen_files S a st)"
proof -
  obtain root pem rp fs1 where run: "gen_configs S a fs =
    qbind (qfold (gen_node S a root pem rp) [0..<ga_num_nodes a] (gen_state_new a fs1)) (\<lambda>st.
     qbind (qfold (gen_client_id S a root pem rp) [0..<ga_num_clients a] st) (gen_write S a))"
    by (rule gen_configs_loops [OF ok])
  have cl: "write_as S (ser_client S) (ga_out a) (ga_target a @ ''/client'') c fs' =
      Inr (case out_format (ga_out a) of None \<Rightarrow> fs' | Some (t, ext) \<Rightarrow> fmupd (ga_target a @ ''/client'' @ ext) (the (ser_client S t c)) fs')" for c fs'
    by (rule write_as_eq [where ser = "ser_client S", OF ok config_stems_in(1) out codec_total(2) [OF ok]])
  have tail: "gen_write S a st = Inr (Inr fs') \<longleftrightarrow>
      (\<forall>c\<in>set (finish_nodes st). node_validates c = Inr (Inr ())) \<and>
      (\<forall>c\<in>set (finish_clients st). client_validates c = Inr (Inr ())) \<and> fs' = gen_files S a st"
    if "qfold (gen_node S a root pem rp) [0..<ga_num_nodes a] (gen_state_new a fs1) = Inr (Inr st0)"
      "qfold (gen_client_id S a root pem rp) [0..<ga_num_clients a] st0 = Inr (Inr st)" for st0 st fs'
  proof -
    note p0 = node_loop(2) [OF ok order.refl that(1)]
    note len = phase_lengths [OF p0 client_loop(2) [OF ok client_phase_new [OF p0] that(2)]]
    show ?thesis
      by (auto simp: gen_write_def rbind_Inr_iff cl gen_files_def Let_def len write_nodes [OF ok out] write_clients [OF ok out])
  qed
  show ?thesis by (rule that [of root pem rp fs1], unfold run qbind_Ok_iff) (use tail in blast)
qed

lemma gen_shapes:
  assumes ok: "gen_sys_ok S a" and nc: "0 < ga_num_clients a"
    and phases: "node_phase S a rp (ga_num_nodes a) st0" "client_phase a st0 (ga_num_clients a) st"
  shows "(\<forall>c\<in>set (finish_nodes st). node_validates c = Inr (Inr ())) \<and>
      (\<forall>c\<in>set (finish_clients st). client_validates c = Inr (Inr ())) \<longleftrightarrow> shape_ok a"
proof -
  from phase_lengths [OF phases] finished_node(2) [OF ok phases] finished_client(9) [OF ok phases] nc show ?thesis
    by (auto simp: all_set_conv_all_nth)
qed

definition gen_args_ok :: "gen_args \<Rightarrow> bool" where
  "gen_args_ok a \<longleftrightarrow>
     ga_num_nodes a \<le> 2 ^ 16 \<and> 2 * ga_num_faults a < ga_num_nodes a \<and> ga_t a \<noteq> RSA \<and>
     ga_base_port a + ga_num_nodes a \<le> 2 ^ 16 \<and> ga_client_base_port a + ga_num_nodes a \<le> 2 ^ 16 \<and>
     ga_mempool_base_port a + ga_num_nodes a \<le> 2 ^ 16 \<and> ga_client_listen_port a + ga_num_clients a \<le> 2 ^ 16"

lemma gen_fits_iff:
  assumes nc: "0 < ga_num_clients a"
  shows "(\<forall>k<ga_num_nodes a. node_fits a (k mod 2 ^ 16)) \<and> (\<forall>k<ga_num_clients a. ga_client_listen_port a + k < 2 ^ 16) \<and> shape_ok a
    \<longleftrightarrow> gen_args_ok a" (is "?F \<longleftrightarrow> _")
proof
  assume F: ?F
  then have n: "ga_num_nodes a \<le> 2 ^ 16" "0 < ga_num_nodes a" by (auto simp: shape_ok_def)
  then have "(ga_num_nodes a - 1) mod 2 ^ 16 = ga_num_nodes a - 1" by simp
  with F n have "node_fits a (ga_num_nodes a - 1)" by (metis diff_less zero_less_one)
  moreover have "ga_client_listen_port a + (ga_num_clients a - 1) < 2 ^ 16" using F nc by (metis diff_less zero_less_one)
  ultimately show "gen_args_ok a" using F n nc by (auto simp: node_fits_def shape_ok_def gen_args_ok_def)
qed (auto simp: node_fits_def shape_ok_def gen_args_ok_def)

text \<open>The state that a finished run has reached.\<close>

definition gen_reached :: "gen_sys \<Rightarrow> gen_args \<Rightarrow> string \<Rightarrow> gen_state \<Rightarrow> gen_state \<Rightarrow> bool" where
  "gen_reached S a rp st0 st \<longleftrightarrow>
     node_phase S a rp (ga_num_nodes a) st0 \<and> client_phase a st0 (ga_num_clients a) st"

text \<open>As TOML nothing is written: the first configuration that is valid has a non-empty address map.\<close>

lemma client_toml_refused:
  assumes "gen_sys_ok S a" and "ga_out a = ''toml''"
  shows "write_client_file S a (j, c) fs \<noteq> Inr fs'"
proof
  assume w: "write_client_file S a (j, c) fs = Inr fs'"
  then have "client_validates c = Inr (Inr ())" by (auto simp: write_client_file_def rbind_Inr_iff)
  then have dom: "fset (fmdom (cc_net_map c)) = {0..<cc_num_nodes c}" "0 < cc_num_nodes c" by (auto simp: client_validates_iff)
  have "cc_net_map c \<noteq> fmempty"
  proof
    assume "cc_net_map c = fmempty"
    with dom show False by simp
  qed
  then have "ser_client S TOML c = None" using gen_sys_okD(9) [OF assms(1)] by (simp add: cfg_codec_ok_def)
  with w assms(2) show False by (simp add: write_client_file_def write_as_def write_toml_def unwrap_def expect_def rbind_Inr_iff)
qed

lemma genconfig_not_toml:
  assumes ok: "gen_sys_ok S a" and nc: "0 < ga_num_clients a" and run: "gen_configs S a fs = Inr (Inr fs')"
  shows "ga_out a \<noteq> ''toml''"
proof
  assume toml: "ga_out a = ''toml''"
  from run obtain root pem rp fs1 st0 st fs2 fs3 where loops: "qfold (gen_node S a root pem rp) [0..<ga_num_nodes a] (gen_state_new a fs1) = Inr (Inr st0)"
      "qfold (gen_client_id S a root pem rp) [0..<ga_num_clients a] st0 = Inr (Inr st)"
      and w: "rfold (write_client_file S a) (enumerate 0 (finish_clients st)) fs2 = Inr fs3"
    by (rule_tac gen_configs_loops [OF ok, of fs]) (auto simp: qbind_Ok_iff rbind_Inr_iff gen_write_def)
  note p0 = node_loop(2) [OF ok order.refl loops(1)]
  have "finish_clients st \<noteq> []"
    using phase_lengths(2) [OF p0 client_loop(2) [OF ok client_phase_new [OF p0] loops(2)]] nc by auto
  then obtain c cs where "finish_clients st = c # cs" by (cases "finish_clients st") auto
  with w client_toml_refused [OF ok toml] show False by (auto simp: rbind_Inr_iff)
qed

lemma gen_configs_reached:
  assumes ok: "gen_sys_ok S a" and nc: "0 < ga_num_clients a"
  shows "gen_configs S a fs = Inr (Inr fs') \<Longrightarrow>
      gen_args_ok a \<and> ga_out a \<noteq> ''toml'' \<and> (\<exists>rp st0 st. gen_reached S a rp st0 st \<and> fs' = gen_files S a st)"
    and "gen_args_ok a \<Longrightarrow> ga_out a \<noteq> ''toml'' \<Longrightarrow> \<exists>fs'. gen_configs S a fs = Inr (Inr fs')"
proof -
  show "gen_args_ok a \<and> ga_out a \<noteq> ''toml'' \<and> (\<exists>rp st0 st. gen_reached S a rp st0 st \<and> fs' = gen_files S a st)"
    if fin: "gen_configs S a fs = Inr (Inr fs')"
  proof -
    have out: "ga_out a \<noteq> ''toml''" by (rule genconfig_not_toml [OF ok nc fin])
    from fin obtain root pem rp fs1 st0 st where loops: "qfold (gen_node S a root pem rp) [0..<ga_num_nodes a] (gen_state_new a fs1) = Inr (Inr st0)"
        "qfold (gen_client_id S a root pem rp) [0..<ga_num_clients a] st0 = Inr (Inr st)"
        and valid: "(\<forall>c\<in>set (finish_nodes st). node_validates c = Inr (Inr ())) \<and> (\<forall>c\<in>set (finish_clients st). client_validates c = Inr (Inr ()))"
        and fs': "fs' = gen_files S a st"
      by (rule_tac gen_configs_run [OF ok out, of fs]) blast
    note p0 = node_loop(2) [OF ok order.refl loops(1)]
    note p1 = client_loop [OF ok client_phase_new [OF p0]]
    from gen_shapes [OF ok nc p0 p1(2) [OF loops(2)]] valid p1(1) loops p0
    have "gen_args_ok a" unfolding gen_fits_iff [OF nc, symmetric] node_phase_def by blast
    with fs' p0 p1(2) [OF loops(2)] out show ?thesis unfolding gen_reached_def by blast
  qed
  show "\<exists>fs'. gen_configs S a fs = Inr (Inr fs')" if args: "gen_args_ok a" and out: "ga_out a \<noteq> ''toml''"
  proof -
    obtain root pem rp fs1 where run: "\<And>fs'. gen_configs S a fs = Inr (Inr fs') \<longleftrightarrow>
      (\<exists>st0 st. qfold (gen_node S a root pem rp) [0..<ga_num_nodes a] (gen_state_new a fs1) = Inr (Inr st0) \<and>
        qfold (gen_client_id S a root pem rp) [0..<ga_num_clients a] st0 = Inr (Inr st) \<and>
        (\<forall>c\<in>set (finish_nodes st). node_validates c = Inr (Inr ())) \<and>
        (\<forall>c\<in>set (finish_clients st). client_validates c = Inr (Inr ())) \<and> fs' = gen_files S a st)"
      using gen_configs_run [OF ok out] by blast
    from args have F: "\<forall>k<ga_num_nodes a. node_fits a (k mod 2 ^ 16)" "\<forall>k<ga_num_clients a. ga_client_listen_port a + k < 2 ^ 16" "shape_ok a"
      unfolding gen_fits_iff [OF nc, symmetric] by blast+
    then obtain st0 where st0: "qfold (gen_node S a root pem rp) [0..<ga_num_nodes a] (gen_state_new a fs1) = Inr (Inr st0)"
      using node_loop(1) [OF ok order.refl] by blast
    note p0 = node_loop(2) [OF ok order.refl st0]
    note p1 = client_loop [OF ok client_phase_new [OF p0]]
    from F(2) p1(1) obtain st where st: "qfold (gen_client_id S a root pem rp) [0..<ga_num_clients a] st0 = Inr (Inr st)" by blast
    with st0 F(3) gen_shapes [OF ok nc p0 p1(2) [OF st]] run show ?thesis by blast
  qed
qed

section \<open>What the files contain\<close>

definition table :: "nat \<Rightarrow> (nat \<Rightarrow> 'v) \<Rightarrow> (nat, 'v) fmap \<Rightarrow> bool" where
  "table n f m \<longleftrightarrow> (\<forall>k. fmlookup m k = (if k < n then Some (f k) else None))"

definition generated_node :: "gen_sys \<Rightarrow> gen_args \<Rightarrow> nat \<Rightarrow> node_config \<Rightarrow> bool" where
  "generated_node S a i c \<longleftrightarrow>
     nc_id c = i \<and> nc_num_nodes c = ga_num_nodes a \<and> nc_num_faults c = ga_num_faults a \<and> nc_delta c = ga_delay a \<and>
     nc_block_size c = ga_blocksize a \<and> nc_payload c = ga_payload a \<and> nc_crypto_alg c = ga_t a \<and>
     nc_client_port c = ga_client_base_port a + i \<and> nc_mempool_port c = ga_mempool_base_port a + i \<and>
     table (ga_num_nodes a) (\<lambda>k. loopback_addr (ga_base_port a + k)) (nc_net_map c) \<and>
     table (ga_num_nodes a) (\<lambda>k. loopback_addr (ga_mempool_base_port a + k)) (nc_mempool_net_map c) \<and>
     table (ga_num_clients a) (\<lambda>k. loopback_addr (ga_client_listen_port a + k)) (nc_client_net_map c) \<and>
     table (ga_num_nodes a) (\<lambda>k. fst (the (node_keypair S a k))) (nc_pk_map c) \<and>
     nc_secret_key_bytes c = snd (the (node_keypair S a i))"

definition generated_client :: "gen_sys \<Rightarrow> gen_args \<Rightarrow> nat \<Rightarrow> client_config \<Rightarrow> bool" where
  "generated_client S a j c \<longleftrightarrow>
     cc_my_id c = j \<and> cc_num_nodes c = ga_num_nodes a \<and> cc_num_faults c = ga_num_faults a \<and> cc_block_size c = ga_blocksize a \<and>
     cc_my_listen_addr c = loopback_addr (ga_client_listen_port a + j) \<and>
     table (ga_num_nodes a) (\<lambda>k. loopback_addr (ga_client_base_port a + k)) (cc_net_map c) \<and>
     table (ga_num_nodes a) (\<lambda>k. fst (the (node_keypair S a k))) (cc_server_pk c)"

lemma table_mod: "n \<le> 2 ^ 16 \<Longrightarrow> table n (\<lambda>k. f k) (fm_fold (\<lambda>k. k mod 2 ^ 16) n f)"
  unfolding table_def fm_fold_mod fm_fold_upto by blast

lemma table_fold_cong:
  assumes "n \<le> 2 ^ 16"
  shows "table n (\<lambda>k. g k) (fm_fold (\<lambda>k. k mod 2 ^ 16) n (\<lambda>k. g (k mod 2 ^ 16)))"
proof -
  have "k < n \<Longrightarrow> k mod 2 ^ 16 = k" for k using assms by simp
  then show ?thesis unfolding table_def fm_fold_mod [OF assms] fm_fold_upto by simp
qed

lemma reached_tables:
  assumes "gen_args_ok a" and "gen_reached S a rp st0 st"
  shows "table (ga_num_nodes a) (\<lambda>k. loopback_addr (ga_base_port a + k)) (gs_ip st0)"
    "table (ga_num_nodes a) (\<lambda>k. loopback_addr (ga_mempool_base_port a + k)) (gs_mempool_ip st0)"
    "table (ga_num_clients a) (\<lambda>k. loopback_addr (ga_client_listen_port a + k)) (gs_client_net_map st)"
    "table (ga_num_nodes a) (\<lambda>k. fst (the (node_keypair S a k))) (gs_pk st0)"
proof -
  have n: "ga_num_nodes a \<le> 2 ^ 16" "ga_t a \<noteq> RSA" using assms(1) by (auto simp: gen_args_ok_def)
  have ip: "gs_ip st0 = fm_fold (\<lambda>k. k mod 2 ^ 16) (ga_num_nodes a) (\<lambda>k. loopback_addr (ga_base_port a + k mod 2 ^ 16))"
    and mp: "gs_mempool_ip st0 = fm_fold (\<lambda>k. k mod 2 ^ 16) (ga_num_nodes a) (\<lambda>k. loopback_addr (ga_mempool_base_port a + k mod 2 ^ 16))"
    and pk: "gs_pk st0 = fm_fold (\<lambda>k. k mod 2 ^ 16) (ga_num_nodes a) (\<lambda>k. fst (the (node_keypair S a k)))"
    and cl: "gs_client_net_map st = fm_fold (\<lambda>k. k) (ga_num_clients a) (\<lambda>k. loopback_addr (ga_client_listen_port a + k))"
    using assms(2) n(2) unfolding gen_reached_def node_phase_def client_phase_def by auto
  show "table (ga_num_nodes a) (\<lambda>k. loopback_addr (ga_base_port a + k)) (gs_ip st0)"
    "table (ga_num_nodes a) (\<lambda>k. loopback_addr (ga_mempool_base_port a + k)) (gs_mempool_ip st0)"
    unfolding ip mp by (rule table_fold_cong [OF n(1)])+
  show "table (ga_num_clients a) (\<lambda>k. loopback_addr (ga_client_listen_port a + k)) (gs_client_net_map st)"
    unfolding cl by (simp add: table_def fm_fold_upto)
  show "table (ga_num_nodes a) (\<lambda>k. fst (the (node_keypair S a k))) (gs_pk st0)"
    unfolding pk by (rule table_mod [OF n(1)])
qed

lemma reached_node:
  assumes ok: "gen_sys_ok S a" and args: "gen_args_ok a" and r: "gen_reached S a rp st0 st" and i: "i < ga_num_nodes a"
  shows "generated_node S a i (finish_nodes st ! i)" "node_validates (finish_nodes st ! i) = Inr (Inr ())"
proof -
  note ph = r [unfolded gen_reached_def]
  have "i mod 2 ^ 16 = i" using args i by (simp add: gen_args_ok_def)
  moreover obtain pub kp where "node_keypair S a i = Some (pub, kp)"
    using node_keypair_ok [OF ok, of i] args by (auto simp: gen_args_ok_def)
  moreover obtain cp kp' where "finish_nodes st ! i = (node_shape S a rp cp kp' i)\<lparr>nc_pk_map := gs_pk st0, nc_net_map := gs_ip st0,
      nc_mempool_net_map := gs_mempool_ip st0, nc_client_net_map := gs_client_net_map st\<rparr>"
    using finished_node(1) [OF ok conjunct1 [OF ph] conjunct2 [OF ph] i] by blast
  ultimately show "generated_node S a i (finish_nodes st ! i)"
    using reached_tables [OF args r] by (simp add: generated_node_def node_shape_def)
  show "node_validates (finish_nodes st ! i) = Inr (Inr ())"
    using finished_node(2) [OF ok conjunct1 [OF ph] conjunct2 [OF ph] i] args by (simp add: gen_args_ok_def shape_ok_def)
qed

lemma reached_client:
  assumes ok: "gen_sys_ok S a" and args: "gen_args_ok a" and r: "gen_reached S a rp st0 st" and j: "j < ga_num_clients a"
  shows "generated_client S a j (finish_clients st ! j)" "client_validates (finish_clients st ! j) = Inr (Inr ())"
proof -
  note ph = r [unfolded gen_reached_def]
  note c = finished_client [OF ok conjunct1 [OF ph] conjunct2 [OF ph] j]
  have n: "ga_num_nodes a \<le> 2 ^ 16" using args by (simp add: gen_args_ok_def)
  have "table (ga_num_nodes a) (\<lambda>k. loopback_addr (ga_client_base_port a + k)) (cc_net_map (finish_clients st ! j))"
    unfolding c(8) by (rule table_fold_cong [OF n])
  with c reached_tables(4) [OF args r] show "generated_client S a j (finish_clients st ! j)" by (simp add: generated_client_def)
  show "client_validates (finish_clients st ! j) = Inr (Inr ())" using c(9) args by (simp add: gen_args_ok_def shape_ok_def)
qed

lemma gen_files_node:
  assumes "out_format (ga_out a) = Some (t, ext)" and "i < length (finish_nodes st)"
  shows "fmlookup (gen_files S a st) (ga_target a @ ''/nodes-'' @ show_nat i @ ext) = Some (the (ser_node S t (finish_nodes st ! i)))"
  using put_files_lookup [OF assms, of "ser_node S" "''/nodes-''" "gs_files st"]
    put_file_other [of "ga_target a @ ''/nodes-'' @ show_nat i @ ext" a "''/client-''" ext t "ser_client S"] assms(1)
  by (simp add: gen_files_def Let_def)

lemma gen_files_client:
  assumes "out_format (ga_out a) = Some (t, ext)" and "j < length (finish_clients st)"
  shows "fmlookup (gen_files S a st) (ga_target a @ ''/client-'' @ show_nat j @ ext) = Some (the (ser_client S t (finish_clients st ! j)))"
  using put_files_lookup [OF assms, of "ser_client S" "''/client-''" "fold (put_file a (ser_node S) ''/nodes-'') (enumerate 0 (finish_nodes st)) (gs_files st)"] assms(1)
  by (auto simp: gen_files_def Let_def out_format_def split: if_splits)

lemma genconfig_generates:
  assumes ok: "gen_sys_ok S a" and nc: "0 < ga_num_clients a" and fmt: "out_format (ga_out a) = Some (t, ext)"
    and run: "gen_configs S a fs = Inr (Inr fs')"
  shows "gen_args_ok a"
    and "i < ga_num_nodes a \<Longrightarrow> \<exists>bs c. fmlookup fs' (ga_target a @ ''/nodes-'' @ show_nat i @ ext) = Some bs \<and> de_node S t bs = Some c \<and>
      node_validates c = Inr (Inr ()) \<and> generated_node S a i c"
    and "j < ga_num_clients a \<Longrightarrow> \<exists>bs c. fmlookup fs' (ga_target a @ ''/client-'' @ show_nat j @ ext) = Some bs \<and> de_client S t bs = Some c \<and>
      client_validates c = Inr (Inr ()) \<and> generated_client S a j c"
proof -
  obtain rp st0 st where args: "gen_args_ok a" and out: "ga_out a \<noteq> ''toml''" and r: "gen_reached S a rp st0 st" and fs': "fs' = gen_files S a st"
    using gen_configs_reached(1) [OF ok nc run] by blast
  then show "gen_args_ok a" by simp
  have t: "t \<noteq> TOML" using fmt out by (auto simp: out_format_def split: if_splits)
  have len: "length (finish_nodes st) = ga_num_nodes a" "length (finish_clients st) = ga_num_clients a"
    using r by (auto simp: gen_reached_def finish_nodes_def finish_clients_def node_phase_def client_phase_def)
  have codec: "\<exists>bs. ser_node S t c = Some bs \<and> de_node S t bs = Some c" "\<exists>bs. ser_client S t d = Some bs \<and> de_client S t bs = Some d" for c d
    using gen_sys_okD(9) [OF ok] t by (auto simp: cfg_codec_ok_def)
  show "\<exists>bs c. fmlookup fs' (ga_target a @ ''/nodes-'' @ show_nat i @ ext) = Some bs \<and> de_node S t bs = Some c \<and>
      node_validates c = Inr (Inr ()) \<and> generated_node S a i c" if "i < ga_num_nodes a"
    using codec(1) [of "finish_nodes st ! i"] gen_files_node [OF fmt, of i st S] reached_node [OF ok args r that] that
    by (auto simp: fs' len)
  show "\<exists>bs c. fmlookup fs' (ga_target a @ ''/client-'' @ show_nat j @ ext) = Some bs \<and> de_client S t bs = Some c \<and>
      client_validates c = Inr (Inr ()) \<and> generated_client S a j c" if "j < ga_num_clients a"
    using codec(2) [of "finish_clients st ! j"] gen_files_client [OF fmt, of j st S] reached_client [OF ok args r that] that
    by (auto simp: fs' len)
qed

text \<open>
  As TOML \<open>genconfig\<close> writes no cluster at all: on options that are otherwise fine it panics on the
  first configuration, which has maps that TOML cannot express.
\<close>
theorem genconfig_toml_panics:
  assumes ok: "gen_sys_ok S a" and nc: "0 < ga_num_clients a" and args: "gen_args_ok a" and toml: "ga_out a = ''toml''"
  shows "gen_configs S a fs = Inl (Panic ''called Result::unwrap on an Err value'')"
proof -
  obtain root pem rp fs1 where run: "gen_configs S a fs =
    qbind (qfold (gen_node S a root pem rp) [0..<ga_num_nodes a] (gen_state_new a fs1)) (\<lambda>st.
     qbind (qfold (gen_client_id S a root pem rp) [0..<ga_num_clients a] st) (gen_write S a))"
    by (rule gen_configs_loops [OF ok])
  from args have F: "\<forall>k<ga_num_nodes a. node_fits a (k mod 2 ^ 16)" "\<forall>k<ga_num_clients a. ga_client_listen_port a + k < 2 ^ 16"
    unfolding gen_fits_iff [OF nc, symmetric] by blast+
  from F(1) obtain st0 where st0: "qfold (gen_node S a root pem rp) [0..<ga_num_nodes a] (gen_state_new a fs1) = Inr (Inr st0)"
    using node_loop(1) [OF ok order.refl] by blast
  note p0 = node_loop(2) [OF ok order.refl st0]
  note p1 = client_loop [OF ok client_phase_new [OF p0]]
  from F(2) p1(1) obtain st where st: "qfold (gen_client_id S a root pem rp) [0..<ga_num_clients a] st0 = Inr (Inr st)" by blast
  have r: "gen_reached S a rp st0 st" using p0 p1(2) [OF st] by (simp add: gen_reached_def)
  have n: "0 < ga_num_nodes a" using args by (simp add: gen_args_ok_def)
  then obtain c cs where c: "finish_nodes st = c # cs" using phase_lengths(1) [OF p0 p1(2) [OF st]] by (cases "finish_nodes st") auto
  have "generated_node S a 0 c" using reached_node(1) [OF ok args r n] by (simp add: c)
  with n have "fmlookup (nc_net_map c) 0 \<noteq> None" by (simp add: generated_node_def table_def)
  then have "nc_net_map c \<noteq> fmempty" by auto
  then have "ser_node S TOML c = None" using gen_sys_okD(9) [OF ok] by (simp add: cfg_codec_ok_def)
  moreover have "can_create S (ga_target a @ ''/nodes-'' @ show_nat 0 @ ''.toml'')"
    using gen_sys_okD(1) [OF ok] config_stems_in(2) [OF n] toml by (fastforce simp: target_ok_def out_format_def)
  ultimately have "write_node_file S a (0, c) fs' = Inl (Panic ''called Result::unwrap on an Err value'')" for fs'
    by (simp add: write_node_file_def write_as_def write_defs toml)
  then show ?thesis by (simp add: run st0 st c gen_write_def)
qed

text \<open>
  C38: \<open>genconfig\<close> finishes exactly when its options describe a cluster in a format that can hold it:
  more nodes than twice the faults, no more nodes than replica numbers, a signature algorithm that is
  implemented, ports that stay below 65536 for the last node and the last client, and an output type
  other than \<open>toml\<close>, whose serializer refuses the maps of a configuration.
\<close>
theorem genconfig_succeeds_iff:
  assumes "gen_sys_ok S a" and "0 < ga_num_clients a"
  shows "(\<exists>fs'. gen_configs S a fs = Inr (Inr fs')) \<longleftrightarrow>
    ga_num_nodes a \<le> 2 ^ 16 \<and> 2 * ga_num_faults a < ga_num_nodes a \<and> ga_t a \<noteq> RSA \<and>
    ga_base_port a + ga_num_nodes a \<le> 2 ^ 16 \<and> ga_client_base_port a + ga_num_nodes a \<le> 2 ^ 16 \<and>
    ga_mempool_base_port a + ga_num_nodes a \<le> 2 ^ 16 \<and> ga_client_listen_port a + ga_num_clients a \<le> 2 ^ 16 \<and>
    ga_out a \<noteq> ''toml''"
  using gen_configs_reached [OF assms] unfolding gen_args_ok_def by blast

end
