(* ===== verification/Sample_Config.thy ===== *)
theory Sample_Config
  imports Gen_Config_Laws Sample_Ext
begin

text \<open>
  A concrete system for the configuration tool, on which its theorems are instantiated: a prefix-free
  codec in place of serde, numbered keys and signatures in place of OpenSSL and the key generators, and
  a file system that accepts every path.
\<close>

section \<open>A codec for configurations\<close>

definition dec_then :: "'a decoder \<Rightarrow> ('a \<Rightarrow> 'b decoder) \<Rightarrow> 'b decoder" where
  "dec_then d f s = (case d s of None \<Rightarrow> None | Some (x, t) \<Rightarrow> f x t)"

lemma dec_then_enc: "decodes enc dec \<Longrightarrow> dec_then dec f (enc x @ s) = f x s"
  by (simp add: dec_then_def decodes_def)

definition enc_text :: "string \<Rightarrow> bytes" where
  "enc_text s = enc_bytes (text_bytes s)"

definition dec_text :: "string decoder" where
  "dec_text = dec_then dec_bytes (\<lambda>bs s. Some (bytes_text bs, s))"

definition enc_map :: "('v \<Rightarrow> bytes) \<Rightarrow> (nat, 'v) fmap \<Rightarrow> bytes" where
  "enc_map enc m = enc_list (\<lambda>(k, v). enc_nat k @ enc v) (sorted_list_of_fmap m)"

definition dec_map :: "'v decoder \<Rightarrow> (nat, 'v) fmap decoder" where
  "dec_map dec = dec_then (dec_list (dec_then dec_nat (\<lambda>k. dec_then dec (\<lambda>v s. Some ((k, v), s))))) (\<lambda>xs s. Some (fmap_of_list xs, s))"

definition enc_alg :: "algorithm \<Rightarrow> bytes" where
  "enc_alg t = enc_nat (case t of ED25519 \<Rightarrow> 0 | SECP256K1 \<Rightarrow> 1 | RSA \<Rightarrow> 2)"

definition dec_alg :: "algorithm decoder" where
  "dec_alg = dec_then dec_nat (\<lambda>n s. Some (if n = 0 then ED25519 else if n = 1 then SECP256K1 else RSA, s))"

lemma decodes_nat: "decodes enc_nat dec_nat"
  by (simp add: decodes_def dec_enc_nat)

lemma decodes_bytes: "decodes enc_bytes dec_bytes"
  by (simp add: decodes_def dec_enc_bytes)

lemma decodes_text: "decodes enc_text dec_text"
  by (simp add: decodes_def enc_text_def dec_text_def dec_then_enc [OF decodes_bytes])

lemma decodes_alg: "decodes enc_alg dec_alg"
  by (simp add: decodes_def enc_alg_def dec_alg_def dec_then_enc [OF decodes_nat] split: algorithm.splits)

lemma fmap_of_sorted [simp]: "fmap_of_list (sorted_list_of_fmap m) = m"
  by (rule fmap_ext) (simp add: fmlookup_of_list)

lemma decodes_map:
  assumes "decodes enc dec"
  shows "decodes (enc_map enc) (dec_map dec)"
proof -
  have "decodes (\<lambda>(k, v). enc_nat k @ enc v) (dec_then dec_nat (\<lambda>k. dec_then dec (\<lambda>v s. Some ((k, v), s))))"
    by (auto simp: decodes_def dec_then_enc [OF decodes_nat] dec_then_enc [OF assms])
  then have "decodes (enc_list (\<lambda>(k, v). enc_nat k @ enc v)) (dec_list (dec_then dec_nat (\<lambda>k. dec_then dec (\<lambda>v s. Some ((k, v), s)))))"
    by (simp add: decodes_def dec_enc_list)
  note step = dec_then_enc [OF this]
  show ?thesis unfolding decodes_def enc_map_def dec_map_def step by simp
qed

definition enc_node :: "node_config \<Rightarrow> bytes" where
  "enc_node c =
     enc_map enc_text (nc_net_map c) @ enc_map enc_text (nc_mempool_net_map c) @ enc_map enc_text (nc_client_net_map c) @
     enc_nat (nc_delta c) @ enc_nat (nc_id c) @ enc_nat (nc_num_nodes c) @ enc_nat (nc_num_faults c) @
     enc_nat (nc_block_size c) @ enc_nat (nc_client_port c) @ enc_nat (nc_mempool_port c) @ enc_nat (nc_payload c) @
     enc_nat (nc_bench_emit_window_secs c) @ enc_nat (nc_bench_metrics_node c) @ enc_alg (nc_crypto_alg c) @
     enc_map enc_bytes (nc_pk_map c) @ enc_bytes (nc_secret_key_bytes c) @ enc_text (nc_my_cert_path c) @
     enc_text (nc_my_cert_key_path c) @ enc_text (nc_root_cert_path c)"

definition dec_node :: "node_config decoder" where
  "dec_node =
     dec_then (dec_map dec_text) (\<lambda>m1. dec_then (dec_map dec_text) (\<lambda>m2. dec_then (dec_map dec_text) (\<lambda>m3.
     dec_then dec_nat (\<lambda>n1. dec_then dec_nat (\<lambda>n2. dec_then dec_nat (\<lambda>n3. dec_then dec_nat (\<lambda>n4.
     dec_then dec_nat (\<lambda>n5. dec_then dec_nat (\<lambda>n6. dec_then dec_nat (\<lambda>n7. dec_then dec_nat (\<lambda>n8.
     dec_then dec_nat (\<lambda>n9. dec_then dec_nat (\<lambda>n10. dec_then dec_alg (\<lambda>t.
     dec_then (dec_map dec_bytes) (\<lambda>pk. dec_then dec_bytes (\<lambda>sk. dec_then dec_text (\<lambda>t1.
     dec_then dec_text (\<lambda>t2. dec_then dec_text (\<lambda>t3 s.
     Some (\<lparr>nc_net_map = m1, nc_mempool_net_map = m2, nc_client_net_map = m3, nc_delta = n1, nc_id = n2, nc_num_nodes = n3,
            nc_num_faults = n4, nc_block_size = n5, nc_client_port = n6, nc_mempool_port = n7, nc_payload = n8,
            nc_bench_emit_window_secs = n9, nc_bench_metrics_node = n10, nc_crypto_alg = t, nc_pk_map = pk,
            nc_secret_key_bytes = sk, nc_my_cert_path = t1, nc_my_cert_key_path = t2, nc_root_cert_path = t3\<rparr>, s))))))))))))))))))))"

definition enc_client :: "client_config \<Rightarrow> bytes" where
  "enc_client c =
     enc_map enc_text (cc_net_map c) @ enc_alg (cc_crypto_alg c) @ enc_map enc_bytes (cc_server_pk c) @
     enc_nat (cc_num_nodes c) @ enc_nat (cc_num_faults c) @ enc_nat (cc_block_size c) @ enc_nat (cc_payload c) @
     enc_nat (cc_my_id c) @ enc_text (cc_my_listen_addr c) @ enc_text (cc_my_cert_path c) @
     enc_text (cc_my_cert_key_path c) @ enc_text (cc_root_cert_path c)"

definition dec_client :: "client_config decoder" where
  "dec_client =
     dec_then (dec_map dec_text) (\<lambda>m. dec_then dec_alg (\<lambda>t. dec_then (dec_map dec_bytes) (\<lambda>pk.
     dec_then dec_nat (\<lambda>n1. dec_then dec_nat (\<lambda>n2. dec_then dec_nat (\<lambda>n3. dec_then dec_nat (\<lambda>n4.
     dec_then dec_nat (\<lambda>n5. dec_then dec_text (\<lambda>t1. dec_then dec_text (\<lambda>t2.
     dec_then dec_text (\<lambda>t3. dec_then dec_text (\<lambda>t4 s.
     Some (\<lparr>cc_net_map = m, cc_crypto_alg = t, cc_server_pk = pk, cc_num_nodes = n1, cc_num_faults = n2, cc_block_size = n3,
            cc_payload = n4, cc_my_id = n5, cc_my_listen_addr = t1, cc_my_cert_path = t2, cc_my_cert_key_path = t3,
            cc_root_cert_path = t4\<rparr>, s)))))))))))))"

lemmas dec_then_field = dec_then_enc [OF decodes_nat] dec_then_enc [OF decodes_bytes] dec_then_enc [OF decodes_text]
  dec_then_enc [OF decodes_alg] dec_then_enc [OF decodes_map [OF decodes_text]] dec_then_enc [OF decodes_map [OF decodes_bytes]]

lemma dec_node_enc: "dec_node (enc_node c @ s) = Some (c, s)"
  by (simp add: dec_node_def enc_node_def dec_then_field)

lemma dec_client_enc: "dec_client (enc_client c @ s) = Some (c, s)"
  by (simp add: dec_client_def enc_client_def dec_then_field)

section \<open>The system\<close>

definition sample_sys :: gen_sys where
  "sample_sys =
     \<lparr>can_create = (\<lambda>p. True), ser_node = (\<lambda>t c. if t = TOML \<and> nc_net_map c \<noteq> fmempty then None else Some (enc_node c)), de_node = (\<lambda>t bs. map_option fst (dec_node bs)),
      ser_client = (\<lambda>t c. if t = TOML \<and> cc_net_map c \<noteq> fmempty then None else Some (enc_client c)), de_client = (\<lambda>t bs. map_option fst (dec_client bs)),
      can_mkdir = (\<lambda>p. True), canonicalize = Some, rsa_generate = (\<lambda>k. Some [word_of_nat k]),
      rand_serial = (\<lambda>k. Some [word_of_nat k]), x509_extension = (\<lambda>c e. True), x509_sign = (\<lambda>key c. Some key),
      req_sign = (\<lambda>key n. Some key), cert_to_pem = (\<lambda>c. Some (x_sig c)), key_to_pem = Some,
      ed25519_keypair = (\<lambda>i. Some ([word_of_nat i], [word_of_nat i])), secp256k1_keypair = (\<lambda>i. ([word_of_nat i], [word_of_nat i])),
      algorithm_from_str = (\<lambda>s. if s = ''ED25519'' then Some ED25519 else if s = ''SECP256K1'' then Some SECP256K1 else None)\<rparr>"

lemma sample_codec: "cfg_codec_ok sample_sys"
  using dec_node_enc [of _ "[]"] dec_client_enc [of _ "[]"] by (simp add: cfg_codec_ok_def sample_sys_def)

lemma sample_sys_ok: "gen_sys_ok sample_sys a"
  using sample_codec by (simp add: gen_sys_ok_def target_ok_def) (simp add: sample_sys_def)

definition sample_args :: gen_args where
  "sample_args =
     \<lparr>ga_num_nodes = 4, ga_num_faults = 1, ga_delay = 50, ga_base_port = 10000, ga_blocksize = 400, ga_client_base_port = 11000,
      ga_t = ED25519, ga_out = ''json'', ga_target = ''d'', ga_payload = 0, ga_client_listen_port = 12000,
      ga_mempool_base_port = 13000, ga_num_clients = 1, ga_node_ip_sans = [], ga_client_ip_sans = []\<rparr>"

theorem genconfig_succeeds_iff_witness:
  "(\<exists>fs'. gen_configs sample_sys sample_args fmempty = Inr (Inr fs')) \<and>
   \<not> (\<exists>fs'. gen_configs sample_sys (sample_args\<lparr>ga_num_faults := 2\<rparr>) fmempty = Inr (Inr fs')) \<and>
   \<not> (\<exists>fs'. gen_configs sample_sys (sample_args\<lparr>ga_out := ''toml''\<rparr>) fmempty = Inr (Inr fs'))"
  using genconfig_succeeds_iff [OF sample_sys_ok, of sample_args fmempty]
    genconfig_succeeds_iff [OF sample_sys_ok, of "sample_args\<lparr>ga_num_faults := 2\<rparr>" fmempty]
    genconfig_succeeds_iff [OF sample_sys_ok, of "sample_args\<lparr>ga_out := ''toml''\<rparr>" fmempty]
  by (simp add: sample_args_def)

theorem genconfig_toml_panics_witness:
  "gen_configs sample_sys (sample_args\<lparr>ga_out := ''toml''\<rparr>) fmempty = Inl (Panic ''called Result::unwrap on an Err value'')"
  by (rule genconfig_toml_panics [OF sample_sys_ok]) (simp_all add: sample_args_def gen_args_ok_def)

end
