(* ===== verification/Bootstrap.thy ===== *)
theory Bootstrap
  imports Sample_Config Node_Programs Apollo_Safety Artemis_Laws Sync_Properties
begin

text \<open>
  From \<open>genconfig\<close> to running replicas: the node programs started on the files that \<open>genconfig\<close> wrote,
  with an address file that lists the nodes, assemble replicas whose contexts are initial states of
  the protocols, listening on their own port and connected to all others. The YAML files are the
  exception: their extension is one that the node programs refuse.
\<close>

section \<open>Hypotheses on the parts outside\<close>

text \<open>The generated key pairs decode, and what a node signs its public key verifies.\<close>

definition keys_ok :: "ext \<Rightarrow> gen_sys \<Rightarrow> gen_args \<Rightarrow> bool" where
  "keys_ok E S a \<longleftrightarrow>
     (\<forall>i<ga_num_nodes a. \<exists>sk pk. decode_keypair E (snd (the (node_keypair S a i))) = Some sk \<and>
        decode_public_key E (fst (the (node_keypair S a i))) = Some pk \<and> sign_verifies E sk pk)"

text \<open>The node program reads what \<open>genconfig\<close> wrote with the same serde; its store and senders come up.\<close>

definition node_sys_ok :: "gen_sys \<Rightarrow> node_sys \<Rightarrow> bool" where
  "node_sys_ok S N \<longleftrightarrow>
     de_node N = de_node S \<and> (\<forall>p. open_store N p \<noteq> None) \<and> (\<forall>m. consensus_sender N m) \<and> (\<forall>m. client_sender N m)"

definition node_file :: "gen_args \<Rightarrow> nat \<Rightarrow> string" where
  "node_file a i = ga_target a @ ''/nodes-'' @ show_nat i @ snd (the (out_format (ga_out a)))"

text \<open>
  The command line of a node: its configuration and the address file; it may also give a time to sleep
  and repeat the delay of the configuration.
\<close>

definition started_on :: "gen_args \<Rightarrow> nat \<Rightarrow> string \<Rightarrow> (string \<Rightarrow> string option) \<Rightarrow> bool" where
  "started_on a i ips opt \<longleftrightarrow>
     opt ''config'' = Some (node_file a i) \<and> opt ''ip'' = Some ips \<and> opt ''store'' = None \<and>
     (opt ''delta'' = None \<or> opt ''delta'' = Some (show_nat (ga_delay a)) \<and> ga_delay a < 2 ^ 64) \<and>
     (opt ''sleep'' = None \<or> (\<exists>k<2 ^ 64. opt ''sleep'' = Some (show_nat k)))"

section \<open>Reading the configuration\<close>

lemma node_file_extension:
  assumes "out_format out = Some (t, CHR ''.'' # e)"
  shows "extension (path_of (dir @ ''/nodes-'' @ show_nat i @ CHR ''.'' # e)) = Some e"
proof -
  have "e \<in> {''json'', ''dat'', ''toml'', ''yml''}" using assms by (auto simp: out_format_def split: if_splits)
  moreover have "CHR ''/'' \<notin> set (show_nat i)" using show_nat_digits [of "CHR ''/''" i] by (auto simp: digit_of_def)
  ultimately show ?thesis using extension_join [of "''nodes-'' @ show_nat i" e dir] by auto
qed

lemma read_generated:
  assumes fmt: "out_format (ga_out a) = Some (t, ext)" and de: "fmlookup fs (node_file a i) = Some bs" "de_node N t bs = Some c"
  shows "read_node_config N fs (node_file a i) =
    (if ga_out a = ''yaml'' then Inl (Panic ''Invalid config file extension'') else Inr c)"
proof -
  obtain e where e: "ext = CHR ''.'' # e" using fmt by (auto simp: out_format_def split: if_splits)
  have "extension (path_of (node_file a i)) = Some e"
    using node_file_extension [of "ga_out a" t e "ga_target a" i] fmt by (simp add: node_file_def e)
  with fmt de show ?thesis by (auto simp: read_node_config_def read_defs e out_format_def split: if_splits)
qed

text \<open>The address map after the update from the address file.\<close>

definition updated_map :: "gen_args \<Rightarrow> nat \<Rightarrow> (nat, string) fmap \<Rightarrow> bool" where
  "updated_map a i m \<longleftrightarrow>
     table (ga_num_nodes a) (\<lambda>k. if k = i then any_addr (ga_base_port a + i) else loopback_addr (ga_base_port a + k)) m"

lemma update_generated:
  assumes "gen_args_ok a" and "ga_num_nodes a < 2 ^ 16" and "generated_node S a i c" and "i < ga_num_nodes a"
  shows "\<exists>m. Node_update_config (map (\<lambda>k. loopback_addr (ga_base_port a + k)) [0..<ga_num_nodes a]) c = Inr (c\<lparr>nc_net_map := m\<rparr>) \<and>
    updated_map a i m"
proof -
  let ?ips = "map (\<lambda>k. loopback_addr (ga_base_port a + k)) [0..<ga_num_nodes a]"
  have "parse_u16 (after_last_colon (?ips ! k)) = Some (ga_base_port a + i)" if "k < length ?ips" "0 + k = nc_id c" for k
    using that assms by (simp add: generated_node_def after_last_colon_loopback parse_u16_show gen_args_ok_def)
  from put_ips [of 0 ?ips "nc_id c" "ga_base_port a + i" "nc_net_map c", OF _ this] assms(2) obtain m' where
    "rfold (node_put_ip (nc_id c)) ?ips (0, nc_net_map c) = Inr (ga_num_nodes a, m')"
    "\<forall>j. fmlookup m' j = (if j < ga_num_nodes a then Some (if j = nc_id c then any_addr (ga_base_port a + i) else ?ips ! j) else fmlookup (nc_net_map c) j)"
    by auto
  with assms(3) show ?thesis
    by (intro exI [of _ m']) (auto simp: Node_update_config_def updated_map_def table_def generated_node_def)
qed

lemma generated_setup:
  assumes ok: "gen_sys_ok S a" and nc: "0 < ga_num_clients a" and fmt: "out_format (ga_out a) = Some (t, ext)"
    and run: "gen_configs S a fs = Inr (Inr fs')" and n: "ga_num_nodes a < 2 ^ 16" and i: "i < ga_num_nodes a" and "de_node N = de_node S"
    and node: "fmlookup fs2 (node_file a i) = fmlookup fs' (node_file a i)" and opt: "started_on a i ips opt"
    and ips: "fmlookup fs2 ips = Some (text_bytes (ip_text (map (\<lambda>k. loopback_addr (ga_base_port a + k)) [0..<ga_num_nodes a])))"
  shows "if ga_out a = ''yaml'' then node_setup N fs2 opt 0 = Inl (Panic ''Invalid config file extension'')
    else \<exists>su c m. node_setup N fs2 opt 0 = Inr su \<and> su_config su = c\<lparr>nc_net_map := m\<rparr> \<and>
      generated_node S a i c \<and> updated_map a i m"
proof -
  obtain bs c where c: "fmlookup fs' (node_file a i) = Some bs" "de_node S t bs = Some c" "node_validates c = Inr (Inr ())" "generated_node S a i c"
    using genconfig_generates(2) [OF ok nc fmt run i] fmt by (auto simp: node_file_def)
  have args: "gen_args_ok a" by (rule genconfig_generates(1) [OF ok nc fmt run])
  have rd: "read_node_config N fs2 (node_file a i) = (if ga_out a = ''yaml'' then Inl (Panic ''Invalid config file extension'') else Inr c)"
    using read_generated [OF fmt, of fs2 i bs N c] c assms(7) node by simp
  obtain m where m: "Node_update_config (map (\<lambda>k. loopback_addr (ga_base_port a + k)) [0..<ga_num_nodes a]) c = Inr (c\<lparr>nc_net_map := m\<rparr>)" "updated_map a i m"
    using update_generated [OF args n c(4) i] by blast
  have fips: "file_to_ips fs2 ips = Inr (map (\<lambda>k. loopback_addr (ga_base_port a + k)) [0..<ga_num_nodes a])"
    using file_to_ips_text [OF ips] plain_loopback by auto
  have "add_u64 5 (nc_num_nodes c) = Inr (5 + ga_num_nodes a)"
    using c(4) n by (simp add: generated_node_def add_u64_def)
  with opt obtain k where slp: "sleep_time (opt ''sleep'') c = Inr k" by (auto simp: sleep_time_def started_on_def)
  have "c\<lparr>nc_delta := ga_delay a\<rparr> = c" using c(4) by (simp add: generated_node_def)
  with opt have dl: "override_delta (opt ''delta'') c = Inr c" by (auto simp: override_delta_def started_on_def)
  have "\<exists>d. parent (path_of (node_file a i)) = Some d"
    using fmt node_file_extension [of "ga_out a" t "tl ext" "ga_target a" i]
    by (auto simp: node_file_def parent_def extension_def file_name_def out_format_def split: if_splits option.splits list.splits)
  then obtain d where d: "parent (path_of (node_file a i)) = Some d" by blast
  show ?thesis
    using c(3,4) m opt by (auto simp: node_setup_def started_on_def rd dl slp expect_valid_def
        update_from_file_def fips rocksdb_path_def d)
qed

section \<open>Links and keys\<close>

text \<open>Node \<open>i\<close> as the programs see it after the update.\<close>

definition booted_config :: "gen_sys \<Rightarrow> gen_args \<Rightarrow> nat \<Rightarrow> node_config \<Rightarrow> bool" where
  "booted_config S a i config \<longleftrightarrow> (\<exists>c m. config = c\<lparr>nc_net_map := m\<rparr> \<and> generated_node S a i c \<and> updated_map a i m)"

lemma booted_configD:
  assumes "booted_config S a i config"
  shows "nc_id config = i" "nc_num_nodes config = ga_num_nodes a" "nc_num_faults config = ga_num_faults a" "nc_delta config = ga_delay a"
    "nc_block_size config = ga_blocksize a" "nc_crypto_alg config = ga_t a" "nc_client_port config = ga_client_base_port a + i"
    "updated_map a i (nc_net_map config)"
    "table (ga_num_clients a) (\<lambda>k. loopback_addr (ga_client_listen_port a + k)) (nc_client_net_map config)"
    "table (ga_num_nodes a) (\<lambda>k. fst (the (node_keypair S a k))) (nc_pk_map config)"
    "nc_secret_key_bytes config = snd (the (node_keypair S a i))" "nc_payload config = ga_payload a"
  using assms by (auto simp: booted_config_def generated_node_def)

lemma booted_links:
  assumes b: "booted_config S a i config" and args: "gen_args_ok a" and i: "i < ga_num_nodes a" and N: "\<forall>m. consensus_sender N m"
  shows "\<exists>pm. consensus_links N config = Inr (SockV4 [0, 0, 0, 0] (ga_base_port a + i), pm) \<and>
    (\<forall>j. fmlookup pm j = (if j < ga_num_nodes a \<and> j \<noteq> i then Some (SockV4 [127, 0, 0, 1] (ga_base_port a + j)) else None))"
proof -
  note d = booted_configD [OF b]
  have port: "k < ga_num_nodes a \<Longrightarrow> ga_base_port a + k < 2 ^ 16" for k using args by (simp add: gen_args_ok_def)
  have "\<exists>pm. parse_addrs ''invalid peer addr'' (Some i) (nc_net_map config) = Inr pm \<and>
      (\<forall>j. fmlookup pm j = (if j < ga_num_nodes a \<and> Some i \<noteq> Some j then Some (SockV4 [127, 0, 0, 1] (ga_base_port a + j)) else None))"
  proof (rule parse_addrs_table)
    show "fmlookup (nc_net_map config) k =
        (if k < ga_num_nodes a then Some (if k = i then any_addr (ga_base_port a + i) else loopback_addr (ga_base_port a + k)) else None)" for k
      using d(8) by (simp add: updated_map_def table_def)
  qed (use port parse_loopback in auto)
  moreover have "my_ip config = Inr (any_addr (ga_base_port a + i))" using d(1,8) i by (simp add: my_ip_def updated_map_def table_def)
  ultimately show ?thesis using parse_any [OF port [OF i]] N d(1) by (auto simp: consensus_links_def)
qed

lemma booted_intake:
  assumes b: "booted_config S a i config" and args: "gen_args_ok a" and i: "i < ga_num_nodes a"
  shows "client_intake config = Inr (SockV4 [0, 0, 0, 0] (ga_client_base_port a + i))"
proof -
  have "ga_client_base_port a + i < 2 ^ 16" using args i by (simp add: gen_args_ok_def)
  then show ?thesis by (simp add: client_intake_def client_ip_def booted_configD(7) [OF b] parse_any)
qed

lemma booted_client_links:
  assumes b: "booted_config S a i config" and args: "gen_args_ok a" and N: "\<forall>m. client_sender N m"
  shows "\<exists>cm. client_links N config = Inr cm \<and>
    (\<forall>j. fmlookup cm j = (if j < ga_num_clients a then Some (SockV4 [127, 0, 0, 1] (ga_client_listen_port a + j)) else None))"
proof -
  have port: "k < ga_num_clients a \<Longrightarrow> ga_client_listen_port a + k < 2 ^ 16" for k using args by (simp add: gen_args_ok_def)
  have "\<exists>cm. parse_addrs ''invalid client addr'' None (nc_client_net_map config) = Inr cm \<and>
      (\<forall>j. fmlookup cm j = (if j < ga_num_clients a \<and> None \<noteq> Some j then Some (SockV4 [127, 0, 0, 1] (ga_client_listen_port a + j)) else None))"
  proof (rule parse_addrs_table)
    show "fmlookup (nc_client_net_map config) k = (if k < ga_num_clients a then Some (loopback_addr (ga_client_listen_port a + k)) else None)" for k
      using booted_configD(9) [OF b] by (simp add: table_def)
  qed (use port parse_loopback in auto)
  with N show ?thesis by (auto simp: client_links_def)
qed

lemma booted_pks:
  assumes b: "booted_config S a i config"
  shows "set (pk_entries config) = (\<lambda>k. (k, fst (the (node_keypair S a k)))) ` {0..<ga_num_nodes a}" "distinct (map fst (pk_entries config))"
proof -
  have "set (pk_entries config) = {(k, v). k < ga_num_nodes a \<and> v = fst (the (node_keypair S a k))}"
    using booted_configD(10) [OF b] by (auto simp: pk_entries_def sorted_entries_set table_def split: if_splits)
  then show "set (pk_entries config) = (\<lambda>k. (k, fst (the (node_keypair S a k)))) ` {0..<ga_num_nodes a}" by auto
  show "distinct (map fst (pk_entries config))"
    by (simp add: pk_entries_def sorted_list_of_fmap_def comp_def sorted_list_of_fset.rep_eq)
qed

lemma decode_public_key_ok: "alg \<noteq> RSA \<Longrightarrow> decode_public_key E bs = Some pk \<Longrightarrow> decode_public E alg bs = Inr pk"
  by (cases alg) (simp_all add: decode_public_def)

lemma decode_keys_total:
  assumes "\<And>i bs. (i, bs) \<in> set pks \<Longrightarrow> \<exists>pk. decode_public E alg bs = Inr pk"
  shows "\<exists>m. decode_keys E alg me pks = Inr m" "\<exists>m. decode_all_keys E alg pks = Inr m"
  using rfold_total [of "\<lambda>m. True" fmempty pks "\<lambda>(i, bs) m. if i = me then Inr m else rbind (decode_public E alg bs) (\<lambda>pk. Inr (fmupd i pk m))"]
    rfold_total [of "\<lambda>m. True" fmempty pks "\<lambda>(i, bs) m. rbind (decode_public E alg bs) (\<lambda>pk. Inr (fmupd i pk m))"] assms
  by (fastforce simp: decode_keys_def decode_all_keys_def)+

lemma decode_all_keys_entry:
  assumes "decode_all_keys E alg pks = Inr m" and "distinct (map fst pks)" and "(i, bs) \<in> set pks" and "decode_public E alg bs = Inr pk"
  shows "fmlookup m i = Some pk"
proof -
  let ?f = "\<lambda>(i, bs) m. rbind (decode_public E alg bs) (\<lambda>pk. Inr (fmupd i pk m))"
  have keep: "fmlookup m i = fmlookup m0 i" if "rfold ?f xs m0 = Inr m" "i \<notin> fst ` set xs" for xs m0
    using that by (induction xs arbitrary: m0) auto
  have "fmlookup m i = Some pk" if "rfold ?f xs m0 = Inr m" "distinct (map fst xs)" "(i, bs) \<in> set xs" for xs m0
    using that
  proof (induction xs arbitrary: m0)
    case (Cons x xs)
    obtain j b where x: "x = (j, b)" by (cases x)
    show ?case
    proof (cases "j = i")
      case True
      with Cons.prems have "b = bs" "i \<notin> fst ` set xs" by (auto simp: x rev_image_eqI)
      with Cons.prems(1) keep assms(4) True show ?thesis by (auto simp: x)
    qed (use Cons in \<open>auto simp: x\<close>)
  qed simp
  with assms show ?thesis by (simp add: decode_all_keys_def)
qed

lemma booted_keys:
  assumes b: "booted_config S a i config" and args: "gen_args_ok a" and i: "i < ga_num_nodes a" and k: "keys_ok E S a"
  shows "\<exists>sk. decode_secret E (nc_crypto_alg config) (nc_secret_key_bytes config) = Inr sk"
    "\<exists>m. decode_keys E (nc_crypto_alg config) me (pk_entries config) = Inr m"
    "\<exists>m. decode_all_keys E (nc_crypto_alg config) (pk_entries config) = Inr m"
    "config_ok config (pk_entries config)" "distinct cids \<Longrightarrow> sync_config_ok E config (pk_entries config) cids"
proof -
  note d = booted_configD [OF b]
  have rsa: "ga_t a \<noteq> RSA" using args by (simp add: gen_args_ok_def)
  obtain sk pk where key: "decode_keypair E (snd (the (node_keypair S a i))) = Some sk"
      "decode_public_key E (fst (the (node_keypair S a i))) = Some pk" "sign_verifies E sk pk"
    using k i by (auto simp: keys_ok_def)
  have sec: "decode_secret E (nc_crypto_alg config) (nc_secret_key_bytes config) = Inr sk"
    using key rsa d(6,11) by (cases "ga_t a") (simp_all add: decode_secret_def)
  then show "\<exists>sk. decode_secret E (nc_crypto_alg config) (nc_secret_key_bytes config) = Inr sk" by blast
  have pub: "\<exists>pk. decode_public E (nc_crypto_alg config) bs = Inr pk" if "(j, bs) \<in> set (pk_entries config)" for j bs
    using that k rsa by (fastforce simp: booted_pks [OF b] keys_ok_def d(6) intro: decode_public_key_ok)
  show "\<exists>m. decode_keys E (nc_crypto_alg config) me (pk_entries config) = Inr m"
    "\<exists>m. decode_all_keys E (nc_crypto_alg config) (pk_entries config) = Inr m"
    using decode_keys_total [of "pk_entries config" E "nc_crypto_alg config"] pub by blast+
  show ok: "config_ok config (pk_entries config)"
    using args i by (force simp: config_ok_def booted_pks(1) [OF b] d(2) gen_args_ok_def)
  have "\<exists>pk. fmlookup keys i = Some pk \<and> sign_verifies E sk pk" if "decode_all_keys E (nc_crypto_alg config) (pk_entries config) = Inr keys" for keys
    using decode_all_keys_entry [OF that booted_pks(2) [OF b], of i "fst (the (node_keypair S a i))" pk] booted_pks(1) [OF b] i key rsa
    by (auto simp: d(6) decode_public_key_ok)
  with sec ok show "distinct cids \<Longrightarrow> sync_config_ok E config (pk_entries config) cids" by (auto simp: sync_config_ok_def d(1))
qed

section \<open>The programs\<close>

text \<open>The links of node \<open>i\<close>: its own port on every interface, every other node at its loopback address.\<close>

definition linked :: "gen_args \<Rightarrow> nat \<Rightarrow> node_links \<Rightarrow> bool" where
  "linked a i l \<longleftrightarrow>
     ln_listen l = SockV4 [0, 0, 0, 0] (ga_base_port a + i) \<and> ln_intake l = SockV4 [0, 0, 0, 0] (ga_client_base_port a + i) \<and>
     (\<forall>j. fmlookup (ln_peers l) j = (if j < ga_num_nodes a \<and> j \<noteq> i then Some (SockV4 [127, 0, 0, 1] (ga_base_port a + j)) else None))"

lemma keyed_mains_boot:
  assumes su: "node_setup N fs m 0 = Inr su" and b: "booted_config S a i (su_config su)" and args: "gen_args_ok a" and i: "i < ga_num_nodes a"
    and k: "keys_ok E S a" and N: "node_sys_ok S N"
  shows "\<exists>R. apollo_main E N fs m 0 = Inr R \<and> linked a i (kr_links R) \<and> apollo_init E (kr_cx R) \<and> ax_myid (kr_cx R) = i"
    and "1 \<le> ga_num_faults a \<Longrightarrow> ga_payload a * ga_blocksize a < 2 ^ 64 \<Longrightarrow>
      \<exists>R. artemis_main E N fs m 0 = Inr R \<and> linked a i (kr_links R) \<and> artemis_init E (kr_cx R) \<and> rx_myid (kr_cx R) = i"
proof -
  let ?c = "su_config su"
  note d = booted_configD [OF b]
  obtain st where st: "open_store N (su_store_path su) = Some st" using N unfolding node_sys_ok_def by blast
  obtain pm where pm: "consensus_links N ?c = Inr (SockV4 [0, 0, 0, 0] (ga_base_port a + i), pm)"
      "\<forall>j. fmlookup pm j = (if j < ga_num_nodes a \<and> j \<noteq> i then Some (SockV4 [127, 0, 0, 1] (ga_base_port a + j)) else None)"
    using booted_links [OF b args i, of N] N unfolding node_sys_ok_def by blast
  note intake = booted_intake [OF b args i]
  obtain sk keys where keys: "decode_secret E (nc_crypto_alg ?c) (nc_secret_key_bytes ?c) = Inr sk"
      "decode_keys E (nc_crypto_alg ?c) (nc_id ?c) (pk_entries ?c) = Inr keys"
    using booted_keys(1,2) [OF b args i k] by blast
  note ok = booted_keys(4) [OF b args i k]
  let ?km = "KeyedMempool_spawn (Parameters_new (nc_id ?c) 0 (nc_block_size ?c) 50) st"
  obtain cx where cx: "apollo_reactor_start E ?c (pk_entries ?c) (bs_cache (km_sink ?km)) st = Inr cx" "ax_myid cx = i"
    using keys d(1) by (simp add: apollo_reactor_start_def apollo_Context_new_def net_new_def Let_def apollo_notify_def deliver_block_def)
  with ok have "apollo_init E cx" by (auto simp: apollo_init_def)
  with cx su st pm intake show "\<exists>R. apollo_main E N fs m 0 = Inr R \<and> linked a i (kr_links R) \<and> apollo_init E (kr_cx R) \<and> ax_myid (kr_cx R) = i"
    by (simp add: apollo_main_def linked_def Let_def)
  show "\<exists>R. artemis_main E N fs m 0 = Inr R \<and> linked a i (kr_links R) \<and> artemis_init E (kr_cx R) \<and> rx_myid (kr_cx R) = i"
    if f: "1 \<le> ga_num_faults a" and pl: "ga_payload a * ga_blocksize a < 2 ^ 64"
  proof -
    obtain ax where ax: "artemis_reactor_start E ?c (pk_entries ?c) (bs_cache (km_sink ?km)) st = Inr ax" "rx_myid ax = i"
      using keys d(1,3,5,12) f pl
      by (simp add: artemis_reactor_start_def artemis_Context_new_def net_new_def sub_u64_def mul_u64_def Let_def artemis_notify_def
          artemis_deliver_def announce_height_to_batcher_def artemis_GENESIS_BLOCK_def GENESIS_BLOCK_def add_u64_def)
    have "artemis_config_ok ?c (pk_entries ?c)"
      using ok f args by (simp add: artemis_config_ok_def d(2,3) gen_args_ok_def)
    with ax have "artemis_init E ax" by (auto simp: artemis_init_def)
    with ax su st pm intake show ?thesis by (simp add: artemis_main_def linked_def Let_def)
  qed
qed

lemma count_mains_boot:
  assumes su: "node_setup N fs m 0 = Inr su" and b: "booted_config S a i (su_config su)" and args: "gen_args_ok a" and i: "i < ga_num_nodes a"
    and k: "keys_ok E S a" and N: "node_sys_ok S N"
    and bs: "0 < ga_blocksize a" and pl: "ga_payload a * ga_blocksize a < 2 ^ 64" and dl: "2 * ga_delay a < 2 ^ 64"
  shows "\<exists>R. synchs_main E N fs m 0 = Inr R \<and> linked a i (cr_links R) \<and> synchs_init E (cr_cx R) \<and> hx_myid (cr_cx R) = i"
    and "\<exists>R. optsync_main E N fs m 0 = Inr R \<and> linked a i (cr_links R) \<and> optsync_init E (cr_cx R) \<and> hx_myid (cr_cx R) = i"
proof -
  let ?c = "su_config su"
  note d = booted_configD [OF b]
  obtain st where st: "open_store N (su_store_path su) = Some st" using N unfolding node_sys_ok_def by blast
  obtain pm where pm: "consensus_links N ?c = Inr (SockV4 [0, 0, 0, 0] (ga_base_port a + i), pm)"
      "\<forall>j. fmlookup pm j = (if j < ga_num_nodes a \<and> j \<noteq> i then Some (SockV4 [127, 0, 0, 1] (ga_base_port a + j)) else None)"
    using booted_links [OF b args i, of N] N unfolding node_sys_ok_def by blast
  note intake = booted_intake [OF b args i]
  obtain cm where cm: "client_links N ?c = Inr cm" using booted_client_links [OF b args, of N] N unfolding node_sys_ok_def by blast
  obtain sk keys where keys: "decode_secret E (nc_crypto_alg ?c) (nc_secret_key_bytes ?c) = Inr sk"
      "decode_all_keys E (nc_crypto_alg ?c) (pk_entries ?c) = Inr keys"
    using booted_keys(1,3) [OF b args i k] by blast
  have "distinct (client_ids ?c)" by (simp add: client_ids_def key_order_def sorted_list_of_fset.rep_eq)
  note ok = booted_keys(5) [OF b args i k this]
  note sealer = bs [folded d(5)]
  obtain cx where cx: "synchs_reactor_start E ?c (pk_entries ?c) (client_ids ?c) (bs_cache (lm_sink (Mempool_spawn st))) st = Inr cx" "hx_myid cx = i"
    using keys d(1,4,5,12) pl dl
    by (simp add: synchs_reactor_start_def synchs_Context_new_def mul_u64_def Let_def synchs_deliver_def synchs_commit_block_def)
  with ok have "synchs_init E cx" unfolding synchs_init_def by blast
  with cx su st pm intake cm sealer show "\<exists>R. synchs_main E N fs m 0 = Inr R \<and> linked a i (cr_links R) \<and> synchs_init E (cr_cx R) \<and> hx_myid (cr_cx R) = i"
    by (simp add: synchs_main_def linked_def Let_def CountSealer_new_def)
  obtain ox where ox: "optsync_Context_new E ?c (pk_entries ?c) (client_ids ?c) (bs_cache (lm_sink (Mempool_spawn st))) st = Inr ox" "hx_myid ox = i"
    using keys d(1,4,5,12) pl dl
    by (simp add: optsync_Context_new_def mul_u64_def Let_def synchs_deliver_def synchs_commit_block_def)
  with ok have "optsync_init E ox" unfolding optsync_init_def by blast
  with ox su st pm intake cm sealer show "\<exists>R. optsync_main E N fs m 0 = Inr R \<and> linked a i (cr_links R) \<and> optsync_init E (cr_cx R) \<and> hx_myid (cr_cx R) = i"
    by (simp add: optsync_main_def linked_def Let_def CountSealer_new_def)
qed

lemma generated_mains:
  assumes "gen_sys_ok S a" and "0 < ga_num_clients a" and "out_format (ga_out a) = Some (t, ext)" and "ga_out a \<noteq> ''yaml''"
    and "gen_configs S a fs = Inr (Inr fs')" and "ga_num_nodes a < 2 ^ 16" and "i < ga_num_nodes a"
    and "keys_ok E S a" and "node_sys_ok S N" and "1 \<le> ga_num_faults a" and "0 < ga_blocksize a"
    and "ga_payload a * ga_blocksize a < 2 ^ 64" and "2 * ga_delay a < 2 ^ 64"
    and "fmlookup fs2 (node_file a i) = fmlookup fs' (node_file a i)" and "started_on a i ips opt"
    and "fmlookup fs2 ips = Some (text_bytes (ip_text (map (\<lambda>k. loopback_addr (ga_base_port a + k)) [0..<ga_num_nodes a])))"
  shows "(\<exists>R. apollo_main E N fs2 opt 0 = Inr R \<and> linked a i (kr_links R) \<and> apollo_init E (kr_cx R) \<and> ax_myid (kr_cx R) = i) \<and>
    (\<exists>R. artemis_main E N fs2 opt 0 = Inr R \<and> linked a i (kr_links R) \<and> artemis_init E (kr_cx R) \<and> rx_myid (kr_cx R) = i) \<and>
    (\<exists>R. synchs_main E N fs2 opt 0 = Inr R \<and> linked a i (cr_links R) \<and> synchs_init E (cr_cx R) \<and> hx_myid (cr_cx R) = i) \<and>
    (\<exists>R. optsync_main E N fs2 opt 0 = Inr R \<and> linked a i (cr_links R) \<and> optsync_init E (cr_cx R) \<and> hx_myid (cr_cx R) = i)"
proof -
  have args: "gen_args_ok a" by (rule genconfig_generates(1) [OF assms(1,2,3,5)])
  have "de_node N = de_node S" using assms(9) by (simp add: node_sys_ok_def)
  from generated_setup [OF assms(1,2,3,5,6,7) this assms(14,15,16)] assms(4)
  obtain su where su: "node_setup N fs2 opt 0 = Inr su" "booted_config S a i (su_config su)"
    unfolding booted_config_def by auto
  show ?thesis
    using keyed_mains_boot [OF su args assms(7,8,9)] count_mains_boot [OF su args assms(7,8,9,11,12,13)] assms(10,12) by blast
qed

section \<open>Properties\<close>

text \<open>
  C36: A cluster generated as JSON or in binary boots (TOML is never written, and the programs refuse
  the YAML files). When \<open>genconfig\<close> has finished, each of the four node programs, started on node \<open>i\<close>'s file
  with an address file that lists the nodes, comes up: its context is an initial state of its protocol
  with identity \<open>i\<close>, it listens on its own port and is connected to exactly the other nodes. At least one
  fault is tolerated, which Artemis needs, and the sizes do not overflow.
\<close>
theorem generated_cluster_boots:
  assumes "gen_sys_ok S a" and "0 < ga_num_clients a" and "ga_out a \<in> {''json'', ''binary''}"
    and "gen_configs S a fs = Inr (Inr fs')" and "ga_num_nodes a < 2 ^ 16" and "i < ga_num_nodes a"
    and "keys_ok E S a" and "node_sys_ok S N" and "1 \<le> ga_num_faults a" and "0 < ga_blocksize a"
    and "ga_payload a * ga_blocksize a < 2 ^ 64" and "2 * ga_delay a < 2 ^ 64"
    and "fmlookup fs2 (node_file a i) = fmlookup fs' (node_file a i)" and "started_on a i ips opt"
    and "fmlookup fs2 ips = Some (text_bytes (ip_text (map (\<lambda>k. loopback_addr (ga_base_port a + k)) [0..<ga_num_nodes a])))"
  shows "(\<exists>R. apollo_main E N fs2 opt 0 = Inr R \<and> linked a i (kr_links R) \<and> apollo_init E (kr_cx R) \<and> ax_myid (kr_cx R) = i) \<and>
    (\<exists>R. artemis_main E N fs2 opt 0 = Inr R \<and> linked a i (kr_links R) \<and> artemis_init E (kr_cx R) \<and> rx_myid (kr_cx R) = i) \<and>
    (\<exists>R. synchs_main E N fs2 opt 0 = Inr R \<and> linked a i (cr_links R) \<and> synchs_init E (cr_cx R) \<and> hx_myid (cr_cx R) = i) \<and>
    (\<exists>R. optsync_main E N fs2 opt 0 = Inr R \<and> linked a i (cr_links R) \<and> optsync_init E (cr_cx R) \<and> hx_myid (cr_cx R) = i)"
proof -
  obtain t ext where fmt: "out_format (ga_out a) = Some (t, ext)" "ga_out a \<noteq> ''yaml''" using assms(3) by (auto simp: out_format_def)
  show ?thesis by (rule generated_mains [OF assms(1,2) fmt assms(4-)])
qed

text \<open>
  With the output type \<open>yaml\<close> the cluster cannot be started: \<open>genconfig\<close> names the files \<open>.yml\<close>, and
  every node program panics on that extension, since it knows only \<open>.yaml\<close>.
\<close>
theorem yaml_configs_refused:
  assumes "gen_sys_ok S a" and "0 < ga_num_clients a" and "ga_out a = ''yaml''"
    and "gen_configs S a fs = Inr (Inr fs')" and "ga_num_nodes a < 2 ^ 16" and "i < ga_num_nodes a" and "de_node N = de_node S"
    and "fmlookup fs2 (node_file a i) = fmlookup fs' (node_file a i)" and "started_on a i ips opt"
    and "fmlookup fs2 ips = Some (text_bytes (ip_text (map (\<lambda>k. loopback_addr (ga_base_port a + k)) [0..<ga_num_nodes a])))"
  shows "fmmem (node_file a i) fs' \<and>
    apollo_main E N fs2 opt 0 = Inl (Panic ''Invalid config file extension'') \<and>
    artemis_main E N fs2 opt 0 = Inl (Panic ''Invalid config file extension'') \<and>
    synchs_main E N fs2 opt 0 = Inl (Panic ''Invalid config file extension'') \<and>
    optsync_main E N fs2 opt 0 = Inl (Panic ''Invalid config file extension'')"
proof -
  have fmt: "out_format (ga_out a) = Some (YAML, ''.yml'')" using assms(3) by (simp add: out_format_def)
  have "node_setup N fs2 opt 0 = Inl (Panic ''Invalid config file extension'')"
    using generated_setup [OF assms(1,2) fmt assms(4-10)] assms(3) by simp
  moreover have "fmmem (node_file a i) fs'"
    using genconfig_generates(2) [OF assms(1,2) fmt assms(4,6)] by (auto simp: node_file_def fmt fmmem_def)
  ultimately show ?thesis by (simp add: apollo_main_def artemis_main_def synchs_main_def optsync_main_def)
qed

section \<open>Witnesses\<close>

definition node_options :: "gen_args \<Rightarrow> nat \<Rightarrow> string \<Rightarrow> string \<Rightarrow> string option" where
  "node_options a i ips = [''config'' \<mapsto> node_file a i, ''ip'' \<mapsto> ips]"

lemma started_on_options: "started_on a i ips (node_options a i ips)"
  by (simp add: started_on_def node_options_def)

definition sample_node_sys :: node_sys where
  "sample_node_sys =
     \<lparr>can_create = can_create sample_sys, ser_node = ser_node sample_sys, de_node = de_node sample_sys,
      ser_client = ser_client sample_sys, de_client = de_client sample_sys, open_store = (\<lambda>p. Some fmempty),
      consensus_sender = (\<lambda>m. True), client_sender = (\<lambda>m. True)\<rparr>"

lemma sample_node_sys_ok: "node_sys_ok sample_sys sample_node_sys"
  by (simp add: node_sys_ok_def sample_node_sys_def)

lemma sample_keys_ok: "ga_t a = ED25519 \<Longrightarrow> keys_ok sample_ext sample_sys a"
  by (simp add: keys_ok_def node_keypair_def sample_sys_def sign_verifies_def)

text \<open>The address file beside the generated files, under a name that is not one of theirs.\<close>

definition with_ips :: "gen_args \<Rightarrow> files \<Rightarrow> files" where
  "with_ips a fs = fmupd ''ip_file'' (text_bytes (ip_text (map (\<lambda>k. loopback_addr (ga_base_port a + k)) [0..<ga_num_nodes a]))) fs"

lemma sample_generated:
  assumes "ga_out a \<in> {''json'', ''yaml''}" and "a = sample_args\<lparr>ga_out := out\<rparr>"
  obtains fs' where "gen_configs sample_sys a fmempty = Inr (Inr fs')" "fmlookup (with_ips a fs') (node_file a 1) = fmlookup fs' (node_file a 1)"
    "fmlookup (with_ips a fs') ''ip_file'' = Some (text_bytes (ip_text (map (\<lambda>k. loopback_addr (ga_base_port a + k)) [0..<ga_num_nodes a])))"
proof -
  have "gen_args_ok a" "0 < ga_num_clients a" using assms(2) by (simp_all add: gen_args_ok_def sample_args_def)
  moreover have "ga_out a \<noteq> ''toml''" using assms(1) by auto
  ultimately obtain fs' where "gen_configs sample_sys a fmempty = Inr (Inr fs')" using gen_configs_reached(2) [OF sample_sys_ok] by blast
  moreover have "node_file a 1 \<noteq> ''ip_file''" by (simp add: node_file_def assms(2) sample_args_def)
  ultimately show thesis using that by (simp add: with_ips_def)
qed

theorem generated_cluster_boots_witness:
  "\<exists>fs' R1 R2 R3 R4. gen_configs sample_sys sample_args fmempty = Inr (Inr fs') \<and>
     apollo_main sample_ext sample_node_sys (with_ips sample_args fs') (node_options sample_args 1 ''ip_file'') 0 = Inr R1 \<and>
     artemis_main sample_ext sample_node_sys (with_ips sample_args fs') (node_options sample_args 1 ''ip_file'') 0 = Inr R2 \<and>
     synchs_main sample_ext sample_node_sys (with_ips sample_args fs') (node_options sample_args 1 ''ip_file'') 0 = Inr R3 \<and>
     optsync_main sample_ext sample_node_sys (with_ips sample_args fs') (node_options sample_args 1 ''ip_file'') 0 = Inr R4 \<and>
     linked sample_args 1 (kr_links R1) \<and> apollo_init sample_ext (kr_cx R1) \<and> ax_myid (kr_cx R1) = 1 \<and>
     rx_myid (kr_cx R2) = 1 \<and> hx_myid (cr_cx R3) = 1 \<and> hx_myid (cr_cx R4) = 1"
proof -
  obtain fs' where fs': "gen_configs sample_sys sample_args fmempty = Inr (Inr fs')"
    "fmlookup (with_ips sample_args fs') (node_file sample_args 1) = fmlookup fs' (node_file sample_args 1)"
    "fmlookup (with_ips sample_args fs') ''ip_file'' =
       Some (text_bytes (ip_text (map (\<lambda>k. loopback_addr (ga_base_port sample_args + k)) [0..<ga_num_nodes sample_args])))"
    by (rule sample_generated [of sample_args "''json''"]) (simp_all add: sample_args_def)
  have "keys_ok sample_ext sample_sys sample_args" by (rule sample_keys_ok) (simp add: sample_args_def)
  moreover have "0 < ga_num_clients sample_args" "ga_out sample_args \<in> {''json'', ''binary''}" "ga_num_nodes sample_args < 2 ^ 16"
      "1 < ga_num_nodes sample_args" "1 \<le> ga_num_faults sample_args" "0 < ga_blocksize sample_args"
      "ga_payload sample_args * ga_blocksize sample_args < 2 ^ 64" "2 * ga_delay sample_args < 2 ^ 64"
    by (simp_all add: sample_args_def)
  ultimately show ?thesis
    using generated_cluster_boots [OF sample_sys_ok _ _ fs'(1) _ _ _ sample_node_sys_ok _ _ _ _ fs'(2) started_on_options fs'(3)] fs'(1) by blast
qed

theorem yaml_configs_refused_witness:
  "\<exists>fs'. gen_configs sample_sys (sample_args\<lparr>ga_out := ''yaml''\<rparr>) fmempty = Inr (Inr fs') \<and>
     optsync_main sample_ext sample_node_sys (with_ips sample_args fs') (node_options (sample_args\<lparr>ga_out := ''yaml''\<rparr>) 1 ''ip_file'') 0 =
       Inl (Panic ''Invalid config file extension'')"
proof -
  let ?a = "sample_args\<lparr>ga_out := ''yaml''\<rparr>"
  obtain fs' where fs': "gen_configs sample_sys ?a fmempty = Inr (Inr fs')"
    "fmlookup (with_ips ?a fs') (node_file ?a 1) = fmlookup fs' (node_file ?a 1)"
    "fmlookup (with_ips ?a fs') ''ip_file'' = Some (text_bytes (ip_text (map (\<lambda>k. loopback_addr (ga_base_port ?a + k)) [0..<ga_num_nodes ?a])))"
    by (rule sample_generated [of ?a "''yaml''"]) (simp_all add: sample_args_def)
  have "de_node sample_node_sys = de_node sample_sys" by (simp add: sample_node_sys_def)
  from yaml_configs_refused [OF sample_sys_ok _ _ fs'(1) _ _ this fs'(2) started_on_options fs'(3)] fs'(1)
  show ?thesis by (simp add: sample_args_def with_ips_def)
qed

end
