(* ===== verification/Client_Laws.thy ===== *)
theory Client_Laws
  imports Client_Programs Bootstrap
begin

text \<open>
  The client programs on the files that \<open>genconfig\<close> wrote: they come up with a connection to every node
  at the address where its client intake listens, and listen themselves where the nodes send. Also how
  many transactions a burst has, and what the statistics are.
\<close>

section \<open>Reading the configuration\<close>

definition client_file :: "gen_args \<Rightarrow> nat \<Rightarrow> string" where
  "client_file a j = ga_target a @ ''/client-'' @ show_nat j @ snd (the (out_format (ga_out a)))"

text \<open>The command line of a client: configuration, address file, and possibly the two numbers.\<close>

definition client_started_on :: "gen_args \<Rightarrow> nat \<Rightarrow> string \<Rightarrow> (string \<Rightarrow> string option) \<Rightarrow> bool" where
  "client_started_on a j ips opt \<longleftrightarrow>
     opt ''config'' = Some (client_file a j) \<and> opt ''ip'' = Some ips \<and>
     opt ''rate'' = None \<and> opt ''burst_interval_ms'' = None \<and> opt ''txs_per_burst'' = None \<and>
     (\<forall>v\<in>{''metrics'', ''window''}. opt v = None \<or> (\<exists>k<2 ^ 64. opt v = Some (show_nat k)))"

lemma client_file_extension:
  assumes "out_format out = Some (t, CHR ''.'' # e)"
  shows "extension (path_of (dir @ ''/client-'' @ show_nat i @ CHR ''.'' # e)) = Some e"
proof -
  have "e \<in> {''json'', ''dat'', ''toml'', ''yml''}" using assms by (auto simp: out_format_def split: if_splits)
  moreover have "CHR ''/'' \<notin> set (show_nat i)" using show_nat_digits [of "CHR ''/''" i] by (auto simp: digit_of_def)
  ultimately show ?thesis using extension_join [of "''client-'' @ show_nat i" e dir] by auto
qed

lemma read_generated_client:
  assumes fmt: "out_format (ga_out a) = Some (t, ext)" "ga_out a \<noteq> ''yaml''"
    and de: "fmlookup fs (client_file a j) = Some bs" "de_client N t bs = Some c"
  shows "read_client_config N fs (client_file a j) = Inr c"
proof -
  obtain e where e: "ext = CHR ''.'' # e" using fmt by (auto simp: out_format_def split: if_splits)
  have "extension (path_of (client_file a j)) = Some e"
    using client_file_extension [of "ga_out a" t e "ga_target a" j] fmt by (simp add: client_file_def e)
  with fmt de show ?thesis by (auto simp: read_client_config_def read_defs e out_format_def split: if_splits)
qed

lemma client_put_ips:
  "idx + length ips < 2 ^ 16 \<Longrightarrow> \<exists>m'. rfold client_put_ip ips (idx, m) = Inr (idx + length ips, m') \<and>
    (\<forall>i. fmlookup m' i = (if idx \<le> i \<and> i < idx + length ips then Some (ips ! (i - idx)) else fmlookup m i))"
proof (induction ips arbitrary: idx m)
  case (Cons ip ips)
  obtain m' where m': "rfold client_put_ip ips (Suc idx, fmupd idx ip m) = Inr (Suc idx + length ips, m')"
      "\<forall>i. fmlookup m' i = (if Suc idx \<le> i \<and> i < Suc idx + length ips then Some (ips ! (i - Suc idx)) else fmlookup (fmupd idx ip m) i)"
    using Cons.IH [of "Suc idx" "fmupd idx ip m"] Cons.prems by auto
  have "i - idx = Suc (i - Suc idx)" if "Suc idx \<le> i" for i using that by simp
  moreover have "client_put_ip ip (idx, m) = Inr (Suc idx, fmupd idx ip m)" using Cons.prems by (simp add: client_put_ip_def add_u16_def)
  ultimately show ?case using m' by (intro exI [of _ m']) auto
qed auto

definition addr_file :: "nat \<Rightarrow> nat \<Rightarrow> bytes" where
  "addr_file base n = text_bytes (ip_text (map (\<lambda>k. loopback_addr (base + k)) [0..<n]))"

text \<open>Where a client sends to and where it listens.\<close>

definition reaches :: "gen_args \<Rightarrow> nat \<Rightarrow> (replica, sock_addr) fmap \<Rightarrow> sock_addr \<Rightarrow> bool" where
  "reaches a j servers listen \<longleftrightarrow>
     listen = SockV4 [127, 0, 0, 1] (ga_client_listen_port a + j) \<and>
     (\<forall>i. fmlookup servers i = (if i < ga_num_nodes a then Some (SockV4 [127, 0, 0, 1] (ga_client_base_port a + i)) else None))"

lemma generated_client_setup:
  assumes ok: "gen_sys_ok S a" and nc: "0 < ga_num_clients a" and fmt: "out_format (ga_out a) = Some (t, ext)" "ga_out a \<noteq> ''yaml''"
    and run: "gen_configs S a fs = Inr (Inr fs')" and n: "ga_num_nodes a < 2 ^ 16" and j: "j < ga_num_clients a" and de: "de_client N = de_client S"
    and cfile: "fmlookup fs2 (client_file a j) = fmlookup fs' (client_file a j)" and opt: "client_started_on a j ips opt"
    and ips: "fmlookup fs2 ips = Some (addr_file (ga_client_base_port a) (ga_num_nodes a))"
  shows "\<exists>c servers listen. client_setup N fs2 opt = Inr c \<and> parse_addrs ''invalid server addr'' None (cc_net_map c) = Inr servers \<and>
    parse_socket_addr (cc_my_listen_addr c) = Some listen \<and> reaches a j servers listen"
proof -
  obtain bs c where c: "fmlookup fs' (client_file a j) = Some bs" "de_client S t bs = Some c" "client_validates c = Inr (Inr ())" "generated_client S a j c"
    using genconfig_generates(3) [OF ok nc fmt(1) run j] fmt by (auto simp: client_file_def)
  have args: "gen_args_ok a" by (rule genconfig_generates(1) [OF ok nc fmt(1) run])
  let ?ips = "map (\<lambda>k. loopback_addr (ga_client_base_port a + k)) [0..<ga_num_nodes a]"
  have rd: "read_client_config N fs2 (client_file a j) = Inr c"
    using read_generated_client [OF fmt, of fs2 j bs N c] c de cfile by simp
  have fips: "file_to_ips fs2 ips = Inr ?ips"
    using file_to_ips_text [OF ips [unfolded addr_file_def]] plain_loopback by auto
  obtain m where m: "rfold client_put_ip ?ips (0, cc_net_map c) = Inr (ga_num_nodes a, m)"
      "\<forall>i. fmlookup m i = (if i < ga_num_nodes a then Some (loopback_addr (ga_client_base_port a + i)) else fmlookup (cc_net_map c) i)"
    using client_put_ips [of 0 ?ips "cc_net_map c"] n by auto
  have su: "client_setup N fs2 opt = Inr (c\<lparr>cc_net_map := m\<rparr>)"
    using opt c(3) m(1) by (simp add: client_setup_def client_started_on_def rd expect_valid_def fips Client_update_config_def)
  have port: "k < ga_num_nodes a \<Longrightarrow> ga_client_base_port a + k < 2 ^ 16" "ga_client_listen_port a + j < 2 ^ 16" for k
    using args j by (simp_all add: gen_args_ok_def)
  have "\<exists>servers. parse_addrs ''invalid server addr'' None m = Inr servers \<and>
      (\<forall>i. fmlookup servers i = (if i < ga_num_nodes a \<and> None \<noteq> Some i then Some (SockV4 [127, 0, 0, 1] (ga_client_base_port a + i)) else None))"
  proof (rule parse_addrs_table)
    show "fmlookup m k = (if k < ga_num_nodes a then Some (loopback_addr (ga_client_base_port a + k)) else None)" for k
      using m(2) c(4) by (simp add: generated_client_def table_def)
  qed (use port(1) parse_loopback in auto)
  moreover have "parse_socket_addr (cc_my_listen_addr c) = Some (SockV4 [127, 0, 0, 1] (ga_client_listen_port a + j))"
    using c(4) parse_loopback [OF port(2)] by (simp add: generated_client_def)
  ultimately show ?thesis using su by (auto simp: reaches_def)
qed

section \<open>The programs\<close>

lemma uint_or_given: "v = None \<or> (\<exists>k<2 ^ 64. v = Some (show_nat k)) \<Longrightarrow> d = show_nat k0 \<Longrightarrow> k0 < 2 ^ 64 \<Longrightarrow> \<exists>k. uint_or 64 d v = Inr k"
  by (auto simp: uint_or_def or_default_def)

lemma show_nat_ten: "0 < n \<Longrightarrow> show_nat (10 * n) = show_nat n @ ''0''"
proof -
  have "digit_char 0 = CHR ''0''" by code_simp
  then show "0 < n \<Longrightarrow> show_nat (10 * n) = show_nat n @ ''0''" by (simp add: show_nat.simps [of "10 * n"])
qed

lemma uint_or_defaults:
  "v = None \<or> (\<exists>k<2 ^ 64. v = Some (show_nat k)) \<Longrightarrow> \<exists>k. uint_or 64 ''500000'' v = Inr k"
  "v = None \<or> (\<exists>k<2 ^ 64. v = Some (show_nat k)) \<Longrightarrow> \<exists>k. uint_or 64 ''1000'' v = Inr k"
  "uint_or 64 ''0'' None = Inr 0" "uint_or 64 ''100'' None = Inr 100"
proof -
  have small: "show_nat 0 = ''0''" "show_nat 100 = ''100''" "show_nat 50 = ''50''" by code_simp+
  then have "show_nat 500000 = ''500000''" "show_nat 1000 = ''1000''" "show_nat 0 = ''0''" "show_nat 100 = ''100''"
    using show_nat_ten [of 100] show_nat_ten [of 50] show_nat_ten [of 500] show_nat_ten [of 5000] show_nat_ten [of 50000] by simp_all
  note shown = this
  show "\<exists>k. uint_or 64 ''500000'' v = Inr k" if "v = None \<or> (\<exists>k<2 ^ 64. v = Some (show_nat k))"
    by (rule uint_or_given [OF that shown(1) [symmetric]]) simp
  show "\<exists>k. uint_or 64 ''1000'' v = Inr k" if "v = None \<or> (\<exists>k<2 ^ 64. v = Some (show_nat k))"
    by (rule uint_or_given [OF that shown(2) [symmetric]]) simp
  show "uint_or 64 ''0'' None = Inr 0" "uint_or 64 ''100'' None = Inr 100"
    using parse_uint_show [of 0 64] parse_uint_show [of 100 64] by (simp_all add: uint_or_def or_default_def shown)
qed

lemma clients_launch:
  assumes su: "client_setup N fs opt = Inr c" and addrs: "parse_addrs ''invalid server addr'' None (cc_net_map c) = Inr servers"
      "parse_socket_addr (cc_my_listen_addr c) = Some listen" and r: "reaches a j servers listen" and opt: "client_started_on a j ips opt"
  shows "\<exists>R. keyed_client_main N fs opt = Inr R \<and> reaches a j (kr_servers R) (kr_reply_to R) \<and> kr_client R = keyed_client_start \<and> 0 < kr_txs_per_burst R"
    "\<exists>R. normal_client_main N fs opt = Inr R \<and> reaches a j (kr_servers R) (kr_reply_to R) \<and> kr_client R = keyed_client_start \<and> 0 < kr_txs_per_burst R"
    "\<exists>R w. sync_client_main N fs opt = Inr R \<and> reaches a j (sr_servers R) (sr_listen R) \<and> sr_client R = sync_client_start w"
proof -
  have given: "opt ''metrics'' = None \<or> (\<exists>k<2 ^ 64. opt ''metrics'' = Some (show_nat k))"
      "opt ''window'' = None \<or> (\<exists>k<2 ^ 64. opt ''window'' = Some (show_nat k))"
      "opt ''rate'' = None" "opt ''burst_interval_ms'' = None" "opt ''txs_per_burst'' = None"
    using opt by (simp_all add: client_started_on_def)
  obtain ms ws where o: "uint_or 64 ''500000'' (opt ''metrics'') = Inr ms" "uint_or 64 ''1000'' (opt ''window'') = Inr ws"
    using uint_or_defaults(1) [OF given(1)] uint_or_defaults(2) [OF given(2)] by blast
  note simps = su addrs o given(3-5) uint_or_defaults(3,4) keyed_client_launch_def txs_per_burst_of_def
  show "\<exists>R. keyed_client_main N fs opt = Inr R \<and> reaches a j (kr_servers R) (kr_reply_to R) \<and> kr_client R = keyed_client_start \<and> 0 < kr_txs_per_burst R"
    using r by (simp add: keyed_client_main_def simps)
  show "\<exists>R. normal_client_main N fs opt = Inr R \<and> reaches a j (kr_servers R) (kr_reply_to R) \<and> kr_client R = keyed_client_start \<and> 0 < kr_txs_per_burst R"
    using r by (simp add: normal_client_main_def normal_client_start_def simps)
  show "\<exists>R w. sync_client_main N fs opt = Inr R \<and> reaches a j (sr_servers R) (sr_listen R) \<and> sr_client R = sync_client_start w"
    using r by (simp add: sync_client_main_def sync_client_launch_def simps) blast
qed

section \<open>Bursts and statistics\<close>

text \<open>
  With a rate, a burst has the transactions of one interval, rounded down but at least one; the only
  failure is a product that does not fit.
\<close>

lemma txs_per_burst_rate:
  assumes "0 < rate"
  shows "txs_per_burst_of m rate ms = (if rate * ms < 2 ^ 64 then Inr (max (rate * ms div 1000) 1) else Inl Overflow)"
  using assms by (simp add: txs_per_burst_of_def mul_u64_def)

text \<open>The statistics: the number of entries and the sum of their durations, unless one ends before it begins.\<close>

lemma latency_fold:
  assumes "\<forall>e\<in>set entries. fst (snd e) \<le> snd (snd e)" and "idx + length entries < 2 ^ 64"
    and "tot + sum_list (map (\<lambda>(_, t0, t1). t1 - t0) entries) < 2 ^ 128"
  shows "rfold latency_step entries (idx, tot) = Inr (idx + length entries, tot + sum_list (map (\<lambda>(_, t0, t1). t1 - t0) entries))"
  using assms
proof (induction entries arbitrary: idx tot)
  case (Cons e entries)
  obtain h t0 t1 where e: "e = (h, t0, t1)" by (cases e) auto
  have "latency_step e (idx, tot) = Inr (Suc idx, tot + (t1 - t0))"
    using Cons.prems by (simp add: e latency_step_def duration_since_def add_u64_def add_u128_def)
  with Cons.IH [of "Suc idx" "tot + (t1 - t0)"] Cons.prems show ?case by (simp add: e)
qed simp

lemma latency_backwards:
  assumes "rfold latency_step entries s = Inr s'" and "(h, t0, t1) \<in> set entries"
  shows "t0 \<le> t1"
  using assms
proof (induction entries arbitrary: s)
  case (Cons e entries)
  then show ?case by (cases s; cases e) (auto simp: latency_step_def duration_since_def split: if_splits)
qed simp

end
