(* ===== verification/Stress_Laws.thy ===== *)
theory Stress_Laws
  imports Command_Line Client_Laws
begin

text \<open>
  What the stress test promises: its ports stay in range and no two processes of any two runs share
  one; the cluster it starts comes up, from its command lines over \<open>genconfig\<close> to the initial states of
  the nodes; and which child processes a run leaves behind.
\<close>

section \<open>Actions\<close>

lemma abind_simps [simp]:
  "m w = Inr (Inr x, w') \<Longrightarrow> abind m f w = f x w'" "m w = Inr (Inl e, w') \<Longrightarrow> abind m f w = Inr (Inl e, w')"
  by (simp_all add: abind_def)

lemma act_simps [simp]:
  "aret x w = Inr (Inr x, w)" "afail e w = Inr (Inl e, w)" "alift (Inr y) w = Inr (Inr y, w)" "aensure e True w = Inr (Inr (), w)"
  "aensure e False w = Inr (Inl e, w)"
  by (simp_all add: aret_def afail_def alift_def aensure_def)

lemma abind_cases:
  assumes "abind m f w = Inr (r, w')"
  obtains (err) e where "m w = Inr (Inl e, w')" "r = Inl e" | (ok) x w1 where "m w = Inr (Inr x, w1)" "f x w1 = Inr (r, w')"
  using assms by (auto simp: abind_def split: sum.splits prod.splits)

lemma write_file_ok [simp]:
  "be_create B p \<Longrightarrow> write_file B p t w = Inr (Inr (), w\<lparr>bw_files := fmupd p (text_bytes t) (bw_files w)\<rparr>)"
  by (simp add: write_file_def aensure_def)

lemma spawn_child_ok [simp]: "be_spawn B c \<Longrightarrow> spawn_child B c w = Inr (Inr (), w\<lparr>bw_running := bw_running w @ [c]\<rparr>)"
  by (simp add: spawn_child_def aensure_def)

section \<open>Ports\<close>

lemma alloc_ports_eq:
  "h_run_idx h \<le> 147 \<Longrightarrow> alloc_ports h =
     (let base = 21000 + 300 * h_run_idx h in Inr ((base, base + 100, base + 200, base + 275), h\<lparr>h_run_idx := Suc (h_run_idx h)\<rparr>))"
  by (simp add: alloc_ports_def mul_u16_def add_u16_def Let_def mult.commute)

lemma alloc_ports_iff: "(\<exists>r. alloc_ports h = Inr r) \<longleftrightarrow> h_run_idx h \<le> 147"
  by (auto simp: alloc_ports_eq Let_def) (auto simp: alloc_ports_def mul_u16_def add_u16_def split: if_splits)

text \<open>The ports of a run's processes: nodes among themselves, nodes for clients, mempools, clients.\<close>

definition run_ports :: "bench_config \<Rightarrow> nat \<times> nat \<times> nat \<times> nat \<Rightarrow> nat list" where
  "run_ports cfg = (\<lambda>(base, cli_base, mempool_base, client_listen).
     map ((+) base) [0..<bc_num_nodes cfg] @ map ((+) cli_base) [0..<bc_num_nodes cfg] @
     map ((+) mempool_base) [0..<bc_num_nodes cfg] @ map ((+) client_listen) [0..<bc_num_clients cfg])"

fun matrix_ports :: "bench_config list \<Rightarrow> harness \<Rightarrow> nat list res" where
  "matrix_ports [] h = Inr []"
| "matrix_ports (cfg # cfgs) h =
     rbind (alloc_ports h) (\<lambda>(ports, h). rbind (matrix_ports cfgs h) (\<lambda>ps. Inr (run_ports cfg ports @ ps)))"

definition run_fits :: "bench_config \<Rightarrow> bool" where
  "run_fits cfg \<longleftrightarrow> bc_num_nodes cfg \<le> 75 \<and> bc_num_clients cfg \<le> 25"

lemma run_ports_block:
  assumes "run_fits cfg" and "p \<in> set (run_ports cfg (base, base + 100, base + 200, base + 275))"
  shows "base \<le> p \<and> p < base + 300"
  using assms by (auto simp: run_fits_def run_ports_def)

lemma run_ports_distinct: "run_fits cfg \<Longrightarrow> distinct (run_ports cfg (base, base + 100, base + 200, base + 275))"
  by (auto simp: run_fits_def run_ports_def distinct_map inj_on_def)

lemma matrix_ports_blocks:
  assumes "h_run_idx h + length cfgs \<le> 148" and "\<And>cfg. cfg \<in> set cfgs \<Longrightarrow> run_fits cfg"
  shows "\<exists>ps. matrix_ports cfgs h = Inr ps \<and> distinct ps \<and>
    (\<forall>p\<in>set ps. 21000 + 300 * h_run_idx h \<le> p \<and> p < 21000 + 300 * (h_run_idx h + length cfgs))"
  using assms
proof (induction cfgs arbitrary: h)
  case (Cons cfg cfgs)
  let ?base = "21000 + 300 * h_run_idx h"
  let ?ports = "(?base, ?base + 100, ?base + 200, ?base + 275)"
  have alloc: "alloc_ports h = Inr (?ports, h\<lparr>h_run_idx := Suc (h_run_idx h)\<rparr>)"
    using Cons.prems(1) by (simp add: alloc_ports_eq Let_def)
  obtain ps where ps: "matrix_ports cfgs (h\<lparr>h_run_idx := Suc (h_run_idx h)\<rparr>) = Inr ps" "distinct ps"
      "\<forall>p\<in>set ps. ?base + 300 \<le> p \<and> p < ?base + 300 * Suc (length cfgs)"
    using Cons.IH [of "h\<lparr>h_run_idx := Suc (h_run_idx h)\<rparr>"] Cons.prems by auto
  have fits: "run_fits cfg" using Cons.prems(2) by simp
  note blk = run_ports_block [OF fits, of _ ?base]
  have "set (run_ports cfg ?ports) \<inter> set ps = {}" using blk ps(3) by fastforce
  moreover have "?base \<le> p \<and> p < ?base + 300 * Suc (length cfgs)" if "p \<in> set (run_ports cfg ?ports) \<union> set ps" for p
    using that blk [of p] ps(3) by auto
  ultimately show ?case
    using alloc ps run_ports_distinct [OF fits, of ?base] by (intro exI [of _ "run_ports cfg ?ports @ ps"]) auto
qed simp

lemma matrix_ports_total: "h_run_idx h + length cfgs \<le> 148 \<Longrightarrow> \<exists>ps. matrix_ports cfgs h = Inr ps"
proof (induction cfgs arbitrary: h)
  case (Cons cfg cfgs)
  from Cons.IH [of "h\<lparr>h_run_idx := Suc (h_run_idx h)\<rparr>"] Cons.prems show ?case by (auto simp: alloc_ports_eq Let_def)
qed simp

lemma build_matrix_length: "length (build_matrix B) \<le> 8"
  by (simp add: build_matrix_def Let_def)

lemma build_matrix_shape:
  assumes "cfg \<in> set (build_matrix B)"
  shows "bc_num_nodes cfg = 3 \<and> bc_num_faults cfg = 1 \<or> bc_num_nodes cfg = 7 \<and> bc_num_faults cfg = 3"
    "bc_num_clients cfg = max (or_default 1 (Option.bind (be_var B ''NUM_CLIENTS'') (parse_uint 16))) 1"
    "bc_block_size cfg = 400" "bc_payload cfg = 0" "bc_total_txs cfg = 50000" "bc_window cfg = 10000"
  using assms by (auto simp: build_matrix_def Let_def)

definition num_clients_of :: "bench_sys \<Rightarrow> nat" where
  "num_clients_of B = max (or_default 1 (Option.bind (be_var B ''NUM_CLIENTS'') (parse_uint 16))) 1"

lemma build_matrix_two: "\<exists>c d cs. build_matrix B = c # d # cs"
  by (auto simp: build_matrix_def Let_def)

lemma matrix_ports_overlap:
  assumes "build_matrix B = c # d # cs" and "h_run_idx h = 0" and "25 < num_clients_of B" and "matrix_ports (build_matrix B) h = Inr ps"
  shows "\<not> distinct ps"
proof -
  have c: "25 < bc_num_clients c" "0 < bc_num_nodes d"
    using build_matrix_shape [of c B] build_matrix_shape [of d B] assms(1,3) by (auto simp: num_clients_of_def)
  have "alloc_ports h = Inr ((21000, 21100, 21200, 21275), h\<lparr>h_run_idx := 1\<rparr>)"
    "alloc_ports (h\<lparr>h_run_idx := 1\<rparr>) = Inr ((21300, 21400, 21500, 21575), h\<lparr>h_run_idx := 2\<rparr>)"
    using assms(2) by (simp_all add: alloc_ports_eq Let_def)
  with assms(1,4) obtain qs where ps: "ps = run_ports c (21000, 21100, 21200, 21275) @ run_ports d (21300, 21400, 21500, 21575) @ qs"
    by auto
  have "21300 \<in> (+) 21275 ` {0..<bc_num_clients c}" using c(1) by (intro image_eqI [of _ _ 25]) auto
  moreover have "21300 \<in> (+) 21300 ` {0..<bc_num_nodes d}" using c(2) by (intro image_eqI [of _ _ 0]) auto
  ultimately have "21300 \<in> set (run_ports c (21000, 21100, 21200, 21275)) \<inter> set (run_ports d (21300, 21400, 21500, 21575))"
    by (simp add: run_ports_def)
  then show ?thesis unfolding ps distinct_append by auto
qed

section \<open>Children\<close>

lemma mset_kill [simp]: "c \<in> set (bw_running w) \<Longrightarrow> mset (bw_running (kill_child c w)) = mset (bw_running w) - {#c#}"
  by (simp add: kill_child_def)

lemma kill_children:
  "mset (bw_running w) = M + mset (map g is) \<Longrightarrow> mset (bw_running (foldl (\<lambda>w i. kill_child (g i) w) w is)) = M"
proof (induction "is" arbitrary: w)
  case (Cons i "is")
  have "g i \<in># mset (bw_running w)" using Cons.prems by simp
  then have "mset (bw_running (kill_child (g i) w)) = mset (bw_running w) - {#g i#}" by simp
  with Cons show ?case by simp
qed simp

text \<open>A client that could be started and logged has been killed at the end, whatever it printed.\<close>

lemma client_leaves_nothing:
  assumes "\<And>p. be_create B p" and "spawn_one_client_and_parse B F root dir cfg j w = Inr (r, w')"
  shows "mset (bw_running w') = mset (bw_running w)"
  using assms by (cases "be_spawn B (client_command root dir cfg j)")
    (auto simp: spawn_one_client_and_parse_def Let_def abind_def spawn_child_def aensure_def kill_child_def
      split: prod.splits if_splits option.splits)

lemma clients_leave_nothing:
  fixes F :: "'f f64_ops"
  assumes "\<And>p. be_create B p" and "spawn_clients_and_aggregate B F root dir cfg w = Inr (r, w')"
  shows "mset (bw_running w') = mset (bw_running w)"
proof -
  let ?f = "\<lambda>j (ts :: (string + string + 'f option \<times> 'f) list, w). rbind (spawn_one_client_and_parse B F root dir cfg j w) (\<lambda>(r, w). Inr (ts @ [Inr r], w))"
  from assms(2) obtain ts w1 where *: "rfold ?f [0..<bc_num_clients cfg] ([], w) = Inr (ts, w1)" "w' = w1"
    by (auto simp: spawn_clients_and_aggregate_def split: option.splits prod.splits)
  have "mset (bw_running (snd s')) = mset (bw_running (snd s))" if "rfold ?f js s = Inr s'" for js s s'
    using that by (induction js arbitrary: s) (auto split: prod.splits dest!: client_leaves_nothing [OF assms(1)])
  from this [OF *(1)] *(2) show ?thesis by simp
qed

lemma upt_eq_append_parts:
  assumes "[0..<n] = js @ rest" and "rest \<noteq> []"
  shows "js = [0..<length js] \<and> length js < n \<and> hd rest = length js"
proof -
  have len: "length js < n" using arg_cong [OF assms(1), of length] assms(2) by (cases rest) auto
  have "js = take (length js) [0..<n]" "rest = drop (length js) [0..<n]" using assms(1) by simp_all
  with len show ?thesis by (metis add.left_neutral drop_upt hd_upt less_imp_le_nat take_upt)
qed

text \<open>Starting nodes stops at the first that the system refuses; the ones before it are running.\<close>

lemma spawn_nodes_run:
  assumes "\<And>p. be_create B p" and "spawn_nodes B root dir cfg secs is w = Inr (r, w')"
  shows "\<exists>js rest. is = js @ rest \<and> bw_running w' = bw_running w @ map (\<lambda>i. node_command root dir cfg i secs) js \<and>
    (case r of Inr _ \<Rightarrow> rest = [] | Inl _ \<Rightarrow> rest \<noteq> [] \<and> \<not> be_spawn B (node_command root dir cfg (hd rest) secs))"
  using assms(2)
proof (induction "is" arbitrary: w)
  case Nil
  then show ?case by (auto simp: spawn_nodes_def)
next
  case (Cons i "is")
  let ?c = "node_command root dir cfg i secs"
  let ?w = "w\<lparr>bw_files := fmupd (join_text dir (''node-'' @ show_nat i @ ''.log'')) (text_bytes []) (bw_files w)\<rparr>"
  show ?case
  proof (cases "be_spawn B ?c")
    case True
    with assms(1) have "spawn_node B root dir cfg i secs w = Inr (Inr (), ?w\<lparr>bw_running := bw_running w @ [?c]\<rparr>)"
      by (simp add: spawn_node_def)
    with Cons.prems have "spawn_nodes B root dir cfg secs is (?w\<lparr>bw_running := bw_running w @ [?c]\<rparr>) = Inr (r, w')"
      by (simp add: spawn_nodes_def)
    from Cons.IH [OF this] obtain js rest where "is = js @ rest"
        "bw_running w' = (bw_running w @ [?c]) @ map (\<lambda>i. node_command root dir cfg i secs) js"
        "case r of Inr _ \<Rightarrow> rest = [] | Inl _ \<Rightarrow> rest \<noteq> [] \<and> \<not> be_spawn B (node_command root dir cfg (hd rest) secs)"
      by auto
    then show ?thesis by (intro exI [of _ "i # js"] exI [of _ rest]) simp
  next
    case False
    with assms(1) have "spawn_node B root dir cfg i secs w = Inr (Inl ''io error'', ?w)"
      by (simp add: spawn_node_def spawn_child_def abind_def aensure_def)
    with Cons.prems have "r = Inl ''io error''" "w' = ?w" by (auto simp: spawn_nodes_def)
    with False show ?thesis by (intro exI [of _ "[]"] exI [of _ "i # is"]) simp
  qed
qed

lemma prepare_running:
  "fresh_dir B dir w = Inr (r, w') \<Longrightarrow> bw_running w' = bw_running w"
  "genconfig B root dir cfg p1 p2 p3 p4 w = Inr (r', w') \<Longrightarrow> bw_running w' = bw_running w"
  "write_ip_files B dir n p1 p2 w = Inr (r'', w') \<Longrightarrow> bw_running w' = bw_running w"
  by (auto simp: fresh_dir_def genconfig_def write_ip_files_def write_file_def Let_def aensure_def alift_def
      split: if_splits sum.splits prod.splits elim!: abind_cases)

lemma start_cluster_running:
  assumes "\<And>p. be_create B p" and "start_cluster B h cfg ports w = Inr (r, w')"
  shows "\<exists>dir secs k. bw_running w' = bw_running w @ map (\<lambda>i. node_command (h_repo_root h) dir cfg i secs) [0..<k] \<and>
    (case r of Inr (dir', secs') \<Rightarrow> dir' = dir \<and> secs' = secs \<and> k = bc_num_nodes cfg
     | Inl _ \<Rightarrow> k = 0 \<or> k < bc_num_nodes cfg \<and> \<not> be_spawn B (node_command (h_repo_root h) dir cfg k secs))"
proof -
  obtain p1 p2 p3 p4 where ports: "ports = (p1, p2, p3, p4)" by (cases ports) auto
  let ?dir = "run_dir h cfg p1"
  let ?goal = "\<lambda>dir secs k. bw_running w' = bw_running w @ map (\<lambda>i. node_command (h_repo_root h) dir cfg i secs) [0..<k] \<and>
    (case r of Inr (dir', secs') \<Rightarrow> dir' = dir \<and> secs' = secs \<and> k = bc_num_nodes cfg
     | Inl _ \<Rightarrow> k = 0 \<or> k < bc_num_nodes cfg \<and> \<not> be_spawn B (node_command (h_repo_root h) dir cfg k secs))"
  have early: "\<exists>dir secs k. ?goal dir secs k" if "bw_running w' = bw_running w" "r = Inl e" for e
    using that by (intro exI [of _ "[]"] exI [of _ 0]) auto
  from assms(2) show ?thesis
    unfolding start_cluster_def ports Let_def prod.case
  proof (elim abind_cases)
    fix u v x secs y w1 w2 w3 w4 w5
    assume *: "fresh_dir B ?dir w = Inr (Inr u, w1)" "genconfig B (h_repo_root h) ?dir cfg p1 p2 p3 p4 w1 = Inr (Inr v, w2)"
      "write_ip_files B ?dir (bc_num_nodes cfg) p1 p2 w2 = Inr (Inr x, w3)" "alift (bootstrap_secs (bc_num_nodes cfg)) w3 = Inr (Inr secs, w4)"
      "spawn_nodes B (h_repo_root h) ?dir cfg secs [0..<bc_num_nodes cfg] w4 = Inr (Inr y, w5)" "aret (?dir, secs) w5 = Inr (r, w')"
    then have "bw_running w4 = bw_running w" by (auto simp: alift_def dest!: prepare_running)
    with spawn_nodes_run [OF assms(1) *(5)] *(6) show ?thesis by (intro exI [of _ ?dir] exI [of _ secs] exI [of _ "bc_num_nodes cfg"]) auto
  next
    fix u v x secs e w1 w2 w3 w4
    assume *: "fresh_dir B ?dir w = Inr (Inr u, w1)" "genconfig B (h_repo_root h) ?dir cfg p1 p2 p3 p4 w1 = Inr (Inr v, w2)"
      "write_ip_files B ?dir (bc_num_nodes cfg) p1 p2 w2 = Inr (Inr x, w3)" "alift (bootstrap_secs (bc_num_nodes cfg)) w3 = Inr (Inr secs, w4)"
      "spawn_nodes B (h_repo_root h) ?dir cfg secs [0..<bc_num_nodes cfg] w4 = Inr (Inl e, w')" "r = Inl e"
    then have same: "bw_running w4 = bw_running w" by (auto simp: alift_def dest!: prepare_running)
    from spawn_nodes_run [OF assms(1) *(5)] obtain js rest where js: "[0..<bc_num_nodes cfg] = js @ rest"
      "bw_running w' = bw_running w4 @ map (\<lambda>i. node_command (h_repo_root h) ?dir cfg i secs) js" "rest \<noteq> []"
      "\<not> be_spawn B (node_command (h_repo_root h) ?dir cfg (hd rest) secs)" by auto
    from js(1) have "js = [0..<length js] \<and> length js < bc_num_nodes cfg \<and> hd rest = length js"
      using js(3) upt_eq_append_parts by blast
    with js same *(6) show ?thesis by (intro exI [of _ ?dir] exI [of _ secs] exI [of _ "length js"]) auto
  qed (auto simp: alift_def intro!: early dest!: prepare_running)
qed

section \<open>The cluster\<close>

text \<open>What the harness asks \<open>genconfig\<close> for.\<close>

definition bench_gen_args :: "string \<Rightarrow> bench_config \<Rightarrow> nat \<times> nat \<times> nat \<times> nat \<Rightarrow> gen_args" where
  "bench_gen_args dir cfg = (\<lambda>(base, cli_base, mempool_base, client_listen).
     \<lparr>ga_num_nodes = bc_num_nodes cfg, ga_num_faults = bc_num_faults cfg, ga_delay = 50, ga_base_port = base,
      ga_blocksize = bc_block_size cfg, ga_client_base_port = cli_base, ga_t = ED25519, ga_out = ''json'', ga_target = dir,
      ga_payload = bc_payload cfg, ga_client_listen_port = client_listen, ga_mempool_base_port = mempool_base,
      ga_num_clients = bc_num_clients cfg, ga_node_ip_sans = [], ga_client_ip_sans = []\<rparr>)"

definition bench_numbers_ok :: "bench_config \<Rightarrow> nat \<times> nat \<times> nat \<times> nat \<Rightarrow> bool" where
  "bench_numbers_ok cfg = (\<lambda>(base, cli_base, mempool_base, client_listen).
     bc_num_nodes cfg < 2 ^ 64 \<and> bc_num_faults cfg < 2 ^ 64 \<and> bc_block_size cfg < 2 ^ 64 \<and> bc_payload cfg < 2 ^ 64 \<and>
     0 < bc_num_clients cfg \<and> bc_num_clients cfg < 2 ^ 16 \<and> base < 2 ^ 16 \<and> cli_base < 2 ^ 16 \<and> mempool_base < 2 ^ 16 \<and> client_listen < 2 ^ 16)"

definition genconfig_given :: "string \<Rightarrow> bench_config \<Rightarrow> nat \<Rightarrow> nat \<Rightarrow> nat \<Rightarrow> nat \<Rightarrow> given list" where
  "genconfig_given dir cfg p1 p2 p3 p4 =
     [Val ''-n'' (show_nat (bc_num_nodes cfg)), Val ''-f'' (show_nat (bc_num_faults cfg)), Val ''-d'' (show_nat 50),
      Val ''--blocksize'' (show_nat (bc_block_size cfg)), Val ''--base_port'' (show_nat p1),
      Val ''--client_base_port'' (show_nat p2), Val ''--mempool_base_port'' (show_nat p3),
      Val ''--client_listen_port'' (show_nat p4), Val ''--num_clients'' (show_nat (bc_num_clients cfg)),
      Val ''--payload'' (show_nat (bc_payload cfg)), Val ''--target'' dir]"

lemma show_nat_50: "show_nat 50 = ''50''"
  by code_simp

lemma genconfig_args_given: "genconfig_args dir cfg p1 p2 p3 p4 = concat (map render (genconfig_given dir cfg p1 p2 p3 p4))"
  by (simp add: genconfig_args_def genconfig_given_def show_nat_50)

lemma show_nat_hd: "hd (show_nat n) \<noteq> CHR ''-''"
  using show_nat_digits [of "hd (show_nat n)" n] show_nat_nonempty [of n] by (auto simp: digit_of_def)

lemmas cli_defs = genconfig_cli_def keyed_node_cli_def count_node_cli_def keyed_client_cli_def count_client_cli_def value_arg_def flag_arg_def find_arg_def answers_def

lemma genconfig_find:
  "find_arg genconfig_cli ''-n'' = Some (value_arg True ''num_nodes'' (Some ''n'') (Some ''NumNodes''))"
  "find_arg genconfig_cli ''-f'' = Some (value_arg False ''num_faults'' (Some ''f'') (Some ''faults''))"
  "find_arg genconfig_cli ''-d'' = Some (value_arg True ''delay'' (Some ''d'') (Some ''delay''))"
  "find_arg genconfig_cli ''--blocksize'' = Some (value_arg True ''block_size'' (Some ''b'') (Some ''blocksize''))"
  "find_arg genconfig_cli ''--base_port'' = Some (value_arg True ''base_port'' (Some ''P'') (Some ''base_port''))"
  "find_arg genconfig_cli ''--client_base_port'' = Some (value_arg True ''client_base_port'' (Some ''C'') (Some ''client_base_port''))"
  "find_arg genconfig_cli ''--mempool_base_port'' = Some (value_arg True ''mempool_base_port'' (Some ''M'') (Some ''mempool_base_port''))"
  "find_arg genconfig_cli ''--client_listen_port'' = Some (value_arg True ''client_listen_port'' (Some ''L'') (Some ''client_listen_port''))"
  "find_arg genconfig_cli ''--num_clients'' = Some (value_arg False ''num_clients'' (Some ''c'') (Some ''num_clients''))"
  "find_arg genconfig_cli ''--payload'' = Some (value_arg False ''payload'' (Some ''l'') (Some ''payload''))"
  "find_arg genconfig_cli ''--target'' = Some (value_arg False ''target'' (Some ''t'') (Some ''target''))"
  by code_simp+

lemma value_arg_fields [simp]:
  "ca_name (value_arg r n s l) = n" "ca_takes_value (value_arg r n s l)" "ca_possible (value_arg r n s l) = []" "ca_required (value_arg r n s l) = r"
  by (simp_all add: value_arg_def)

lemma genconfig_given_ok: "dir \<noteq> [] \<Longrightarrow> hd dir \<noteq> CHR ''-'' \<Longrightarrow> well_given genconfig_cli (genconfig_given dir cfg p1 p2 p3 p4)"
  by (simp add: well_given_def genconfig_given_def genconfig_find show_nat_nonempty show_nat_hd) (simp add: genconfig_cli_def)

lemma genconfig_options:
  assumes "clap_ok clap" and "dir \<noteq> []" and "hd dir \<noteq> CHR ''-''" and "bench_numbers_ok cfg (p1, p2, p3, p4)"
    and "algorithm_from_str S ''ED25519'' = Some ED25519"
  shows "\<exists>m. clap genconfig_cli (genconfig_args dir cfg p1 p2 p3 p4) = Some m \<and>
    parse_gen_args S m = Inr (bench_gen_args dir cfg (p1, p2, p3, p4))"
proof -
  let ?m = "map_of (given_values genconfig_cli (genconfig_given dir cfg p1 p2 p3 p4))"
  have m: "?m ''num_nodes'' = Some (show_nat (bc_num_nodes cfg))" "?m ''num_faults'' = Some (show_nat (bc_num_faults cfg))"
      "?m ''delay'' = Some (show_nat 50)" "?m ''base_port'' = Some (show_nat p1)" "?m ''block_size'' = Some (show_nat (bc_block_size cfg))"
      "?m ''client_base_port'' = Some (show_nat p2)" "?m ''algorithm'' = None" "?m ''out_type'' = None" "?m ''target'' = Some dir"
      "?m ''payload'' = Some (show_nat (bc_payload cfg))" "?m ''client_listen_port'' = Some (show_nat p4)"
      "?m ''mempool_base_port'' = Some (show_nat p3)" "?m ''num_clients'' = Some (show_nat (bc_num_clients cfg))"
      "?m ''node_ips'' = None" "?m ''client_ips'' = None"
    by (simp_all add: genconfig_given_def genconfig_find)
  have "parse_gen_args S ?m = Inr (bench_gen_args dir cfg (p1, p2, p3, p4))"
    using assms(4,5) parse_uint_show [of 50 64]
    by (simp add: parse_gen_args_def m uint_arg_def bench_numbers_ok_def or_default_def parse_ip_list_def bench_gen_args_def del: map_of.simps)
  moreover have "clap genconfig_cli (genconfig_args dir cfg p1 p2 p3 p4) = Some ?m"
    by (rule clap_given [OF assms(1) genconfig_args_given genconfig_given_ok [OF assms(2,3)]])
  ultimately show ?thesis by blast
qed

text \<open>The address files, and the options of a node.\<close>

definition addr_text :: "nat \<Rightarrow> nat \<Rightarrow> string" where
  "addr_text base n = ip_text (map (\<lambda>k. loopback_addr (base + k)) [0..<n])"

lemma addr_text_Suc: "addr_text base (Suc n) = addr_text base n @ loopback_addr (base + n) @ [newline]"
  by (simp add: addr_text_def ip_text_def)

lemma ip_loop:
  assumes "p + n \<le> 2 ^ 64" and "q + n \<le> 2 ^ 64"
  shows "rfold (\<lambda>i (ip, cli_ip). rbind (add_u64 p i) (\<lambda>a. rbind (add_u64 q i) (\<lambda>b.
      Inr (ip @ loopback_addr a @ [newline], cli_ip @ loopback_addr b @ [newline])))) [0..<n] ([], []) = Inr (addr_text p n, addr_text q n)"
  using assms
proof (induction n)
  case 0
  then show ?case by (simp add: addr_text_def ip_text_def)
next
  case (Suc n)
  then show ?case by (simp add: rfold_append addr_text_Suc add_u64_def)
qed

lemma write_ip_files_ok:
  assumes "be_create B (join_text dir ''ip_file'') \<and> be_create B (join_text dir ''cli_ip_file'')" and "p + n \<le> 2 ^ 64" and "q + n \<le> 2 ^ 64"
  shows "write_ip_files B dir n p q w = Inr (Inr (),
    w\<lparr>bw_files := fmupd (join_text dir ''cli_ip_file'') (text_bytes (addr_text q n))
        (fmupd (join_text dir ''ip_file'') (text_bytes (addr_text p n)) (bw_files w))\<rparr>)"
  using ip_loop [OF assms(2,3)] assms(1) by (simp add: write_ip_files_def)

fun node_cli :: "protocol \<Rightarrow> cli_arg list" where
  "node_cli Apollo = keyed_node_cli"
| "node_cli Artemis = keyed_node_cli"
| "node_cli Synchs = count_node_cli"
| "node_cli Optsync = count_node_cli"

definition node_given :: "string \<Rightarrow> bench_config \<Rightarrow> nat \<Rightarrow> nat \<Rightarrow> given list" where
  "node_given dir cfg i secs =
     [Val ''-c'' (join_text dir (''nodes-'' @ show_nat i @ ''.json'')), Val ''-i'' (join_text dir ''ip_file''),
      Val ''--sleep'' (show_nat secs), Val ''--delta'' (show_nat 50)] @
     (if wants_special_client (bc_protocol cfg) then [Flag ''-s''] else [])"

lemma join_text_hd: "dir \<noteq> [] \<Longrightarrow> join_text dir name \<noteq> [] \<and> hd (join_text dir name) = hd dir"
  by (simp add: join_text_def)

lemma node_started:
  assumes "clap_ok clap" and dir: "dir \<noteq> []" "hd dir \<noteq> CHR ''-''" "last dir \<noteq> CHR ''/''" and "secs < 2 ^ 64"
    and a: "ga_delay a = 50" "ga_out a = ''json''" "ga_target a = dir"
  shows "\<exists>opt. clap (node_cli (bc_protocol cfg)) (snd (node_command root dir cfg i secs)) = Some opt \<and>
    started_on a i (join_text dir ''ip_file'') opt"
proof -
  let ?gs = "node_given dir cfg i secs" and ?cli = "node_cli (bc_protocol cfg)"
  let ?opt = "map_of (given_values ?cli ?gs)"
  note hds = join_text_hd [OF dir(1)]
  have "snd (node_command root dir cfg i secs) = concat (map render ?gs)"
    by (simp add: node_command_def node_given_def show_nat_50)
  moreover have "well_given ?cli ?gs"
    by (cases "bc_protocol cfg") (simp_all add: well_given_def node_given_def wants_special_client_def cli_defs show_nat_nonempty show_nat_hd hds dir)
  ultimately have "clap ?cli (snd (node_command root dir cfg i secs)) = Some ?opt"
    by (rule clap_given [OF assms(1)])
  moreover have "node_file a i = join_text dir (''nodes-'' @ show_nat i @ ''.json'')"
    using a dir by (simp add: node_file_def out_format_def join_text_def)
  then have "?opt ''config'' = Some (node_file a i)" "?opt ''ip'' = Some (join_text dir ''ip_file'')" "?opt ''store'' = None"
      "?opt ''delta'' = Some (show_nat (ga_delay a))" "?opt ''sleep'' = Some (show_nat secs)"
    by (cases "bc_protocol cfg"; simp add: node_given_def wants_special_client_def cli_defs a)+
  with assms(5) have "started_on a i (join_text dir ''ip_file'') ?opt" by (auto simp: started_on_def a)
  ultimately show ?thesis by blast
qed

fun client_cli :: "protocol \<Rightarrow> cli_arg list" where
  "client_cli Apollo = keyed_client_cli"
| "client_cli Artemis = keyed_client_cli"
| "client_cli Synchs = count_client_cli"
| "client_cli Optsync = count_client_cli"

definition client_given :: "string \<Rightarrow> bench_config \<Rightarrow> nat \<Rightarrow> given list" where
  "client_given dir cfg j =
     [Val ''-c'' (join_text dir (''client-'' @ show_nat j @ ''.json'')), Val ''-i'' (join_text dir ''cli_ip_file''),
      Val ''-m'' (show_nat (bc_total_txs cfg)), Val ''-w'' (show_nat (bc_window cfg))]"

lemma client_started:
  assumes "clap_ok clap" and dir: "dir \<noteq> []" "hd dir \<noteq> CHR ''-''" "last dir \<noteq> CHR ''/''" and nums: "bc_total_txs cfg < 2 ^ 64" "bc_window cfg < 2 ^ 64"
    and a: "ga_out a = ''json''" "ga_target a = dir"
  shows "\<exists>opt. clap (client_cli (bc_protocol cfg)) (snd (client_command root dir cfg j)) = Some opt \<and>
    client_started_on a j (join_text dir ''cli_ip_file'') opt"
proof -
  let ?gs = "client_given dir cfg j" and ?cli = "client_cli (bc_protocol cfg)"
  let ?opt = "map_of (given_values ?cli ?gs)"
  note hds = join_text_hd [OF dir(1)]
  have "snd (client_command root dir cfg j) = concat (map render ?gs)"
    by (simp add: client_command_def client_given_def)
  moreover have "well_given ?cli ?gs"
    by (cases "bc_protocol cfg") (simp_all add: well_given_def client_given_def cli_defs show_nat_nonempty show_nat_hd hds dir)
  ultimately have "clap ?cli (snd (client_command root dir cfg j)) = Some ?opt"
    by (rule clap_given [OF assms(1)])
  moreover have "client_file a j = join_text dir (''client-'' @ show_nat j @ ''.json'')"
    using a dir by (simp add: client_file_def out_format_def join_text_def)
  then have "?opt ''config'' = Some (client_file a j)" "?opt ''ip'' = Some (join_text dir ''cli_ip_file'')"
      "?opt ''rate'' = None" "?opt ''burst_interval_ms'' = None" "?opt ''txs_per_burst'' = None"
      "?opt ''metrics'' = Some (show_nat (bc_total_txs cfg))" "?opt ''window'' = Some (show_nat (bc_window cfg))"
    by (cases "bc_protocol cfg"; simp add: client_given_def cli_defs)+
  with nums have "client_started_on a j (join_text dir ''cli_ip_file'') ?opt" by (auto simp: client_started_on_def)
  ultimately show ?thesis by blast
qed

lemma spawn_nodes_ok:
  assumes "\<And>i. i \<in> set is \<Longrightarrow> be_create B (join_text dir (''node-'' @ show_nat i @ ''.log'')) \<and> be_spawn B (node_command root dir cfg i secs)"
  shows "\<exists>w'. spawn_nodes B root dir cfg secs is w = Inr (Inr (), w') \<and>
    bw_running w' = bw_running w @ map (\<lambda>i. node_command root dir cfg i secs) is \<and>
    (\<forall>p. (\<forall>i. p \<noteq> join_text dir (''node-'' @ show_nat i @ ''.log'')) \<longrightarrow> fmlookup (bw_files w') p = fmlookup (bw_files w) p)"
  using assms
proof (induction "is" arbitrary: w)
  case Nil
  then show ?case by (simp add: spawn_nodes_def)
next
  case (Cons i "is")
  let ?w = "w\<lparr>bw_files := fmupd (join_text dir (''node-'' @ show_nat i @ ''.log'')) (text_bytes []) (bw_files w),
    bw_running := bw_running w @ [node_command root dir cfg i secs]\<rparr>"
  have "spawn_node B root dir cfg i secs w = Inr (Inr (), ?w)" using Cons.prems by (simp add: spawn_node_def)
  then have "spawn_nodes B root dir cfg secs (i # is) w = spawn_nodes B root dir cfg secs is ?w" by (simp add: spawn_nodes_def)
  with Cons.IH [of ?w] Cons.prems show ?case by auto
qed

text \<open>
  The harness and the programs it starts, on a system where the directory, the files and the node
  processes of the run can be created, and where \<open>genconfig\<close> is the tool of this development.
\<close>

definition bench_sys_ok :: "clap \<Rightarrow> gen_sys \<Rightarrow> bench_sys \<Rightarrow> string \<Rightarrow> string \<Rightarrow> bench_config \<Rightarrow> bool" where
  "bench_sys_ok clap S B root dir cfg \<longleftrightarrow>
     be_mkdir B dir \<and> be_create B (join_text dir ''ip_file'') \<and> be_create B (join_text dir ''cli_ip_file'') \<and>
     (\<forall>i<bc_num_nodes cfg. be_create B (join_text dir (''node-'' @ show_nat i @ ''.log'')) \<and>
        (\<forall>secs. be_spawn B (node_command root dir cfg i secs))) \<and>
     (\<forall>args m fs fs'. clap genconfig_cli args = Some m \<longrightarrow> genconfig_main S m fs = Inr (Inr fs') \<longrightarrow>
        be_output B (join_text root ''target/release/genconfig'', args) fs = Inr (True, [], fs'))"

definition comes_up :: "ext \<Rightarrow> node_sys \<Rightarrow> protocol \<Rightarrow> gen_args \<Rightarrow> nat \<Rightarrow> files \<Rightarrow> (string \<Rightarrow> string option) \<Rightarrow> bool" where
  "comes_up E N p a i fs opt \<longleftrightarrow>
     (case p of
        Apollo \<Rightarrow> \<exists>R. apollo_main E N fs opt 0 = Inr R \<and> linked a i (kr_links R) \<and> apollo_init E (kr_cx R) \<and> ax_myid (kr_cx R) = i
      | Artemis \<Rightarrow> \<exists>R. artemis_main E N fs opt 0 = Inr R \<and> linked a i (kr_links R) \<and> artemis_init E (kr_cx R) \<and> rx_myid (kr_cx R) = i
      | Synchs \<Rightarrow> \<exists>R. synchs_main E N fs opt 0 = Inr R \<and> linked a i (cr_links R) \<and> synchs_init E (cr_cx R) \<and> hx_myid (cr_cx R) = i
      | Optsync \<Rightarrow> \<exists>R. optsync_main E N fs opt 0 = Inr R \<and> linked a i (cr_links R) \<and> optsync_init E (cr_cx R) \<and> hx_myid (cr_cx R) = i)"

definition connects :: "'z cfg_sys_scheme \<Rightarrow> protocol \<Rightarrow> gen_args \<Rightarrow> nat \<Rightarrow> files \<Rightarrow> (string \<Rightarrow> string option) \<Rightarrow> bool" where
  "connects N p a j fs opt \<longleftrightarrow>
     (case p of
        Apollo \<Rightarrow> \<exists>R. apollo_client_main N fs opt = Inr R \<and> reaches a j (kr_servers R) (kr_reply_to R)
      | Artemis \<Rightarrow> \<exists>R. artemis_client_main N fs opt = Inr R \<and> reaches a j (kr_servers R) (kr_reply_to R)
      | Synchs \<Rightarrow> \<exists>R. synchs_client_main N fs opt = Inr R \<and> reaches a j (sr_servers R) (sr_listen R)
      | Optsync \<Rightarrow> \<exists>R. optsync_client_main N fs opt = Inr R \<and> reaches a j (sr_servers R) (sr_listen R))"

lemma join_text_inject: "dir \<noteq> [] \<Longrightarrow> join_text dir x = join_text dir y \<longleftrightarrow> x = y"
  by (simp add: join_text_def)

lemma run_dir_shape:
  assumes "h_runs_dir h = join_text root ''stress-test/runs''" and "root \<noteq> []" and "hd root \<noteq> CHR ''-''"
  shows "run_dir h cfg p \<noteq> []" "hd (run_dir h cfg p) \<noteq> CHR ''-''" "last (run_dir h cfg p) \<noteq> CHR ''/''"
proof -
  have "h_runs_dir h \<noteq> []" "hd (h_runs_dir h) \<noteq> CHR ''-''" using assms by (auto simp: join_text_def)
  then show "run_dir h cfg p \<noteq> []" "hd (run_dir h cfg p) \<noteq> CHR ''-''" by (simp_all add: run_dir_def join_text_hd)
  have "last (show_nat p) \<noteq> CHR ''/''" using show_nat_digits [of "last (show_nat p)" p] show_nat_nonempty [of p] by (auto simp: digit_of_def)
  then show "last (run_dir h cfg p) \<noteq> CHR ''/''" using show_nat_nonempty [of p] by (simp add: run_dir_def join_text_def)
qed

definition matrix_ports_ok :: "bench_config \<Rightarrow> nat \<times> nat \<times> nat \<times> nat \<Rightarrow> bool" where
  "matrix_ports_ok cfg = (\<lambda>(base, cli_base, mempool_base, client_listen).
     (bc_num_nodes cfg = 3 \<and> bc_num_faults cfg = 1 \<or> bc_num_nodes cfg = 7 \<and> bc_num_faults cfg = 3) \<and>
     bc_block_size cfg = 400 \<and> bc_payload cfg = 0 \<and> 0 < bc_num_clients cfg \<and>
     base < 60000 \<and> cli_base < 60000 \<and> mempool_base < 60000 \<and> 0 < client_listen \<and> client_listen + bc_num_clients cfg \<le> 2 ^ 16)"

lemma cluster_files:
  assumes "clap_ok clap" and B: "bench_sys_ok clap S B root dir cfg" and dir: "dir = run_dir h cfg p1" "dir \<noteq> []" "hd dir \<noteq> CHR ''-''" "last dir \<noteq> CHR ''/''"
    and "h_repo_root h = root" and ports: "matrix_ports_ok cfg (p1, p2, p3, p4)"
    and S: "algorithm_from_str S ''ED25519'' = Some ED25519" and a: "a = bench_gen_args dir cfg (p1, p2, p3, p4)" and ok: "gen_sys_ok S a"
  shows "\<exists>secs fs fs' w'. start_cluster B h cfg (p1, p2, p3, p4) w = Inr (Inr (dir, secs), w') \<and> secs < 2 ^ 64 \<and>
    bw_running w' = bw_running w @ map (\<lambda>i. node_command root dir cfg i secs) [0..<bc_num_nodes cfg] \<and>
    gen_configs S a fs = Inr (Inr fs') \<and> (\<forall>i. fmlookup (bw_files w') (node_file a i) = fmlookup fs' (node_file a i)) \<and>
    (\<forall>j. fmlookup (bw_files w') (client_file a j) = fmlookup fs' (client_file a j)) \<and>
    fmlookup (bw_files w') (join_text dir ''ip_file'') = Some (addr_file p1 (bc_num_nodes cfg)) \<and>
    fmlookup (bw_files w') (join_text dir ''cli_ip_file'') = Some (addr_file p2 (bc_num_nodes cfg))"
proof -
  have create: "be_create B (join_text dir ''ip_file'')" "be_create B (join_text dir ''cli_ip_file'')" "be_mkdir B dir"
    using B unfolding bench_sys_ok_def by blast+
  let ?fs = "if be_exists B dir \<and> be_remove_dir B dir then fmfilter (\<lambda>p. \<not> starts_with (dir @ ''/'') p) (bw_files w) else bw_files w"
  have fresh: "fresh_dir B dir w = Inr (Inr (), w\<lparr>bw_files := ?fs\<rparr>)" using create by (simp add: fresh_dir_def Let_def)
  have "bench_numbers_ok cfg (p1, p2, p3, p4)" using ports by (auto simp: matrix_ports_ok_def bench_numbers_ok_def)
  then obtain m where m: "clap genconfig_cli (genconfig_args dir cfg p1 p2 p3 p4) = Some m" "parse_gen_args S m = Inr a"
    using genconfig_options [OF assms(1) dir(2,3) _ S] a by blast
  have "gen_args_ok a" "0 < ga_num_clients a" using ports by (auto simp: a bench_gen_args_def gen_args_ok_def matrix_ports_ok_def)
  moreover have "ga_out a \<noteq> ''toml''" by (simp add: a bench_gen_args_def)
  ultimately obtain fs' where fs': "gen_configs S a ?fs = Inr (Inr fs')" using gen_configs_reached(2) [OF ok] by blast
  then have "genconfig_main S m ?fs = Inr (Inr fs')" using m(2) by (simp add: genconfig_main_def)
  then have gen: "genconfig B root dir cfg p1 p2 p3 p4 (w\<lparr>bw_files := ?fs\<rparr>) = Inr (Inr (), w\<lparr>bw_files := fs'\<rparr>)"
    using B m(1) by (simp add: genconfig_def Let_def bench_sys_ok_def)
  let ?n = "bc_num_nodes cfg"
  let ?w = "w\<lparr>bw_files := fmupd (join_text dir ''cli_ip_file'') (text_bytes (addr_text p2 ?n))
    (fmupd (join_text dir ''ip_file'') (text_bytes (addr_text p1 ?n)) fs')\<rparr>"
  have ip: "write_ip_files B dir ?n p1 p2 (w\<lparr>bw_files := fs'\<rparr>) = Inr (Inr (), ?w)"
    using ports by (subst write_ip_files_ok) (auto simp: create matrix_ports_ok_def)
  have secs: "bootstrap_secs ?n = Inr (5 + max ?n 3)" "5 + max ?n 3 < 2 ^ 64"
    using ports by (auto simp: bootstrap_secs_def add_u64_def matrix_ports_ok_def)
  obtain w' where w': "spawn_nodes B root dir cfg (5 + max ?n 3) [0..<?n] ?w = Inr (Inr (), w')"
      "bw_running w' = bw_running w @ map (\<lambda>i. node_command root dir cfg i (5 + max ?n 3)) [0..<?n]"
      "\<And>p. \<forall>i. p \<noteq> join_text dir (''node-'' @ show_nat i @ ''.log'') \<Longrightarrow> fmlookup (bw_files w') p = fmlookup (bw_files ?w) p"
    using spawn_nodes_ok [of "[0..<?n]" B dir root cfg "5 + max ?n 3" ?w] B by (auto simp: bench_sys_ok_def)
  have "start_cluster B h cfg (p1, p2, p3, p4) w = Inr (Inr (dir, 5 + max ?n 3), w')"
    unfolding start_cluster_def prod.case Let_def dir(1) [symmetric] assms(7)
    using fresh gen ip secs(1) w'(1) by simp
  moreover have nf: "node_file a i = join_text dir (''nodes-'' @ show_nat i @ ''.json'')" for i
    using dir by (simp add: node_file_def out_format_def join_text_def a bench_gen_args_def)
  have "fmlookup (bw_files w') (node_file a i) = fmlookup fs' (node_file a i)" for i
    unfolding nf by (subst w'(3)) (simp_all add: join_text_inject [OF dir(2)])
  moreover have cf: "client_file a j = join_text dir (''client-'' @ show_nat j @ ''.json'')" for j
    using dir by (simp add: client_file_def out_format_def join_text_def a bench_gen_args_def)
  have "fmlookup (bw_files w') (client_file a j) = fmlookup fs' (client_file a j)" for j
    unfolding cf by (subst w'(3)) (simp_all add: join_text_inject [OF dir(2)])
  moreover have "fmlookup (bw_files w') (join_text dir ''ip_file'') = Some (addr_file p1 ?n)"
      "fmlookup (bw_files w') (join_text dir ''cli_ip_file'') = Some (addr_file p2 ?n)"
    by (subst w'(3); simp add: join_text_inject [OF dir(2)] addr_file_def addr_text_def)+
  ultimately show ?thesis using w'(2) secs(2) fs' by blast
qed

lemma cluster_comes_up:
  assumes "clap_ok clap" and B: "bench_sys_ok clap S B root dir cfg" and dir: "dir = run_dir h cfg p1" "dir \<noteq> []" "hd dir \<noteq> CHR ''-''" "last dir \<noteq> CHR ''/''"
    and root: "h_repo_root h = root" and ports: "matrix_ports_ok cfg (p1, p2, p3, p4)"
    and S: "algorithm_from_str S ''ED25519'' = Some ED25519" and a: "a = bench_gen_args dir cfg (p1, p2, p3, p4)" and ok: "gen_sys_ok S a"
    and keys: "keys_ok E S a" and N: "node_sys_ok S N" "de_client N = de_client S"
    and nums: "bc_total_txs cfg < 2 ^ 64" "bc_window cfg < 2 ^ 64"
  shows "\<exists>secs w'. start_cluster B h cfg (p1, p2, p3, p4) w = Inr (Inr (dir, secs), w') \<and>
    bw_running w' = bw_running w @ map (\<lambda>i. node_command root dir cfg i secs) [0..<bc_num_nodes cfg] \<and>
    (\<forall>i<bc_num_nodes cfg. \<exists>opt. clap (node_cli (bc_protocol cfg)) (snd (node_command root dir cfg i secs)) = Some opt \<and>
       comes_up E N (bc_protocol cfg) a i (bw_files w') opt) \<and>
    (\<forall>j<bc_num_clients cfg. \<exists>opt. clap (client_cli (bc_protocol cfg)) (snd (client_command root dir cfg j)) = Some opt \<and>
       connects N (bc_protocol cfg) a j (bw_files w') opt)"
proof -
  obtain secs fs fs' w' where c: "start_cluster B h cfg (p1, p2, p3, p4) w = Inr (Inr (dir, secs), w')" "secs < 2 ^ 64"
      "bw_running w' = bw_running w @ map (\<lambda>i. node_command root dir cfg i secs) [0..<bc_num_nodes cfg]"
      "gen_configs S a fs = Inr (Inr fs')" "\<forall>i. fmlookup (bw_files w') (node_file a i) = fmlookup fs' (node_file a i)"
      "\<forall>j. fmlookup (bw_files w') (client_file a j) = fmlookup fs' (client_file a j)"
      "fmlookup (bw_files w') (join_text dir ''ip_file'') = Some (addr_file p1 (bc_num_nodes cfg))"
      "fmlookup (bw_files w') (join_text dir ''cli_ip_file'') = Some (addr_file p2 (bc_num_nodes cfg))"
    using cluster_files [OF assms(1) B dir root ports S a ok] by blast
  have fields: "ga_num_nodes a = bc_num_nodes cfg" "ga_base_port a = p1" "ga_out a = ''json''" "ga_delay a = 50" "ga_target a = dir"
      "ga_client_base_port a = p2" "ga_num_clients a = bc_num_clients cfg"
    by (simp_all add: a bench_gen_args_def)
  have fmt: "out_format (ga_out a) = Some (JSON, ''.json'')" "ga_out a \<noteq> ''yaml''" by (simp_all add: fields out_format_def)
  have small: "0 < ga_num_clients a" "ga_num_nodes a < 2 ^ 16" "1 \<le> ga_num_faults a" "0 < ga_blocksize a"
      "ga_payload a * ga_blocksize a < 2 ^ 64" "2 * ga_delay a < 2 ^ 64"
    using ports by (auto simp: a bench_gen_args_def matrix_ports_ok_def)
  have "\<exists>opt. clap (node_cli (bc_protocol cfg)) (snd (node_command root dir cfg i secs)) = Some opt \<and>
       comes_up E N (bc_protocol cfg) a i (bw_files w') opt" if "i < bc_num_nodes cfg" for i
  proof -
    obtain opt where opt: "clap (node_cli (bc_protocol cfg)) (snd (node_command root dir cfg i secs)) = Some opt"
        "started_on a i (join_text dir ''ip_file'') opt"
      using node_started [OF assms(1) dir(2-4) c(2) fields(4,3,5)] by blast
    have i: "i < ga_num_nodes a" using that by (simp add: fields)
    have "fmlookup (bw_files w') (join_text dir ''ip_file'') =
        Some (text_bytes (ip_text (map (\<lambda>k. loopback_addr (ga_base_port a + k)) [0..<ga_num_nodes a])))"
      using c(7) by (simp add: addr_file_def fields)
    from generated_mains [OF ok small(1) fmt c(4) small(2) i keys N(1) small(3-6) spec [OF c(5)] opt(2) this] opt(1)
    show ?thesis by (cases "bc_protocol cfg") (simp_all add: comes_up_def)
  qed
  moreover have "\<exists>opt. clap (client_cli (bc_protocol cfg)) (snd (client_command root dir cfg j)) = Some opt \<and>
       connects N (bc_protocol cfg) a j (bw_files w') opt" if "j < bc_num_clients cfg" for j
  proof -
    obtain opt where opt: "clap (client_cli (bc_protocol cfg)) (snd (client_command root dir cfg j)) = Some opt"
        "client_started_on a j (join_text dir ''cli_ip_file'') opt"
      using client_started [OF assms(1) dir(2-4) nums fields(3,5)] by blast
    have j: "j < ga_num_clients a" using that by (simp add: fields)
    have "fmlookup (bw_files w') (join_text dir ''cli_ip_file'') = Some (addr_file (ga_client_base_port a) (ga_num_nodes a))"
      using c(8) by (simp add: fields)
    from generated_client_setup [OF ok small(1) fmt c(4) small(2) j N(2) spec [OF c(6)] opt(2) this]
    obtain cc servers listen where "client_setup N (bw_files w') opt = Inr cc" "parse_addrs ''invalid server addr'' None (cc_net_map cc) = Inr servers"
        "parse_socket_addr (cc_my_listen_addr cc) = Some listen" "reaches a j servers listen" by blast
    from clients_launch(1,3) [OF this opt(2)] opt(1) show ?thesis
      by (cases "bc_protocol cfg") (auto simp: connects_def apollo_client_main_def artemis_client_main_def synchs_client_main_def optsync_client_main_def)
  qed
  ultimately show ?thesis using c(1,3) by blast
qed

section \<open>Properties\<close>

text \<open>
  The ports of the stress test. The whole matrix of runs gets its ports without leaving 16 bits, and
  no two processes of any runs get the same port exactly when there are at most 25 clients; the code
  mentions that bound but does not enforce it.
\<close>
theorem stress_ports:
  assumes "Harness_new B root = Inr h"
  shows "\<exists>ps. matrix_ports (build_matrix B) h = Inr ps \<and> (distinct ps \<longleftrightarrow> num_clients_of B \<le> 25) \<and>
    (num_clients_of B \<le> 25 \<longrightarrow> (\<forall>p\<in>set ps. 21000 \<le> p \<and> p < 23400))"
proof -
  have idx: "h_run_idx h = 0" using assms by (auto simp: Harness_new_def Let_def split: if_splits)
  obtain c d cs where two: "build_matrix B = c # d # cs" using build_matrix_two by blast
  obtain ps where ps: "matrix_ports (build_matrix B) h = Inr ps"
    using matrix_ports_total [of h "build_matrix B"] build_matrix_length [of B] idx by auto
  show ?thesis
  proof (cases "num_clients_of B \<le> 25")
    case True
    then have "run_fits cfg" if "cfg \<in> set (build_matrix B)" for cfg
      using build_matrix_shape [OF that] by (auto simp: run_fits_def num_clients_of_def)
    with matrix_ports_blocks [of h "build_matrix B"] build_matrix_length [of B] idx ps True show ?thesis by fastforce
  next
    case False
    with matrix_ports_overlap [OF two idx _ ps] ps show ?thesis by auto
  qed
qed

text \<open>
  C37: The cluster of a run comes up. For every run of the matrix with at most 42000 clients, when the
  files and processes of the run can be created and \<open>genconfig\<close> and the node programs are the ones of this
  development: the ports of run \<open>k\<close> are allocated, the configuration is generated (as JSON), every node is
  started, and the program of every node, with the options of its command line and the files as they
  then are, reaches an initial state of its protocol as node \<open>i\<close>, listening on its port and connected to
  exactly the other nodes; and the program of every client, likewise, is connected to every node at the
  port where that node takes transactions and listens on its own.
\<close>
theorem stress_cluster_boots:
  assumes "clap_ok clap" and "root \<noteq> []" and "hd root \<noteq> CHR ''-''"
    and "Harness_new B root = Inr h0" and "k < length (build_matrix B)" and "num_clients_of B \<le> 42000"
    and cfg: "cfg = build_matrix B ! k" and h: "h = h0\<lparr>h_run_idx := k\<rparr>"
    and ports: "ports = (21000 + 300 * k, 21100 + 300 * k, 21200 + 300 * k, 21275 + 300 * k)"
    and dir: "dir = run_dir h cfg (21000 + 300 * k)" and a: "a = bench_gen_args dir cfg ports"
    and "bench_sys_ok clap S B root dir cfg" and "gen_sys_ok S a" and "keys_ok E S a"
    and "algorithm_from_str S ''ED25519'' = Some ED25519" and "node_sys_ok S N" and "de_client N = de_client S"
  shows "\<exists>h' secs w'. alloc_ports h = Inr (ports, h') \<and> start_cluster B h cfg ports w = Inr (Inr (dir, secs), w') \<and>
      bw_running w' = bw_running w @ map (\<lambda>i. node_command root dir cfg i secs) [0..<bc_num_nodes cfg] \<and>
      (\<forall>i<bc_num_nodes cfg. \<exists>opt. clap (node_cli (bc_protocol cfg)) (snd (node_command root dir cfg i secs)) = Some opt \<and>
         comes_up E N (bc_protocol cfg) a i (bw_files w') opt) \<and>
      (\<forall>j<bc_num_clients cfg. \<exists>opt. clap (client_cli (bc_protocol cfg)) (snd (client_command root dir cfg j)) = Some opt \<and>
         connects N (bc_protocol cfg) a j (bw_files w') opt)"
proof -
  have hs: "h_repo_root h = root" "h_runs_dir h = join_text root ''stress-test/runs''"
    using assms(4) by (auto simp: h Harness_new_def Let_def split: if_splits)
  have k: "k \<le> 7" using assms(5) build_matrix_length [of B] by simp
  then have alloc: "alloc_ports h = Inr (ports, h0\<lparr>h_run_idx := Suc k\<rparr>)"
    by (simp add: alloc_ports_eq h ports Let_def)
  have ok: "matrix_ports_ok cfg (21000 + 300 * k, 21100 + 300 * k, 21200 + 300 * k, 21275 + 300 * k)"
    using build_matrix_shape [OF nth_mem [OF assms(5)]] assms(6) k by (auto simp: cfg matrix_ports_ok_def num_clients_of_def)
  note dirs = run_dir_shape [OF hs(2) assms(2,3), of cfg "21000 + 300 * k", folded dir]
  have nums: "bc_total_txs cfg < 2 ^ 64" "bc_window cfg < 2 ^ 64"
    using build_matrix_shape(5,6) [OF nth_mem [OF assms(5)]] by (simp_all add: cfg)
  from cluster_comes_up [OF assms(1,12) dir dirs hs(1) ok assms(15) a [unfolded ports] assms(13,14,16,17) nums, of w] alloc
  show ?thesis unfolding ports by blast
qed

text \<open>
  What a run of the stress test leaves behind. When log files can be created, every process that a
  run started has been stopped when it returns, whether it succeeded or a client failed, with one
  exception: when the system refuses to start node \<open>k\<close>, the \<open>k\<close> nodes before it keep running.
\<close>
theorem stress_children:
  assumes "\<forall>p. be_create B p" and "Harness_run B F cfg h w = Inr (r, h', w')"
  shows "\<exists>dir secs k. mset (bw_running w') =
      mset (bw_running w) + mset (map (\<lambda>i. node_command (h_repo_root h) dir cfg i secs) [0..<k]) \<and>
    (k = 0 \<or> (\<exists>e. r = Inl e) \<and> k < bc_num_nodes cfg \<and> \<not> be_spawn B (node_command (h_repo_root h) dir cfg k secs))"
proof -
  have create: "be_create B p" for p using assms(1) by simp
  from assms(2) obtain ports r1 w1 where s: "start_cluster B h cfg ports w = Inr (r1, w1)"
    and rest: "case r1 of Inl e \<Rightarrow> Inr (Inl e, h', w1) = Inr (r, h', w')
     | Inr (dir, secs) \<Rightarrow> \<exists>out w2. spawn_clients_and_aggregate B F (h_repo_root h) dir cfg w1 = Inr (out, w2) \<and>
         w' = foldl (\<lambda>w i. kill_child (node_command (h_repo_root h) dir cfg i secs) w) w2 [0..<bc_num_nodes cfg]"
    by (auto simp: Harness_run_def Let_def split: sum.splits prod.splits)
  from start_cluster_running [OF create s] obtain dir secs k where
    d: "bw_running w1 = bw_running w @ map (\<lambda>i. node_command (h_repo_root h) dir cfg i secs) [0..<k]"
      "case r1 of Inr (dir', secs') \<Rightarrow> dir' = dir \<and> secs' = secs \<and> k = bc_num_nodes cfg
       | Inl _ \<Rightarrow> k = 0 \<or> k < bc_num_nodes cfg \<and> \<not> be_spawn B (node_command (h_repo_root h) dir cfg k secs)"
    by blast
  show ?thesis
  proof (cases r1)
    case (Inl e)
    with rest d show ?thesis by (intro exI [of _ dir] exI [of _ secs] exI [of _ k]) auto
  next
    case (Inr x)
    with d(2) have x: "x = (dir, secs)" "k = bc_num_nodes cfg" by auto
    with rest Inr obtain out w2 where c: "spawn_clients_and_aggregate B F (h_repo_root h) dir cfg w1 = Inr (out, w2)"
        "w' = foldl (\<lambda>w i. kill_child (node_command (h_repo_root h) dir cfg i secs) w) w2 [0..<bc_num_nodes cfg]" by auto
    have "mset (bw_running w2) = mset (bw_running w) + mset (map (\<lambda>i. node_command (h_repo_root h) dir cfg i secs) [0..<bc_num_nodes cfg])"
      using clients_leave_nothing [OF create c(1)] d(1) x(2) by simp
    from kill_children [OF this] c(2) show ?thesis by (intro exI [of _ dir] exI [of _ secs] exI [of _ 0]) simp
  qed
qed

section \<open>Witnesses\<close>

definition sample_bench :: bench_sys where
  "sample_bench =
     \<lparr>be_var = (\<lambda>v. None), be_cwd = Some ''/r'', be_exists = (\<lambda>p. False), be_mkdir = (\<lambda>p. True), be_remove_dir = (\<lambda>p. True),
      be_create = (\<lambda>p. True),
      be_output = (\<lambda>(bin, args) fs.
        case sample_clap genconfig_cli args of
          None \<Rightarrow> Inr (False, ''error'', fs)
        | Some m \<Rightarrow> (case genconfig_main sample_sys m fs of Inr (Inr fs') \<Rightarrow> Inr (True, [], fs') | _ \<Rightarrow> Inr (False, ''error'', fs))),
      be_spawn = (\<lambda>c. True), be_printed = (\<lambda>c. [Stdout None, Stderr None]), be_node_log = (\<lambda>p. None)\<rparr>"

lemma sample_bench_ok: "bench_sys_ok sample_clap sample_sys sample_bench root dir cfg"
  by (simp add: bench_sys_ok_def sample_bench_def)

definition sample_harness :: harness where
  "sample_harness = \<lparr>h_repo_root = ''/r'', h_runs_dir = ''/r/stress-test/runs'', h_run_idx = 0\<rparr>"

lemma sample_harness_new: "Harness_new sample_bench ''/r'' = Inr sample_harness"
  by (simp add: Harness_new_def sample_bench_def sample_harness_def join_text_def)

lemma sample_matrix: "num_clients_of sample_bench = 1" "length (build_matrix sample_bench) = 8"
  by (simp_all add: num_clients_of_def build_matrix_def sample_bench_def or_default_def Let_def)

theorem stress_ports_witness:
  "Harness_new sample_bench ''/r'' = Inr sample_harness \<and>
   (\<exists>ps. matrix_ports (build_matrix sample_bench) sample_harness = Inr ps \<and> distinct ps \<and> (\<forall>p\<in>set ps. 21000 \<le> p \<and> p < 23400))"
  using stress_ports [OF sample_harness_new] sample_harness_new by (auto simp: sample_matrix)

theorem stress_cluster_boots_witness:
  "let cfg = build_matrix sample_bench ! 2; h = sample_harness\<lparr>h_run_idx := 2\<rparr>; ports = (21600, 21700, 21800, 21875); dir = run_dir h cfg 21600 in
   \<exists>secs w'. start_cluster sample_bench h cfg ports \<lparr>bw_files = fmempty, bw_running = []\<rparr> = Inr (Inr (dir, secs), w') \<and>
     length (bw_running w') = bc_num_nodes cfg \<and>
     (\<forall>i<bc_num_nodes cfg. \<exists>opt. comes_up sample_ext sample_node_sys (bc_protocol cfg) (bench_gen_args dir cfg ports) i (bw_files w') opt) \<and>
     (\<forall>j<bc_num_clients cfg. \<exists>opt. connects sample_node_sys (bc_protocol cfg) (bench_gen_args dir cfg ports) j (bw_files w') opt)"
proof -
  let ?cfg = "build_matrix sample_bench ! 2" and ?ports = "(21600, 21700, 21800, 21875) :: nat \<times> nat \<times> nat \<times> nat"
  let ?h = "sample_harness\<lparr>h_run_idx := 2\<rparr>"
  let ?dir = "run_dir ?h ?cfg 21600"
  let ?a = "bench_gen_args ?dir ?cfg ?ports"
  have keys: "keys_ok sample_ext sample_sys ?a" by (rule sample_keys_ok) (simp add: bench_gen_args_def)
  have sys: "algorithm_from_str sample_sys ''ED25519'' = Some ED25519" "de_client sample_node_sys = de_client sample_sys"
    by (simp_all add: sample_sys_def sample_node_sys_def)
  have two: "?ports = (21000 + 300 * 2, 21100 + 300 * 2, 21200 + 300 * 2, 21275 + 300 * 2)" "?dir = run_dir ?h ?cfg (21000 + 300 * 2)" by simp_all
  have "''/r'' \<noteq> []" "hd ''/r'' \<noteq> CHR ''-''" "2 < length (build_matrix sample_bench)" "num_clients_of sample_bench \<le> 42000"
    by (simp_all add: sample_matrix)
  from stress_cluster_boots [OF sample_clap_ok this(1,2) sample_harness_new this(3,4) refl refl two refl sample_bench_ok sample_sys_ok keys sys(1)
      sample_node_sys_ok sys(2), of "\<lparr>bw_files = fmempty, bw_running = []\<rparr>"]
  obtain h' secs w' where w: "start_cluster sample_bench ?h ?cfg ?ports \<lparr>bw_files = fmempty, bw_running = []\<rparr> = Inr (Inr (?dir, secs), w')"
      "bw_running w' = map (\<lambda>i. node_command ''/r'' ?dir ?cfg i secs) [0..<bc_num_nodes ?cfg]"
      "\<forall>i<bc_num_nodes ?cfg. \<exists>opt. comes_up sample_ext sample_node_sys (bc_protocol ?cfg) ?a i (bw_files w') opt"
      "\<forall>j<bc_num_clients ?cfg. \<exists>opt. connects sample_node_sys (bc_protocol ?cfg) ?a j (bw_files w') opt"
    by (simp only: bench_world.simps append_Nil) blast
  have "length (bw_running w') = bc_num_nodes ?cfg" by (simp add: w(2))
  with w(1,3,4) show ?thesis unfolding Let_def by blast
qed

text \<open>A system that refuses to start the third node of the first run.\<close>

definition sample_cfg :: bench_config where
  "sample_cfg = hd (build_matrix sample_bench)"

definition sample_dir :: string where
  "sample_dir = run_dir sample_harness sample_cfg 21000"

definition sample_refusing :: bench_sys where
  "sample_refusing = sample_bench\<lparr>be_output := (\<lambda>c fs. Inr (True, [], fs)),
     be_spawn := (\<lambda>c. snd c ! 1 \<noteq> join_text sample_dir ''nodes-2.json'')\<rparr>"

definition sample_f64 :: "int f64_ops" where
  "sample_f64 = \<lparr>f_parse = (\<lambda>s. map_option int (parse_uint 64 s)), f_add = (+), f_div = (div), f_of_usize = int, f_greater = (>),
     f_zero = 0, f_two = 2, f_sum_start = 0\<rparr>"

lemma sample_refuses: "be_spawn sample_refusing (node_command root sample_dir cfg i secs) \<longleftrightarrow> i \<noteq> 2"
proof -
  have "sample_dir \<noteq> []" by (simp add: sample_dir_def run_dir_def sample_harness_def join_text_hd)
  moreover have "show_nat 2 = ''2''" by code_simp
  then have "show_nat i = ''2'' \<longleftrightarrow> i = 2" using show_nat_inject [of i 2] by simp
  ultimately show ?thesis by (simp add: sample_refusing_def node_command_def join_text_inject)
qed

lemma sample_refusing_run:
  "\<exists>w'. Harness_run sample_refusing F sample_cfg sample_harness \<lparr>bw_files = fmempty, bw_running = []\<rparr> =
     Inr (Inl ''io error'', sample_harness\<lparr>h_run_idx := 1\<rparr>, w') \<and> length (bw_running w') = 2"
proof -
  let ?B = sample_refusing and ?w = "\<lparr>bw_files = fmempty, bw_running = []\<rparr>"
  have B: "be_create ?B p" "be_mkdir ?B p" "\<not> be_exists ?B p" "be_output ?B c fs = Inr (True, [], fs)" for p c fs
    by (simp_all add: sample_refusing_def sample_bench_def)
  have n: "bc_num_nodes sample_cfg = 3" by (simp add: sample_cfg_def build_matrix_def sample_bench_def Let_def)
  have alloc: "alloc_ports sample_harness = Inr ((21000, 21100, 21200, 21275), sample_harness\<lparr>h_run_idx := 1\<rparr>)"
    by (simp add: alloc_ports_eq sample_harness_def Let_def)
  have three: "[0..<3] = [0, 1, 2 :: nat]" by code_simp
  have secs: "bootstrap_secs 3 = Inr 8" by (simp add: bootstrap_secs_def add_u64_def)
  have node: "spawn_node ?B root sample_dir sample_cfg i 8 w =
      (let w1 = w\<lparr>bw_files := fmupd (join_text sample_dir (''node-'' @ show_nat i @ ''.log'')) (text_bytes []) (bw_files w)\<rparr>
       in if i = 2 then Inr (Inl ''io error'', w1)
          else Inr (Inr (), w1\<lparr>bw_running := bw_running w @ [node_command root sample_dir sample_cfg i 8]\<rparr>))" for root i w
    using sample_refuses [of root sample_cfg i 8] B
    by (simp add: spawn_node_def spawn_child_def abind_def aensure_def write_file_def Let_def)
  have "\<exists>w'. start_cluster ?B sample_harness sample_cfg (21000, 21100, 21200, 21275) ?w = Inr (Inl ''io error'', w') \<and> length (bw_running w') = 2"
    unfolding start_cluster_def prod.case sample_dir_def [symmetric] Let_def n
    by (simp add: fresh_dir_def genconfig_def Let_def B abind_def write_ip_files_ok secs spawn_nodes_def three node)
  then show ?thesis by (auto simp: Harness_run_def alloc)
qed

theorem stress_children_witness:
  "\<exists>w' dir secs. Harness_run sample_refusing sample_f64 sample_cfg sample_harness \<lparr>bw_files = fmempty, bw_running = []\<rparr> =
      Inr (Inl ''io error'', sample_harness\<lparr>h_run_idx := 1\<rparr>, w') \<and>
    mset (bw_running w') = mset (map (\<lambda>i. node_command (h_repo_root sample_harness) dir sample_cfg i secs) [0..<2]) \<and>
    \<not> be_spawn sample_refusing (node_command (h_repo_root sample_harness) dir sample_cfg 2 secs)"
proof -
  obtain w' where w': "Harness_run sample_refusing sample_f64 sample_cfg sample_harness \<lparr>bw_files = fmempty, bw_running = []\<rparr> =
      Inr (Inl ''io error'', sample_harness\<lparr>h_run_idx := 1\<rparr>, w')" "length (bw_running w') = 2"
    using sample_refusing_run by blast
  have "\<forall>p. be_create sample_refusing p" by (simp add: sample_refusing_def sample_bench_def)
  from stress_children [OF this w'(1)] obtain dir secs k where
    k: "mset (bw_running w') = mset (map (\<lambda>i. node_command (h_repo_root sample_harness) dir sample_cfg i secs) [0..<k])"
       "k = 0 \<or> \<not> be_spawn sample_refusing (node_command (h_repo_root sample_harness) dir sample_cfg k secs)" by auto
  from mset_eq_length [OF k(1)] w'(2) have "k = 2" by simp
  with k w'(1) show ?thesis by (intro exI [of _ w'] exI [of _ dir] exI [of _ secs]) simp
qed

end
