(* ===== verification/Mempool_Flow.thy ===== *)
theory Mempool_Flow
  imports Keyed_Mempool "HOL-Library.Multiset"
begin

text \<open>
  What the keyed mempool promises to the node it is wired to, as long as the node never asks for a
  rollback: every batch it announces consists of transactions that clients submitted to this very
  replica, no transaction is sealed twice, and the router's confirmations can be charged to the
  registrations they answer. The theory \<open>Replica\<close> combines this with what a node promises.
\<close>

section \<open>The pool without rollback\<close>

text \<open>A key that the pool will not mine again: in flight, or covered by the watermark.\<close>

definition settled :: "txpool \<Rightarrow> txkey \<Rightarrow> bool" where
  "settled p k \<longleftrightarrow> fmmem k (inflight p) \<or> snd k \<le> hi_nonce p (fst k)"

definition mineable_from :: "transaction set \<Rightarrow> txpool \<Rightarrow> bool" where
  "mineable_from T p \<longleftrightarrow> (\<forall>k e. bt_get (mineable p) k = Some e \<longrightarrow> fst e \<in> T)"

lemma mineable_from_mono:
  assumes "mineable_from T p" and "\<And>k e. bt_get (mineable p') k = Some e \<Longrightarrow> bt_get (mineable p) k = Some e \<or> fst e \<in> T"
  shows "mineable_from T p'"
  using assms unfolding mineable_from_def by blast

lemma settled_not_mineable: "pool_inv p \<Longrightarrow> settled p k \<Longrightarrow> bt_get (mineable p) k = None"
  by (cases "bt_get (mineable p) k") (auto dest: pool_inv_mineable simp: settled_def)

text \<open>An operation that neither returns a settled key nor brings in an unknown transaction.\<close>

definition forward :: "transaction set \<Rightarrow> txpool \<Rightarrow> txpool \<Rightarrow> bool" where
  "forward T p p' \<longleftrightarrow> (\<forall>k. settled p k \<longrightarrow> settled p' k) \<and> (mineable_from T p \<longrightarrow> mineable_from T p')"

lemma forward_refl [simp]: "forward T p p"
  by (simp add: forward_def)

lemma forward_settled: "forward T p p' \<Longrightarrow> settled p k \<Longrightarrow> settled p' k"
  unfolding forward_def by blast

lemma forward_mineable: "forward T p p' \<Longrightarrow> mineable_from T p \<Longrightarrow> mineable_from T p'"
  by (simp add: forward_def)

lemma forward_trans: "forward T p q \<Longrightarrow> forward T q r \<Longrightarrow> forward T p r"
  by (simp add: forward_def)

lemma forward_reset [simp]: "forward T p (reset_timer p)"
  by (simp add: forward_def settled_def mineable_from_def reset_timer_def hi_nonce_def)

lemma forward_add:
  assumes "pool_inv p" and "add_tx tx sz p = Inr p'" and "tx \<in> T"
  shows "forward T p p'"
proof -
  have inv: "bt_inv (mineable p)" using assms(1) by (simp add: pool_inv_def pool_inv_x_def mineable_ok_def)
  have "p' = p \<or> (\<exists>b. p' = p\<lparr>mineable := bt_insert (tx_key tx) (tx, sz) (mineable p), mineable_bytes := b\<rparr>)"
    using assms(2) by (auto simp: add_tx_def Let_def tx_key_def assert_disjoint_def split: if_splits)
  then show ?thesis
    using assms(3) inv
    by (auto simp: forward_def settled_def hi_nonce_def bt_get_insert split: if_splits elim!: mineable_from_mono)
qed

lemma forward_admit:
  assumes "pool_inv p" and "admit_proposal E b r p = Inr p'"
  shows "forward T p p'"
proof -
  from assms(2) have "rfold (admit_one E r) (cb_payload b) (touch_round r p) = Inr p'"
    by (auto simp: admit_proposal_def assert_disjoint_def)
  then have "pool_inv_x {} {} p' \<and> forward T p p'"
  proof (rule rfold_inv)
    show "pool_inv_x {} {} (touch_round r p) \<and> forward T p (touch_round r p)"
      using assms(1) by (simp add: pool_inv_def pool_inv_x_touch)
        (simp add: forward_def settled_def mineable_from_def touch_round_def hi_nonce_def)
    fix x t t' assume t: "pool_inv_x {} {} t \<and> forward T p t" and adm: "admit_one E r x t = Inr t'"
    have "mineable_ok t" using t pool_inv_xD(1) by blast
    then have "forward T t t'"
      using adm by (auto simp: admit_one_def Let_def take_mineable_ok put_inflight_def forward_def settled_def
          hi_nonce_def bt_get_remove mineable_ok_def split: if_splits elim!: mineable_from_mono)
    with t adm show "pool_inv_x {} {} t' \<and> forward T p t'"
      using admit_one_ok [of "{}" "{}" t E r x] by (auto intro: forward_trans)
  qed
  then show ?thesis ..
qed

lemma forward_commit:
  assumes "pool_inv p" and "commit b r p = Inr p'"
  shows "forward T p p'"
proof -
  from commit_ok [OF assms(1), of b r] assms(2) have
    hi: "\<forall>c. hi_nonce p' c = raised (cb_payload b) (hi_nonce p c) c" and
    inf: "\<forall>k. fmlookup (inflight p') k =
       (if k \<in> tx_key ` set (cb_payload b) then None else fmlookup (inflight p) k)" and
    mine: "\<forall>k. bt_get (mineable p') k = (if snd k \<le> hi_nonce p' (fst k) then None else bt_get (mineable p) k)"
    by auto
  have "snd k \<le> hi_nonce p' (fst k)" if "k \<in> tx_key ` set (cb_payload b)" for k
    using that hi raised_ge_nonce by (auto simp: tx_key_def)
  moreover have "hi_nonce p c \<le> hi_nonce p' c" for c using hi raised_ge by simp
  ultimately have "settled p' k" if "settled p k" for k
    using that inf [rule_format, of k] unfolding settled_def fmmem_def by (metis le_trans)
  moreover have "bt_get (mineable p) k = Some e" if "bt_get (mineable p') k = Some e" for k e
    using that mine [rule_format, of k] by (simp split: if_splits)
  ultimately show ?thesis by (auto simp: forward_def elim!: mineable_from_mono)
qed

text \<open>What sealing takes from the pool: distinct keys that were mineable and are settled afterwards.\<close>

lemma make_batch_takes:
  assumes "pool_inv p" and "make_batch r p = Inr (txs, p')"
  shows "forward T p p'" and "mineable_from T p \<Longrightarrow> set txs \<subseteq> T" and "distinct (map tx_key txs)"
    and "\<forall>k\<in>tx_key ` set txs. \<not> settled p k \<and> settled p' k"
proof -
  obtain t rest where t: "seal (pool_batch_size p) 0 (mineable p) = (t, rest)" by fastforce
  from make_batch_seal [OF assms(1) t, of r] assms(2) have
    p': "txs = map (fst \<circ> snd) t" "mineable p' = rest" "pool_inv p'" "\<forall>k. fmlookup (inflight p') k = (case map_of t k of
          Some (tx, sz) \<Rightarrow> Some \<lparr>ie_tx = tx, ie_size = sz, ie_round = r\<rparr>
        | None \<Rightarrow> fmlookup (inflight p) k)" "high_committed_nonce p' = high_committed_nonce p"
    by auto
  note keys = distinct_seal_keys [OF assms(1) t]
  have mem: "bt_get (mineable p) k = Some (tx, sz)" if "(k, tx, sz) \<in> set t" for k tx sz
    using keys(2) [rule_format, of k tx sz] map_of_is_SomeI [OF keys(1) that] by simp
  have key: "tx_key (fst (snd e)) = fst e" if "e \<in> set t" for e
  proof -
    obtain k tx sz where e: "e = (k, tx, sz)" by (metis prod.exhaust)
    with that have "bt_get (mineable p) k = Some (tx, sz)" by (intro mem) simp
    from pool_inv_mineable [OF assms(1) this] e show ?thesis by simp
  qed
  have entries: "distinct (map fst (t @ rest))"
    using assms(1) bt.entries_distinct seal_append [OF t] by (auto simp: pool_inv_def pool_inv_x_def mineable_ok_def)
  have rest: "bt_get (mineable p) k = Some v" if "bt_get rest k = Some v" for k v
  proof -
    have "map_of (t @ rest) k = Some v"
      using that entries by (auto simp: bt_get_def map_add_def split: option.splits dest!: map_of_SomeD) (force simp: image_iff)
    then show ?thesis using seal_append [OF t] by (simp add: bt_get_def)
  qed
  have settle: "settled p' k" if "settled p k" for k
    using that p'(4) [rule_format, of k] p'(5) by (auto simp: settled_def fmmem_def hi_nonce_def split: option.splits)
  with rest p'(2) show "forward T p p'" by (auto simp: forward_def elim!: mineable_from_mono)
  show "set txs \<subseteq> T" if "mineable_from T p" using that mem p'(1) by (fastforce simp: mineable_from_def)
  have "map tx_key txs = map fst t" using key by (simp add: p'(1))
  then show "distinct (map tx_key txs)" using keys(1) by simp
  show "\<forall>k\<in>tx_key ` set txs. \<not> settled p k \<and> settled p' k"
  proof (intro ballI conjI)
    fix k assume "k \<in> tx_key ` set txs"
    then obtain tx sz where e: "(k, tx, sz) \<in> set t" using key by (auto simp: p'(1))
    show "\<not> settled p k" using mem [OF e] settled_not_mineable [OF assms(1), of k] by auto
    show "settled p' k" using p'(4) [rule_format, of k] keys(1) e by (auto simp: settled_def fmmem_def map_of_is_SomeI)
  qed
qed

section \<open>The batcher without rollback\<close>

definition sealed_keys :: "rr_batcher \<Rightarrow> txkey list" where
  "sealed_keys s = map tx_key (concat (map cb_payload (outgoing s)))"

text \<open>All it has sealed or may seal comes from \<open>T\<close>; no key was sealed twice.\<close>

definition batcher_from :: "transaction set \<Rightarrow> rr_batcher \<Rightarrow> bool" where
  "batcher_from T s \<longleftrightarrow>
     mineable_from T (pool s) \<and> (\<forall>b\<in>set (outgoing s). set (cb_payload b) \<subseteq> T) \<and>
     distinct (sealed_keys s) \<and> (\<forall>k\<in>set (sealed_keys s). settled (pool s) k)"

lemma batcher_from_spawn: "batcher_from T (RRBatcher_spawn params)"
  by (simp add: batcher_from_def RRBatcher_spawn_def Txpool_new_def mineable_from_def sealed_keys_def bt_get_def)

lemma batcher_from_mono: "batcher_from T s \<Longrightarrow> T \<subseteq> T' \<Longrightarrow> batcher_from T' s"
  by (fastforce simp: batcher_from_def mineable_from_def)

text \<open>Everything that is not a rollback, with transactions from \<open>T\<close>.\<close>

fun event_from :: "transaction set \<Rightarrow> rr_event \<Rightarrow> bool" where
  "event_from T (IncomingTx (Some (tx, sz))) = (tx \<in> T)"
| "event_from T (IncomingConsensus (Some (Rollback rs))) = False"
| "event_from T _ = True"

lemma batcher_from_pool:
  "batcher_from T s \<Longrightarrow> forward T (pool s) p \<Longrightarrow> outgoing s' = outgoing s \<Longrightarrow> pool s' = p \<Longrightarrow> batcher_from T s'"
  by (auto simp: batcher_from_def sealed_keys_def intro: forward_settled forward_mineable)

lemma batcher_from_seal:
  assumes "pool_inv (pool s)" and "batcher_from T s" and "seal_and_propose s = Inr (Inr s')"
  shows "batcher_from T s'"
proof -
  from assms(3) obtain txs p where mk: "make_batch (current_round s) (pool s) = Inr (txs, p)"
    and s': "if txs = [] then s' = s\<lparr>pool := p\<rparr> else pool s' = p \<and> outgoing s' = outgoing s @ [CachedBatch_new txs]"
    by (auto simp: seal_and_propose_def propose_def Let_def split: if_splits)
  note takes = make_batch_takes [OF assms(1) mk]
  have from_s: "mineable_from T (pool s)" "\<forall>k\<in>set (sealed_keys s). settled (pool s) k" "distinct (sealed_keys s)"
    using assms(2) by (simp_all add: batcher_from_def)
  show ?thesis
  proof (cases "txs = []")
    case True
    with s' batcher_from_pool [OF assms(2) takes(1)] show ?thesis by simp
  next
    case False
    then have keys: "sealed_keys s' = sealed_keys s @ map tx_key txs" using s' by (simp add: sealed_keys_def)
    have "set (sealed_keys s) \<inter> set (map tx_key txs) = {}" using takes(4) from_s(2) by auto
    then have "distinct (sealed_keys s')" using from_s(3) takes(3) by (simp add: keys)
    moreover have "\<forall>k\<in>set (sealed_keys s'). settled p k"
      using takes(4) from_s(2) by (auto simp: keys intro: forward_settled [OF takes(1)])
    moreover have "mineable_from T p" using takes(1) from_s(1) by (rule forward_mineable)
    ultimately show ?thesis
      using False s' takes(2) [OF from_s(1)] assms(2) by (simp add: batcher_from_def)
  qed
qed

lemma batcher_from_step:
  assumes "rr_inv s" and "batcher_from T s" and "event_from T ev" and "rr_step E ev s s'"
  shows "batcher_from T s'"
proof -
  have inv: "pool_inv (pool s)" using assms(1) by (simp add: rr_inv_def)
  from assms(4) have h: "rr_handle E ev s = Inr (Inr s')" by (auto elim: rr_stepE)
  show ?thesis
  proof (cases ev)
    case Tick
    with h batcher_from_seal [OF inv assms(2)] show ?thesis by (simp add: on_tick_def)
  next
    case (IncomingTx m)
    with h obtain tx sz p where p: "m = Some (tx, sz)" "add_tx tx sz (pool s) = Inr p"
      by (auto simp: on_incoming_tx_def split: option.splits)
    let ?s = "s\<lparr>pool := p\<rparr>"
    have "tx \<in> T" using assms(3) IncomingTx p(1) by simp
    then have "batcher_from T ?s" using batcher_from_pool [OF assms(2) forward_add [OF inv p(2)]] by simp
    moreover have "pool_inv (pool ?s)" using pool_inv_add_tx inv p(2) by auto
    ultimately show ?thesis
      using h IncomingTx p batcher_from_seal [of ?s] by (auto simp: on_incoming_tx_def Let_def split: if_splits)
  next
    case (IncomingConsensus m)
    with h obtain c where c: "m = Some c" by (auto simp: on_consensus_def split: option.splits)
    show ?thesis
    proof (cases c)
      case (NewRound l r)
      let ?s = "s\<lparr>current_leader := l, current_round := r, proposed := False, pool := reset_timer (pool s)\<rparr>"
      have "batcher_from T ?s" using batcher_from_pool [OF assms(2) forward_reset] by simp
      moreover have "pool_inv (pool ?s)" using inv by (simp add: pool_inv_reset)
      ultimately show ?thesis
        using h IncomingConsensus c NewRound batcher_from_seal [of ?s]
        by (auto simp: on_consensus_def try_propose_def split: if_splits)
    qed (use h IncomingConsensus c assms(3) inv in
        \<open>auto simp: on_consensus_def intro: batcher_from_pool [OF assms(2) forward_admit] batcher_from_pool [OF assms(2) forward_commit]\<close>)
  qed
qed

section \<open>The router's ledger\<close>

definition conf_of :: "ext \<Rightarrow> hash \<times> socket_addr \<Rightarrow> socket_addr \<times> bytes" where
  "conf_of E = (\<lambda>(h, a). (a, the (ser_client_msg E (Confirmation h))))"

text \<open>The pending hashes whose confirmation would be \<open>x\<close>.\<close>

definition owing :: "ext \<Rightarrow> router \<Rightarrow> socket_addr \<times> bytes \<Rightarrow> hash set" where
  "owing E rt x = {h. \<exists>a. fmlookup (rt_pending rt) h = Some a \<and> conf_of E (h, a) = x}"

text \<open>
  After the registrations \<open>regs\<close> and the committed batches \<open>R\<close>: what is pending was registered; what was
  sent answers a registration of a transaction in a committed batch; and every confirmation, sent or
  still owed, is charged to a registration of its own.
\<close>

definition ledger :: "ext \<Rightarrow> (hash \<times> socket_addr) list \<Rightarrow> cached_batch list \<Rightarrow> router \<Rightarrow> bool" where
  "ledger E regs R rt \<longleftrightarrow>
     (\<forall>h a. fmlookup (rt_pending rt) h = Some a \<longrightarrow> (h, a) \<in> set regs) \<and>
     (\<forall>(a, bs)\<in>set (rt_sent rt). \<exists>h b. (h, a) \<in> set regs \<and> b \<in> set R \<and> h \<in> hash_tx E ` set (cb_payload b) \<and>
        ser_client_msg E (Confirmation h) = Some bs) \<and>
     (\<forall>x. count_list (rt_sent rt) x + card (owing E rt x) \<le> count_list (map (conf_of E) regs) x)"

lemma finite_owing [simp]: "finite (owing E rt x)"
  by (rule finite_subset [of _ "fset (fmdom (rt_pending rt))"]) (auto simp: owing_def intro: fmdomI)

lemma ledger_new: "ledger E [] [] router_new"
  by (simp add: ledger_def router_new_def owing_def)

lemma ledger_mono: "ledger E regs R rt \<Longrightarrow> set R \<subseteq> set R' \<Longrightarrow> ledger E regs R' rt"
  by (fastforce simp: ledger_def)

lemma ledger_register:
  assumes "ledger E regs R rt"
  shows "ledger E (regs @ [(h, a)]) R (router_register (h, a) rt)"
proof -
  have grow: "card (owing E (router_register (h, a) rt) x) \<le> card (owing E rt x) + (if conf_of E (h, a) = x then 1 else 0)" for x
  proof (cases "conf_of E (h, a) = x")
    case True
    have "owing E (router_register (h, a) rt) x \<subseteq> insert h (owing E rt x)"
      by (auto simp: owing_def router_register_def split: if_splits)
    then have "card (owing E (router_register (h, a) rt) x) \<le> card (insert h (owing E rt x))" by (intro card_mono) simp_all
    with True card_insert_le_m1 [of "Suc (card (owing E rt x))" "owing E rt x" h] show ?thesis by simp
  next
    case False
    then have "owing E (router_register (h, a) rt) x \<subseteq> owing E rt x"
      by (auto simp: owing_def router_register_def split: if_splits)
    with False show ?thesis by (simp add: card_mono)
  qed
  have "count_list (rt_sent rt) x + card (owing E (router_register (h, a) rt) x) \<le> count_list (map (conf_of E) (regs @ [(h, a)])) x" for x
  proof -
    have "count_list (rt_sent rt) x + card (owing E rt x) \<le> count_list (map (conf_of E) regs) x"
      using assms unfolding ledger_def by blast
    moreover have "count_list (map (conf_of E) (regs @ [(h, a)])) x =
        count_list (map (conf_of E) regs) x + (if conf_of E (h, a) = x then 1 else 0)" by simp
    ultimately show ?thesis using grow [of x] by linarith
  qed
  moreover have "rt_sent (router_register (h, a) rt) = rt_sent rt" by (simp add: router_register_def)
  moreover have "(k, c) \<in> set (regs @ [(h, a)])" if "fmlookup (rt_pending (router_register (h, a) rt)) k = Some c" for k c
    using that assms by (auto simp: ledger_def router_register_def split: if_splits)
  ultimately show ?thesis using assms by (fastforce simp: ledger_def)
qed

lemma ledger_confirm:
  assumes "ledger E regs R rt" and "b \<in> set R" and "tx \<in> set (cb_payload b)"
  shows "ledger E regs R (router_confirm E tx rt)"
proof -
  let ?h = "hash_tx E tx" and ?rt = "router_confirm E tx rt"
  have pend: "fmlookup (rt_pending ?rt) k = (if k = ?h then None else fmlookup (rt_pending rt) k)" for k by auto
  have count: "count_list (rt_sent ?rt) x + card (owing E ?rt x) \<le> count_list (rt_sent rt) x + card (owing E rt x)" for x
  proof (cases "?h \<in> owed E [tx] rt")
    case True
    then obtain a bs where a: "fmlookup (rt_pending rt) ?h = Some a" "ser_client_msg E (Confirmation ?h) = Some bs"
      by (auto simp: owed_def fmmem_def)
    then have sent: "rt_sent ?rt = rt_sent rt @ [(a, bs)]"
      using True by (simp add: router_confirm_sent confirmation_def)
    have o: "owing E ?rt x = owing E rt x - {?h}" by (auto simp: owing_def pend split: if_splits)
    have "?h \<in> owing E rt x \<longleftrightarrow> x = (a, bs)" using a by (auto simp: owing_def conf_of_def)
    then show ?thesis
      using card_Suc_Diff1 [OF finite_owing, of ?h E rt x] by (auto simp: sent o)
  next
    case False
    have "owing E ?rt x \<subseteq> owing E rt x" by (auto simp: owing_def pend split: if_splits)
    with False show ?thesis by (simp add: router_confirm_sent card_mono)
  qed
  have sent: "\<exists>h b. (h, a) \<in> set regs \<and> b \<in> set R \<and> h \<in> hash_tx E ` set (cb_payload b) \<and> ser_client_msg E (Confirmation h) = Some bs"
    if x: "(a, bs) \<in> set (rt_sent ?rt)" for a bs
  proof (cases "(a, bs) \<in> set (rt_sent rt)")
    case True
    with assms(1) show ?thesis by (auto simp: ledger_def)
  next
    case False
    with x have "?h \<in> owed E [tx] rt" "(a, bs) = confirmation E rt ?h" by (auto simp: router_confirm_sent split: if_splits)
    then have "fmlookup (rt_pending rt) ?h = Some a" "ser_client_msg E (Confirmation ?h) = Some bs"
      by (auto simp: owed_def fmmem_def confirmation_def)
    with assms show ?thesis by (auto simp: ledger_def)
  qed
  show ?thesis
    unfolding ledger_def
  proof (intro conjI allI impI ballI)
    show "(k, c) \<in> set regs" if "fmlookup (rt_pending ?rt) k = Some c" for k c
      using that assms(1) by (auto simp: pend ledger_def split: if_splits)
    show "count_list (rt_sent ?rt) x + card (owing E ?rt x) \<le> count_list (map (conf_of E) regs) x" for x
      using count [of x] assms(1) unfolding ledger_def by (meson le_trans)
  qed (use sent in auto)
qed

lemma ledger_committed:
  assumes "ledger E regs R rt"
  shows "ledger E regs (R @ [b]) (router_committed E b rt)"
proof -
  have "ledger E regs (R @ [b]) (fold (router_confirm E) txs rt')" if "set txs \<subseteq> set (cb_payload b)" "ledger E regs (R @ [b]) rt'" for txs rt'
    using that
  proof (induction txs arbitrary: rt')
    case (Cons tx txs)
    then have "ledger E regs (R @ [b]) (router_confirm E tx rt')" by (intro ledger_confirm) auto
    with Cons show ?case by simp
  qed simp
  moreover have "ledger E regs (R @ [b]) rt" by (rule ledger_mono [OF assms]) auto
  ultimately show ?thesis by (simp add: router_committed_def)
qed

section \<open>The mempool\<close>

text \<open>What a client frame submits: the transactions with the address the client gives for replies.\<close>

definition submissions :: "client_msg option \<Rightarrow> (transaction \<times> socket_addr) list" where
  "submissions m =
     (case m of
        Some (NewTx tx a) \<Rightarrow> [(tx, a)]
      | Some (NewBatch txs a) \<Rightarrow> map (\<lambda>tx. (tx, a)) txs
      | _ \<Rightarrow> [])"

definition label_subs :: "client_msg option option \<Rightarrow> (transaction \<times> socket_addr) list" where
  "label_subs l = (case l of Some m \<Rightarrow> submissions m | None \<Rightarrow> [])"

definition km_flow :: "ext \<Rightarrow> (transaction \<times> socket_addr) list \<Rightarrow> cached_batch list \<Rightarrow> keyed_mempool \<Rightarrow> bool" where
  "km_flow E subs R m \<longleftrightarrow>
     \<not> ls_exited (km_listener m) \<and> ls_to_router (km_listener m) = map (\<lambda>(tx, a). (hash_tx E tx, a)) subs \<and>
     map fst (ls_to_batcher (km_listener m)) = map fst subs \<and> batcher_from (fst ` set subs) (km_batcher m) \<and>
     km_router_taken m \<le> length subs \<and>
     ledger E (take (km_router_taken m) (ls_to_router (km_listener m))) R (km_router m)"

lemma km_flow_spawn: "km_flow E [] [] (KeyedMempool_spawn params st)"
  by (simp add: km_flow_def KeyedMempool_spawn_def listener_new_def batcher_from_spawn ledger_new)

lemma on_client_msg_flow:
  assumes "\<not> ls_exited s"
  shows "\<not> ls_exited (on_client_msg E True True m s)"
    and "ls_to_router (on_client_msg E True True m s) = ls_to_router s @ map (\<lambda>(tx, a). (hash_tx E tx, a)) (submissions m)"
    and "map fst (ls_to_batcher (on_client_msg E True True m s)) = map fst (ls_to_batcher s) @ map fst (submissions m)"
  using assms listen_batch [OF assms, of E]
  by (auto simp: on_client_msg_def submissions_def listen_tx_def Let_def comp_def split: option.splits client_msg.splits)

lemma km_flow_task:
  assumes "rr_inv (km_batcher m)" and "km_flow E subs R m" and "km_task E l m m'"
  shows "km_flow E (subs @ label_subs l) R m'"
  using assms(3)
proof cases
  case (km_client msg)
  with assms(2) show ?thesis
    by (auto simp: km_flow_def label_subs_def on_client_msg_flow intro: batcher_from_mono)
next
  case (km_tx b)
  let ?ls = "ls_to_batcher (km_listener m)"
  have "fst (?ls ! km_batcher_taken m) \<in> fst ` set ?ls" using km_tx(3) by simp
  also have "fst ` set ?ls = fst ` set subs" using assms(2) by (metis km_flow_def set_map)
  finally have "event_from (fst ` set subs) (IncomingTx (Some (?ls ! km_batcher_taken m)))"
    by (cases "?ls ! km_batcher_taken m") simp
  with km_tx assms(2) batcher_from_step [OF assms(1) _ _ km_tx(4)] show ?thesis
    by (auto simp: km_flow_def label_subs_def)
next
  case (km_tick b)
  with assms(2) batcher_from_step [OF assms(1) _ _ km_tick(3)] show ?thesis by (auto simp: km_flow_def label_subs_def)
next
  case km_register
  obtain h a where "ls_to_router (km_listener m) ! km_router_taken m = (h, a)" by fastforce
  with km_register assms(2) ledger_register [of E "take (km_router_taken m) (ls_to_router (km_listener m))" R "km_router m" h a]
  show ?thesis by (auto simp: km_flow_def label_subs_def take_Suc_conv_app_nth)
qed (use assms(2) in \<open>auto simp: km_flow_def label_subs_def\<close>)

lemma km_flow_consensus:
  assumes "rr_inv (km_batcher m)" and "km_flow E subs R m" and "\<And>rs. c \<noteq> Rollback rs"
    and "rr_step E (IncomingConsensus (Some c)) (km_batcher m) b"
  shows "km_flow E subs R (m\<lparr>km_batcher := b\<rparr>)"
  using assms(2,3) batcher_from_step [OF assms(1) _ _ assms(4)] by (cases c) (auto simp: km_flow_def)

lemma km_flow_committed:
  "km_flow E subs R m \<Longrightarrow> km_flow E subs (R @ [b]) (m\<lparr>km_router := router_committed E b (km_router m)\<rparr>)"
  by (auto simp: km_flow_def intro: ledger_committed)

text \<open>What the announced batches consist of.\<close>

lemma announced_from:
  assumes "km_inv E m" and "km_flow E subs R m" and "(h, b) \<in> set (bs_to_consensus (km_sink m))"
  shows "set (cb_payload b) \<subseteq> fst ` set subs"
proof -
  have "cb_payload b \<in> set (map (cb_payload \<circ> snd) (bs_to_consensus (km_sink m)))" using assms(3) by force
  moreover have eq: "map (cb_payload \<circ> snd) (bs_to_consensus (km_sink m)) =
      map cb_payload (take (km_sealed_taken m) (outgoing (km_batcher m)))" using assms(1) by (simp add: km_inv_def)
  ultimately obtain c where "c \<in> set (outgoing (km_batcher m))" "cb_payload b = cb_payload c"
    unfolding eq by (auto dest: in_set_takeD)
  with assms(2) show ?thesis by (auto simp: km_flow_def batcher_from_def)
qed

lemma announced_once:
  assumes "km_inv E m" and "km_flow E subs R m"
  shows "distinct (map tx_key (concat (map (cb_payload \<circ> snd) (bs_to_consensus (km_sink m)))))"
proof -
  let ?n = "km_sealed_taken m" and ?out = "outgoing (km_batcher m)"
  have "sealed_keys (km_batcher m) =
      map tx_key (concat (map cb_payload (take ?n ?out))) @ map tx_key (concat (map cb_payload (drop ?n ?out)))"
    unfolding sealed_keys_def by (metis append_take_drop_id concat_append map_append)
  moreover have "distinct (sealed_keys (km_batcher m))" using assms(2) by (simp add: km_flow_def batcher_from_def)
  moreover have "map (cb_payload \<circ> snd) (bs_to_consensus (km_sink m)) = map cb_payload (take ?n ?out)"
    using assms(1) by (simp add: km_inv_def)
  ultimately show ?thesis by simp
qed

section \<open>From a submission to an announced batch\<close>

text \<open>
  A fresh mempool of the first leader, given one transaction that is short of the batch size: the
  timer seals it and the seal task announces it.
\<close>

lemma fresh_mempool_announces:
  assumes "pm_my_id params = pm_initial_leader params" and "0 < tx_nonce tx"
    and "tx_serialized_size E tx = Some sz" and "sz \<le> pm_batch_size params" and "0 < pm_batch_size params" and "sz < 2 ^ 64"
  obtains m1 m2 m3 m4 b where
    "km_task E (Some (Some (NewTx tx a))) (KeyedMempool_spawn params st) m1" "km_task E None m1 m2" "km_task E None m2 m3" "km_task E None m3 m4"
    "km_sink m1 = batch_sink_new st" "km_sink m2 = batch_sink_new st" "km_sink m3 = batch_sink_new st"
    "ls_to_router (km_listener m4) = [(hash_tx E tx, a)]" "km_router m4 = router_new" "km_router_taken m4 = 0"
    "km_batcher_taken m4 = length (ls_to_batcher (km_listener m4))" "km_sealed_taken m4 = length (outgoing (km_batcher m4))"
    "bs_to_consensus (km_sink m4) = [(batch_digest E [tx], b)]" "cb_payload b = [tx]"
    "bs_cache (km_sink m4) = cache_insert (batch_digest E [tx]) b (BatchCache_new 1024)"
proof -
  let ?m0 = "KeyedMempool_spawn params st"
  let ?l = "listener_new\<lparr>ls_to_router := [(hash_tx E tx, a)], ls_to_batcher := [(tx, sz)]\<rparr>"
  let ?m1 = "?m0\<lparr>km_listener := ?l\<rparr>"
  let ?p = "(Txpool_new (pm_batch_size params))\<lparr>mineable := [(tx_key tx, tx, sz)], mineable_bytes := sz\<rparr>"
  let ?b2 = "(RRBatcher_spawn params)\<lparr>pool := ?p\<rparr>"
  let ?m2 = "?m1\<lparr>km_batcher := ?b2, km_batcher_taken := 1\<rparr>"
  have l: "on_client_msg E True True (Some (NewTx tx a)) listener_new = ?l"
    by (simp add: on_client_msg_def listen_tx_def listener_new_def assms(3) Let_def)
  have t1: "km_task E (Some (Some (NewTx tx a))) ?m0 ?m1"
    using km_client [of E "Some (NewTx tx a)" ?m0] by (simp add: KeyedMempool_spawn_def l)
  have add: "add_tx tx sz (Txpool_new (pm_batch_size params)) = Inr ?p"
    using assms(2,6) by (simp add: add_tx_def Txpool_new_def hi_nonce_def bt_get_def add_u64_def Let_def assert_disjoint_def
        key_sets_disjoint_def tx_key_def)
  have "rr_step E (IncomingTx (Some (tx, sz))) (RRBatcher_spawn params) ?b2"
    using add assms(1,4) by (intro rr_step.intros) (simp_all add: on_incoming_tx_def RRBatcher_spawn_def ready_def Let_def Txpool_new_def)
  then have t2: "km_task E None ?m1 ?m2"
    using km_tx [of ?m1 E ?b2] by (simp add: KeyedMempool_spawn_def)
  have "pool_inv ?p" using pool_inv_add_tx [OF pool_inv_new] add by blast
  moreover have "seal (pool_batch_size ?p) 0 (mineable ?p) = ([(tx_key tx, tx, sz)], [])"
    using assms(5) by (simp add: Txpool_new_def)
  ultimately obtain p3 where mk: "make_batch 0 ?p = Inr ([tx], p3)"
    using make_batch_seal [of ?p "[(tx_key tx, tx, sz)]" "[]" 0] by auto
  let ?b3 = "?b2\<lparr>pool := p3, proposed := True, outgoing := [CachedBatch_new [tx]]\<rparr>"
  let ?m3 = "?m2\<lparr>km_batcher := ?b3\<rparr>"
  have "rr_step E Tick ?b2 ?b3"
    using mk assms(1) by (intro rr_step.intros)
      (simp_all add: on_tick_def seal_and_propose_def propose_def can_propose_def RRBatcher_spawn_def Let_def)
  then have t3: "km_task E None ?m2 ?m3" using km_tick [of E ?m2 ?b3] by simp
  let ?m4 = "?m3\<lparr>km_sink := process_batch E True (CachedBatch_new [tx]) (batch_sink_new st), km_sealed_taken := 1\<rparr>"
  have t4: "km_task E None ?m3 ?m4" using km_seal [of ?m3 E] by (simp add: KeyedMempool_spawn_def)
  obtain h b where hb: "CachedBatch_hash E (CachedBatch_new [tx]) = (h, b)" by fastforce
  then have h: "h = batch_digest E [tx]" "cb_payload b = [tx]"
    using CachedBatch_hash_ok [of E "CachedBatch_new [tx]"] by simp_all
  show thesis
    by (rule that [OF t1 t2 t3 t4, of b])
      (use hb h in \<open>simp_all add: KeyedMempool_spawn_def process_batch_def batch_sink_new_def Let_def\<close>)
qed

end
