(* ===== verification/Replica.thy ===== *)
theory Replica
  imports Mempool_Flow Node_Common "HOL-Library.Sublist"
begin

text \<open>
  A replica of Apollo or Artemis as its \<open>main.rs\<close> assembles it: the keyed mempool and the node's
  reactor, tasks of one process that share the batch cache and the batch store and talk over three
  channels (announced batches to the node, round signals to the batcher, committed batches to the
  confirmation router). The definitions are generic in the node, whose operations are a record of
  functions; the interface \<open>keyed_node\<close> states what a node promises to the mempool and proves the
  properties of the whole once. The theories \<open>Apollo_Replica\<close> and \<open>Artemis_Replica\<close> interpret it.
\<close>

section \<open>The assembled replica\<close>

record ('c, 'e) node_ops =
  no_batches :: "'c \<Rightarrow> batch_ctx"
  no_set_batches :: "batch_ctx \<Rightarrow> 'c \<Rightarrow> 'c"
  no_react :: "'e \<Rightarrow> 'c \<Rightarrow> 'c reactor_outcome res"
  no_ready :: "hash \<Rightarrow> cached_batch \<Rightarrow> 'e"

record 'c keyed_system =
  ks_mempool :: keyed_mempool
  ks_node :: 'c
  ks_batches_taken :: nat
  ks_signals_taken :: nat
  ks_commits_taken :: nat

text \<open>
  The cache (behind an \<open>Arc\<close>) and the store (a handle to one database) are shared: whoever moves, the
  other side sees the result.
\<close>

definition share_node :: "('c, 'e) node_ops \<Rightarrow> 'c \<Rightarrow> 'c keyed_system \<Rightarrow> 'c keyed_system" where
  "share_node N c s =
     s\<lparr>ks_node := c,
       ks_mempool := (ks_mempool s)\<lparr>km_sink := (km_sink (ks_mempool s))
         \<lparr>bs_cache := bx_cache (no_batches N c), bs_store := bx_store (no_batches N c)\<rparr>\<rparr>\<rparr>"

definition share_mempool :: "('c, 'e) node_ops \<Rightarrow> keyed_mempool \<Rightarrow> 'c keyed_system \<Rightarrow> 'c keyed_system" where
  "share_mempool N m s =
     s\<lparr>ks_mempool := m,
       ks_node := no_set_batches N ((no_batches N (ks_node s))
         \<lparr>bx_cache := bs_cache (km_sink m), bx_store := bs_store (km_sink m)\<rparr>) (ks_node s)\<rparr>"

definition ks_start :: "keyed_mempool \<Rightarrow> 'c \<Rightarrow> 'c keyed_system" where
  "ks_start m c = \<lparr>ks_mempool = m, ks_node = c, ks_batches_taken = 0, ks_signals_taken = 0, ks_commits_taken = 0\<rparr>"

text \<open>
  One task handles one message. The events in \<open>ok\<close> are what reaches the reactor from outside the
  process: messages of other replicas and timer ticks.
\<close>

inductive ks_step ::
  "ext \<Rightarrow> ('c, 'e) node_ops \<Rightarrow> ('e \<Rightarrow> bool) \<Rightarrow> client_msg option option \<Rightarrow> 'c keyed_system \<Rightarrow> 'c keyed_system \<Rightarrow> bool"
  for E N ok where
  ks_task: "km_task E l (ks_mempool s) m \<Longrightarrow> ks_step E N ok l s (share_mempool N m s)"
| ks_signal:
    "ks_signals_taken s < length (bx_to_batcher (no_batches N (ks_node s))) \<Longrightarrow>
     rr_step E (IncomingConsensus (Some (bx_to_batcher (no_batches N (ks_node s)) ! ks_signals_taken s)))
       (km_batcher (ks_mempool s)) b \<Longrightarrow>
     ks_step E N ok None s (s\<lparr>ks_mempool := (ks_mempool s)\<lparr>km_batcher := b\<rparr>, ks_signals_taken := Suc (ks_signals_taken s)\<rparr>)"
| ks_commit:
    "ks_commits_taken s < length (bx_to_router (no_batches N (ks_node s))) \<Longrightarrow>
     ks_step E N ok None s (s\<lparr>ks_mempool := (ks_mempool s)\<lparr>km_router :=
         router_committed E (bx_to_router (no_batches N (ks_node s)) ! ks_commits_taken s) (km_router (ks_mempool s))\<rparr>,
       ks_commits_taken := Suc (ks_commits_taken s)\<rparr>)"
| ks_batch:
    "ks_batches_taken s < length (bs_to_consensus (km_sink (ks_mempool s))) \<Longrightarrow>
     bs_to_consensus (km_sink (ks_mempool s)) ! ks_batches_taken s = (h, b) \<Longrightarrow>
     no_react N (no_ready N h b) (ks_node s) = Inr (Continue c) \<Longrightarrow>
     ks_step E N ok None s ((share_node N c s)\<lparr>ks_batches_taken := Suc (ks_batches_taken s)\<rparr>)"
| ks_input:
    "ok ev \<Longrightarrow> no_react N ev (ks_node s) = Inr (Continue c) \<Longrightarrow> ks_step E N ok None s (share_node N c s)"

inductive_cases ks_stepE: "ks_step E N ok l s s'"

text \<open>Runs, with what clients submitted in them.\<close>

inductive ks_run ::
  "ext \<Rightarrow> ('c, 'e) node_ops \<Rightarrow> ('e \<Rightarrow> bool) \<Rightarrow> 'c keyed_system \<Rightarrow> (transaction \<times> socket_addr) list \<Rightarrow> 'c keyed_system \<Rightarrow> bool"
  for E N ok s where
  ks_nil: "ks_run E N ok s [] s"
| ks_snoc: "ks_run E N ok s subs t \<Longrightarrow> ks_step E N ok l t u \<Longrightarrow> ks_run E N ok s (subs @ label_subs l) u"

section \<open>Batch contexts that only grow\<close>

definition grows :: "ext \<Rightarrow> batch_ctx \<Rightarrow> batch_ctx \<Rightarrow> bool" where
  "grows E x y \<longleftrightarrow>
     prefix (bx_to_router x) (bx_to_router y) \<and> prefix (bx_to_batcher x) (bx_to_batcher y) \<and>
     (\<forall>h. cache_get (bx_cache x) h \<noteq> None \<longrightarrow> cache_get (bx_cache y) h \<noteq> None) \<and>
     (\<forall>h. store_read E h (bx_store x) \<noteq> None \<longrightarrow> store_read E h (bx_store y) \<noteq> None)"

lemma grows_refl [simp]: "grows E x x"
  by (simp add: grows_def)

lemma grows_notify [simp]:
  "grows E x y \<Longrightarrow> grows E x (notify_batcher m y)"
  "grows E x y \<Longrightarrow> grows E x (notify_router b y)"
  "grows E x (y\<lparr>bx_pending := q\<rparr>) = grows E x y"
  by (auto simp: grows_def)

lemma grows_persist: "store_ok E \<Longrightarrow> grows E x y \<Longrightarrow> grows E x (persist_batch E h b y)"
  by (auto simp: grows_def persist_batch_def store_ok_def cache_insert_def cache_get_def fmmem_def)

lemma grows_read: "grows E x y \<Longrightarrow> grows E x (snd (read_batch E h y))"
  by (auto simp: grows_def read_batch_def cache_insert_def cache_get_def fmmem_def split: option.splits)

lemma batches_ok_notify [simp]:
  "batches_ok E (notify_batcher m x) = batches_ok E x"
  "batches_ok E (notify_router b x) = batches_ok E x"
  "batches_ok E (x\<lparr>bx_pending := q\<rparr>) = batches_ok E x"
  by (simp_all add: batches_ok_def)

section \<open>What a node puts on its channels\<close>

text \<open>
  \<open>C\<close> holds of the batches of committed blocks, \<open>S\<close> contains the transactions of every batch announced
  to the node, \<open>X\<close> is an earlier state of the batch context.
\<close>

fun signal_ok :: "(cached_batch \<Rightarrow> bool) \<Rightarrow> batcher_msg \<Rightarrow> bool" where
  "signal_ok C (Rollback rs) = False"
| "signal_ok C (Committed b r) = C b"
| "signal_ok C _ = True"

definition batch_flow ::
  "ext \<Rightarrow> (cached_batch \<Rightarrow> bool) \<Rightarrow> transaction set \<Rightarrow> batch_ctx \<Rightarrow> batch_ctx \<Rightarrow> bool" where
  "batch_flow E C S X x \<longleftrightarrow>
     batches_ok E x \<and> grows E X x \<and> (\<forall>b\<in>set (bx_to_router x). C b) \<and> (\<forall>m\<in>set (bx_to_batcher x). signal_ok C m) \<and>
     (\<forall>hb\<in>set (bx_pending x). set (cb_payload (snd hb)) \<subseteq> S)"

lemma batch_flow_mono:
  assumes "batch_flow E C S X x" and "\<And>b. C b \<Longrightarrow> C' b" and "S \<subseteq> S'"
  shows "batch_flow E C' S' X x"
proof -
  have "signal_ok C' m" if "signal_ok C m" for m using that assms(2) by (cases m) auto
  with assms show ?thesis by (fastforce simp: batch_flow_def)
qed

lemma batch_flow_here: "batch_flow E C S X x \<Longrightarrow> batch_flow E C S x x"
  by (simp add: batch_flow_def)

lemma batch_flow_notify:
  "batch_flow E C S X x \<Longrightarrow> signal_ok C m \<Longrightarrow> batch_flow E C S X (notify_batcher m x)"
  "batch_flow E C S X x \<Longrightarrow> C b \<Longrightarrow> batch_flow E C S X (notify_router b x)"
  by (simp_all add: batch_flow_def)

lemma batch_flow_pending:
  "batch_flow E C S X x \<Longrightarrow> \<forall>hb\<in>set q. set (cb_payload (snd hb)) \<subseteq> S \<Longrightarrow> batch_flow E C S X (x\<lparr>bx_pending := q\<rparr>)"
  by (simp add: batch_flow_def)

lemma batch_flow_read:
  assumes "batch_flow E C S X x" and "read_batch E h x = (r, y)"
  shows "batch_flow E C S X y" and "r = Some b \<Longrightarrow> good_batch E h b"
proof -
  have y: "y = snd (read_batch E h x)" "r = fst (read_batch E h x)" using assms(2) by simp_all
  have ok: "batches_ok E x" using assms(1) by (simp add: batch_flow_def)
  show "batch_flow E C S X y"
    using assms(1) bio.inv_rd [OF ok, of h] by (simp add: batch_flow_def y grows_read)
  show "good_batch E h b" if "r = Some b" using bio.good_rd [OF ok, of h b] that by (simp add: y)
qed

lemma batch_flow_persist:
  assumes "batch_flow E C S X x" and "good_batch E h b"
  shows "batch_flow E C S X (persist_batch E h b x)"
proof -
  have "store_ok E" using assms(1) by (simp add: batch_flow_def batches_ok_def)
  with assms bio.inv_persist [of E x h b] show ?thesis by (simp add: batch_flow_def grows_persist)
qed

text \<open>The batch that the commit of a block announces to router and batcher.\<close>

lemma batch_flow_announce:
  assumes "batch_flow E C S X x" and "read_batch E h x = (Some batch, y)" and "\<And>b. good_batch E h b \<Longrightarrow> C b"
  shows "batch_flow E C S X (notify_router batch (notify_batcher (Committed batch r) y))"
  using batch_flow_read [OF assms(1,2)] assms(3) by (intro batch_flow_notify) simp_all

section \<open>What a node promises, and what follows for the replica\<close>

text \<open>
  \<open>node_ok S X c\<close> is the node's own invariant, with \<open>S\<close> and \<open>X\<close> as above, \<open>committed c\<close> its committed batches.
  The laws: an event from outside keeps it, and so does an announced batch over \<open>S\<close>; the channels are as
  \<open>batch_flow\<close> says; the mempool may change cache and store as long as they stay well formed.
\<close>

locale keyed_node =
  fixes E :: ext
    and N :: "('c, 'e) node_ops"
    and ok :: "'e \<Rightarrow> bool"
    and node_ok :: "transaction set \<Rightarrow> batch_ctx \<Rightarrow> 'c \<Rightarrow> bool"
    and committed :: "'c \<Rightarrow> cached_batch \<Rightarrow> bool"
  assumes ok_input: "node_ok S X c \<Longrightarrow> ok ev \<Longrightarrow> no_react N ev c = Inr (Continue c') \<Longrightarrow> node_ok S X c'"
    and ok_ready: "node_ok S X c \<Longrightarrow> set (cb_payload b) \<subseteq> S \<Longrightarrow> no_react N (no_ready N h b) c = Inr (Continue c') \<Longrightarrow> node_ok S X c'"
    and ok_flow: "node_ok S X c \<Longrightarrow> batch_flow E (committed c) S X (no_batches N c)"
    and ok_here: "node_ok S X c \<Longrightarrow> S \<subseteq> S' \<Longrightarrow> node_ok S' (no_batches N c) c"
    and ok_share: "node_ok S X c \<Longrightarrow> batch_flow E (committed c) S Y y \<Longrightarrow> node_ok S Y (no_set_batches N y c)"
    and get_set: "no_batches N (no_set_batches N y c) = y"
    and set_set: "no_set_batches N y (no_set_batches N x c) = no_set_batches N y c"
begin

definition ks_inv :: "(transaction \<times> socket_addr) list \<Rightarrow> 'c keyed_system \<Rightarrow> bool" where
  "ks_inv subs s \<longleftrightarrow>
     km_inv E (ks_mempool s) \<and> (\<exists>X. node_ok (fst ` set subs) X (ks_node s)) \<and>
     km_flow E subs (take (ks_commits_taken s) (bx_to_router (no_batches N (ks_node s)))) (ks_mempool s) \<and>
     ks_commits_taken s \<le> length (bx_to_router (no_batches N (ks_node s))) \<and>
     bx_cache (no_batches N (ks_node s)) = bs_cache (km_sink (ks_mempool s)) \<and>
     bx_store (no_batches N (ks_node s)) = bs_store (km_sink (ks_mempool s))"

lemma ks_inv_start:
  assumes "node_ok {} X c" and "bx_cache (no_batches N c) = BatchCache_new 1024" and "bx_store (no_batches N c) = st"
  shows "ks_inv [] (ks_start (KeyedMempool_spawn params st) c)"
  using assms km_inv_spawn [of E params st] km_flow_spawn [of E params st]
  by (auto simp: ks_inv_def ks_start_def KeyedMempool_spawn_def batch_sink_new_def)

text \<open>A step of the node: the mempool's announcements stay readable in what the node leaves behind.\<close>

lemma ks_inv_node:
  assumes inv: "ks_inv subs s" and here: "node_ok (fst ` set subs) (no_batches N (ks_node s)) c"
  shows "ks_inv subs (share_node N c s)"
proof -
  let ?m = "ks_mempool s" and ?x = "no_batches N (ks_node s)" and ?y = "no_batches N c"
  let ?k = "(km_sink ?m)\<lparr>bs_cache := bx_cache ?y, bs_store := bx_store ?y\<rparr>"
  have ok: "batches_ok E ?y" and grow: "grows E ?x ?y" using ok_flow [OF here] by (auto simp: batch_flow_def)
  have "sink_ok E ?k"
    unfolding sink_ok_def
  proof (intro conjI ballI, goal_cases)
    case 1
    show ?case using ok by (simp add: batches_ok_def)
  next
    case (2 e)
    obtain h b where e: "e = (h, b)" by (cases e)
    have old: "batch_ok E b" "h = batch_digest E (cb_payload b)" "cache_get (bx_cache ?x) h \<noteq> None" "store_read E h (bx_store ?x) \<noteq> None"
      using inv 2 e by (auto simp: ks_inv_def km_inv_def sink_ok_def)
    then have "cache_get (bx_cache ?y) h \<noteq> None" "store_read E h (bx_store ?y) \<noteq> None" using grow by (auto simp: grows_def)
    with old(1,2) ok e show ?case by (auto simp: batches_ok_def)
  qed
  then have "km_inv E (?m\<lparr>km_sink := ?k\<rparr>)" using inv by (simp add: ks_inv_def km_inv_def)
  moreover have "prefix (bx_to_router ?x) (bx_to_router ?y)" using grow by (simp add: grows_def)
  then have "take (ks_commits_taken s) (bx_to_router ?y) = take (ks_commits_taken s) (bx_to_router ?x)"
    and "length (bx_to_router ?x) \<le> length (bx_to_router ?y)"
    using inv by (auto simp: ks_inv_def prefix_def)
  ultimately show ?thesis
    using inv here by (auto simp: ks_inv_def share_node_def km_flow_def)
qed

text \<open>A step of the mempool: the node finds a well-formed cache and store.\<close>

lemma ks_inv_task:
  assumes inv: "ks_inv subs s" and task: "km_task E l (ks_mempool s) m"
  shows "ks_inv (subs @ label_subs l) (share_mempool N m s)"
proof -
  let ?m = "ks_mempool s" and ?x = "no_batches N (ks_node s)"
  let ?y = "?x\<lparr>bx_cache := bs_cache (km_sink m), bx_store := bs_store (km_sink m)\<rparr>"
  obtain X where node: "node_ok (fst ` set subs) X (ks_node s)" using inv by (auto simp: ks_inv_def)
  have here: "node_ok (fst ` set (subs @ label_subs l)) ?x (ks_node s)" by (rule ok_here [OF node]) auto
  have x: "batches_ok E ?x" using ok_flow [OF here] by (simp add: batch_flow_def)
  then have st: "store_ok E" by (simp add: batches_ok_def)
  have km: "km_inv E m" using st inv task by (auto simp: ks_inv_def intro: km_inv_task)
  have "\<exists>txs. bs = ser_batch E txs \<and> batch_digest E txs = h" if "store_read E h (bs_store (km_sink m)) = Some bs" for h bs
    using task
  proof cases
    case km_seal
    let ?b = "outgoing (km_batcher ?m) ! km_sealed_taken ?m"
    have "batch_ok E ?b" using inv km_seal(3) by (auto simp: ks_inv_def km_inv_def)
    note ok = CachedBatch_hash_ok [OF this]
    obtain k b where kb: "CachedBatch_hash E ?b = (k, b)" by fastforce
    show ?thesis
      using that km_seal kb ok x st inv
      by (auto simp: process_batch_def batches_ok_def store_ok_def CachedBatch_serialize_def ks_inv_def Let_def split: if_splits)
  qed (use that x inv in \<open>auto simp: ks_inv_def batches_ok_def\<close>)
  then have "batches_ok E ?y" using x km by (auto simp: batches_ok_def km_inv_def sink_ok_def)
  then have "batch_flow E (committed (ks_node s)) (fst ` set (subs @ label_subs l)) ?y ?y"
    using ok_flow [OF here] by (simp add: batch_flow_def)
  from ok_share [OF here this] have node': "node_ok (fst ` set (subs @ label_subs l)) ?y (no_set_batches N ?y (ks_node s))" .
  have "km_flow E (subs @ label_subs l) (take (ks_commits_taken s) (bx_to_router ?x)) m"
    using inv task by (intro km_flow_task [OF _ _ task]) (auto simp: ks_inv_def km_inv_def)
  with km node' inv show ?thesis by (auto simp: ks_inv_def share_mempool_def get_set)
qed

lemma ks_inv_step:
  assumes inv: "ks_inv subs s" and step: "ks_step E N ok l s s'"
  shows "ks_inv (subs @ label_subs l) s'"
proof -
  let ?m = "ks_mempool s" and ?x = "no_batches N (ks_node s)"
  obtain X where node: "node_ok (fst ` set subs) X (ks_node s)" using inv by (auto simp: ks_inv_def)
  have here: "node_ok (fst ` set subs) ?x (ks_node s)" by (rule ok_here [OF node]) simp
  have none [simp]: "label_subs None = []" by (simp add: label_subs_def)
  from step show ?thesis
  proof cases
    case (ks_task m)
    with ks_inv_task [OF inv] show ?thesis by simp
  next
    case (ks_signal b)
    let ?c = "bx_to_batcher ?x ! ks_signals_taken s"
    have "?c \<in> set (bx_to_batcher ?x)" using ks_signal(3) by simp
    then have "signal_ok (committed (ks_node s)) ?c" using ok_flow [OF here] by (auto simp: batch_flow_def)
    then have fwd: "?c \<noteq> Rollback rs" for rs by auto
    have km: "km_inv E ?m" "rr_inv (km_batcher ?m)" using inv by (auto simp: ks_inv_def km_inv_def)
    have "km_inv E (?m\<lparr>km_batcher := b\<rparr>)" using km(1) ks_signal(4) by (rule km_inv_consensus)
    moreover have "km_flow E subs (take (ks_commits_taken s) (bx_to_router ?x)) (?m\<lparr>km_batcher := b\<rparr>)"
      using inv by (intro km_flow_consensus [OF km(2) _ fwd ks_signal(4)]) (simp add: ks_inv_def)
    ultimately show ?thesis using inv ks_signal(1,2) by (auto simp: ks_inv_def)
  next
    case ks_commit
    then have "take (Suc (ks_commits_taken s)) (bx_to_router ?x) =
        take (ks_commits_taken s) (bx_to_router ?x) @ [bx_to_router ?x ! ks_commits_taken s]" by (simp add: take_Suc_conv_app_nth)
    with ks_commit inv show ?thesis by (auto simp: ks_inv_def intro: km_flow_committed)
  next
    case (ks_batch h b c)
    have "(h, b) \<in> set (bs_to_consensus (km_sink ?m))" using ks_batch(3,4) by (metis nth_mem)
    then have "set (cb_payload b) \<subseteq> fst ` set subs" using inv by (auto simp: ks_inv_def dest!: announced_from)
    from ks_inv_node [OF inv ok_ready [OF here this ks_batch(5)]] ks_batch show ?thesis
      by (simp add: ks_inv_def share_node_def)
  next
    case (ks_input ev c)
    with ks_inv_node [OF inv ok_input [OF here]] show ?thesis by simp
  qed
qed

lemma ks_inv_run: "ks_run E N ok s subs t \<Longrightarrow> ks_inv [] s \<Longrightarrow> ks_inv subs t"
  by (induction rule: ks_run.induct) (auto intro: ks_inv_step)

text \<open>The properties of the whole, for every state with the invariant.\<close>

lemma confirmations_sound:
  assumes "ks_inv subs s" and "(a, bs) \<in> set (rt_sent (km_router (ks_mempool s)))"
  shows "\<exists>tx b. (tx, a) \<in> set subs \<and> ser_client_msg E (Confirmation (hash_tx E tx)) = Some bs \<and>
    committed (ks_node s) b \<and> hash_tx E tx \<in> hash_tx E ` set (cb_payload b)"
proof -
  let ?R = "bx_to_router (no_batches N (ks_node s))"
  obtain X where node: "node_ok (fst ` set subs) X (ks_node s)" using assms(1) by (auto simp: ks_inv_def)
  obtain h b where h: "(h, a) \<in> set (ls_to_router (km_listener (ks_mempool s)))" "b \<in> set ?R"
      "h \<in> hash_tx E ` set (cb_payload b)" "ser_client_msg E (Confirmation h) = Some bs"
  proof -
    have "ledger E (take (km_router_taken (ks_mempool s)) (ls_to_router (km_listener (ks_mempool s))))
        (take (ks_commits_taken s) ?R) (km_router (ks_mempool s))"
      using assms(1) unfolding ks_inv_def km_flow_def by blast
    with assms(2) that show thesis unfolding ledger_def by (blast dest: in_set_takeD)
  qed
  have "committed (ks_node s) b" using ok_flow [OF node] h(2) by (auto simp: batch_flow_def)
  moreover obtain tx where "(tx, a) \<in> set subs" "h = hash_tx E tx"
    using assms(1) h(1) by (auto simp: ks_inv_def km_flow_def)
  ultimately show ?thesis using h(3,4) by blast
qed

lemma confirmations_charged:
  assumes "ks_inv subs s"
  shows "mset (rt_sent (km_router (ks_mempool s))) \<subseteq>#
    mset (map (\<lambda>(tx, a). (a, the (ser_client_msg E (Confirmation (hash_tx E tx))))) subs)"
proof (rule mset_subset_eqI)
  fix x
  let ?rt = "km_router (ks_mempool s)" and ?regs = "ls_to_router (km_listener (ks_mempool s))"
  let ?n = "km_router_taken (ks_mempool s)"
  have led: "ledger E (take ?n ?regs) (take (ks_commits_taken s) (bx_to_router (no_batches N (ks_node s)))) ?rt"
    and regs: "?regs = map (\<lambda>(tx, a). (hash_tx E tx, a)) subs"
    using assms by (auto simp: ks_inv_def km_flow_def)
  have "count_list (rt_sent ?rt) x \<le> count_list (map (conf_of E) (take ?n ?regs)) x"
    using led unfolding ledger_def by (meson add_leD1)
  also have "\<dots> \<le> count_list (map (conf_of E) (take ?n ?regs)) x + count_list (map (conf_of E) (drop ?n ?regs)) x" by simp
  also have "\<dots> = count_list (map (conf_of E) ?regs) x"
    by (metis append_take_drop_id count_list_append map_append)
  also have "map (conf_of E) ?regs = map (\<lambda>(tx, a). (a, the (ser_client_msg E (Confirmation (hash_tx E tx))))) subs"
    by (auto simp: regs conf_of_def)
  finally show "count (mset (rt_sent ?rt)) x \<le>
      count (mset (map (\<lambda>(tx, a). (a, the (ser_client_msg E (Confirmation (hash_tx E tx))))) subs)) x"
    by (simp only: count_mset)
qed

lemma announcements_sound:
  assumes "ks_inv subs s"
  shows "\<forall>(h, b)\<in>set (bs_to_consensus (km_sink (ks_mempool s))). set (cb_payload b) \<subseteq> fst ` set subs"
    and "distinct (map tx_key (concat (map (cb_payload \<circ> snd) (bs_to_consensus (km_sink (ks_mempool s))))))"
proof -
  have m: "km_inv E (ks_mempool s)" "km_flow E subs (take (ks_commits_taken s) (bx_to_router (no_batches N (ks_node s)))) (ks_mempool s)"
    using assms by (simp_all add: ks_inv_def)
  show "\<forall>(h, b)\<in>set (bs_to_consensus (km_sink (ks_mempool s))). set (cb_payload b) \<subseteq> fst ` set subs"
    using announced_from [OF m] by blast
  show "distinct (map tx_key (concat (map (cb_payload \<circ> snd) (bs_to_consensus (km_sink (ks_mempool s))))))"
    using announced_once [OF m] .
qed

text \<open>
  Progress up to the node: a fresh replica whose mempool leads can take one submitted transaction to
  the announcement of its batch.
\<close>

lemma fresh_run:
  assumes s: "s = ks_start (KeyedMempool_spawn params st) c"
    and "pm_my_id params = pm_initial_leader params" and "0 < tx_nonce tx"
    and "tx_serialized_size E tx = Some sz" and "sz \<le> pm_batch_size params" and "0 < pm_batch_size params" and "sz < 2 ^ 64"
  obtains m b where "ks_run E N ok s [(tx, a)] (share_mempool N m s)"
    "ls_to_router (km_listener m) = [(hash_tx E tx, a)]" "km_router m = router_new" "km_router_taken m = 0"
    "bs_to_consensus (km_sink m) = [(batch_digest E [tx], b)]" "cb_payload b = [tx]"
    "bs_cache (km_sink m) = cache_insert (batch_digest E [tx]) b (BatchCache_new 1024)"
proof -
  obtain m1 m2 m3 m4 b where
    tasks: "km_task E (Some (Some (NewTx tx a))) (KeyedMempool_spawn params st) m1" "km_task E None m1 m2" "km_task E None m2 m3" "km_task E None m3 m4"
    and m4: "ls_to_router (km_listener m4) = [(hash_tx E tx, a)]" "km_router m4 = router_new" "km_router_taken m4 = 0"
      "bs_to_consensus (km_sink m4) = [(batch_digest E [tx], b)]" "cb_payload b = [tx]"
      "bs_cache (km_sink m4) = cache_insert (batch_digest E [tx]) b (BatchCache_new 1024)"
    by (rule fresh_mempool_announces [OF assms(2-7), of a st])
  let ?s = "\<lambda>m. share_mempool N m s"
  have share: "share_mempool N m' (?s m) = ?s m'" for m m' by (simp add: share_mempool_def get_set set_set)
  have "ks_step E N ok (Some (Some (NewTx tx a))) s (?s m1)"
    using ks_task [of E _ s m1 N ok] tasks(1) by (simp add: s ks_start_def)
  then have "ks_run E N ok s [(tx, a)] (?s m1)"
    using ks_snoc [OF ks_nil] by (fastforce simp: label_subs_def submissions_def)
  moreover have "ks_run E N ok s [(tx, a)] (?s m')" if "ks_run E N ok s [(tx, a)] (?s m)" "km_task E None m m'" for m m'
    using ks_snoc [OF that(1) ks_task [of E None "?s m" m']] that(2) share by (simp add: label_subs_def) (simp add: share_mempool_def)
  ultimately have "ks_run E N ok s [(tx, a)] (?s m4)" using tasks(2-4) by blast
  with m4 that show thesis by blast
qed

end

section \<open>The services a replica starts from\<close>

text \<open>A store that holds what earlier runs wrote: serialised batches under their digests.\<close>

definition store_clean :: "ext \<Rightarrow> (bytes, bytes) fmap \<Rightarrow> bool" where
  "store_clean E st \<longleftrightarrow> (\<forall>h bs. store_read E h st = Some bs \<longrightarrow> (\<exists>txs. bs = ser_batch E txs \<and> batch_digest E txs = h))"

definition ext_ok :: "ext \<Rightarrow> (bytes, bytes) fmap \<Rightarrow> bool" where
  "ext_ok E st \<longleftrightarrow> store_ok E \<and> batch_codec_ok E \<and> store_clean E st"

lemma sample_ext_clean: "ext_ok sample_ext fmempty"
  using sample_store_ok sample_codec_ok by (simp add: ext_ok_def store_clean_def sample_ext_def)

end
