(* ===== verification/Apollo_Flow.thy ===== *)
theory Apollo_Flow
  imports Apollo_Safety Replica
begin

text \<open>
  What leaves an Apollo node on its three outputs, whatever arrives from the network: the batches it
  hands to the confirmation router are batches of committed blocks, the batcher is never told to roll
  back, and the batches in its own proposals are batches its mempool announced. \<open>flow E S X\<close> is the
  invariant, relative to a set \<open>S\<close> that contains the transactions of every announced batch and to an
  earlier state \<open>X\<close> of the node's batch context, of which nothing is lost. \<open>flows\<close> says of the result of a
  handler that it satisfies it. The composition with the mempool (theory
  \<open>Apollo_Replica\<close>) rests on these facts.
\<close>

section \<open>Invariant\<close>

text \<open>A batch that a committed block names.\<close>

definition committed_by :: "ext \<Rightarrow> block storage \<Rightarrow> cached_batch \<Rightarrow> bool" where
  "committed_by E st b \<longleftrightarrow>
     (\<exists>blk. is_committed_by_hash st (blk_hash blk) \<and> (blk = GENESIS_BLOCK E \<or> block_sealed E blk) \<and>
        good_batch E (blk_batch_hash blk) b)"

fun sent_ok :: "transaction set \<Rightarrow> apollo_msg \<Rightarrow> bool" where
  "sent_ok S (ApNewProposal p b batch) = (set (cb_payload batch) \<subseteq> S)"
| "sent_ok S _ = True"

definition flow :: "ext \<Rightarrow> transaction set \<Rightarrow> batch_ctx \<Rightarrow> apollo_cx \<Rightarrow> bool" where
  "flow E S X cx \<longleftrightarrow>
     batch_flow E (committed_by E (ax_storage cx)) S X (ax_batch cx) \<and> stored_sealed E (ax_storage cx) \<and>
     (\<forall>dm\<in>set (nx_sent (ax_net cx)). sent_ok S (snd dm)) \<and>
     (\<forall>(s, p, b, batch)\<in>set (prop_buf cx). block_sealed E b \<and> batch_ok E batch)"

abbreviation flows :: "ext \<Rightarrow> transaction set \<Rightarrow> batch_ctx \<Rightarrow> apollo_cx res \<Rightarrow> bool" where
  "flows E S X \<equiv> rkeeps (flow E S X) UNIV"

section \<open>Small steps\<close>

lemma committed_by_mono:
  "committed_by E st b \<Longrightarrow> (\<And>h. is_committed_by_hash st h \<Longrightarrow> is_committed_by_hash st' h) \<Longrightarrow> committed_by E st' b"
  by (auto simp: committed_by_def)

lemma flow_frame [simp]:
  "flow E S X (cx\<lparr>future_msgs := a\<rparr>) = flow E S X cx"
  "flow E S X (cx\<lparr>prop_waiting := w\<rparr>) = flow E S X cx"
  "flow E S X (cx\<lparr>prop_waiting_parent := w\<rparr>) = flow E S X cx"
  "flow E S X (cx\<lparr>relay_buf := l\<rparr>) = flow E S X cx"
  "flow E S X (cx\<lparr>ax_other_buf := ob\<rparr>) = flow E S X cx"
  "flow E S X (cx\<lparr>ax_last_seen_block := b\<rparr>) = flow E S X cx"
  "flow E S X (cx\<lparr>ax_round_leader := l', ax_round := r\<rparr>) = flow E S X cx"
  "flow E S X (cx\<lparr>ax_bench_committed_tx_count := n\<rparr>) = flow E S X cx"
  "flow E S X (cx\<lparr>prop_chain_by_hash := ph\<rparr>) = flow E S X cx"
  "flow E S X (cx\<lparr>prop_chain_by_round := pr\<rparr>) = flow E S X cx"
  by (simp_all add: flow_def)

lemma flow_notify: "flow E S X cx \<Longrightarrow> signal_ok (committed_by E (ax_storage cx)) m \<Longrightarrow> flow E S X (apollo_notify m cx)"
  by (simp add: flow_def apollo_notify_def batch_flow_notify)

lemma flow_send: "flow E S X cx \<Longrightarrow> sent_ok S msg \<Longrightarrow> flow E S X (apollo_send E' d msg cx)"
  by (auto simp: flow_def apollo_send_def send_sent)

lemma flow_multicast: "flow E S X cx \<Longrightarrow> sent_ok S msg \<Longrightarrow> flow E S X (apollo_multicast E' msg cx)"
  by (auto simp: flow_def apollo_multicast_def)

lemma flow_gc: "flow E S X cx \<Longrightarrow> flow E S X (cx\<lparr>ax_net := gc_handlers E' (ax_net cx)\<rparr>)"
  by (simp add: flow_def)

lemma flow_storage:
  assumes "flow E S X cx" and "stored_sealed E st"
    and "\<And>h. is_committed_by_hash (ax_storage cx) h \<Longrightarrow> is_committed_by_hash st h"
  shows "flow E S X (cx\<lparr>ax_storage := st\<rparr>)"
proof -
  have "batch_flow E (committed_by E st) S X (ax_batch cx)"
    using assms(1,3) by (auto simp: flow_def intro: batch_flow_mono committed_by_mono)
  with assms show ?thesis by (simp add: flow_def)
qed

lemma flow_deliver:
  assumes "flow E S X cx" and "b = GENESIS_BLOCK E \<or> block_sealed E b"
  shows "flow E S X (deliver_block b cx)"
  using assms unfolding deliver_block_def by (intro flow_storage) (auto simp: flow_def stored_sealed_def)

lemma flow_stored:
  "flow E S X cx \<Longrightarrow> delivered_block_from_hash (ax_storage cx) h = Some b \<Longrightarrow> b = GENESIS_BLOCK E \<or> block_sealed E b"
  by (auto simp: flow_def stored_sealed_def)

lemma flow_batch: "flow E S X cx \<Longrightarrow> batch_flow E (committed_by E (ax_storage cx)) S X x \<Longrightarrow> flow E S X (cx\<lparr>ax_batch := x\<rparr>)"
  by (simp add: flow_def)

lemma flow_batchD: "flow E S X cx \<Longrightarrow> batch_flow E (committed_by E (ax_storage cx)) S X (ax_batch cx)"
  by (simp add: flow_def)

lemma flow_read: "flow E S X cx \<Longrightarrow> read_batch E h (ax_batch cx) = (r, x) \<Longrightarrow> flow E S X (cx\<lparr>ax_batch := x\<rparr>)"
  using flow_batch batch_flow_read [OF flow_batchD] by blast

lemma flow_persist: "flow E S X cx \<Longrightarrow> good_batch E h b \<Longrightarrow> flow E S X (cx\<lparr>ax_batch := persist_batch E h b (ax_batch cx)\<rparr>)"
  by (blast intro: flow_batch batch_flow_persist flow_batchD)

section \<open>Commit\<close>

lemma flow_announce:
  assumes "flow E S X cx" and "is_committed_by_hash (ax_storage cx) (blk_hash b)" and "b = GENESIS_BLOCK E \<or> block_sealed E b"
  shows "flow E S X (apollo_announce_commit E b cx)"
proof -
  obtain r x where rd: "read_batch E (blk_batch_hash b) (ax_batch cx) = (r, x)" by fastforce
  show ?thesis
  proof (cases r)
    case None
    with flow_read [OF assms(1) rd] show ?thesis by (simp add: apollo_announce_commit_def rd)
  next
    case (Some batch)
    have "committed_by E (ax_storage cx) c" if "good_batch E (blk_batch_hash b) c" for c
      using assms(2,3) that by (auto simp: committed_by_def)
    from batch_flow_announce [OF flow_batchD [OF assms(1)] rd [unfolded Some] this] assms(1) show ?thesis
      by (simp add: apollo_announce_commit_def rd Some flow_def)
  qed
qed

lemma flow_announce_all:
  assumes "flow E S X cx" and "\<forall>b\<in>set bs. is_committed_by_hash (ax_storage cx) (blk_hash b) \<and> (b = GENESIS_BLOCK E \<or> block_sealed E b)"
  shows "flow E S X (fold (apollo_announce_commit E) bs cx)"
  using assms
proof (induction bs arbitrary: cx)
  case (Cons b bs)
  then have "flow E S X (apollo_announce_commit E b cx)" by (intro flow_announce) simp_all
  with Cons show ?case by simp
qed simp

lemma flows_commit:
  assumes "flow E S X cx"
  shows "flows E S X (apollo_do_commit E cx)"
proof (cases "apollo_do_commit E cx")
  case (Inr cx')
  from apollo_do_commit_result [OF Inr] obtain p :: apollo_propose and newly st where
    walk: "commit_chain block_get_hash block_get_height prev_of (ap_block_hash p) (ax_storage cx) = Inr (newly, st)"
    and cx': "cx' = fold (apollo_announce_commit E) (rev newly) (cx\<lparr>ax_storage := st\<rparr>)"
    by metis
  from commit_walk_found [OF walk [unfolded commit_chain_def]] have
    st: "st = commit_all block_get_hash block_get_height newly (ax_storage cx)"
    and found: "\<forall>b\<in>set newly. \<exists>k. delivered_block_from_hash (ax_storage cx) k = Some b" by auto
  have "flow E S X (cx\<lparr>ax_storage := st\<rparr>)"
    using assms by (intro flow_storage) (auto simp: flow_def st stored_sealed_def)
  moreover have "\<forall>b\<in>set (rev newly). is_committed_by_hash st (blk_hash b) \<and> (b = GENESIS_BLOCK E \<or> block_sealed E b)"
    using found flow_stored [OF assms] by (fastforce simp: st block_get_hash_def)
  ultimately show ?thesis using flow_announce_all [of E S X "cx\<lparr>ax_storage := st\<rparr>" "rev newly"] by (simp add: Inr cx')
qed simp

section \<open>Proposals\<close>

lemma flow_accept:
  assumes "flow E S X cx"
  shows "flow E S X (apollo_accept E p b l cx)"
proof -
  let ?c = "(apollo_send E l (ApRelay (ax_myid cx) p) cx)\<lparr>prop_chain_by_hash := fmupd (ap_block_hash p) p (prop_chain_by_hash cx),
      prop_chain_by_round := fmupd (ap_round p) p (prop_chain_by_round cx)\<rparr>"
  have c: "flow E S X ?c" using flow_send [OF assms] by simp
  obtain r x where rd: "read_batch E (blk_batch_hash b) (ax_batch ?c) = (r, x)" by fastforce
  have "flow E S X (?c\<lparr>ax_batch := x\<rparr>)" using flow_read [OF c rd] .
  with rd show ?thesis
    by (auto simp: apollo_accept_def Let_def apollo_send_def intro: flow_notify split: option.splits)
qed

lemma flows_update:
  assumes "flow E S X cx"
  shows "flows E S X (apollo_update_round E cx)"
proof (cases "apollo_update_round E cx")
  case (Inr cx')
  then show ?thesis
  proof (elim apollo_update_round_result)
    fix l
    let ?n = "apollo_notify (NewRound l (ax_round cx + 1)) (cx\<lparr>ax_round_leader := l, ax_round := ax_round cx + 1\<rparr>)"
    assume "cx' = ?n\<lparr>ax_net := gc_handlers E (ax_net cx)\<rparr>"
    moreover have "flow E S X ?n" using assms by (intro flow_notify) simp_all
    then have "flow E S X (?n\<lparr>ax_net := gc_handlers E (ax_net ?n)\<rparr>)" by (rule flow_gc)
    ultimately show ?thesis by (simp add: Inr apollo_notify_def)
  qed
qed simp

lemma flows_receive: "flow E S X cx \<Longrightarrow> flows E S X (apollo_on_receive_proposal E p b cx)"
  by (auto simp: apollo_on_receive_proposal_def Let_def
      intro!: rkeeps_bind [where P = "\<lambda>_. True"] rkeeps_bind [where P = "flow E S X"] flows_update flows_commit flow_accept)

lemma flows_try: "flow E S X cx \<Longrightarrow> flows E S X (apollo_try_receive_proposal E p b from cx)"
  by (auto simp: apollo_try_receive_proposal_def flows_receive intro!: rkeeps_bind [where P = "\<lambda>_. True"])

lemma flows_queue_or_try: "flow E S X cx \<Longrightarrow> flows E S X (apollo_queue_or_try E p b from cx)"
  by (simp add: apollo_queue_or_try_def flows_try)

lemma flows_children: "flow E S X cx \<Longrightarrow> flows E S X (apollo_children E sender h cx)"
proof (induction E sender h cx rule: apollo_children.induct)
  case (1 E sender h cx)
  show ?case
  proof (cases "fmlookup (prop_waiting_parent cx) h")
    case None
    with 1(2) show ?thesis by (simp add: apollo_children.simps [of E sender h])
  next
    case (Some p)
    let ?cx = "cx\<lparr>prop_waiting_parent := fmdrop h (prop_waiting_parent cx)\<rparr>"
    have "flows E S X (apollo_queue_or_try E p c sender ?cx)" for c using 1(2) by (intro flows_queue_or_try) simp
    then show ?thesis
      using Some 1(1) [OF Some]
      by (auto simp: apollo_children.simps [of E sender h cx] intro!: rkeeps_bind [where P = "\<lambda>_. True"] rkeeps_bind [where P = "flow E S X"])
  qed
qed

lemma flows_deliver_known:
  assumes "flow E S X cx" and "b = GENESIS_BLOCK E \<or> block_sealed E b"
  shows "flows E S X (apollo_deliver_known E sender p b cx)"
proof -
  have "flow E S X (deliver_block b cx)" using assms by (rule flow_deliver)
  then show ?thesis
    by (auto simp: apollo_deliver_known_def apollo_request_def Let_def
        intro!: rkeeps_bind [where P = "flow E S X"] flows_queue_or_try flows_children flow_send)
qed

lemma flows_delivery_check:
  assumes "flow E S X cx" and "\<And>b ba. bb = Some (b, ba) \<Longrightarrow> block_sealed E b \<and> batch_ok E ba"
  shows "flows E S X (apollo_delivery_check E sender p bb cx)"
proof (cases bb)
  case None
  with assms(1) flow_stored [OF assms(1)] show ?thesis
    by (auto simp: apollo_delivery_check_def apollo_request_def split: option.splits
        intro!: flows_deliver_known flow_send)
next
  case (Some e)
  obtain b ba where e: "e = (b, ba)" by (cases e)
  with Some assms(2) have ok: "block_sealed E b" "batch_ok E ba" by auto
  have "good_batch E (blk_batch_hash b) (snd (CachedBatch_hash E ba))" if "apollo_check_batch_hash E b ba"
    using that CachedBatch_hash_ok [OF ok(2)] by (simp add: apollo_check_batch_hash_def good_batch_def)
  with assms(1) ok(1) show ?thesis
    by (auto simp: apollo_delivery_check_def Some e intro!: flows_deliver_known flow_persist)
qed

section \<open>The reactor\<close>

lemma flows_replay: "flow E S X cx \<Longrightarrow> flows E S X (apollo_replay E fuel cx)"
proof (induction fuel arbitrary: cx)
  case 0
  then show ?case by (simp add: apollo_replay.simps [of E 0] split: option.splits prod.splits)
next
  case (Suc n)
  then show ?case
    by (auto simp: apollo_replay.simps [of E "Suc n"] split: option.splits prod.splits
        intro!: rkeeps_bind [where P = "flow E S X"] flows_delivery_check)
qed

lemma flow_buf: "flow E S X cx \<Longrightarrow> flow E S X (cx\<lparr>prop_buf := []\<rparr>)"
  by (simp add: flow_def)

lemma flow_recv_request: "flow E S X cx \<Longrightarrow> flow E S X (apollo_on_recv_request E sender req_id h cx)"
  by (auto simp: apollo_on_recv_request_def Let_def dest: flow_read intro!: flow_send
      split: option.splits prod.splits)

lemma flows_other: "flow E S X cx \<Longrightarrow> flows E S X (apollo_handle_other E m cx)"
  by (cases m) (simp_all add: apollo_handle_other_def apollo_on_receive_blame_def flow_recv_request)

lemma flows_process:
  assumes "flow E S X cx"
  shows "flows E S X (apollo_process_message E cx)"
  unfolding apollo_process_message_def
proof (intro rkeeps_bind)
  show "flows E S X (rfold (\<lambda>(sender, p, b, batch). apollo_delivery_check E sender p (Some (b, batch))) (prop_buf cx) (cx\<lparr>prop_buf := []\<rparr>))"
  proof (intro rkeeps_rfold)
    fix x c assume "x \<in> set (prop_buf cx)" and "flow E S X c"
    with assms show "flows E S X ((\<lambda>(sender, p, b, batch). apollo_delivery_check E sender p (Some (b, batch))) x c)"
      by (cases x) (auto simp: flow_def [of E S X cx] intro!: flows_delivery_check)
  qed (use assms in \<open>simp add: flow_buf\<close>)
  show "flows E S X (rfold (\<lambda>(sender, p). apollo_delivery_check E sender p None) (relay_buf c) (c\<lparr>relay_buf := []\<rparr>))"
    if "flow E S X c" for c using that by (intro rkeeps_rfold) (auto intro!: flows_delivery_check)
  show "flows E S X (rfold (apollo_handle_other E) (ax_other_buf c) (c\<lparr>ax_other_buf := []\<rparr>))" if "flow E S X c" for c
    using that by (intro rkeeps_rfold) (auto intro: flows_other)
  show "flows E S X (apollo_replay E (2 * apollo_backlog c + 2) c)" if "flow E S X c" for c using that by (rule flows_replay)
qed

lemma flows_propose:
  assumes "flow E S X cx" and "set (cb_payload batch) \<subseteq> S"
  shows "flows E S X (apollo_do_propose E bh batch cx)"
proof -
  have "flow E S X (deliver_block nb (apollo_notify (Proposed batch r) (apollo_multicast E (ApNewProposal p nb batch) cx)))"
    if "apollo_new_block E bh cx = Inr nb" for nb p r
    using assms that
    by (intro flow_deliver flow_notify flow_multicast) (auto simp: apollo_new_block_def Let_def)
  then show ?thesis
    unfolding apollo_do_propose_def Let_def
    by (intro rkeeps_bind [where P = "\<lambda>_. True"] flows_receive rkeeps_any)
qed

lemma flow_pending:
  "flow E S X cx \<Longrightarrow> \<forall>hb\<in>set q. set (cb_payload (snd hb)) \<subseteq> S \<Longrightarrow> flow E S X (cx\<lparr>ax_batch := (ax_batch cx)\<lparr>bx_pending := q\<rparr>\<rparr>)"
  by (simp add: flow_def batch_flow_pending)

lemma flow_pendingD: "flow E S X cx \<Longrightarrow> hb \<in> set (bx_pending (ax_batch cx)) \<Longrightarrow> set (cb_payload (snd hb)) \<subseteq> S"
  by (simp add: flow_def batch_flow_def)

lemma flows_drain: "flow E S X cx \<Longrightarrow> flows E S X (apollo_drain E cx)"
proof (induction E cx rule: apollo_drain.induct)
  case (1 E cx)
  show ?case
  proof (cases "ax_round_leader cx = ax_myid cx \<and> bx_pending (ax_batch cx) \<noteq> []")
    case False
    with 1(2) show ?thesis by (auto simp: apollo_drain.simps [of E cx] split: list.splits)
  next
    case True
    then obtain bh ba rest where pend: "bx_pending (ax_batch cx) = (bh, ba) # rest" by (cases "bx_pending (ax_batch cx)") auto
    then have "\<forall>hb\<in>set ((bh, ba) # rest). set (cb_payload (snd hb)) \<subseteq> S" using flow_pendingD [OF 1(2)] by simp
    then have "flows E S X (apollo_do_propose E bh ba (cx\<lparr>ax_batch := (ax_batch cx)\<lparr>bx_pending := rest\<rparr>\<rparr>))"
      using 1(2) by (intro flows_propose flow_pending) auto
    then show ?thesis
      using True pend 1(1) [OF _ pend refl] by (auto simp: apollo_drain.simps [of E cx] intro!: rkeeps_bind [where P = "flow E S X"])
  qed
qed

text \<open>
  Over the network, blocks and batches are what their decoders build: a block carries its own hash,
  and the lazy cells of a batch, which are not part of the encoding, are empty or right.
\<close>

fun msg_decoded :: "ext \<Rightarrow> apollo_msg \<Rightarrow> bool" where
  "msg_decoded E (ApNewProposal p b batch) = (block_sealed E b \<and> batch_ok E batch)"
| "msg_decoded E (ApResponse f r p b batch) = (block_sealed E b \<and> batch_ok E batch)"
| "msg_decoded E _ = True"

lemma msg_decoded_sealed: "msg_decoded E m \<Longrightarrow> msg_sealed E m"
  by (cases m) simp_all

lemma flow_handle: "flow E S X cx \<Longrightarrow> msg_decoded E m \<Longrightarrow> flow E S X (apollo_handle_message m cx)"
  by (cases m) (auto simp: apollo_handle_message_def flow_def)

lemma flow_handle_all: "flow E S X cx \<Longrightarrow> list_all (msg_decoded E) ms \<Longrightarrow> flow E S X (fold apollo_handle_message ms cx)"
  by (induction ms arbitrary: cx) (auto intro: flow_handle)

fun event_decoded :: "ext \<Rightarrow> transaction set \<Rightarrow> apollo_event \<Rightarrow> bool" where
  "event_decoded E S (ApNet msgs) = list_all (msg_decoded E) msgs"
| "event_decoded E S (ApBatchReady bh batch) = (set (cb_payload batch) \<subseteq> S)"
| "event_decoded E S _ = True"

lemma event_decoded_sealed: "event_decoded E S ev \<Longrightarrow> event_sealed E ev"
  by (cases ev) (auto simp: list_all_iff intro: msg_decoded_sealed)

lemma flow_reactor_step:
  assumes "flow E S X cx" and "event_decoded E S ev" and "apollo_reactor_step E ev cx = Inr (Continue cx')"
  shows "flow E S X cx'"
proof -
  have drain: "flow E S X c'" if "apollo_drain E c = Inr c'" "flow E S X c" for c c'
    using flows_drain [OF that(2)] that(1) by simp
  have process: "flow E S X c'" if "apollo_process_message E c = Inr c'" "flow E S X c" for c c'
    using flows_process [OF that(2)] that(1) by simp
  show ?thesis
  proof (cases ev)
    case ApTick
    with assms show ?thesis by (auto simp: apollo_reactor_step_def intro: drain split: if_splits)
  next
    case (ApNet msgs)
    with assms flow_handle_all [OF assms(1)] show ?thesis by (auto simp: apollo_reactor_step_def intro: drain process)
  next
    case (ApBatchReady bh batch)
    have "flow E S X (cx\<lparr>ax_batch := (ax_batch cx)\<lparr>bx_pending := bx_pending (ax_batch cx) @ [(bh, batch)]\<rparr>\<rparr>)"
      using assms(1,2) flow_pendingD [OF assms(1)] ApBatchReady by (intro flow_pending) auto
    with assms(3) ApBatchReady show ?thesis by (auto simp: apollo_reactor_step_def intro: drain)
  qed (use assms in \<open>simp_all add: apollo_reactor_step_def\<close>)
qed

end
