(* ===== verification/Apollo_Replica.thy ===== *)
theory Apollo_Replica
  imports Apollo_Flow
begin

text \<open>
  An Apollo replica: the composition of \<open>Replica\<close> with the Apollo node, started as
  \<open>examples/apollo/node/src/main.rs\<close> does. The node fulfils the interface \<open>keyed_node\<close>, so that the
  properties of the composed process follow; a run from a client's frame to its confirmation shows that
  they are not vacuous, and a variation of it that a confirmation can be lost.
\<close>

section \<open>The replica\<close>

definition apollo_ops :: "ext \<Rightarrow> (apollo_cx, apollo_event) node_ops" where
  "apollo_ops E =
     \<lparr>no_batches = ax_batch, no_set_batches = (\<lambda>x cx. cx\<lparr>ax_batch := x\<rparr>),
      no_react = apollo_reactor_step E, no_ready = ApBatchReady\<rparr>"

lemma apollo_ops_simps [simp]:
  "no_batches (apollo_ops E) = ax_batch" "no_set_batches (apollo_ops E) = (\<lambda>x cx. cx\<lparr>ax_batch := x\<rparr>)"
  "no_react (apollo_ops E) = apollo_reactor_step E" "no_ready (apollo_ops E) = ApBatchReady"
  by (simp_all add: apollo_ops_def)

text \<open>What reaches the reactor from outside the process.\<close>

fun apollo_input :: "ext \<Rightarrow> apollo_event \<Rightarrow> bool" where
  "apollo_input E (ApNet msgs) = list_all (msg_decoded E) msgs"
| "apollo_input E (ApBatchReady h b) = False"
| "apollo_input E _ = True"

definition apollo_replica_start ::
  "ext \<Rightarrow> node_config \<Rightarrow> (replica \<times> bytes) list \<Rightarrow> (bytes, bytes) fmap \<Rightarrow> apollo_cx keyed_system res" where
  "apollo_replica_start E config pks batch_store =
     (let initial_leader = 0; batch_timeout = 50;
          keyed = KeyedMempool_spawn (Parameters_new (nc_id config) initial_leader (nc_block_size config) batch_timeout) batch_store
      in rbind (apollo_reactor_start E config pks (bs_cache (km_sink keyed)) batch_store) (\<lambda>cx.
         Inr (ks_start keyed cx)))"

abbreviation apollo_run :: "ext \<Rightarrow> apollo_cx keyed_system \<Rightarrow> (transaction \<times> socket_addr) list \<Rightarrow> apollo_cx keyed_system \<Rightarrow> bool" where
  "apollo_run E \<equiv> ks_run E (apollo_ops E) (apollo_input E)"

lemma flow_here: "flow E S X cx \<Longrightarrow> S \<subseteq> S' \<Longrightarrow> flow E S' (ax_batch cx) cx"
proof -
  have "sent_ok S' m" if "sent_ok S m" "S \<subseteq> S'" for m using that by (cases m) auto
  then show "flow E S X cx \<Longrightarrow> S \<subseteq> S' \<Longrightarrow> flow E S' (ax_batch cx) cx"
    by (auto simp: flow_def intro: batch_flow_here batch_flow_mono)
qed

interpretation apollo_keyed: keyed_node E "apollo_ops E" "apollo_input E" "flow E" "\<lambda>cx. committed_by E (ax_storage cx)" for E
proof (unfold_locales, goal_cases)
  case (1 S X c ev c')
  then have "event_decoded E S ev" by (cases ev) simp_all
  with 1 flow_reactor_step show ?case by simp
next
  case (2 S X c b h c')
  then show ?case using flow_reactor_step [of E S X c "ApBatchReady h b" c'] by simp
qed (simp_all add: flow_batchD flow_here, simp add: flow_def)

lemma apollo_start_facts:
  assumes "apollo_reactor_start E config pks cache st = Inr cx"
  shows "bx_cache (ax_batch cx) = cache" "bx_store (ax_batch cx) = st" "bx_to_router (ax_batch cx) = []" "bx_pending (ax_batch cx) = []"
    "bx_to_batcher (ax_batch cx) = [NewRound 0 1]" "nx_sent (ax_net cx) = []" "prop_buf cx = []"
    "stored_sealed E (ax_storage cx)" "ax_num_faults cx = nc_num_faults config" "ax_myid cx = nc_id config"
    "ax_round_leader cx = 0" "ax_round cx = 1" "ax_last_seen_block cx = GENESIS_BLOCK E"
    "decode_secret E (nc_crypto_alg config) (nc_secret_key_bytes config) = Inr (nx_my_secret_key (ax_net cx))"
  using assms
  by (auto simp: apollo_reactor_start_def apollo_Context_new_def net_new_def apollo_notify_def deliver_block_def
      batch_ctx_new_def notify_batcher_def stored_sealed_def Let_def split: if_splits)

lemma apollo_start_flow:
  assumes "ext_ok E st" and "apollo_reactor_start E config pks (BatchCache_new 1024) st = Inr cx"
  shows "flow E {} (ax_batch cx) cx"
  using assms(1) apollo_start_facts [OF assms(2)]
  by (simp add: flow_def batch_flow_def batches_ok_def ext_ok_def store_clean_def)

lemma apollo_replica_inv:
  assumes "ext_ok E st" and "apollo_replica_start E config pks st = Inr s" and "apollo_run E s subs t"
  shows "apollo_keyed.ks_inv E subs t"
proof -
  from assms(2) obtain cx where cx: "apollo_reactor_start E config pks (BatchCache_new 1024) st = Inr cx"
    and s: "s = ks_start (KeyedMempool_spawn (Parameters_new (nc_id config) 0 (nc_block_size config) 50) st) cx"
    by (auto simp: apollo_replica_start_def KeyedMempool_spawn_def batch_sink_new_def Let_def)
  have "apollo_keyed.ks_inv E [] s"
    unfolding s using apollo_start_flow [OF assms(1) cx] apollo_start_facts(1,2) [OF cx]
    by (intro apollo_keyed.ks_inv_start) simp_all
  with assms(3) show ?thesis by (rule apollo_keyed.ks_inv_run)
qed

text \<open>The node's own invariant holds in the composition too.\<close>

lemma apollo_replica_node_inv:
  assumes "collision_free E" and "config_ok config pks" and "apollo_replica_start E config pks st = Inr s" and "apollo_run E s subs t"
  shows "node_inv E (ks_node t)"
  using assms(4)
proof (induction rule: ks_run.induct)
  case ks_nil
  from assms(2,3) have "apollo_init E (ks_node s)"
    by (auto simp: apollo_replica_start_def apollo_init_def ks_start_def Let_def) blast
  then show ?case by (rule node_inv_start)
next
  case (ks_snoc subs t l u)
  have react: "node_inv E c" if "event_sealed E ev" "apollo_reactor_step E ev (ks_node t) = Inr (Continue c)" for ev c
    using keeps_reactor_step [OF assms(1) ks_snoc.IH that(1)] that(2) by (simp add: keeps_outcome_def)
  from ks_snoc.hyps(2) show ?case
  proof cases
    case (ks_batch h b c)
    with react [of "ApBatchReady h b" c] show ?thesis by (simp add: share_node_def)
  next
    case (ks_input ev c)
    moreover have "event_sealed E ev" using ks_input(3) by (cases ev) (auto simp: list_all_iff intro: msg_decoded_sealed)
    ultimately show ?thesis using react [of ev c] by (simp add: share_node_def)
  qed (use ks_snoc.IH in \<open>simp_all add: share_mempool_def\<close>)
qed

section \<open>Runs\<close>

text \<open>The router takes everything the node has handed to it.\<close>

lemma router_takes_all:
  assumes "apollo_run E s0 subs s" and "ks_commits_taken s = 0"
  shows "apollo_run E s0 subs (s\<lparr>ks_mempool := (ks_mempool s)\<lparr>km_router :=
      fold (router_committed E) (bx_to_router (ax_batch (ks_node s))) (km_router (ks_mempool s))\<rparr>,
    ks_commits_taken := length (bx_to_router (ax_batch (ks_node s)))\<rparr>)"
proof -
  let ?R = "bx_to_router (ax_batch (ks_node s))" and ?m = "ks_mempool s"
  let ?t = "\<lambda>n. s\<lparr>ks_mempool := ?m\<lparr>km_router := fold (router_committed E) (take n ?R) (km_router ?m)\<rparr>, ks_commits_taken := n\<rparr>"
  have "apollo_run E s0 subs (?t n)" if "n \<le> length ?R" for n
    using that
  proof (induction n)
    case 0
    have "s\<lparr>ks_commits_taken := 0\<rparr> = s" using assms(2) by (cases s) simp
    with assms(1) show ?case by simp
  next
    case (Suc n)
    have "ks_step E (apollo_ops E) (apollo_input E) None (?t n) (?t (Suc n))"
      using ks_commit [of "?t n" "apollo_ops E" E "apollo_input E"] Suc.prems by (simp add: take_Suc_conv_app_nth)
    with Suc show ?case using ks_snoc [of E "apollo_ops E" "apollo_input E" s0 subs "?t n" None] by (simp add: label_subs_def)
  qed
  from this [of "length ?R"] show ?thesis by simp
qed

text \<open>The commits of a router's life are one pass over all committed transactions.\<close>

lemma router_committed_fold:
  "fold (router_committed E) bs rt = fold (router_confirm E) (concat (map cb_payload bs)) rt"
  by (induction bs arbitrary: rt) (simp_all add: router_committed_def)

lemma router_confirms_pending:
  assumes "fmlookup (rt_pending rt) h = Some a" and "b \<in> set bs" and "h \<in> hash_tx E ` set (cb_payload b)"
    and "ser_client_msg E (Confirmation h) = Some bytes"
  shows "(a, bytes) \<in> set (rt_sent (fold (router_committed E) bs rt))"
proof -
  let ?txs = "concat (map cb_payload bs)"
  obtain new where new: "rt_sent (fold (router_confirm E) ?txs rt) = rt_sent rt @ map (confirmation E rt) new" "set new = owed E ?txs rt"
    using router_commit_spec [of E ?txs rt] by blast
  have "h \<in> set new" using assms by (auto simp: new(2) owed_def fmmem_def)
  moreover have "confirmation E rt h = (a, bytes)" using assms(1,4) by (simp add: confirmation_def)
  ultimately show ?thesis by (auto simp: router_committed_fold new(1) intro: rev_image_eqI)
qed

lemma router_nothing_pending:
  assumes "rt_pending rt = fmempty"
  shows "rt_sent (fold (router_committed E) bs rt) = rt_sent rt" "rt_pending (fold (router_committed E) bs rt) = fmempty"
proof -
  let ?txs = "concat (map cb_payload bs)"
  have "owed E ?txs rt = {}" using assms by (simp add: owed_def)
  with router_commit_spec [of E ?txs rt] assms have sent: "rt_sent (fold (router_confirm E) ?txs rt) = rt_sent rt"
    and none: "fmlookup (rt_pending (fold (router_confirm E) ?txs rt)) h = None" for h
    by auto
  show "rt_sent (fold (router_committed E) bs rt) = rt_sent rt" using sent by (simp add: router_committed_fold)
  show "rt_pending (fold (router_committed E) bs rt) = fmempty"
    by (rule fmap_ext) (simp add: router_committed_fold none)
qed

text \<open>
  A replica that leads the first round of a system without tolerated faults takes a transaction from a
  client's frame to the commit of its block.
\<close>

lemma apollo_replica_commits:
  assumes ext: "collision_free E" "hash_acyclic E" and start: "apollo_replica_start E config pks st = Inr s"
    and conf: "nc_id config = 0" "nc_num_faults config = 0" "0 < nc_num_nodes config" "nc_num_nodes config \<le> 2 ^ 16" "0 < nc_block_size config"
    and sk: "decode_secret E (nc_crypto_alg config) (nc_secret_key_bytes config) = Inr sk" "signs E sk"
    and tx: "0 < tx_nonce tx" "tx_serialized_size E tx = Some sz" "sz \<le> nc_block_size config" "sz < 2 ^ 64"
  obtains t b where "apollo_run E s [(tx, a)] t" "b \<in> set (bx_to_router (ax_batch (ks_node t)))" "cb_payload b = [tx]"
    "ks_batches_taken t = length (bs_to_consensus (km_sink (ks_mempool t)))" "ks_commits_taken t = 0"
    "ls_to_router (km_listener (ks_mempool t)) = [(hash_tx E tx, a)]" "km_router_taken (ks_mempool t) = 0"
    "km_router (ks_mempool t) = router_new"
proof -
  let ?params = "Parameters_new (nc_id config) 0 (nc_block_size config) 50"
  let ?h = "batch_digest E [tx]" and ?N = "apollo_ops E"
  from start obtain cx where cx: "apollo_reactor_start E config pks (BatchCache_new 1024) st = Inr cx"
    and s: "s = ks_start (KeyedMempool_spawn ?params st) cx"
    by (auto simp: apollo_replica_start_def KeyedMempool_spawn_def batch_sink_new_def Let_def)
  let ?share = "\<lambda>m. cx\<lparr>ax_batch := (ax_batch cx)\<lparr>bx_cache := bs_cache (km_sink m), bx_store := bs_store (km_sink m)\<rparr>\<rparr>"
  let ?s = "\<lambda>m. s\<lparr>ks_mempool := m, ks_node := ?share m\<rparr>"
  obtain m4 b where shared: "apollo_run E s [(tx, a)] (share_mempool ?N m4 s)"
    and m4: "ls_to_router (km_listener m4) = [(hash_tx E tx, a)]" "km_router m4 = router_new" "km_router_taken m4 = 0"
      "bs_to_consensus (km_sink m4) = [(?h, b)]" "cb_payload b = [tx]" "bs_cache (km_sink m4) = cache_insert ?h b (BatchCache_new 1024)"
    by (rule apollo_keyed.fresh_run [OF s, of tx E sz a]) (use tx conf in \<open>simp_all add: Parameters_new_def\<close>)
  then have run: "apollo_run E s [(tx, a)] (?s m4)" by (simp add: share_mempool_def s ks_start_def)
  let ?c = "?share m4"
  note facts = apollo_start_facts [OF cx]
  have chain: "chain_inv E [] ?c" using chain_inv_start [OF cx] conf(3,4) by simp
  have sk': "signs E (nx_my_secret_key (ax_net ?c))" using sk facts(14) by simp
  have small: "ax_round ?c + 1 < 2 ^ 64" "blk_height (ax_last_seen_block ?c) + 1 < 2 ^ 64"
    using facts(12,13) by (simp_all add: GENESIS_BLOCK_def)
  obtain c nb where c: "apollo_do_propose E ?h b ?c = Inr c"
    and nb: "nb = block_init E \<lparr>blk_header = \<lparr>hdr_prev = blk_hash (ax_last_seen_block ?c), hdr_extra = [], hdr_author = ax_myid ?c,
        hdr_height = blk_height (ax_last_seen_block ?c) + 1, hdr_blame_certificates = []\<rparr>,
        blk_body = \<lparr>body_batch_hash = ?h\<rparr>, blk_hash = EMPTY_HASH E\<rparr>"
    and router: "bx_to_router (ax_batch c) = bx_to_router (ax_batch ?c) @
      List.map_filter (batch_of E ?c) (newly_committed E (ax_num_faults ?c) [] nb)"
    using apollo_propose_refines [OF ext chain sk' small, of ?h b] by blast
  have "batch_of E ?c nb = Some b"
    using m4(6) by (simp add: nb block_init_def batch_of_def read_batch_def cache_insert_def cache_get_def BatchCache_new_def)
  then have "b \<in> set (bx_to_router (ax_batch c))"
    unfolding router using facts(9) conf(2) by (simp add: newly_committed_eq List.map_filter_def)
  moreover have "apollo_reactor_step E (ApBatchReady ?h b) ?c = Inr (Continue c)"
  proof -
    have "bx_pending (ax_batch c) = []" using apollo_do_propose_pending [OF c] facts by simp
    then have "apollo_drain E c = Inr c" by (simp add: apollo_drain.simps [of E c])
    moreover have "apollo_do_propose E ?h b (cx\<lparr>ax_batch := (ax_batch cx)\<lparr>bx_cache := bs_cache (km_sink m4),
        bx_store := bs_store (km_sink m4), bx_pending := []\<rparr>\<rparr>) = Inr c"
    proof -
      have same: "(ax_batch cx)\<lparr>bx_cache := bs_cache (km_sink m4), bx_store := bs_store (km_sink m4), bx_pending := []\<rparr> =
          (ax_batch cx)\<lparr>bx_cache := bs_cache (km_sink m4), bx_store := bs_store (km_sink m4)\<rparr>"
        using facts(4) by (cases "ax_batch cx") simp
      show ?thesis unfolding same by (rule c)
    qed
    ultimately show ?thesis
      using facts(4,10,11) conf(1) by (simp add: apollo_reactor_step_def apollo_drain.simps [of E "_\<lparr>ax_batch := _\<rparr>"])
  qed
  then have "ks_step E ?N (apollo_input E) None (?s m4) ((share_node ?N c (?s m4))\<lparr>ks_batches_taken := 1\<rparr>)"
    using ks_batch [of "?s m4" ?h b ?N c E "apollo_input E"] m4(4) by (simp add: s ks_start_def)
  from ks_snoc [OF run this] have "apollo_run E s [(tx, a)] ((share_node ?N c (?s m4))\<lparr>ks_batches_taken := 1\<rparr>)"
    by (simp add: label_subs_def)
  ultimately show thesis
    using m4 by (intro that [of "(share_node ?N c (?s m4))\<lparr>ks_batches_taken := 1\<rparr>" b])
      (simp_all add: share_node_def s ks_start_def)
qed

lemma apollo_replica_two_runs:
  assumes "collision_free E" and "hash_acyclic E" and "apollo_replica_start E config pks st = Inr s"
    and "nc_id config = 0" and "nc_num_faults config = 0" and "0 < nc_num_nodes config" and "nc_num_nodes config \<le> 2 ^ 16"
    and "0 < nc_block_size config"
    and "decode_secret E (nc_crypto_alg config) (nc_secret_key_bytes config) = Inr sk" and "signs E sk"
    and "0 < tx_nonce tx" and "tx_serialized_size E tx = Some sz" and "sz \<le> nc_block_size config" and "sz < 2 ^ 64"
    and "ser_client_msg E (Confirmation (hash_tx E tx)) = Some bs"
  shows "(\<exists>t. apollo_run E s [(tx, a)] t \<and> (a, bs) \<in> set (rt_sent (km_router (ks_mempool t)))) \<and>
    (\<exists>t b. apollo_run E s [(tx, a)] t \<and> b \<in> set (bx_to_router (ax_batch (ks_node t))) \<and> cb_payload b = [tx] \<and>
       ks_batches_taken t = length (bs_to_consensus (km_sink (ks_mempool t))) \<and>
       ks_commits_taken t = length (bx_to_router (ax_batch (ks_node t))) \<and>
       km_router_taken (ks_mempool t) = length (ls_to_router (km_listener (ks_mempool t))) \<and>
       rt_sent (km_router (ks_mempool t)) = [] \<and> fmlookup (rt_pending (km_router (ks_mempool t))) (hash_tx E tx) = Some a)"
proof -
  let ?N = "apollo_ops E"
  obtain t b where t: "apollo_run E s [(tx, a)] t" "b \<in> set (bx_to_router (ax_batch (ks_node t)))" "cb_payload b = [tx]"
    "ks_batches_taken t = length (bs_to_consensus (km_sink (ks_mempool t)))" "ks_commits_taken t = 0"
    "ls_to_router (km_listener (ks_mempool t)) = [(hash_tx E tx, a)]" "km_router_taken (ks_mempool t) = 0"
    "km_router (ks_mempool t) = router_new"
    by (rule apollo_replica_commits [OF assms(1-14), of a])
  have register: "apollo_run E s [(tx, a)] (share_mempool ?N ((ks_mempool u)\<lparr>km_router := router_register (hash_tx E tx, a) (km_router (ks_mempool u)),
        km_router_taken := 1\<rparr>) u)"
    if "apollo_run E s [(tx, a)] u" "ls_to_router (km_listener (ks_mempool u)) = [(hash_tx E tx, a)]" "km_router_taken (ks_mempool u) = 0" for u
    using ks_snoc [OF that(1) ks_task [OF km_register]] that(2,3) by (simp add: label_subs_def)
  let ?r = "router_register (hash_tx E tx, a) router_new"
  let ?u = "share_mempool ?N ((ks_mempool t)\<lparr>km_router := ?r, km_router_taken := 1\<rparr>) t"
  have u: "apollo_run E s [(tx, a)] ?u" using register [OF t(1,6,7)] t(8) by simp
  have "(a, bs) \<in> set (rt_sent (fold (router_committed E) (bx_to_router (ax_batch (ks_node ?u))) ?r))"
    using t(2,3) assms(15) by (intro router_confirms_pending) (auto simp: router_register_def share_mempool_def)
  moreover have "ks_commits_taken ?u = 0" "km_router (ks_mempool ?u) = ?r" using t(5) by (simp_all add: share_mempool_def)
  moreover note router_takes_all [OF u]
  ultimately have good: "\<exists>t. apollo_run E s [(tx, a)] t \<and> (a, bs) \<in> set (rt_sent (km_router (ks_mempool t)))"
    by (intro exI [of _ "?u\<lparr>ks_mempool := (ks_mempool ?u)\<lparr>km_router := fold (router_committed E) (bx_to_router (ax_batch (ks_node ?u))) ?r\<rparr>,
        ks_commits_taken := length (bx_to_router (ax_batch (ks_node ?u)))\<rparr>"]) simp
  let ?R = "bx_to_router (ax_batch (ks_node t))"
  let ?v = "t\<lparr>ks_mempool := (ks_mempool t)\<lparr>km_router := fold (router_committed E) ?R router_new\<rparr>, ks_commits_taken := length ?R\<rparr>"
  have v: "apollo_run E s [(tx, a)] ?v" using router_takes_all [OF t(1,5)] t(8) by simp
  have quiet: "rt_sent (fold (router_committed E) ?R router_new) = []"
    using router_nothing_pending(1) [of router_new E ?R] by (simp add: router_new_def)
  let ?w = "share_mempool ?N ((ks_mempool ?v)\<lparr>km_router := router_register (hash_tx E tx, a) (km_router (ks_mempool ?v)), km_router_taken := 1\<rparr>) ?v"
  have "apollo_run E s [(tx, a)] ?w" using v t(6,7) by (intro register) simp_all
  with t quiet have "\<exists>t b. apollo_run E s [(tx, a)] t \<and> b \<in> set (bx_to_router (ax_batch (ks_node t))) \<and> cb_payload b = [tx] \<and>
       ks_batches_taken t = length (bs_to_consensus (km_sink (ks_mempool t))) \<and>
       ks_commits_taken t = length (bx_to_router (ax_batch (ks_node t))) \<and>
       km_router_taken (ks_mempool t) = length (ls_to_router (km_listener (ks_mempool t))) \<and>
       rt_sent (km_router (ks_mempool t)) = [] \<and> fmlookup (rt_pending (km_router (ks_mempool t))) (hash_tx E tx) = Some a"
    by (intro exI [of _ ?w] exI [of _ b]) (simp add: share_mempool_def router_register_def)
  with good show ?thesis ..
qed

section \<open>Properties\<close>

text \<open>
  C1: An Apollo replica confirms only what it committed. Whatever clients and other replicas send and
  however the tasks of the process interleave: every confirmation goes to the reply address of a client
  that submitted a transaction with this hash to this replica, and the transaction is in the batch of a
  block that the node has delivered and committed; and there are never more confirmations of a
  transaction to an address than submissions of it from there.
\<close>
theorem apollo_replica_confirms_committed:
  assumes "collision_free E" and "ext_ok E st" and "config_ok config pks"
    and "apollo_replica_start E config pks st = Inr s" and "apollo_run E s subs t"
  shows "(\<forall>(a, bs)\<in>set (rt_sent (km_router (ks_mempool t))). \<exists>tx blk (b :: cached_batch).
       (tx, a) \<in> set subs \<and> ser_client_msg E (Confirmation (hash_tx E tx)) = Some bs \<and>
       delivered_block_from_hash (ax_storage (ks_node t)) (blk_hash blk) = Some blk \<and>
       is_committed_by_hash (ax_storage (ks_node t)) (blk_hash blk) \<and>
       batch_digest E (cb_payload b) = blk_batch_hash blk \<and> hash_tx E tx \<in> hash_tx E ` set (cb_payload b)) \<and>
    mset (rt_sent (km_router (ks_mempool t))) \<subseteq>#
      mset (map (\<lambda>(tx, a). (a, the (ser_client_msg E (Confirmation (hash_tx E tx))))) subs)"
proof -
  let ?st = "ax_storage (ks_node t)"
  have inv: "apollo_keyed.ks_inv E subs t" by (rule apollo_replica_inv [OF assms(2,4,5)])
  have node: "node_inv E (ks_node t)" by (rule apollo_replica_node_inv [OF assms(1,3,4,5)])
  have block: "delivered_block_from_hash ?st (blk_hash blk) = Some blk"
    if "is_committed_by_hash ?st (blk_hash blk)" "blk = GENESIS_BLOCK E \<or> block_sealed E blk" for blk
  proof -
    have "is_delivered_by_hash ?st (blk_hash blk)" using storage_okD(2) [OF node_invD(3) [OF node] that(1)] .
    then obtain c where c: "delivered_block_from_hash ?st (blk_hash blk) = Some c" by (auto simp: is_delivered_iff)
    have same: "blk_hash c = blk_hash blk" using storage_okD(1) [OF node_invD(3) [OF node] c] by (simp add: block_get_hash_def)
    have "c = GENESIS_BLOCK E \<or> block_sealed E c" using node_invD(4) [OF node] c by (auto simp: stored_sealed_def)
    moreover have "blk_hash (GENESIS_BLOCK E) = EMPTY_HASH E" by (simp add: GENESIS_BLOCK_def)
    ultimately have "c = blk"
      using same that(2) sealed_not_empty [OF assms(1)] sealed_collision [OF assms(1)] by metis
    with c show ?thesis by simp
  qed
  have "\<exists>tx blk (b :: cached_batch). (tx, a) \<in> set subs \<and> ser_client_msg E (Confirmation (hash_tx E tx)) = Some bs \<and>
       delivered_block_from_hash ?st (blk_hash blk) = Some blk \<and> is_committed_by_hash ?st (blk_hash blk) \<and>
       batch_digest E (cb_payload b) = blk_batch_hash blk \<and> hash_tx E tx \<in> hash_tx E ` set (cb_payload b)"
    if "(a, bs) \<in> set (rt_sent (km_router (ks_mempool t)))" for a bs
  proof -
    note sound = apollo_keyed.confirmations_sound [OF inv that]
    obtain tx b where tx: "(tx, a) \<in> set subs" "ser_client_msg E (Confirmation (hash_tx E tx)) = Some bs"
        "committed_by E ?st b" "hash_tx E tx \<in> hash_tx E ` set (cb_payload b)"
      using sound by blast
    from tx(3) obtain blk where blk: "is_committed_by_hash ?st (blk_hash blk)" "blk = GENESIS_BLOCK E \<or> block_sealed E blk"
        "batch_digest E (cb_payload b) = blk_batch_hash blk"
      by (auto simp: committed_by_def good_batch_def)
    show ?thesis using tx(1,2,4) blk(1,3) block [OF blk(1,2)] by (intro exI [of _ tx] exI [of _ blk] exI [of _ b] conjI)
  qed
  with apollo_keyed.confirmations_charged [OF inv] show ?thesis by blast
qed

text \<open>
  C13: An Apollo replica proposes only what its clients submitted, and announces nothing twice. Every
  batch in a proposal the node has sent consists of transactions that clients submitted to this replica;
  and over the whole life of the replica no transaction (client and nonce) is in two announced batches
  or twice in one: the node never asks the batcher for a rollback.
\<close>
theorem apollo_replica_proposes_submitted:
  assumes "ext_ok E st" and "apollo_replica_start E config pks st = Inr s" and "apollo_run E s subs t"
  shows "(\<forall>d p nb b. (d, ApNewProposal p nb b) \<in> set (nx_sent (ax_net (ks_node t))) \<longrightarrow> set (cb_payload b) \<subseteq> fst ` set subs) \<and>
    distinct (map tx_key (concat (map (cb_payload \<circ> snd) (bs_to_consensus (km_sink (ks_mempool t)))))) \<and>
    (\<forall>rs. Rollback rs \<notin> set (bx_to_batcher (ax_batch (ks_node t))))"
proof -
  have inv: "apollo_keyed.ks_inv E subs t" by (rule apollo_replica_inv [OF assms])
  then obtain X where node: "flow E (fst ` set subs) X (ks_node t)" by (auto simp: apollo_keyed.ks_inv_def)
  have "set (cb_payload b) \<subseteq> fst ` set subs" if "(d, ApNewProposal p nb b) \<in> set (nx_sent (ax_net (ks_node t)))" for d p nb b
    using node that by (force simp: flow_def)
  moreover have "Rollback rs \<notin> set (bx_to_batcher (ax_batch (ks_node t)))" for rs
    using node by (force simp: flow_def batch_flow_def)
  ultimately show ?thesis using apollo_keyed.announcements_sound(2) [OF inv] by blast
qed

text \<open>
  C17: From submission to confirmation, and the race on the way. In a system without tolerated faults, the
  replica that leads the first round can take a submitted transaction all the way to its confirmation.
  But the router serves its two channels in any order: there is also a run in which the same
  transaction commits, every channel of the router and of the node's batches is drained, and the client
  is not confirmed; its registration came after the commit and stays pending.
\<close>
theorem apollo_replica_registration_race:
  assumes "collision_free E" and "hash_acyclic E" and "apollo_replica_start E config pks st = Inr s"
    and "nc_id config = 0" and "nc_num_faults config = 0" and "0 < nc_num_nodes config" and "nc_num_nodes config \<le> 2 ^ 16"
    and "0 < nc_block_size config"
    and "decode_secret E (nc_crypto_alg config) (nc_secret_key_bytes config) = Inr sk" and "signs E sk"
    and "0 < tx_nonce tx" and "tx_serialized_size E tx = Some sz" and "sz \<le> nc_block_size config" and "sz < 2 ^ 64"
    and "ser_client_msg E (Confirmation (hash_tx E tx)) = Some bs"
  shows "(\<exists>t. apollo_run E s [(tx, a)] t \<and> (a, bs) \<in> set (rt_sent (km_router (ks_mempool t)))) \<and>
    (\<exists>t b. apollo_run E s [(tx, a)] t \<and> b \<in> set (bx_to_router (ax_batch (ks_node t))) \<and> cb_payload b = [tx] \<and>
       ks_batches_taken t = length (bs_to_consensus (km_sink (ks_mempool t))) \<and>
       ks_commits_taken t = length (bx_to_router (ax_batch (ks_node t))) \<and>
       km_router_taken (ks_mempool t) = length (ls_to_router (km_listener (ks_mempool t))) \<and>
       rt_sent (km_router (ks_mempool t)) = [] \<and> fmlookup (rt_pending (km_router (ks_mempool t))) (hash_tx E tx) = Some a)"
  by (rule apollo_replica_two_runs [OF assms])

section \<open>Witnesses\<close>

definition sample_replica :: "apollo_cx keyed_system" where
  "sample_replica = projr (apollo_replica_start sample_ext solo_config sample_pks fmempty)"

lemma sample_replica_start: "apollo_replica_start sample_ext solo_config sample_pks fmempty = Inr sample_replica"
  by (simp add: sample_replica_def solo_config_def sample_node_defs apollo_replica_start_def apollo_reactor_start_def
      apollo_Context_new_def Let_def)

lemma sample_solo_ok: "config_ok solo_config sample_pks"
  by (auto simp: config_ok_def solo_config_def sample_config_def sample_pks_def)

lemma sample_solo_keys:
  "decode_secret sample_ext (nc_crypto_alg solo_config) (nc_secret_key_bytes solo_config) = Inr [0]" "signs sample_ext [0]"
  "ser_client_msg sample_ext (Confirmation (hash_tx sample_ext (sample_tx 1 1))) = Some []"
  by (simp_all add: solo_config_def sample_node_defs signs_def sample_ext_def)

theorem apollo_replica_registration_race_witness:
  "(\<exists>t. apollo_run sample_ext sample_replica [(sample_tx 1 1, ''a'')] t \<and> (''a'', []) \<in> set (rt_sent (km_router (ks_mempool t)))) \<and>
   (\<exists>t. apollo_run sample_ext sample_replica [(sample_tx 1 1, ''a'')] t \<and> rt_sent (km_router (ks_mempool t)) = [] \<and>
      rt_pending (km_router (ks_mempool t)) \<noteq> fmempty)"
proof -
  from apollo_replica_registration_race [OF sample_collision_free sample_hash_acyclic sample_replica_start _ _ _ _ _ sample_solo_keys(1,2) _ sample_size _ _ sample_solo_keys(3), of "''a''"]
  show ?thesis by (auto simp: solo_config_def sample_config_def sample_tx_def)
qed

lemma sample_runs:
  "\<exists>t. apollo_run sample_ext sample_replica [(sample_tx 1 1, ''a'')] t \<and> (''a'', []) \<in> set (rt_sent (km_router (ks_mempool t)))"
  "\<exists>t b. apollo_run sample_ext sample_replica [(sample_tx 1 1, ''a'')] t \<and> b \<in> set (bx_to_router (ax_batch (ks_node t))) \<and>
     cb_payload b = [sample_tx 1 1]"
proof -
  note runs = apollo_replica_two_runs [OF sample_collision_free sample_hash_acyclic sample_replica_start _ _ _ _ _ sample_solo_keys(1,2) _ sample_size _ _ sample_solo_keys(3), of "''a''"]
  show "\<exists>t. apollo_run sample_ext sample_replica [(sample_tx 1 1, ''a'')] t \<and> (''a'', []) \<in> set (rt_sent (km_router (ks_mempool t)))"
    and "\<exists>t b. apollo_run sample_ext sample_replica [(sample_tx 1 1, ''a'')] t \<and> b \<in> set (bx_to_router (ax_batch (ks_node t))) \<and>
     cb_payload b = [sample_tx 1 1]"
    using runs by (auto simp: solo_config_def sample_config_def sample_tx_def)
qed

theorem apollo_replica_confirms_committed_witness:
  "\<exists>t. apollo_run sample_ext sample_replica [(sample_tx 1 1, ''a'')] t \<and> rt_sent (km_router (ks_mempool t)) = [(''a'', [])] \<and>
     (\<exists>blk :: block. is_committed_by_hash (ax_storage (ks_node t)) (blk_hash blk))"
proof -
  obtain t where t: "apollo_run sample_ext sample_replica [(sample_tx 1 1, ''a'')] t" "(''a'', []) \<in> set (rt_sent (km_router (ks_mempool t)))"
    using sample_runs(1) by blast
  note c = apollo_replica_confirms_committed [OF sample_collision_free sample_ext_clean sample_solo_ok sample_replica_start t(1)]
  have "the (ser_client_msg sample_ext (Confirmation h)) = []" for h by (simp add: sample_ext_def)
  with conjunct2 [OF c] have "mset (rt_sent (km_router (ks_mempool t))) \<subseteq># {#(''a'', [])#}" by simp
  then have "rt_sent (km_router (ks_mempool t)) = [(''a'', [])]" 
    using t(2) subset_mset.antisym [of "mset (rt_sent (km_router (ks_mempool t)))" "{#(''a'', [])#}"] by (simp add: mset_subset_eq_single)
  moreover obtain blk :: block where "is_committed_by_hash (ax_storage (ks_node t)) (blk_hash blk)"
    using bspec [OF conjunct1 [OF c] t(2)] by auto
  ultimately show ?thesis using t(1) by blast
qed

theorem apollo_replica_proposes_submitted_witness:
  "\<exists>t b. apollo_run sample_ext sample_replica [(sample_tx 1 1, ''a'')] t \<and> b \<in> set (bx_to_router (ax_batch (ks_node t))) \<and>
     cb_payload b = [sample_tx 1 1] \<and>
     distinct (map tx_key (concat (map (cb_payload \<circ> snd) (bs_to_consensus (km_sink (ks_mempool t))))))"
proof -
  obtain t b where t: "apollo_run sample_ext sample_replica [(sample_tx 1 1, ''a'')] t" "b \<in> set (bx_to_router (ax_batch (ks_node t)))"
      "cb_payload b = [sample_tx 1 1]" using sample_runs(2) by blast
  with apollo_replica_proposes_submitted [OF sample_ext_clean sample_replica_start t(1)] show ?thesis by blast
qed

end
