(* ===== verification/Artemis_Flow.thy ===== *)
theory Artemis_Flow
  imports Artemis_Laws Replica
begin

text \<open>
  What leaves an Artemis node on its three outputs, whatever arrives from the network; the counterpart
  of \<open>Apollo_Flow\<close>. Batches handed to the router are batches of committed blocks, the batcher is never
  told to roll back, and the blocks the node broadcasts carry batches its mempool announced.
\<close>

section \<open>Invariant\<close>

definition artemis_committed_by :: "ext \<Rightarrow> artemis_block storage \<Rightarrow> cached_batch \<Rightarrow> bool" where
  "artemis_committed_by E st b \<longleftrightarrow>
     (\<exists>blk. is_committed_by_hash st (artemis_get_hash blk) \<and> ab_ok E blk \<and> good_batch E (blk_batch_hash (ab_blk blk)) b)"

fun artemis_sent_ok :: "transaction set \<Rightarrow> artemis_msg \<Rightarrow> bool" where
  "artemis_sent_ok S (ArNewBlock b batch) = (set (cb_payload batch) \<subseteq> S)"
| "artemis_sent_ok S _ = True"

definition stored_ok :: "ext \<Rightarrow> artemis_block storage \<Rightarrow> bool" where
  "stored_ok E st \<longleftrightarrow> (\<forall>h b. delivered_block_from_hash st h = Some b \<longrightarrow> ab_ok E b)"

definition aflow :: "ext \<Rightarrow> transaction set \<Rightarrow> batch_ctx \<Rightarrow> artemis_cx \<Rightarrow> bool" where
  "aflow E S X cx \<longleftrightarrow>
     batch_flow E (artemis_committed_by E (rx_storage cx)) S X (rx_batch cx) \<and> stored_ok E (rx_storage cx) \<and>
     (\<forall>h b. fmlookup (undelivered_blocks cx) h = Some b \<longrightarrow> ab_ok E b) \<and>
     (\<forall>dm\<in>set (nx_sent (rx_net cx)). artemis_sent_ok S (snd dm)) \<and>
     (\<forall>(b, batch)\<in>set (block_processing_waiting cx). ab_ok E b \<and> batch_ok E batch) \<and>
     (\<forall>(s, b, batch)\<in>set (response_waiting cx). ab_ok E b \<and> batch_ok E batch)"

abbreviation aflows :: "ext \<Rightarrow> transaction set \<Rightarrow> batch_ctx \<Rightarrow> artemis_cx res \<Rightarrow> bool" where
  "aflows E S X \<equiv> rkeeps (aflow E S X) UNIV"

section \<open>Small steps\<close>

lemma artemis_committed_by_mono:
  "artemis_committed_by E st b \<Longrightarrow> (\<And>h. is_committed_by_hash st h \<Longrightarrow> is_committed_by_hash st' h) \<Longrightarrow> artemis_committed_by E st' b"
  by (auto simp: artemis_committed_by_def)

lemma aflow_frame [simp]:
  "aflow E S X (cx\<lparr>vote_chain := vc\<rparr>) = aflow E S X cx"
  "aflow E S X (cx\<lparr>vote_waiting := w\<rparr>) = aflow E S X cx"
  "aflow E S X (cx\<lparr>vote_ready := vr\<rparr>) = aflow E S X cx"
  "aflow E S X (cx\<lparr>vote_waiting := w, vote_ready := vr\<rparr>) = aflow E S X cx"
  "aflow E S X (cx\<lparr>block_parent_waiting := pw\<rparr>) = aflow E S X cx"
  "aflow E S X (cx\<lparr>rx_other_buf := ob\<rparr>) = aflow E S X cx"
  "aflow E S X (cx\<lparr>rx_last_seen_block := b\<rparr>) = aflow E S X cx"
  "aflow E S X (cx\<lparr>last_voted_block := b\<rparr>) = aflow E S X cx"
  "aflow E S X (cx\<lparr>rx_bench_committed_tx_count := n\<rparr>) = aflow E S X cx"
  "aflow E S X (artemis_metric ev cx) = aflow E S X cx"
  by (simp_all add: aflow_def artemis_metric_def)

lemma aflow_batch:
  "aflow E S X cx \<Longrightarrow> batch_flow E (artemis_committed_by E (rx_storage cx)) S X x \<Longrightarrow> aflow E S X (cx\<lparr>rx_batch := x\<rparr>)"
  by (simp add: aflow_def)

lemma aflow_batchD: "aflow E S X cx \<Longrightarrow> batch_flow E (artemis_committed_by E (rx_storage cx)) S X (rx_batch cx)"
  by (simp add: aflow_def)

lemma aflow_read: "aflow E S X cx \<Longrightarrow> read_batch E h (rx_batch cx) = (r, x) \<Longrightarrow> aflow E S X (cx\<lparr>rx_batch := x\<rparr>)"
  using aflow_batch batch_flow_read(1) [OF aflow_batchD] by blast

lemma aflow_persist: "aflow E S X cx \<Longrightarrow> good_batch E h b \<Longrightarrow> aflow E S X (cx\<lparr>rx_batch := persist_batch E h b (rx_batch cx)\<rparr>)"
  by (blast intro: aflow_batch batch_flow_persist aflow_batchD)

lemma aflow_notify:
  "aflow E S X cx \<Longrightarrow> signal_ok (artemis_committed_by E (rx_storage cx)) m \<Longrightarrow> aflow E S X (artemis_notify m cx)"
  by (simp add: aflow_def artemis_notify_def batch_flow_notify)

lemma aflow_send: "aflow E S X cx \<Longrightarrow> artemis_sent_ok S msg \<Longrightarrow> aflow E S X (artemis_send E' d msg cx)"
  by (auto simp: aflow_def artemis_send_def send_sent)

lemma aflow_multicast: "aflow E S X cx \<Longrightarrow> artemis_sent_ok S msg \<Longrightarrow> aflow E S X (artemis_multicast E' msg cx)"
  by (auto simp: aflow_def artemis_multicast_def)

lemma aflow_storage:
  assumes "aflow E S X cx" and "stored_ok E st"
    and "\<And>h. is_committed_by_hash (rx_storage cx) h \<Longrightarrow> is_committed_by_hash st h"
  shows "aflow E S X (cx\<lparr>rx_storage := st\<rparr>)"
proof -
  have "batch_flow E (artemis_committed_by E st) S X (rx_batch cx)"
    using assms(1,3) by (auto simp: aflow_def intro: batch_flow_mono artemis_committed_by_mono)
  with assms show ?thesis by (simp add: aflow_def)
qed

lemma aflow_deliver: "aflow E S X cx \<Longrightarrow> ab_ok E b \<Longrightarrow> aflow E S X (artemis_deliver b cx)"
  unfolding artemis_deliver_def by (intro aflow_storage) (auto simp: aflow_def stored_ok_def)

section \<open>Delivery\<close>

lemma aflow_see: "aflow E S X (fst s) \<Longrightarrow> ab_ok E b \<Longrightarrow> aflow E S X (fst (artemis_see b s))"
  by (auto simp: artemis_see_def case_prod_beta Let_def aflow_deliver)

lemma aflow_wake: "aflow E S X cx \<Longrightarrow> aflow E S X (artemis_wake_vote h cx)"
  by (auto simp: artemis_wake_vote_def split: option.splits)

lemma aflow_undelivered:
  "aflow E S X cx \<Longrightarrow> aflow E S X (cx\<lparr>undelivered_blocks := fmdrop h (undelivered_blocks cx)\<rparr>)"
  "aflow E S X cx \<Longrightarrow> ab_ok E b \<Longrightarrow> aflow E S X (cx\<lparr>undelivered_blocks := fmupd h b (undelivered_blocks cx)\<rparr>)"
  by (auto simp: aflow_def)

lemma aflow_turn: "aflow E S X (fst s) \<Longrightarrow> aflow E S X (fst (artemis_child_turn child s))"
proof -
  assume flow: "aflow E S X (fst s)"
  then have "ab_ok E b" if "fmlookup (undelivered_blocks (fst s)) child = Some b" for b using that by (auto simp: aflow_def)
  with flow show ?thesis
    by (auto simp: artemis_child_turn_def case_prod_beta intro!: aflow_wake aflow_see aflow_undelivered(1) split: option.splits)
qed

lemma aflow_children: "aflow E S X (fst s) \<Longrightarrow> aflow E S X (fst (artemis_children h s))"
proof (induction h s rule: artemis_children.induct)
  case (1 h s)
  have "aflow E S X (fst (artemis_child_turn c ((fst s)\<lparr>block_parent_waiting := w\<rparr>, snd s)))" for c w
    using 1(2) by (intro aflow_turn) simp
  with 1 show ?case by (simp add: artemis_children.simps [of h s] split: option.splits)
qed

lemma aflows_announce_height: "aflow E S X cx \<Longrightarrow> aflows E S X (announce_height_to_batcher cx)"
  unfolding announce_height_to_batcher_def by (intro rkeeps_bind [where P = "\<lambda>_. True"]) (simp_all add: aflow_notify)

lemma aflows_delivery:
  assumes "aflow E S X cx" and "ab_ok E b"
  shows "aflows E S X (do_delivery b cx)"
proof -
  obtain c adv where c: "artemis_see b (cx, False) = (c, adv)" by fastforce
  then have "aflow E S X c" using aflow_see [of E S X "(cx, False)" b] assms by simp
  then have "aflow E S X (fst (artemis_children (artemis_get_hash b) (artemis_wake_vote (artemis_get_hash b)
      (c\<lparr>undelivered_blocks := fmdrop (artemis_get_hash b) (undelivered_blocks c)\<rparr>), adv)))"
    by (intro aflow_children) (simp add: aflow_wake aflow_undelivered(1))
  with c show ?thesis
    by (auto simp: do_delivery_def Let_def case_prod_beta aflows_announce_height)
qed

lemma aflows_new_block_direct:
  "aflow E S X cx \<Longrightarrow> ab_ok E b \<Longrightarrow> aflows E S X (on_receive_new_block_direct E b cx)"
  by (auto simp: on_receive_new_block_direct_def intro!: rkeeps_bind [where P = "\<lambda>_. True"] aflows_delivery)

lemma aflows_do_new_block:
  assumes "aflow E S X cx" and "set (cb_payload batch) \<subseteq> S"
  shows "aflows E S X (do_new_block E bh batch cx)"
proof -
  have "ab_ok E nb" if "artemis_new_block E bh c = Inr nb" for nb c
    using that by (auto simp: artemis_new_block_def artemis_block_sign_def artemis_block_init_def ab_ok_def Let_def)
  moreover have "aflow E S X (artemis_notify (Proposed batch r) (artemis_multicast E (ArNewBlock nb batch) (artemis_metric RecPropose cx)))" for nb r
    using assms by (intro aflow_notify aflow_multicast) simp_all
  ultimately show ?thesis
    unfolding do_new_block_def Let_def
    by (intro rkeeps_bind [where P = "\<lambda>_. True"] aflows_new_block_direct rkeeps_any)
qed

section \<open>Commit and votes\<close>

lemma aflow_announce:
  assumes "aflow E S X cx" and "is_committed_by_hash (rx_storage cx) (artemis_get_hash b)" and "ab_ok E b"
  shows "aflow E S X (artemis_announce_commit E b cx)" and "rx_storage (artemis_announce_commit E b cx) = rx_storage cx"
proof -
  obtain r x where rd: "read_batch E (blk_batch_hash (ab_blk b)) (rx_batch cx) = (r, x)" by fastforce
  show "rx_storage (artemis_announce_commit E b cx) = rx_storage cx"
    by (simp add: artemis_announce_commit_def split: option.splits prod.splits)
  show "aflow E S X (artemis_announce_commit E b cx)"
  proof (cases r)
    case None
    with aflow_read [OF assms(1) rd] show ?thesis by (simp add: artemis_announce_commit_def rd)
  next
    case (Some batch)
    have "artemis_committed_by E (rx_storage cx) c" if "good_batch E (blk_batch_hash (ab_blk b)) c" for c
      using assms(2,3) that by (auto simp: artemis_committed_by_def)
    from batch_flow_announce [OF aflow_batchD [OF assms(1)] rd [unfolded Some] this] assms(1) show ?thesis
      by (simp add: artemis_announce_commit_def rd Some aflow_def)
  qed
qed

lemma aflow_announce_all:
  assumes "aflow E S X cx" and "\<forall>b\<in>set bs. is_committed_by_hash (rx_storage cx) (artemis_get_hash b) \<and> ab_ok E b"
  shows "aflow E S X (fold (artemis_announce_commit E) bs cx)"
  using assms
proof (induction bs arbitrary: cx)
  case (Cons b bs)
  then show ?case using aflow_announce [of E S X cx b] by simp
qed simp

lemma aflows_commit:
  assumes "aflow E S X cx"
  shows "aflows E S X (artemis_do_commit E cx)"
proof (cases "artemis_do_commit E cx")
  case (Inr cx')
  then obtain v :: ucr_vote and newly st where
    walk: "commit_chain artemis_get_hash artemis_get_height (\<lambda>b. ab_prev b) (uv_hash v) (rx_storage cx) = Inr (newly, st)"
    and cx': "cx' = fold (artemis_announce_commit E) (rev newly) (cx\<lparr>rx_storage := st\<rparr>)"
    by (auto simp: artemis_do_commit_def)
  from commit_walk_found [OF walk [unfolded commit_chain_def]] have
    st: "st = commit_all artemis_get_hash artemis_get_height newly (rx_storage cx)"
    and found: "\<forall>b\<in>set newly. \<exists>k. delivered_block_from_hash (rx_storage cx) k = Some b" by auto
  have stored: "stored_ok E (rx_storage cx)" using assms by (simp add: aflow_def)
  then have "aflow E S X (cx\<lparr>rx_storage := st\<rparr>)"
    using assms by (intro aflow_storage) (auto simp: st stored_ok_def)
  moreover have "\<forall>b\<in>set (rev newly). is_committed_by_hash st (artemis_get_hash b) \<and> ab_ok E b"
    using found stored by (fastforce simp: st stored_ok_def)
  ultimately show ?thesis using aflow_announce_all [of E S X "cx\<lparr>rx_storage := st\<rparr>" "rev newly"] by (simp add: Inr cx')
qed simp

lemma aflows_update:
  assumes "aflow E S X cx"
  shows "aflows E S X (artemis_update_round E cx)"
proof (cases "artemis_update_round E cx")
  case (Inr cx')
  then show ?thesis
    using assms by (elim artemis_update_round_result) (simp add: Inr, simp add: aflow_def artemis_metric_def)
qed simp

lemma aflows_round_vote: "aflow E S X cx \<Longrightarrow> aflows E S X (on_receive_round_vote E v cx)"
  by (auto simp: on_receive_round_vote_def Let_def
      intro!: rkeeps_bind [where P = "\<lambda>_. True"] rkeeps_bind [where P = "aflow E S X"] aflows_update aflows_commit aflow_send)

lemma aflows_do_round_vote: "aflow E S X cx \<Longrightarrow> aflows E S X (do_round_vote E cx)"
  unfolding do_round_vote_def Let_def
  by (intro rkeeps_bind [where P = "\<lambda>_. True"] aflows_round_vote aflow_multicast rkeeps_any) simp_all

lemma aflows_try_vote: "aflow E S X cx \<Longrightarrow> aflows E S X (try_round_vote E cx)"
  by (simp add: try_round_vote_def aflows_do_round_vote)

lemma aflow_await: "aflow E S X cx \<Longrightarrow> aflow E S X (artemis_await_block E from v cx)"
  by (simp add: artemis_await_block_def Let_def aflow_send)

lemma aflows_try_receive: "aflow E S X cx \<Longrightarrow> aflows E S X (try_receive_round_vote E from v cx)"
  by (simp add: try_receive_round_vote_def aflow_await aflows_round_vote)

section \<open>Messages\<close>

lemma aflows_update_delivery:
  assumes "aflow E S X cx" and "ab_ok E b"
  shows "aflows E S X (update_delivery E b sender cx)"
proof -
  have "aflow E S X (artemis_do_request E sender (artemis_get_hash b)
      (cx\<lparr>block_parent_waiting := w, undelivered_blocks := fmupd h b (undelivered_blocks cx)\<rparr>))" for w h
    using assms aflow_undelivered(2) [of E S X "cx\<lparr>block_parent_waiting := w\<rparr>" b h]
    unfolding artemis_do_request_def by (intro aflow_send) simp_all
  with assms aflows_delivery show ?thesis by (auto simp: update_delivery_def Let_def)
qed

lemma aflow_handle_request: "aflow E S X cx \<Longrightarrow> aflow E S X (artemis_handle_request E sender req_id h cx)"
  by (auto simp: artemis_handle_request_def Let_def dest: aflow_read intro!: aflow_send split: option.splits prod.splits)

lemma aflows_other: "aflow E S X cx \<Longrightarrow> aflows E S X (artemis_handle_other E m cx)"
  by (cases m) (simp_all add: artemis_handle_other_def artemis_on_receive_blame_def aflow_handle_request aflows_try_receive)

lemma aflow_checked:
  assumes "aflow E S X cx" and "batch_ok E batch" and "artemis_check_batch_hash E b batch"
  shows "aflow E S X (cx\<lparr>rx_batch := persist_batch E (blk_batch_hash (ab_blk b)) (snd (CachedBatch_hash E batch)) (rx_batch cx)\<rparr>)"
  using assms(3) CachedBatch_hash_ok [OF assms(2)]
  by (intro aflow_persist [OF assms(1)]) (simp add: artemis_check_batch_hash_def good_batch_def)

lemma aflows_process_new_block:
  "aflow E S X cx \<Longrightarrow> ab_ok E b \<Longrightarrow> batch_ok E batch \<Longrightarrow> aflows E S X (artemis_process_new_block E (b, batch) cx)"
  by (auto simp: artemis_process_new_block_def intro!: aflows_new_block_direct aflow_checked)

lemma aflows_process_response:
  "aflow E S X cx \<Longrightarrow> ab_ok E b \<Longrightarrow> batch_ok E batch \<Longrightarrow> aflows E S X (artemis_process_response E (s, b, batch) cx)"
  by (auto simp: artemis_process_response_def intro!: aflows_update_delivery aflow_checked)

lemma aflows_ready_votes: "aflow E S X cx \<Longrightarrow> aflows E S X (artemis_ready_votes E cx)"
proof (induction E cx rule: artemis_ready_votes.induct)
  case (1 E cx)
  then show ?case
    by (auto simp: artemis_ready_votes.simps [of E cx] split: option.splits
        intro!: rkeeps_bind [where P = "aflow E S X"] aflows_round_vote)
qed

lemma aflow_dry:
  "aflow E S X cx \<Longrightarrow> aflow E S X (cx\<lparr>block_processing_waiting := []\<rparr>)"
  "aflow E S X cx \<Longrightarrow> aflow E S X (cx\<lparr>response_waiting := []\<rparr>)"
  by (simp_all add: aflow_def)

lemma aflows_process:
  assumes "aflow E S X cx"
  shows "aflows E S X (artemis_process_message E cx)"
  unfolding artemis_process_message_def
proof (intro rkeeps_bind)
  show "aflows E S X (rfold (artemis_process_new_block E) (block_processing_waiting cx) (cx\<lparr>block_processing_waiting := []\<rparr>))"
  proof (intro rkeeps_rfold)
    fix x c assume "x \<in> set (block_processing_waiting cx)" and "aflow E S X c"
    with assms show "aflows E S X (artemis_process_new_block E x c)"
      by (cases x) (auto simp: aflow_def [of E S X cx] intro!: aflows_process_new_block)
  qed (use assms in \<open>simp add: aflow_dry\<close>)
  show "aflows E S X (rfold (artemis_process_response E) (response_waiting d) (d\<lparr>response_waiting := []\<rparr>))" if "aflow E S X d" for d
  proof (intro rkeeps_rfold)
    fix x c assume "x \<in> set (response_waiting d)" and "aflow E S X c"
    with that show "aflows E S X (artemis_process_response E x c)"
      by (cases x) (auto simp: aflow_def [of E S X d] intro!: aflows_process_response)
  qed (use that in \<open>simp add: aflow_dry\<close>)
  show "aflows E S X (rfold (artemis_handle_other E) (rx_other_buf c) (c\<lparr>rx_other_buf := []\<rparr>))" if "aflow E S X c" for c
    using that by (intro rkeeps_rfold) (auto intro: aflows_other)
qed (rule aflows_ready_votes, assumption)+

section \<open>The reactor\<close>

lemma aflow_pending:
  "aflow E S X cx \<Longrightarrow> \<forall>hb\<in>set q. set (cb_payload (snd hb)) \<subseteq> S \<Longrightarrow> aflow E S X (cx\<lparr>rx_batch := (rx_batch cx)\<lparr>bx_pending := q\<rparr>\<rparr>)"
  by (simp add: aflow_def batch_flow_pending)

lemma aflow_pendingD: "aflow E S X cx \<Longrightarrow> hb \<in> set (bx_pending (rx_batch cx)) \<Longrightarrow> set (cb_payload (snd hb)) \<subseteq> S"
  by (simp add: aflow_def batch_flow_def)

lemma aflows_drain: "aflow E S X cx \<Longrightarrow> aflows E S X (artemis_drain E cx)"
proof (induction E cx rule: artemis_drain.induct)
  case (1 E cx)
  show ?case
  proof (cases "view_leader cx = rx_myid cx \<and> bx_pending (rx_batch cx) \<noteq> []")
    case False
    with 1(2) show ?thesis by (auto simp: artemis_drain.simps [of E cx] split: list.splits)
  next
    case True
    then obtain bh ba rest where pend: "bx_pending (rx_batch cx) = (bh, ba) # rest" by (cases "bx_pending (rx_batch cx)") auto
    then have "\<forall>hb\<in>set ((bh, ba) # rest). set (cb_payload (snd hb)) \<subseteq> S" using aflow_pendingD [OF 1(2)] by simp
    then have "aflows E S X (do_new_block E bh ba (cx\<lparr>rx_batch := (rx_batch cx)\<lparr>bx_pending := rest\<rparr>\<rparr>))"
      using 1(2) by (intro aflows_do_new_block aflow_pending) auto
    then show ?thesis
      using True pend 1(1) [OF _ pend refl] by (auto simp: artemis_drain.simps [of E cx] intro!: rkeeps_bind [where P = "aflow E S X"])
  qed
qed

fun artemis_msg_decoded :: "ext \<Rightarrow> artemis_msg \<Rightarrow> bool" where
  "artemis_msg_decoded E (ArNewBlock b batch) = (block_sealed E (ab_blk b) \<and> batch_ok E batch)"
| "artemis_msg_decoded E (ArResponse f r b batch) = (block_sealed E (ab_blk b) \<and> batch_ok E batch)"
| "artemis_msg_decoded E _ = True"

lemma aflow_buffer: "aflow E S X cx \<Longrightarrow> artemis_msg_decoded E m \<Longrightarrow> aflow E S X (buffer_message m cx)"
  by (cases m) (auto simp: buffer_message_def aflow_def ab_ok_def)

lemma aflow_buffer_all: "aflow E S X cx \<Longrightarrow> list_all (artemis_msg_decoded E) ms \<Longrightarrow> aflow E S X (fold buffer_message ms cx)"
  by (induction ms arbitrary: cx) (auto intro: aflow_buffer)

fun artemis_event_decoded :: "ext \<Rightarrow> transaction set \<Rightarrow> artemis_event \<Rightarrow> bool" where
  "artemis_event_decoded E S (ArNet msgs) = list_all (artemis_msg_decoded E) msgs"
| "artemis_event_decoded E S (ArBatchReady bh batch) = (set (cb_payload batch) \<subseteq> S)"
| "artemis_event_decoded E S _ = True"

lemma aflow_reactor_step:
  assumes "aflow E S X cx" and "artemis_event_decoded E S ev" and "artemis_reactor_step E ev cx = Inr (Continue cx')"
  shows "aflow E S X cx'"
proof -
  have after: "aflow E S X c'" if "artemis_after_select E c = Inr c'" "aflow E S X c" for c c'
  proof -
    have "aflows E S X (artemis_after_select E c)"
      unfolding artemis_after_select_def by (rule rkeeps_bind [OF aflows_drain [OF that(2)] aflows_try_vote])
    with that(1) show ?thesis by simp
  qed
  have process: "aflow E S X c'" if "artemis_process_message E c = Inr c'" "aflow E S X c" for c c'
    using aflows_process [OF that(2)] that(1) by simp
  have metric: "aflow E S X (artemis_metric RecReactorIter cx)" using assms(1) by simp
  show ?thesis
  proof (cases ev)
    case ArTick
    with assms(3) metric show ?thesis by (auto simp: artemis_reactor_step_def Let_def intro: after split: if_splits)
  next
    case (ArNet msgs)
    with assms(2,3) aflow_buffer_all [OF metric] show ?thesis
      by (auto simp: artemis_reactor_step_def Let_def intro: after process)
  next
    case (ArBatchReady bh batch)
    let ?c = "artemis_metric RecBatchRecv (artemis_metric RecReactorIter cx)"
    have c: "aflow E S X ?c" using assms(1) by simp
    have "aflow E S X (?c\<lparr>rx_batch := (rx_batch ?c)\<lparr>bx_pending := bx_pending (rx_batch ?c) @ [(bh, batch)]\<rparr>\<rparr>)"
      using assms(2) aflow_pendingD [OF c] ArBatchReady by (intro aflow_pending [OF c]) auto
    with assms(3) ArBatchReady show ?thesis by (auto simp: artemis_reactor_step_def Let_def intro: after)
  qed (use assms metric in \<open>simp_all add: artemis_reactor_step_def Let_def\<close>)
qed

end
