(* ===== verification/Artemis_Replica.thy ===== *)
theory Artemis_Replica
  imports Artemis_Flow
begin

text \<open>
  An Artemis replica: the composition of \<open>Replica\<close> with the Artemis node, started as
  \<open>examples/artemis/node/src/main.rs\<close> does; the counterpart of \<open>Apollo_Replica\<close>.
\<close>

section \<open>The replica\<close>

definition artemis_ops :: "ext \<Rightarrow> (artemis_cx, artemis_event) node_ops" where
  "artemis_ops E =
     \<lparr>no_batches = rx_batch, no_set_batches = (\<lambda>x cx. cx\<lparr>rx_batch := x\<rparr>),
      no_react = artemis_reactor_step E, no_ready = ArBatchReady\<rparr>"

lemma artemis_ops_simps [simp]:
  "no_batches (artemis_ops E) = rx_batch" "no_set_batches (artemis_ops E) = (\<lambda>x cx. cx\<lparr>rx_batch := x\<rparr>)"
  "no_react (artemis_ops E) = artemis_reactor_step E" "no_ready (artemis_ops E) = ArBatchReady"
  by (simp_all add: artemis_ops_def)

text \<open>What reaches the reactor from outside the process.\<close>

fun artemis_input :: "ext \<Rightarrow> artemis_event \<Rightarrow> bool" where
  "artemis_input E (ArNet msgs) = list_all (artemis_msg_decoded E) msgs"
| "artemis_input E (ArBatchReady h b) = False"
| "artemis_input E _ = True"

definition artemis_replica_start ::
  "ext \<Rightarrow> node_config \<Rightarrow> (replica \<times> bytes) list \<Rightarrow> (bytes, bytes) fmap \<Rightarrow> artemis_cx keyed_system res" where
  "artemis_replica_start E config pks batch_store =
     (let initial_leader = 0; batch_timeout = 50;
          keyed = KeyedMempool_spawn (Parameters_new (nc_id config) initial_leader (nc_block_size config) batch_timeout) batch_store
      in rbind (artemis_reactor_start E config pks (bs_cache (km_sink keyed)) batch_store) (\<lambda>cx.
         Inr (ks_start keyed cx)))"

abbreviation artemis_run ::
  "ext \<Rightarrow> artemis_cx keyed_system \<Rightarrow> (transaction \<times> socket_addr) list \<Rightarrow> artemis_cx keyed_system \<Rightarrow> bool" where
  "artemis_run E \<equiv> ks_run E (artemis_ops E) (artemis_input E)"

lemma aflow_here: "aflow E S X cx \<Longrightarrow> S \<subseteq> S' \<Longrightarrow> aflow E S' (rx_batch cx) cx"
proof -
  have "artemis_sent_ok S' m" if "artemis_sent_ok S m" "S \<subseteq> S'" for m using that by (cases m) auto
  then show "aflow E S X cx \<Longrightarrow> S \<subseteq> S' \<Longrightarrow> aflow E S' (rx_batch cx) cx"
    by (auto simp: aflow_def intro: batch_flow_here batch_flow_mono)
qed

interpretation artemis_keyed: keyed_node E "artemis_ops E" "artemis_input E" "aflow E" "\<lambda>cx. artemis_committed_by E (rx_storage cx)" for E
proof (unfold_locales, goal_cases)
  case (1 S X c ev c')
  then have "artemis_event_decoded E S ev" by (cases ev) simp_all
  with 1 aflow_reactor_step show ?case by simp
next
  case (2 S X c b h c')
  then show ?case using aflow_reactor_step [of E S X c "ArBatchReady h b" c'] by simp
qed (simp_all add: aflow_batchD aflow_here, simp add: aflow_def)

lemma genesis_height [simp]: "blk_height (ab_blk (artemis_GENESIS_BLOCK E)) = 0"
  by (simp add: artemis_GENESIS_BLOCK_def GENESIS_BLOCK_def)

lemma artemis_start_facts:
  assumes "artemis_reactor_start E config pks cache st = Inr cx"
  shows "bx_cache (rx_batch cx) = cache" "bx_store (rx_batch cx) = st" "bx_to_router (rx_batch cx) = []" "bx_pending (rx_batch cx) = []"
    "bx_to_batcher (rx_batch cx) = [NewRound 0 1]" "nx_sent (rx_net cx) = []" "block_processing_waiting cx = []" "response_waiting cx = []"
    "undelivered_blocks cx = fmempty" "block_parent_waiting cx = fmempty" "rx_myid cx = nc_id config" "view_leader cx = 0" "rx_round cx = 1"
    "rx_last_seen_block cx = artemis_GENESIS_BLOCK E" "last_voted_block cx = artemis_GENESIS_BLOCK E"
    "rx_storage cx = add_delivered_block artemis_get_hash artemis_get_height (artemis_GENESIS_BLOCK E) Storage_new"
    "decode_secret E (nc_crypto_alg config) (nc_secret_key_bytes config) = Inr (nx_my_secret_key (rx_net cx))"
    "nx_broadcast_peers (rx_net cx) = filter (\<lambda>i. i \<noteq> nc_id config) [0..<nc_num_nodes config mod 2 ^ 16]"
  using assms
  by (auto simp: artemis_reactor_start_def artemis_Context_new_def net_new_def announce_height_to_batcher_def
      artemis_notify_def artemis_deliver_def batch_ctx_new_def notify_batcher_def checked_Inr_iff Let_def)

lemma artemis_start_flow:
  assumes "ext_ok E st" and "artemis_reactor_start E config pks (BatchCache_new 1024) st = Inr cx"
  shows "aflow E {} (rx_batch cx) cx"
proof -
  note facts = artemis_start_facts [OF assms(2)]
  have "stored_ok E (rx_storage cx)" using genesis_store_ok [of E] facts(16) by (simp add: stored_ok_def artemis_store_ok_def)
  with assms(1) facts(1-9) show ?thesis
    by (simp add: aflow_def batch_flow_def batches_ok_def ext_ok_def store_clean_def)
qed

lemma artemis_replica_startE:
  assumes "artemis_replica_start E config pks st = Inr s"
  obtains cx where "artemis_reactor_start E config pks (BatchCache_new 1024) st = Inr cx"
    "s = ks_start (KeyedMempool_spawn (Parameters_new (nc_id config) 0 (nc_block_size config) 50) st) cx"
  using assms by (auto simp: artemis_replica_start_def KeyedMempool_spawn_def batch_sink_new_def Let_def)

lemma artemis_replica_inv:
  assumes "ext_ok E st" and "artemis_replica_start E config pks st = Inr s" and "artemis_run E s subs t"
  shows "artemis_keyed.ks_inv E subs t"
proof -
  obtain cx where cx: "artemis_reactor_start E config pks (BatchCache_new 1024) st = Inr cx"
    and s: "s = ks_start (KeyedMempool_spawn (Parameters_new (nc_id config) 0 (nc_block_size config) 50) st) cx"
    by (rule artemis_replica_startE [OF assms(2)])
  have "artemis_keyed.ks_inv E [] s"
    unfolding s using artemis_start_flow [OF assms(1) cx] artemis_start_facts(1,2) [OF cx]
    by (intro artemis_keyed.ks_inv_start) simp_all
  with assms(3) show ?thesis by (rule artemis_keyed.ks_inv_run)
qed

text \<open>The node's own invariant holds in the composition too.\<close>

lemma artemis_replica_init:
  assumes "artemis_config_ok config pks" and "artemis_replica_start E config pks st = Inr s"
  shows "artemis_inv E (ks_node s)"
proof -
  obtain cx where "artemis_reactor_start E config pks (BatchCache_new 1024) st = Inr cx"
      "s = ks_start (KeyedMempool_spawn (Parameters_new (nc_id config) 0 (nc_block_size config) 50) st) cx"
    by (rule artemis_replica_startE [OF assms(2)])
  with assms(1) show ?thesis by (intro artemis_inv_start) (auto simp: artemis_init_def ks_start_def)
qed

lemma artemis_replica_node_inv:
  assumes "collision_free E" and "hash_32 E" and "artemis_config_ok config pks"
    and "artemis_replica_start E config pks st = Inr s" and "artemis_run E s subs t"
  shows "artemis_inv E (ks_node t)"
  using assms(5)
proof (induction rule: ks_run.induct)
  case ks_nil
  show ?case by (rule artemis_replica_init [OF assms(3,4)])
next
  case (ks_snoc subs t l u)
  have react: "artemis_inv E c" if "artemis_event_sealed E ev" "artemis_reactor_step E ev (ks_node t) = Inr (Continue c)" for ev c
    using akeeps_reactor_step [OF assms(1,2) ks_snoc.IH that(1)] that(2) by simp
  from ks_snoc.hyps(2) show ?case
  proof cases
    case (ks_batch h b c)
    with react [of "ArBatchReady h b" c] show ?thesis by (simp add: share_node_def)
  next
    case (ks_input ev c)
    have "artemis_msg_sealed E m" if "artemis_msg_decoded E m" for m using that by (cases m) simp_all
    then have "artemis_event_sealed E ev" using ks_input(3) by (cases ev) (auto simp: list_all_iff)
    with ks_input react [of ev c] show ?thesis by (simp add: share_node_def)
  qed (use ks_snoc.IH in \<open>simp_all add: share_mempool_def\<close>)
qed

section \<open>A run to a broadcast block\<close>

text \<open>
  The replica that leads the first view takes a transaction from a client's frame to the broadcast of
  a block with its batch.
\<close>

lemma artemis_leader_reacts:
  assumes ext: "collision_free E" "hash_32 E" and inv: "artemis_inv E cx" and leads: "view_leader cx = rx_myid cx"
    and idle: "block_parent_waiting cx = fmempty" "bx_pending (rx_batch cx) = []"
    and small: "artemis_get_height (rx_last_seen_block cx) + 2 < 2 ^ 64" "rx_round cx + 1 < 2 ^ 64"
    and voted: "artemis_get_height (last_voted_block cx) \<le> artemis_get_height (rx_last_seen_block cx)"
    and sk: "signs E (nx_my_secret_key (rx_net cx))"
  obtains c b where "artemis_reactor_step E (ArBatchReady bh batch) cx = Inr (Continue c)" "blk_batch_hash (ab_blk b) = bh"
    "\<And>d. d \<in> set (nx_broadcast_peers (rx_net cx)) \<Longrightarrow> (d, ArNewBlock b batch) \<in> set (nx_sent (rx_net c))"
proof -
  let ?q = "artemis_metric RecBatchRecv (artemis_metric RecReactorIter cx)"
  have qi: "artemis_inv E ?q" using inv by simp
  have q: "rx_batch ?q = rx_batch cx" "rx_net ?q = rx_net cx" "view_leader ?q = rx_myid ?q"
      "block_parent_waiting ?q = fmempty" "rx_last_seen_block ?q = rx_last_seen_block cx" "rx_round ?q = rx_round cx"
      "last_voted_block ?q = last_voted_block cx"
    using leads idle(1) by (simp_all add: artemis_metric_def)
  note q = qi q
  define blk where "blk = block_init E ((with_batch E bh)\<lparr>blk_header := (Header_new E)\<lparr>hdr_prev := artemis_get_hash (rx_last_seen_block ?q),
      hdr_author := rx_myid ?q, hdr_height := artemis_get_height (rx_last_seen_block ?q) + 1\<rparr>\<rparr>)"
  obtain auth where auth: "sk_sign E (nx_my_secret_key (rx_net ?q)) (blk_hash blk) = Some auth"
    using sk unfolding signs_def q(3) by blast
  define b where "b = \<lparr>ab_blk = blk, ab_sig = \<lparr>v_origin = rx_myid ?q, v_auth = auth\<rparr>\<rparr>"
  have room: "artemis_get_height (rx_last_seen_block ?q) + 2 < 2 ^ 64" using small(1) q(6) by simp
  note made = leader_makes_block [OF ext(1) q(1,4,5) room blk_def auth b_def]
  obtain d where d: "do_new_block E bh batch ?q = Inr d" "rx_last_seen_block d = b"
      "rx_net d = rx_net (artemis_multicast E (ArNewBlock b batch) ?q)" "bx_pending (rx_batch d) = []"
      "last_voted_block d = last_voted_block cx" "rx_round d = rx_round cx"
    using made(1) [of batch] q(2,7,8) idle(2) by auto
  have dinv: "artemis_inv E d" using akeeps_do_new_block [OF ext(1) q(1), of bh batch] d(1) by simp
  have drain: "artemis_drain E (?q\<lparr>rx_batch := (rx_batch ?q)\<lparr>bx_pending := [(bh, batch)]\<rparr>\<rparr>) = Inr d"
  proof -
    have same: "?q\<lparr>rx_batch := (rx_batch ?q)\<lparr>bx_pending := []\<rparr>\<rparr> = ?q"
      using idle(2) q(2) by (cases ?q) (cases "rx_batch cx", simp)
    have "artemis_drain E d = Inr d" using d(4) by (simp add: artemis_drain.simps [of E d])
    with same d(1) q(4) show ?thesis by (simp add: artemis_drain.simps [of E "_\<lparr>rx_batch := _\<rparr>"])
  qed
  have sent: "(x, ArNewBlock b batch) \<in> set (nx_sent (rx_net d))" if "x \<in> set (nx_broadcast_peers (rx_net cx))" for x
    using that d(3) q(3) by (simp add: artemis_multicast_def)
  have "\<exists>c more. try_round_vote E d = Inr c \<and> nx_sent (rx_net c) = nx_sent (rx_net d) @ more"
  proof (cases "rx_myid d = rx_round_leader d")
    case True
    have key: "nx_my_secret_key (rx_net d) = nx_my_secret_key (rx_net cx)" using d(3) q(3) by (simp add: artemis_multicast_def)
    define v0 where "v0 = (UCRVote_new E)\<lparr>uv_hash := artemis_get_hash (rx_last_seen_block d), uv_round := rx_round d, uv_view := rx_view d\<rparr>"
    obtain a' where "sk_sign E (nx_my_secret_key (rx_net d)) (UCRVote_digest E v0) = Some a'" using sk unfolding signs_def key by blast
    from leader_votes [OF ext(2) dinv True _ _ v0_def this refl] d(2,5,6) made(5) voted small(2) q(6)
    show ?thesis by (auto simp: artemis_multicast_def artemis_metric_def)
  qed (simp add: try_round_vote_def)
  then obtain c more where c: "try_round_vote E d = Inr c" "nx_sent (rx_net c) = nx_sent (rx_net d) @ more" by blast
  then have "artemis_reactor_step E (ArBatchReady bh batch) cx = Inr (Continue c)"
    using drain idle(2) q(2) by (simp add: artemis_reactor_step_def artemis_after_select_def Let_def)
  moreover have "blk_batch_hash (ab_blk b) = bh" by (rule made(4))
  ultimately show thesis using sent c(2) by (intro that [of c b]) auto
qed

lemma artemis_replica_broadcasts:
  assumes ext: "collision_free E" "hash_32 E" and ok: "artemis_config_ok config pks"
    and start: "artemis_replica_start E config pks st = Inr s" and conf: "nc_id config = 0" "0 < nc_block_size config"
    and sk: "decode_secret E (nc_crypto_alg config) (nc_secret_key_bytes config) = Inr sk" "signs E sk"
    and tx: "0 < tx_nonce tx" "tx_serialized_size E tx = Some sz" "sz \<le> nc_block_size config" "sz < 2 ^ 64"
  obtains t blk b where "artemis_run E s [(tx, a)] t" "cb_payload b = [tx]" "blk_batch_hash (ab_blk blk) = batch_digest E [tx]"
    "\<And>d. d \<in> set (nx_broadcast_peers (rx_net (ks_node s))) \<Longrightarrow> (d, ArNewBlock blk b) \<in> set (nx_sent (rx_net (ks_node t)))"
proof -
  let ?N = "artemis_ops E" and ?h = "batch_digest E [tx]"
  obtain cx where cx: "artemis_reactor_start E config pks (BatchCache_new 1024) st = Inr cx"
    and s: "s = ks_start (KeyedMempool_spawn (Parameters_new (nc_id config) 0 (nc_block_size config) 50) st) cx"
    by (rule artemis_replica_startE [OF start])
  note facts = artemis_start_facts [OF cx]
  obtain m b where run: "artemis_run E s [(tx, a)] (share_mempool ?N m s)"
    and m: "bs_to_consensus (km_sink m) = [(?h, b)]" "cb_payload b = [tx]"
    by (rule artemis_keyed.fresh_run [OF s, of tx E sz a]) (use tx conf in \<open>simp_all add: Parameters_new_def\<close>)
  let ?s = "share_mempool ?N m s"
  have node: "ks_node ?s = cx\<lparr>rx_batch := (rx_batch cx)\<lparr>bx_cache := bs_cache (km_sink m), bx_store := bs_store (km_sink m)\<rparr>\<rparr>"
    by (simp add: s share_mempool_def ks_start_def)
  have inv: "artemis_inv E (ks_node ?s)" by (rule artemis_replica_node_inv [OF ext ok start run])
  obtain c blk where c: "artemis_reactor_step E (ArBatchReady ?h b) (ks_node ?s) = Inr (Continue c)" "blk_batch_hash (ab_blk blk) = ?h"
      "\<And>d. d \<in> set (nx_broadcast_peers (rx_net (ks_node ?s))) \<Longrightarrow> (d, ArNewBlock blk b) \<in> set (nx_sent (rx_net c))"
    by (rule artemis_leader_reacts [OF ext inv, of ?h b]) (use facts conf sk in \<open>simp_all add: node\<close>)
  have "ks_step E ?N (artemis_input E) None ?s ((share_node ?N c ?s)\<lparr>ks_batches_taken := 1\<rparr>)"
    using ks_batch [of ?s ?h b ?N c E "artemis_input E"] m(1) c(1) by (simp add: s share_mempool_def ks_start_def)
  from ks_snoc [OF run this] have "artemis_run E s [(tx, a)] ((share_node ?N c ?s)\<lparr>ks_batches_taken := 1\<rparr>)"
    by (simp add: label_subs_def)
  moreover have "nx_broadcast_peers (rx_net (ks_node ?s)) = nx_broadcast_peers (rx_net (ks_node s))" unfolding node by (simp add: s ks_start_def)
  moreover have "ks_node ((share_node ?N c ?s)\<lparr>ks_batches_taken := 1\<rparr>) = c" by (simp add: share_node_def)
  ultimately show thesis using m(2) c(2,3) by (intro that [of "(share_node ?N c ?s)\<lparr>ks_batches_taken := 1\<rparr>" b blk]) simp_all
qed

section \<open>Properties\<close>

text \<open>
  C2: An Artemis replica confirms only what it committed. Whatever clients and other replicas send and
  however the tasks of the process interleave: every confirmation goes to the reply address of a client
  that submitted a transaction with this hash to this replica, and the transaction is in the batch of a
  block that the node has delivered and committed; and there are never more confirmations of a
  transaction to an address than submissions of it from there.
\<close>
theorem artemis_replica_confirms_committed:
  assumes "collision_free E" and "hash_32 E" and "ext_ok E st" and "artemis_config_ok config pks"
    and "artemis_replica_start E config pks st = Inr s" and "artemis_run E s subs t"
  shows "(\<forall>(a, bs)\<in>set (rt_sent (km_router (ks_mempool t))). \<exists>tx blk (b :: cached_batch).
       (tx, a) \<in> set subs \<and> ser_client_msg E (Confirmation (hash_tx E tx)) = Some bs \<and>
       delivered_block_from_hash (rx_storage (ks_node t)) (artemis_get_hash blk) = Some blk \<and>
       is_committed_by_hash (rx_storage (ks_node t)) (artemis_get_hash blk) \<and>
       batch_digest E (cb_payload b) = blk_batch_hash (ab_blk blk) \<and> hash_tx E tx \<in> hash_tx E ` set (cb_payload b)) \<and>
    mset (rt_sent (km_router (ks_mempool t))) \<subseteq>#
      mset (map (\<lambda>(tx, a). (a, the (ser_client_msg E (Confirmation (hash_tx E tx))))) subs)"
proof -
  let ?st = "rx_storage (ks_node t)"
  have inv: "artemis_keyed.ks_inv E subs t" by (rule artemis_replica_inv [OF assms(3,5,6)])
  have node: "artemis_store_ok E ?st" using artemis_replica_node_inv [OF assms(1,2,4-6)] by (simp add: artemis_inv_def)
  have block: "\<exists>c. delivered_block_from_hash ?st (artemis_get_hash c) = Some c \<and> artemis_get_hash c = artemis_get_hash blk \<and> ab_blk c = ab_blk blk"
    if "is_committed_by_hash ?st (artemis_get_hash blk)" "ab_ok E blk" for blk
  proof -
    have ok: "storage_ok artemis_get_hash (\<lambda>b. ab_prev b) ?st" using node by (simp add: artemis_store_ok_def)
    have "is_delivered_by_hash ?st (artemis_get_hash blk)" using storage_okD(2) [OF ok that(1)] .
    then obtain c where c: "delivered_block_from_hash ?st (artemis_get_hash blk) = Some c" by (auto simp: is_delivered_iff)
    have same: "artemis_get_hash c = artemis_get_hash blk" using storage_okD(1) [OF ok c] .
    have "ab_ok E c" using node c by (auto simp: artemis_store_ok_def)
    then have "ab_blk c = ab_blk blk"
      using that(2) artemis_collision [OF assms(1) \<open>ab_ok E c\<close> _ same] artemis_collision [OF assms(1) that(2) _ same [symmetric]]
      unfolding ab_ok_def by metis
    with c same show ?thesis by (intro exI [of _ c]) simp
  qed
  have "\<exists>tx blk (b :: cached_batch). (tx, a) \<in> set subs \<and> ser_client_msg E (Confirmation (hash_tx E tx)) = Some bs \<and>
       delivered_block_from_hash ?st (artemis_get_hash blk) = Some blk \<and> is_committed_by_hash ?st (artemis_get_hash blk) \<and>
       batch_digest E (cb_payload b) = blk_batch_hash (ab_blk blk) \<and> hash_tx E tx \<in> hash_tx E ` set (cb_payload b)"
    if "(a, bs) \<in> set (rt_sent (km_router (ks_mempool t)))" for a bs
  proof -
    note sound = artemis_keyed.confirmations_sound [OF inv that]
    obtain tx b where tx: "(tx, a) \<in> set subs" "ser_client_msg E (Confirmation (hash_tx E tx)) = Some bs"
        "artemis_committed_by E ?st b" "hash_tx E tx \<in> hash_tx E ` set (cb_payload b)"
      using sound by blast
    from tx(3) obtain blk where blk: "is_committed_by_hash ?st (artemis_get_hash blk)" "ab_ok E blk"
        "batch_digest E (cb_payload b) = blk_batch_hash (ab_blk blk)"
      by (auto simp: artemis_committed_by_def good_batch_def)
    note found = block [OF blk(1,2)]
    obtain c where "delivered_block_from_hash ?st (artemis_get_hash c) = Some c" "artemis_get_hash c = artemis_get_hash blk" "ab_blk c = ab_blk blk"
      using found by blast
    with tx(1,2,4) blk(1,3) show ?thesis by (intro exI [of _ tx] exI [of _ c] exI [of _ b] conjI) simp_all
  qed
  with artemis_keyed.confirmations_charged [OF inv] show ?thesis by blast
qed

text \<open>
  C14: An Artemis replica proposes only what its clients submitted, and announces nothing twice. Every
  batch in a block the node has broadcast consists of transactions that clients submitted to this
  replica; and over the whole life of the replica no transaction (client and nonce) is in two announced
  batches or twice in one: the node never asks the batcher for a rollback.
\<close>
theorem artemis_replica_proposes_submitted:
  assumes "ext_ok E st" and "artemis_replica_start E config pks st = Inr s" and "artemis_run E s subs t"
  shows "(\<forall>d blk b. (d, ArNewBlock blk b) \<in> set (nx_sent (rx_net (ks_node t))) \<longrightarrow> set (cb_payload b) \<subseteq> fst ` set subs) \<and>
    distinct (map tx_key (concat (map (cb_payload \<circ> snd) (bs_to_consensus (km_sink (ks_mempool t)))))) \<and>
    (\<forall>rs. Rollback rs \<notin> set (bx_to_batcher (rx_batch (ks_node t))))"
proof -
  have inv: "artemis_keyed.ks_inv E subs t" by (rule artemis_replica_inv [OF assms])
  then obtain X where node: "aflow E (fst ` set subs) X (ks_node t)" by (auto simp: artemis_keyed.ks_inv_def)
  have "set (cb_payload b) \<subseteq> fst ` set subs" if "(d, ArNewBlock blk b) \<in> set (nx_sent (rx_net (ks_node t)))" for d blk b
    using node that by (force simp: aflow_def)
  moreover have "Rollback rs \<notin> set (bx_to_batcher (rx_batch (ks_node t)))" for rs
    using node by (force simp: aflow_def batch_flow_def)
  ultimately show ?thesis using artemis_keyed.announcements_sound(2) [OF inv] by blast
qed

section \<open>Witnesses\<close>

definition sample_artemis_replica :: "artemis_cx keyed_system" where
  "sample_artemis_replica = projr (artemis_replica_start sample_ext (sample_config 0) sample_pks fmempty)"

lemma sample_artemis_replica_start:
  "artemis_replica_start sample_ext (sample_config 0) sample_pks fmempty = Inr sample_artemis_replica"
  by (simp add: sample_artemis_replica_def sample_node_defs artemis_replica_start_def artemis_reactor_start_def
      artemis_Context_new_def mul_u64_def sub_u64_def announce_height_to_batcher_def artemis_deliver_def add_u64_def Let_def)

lemma sample_artemis_config: "artemis_config_ok (sample_config 0) sample_pks"
  by (auto simp: artemis_config_ok_def config_ok_def sample_config_def sample_pks_def)

text \<open>The replica broadcasts a block for the transaction of its client.\<close>

lemma sample_artemis_run:
  "\<exists>t blk b. artemis_run sample_ext sample_artemis_replica [(sample_tx 1 1, ''a'')] t \<and>
     (1, ArNewBlock blk b) \<in> set (nx_sent (rx_net (ks_node t))) \<and> cb_payload b = [sample_tx 1 1]"
proof -
  have "decode_secret sample_ext (nc_crypto_alg (sample_config 0)) (nc_secret_key_bytes (sample_config 0)) = Inr [0]" "signs sample_ext [0]"
    by (simp_all add: sample_node_defs signs_def sample_ext_def)
  note run = artemis_replica_broadcasts [OF sample_collision_free sample_hash_32 sample_artemis_config sample_artemis_replica_start _ _ this _ sample_size]
  have "1 \<in> set (nx_broadcast_peers (rx_net (ks_node sample_artemis_replica)))"
  proof (rule artemis_replica_startE [OF sample_artemis_replica_start], goal_cases)
    case (1 cx)
    from artemis_start_facts(18) [OF 1(1)] show ?case by (simp add: 1(2) ks_start_def sample_config_def)
  qed
  moreover have side: "nc_id (sample_config 0) = 0" "0 < nc_block_size (sample_config 0)" "0 < tx_nonce (sample_tx 1 1)"
      "6 \<le> nc_block_size (sample_config 0)" "(6 :: nat) < 2 ^ 64"
    by (simp_all add: sample_config_def sample_tx_def)
  moreover obtain t blk b where "artemis_run sample_ext sample_artemis_replica [(sample_tx 1 1, ''a'')] t" "cb_payload b = [sample_tx 1 1]"
      "\<And>d. d \<in> set (nx_broadcast_peers (rx_net (ks_node sample_artemis_replica))) \<Longrightarrow> (d, ArNewBlock blk b) \<in> set (nx_sent (rx_net (ks_node t)))"
    by (rule run [OF side, of "''a''"]) blast
  ultimately show ?thesis by blast
qed

theorem artemis_replica_confirms_committed_witness:
  "\<exists>t blk b. artemis_run sample_ext sample_artemis_replica [(sample_tx 1 1, ''a'')] t \<and>
     (1, ArNewBlock blk b) \<in> set (nx_sent (rx_net (ks_node t))) \<and> cb_payload b = [sample_tx 1 1] \<and>
     mset (rt_sent (km_router (ks_mempool t))) \<subseteq># {#(''a'', [])#}"
proof -
  obtain t blk b where t: "artemis_run sample_ext sample_artemis_replica [(sample_tx 1 1, ''a'')] t"
      "(1, ArNewBlock blk b) \<in> set (nx_sent (rx_net (ks_node t)))" "cb_payload b = [sample_tx 1 1]"
    using sample_artemis_run by blast
  have "the (ser_client_msg sample_ext (Confirmation h)) = []" for h by (simp add: sample_ext_def)
  with conjunct2 [OF artemis_replica_confirms_committed [OF sample_collision_free sample_hash_32 sample_ext_clean sample_artemis_config
        sample_artemis_replica_start t(1)]] t
  show ?thesis by auto
qed

theorem artemis_replica_proposes_submitted_witness:
  "\<exists>t blk b. artemis_run sample_ext sample_artemis_replica [(sample_tx 1 1, ''a'')] t \<and>
     (1, ArNewBlock blk b) \<in> set (nx_sent (rx_net (ks_node t))) \<and> cb_payload b = [sample_tx 1 1] \<and>
     set (cb_payload b) \<subseteq> {sample_tx 1 1} \<and>
     distinct (map tx_key (concat (map (cb_payload \<circ> snd) (bs_to_consensus (km_sink (ks_mempool t))))))"
proof -
  obtain t blk b where t: "artemis_run sample_ext sample_artemis_replica [(sample_tx 1 1, ''a'')] t"
      "(1, ArNewBlock blk b) \<in> set (nx_sent (rx_net (ks_node t)))" "cb_payload b = [sample_tx 1 1]"
    using sample_artemis_run by blast
  with artemis_replica_proposes_submitted [OF sample_ext_clean sample_artemis_replica_start t(1)] show ?thesis by fastforce
qed

end
