(* ===== verification/Count_Replica.thy ===== *)
theory Count_Replica
  imports Replica
begin

text \<open>
  A replica of Sync HotStuff or Opt Sync as its \<open>main.rs\<close> assembles it: the count-based mempool and the
  node's reactor, which share the batch cache and the batch store, over the channel of announced
  batches. As in \<open>Replica\<close>, the definitions are generic in the node, and the interface \<open>count_node\<close> states
  what the node promises. The theory \<open>Sync_Replicas\<close> interprets it for both protocols.
\<close>

section \<open>The assembled replica\<close>

record 'c count_system =
  ct_mempool :: legacy_mempool
  ct_node :: 'c
  ct_batches_taken :: nat

definition ct_share_node :: "('c, 'e) node_ops \<Rightarrow> 'c \<Rightarrow> 'c count_system \<Rightarrow> 'c count_system" where
  "ct_share_node N c s =
     s\<lparr>ct_node := c,
       ct_mempool := (ct_mempool s)\<lparr>lm_sink := (lm_sink (ct_mempool s))
         \<lparr>bs_cache := bx_cache (no_batches N c), bs_store := bx_store (no_batches N c)\<rparr>\<rparr>\<rparr>"

definition ct_share_mempool :: "('c, 'e) node_ops \<Rightarrow> legacy_mempool \<Rightarrow> 'c count_system \<Rightarrow> 'c count_system" where
  "ct_share_mempool N m s =
     s\<lparr>ct_mempool := m,
       ct_node := no_set_batches N ((no_batches N (ct_node s))
         \<lparr>bx_cache := bs_cache (lm_sink m), bx_store := bs_store (lm_sink m)\<rparr>) (ct_node s)\<rparr>"

definition ct_start :: "legacy_mempool \<Rightarrow> 'c \<Rightarrow> 'c count_system" where
  "ct_start m c = \<lparr>ct_mempool = m, ct_node = c, ct_batches_taken = 0\<rparr>"

text \<open>The mempool takes a frame (\<open>k\<close> is the threshold of its sealer), or the reactor an announced batch or another event.\<close>

inductive ct_step ::
  "ext \<Rightarrow> ('c, 'e) node_ops \<Rightarrow> ('e \<Rightarrow> bool) \<Rightarrow> nat \<Rightarrow> intake option \<Rightarrow> 'c count_system \<Rightarrow> 'c count_system \<Rightarrow> bool"
  for E N ok k where
  ct_receive: "ct_step E N ok k (Some i) s (ct_share_mempool N (legacy_receive E k i (ct_mempool s)) s)"
| ct_batch:
    "ct_batches_taken s < length (bs_to_consensus (lm_sink (ct_mempool s))) \<Longrightarrow>
     bs_to_consensus (lm_sink (ct_mempool s)) ! ct_batches_taken s = (h, b) \<Longrightarrow>
     no_react N (no_ready N h b) (ct_node s) = Inr (Continue c) \<Longrightarrow>
     ct_step E N ok k None s ((ct_share_node N c s)\<lparr>ct_batches_taken := Suc (ct_batches_taken s)\<rparr>)"
| ct_input:
    "ok ev \<Longrightarrow> no_react N ev (ct_node s) = Inr (Continue c) \<Longrightarrow> ct_step E N ok k None s (ct_share_node N c s)"

inductive_cases ct_stepE: "ct_step E N ok k l s s'"

fun intake_txs :: "intake option \<Rightarrow> transaction list" where
  "intake_txs (Some (Decoded t)) = [t]"
| "intake_txs _ = []"

text \<open>Runs, with the transactions the mempool received.\<close>

inductive ct_run ::
  "ext \<Rightarrow> ('c, 'e) node_ops \<Rightarrow> ('e \<Rightarrow> bool) \<Rightarrow> nat \<Rightarrow> 'c count_system \<Rightarrow> transaction list \<Rightarrow> 'c count_system \<Rightarrow> bool"
  for E N ok k s where
  ct_nil: "ct_run E N ok k s [] s"
| ct_snoc: "ct_run E N ok k s txs t \<Longrightarrow> ct_step E N ok k l t u \<Longrightarrow> ct_run E N ok k s (txs @ intake_txs l) u"

section \<open>What flows through the mempool\<close>

text \<open>The intake, cut into batches of \<open>k\<close> transactions, each announced as it is sealed.\<close>

definition lm_flow :: "nat \<Rightarrow> transaction list \<Rightarrow> legacy_mempool \<Rightarrow> bool" where
  "lm_flow k txs m \<longleftrightarrow>
     batcher_inv k txs (lm_batcher m) \<and> \<not> bs_exited (lm_sink m) \<and>
     map (cb_payload \<circ> snd) (bs_to_consensus (lm_sink m)) = map cb_payload (sealed (lm_batcher m))"

lemma process_all:
  assumes "\<not> bs_exited s"
  shows "\<not> bs_exited (fold (process_batch E True) bs s)"
    and "map (cb_payload \<circ> snd) (bs_to_consensus (fold (process_batch E True) bs s)) =
      map (cb_payload \<circ> snd) (bs_to_consensus s) @ map cb_payload bs"
proof -
  have one: "\<not> bs_exited (process_batch E True b s) \<and> map (cb_payload \<circ> snd) (bs_to_consensus (process_batch E True b s)) =
      map (cb_payload \<circ> snd) (bs_to_consensus s) @ [cb_payload b]" if "\<not> bs_exited s" for b s
  proof -
    obtain h b' where "CachedBatch_hash E b = (h, b')" by fastforce
    moreover from this have "cb_payload b' = cb_payload b" using CachedBatch_payload(2) [of E b] by simp
    ultimately show ?thesis using that by (simp add: process_batch_def Let_def)
  qed
  from assms have "\<not> bs_exited (fold (process_batch E True) bs s) \<and>
    map (cb_payload \<circ> snd) (bs_to_consensus (fold (process_batch E True) bs s)) = map (cb_payload \<circ> snd) (bs_to_consensus s) @ map cb_payload bs"
    by (induction bs arbitrary: s) (simp_all add: one)
  then show "\<not> bs_exited (fold (process_batch E True) bs s)"
    and "map (cb_payload \<circ> snd) (bs_to_consensus (fold (process_batch E True) bs s)) =
      map (cb_payload \<circ> snd) (bs_to_consensus s) @ map cb_payload bs" by blast+
qed

lemma lm_flow_receive:
  assumes "lm_flow k txs m"
  shows "lm_flow k (txs @ intake_txs (Some i)) (legacy_receive E k i m)"
proof (cases i)
  case DecodeError
  with assms show ?thesis by (simp add: legacy_receive_def)
next
  case (Decoded t)
  let ?b = "batcher_recv k True t (lm_batcher m)"
  obtain new where new: "sealed ?b = sealed (lm_batcher m) @ new" using batcher_recv_sealed by blast
  with assms batcher_inv_recv [of k txs "lm_batcher m" t] Decoded show ?thesis
    by (simp add: lm_flow_def legacy_receive_def process_all)
qed

lemma lm_flow_spawn: "0 < k \<Longrightarrow> lm_flow k [] (Mempool_spawn st)"
  by (simp add: lm_flow_def Mempool_spawn_def batch_sink_new_def batcher_inv_spawn) (simp add: Batcher_spawn_def)

lemma lm_flow_announced:
  assumes "lm_flow k txs m"
  shows "concat (map (cb_payload \<circ> snd) (bs_to_consensus (lm_sink m))) @ queue_txs (lm_batcher m) = txs"
    and "\<forall>(h, b)\<in>set (bs_to_consensus (lm_sink m)). length (cb_payload b) = k \<and> set (cb_payload b) \<subseteq> set txs"
    and "length (queue_txs (lm_batcher m)) < k"
proof -
  have eq: "map (cb_payload \<circ> snd) (bs_to_consensus (lm_sink m)) = map cb_payload (sealed (lm_batcher m))"
    and inv: "batcher_inv k txs (lm_batcher m)" using assms by (simp_all add: lm_flow_def)
  show all: "concat (map (cb_payload \<circ> snd) (bs_to_consensus (lm_sink m))) @ queue_txs (lm_batcher m) = txs"
    using inv unfolding eq by (simp add: batcher_inv_def)
  show "length (queue_txs (lm_batcher m)) < k" using inv by (simp add: batcher_inv_def)
  have "length (cb_payload b) = k" if "(h, b) \<in> set (bs_to_consensus (lm_sink m))" for h b
  proof -
    have "cb_payload b \<in> set (map (cb_payload \<circ> snd) (bs_to_consensus (lm_sink m)))" using that by force
    then show ?thesis using inv unfolding eq by (auto simp: batcher_inv_def)
  qed
  moreover have "set (cb_payload b) \<subseteq> set txs" if "(h, b) \<in> set (bs_to_consensus (lm_sink m))" for h b
    using that by (force simp: all [symmetric])
  ultimately show "\<forall>(h, b)\<in>set (bs_to_consensus (lm_sink m)). length (cb_payload b) = k \<and> set (cb_payload b) \<subseteq> set txs" by blast
qed

text \<open>A batch in the sink keeps the shared cache and store well formed, and they only grow.\<close>

lemma sink_grows:
  assumes "store_ok E" and "\<forall>b\<in>set bs. batch_ok E b"
  defines "t \<equiv> \<lambda>s. fold (process_batch E True) bs s"
  shows "store_clean E (bs_store s) \<Longrightarrow> store_clean E (bs_store (t s))"
    and "cache_get (bs_cache s) h \<noteq> None \<Longrightarrow> cache_get (bs_cache (t s)) h \<noteq> None"
    and "store_read E h (bs_store s) \<noteq> None \<Longrightarrow> store_read E h (bs_store (t s)) \<noteq> None"
proof -
  have one: "(store_clean E (bs_store s) \<longrightarrow> store_clean E (bs_store (process_batch E True b s))) \<and>
      (cache_get (bs_cache s) h \<noteq> None \<longrightarrow> cache_get (bs_cache (process_batch E True b s)) h \<noteq> None) \<and>
      (store_read E h (bs_store s) \<noteq> None \<longrightarrow> store_read E h (bs_store (process_batch E True b s)) \<noteq> None)"
    if "batch_ok E b" for b s h
  proof -
    obtain k c where kc: "CachedBatch_hash E b = (k, c)" by fastforce
    then have "k = batch_digest E (cb_payload c)" using CachedBatch_hash_ok(1,3) [OF that] by simp
    with kc assms(1) show ?thesis
      by (auto simp: process_batch_def store_clean_def store_ok_def CachedBatch_serialize_def cache_insert_def cache_get_def fmmem_def Let_def
          split: if_splits)
  qed
  have "(store_clean E (bs_store s) \<longrightarrow> store_clean E (bs_store (t s))) \<and>
      (cache_get (bs_cache s) h \<noteq> None \<longrightarrow> cache_get (bs_cache (t s)) h \<noteq> None) \<and>
      (store_read E h (bs_store s) \<noteq> None \<longrightarrow> store_read E h (bs_store (t s)) \<noteq> None)"
    using assms(2) one unfolding t_def by (induction bs arbitrary: s) auto
  then show "store_clean E (bs_store s) \<Longrightarrow> store_clean E (bs_store (t s))"
    and "cache_get (bs_cache s) h \<noteq> None \<Longrightarrow> cache_get (bs_cache (t s)) h \<noteq> None"
    and "store_read E h (bs_store s) \<noteq> None \<Longrightarrow> store_read E h (bs_store (t s)) \<noteq> None" by blast+
qed

lemma legacy_sink:
  "\<exists>new. lm_sink (legacy_receive E k i m) = fold (process_batch E True) new (lm_sink m) \<and> (\<forall>b\<in>set new. batch_ok E b)"
proof (cases i)
  case DecodeError
  then show ?thesis by (intro exI [of _ "[]"]) (simp add: legacy_receive_def)
next
  case (Decoded t)
  obtain new where "sealed (batcher_recv k True t (lm_batcher m)) = sealed (lm_batcher m) @ new" "\<forall>b\<in>set new. \<exists>txs. b = CachedBatch_new txs"
    using batcher_recv_sealed by blast
  with Decoded show ?thesis by (intro exI [of _ new]) (auto simp: legacy_receive_def Let_def)
qed

section \<open>What a node promises, and what follows for the replica\<close>

locale count_node =
  fixes E :: ext
    and N :: "('c, 'e) node_ops"
    and ok :: "'e \<Rightarrow> bool"
    and node_ok :: "transaction set \<Rightarrow> batch_ctx \<Rightarrow> 'c \<Rightarrow> bool"
  assumes ok_input: "node_ok S X c \<Longrightarrow> ok ev \<Longrightarrow> no_react N ev c = Inr (Continue c') \<Longrightarrow> node_ok S X c'"
    and ok_ready: "node_ok S X c \<Longrightarrow> set (cb_payload b) \<subseteq> S \<Longrightarrow> cache_get (bx_cache (no_batches N c)) h \<noteq> None \<Longrightarrow>
      no_react N (no_ready N h b) c = Inr (Continue c') \<Longrightarrow> node_ok S X c'"
    and ok_batches: "node_ok S X c \<Longrightarrow> batches_ok E (no_batches N c) \<and> grows E X (no_batches N c)"
    and ok_here: "node_ok S X c \<Longrightarrow> S \<subseteq> S' \<Longrightarrow> node_ok S' (no_batches N c) c"
    and ok_share: "node_ok S X c \<Longrightarrow> batches_ok E y \<Longrightarrow> grows E (no_batches N c) y \<Longrightarrow> bx_pending y = bx_pending (no_batches N c) \<Longrightarrow>
      node_ok S y (no_set_batches N y c)"
    and get_set: "no_batches N (no_set_batches N y c) = y"
begin

definition ct_inv :: "nat \<Rightarrow> transaction list \<Rightarrow> 'c count_system \<Rightarrow> bool" where
  "ct_inv k txs s \<longleftrightarrow>
     sink_ok E (lm_sink (ct_mempool s)) \<and> lm_flow k txs (ct_mempool s) \<and> (\<exists>X. node_ok (set txs) X (ct_node s)) \<and>
     bx_cache (no_batches N (ct_node s)) = bs_cache (lm_sink (ct_mempool s)) \<and>
     bx_store (no_batches N (ct_node s)) = bs_store (lm_sink (ct_mempool s))"

lemma ct_inv_start:
  assumes "0 < k" and "node_ok {} X c" and "bx_cache (no_batches N c) = BatchCache_new 1024" and "bx_store (no_batches N c) = st"
  shows "ct_inv k [] (ct_start (Mempool_spawn st) c)"
  using assms sink_ok_new [of E st] lm_flow_spawn [of k st]
  by (auto simp: ct_inv_def ct_start_def Mempool_spawn_def batch_sink_new_def)

lemma ct_inv_node:
  assumes inv: "ct_inv k txs s" and here: "node_ok (set txs) (no_batches N (ct_node s)) c"
  shows "ct_inv k txs (ct_share_node N c s)"
proof -
  let ?x = "no_batches N (ct_node s)" and ?y = "no_batches N c"
  let ?k = "(lm_sink (ct_mempool s))\<lparr>bs_cache := bx_cache ?y, bs_store := bx_store ?y\<rparr>"
  have ok: "batches_ok E ?y" and grow: "grows E ?x ?y" using ok_batches [OF here] by blast+
  have "sink_ok E ?k"
    unfolding sink_ok_def
  proof (intro conjI ballI, goal_cases)
    case 1
    show ?case using ok by (simp add: batches_ok_def)
  next
    case (2 e)
    obtain h b where e: "e = (h, b)" by (cases e)
    have old: "batch_ok E b" "h = batch_digest E (cb_payload b)" "cache_get (bx_cache ?x) h \<noteq> None" "store_read E h (bx_store ?x) \<noteq> None"
      using inv 2 e by (auto simp: ct_inv_def sink_ok_def)
    then have "cache_get (bx_cache ?y) h \<noteq> None" "store_read E h (bx_store ?y) \<noteq> None" using grow by (auto simp: grows_def)
    with old(1,2) ok e show ?case by (auto simp: batches_ok_def)
  qed
  with inv here show ?thesis by (auto simp: ct_inv_def ct_share_node_def lm_flow_def)
qed

lemma ct_inv_receive:
  assumes inv: "ct_inv k txs s"
  shows "ct_inv k (txs @ intake_txs (Some i)) (ct_share_mempool N (legacy_receive E k i (ct_mempool s)) s)"
proof -
  let ?m = "ct_mempool s" and ?x = "no_batches N (ct_node s)"
  let ?m' = "legacy_receive E k i ?m"
  let ?y = "?x\<lparr>bx_cache := bs_cache (lm_sink ?m'), bx_store := bs_store (lm_sink ?m')\<rparr>"
  obtain X where node: "node_ok (set txs) X (ct_node s)" using inv by (auto simp: ct_inv_def)
  have here: "node_ok (set (txs @ intake_txs (Some i))) ?x (ct_node s)" by (rule ok_here [OF node]) auto
  have x: "batches_ok E ?x" using ok_batches [OF here] by blast
  then have st: "store_ok E" by (simp add: batches_ok_def)
  obtain new where new: "lm_sink ?m' = fold (process_batch E True) new (lm_sink ?m)" "\<forall>b\<in>set new. batch_ok E b" using legacy_sink by blast
  note grow = sink_grows [OF st new(2)]
  have sink: "sink_ok E (lm_sink ?m')" using inv st by (intro legacy_sink_ok) (simp_all add: ct_inv_def)
  have "store_clean E (bs_store (lm_sink ?m))" using x inv by (auto simp: store_clean_def batches_ok_def ct_inv_def)
  then have "store_clean E (bs_store (lm_sink ?m'))" using grow(1) new(1) by simp
  then have ok: "batches_ok E ?y" using x sink by (auto simp: batches_ok_def sink_ok_def store_clean_def)
  have grows: "grows E ?x ?y" using grow(2,3) new(1) inv by (simp add: grows_def ct_inv_def)
  have "node_ok (set (txs @ intake_txs (Some i))) ?y (no_set_batches N ?y (ct_node s))"
    by (rule ok_share [OF here ok grows]) simp
  with sink inv lm_flow_receive [of k txs ?m i E] show ?thesis
    by (auto simp: ct_inv_def ct_share_mempool_def get_set)
qed

lemma ct_inv_step:
  assumes inv: "ct_inv k txs s" and step: "ct_step E N ok k l s s'"
  shows "ct_inv k (txs @ intake_txs l) s'"
proof -
  let ?m = "ct_mempool s"
  obtain X where node: "node_ok (set txs) X (ct_node s)" using inv by (auto simp: ct_inv_def)
  have here: "node_ok (set txs) (no_batches N (ct_node s)) (ct_node s)" by (rule ok_here [OF node]) simp
  from step show ?thesis
  proof cases
    case (ct_receive i)
    with ct_inv_receive [OF inv] show ?thesis by simp
  next
    case (ct_batch h b c)
    have hb: "(h, b) \<in> set (bs_to_consensus (lm_sink ?m))" using ct_batch(3,4) by (metis nth_mem)
    have "set (cb_payload b) \<subseteq> set txs" using lm_flow_announced(2) [of k txs ?m] inv hb by (auto simp: ct_inv_def)
    moreover have "cache_get (bx_cache (no_batches N (ct_node s))) h \<noteq> None" using inv hb by (auto simp: ct_inv_def sink_ok_def)
    ultimately show ?thesis
      using ct_inv_node [OF inv ok_ready [OF here _ _ ct_batch(5)]] ct_batch(1,2) by (simp add: ct_inv_def ct_share_node_def)
  next
    case (ct_input ev c)
    with ct_inv_node [OF inv ok_input [OF here]] show ?thesis by simp
  qed
qed

lemma ct_inv_run: "ct_run E N ok k s txs t \<Longrightarrow> ct_inv k [] s \<Longrightarrow> ct_inv k txs t"
  by (induction rule: ct_run.induct) (auto intro: ct_inv_step)

end

end
