(* ===== verification/Sync_Replicas.thy ===== *)
theory Sync_Replicas
  imports Sync_Properties Count_Replica
begin

text \<open>
  Replicas of Sync HotStuff and Opt Sync: the composition of \<open>Count_Replica\<close> with either node, started
  as \<open>examples/synchs/node/src/main.rs\<close> and \<open>examples/optsync/node/src/main.rs\<close> do. What the nodes tell their
  clients names committed blocks with the hashes of the transactions in them, and what they propose
  was received by their mempool.
\<close>

section \<open>Invariant\<close>

fun told_ok :: "ext \<Rightarrow> block storage \<Rightarrow> sync_client_msg \<Rightarrow> bool" where
  "told_ok E st (SyNewBlock b hs pl) =
     (is_committed_by_hash st (blk_hash b) \<and>
      (\<exists>batch :: cached_batch. good_batch E (blk_batch_hash b) batch \<and> hs = map (hash_tx E) (cb_payload batch)))"
| "told_ok E st _ = True"

fun proposal_ok :: "transaction set \<Rightarrow> sync_msg \<Rightarrow> bool" where
  "proposal_ok S (SyNewProposal p b batch) = (set (cb_payload batch) \<subseteq> S)"
| "proposal_ok S _ = True"

abbreviation hx_cached :: "'z synchs_cx_scheme \<Rightarrow> hash \<Rightarrow> bool" where
  "hx_cached cx h \<equiv> cache_get (bx_cache (hx_batch cx)) h \<noteq> None"

text \<open>
  \<open>S\<close> contains the transactions of every batch announced to the node, \<open>X\<close> is an earlier state of the
  batch context. The batch of every delivered block but the first is in the cache.
\<close>

definition hflow :: "ext \<Rightarrow> transaction set \<Rightarrow> batch_ctx \<Rightarrow> 'z synchs_cx_scheme \<Rightarrow> bool" where
  "hflow E S X cx \<longleftrightarrow>
     batches_ok E (hx_batch cx) \<and> grows E X (hx_batch cx) \<and>
     (\<forall>(h, b)\<in>set (bx_pending (hx_batch cx)). set (cb_payload b) \<subseteq> S \<and> hx_cached cx h) \<and>
     (\<forall>h b. delivered_block_from_hash (hx_storage cx) h = Some b \<longrightarrow> blk_hash b = EMPTY_HASH E \<or> hx_cached cx (blk_batch_hash b)) \<and>
     is_committed_by_hash (hx_storage cx) (EMPTY_HASH E) \<and>
     (\<forall>dm\<in>set (nx_sent (hx_net cx)). proposal_ok S (snd dm)) \<and>
     (\<forall>dm\<in>set (client_sent (hx_client_net cx)). told_ok E (hx_storage cx) (snd dm))"

abbreviation hflows :: "ext \<Rightarrow> transaction set \<Rightarrow> batch_ctx \<Rightarrow> 'z synchs_cx_scheme res \<Rightarrow> bool" where
  "hflows E S X \<equiv> rkeeps (hflow E S X) UNIV"

abbreviation hflows2 :: "ext \<Rightarrow> transaction set \<Rightarrow> batch_ctx \<Rightarrow> ('d \<times> 'z synchs_cx_scheme) res \<Rightarrow> bool" where
  "hflows2 E S X \<equiv> rkeeps (\<lambda>(d, c). hflow E S X c) UNIV"

section \<open>Small steps\<close>

lemma hflow_frame [simp]:
  "hflow E S X (cx\<lparr>cert_map := a\<rparr>) = hflow E S X cx"
  "hflow E S X (cx\<lparr>vote_map := v\<rparr>) = hflow E S X cx"
  "hflow E S X (cx\<lparr>cert_map := a, last_seen_cert := l\<rparr>) = hflow E S X cx"
  "hflow E S X (cx\<lparr>last_seen_cert := l\<rparr>) = hflow E S X cx"
  "hflow E S X (cx\<lparr>hx_height := ht\<rparr>) = hflow E S X cx"
  "hflow E S X (cx\<lparr>hx_last_seen_block := b\<rparr>) = hflow E S X cx"
  "hflow E S X (cx\<lparr>last_committed_block_ht := lh\<rparr>) = hflow E S X cx"
  "hflow E S X (cx\<lparr>commit_queue := q\<rparr>) = hflow E S X cx"
  "hflow E S X (start_timer p cx) = hflow E S X cx"
  by (simp_all add: hflow_def start_timer_def)

lemma hflow_resp [simp]: "hflow E S X (cx\<lparr>resp_cert := r\<rparr>) = hflow E S X cx"
  by (simp add: hflow_def)

text \<open>Batches change, and with them the cache grows.\<close>

lemma hflow_batch:
  assumes "hflow E S X cx" and "batches_ok E y" and "grows E (hx_batch cx) y" and "grows E X y" and "bx_pending y = bx_pending (hx_batch cx)"
  shows "hflow E S X (cx\<lparr>hx_batch := y\<rparr>)"
proof -
  have cached: "cache_get (bx_cache y) h \<noteq> None" if "hx_cached cx h" for h using that assms(3) by (simp add: grows_def)
  with assms show ?thesis unfolding hflow_def by (simp add: case_prod_beta) blast
qed

lemma hflow_delivered:
  "hflow E S X cx \<Longrightarrow> delivered_block_from_hash (hx_storage cx) h = Some b \<Longrightarrow> blk_hash b \<noteq> EMPTY_HASH E \<Longrightarrow> hx_cached cx (blk_batch_hash b)"
  unfolding hflow_def by blast

lemma hflow_persist:
  assumes "hflow E S X cx" and "good_batch E h b"
  shows "hflow E S X (cx\<lparr>hx_batch := persist_batch E h b (hx_batch cx)\<rparr>)" and "hx_cached (cx\<lparr>hx_batch := persist_batch E h b (hx_batch cx)\<rparr>) h"
proof -
  have ok: "batches_ok E (hx_batch cx)" "grows E X (hx_batch cx)" using assms(1) by (simp_all add: hflow_def)
  then have "store_ok E" by (simp add: batches_ok_def)
  then show "hflow E S X (cx\<lparr>hx_batch := persist_batch E h b (hx_batch cx)\<rparr>)"
    using ok bio.inv_persist [OF ok(1) assms(2)]
    by (intro hflow_batch [OF assms(1)]) (simp_all add: grows_persist)
  show "hx_cached (cx\<lparr>hx_batch := persist_batch E h b (hx_batch cx)\<rparr>) h"
    using bio.stored_persist [of E h b "hx_batch cx"] by auto
qed

lemma hflow_multicast: "hflow E S X cx \<Longrightarrow> proposal_ok S m \<Longrightarrow> hflow E S X (synchs_multicast E' m cx)"
  by (auto simp: hflow_def synchs_multicast_def)

lemma hflow_deliver: "hflow E S X cx \<Longrightarrow> hx_cached cx (blk_batch_hash b) \<Longrightarrow> hflow E S X (synchs_deliver b cx)"
proof -
  assume h: "hflow E S X cx" and c: "hx_cached cx (blk_batch_hash b)"
  have "told_ok E (add_delivered_block block_get_hash block_get_height b (hx_storage cx)) m" if "told_ok E (hx_storage cx) m" for m
    using that by (cases m) auto
  with h c show "hflow E S X (synchs_deliver b cx)" by (auto simp: hflow_def synchs_deliver_def)
qed

section \<open>Commit\<close>

text \<open>The hashes of a cached batch: the cell is filled, the batch stays the same.\<close>

lemma tx_hashes_cached:
  assumes "batches_ok E x" and "cache_get (bx_cache x) h = Some c"
  shows "\<exists>y. batch_tx_hashes E h x = (map (hash_tx E) (cb_payload c), y) \<and> batches_ok E y \<and> grows E x y \<and> bx_pending y = bx_pending x"
    and "good_batch E h c"
proof -
  have rd: "read_batch E h x = (Some c, x)" using assms(2) by (simp add: read_batch_def)
  show good: "good_batch E h c" using bio.good_rd [OF assms(1), of h c] rd by simp
  note hs = CachedBatch_tx_hashes_ok [of E c]
  let ?y = "x\<lparr>bx_cache := fmupd h (snd (CachedBatch_tx_hashes E c)) (bx_cache x)\<rparr>"
  have "batch_tx_hashes E h x = (map (hash_tx E) (cb_payload c), ?y)"
    using rd good hs(1) by (simp add: batch_tx_hashes_def good_batch_def case_prod_beta)
  moreover have "batches_ok E ?y"
    using assms(1) good hs(2,3) by (auto simp: batches_ok_def cache_ok_def cache_get_def good_batch_def)
  moreover have "grows E x ?y" by (auto simp: grows_def cache_get_def)
  ultimately show "\<exists>y. batch_tx_hashes E h x = (map (hash_tx E) (cb_payload c), y) \<and> batches_ok E y \<and> grows E x y \<and> bx_pending y = bx_pending x"
    by (intro exI [of _ ?y]) simp
qed

lemma grows_trans: "grows E x y \<Longrightarrow> grows E y z \<Longrightarrow> grows E x z"
  by (auto simp: grows_def)

lemma hflow_commit:
  assumes "hflow E S X cx"
  shows "hflow E S X (synchs_on_commit E p cx)"
proof (cases rule: synchs_on_commit_cases [of E p cx])
  case 1
  with assms show ?thesis by simp
next
  case (2 b hs x)
  have "blk_hash b \<noteq> EMPTY_HASH E" using 2(2) assms by (auto simp: hflow_def)
  then obtain c where c: "cache_get (bx_cache (hx_batch cx)) (blk_batch_hash b) = Some c"
    using hflow_delivered [OF assms 2(1)] by blast
  have ok: "batches_ok E (hx_batch cx)" "grows E X (hx_batch cx)" using assms by (simp_all add: hflow_def)
  note hashes = tx_hashes_cached [OF ok(1) c]
  have x: "hs = map (hash_tx E) (cb_payload c)" "batches_ok E x" "grows E (hx_batch cx) x" "bx_pending x = bx_pending (hx_batch cx)"
    using hashes(1) 2(3) by auto
  let ?st = "add_committed_block block_get_hash block_get_height b (hx_storage cx)"
  have keep: "told_ok E ?st m" if "told_ok E (hx_storage cx) m" for m using that by (cases m) auto
  have new: "told_ok E ?st (SyNewBlock b hs pl)" for pl using hashes(2) x(1) by (auto simp: block_get_hash_def)
  have "hflow E S X (cx\<lparr>hx_batch := x\<rparr>)" using ok x by (intro hflow_batch [OF assms]) (auto intro: grows_trans)
  with keep new show ?thesis unfolding 2(4) by (auto simp: hflow_def)
qed

lemma hflow_timer: "hflow E S X cx \<Longrightarrow> hflow E S X (synchs_timer E i cx)"
  by (simp add: synchs_timer_def hflow_commit)

section \<open>Messages\<close>

fun sync_msg_decoded :: "ext \<Rightarrow> sync_msg \<Rightarrow> bool" where
  "sync_msg_decoded E (SyNewProposal p b batch) = (block_sealed E b \<and> batch_ok E batch)"
| "sync_msg_decoded E _ = True"

lemma hflow_checked:
  assumes "hflow E S X cx" and "batch_ok E batch" and "synchs_check_batch_hash E b batch"
  shows "hflow E S X (cx\<lparr>hx_batch := persist_batch E (blk_batch_hash b) (snd (CachedBatch_hash E batch)) (hx_batch cx)\<rparr>)"
    and "hx_cached (cx\<lparr>hx_batch := persist_batch E (blk_batch_hash b) (snd (CachedBatch_hash E batch)) (hx_batch cx)\<rparr>) (blk_batch_hash b)"
  using assms(3) CachedBatch_hash_ok [OF assms(2)]
  by (intro hflow_persist [OF assms(1)]; simp add: synchs_check_batch_hash_def good_batch_def)+

lemma hflows_new_valid:
  assumes "hflow E S X cx" and "hx_cached cx (blk_batch_hash b)"
  shows "hflows2 E S X (synchs_on_new_valid_proposal E p b cx)"
proof -
  have "hflow E S X (synchs_multicast E (SyVoteMsg v p) ((synchs_deliver b cx)\<lparr>hx_height := ht, hx_last_seen_block := b, last_seen_cert := c\<rparr>))" for v ht c
    using hflow_deliver [OF assms] by (intro hflow_multicast) simp_all
  with assms(1) show ?thesis
    by (auto simp: synchs_on_new_valid_proposal_def Let_def intro!: rkeeps_bind [where P = "\<lambda>_. True"])
qed

lemma hflows_opt_new_valid:
  assumes "hflow E S X cx" and "hx_cached cx (blk_batch_hash b)"
  shows "hflows2 E S X (optsync_on_new_valid_proposal E p b cx)"
proof -
  have "hflow E S X (synchs_multicast E (SyVoteMsg v p) ((synchs_deliver b (cx\<lparr>vote_map := w\<rparr>))\<lparr>hx_height := ht, hx_last_seen_block := b, last_seen_cert := c\<rparr>))"
    for v ht c w using assms by (intro hflow_multicast) (simp_all add: hflow_deliver)
  with assms(1) show ?thesis
    by (auto simp: optsync_on_new_valid_proposal_def optsync_shared Let_def intro!: rkeeps_bind [where P = "\<lambda>_. True"])
qed

lemma hflows_receive:
  assumes "hflow E S X cx" and "batch_ok E batch"
  shows "hflows2 E S X (synchs_on_receive_proposal E p b batch cx)"
  using assms hflow_checked [OF assms]
  by (auto simp: synchs_on_receive_proposal_def Let_def intro!: rkeeps_bind [where P = "\<lambda>_. True"] hflows_new_valid)

lemma hflows_opt_receive:
  assumes "hflow E S X cx" and "batch_ok E batch"
  shows "hflows2 E S X (optsync_on_receive_proposal E p b batch cx)"
  using assms hflow_checked [OF assms]
  by (auto simp: optsync_on_receive_proposal_def optsync_shared Let_def intro!: rkeeps_bind [where P = "\<lambda>_. True"] hflows_opt_new_valid)

lemma hflows_vote: "hflow E S X cx \<Longrightarrow> hflows2 E S X (synchs_on_vote E c p cx)"
  by (auto simp: synchs_on_vote_def synchs_add_vote_def Let_def intro!: rkeeps_bind [where P = "\<lambda>_. True"]
      rkeeps_bind [where P = "hflow E S X"] split: option.splits)

lemma hflows_opt_vote: "hflow E S X cx \<Longrightarrow> hflows2 E S X (optsync_on_vote E c p cx)"
  by (auto simp: optsync_on_vote_def optsync_add_vote_def Let_def intro!: rkeeps_bind [where P = "\<lambda>_. True"] split: option.splits)

lemma hflows_process:
  assumes "hflow E S X cx" and "sync_msg_decoded E m"
  shows "hflows E S X (synchs_process E m cx)"
  using assms
  by (cases m) (auto simp: synchs_process_def intro!: rkeeps_bind [OF hflows_receive] rkeeps_bind [OF hflows_vote])

lemma hflows_opt_process:
  assumes "hflow E S X cx" and "sync_msg_decoded E m"
  shows "hflows E S X (optsync_process_msg E m cx)"
  using assms
  by (cases m) (auto simp: optsync_process_msg_def optsync_shared hflow_commit intro!: rkeeps_bind [OF hflows_opt_receive] rkeeps_bind [OF hflows_opt_vote])

section \<open>Proposals\<close>

lemma hflow_pending:
  assumes "hflow E S X cx" and "\<forall>(h, b)\<in>set q. set (cb_payload b) \<subseteq> S \<and> hx_cached cx h"
  shows "hflow E S X (cx\<lparr>hx_batch := (hx_batch cx)\<lparr>bx_pending := q\<rparr>\<rparr>)"
  using assms by (simp add: hflow_def)

lemma hflow_pendingD: "hflow E S X cx \<Longrightarrow> (h, b) \<in> set (bx_pending (hx_batch cx)) \<Longrightarrow> set (cb_payload b) \<subseteq> S \<and> hx_cached cx h"
  unfolding hflow_def by blast

lemma hflows_propose:
  assumes "hflow E S X cx" and "set (cb_payload batch) \<subseteq> S" and "hx_cached cx bh"
  shows "hflows2 E S X (synchs_do_propose E bh batch cx)"
proof (cases "synchs_do_propose E bh batch cx")
  case (Inr r)
  obtain p c where r: "r = (p, c)" by (cases r)
  from Inr r have "c = synchs_multicast E (SyNewProposal p (child_block E bh cx) batch) (synchs_deliver (child_block E bh cx) cx)"
    by (auto elim!: synchs_do_propose_result simp: child_block_def)
  then show ?thesis using assms Inr r by (simp add: hflow_multicast hflow_deliver)
qed simp

lemma hflows_opt_propose:
  assumes "hflow E S X cx" and "set (cb_payload batch) \<subseteq> S" and "hx_cached cx bh"
  shows "hflows2 E S X (optsync_do_propose E bh batch cx)"
proof (cases "optsync_do_propose E bh batch cx")
  case (Inr r)
  obtain p c where r: "r = (p, c)" by (cases r)
  let ?b = "child_block E bh cx"
  from Inr r obtain vt where "c = start_timer p (optsync_multicast E (SyNewProposal p ?b batch)
       ((synchs_deliver ?b cx)\<lparr>vote_map := fmupd (blk_hash ?b) vt (vote_map cx), hx_height := blk_height ?b,
         hx_last_seen_block := ?b, last_committed_block_ht := blk_height ?b\<rparr>))"
    by (auto elim!: optsync_do_propose_result simp: child_block_def)
  moreover have "hflow E S X ((synchs_deliver ?b cx)\<lparr>vote_map := v, hx_height := ht, hx_last_seen_block := ?b, last_committed_block_ht := ht\<rparr>)" for v ht
    using assms hflow_deliver [of E S X cx ?b] by simp
  ultimately show ?thesis using assms(2) Inr r by (simp add: optsync_shared hflow_multicast)
qed simp

lemma hflows_drain: "hflow E S X cx \<Longrightarrow> hflows E S X (synchs_drain E cx)"
proof (induction E cx rule: synchs_drain.induct)
  case (1 E cx)
  show ?case
  proof (cases "synchs_next_leader cx = hx_myid cx \<and> fmmem (blk_hash (hx_last_seen_block cx)) (cert_map cx) \<and> bx_pending (hx_batch cx) \<noteq> []")
    case False
    with 1(2) show ?thesis by (auto simp: synchs_drain.simps [of E cx] split: list.splits)
  next
    case True
    then obtain bh ba rest where pend: "bx_pending (hx_batch cx) = (bh, ba) # rest" by (cases "bx_pending (hx_batch cx)") auto
    let ?cx = "cx\<lparr>hx_batch := (hx_batch cx)\<lparr>bx_pending := rest\<rparr>\<rparr>"
    have "hflows2 E S X (synchs_do_propose E bh ba ?cx)"
      using hflow_pendingD [OF 1(2)] pend by (intro hflows_propose hflow_pending [OF 1(2)]) auto
    then have "hflows E S X (rbind (synchs_do_propose E bh ba ?cx) (\<lambda>(p, cx). synchs_drain E (start_timer p cx)))"
    proof (rule rkeeps_bind, clarify)
      fix p c assume "synchs_do_propose E bh ba ?cx = Inr (p, c)" "hflow E S X c"
      with 1(1) [OF _ pend refl, of "(p, c)" p c] True show "hflows E S X (synchs_drain E (start_timer p c))" by auto
    qed
    with True pend show ?thesis by (simp add: synchs_drain.simps [of E cx])
  qed
qed

lemma hflows_opt_drain: "hflow E S X cx \<Longrightarrow> hflows E S X (optsync_drain E cx)"
proof (induction E cx rule: optsync_drain.induct)
  case (1 E cx)
  show ?case
  proof (cases "optsync_next_leader cx = hx_myid cx \<and> fmmem (blk_hash (hx_last_seen_block cx)) (cert_map cx) \<and> bx_pending (hx_batch cx) \<noteq> []")
    case False
    with 1(2) show ?thesis by (auto simp: optsync_drain.simps [of E cx] split: list.splits)
  next
    case True
    then obtain bh ba rest where pend: "bx_pending (hx_batch cx) = (bh, ba) # rest" by (cases "bx_pending (hx_batch cx)") auto
    let ?cx = "cx\<lparr>hx_batch := (hx_batch cx)\<lparr>bx_pending := rest\<rparr>\<rparr>"
    have "hflows2 E S X (optsync_do_propose E bh ba ?cx)"
      using hflow_pendingD [OF 1(2)] pend by (intro hflows_opt_propose hflow_pending [OF 1(2)]) auto
    then have "hflows E S X (rbind (optsync_do_propose E bh ba ?cx) (\<lambda>(p, cx). optsync_drain E cx))"
    proof (rule rkeeps_bind, clarify)
      fix p c assume "optsync_do_propose E bh ba ?cx = Inr (p, c)" "hflow E S X c"
      with 1(1) [OF _ pend refl, of "(p, c)" p c] True show "hflows E S X (optsync_drain E c)" by auto
    qed
    with True pend show ?thesis by (simp add: optsync_drain.simps [of E cx])
  qed
qed

section \<open>The reactor\<close>

fun sync_event_decoded :: "ext \<Rightarrow> transaction set \<Rightarrow> 'z synchs_cx_scheme \<Rightarrow> sync_event \<Rightarrow> bool" where
  "sync_event_decoded E S cx (SyNet m) = sync_msg_decoded E m"
| "sync_event_decoded E S cx (SyBatchReady h b) = (set (cb_payload b) \<subseteq> S \<and> hx_cached cx h)"
| "sync_event_decoded E S cx _ = True"

lemma hflow_loop:
  assumes process: "\<And>m cx. hflow E S X cx \<Longrightarrow> sync_msg_decoded E m \<Longrightarrow> hflows E S X (process m cx)"
    and drain: "\<And>cx. hflow E S X cx \<Longrightarrow> hflows E S X (drain cx)" and fire: "\<And>i cx. hflow E S X cx \<Longrightarrow> hflow E S X (fire i cx)"
    and cx: "hflow E S X cx" and ev: "sync_event_decoded E S cx ev"
    and step: "sync_loop process drain fire enqueue_batch ev cx = Inr (Continue cx')"
  shows "hflow E S X cx'"
proof -
  have go: "hflow E S X c'" if "drain c = Inr c'" "hflow E S X c" for c c' using drain [OF that(2)] that(1) by simp
  show ?thesis
  proof (cases ev)
    case (SyNet m)
    with step obtain c where "process m cx = Inr c" "drain c = Inr cx'" by (auto simp: sync_loop_def)
    with process [OF cx, of m] SyNet ev go show ?thesis by simp
  next
    case (SyBatchReady h b)
    have "hflow E S X (enqueue_batch h b cx)"
      unfolding enqueue_batch_def using hflow_pendingD [OF cx] ev SyBatchReady by (intro hflow_pending [OF cx]) auto
    with step SyBatchReady go show ?thesis by (auto simp: sync_loop_def)
  next
    case (SyTimer i)
    with step go fire [OF cx] show ?thesis by (auto simp: sync_loop_def)
  qed (use cx step in \<open>auto simp: sync_loop_def\<close>)
qed

lemma hflow_synchs_step:
  "hflow E S X cx \<Longrightarrow> sync_event_decoded E S cx ev \<Longrightarrow> synchs_reactor_step E ev cx = Inr (Continue cx') \<Longrightarrow> hflow E S X cx'"
  using hflow_loop [of E S X "synchs_process E" "synchs_drain E" "synchs_timer E" cx ev cx']
    hflows_process hflows_drain hflow_timer by (fastforce simp: synchs_loop)

lemma hflow_optsync_step:
  "hflow E S X cx \<Longrightarrow> sync_event_decoded E S cx ev \<Longrightarrow> optsync_reactor_step E ev cx = Inr (Continue cx') \<Longrightarrow> hflow E S X cx'"
  using hflow_loop [of E S X "optsync_process_msg E" "optsync_drain E" "optsync_timer E" cx ev cx']
    hflows_opt_process hflows_opt_drain hflow_timer by (fastforce simp: optsync_loop optsync_shared)

section \<open>The replicas\<close>

definition synchs_ops :: "ext \<Rightarrow> (synchs_cx, sync_event) node_ops" where
  "synchs_ops E =
     \<lparr>no_batches = hx_batch, no_set_batches = (\<lambda>x cx. cx\<lparr>hx_batch := x\<rparr>),
      no_react = synchs_reactor_step E, no_ready = SyBatchReady\<rparr>"

definition optsync_ops :: "ext \<Rightarrow> (optsync_cx, sync_event) node_ops" where
  "optsync_ops E =
     \<lparr>no_batches = hx_batch, no_set_batches = (\<lambda>x cx. cx\<lparr>hx_batch := x\<rparr>),
      no_react = optsync_reactor_step E, no_ready = SyBatchReady\<rparr>"

lemma sync_ops_simps [simp]:
  "no_batches (synchs_ops E) = hx_batch" "no_set_batches (synchs_ops E) = (\<lambda>x cx. cx\<lparr>hx_batch := x\<rparr>)"
  "no_react (synchs_ops E) = synchs_reactor_step E" "no_ready (synchs_ops E) = SyBatchReady"
  "no_batches (optsync_ops E) = hx_batch" "no_set_batches (optsync_ops E) = (\<lambda>x cx. cx\<lparr>hx_batch := x\<rparr>)"
  "no_react (optsync_ops E) = optsync_reactor_step E" "no_ready (optsync_ops E) = SyBatchReady"
  by (simp_all add: synchs_ops_def optsync_ops_def)

text \<open>What reaches a reactor from outside the process, or from its timers.\<close>

fun sync_input :: "ext \<Rightarrow> sync_event \<Rightarrow> bool" where
  "sync_input E (SyNet m) = sync_msg_decoded E m"
| "sync_input E (SyBatchReady h b) = False"
| "sync_input E _ = True"

lemma sync_input_decoded: "sync_input E ev \<Longrightarrow> sync_event_decoded E S cx ev"
  by (cases ev) simp_all

text \<open>With the threshold that the sealer gets.\<close>

definition synchs_replica_start ::
  "ext \<Rightarrow> node_config \<Rightarrow> (replica \<times> bytes) list \<Rightarrow> client_id list \<Rightarrow> (bytes, bytes) fmap \<Rightarrow> (nat \<times> synchs_cx count_system) res" where
  "synchs_replica_start E config pks cids batch_store =
     rbind (CountSealer_new (nc_block_size config)) (\<lambda>threshold.
     let mempool = Mempool_spawn batch_store
     in rbind (synchs_reactor_start E config pks cids (bs_cache (lm_sink mempool)) batch_store) (\<lambda>cx.
        Inr (threshold, ct_start mempool cx)))"

definition optsync_replica_start ::
  "ext \<Rightarrow> node_config \<Rightarrow> (replica \<times> bytes) list \<Rightarrow> client_id list \<Rightarrow> (bytes, bytes) fmap \<Rightarrow> (nat \<times> optsync_cx count_system) res" where
  "optsync_replica_start E config pks cids batch_store =
     rbind (CountSealer_new (nc_block_size config)) (\<lambda>threshold.
     let mempool = Mempool_spawn batch_store
     in rbind (optsync_Context_new E config pks cids (bs_cache (lm_sink mempool)) batch_store) (\<lambda>cx.
        Inr (threshold, ct_start mempool cx)))"

abbreviation synchs_run :: "ext \<Rightarrow> nat \<Rightarrow> synchs_cx count_system \<Rightarrow> transaction list \<Rightarrow> synchs_cx count_system \<Rightarrow> bool" where
  "synchs_run E \<equiv> ct_run E (synchs_ops E) (sync_input E)"

abbreviation optsync_run :: "ext \<Rightarrow> nat \<Rightarrow> optsync_cx count_system \<Rightarrow> transaction list \<Rightarrow> optsync_cx count_system \<Rightarrow> bool" where
  "optsync_run E \<equiv> ct_run E (optsync_ops E) (sync_input E)"

lemma hflow_here: "hflow E S X cx \<Longrightarrow> S \<subseteq> S' \<Longrightarrow> hflow E S' (hx_batch cx) cx"
proof -
  have "proposal_ok S' m" if "proposal_ok S m" "S \<subseteq> S'" for m using that by (cases m) auto
  then show "hflow E S X cx \<Longrightarrow> S \<subseteq> S' \<Longrightarrow> hflow E S' (hx_batch cx) cx" unfolding hflow_def by (simp add: case_prod_beta) blast
qed

lemma hflow_share:
  "hflow E S X cx \<Longrightarrow> batches_ok E y \<Longrightarrow> grows E (hx_batch cx) y \<Longrightarrow> bx_pending y = bx_pending (hx_batch cx) \<Longrightarrow>
   hflow E S y (cx\<lparr>hx_batch := y\<rparr>)"
  using hflow_here [of E S X "cx\<lparr>hx_batch := y\<rparr>" S] hflow_batch [of E S X cx y] grows_trans [of E X "hx_batch cx" y]
  by (simp add: hflow_def [of E S X cx])

interpretation synchs_count: count_node E "synchs_ops E" "sync_input E" "hflow E" for E
proof (unfold_locales, goal_cases)
  case (1 S X c ev c')
  then show ?case using hflow_synchs_step [OF _ sync_input_decoded, of E S X c ev c'] by simp
next
  case (2 S X c b h c')
  then show ?case using hflow_synchs_step [of E S X c "SyBatchReady h b" c'] by simp
qed (simp_all add: hflow_here hflow_share, simp add: hflow_def)

interpretation optsync_count: count_node E "optsync_ops E" "sync_input E" "hflow E" for E
proof (unfold_locales, goal_cases)
  case (1 S X c ev c')
  then show ?case using hflow_optsync_step [OF _ sync_input_decoded, of E S X c ev c'] by simp
next
  case (2 S X c b h c')
  then show ?case using hflow_optsync_step [of E S X c "SyBatchReady h b" c'] by simp
qed (simp_all add: hflow_here hflow_share, simp add: hflow_def)

text \<open>Both start with an empty flow.\<close>

lemma sync_start_flow:
  assumes "ext_ok E st"
  shows "synchs_reactor_start E config pks cids (BatchCache_new 1024) st = Inr cx \<Longrightarrow> hflow E {} (hx_batch cx) cx"
    and "optsync_Context_new E config pks cids (BatchCache_new 1024) st = Inr ox \<Longrightarrow> hflow E {} (hx_batch ox) ox"
  using assms
  by (auto simp: synchs_reactor_start_def synchs_Context_new_def optsync_Context_new_def hflow_def batches_ok_def ext_ok_def
      store_clean_def synchs_deliver_def synchs_commit_block_def batch_ctx_new_def GENESIS_BLOCK_def block_get_hash_def Let_def
      split: if_splits)

lemma sync_start_batches:
  "synchs_reactor_start E config pks cids cache st = Inr cx \<Longrightarrow> hx_batch cx = batch_ctx_new cache st"
  "optsync_Context_new E config pks cids cache st = Inr ox \<Longrightarrow> hx_batch ox = batch_ctx_new cache st"
  by (auto simp: synchs_reactor_start_def synchs_Context_new_def optsync_Context_new_def
      synchs_deliver_def synchs_commit_block_def Let_def)

lemma CountSealer_Inr: "CountSealer_new n = Inr k \<longleftrightarrow> k = n \<and> 0 < n"
  by (auto simp: CountSealer_new_def)

lemma synchs_replica_inv:
  assumes "ext_ok E st" and "synchs_replica_start E config pks cids st = Inr (k, s)" and "synchs_run E k s txs t"
  shows "synchs_count.ct_inv E k txs t"
proof -
  from assms(2) obtain cx where cx: "synchs_reactor_start E config pks cids (BatchCache_new 1024) st = Inr cx" "0 < k"
    and s: "s = ct_start (Mempool_spawn st) cx"
    by (auto simp: synchs_replica_start_def CountSealer_Inr Mempool_spawn_def batch_sink_new_def Let_def)
  have "synchs_count.ct_inv E k [] s"
    unfolding s using sync_start_flow(1) [OF assms(1) cx(1)] sync_start_batches(1) [OF cx(1)] cx(2)
    by (intro synchs_count.ct_inv_start) (simp_all add: batch_ctx_new_def)
  with assms(3) show ?thesis by (rule synchs_count.ct_inv_run)
qed

lemma optsync_replica_inv:
  assumes "ext_ok E st" and "optsync_replica_start E config pks cids st = Inr (k, s)" and "optsync_run E k s txs t"
  shows "optsync_count.ct_inv E k txs t"
proof -
  from assms(2) obtain cx where cx: "optsync_Context_new E config pks cids (BatchCache_new 1024) st = Inr cx" "0 < k"
    and s: "s = ct_start (Mempool_spawn st) cx"
    by (auto simp: optsync_replica_start_def CountSealer_Inr Mempool_spawn_def batch_sink_new_def Let_def)
  have "optsync_count.ct_inv E k [] s"
    unfolding s using sync_start_flow(2) [OF assms(1) cx(1)] sync_start_batches(2) [OF cx(1)] cx(2)
    by (intro optsync_count.ct_inv_start) (simp_all add: batch_ctx_new_def)
  with assms(3) show ?thesis by (rule optsync_count.ct_inv_run)
qed

text \<open>What both replicas' invariants say of the outputs.\<close>

lemma hflow_outputs:
  assumes "hflow E S X cx"
  shows "(c, SyNewBlock b hs pl) \<in> set (client_sent (hx_client_net cx)) \<Longrightarrow> is_committed_by_hash (hx_storage cx) (blk_hash b) \<and>
      (\<exists>batch :: cached_batch. batch_digest E (cb_payload batch) = blk_batch_hash b \<and> hs = map (hash_tx E) (cb_payload batch))"
    and "(d, SyNewProposal p nb batch) \<in> set (nx_sent (hx_net cx)) \<Longrightarrow> set (cb_payload batch) \<subseteq> S"
proof -
  have told: "\<forall>dm\<in>set (client_sent (hx_client_net cx)). told_ok E (hx_storage cx) (snd dm)"
    and sent: "\<forall>dm\<in>set (nx_sent (hx_net cx)). proposal_ok S (snd dm)" using assms by (simp_all add: hflow_def)
  show "is_committed_by_hash (hx_storage cx) (blk_hash b) \<and>
      (\<exists>batch :: cached_batch. batch_digest E (cb_payload batch) = blk_batch_hash b \<and> hs = map (hash_tx E) (cb_payload batch))"
    if "(c, SyNewBlock b hs pl) \<in> set (client_sent (hx_client_net cx))"
    using bspec [OF told that] by (auto simp: good_batch_def)
  show "set (cb_payload batch) \<subseteq> S" if "(d, SyNewProposal p nb batch) \<in> set (nx_sent (hx_net cx))"
    using bspec [OF sent that] by simp
qed

section \<open>Runs to an announcement\<close>

lemma first_announcement:
  obtains b where "bs_to_consensus (lm_sink (legacy_receive E 1 (Decoded tx) (Mempool_spawn st))) = [(batch_digest E [tx], b)]"
    "cb_payload b = [tx]" "bs_cache (lm_sink (legacy_receive E 1 (Decoded tx) (Mempool_spawn st))) = cache_insert (batch_digest E [tx]) b (BatchCache_new 1024)"
  by (simp add: legacy_receive_def batcher_recv_def should_seal_def process_batch_def Mempool_spawn_def Batcher_spawn_def batch_sink_new_def
      CachedBatch_hash_def CachedBatch_new_def batch_digest_def CachedBatch_serialize_def Let_def)

text \<open>A commit of a new block whose batch is cached reaches every client.\<close>

lemma commit_tells:
  assumes "delivered_block_from_hash (hx_storage cx) (sp_block_hash p) = Some blk" and "\<not> is_committed_by_hash (hx_storage cx) (blk_hash blk)"
    and "batches_ok E (hx_batch cx)" and "cache_get (bx_cache (hx_batch cx)) (blk_batch_hash blk) = Some b" and "c \<in> set (all_clients (hx_client_net cx))"
  shows "\<exists>pl. (c, SyNewBlock blk (map (hash_tx E) (cb_payload b)) pl) \<in> set (client_sent (hx_client_net (synchs_on_commit E p cx)))"
    and "bx_pending (hx_batch (synchs_on_commit E p cx)) = bx_pending (hx_batch cx)"
proof -
  obtain y where y: "batch_tx_hashes E (blk_batch_hash blk) (hx_batch cx) = (map (hash_tx E) (cb_payload b), y)" "bx_pending y = bx_pending (hx_batch cx)"
    using tx_hashes_cached(1) [OF assms(3,4)] by blast
  have eq: "synchs_on_commit E p cx = cx\<lparr>last_committed_block_ht := blk_height blk,
         hx_storage := add_committed_block block_get_hash block_get_height blk (hx_storage cx), hx_batch := y,
         hx_net := gc_handlers E (hx_net cx),
         hx_client_net := client_gc E (client_multicast E (hx_height cx) (SyNewBlock blk (map (hash_tx E) (cb_payload b)) (with_payload (hx_payload cx))) (hx_client_net cx))\<rparr>"
    using assms(1,2) y(1)
    by (simp add: synchs_on_commit_def synchs_commit_block_def multicast_client_def synchs_gc_handlers_def Let_def)
  show "\<exists>pl. (c, SyNewBlock blk (map (hash_tx E) (cb_payload b)) pl) \<in> set (client_sent (hx_client_net (synchs_on_commit E p cx)))"
    using assms(5) by (auto simp: eq)
  show "bx_pending (hx_batch (synchs_on_commit E p cx)) = bx_pending (hx_batch cx)" using y(2) by (simp add: eq)
qed

lemma synchs_start_facts:
  assumes "synchs_reactor_start E config pks cids cache st = Inr cx"
  shows "hx_storage cx = genesis_storage E" "all_clients (hx_client_net cx) = cids" "commit_queue cx = []" "hx_myid cx = nc_id config"
    "last_leader cx = 0" "hx_last_seen_block cx = GENESIS_BLOCK E" "fmlookup (cert_map cx) (EMPTY_HASH E) = Some empty_cert"
  using assms
  by (auto simp: synchs_reactor_start_def synchs_Context_new_def synchs_deliver_def synchs_commit_block_def genesis_storage_def GENESIS_BLOCK_def Let_def)

text \<open>An idle leader whose last block is certified proposes the batch it is handed and waits for the timer.\<close>

lemma synchs_leader_proposes:
  assumes inv: "sync_inv E cx" and leads: "last_leader cx = hx_myid cx" and idle: "bx_pending (hx_batch cx) = []"
    and cert: "fmlookup (cert_map cx) (blk_hash (hx_last_seen_block cx)) = Some cert" and small: "blk_height (hx_last_seen_block cx) + 1 < 2 ^ 64"
  obtains p where "sp_block_hash p = blk_hash (child_block E h cx)"
    "synchs_reactor_step E (SyBatchReady h b) cx =
       Inr (Continue (start_timer p (synchs_multicast E (SyNewProposal p (child_block E h cx) b) (synchs_deliver (child_block E h cx) cx))))"
proof -
  from synchs_do_propose_total [OF inv cert, of h b] small obtain p c where made: "synchs_do_propose E h b cx = Inr (p, c)" by auto
  then have c: "c = synchs_multicast E (SyNewProposal p (child_block E h cx) b) (synchs_deliver (child_block E h cx) cx)"
      "sp_block_hash p = blk_hash (child_block E h cx)"
    by (auto elim!: synchs_do_propose_result simp: child_block_def)
  let ?q = "enqueue_batch h b cx"
  have same: "?q\<lparr>hx_batch := (hx_batch ?q)\<lparr>bx_pending := []\<rparr>\<rparr> = cx" using idle by (simp add: enqueue_batch_def)
  have "bx_pending (hx_batch (start_timer p c)) = []" using idle by (simp add: c(1) start_timer_def synchs_deliver_def synchs_multicast_def)
  then have stop: "synchs_drain E (start_timer p c) = Inr (start_timer p c)" by (simp add: synchs_drain.simps [of E "start_timer p c"])
  have "bx_pending (hx_batch ?q) = [(h, b)]" "synchs_next_leader ?q = hx_myid ?q" "fmmem (blk_hash (hx_last_seen_block ?q)) (cert_map ?q)"
    using idle leads cert by (simp_all add: enqueue_batch_def synchs_next_leader_def fmmem_iff)
  then have "synchs_drain E ?q = Inr (start_timer p c)"
    using made same stop by (simp add: synchs_drain.simps [of E ?q])
  then have "synchs_reactor_step E (SyBatchReady h b) cx = Inr (Continue (start_timer p c))" by (simp add: synchs_loop sync_loop_def)
  with c that show thesis by blast
qed

text \<open>
  The leader of Sync HotStuff, with batches of one transaction, takes a transaction from its mempool's
  port to the announcement of the block with it.
\<close>

lemma synchs_leader_run:
  assumes ext: "collision_free E" "ext_ok E st" and ok: "sync_config_ok E config pks cids"
    and start: "synchs_replica_start E config pks cids st = Inr (k, s)"
    and conf: "nc_id config = 0" "nc_block_size config = 1" and cl: "c \<in> set cids"
  obtains t blk pl where "synchs_run E k s [tx] t" "(c, SyNewBlock blk [hash_tx E tx] pl) \<in> set (client_sent (hx_client_net (ct_node t)))"
proof -
  let ?N = "synchs_ops E" and ?h = "batch_digest E [tx]"
  from start obtain cx where cx: "synchs_reactor_start E config pks cids (BatchCache_new 1024) st = Inr cx"
    and k: "k = 1" and s: "s = ct_start (Mempool_spawn st) cx"
    using conf(2) by (auto simp: synchs_replica_start_def CountSealer_Inr Mempool_spawn_def batch_sink_new_def Let_def)
  note facts = synchs_start_facts [OF cx]
  define m where "m = legacy_receive E k (Decoded tx) (Mempool_spawn st)"
  obtain b where b: "bs_to_consensus (lm_sink m) = [(?h, b)]" "cb_payload b = [tx]" "bs_cache (lm_sink m) = cache_insert ?h b (BatchCache_new 1024)"
    unfolding m_def k by (rule first_announcement)
  define c1 where "c1 = cx\<lparr>hx_batch := (hx_batch cx)\<lparr>bx_cache := bs_cache (lm_sink m), bx_store := bs_store (lm_sink m)\<rparr>\<rparr>"
  let ?s1 = "ct_share_mempool ?N m s"
  have s1: "ct_mempool ?s1 = m" "ct_batches_taken ?s1 = 0" "ct_node ?s1 = c1" by (simp_all add: s ct_share_mempool_def ct_start_def c1_def)
  have run1: "synchs_run E k s [tx] ?s1"
    using ct_snoc [OF ct_nil ct_receive [of E ?N "sync_input E" k "Decoded tx" s]] by (simp add: s ct_start_def m_def)
  have flow1: "batches_ok E (hx_batch c1)"
    using synchs_replica_inv [OF ext(2) start run1] by (auto simp: synchs_count.ct_inv_def hflow_def s1)
  have "synchs_init E cx" using ok cx unfolding synchs_init_def by blast
  from synchs_sys.inv_reachable [OF this rtranclp.rtrancl_refl] have inv1: "sync_inv E c1" by (simp add: c1_def)
  let ?blk = "child_block E ?h c1"
  have pend: "bx_pending (hx_batch c1) = []" using sync_start_batches(1) [OF cx] by (simp add: batch_ctx_new_def c1_def)
  have gen: "blk_hash (GENESIS_BLOCK E) = EMPTY_HASH E" "blk_height (GENESIS_BLOCK E) = 0" by (simp_all add: GENESIS_BLOCK_def)
  obtain p where p: "sp_block_hash p = blk_hash ?blk" "synchs_reactor_step E (SyBatchReady ?h b) c1 =
      Inr (Continue (start_timer p (synchs_multicast E (SyNewProposal p ?blk b) (synchs_deliver ?blk c1))))"
    by (rule synchs_leader_proposes [OF inv1 _ pend, of empty_cert ?h b]) (use facts gen conf(1) in \<open>simp_all add: c1_def\<close>)
  define c2 where "c2 = start_timer p (synchs_multicast E (SyNewProposal p ?blk b) (synchs_deliver ?blk c1))"
  have c2: "hx_batch c2 = hx_batch c1" "commit_queue c2 = [p]" "all_clients (hx_client_net c2) = cids"
    "hx_storage c2 = add_delivered_block block_get_hash block_get_height ?blk (genesis_storage E)"
    using facts by (simp_all add: c2_def c1_def start_timer_def synchs_deliver_def synchs_multicast_def)
  let ?s2 = "(ct_share_node ?N c2 ?s1)\<lparr>ct_batches_taken := 1\<rparr>"
  have "ct_step E ?N (sync_input E) k None ?s1 ?s2"
    using ct_batch [of ?s1 ?h b ?N c2 E "sync_input E" k] b(1) p(2) by (simp add: s1 c2_def)
  from ct_snoc [OF run1 this] have run2: "synchs_run E k s [tx] ?s2" by simp
  let ?c3 = "synchs_on_commit E p (c2\<lparr>commit_queue := []\<rparr>)"
  have "blk_hash ?blk \<noteq> EMPTY_HASH E" using sealed_not_empty [OF ext(1) child_block_simps(1)] .
  then have tells: "\<exists>pl. (c, SyNewBlock ?blk (map (hash_tx E) (cb_payload b)) pl) \<in> set (client_sent (hx_client_net ?c3))"
    "bx_pending (hx_batch ?c3) = bx_pending (hx_batch (c2\<lparr>commit_queue := []\<rparr>))"
    using commit_tells [of "c2\<lparr>commit_queue := []\<rparr>" p ?blk E b c] c2 p(1) flow1 cl b(3)
    by (simp_all add: c1_def block_get_hash_def cache_insert_def cache_get_def BatchCache_new_def)
  then have "synchs_drain E ?c3 = Inr ?c3" using c2(1) pend by (simp add: synchs_drain.simps [of E ?c3])
  then have "synchs_reactor_step E (SyTimer 0) c2 = Inr (Continue ?c3)"
    using c2(2) by (simp add: synchs_loop sync_loop_def synchs_timer_def)
  then have "ct_step E ?N (sync_input E) k None ?s2 (ct_share_node ?N ?c3 ?s2)"
    by (intro ct_input [of "sync_input E" "SyTimer 0"]) (simp_all add: ct_share_node_def)
  from ct_snoc [OF run2 this] have "synchs_run E k s [tx] (ct_share_node ?N ?c3 ?s2)" by simp
  moreover obtain pl where "(c, SyNewBlock ?blk [hash_tx E tx] pl) \<in> set (client_sent (hx_client_net ?c3))" using tells(1) b(2) by auto
  ultimately show thesis by (intro that [of "ct_share_node ?N ?c3 ?s2" ?blk pl]) (simp_all add: ct_share_node_def)
qed

section \<open>Properties\<close>

text \<open>
  C15: What a Sync HotStuff replica tells and proposes. Whatever its mempool and its peers receive and
  however the tasks interleave: a block announced to a client is committed, and the announcement carries
  exactly the hashes of the transactions of its batch, in order; the batches the node proposes consist of
  transactions its mempool received; and the announced batches cut the intake into pieces of the
  configured size, with nothing lost, duplicated or reordered.
\<close>
theorem synchs_replica_tells_committed:
  assumes "ext_ok E st" and "synchs_replica_start E config pks cids st = Inr (k, s)" and "synchs_run E k s txs t"
  shows "(\<forall>c b hs pl. (c, SyNewBlock b hs pl) \<in> set (client_sent (hx_client_net (ct_node t))) \<longrightarrow>
      is_committed_by_hash (hx_storage (ct_node t)) (blk_hash b) \<and>
      (\<exists>batch :: cached_batch. batch_digest E (cb_payload batch) = blk_batch_hash b \<and> hs = map (hash_tx E) (cb_payload batch))) \<and>
    (\<forall>d p b batch. (d, SyNewProposal p b batch) \<in> set (nx_sent (hx_net (ct_node t))) \<longrightarrow> set (cb_payload batch) \<subseteq> set txs) \<and>
    concat (map (cb_payload \<circ> snd) (bs_to_consensus (lm_sink (ct_mempool t)))) @ queue_txs (lm_batcher (ct_mempool t)) = txs \<and>
    (\<forall>(h, b)\<in>set (bs_to_consensus (lm_sink (ct_mempool t))). length (cb_payload b) = nc_block_size config)"
proof -
  have inv: "synchs_count.ct_inv E k txs t" by (rule synchs_replica_inv [OF assms])
  then obtain X where node: "hflow E (set txs) X (ct_node t)" and flow: "lm_flow k txs (ct_mempool t)"
    by (auto simp: synchs_count.ct_inv_def)
  have "k = nc_block_size config" using assms(2) by (auto simp: synchs_replica_start_def CountSealer_Inr Let_def)
  with hflow_outputs [OF node] lm_flow_announced(1,2) [OF flow] show ?thesis by blast
qed

text \<open>
  C16: What an Opt Sync replica tells and proposes: the same, over its own node, which also commits
  when it collects enough votes.
\<close>
theorem optsync_replica_tells_committed:
  assumes "ext_ok E st" and "optsync_replica_start E config pks cids st = Inr (k, s)" and "optsync_run E k s txs t"
  shows "(\<forall>c b hs pl. (c, SyNewBlock b hs pl) \<in> set (client_sent (hx_client_net (ct_node t))) \<longrightarrow>
      is_committed_by_hash (hx_storage (ct_node t)) (blk_hash b) \<and>
      (\<exists>batch :: cached_batch. batch_digest E (cb_payload batch) = blk_batch_hash b \<and> hs = map (hash_tx E) (cb_payload batch))) \<and>
    (\<forall>d p b batch. (d, SyNewProposal p b batch) \<in> set (nx_sent (hx_net (ct_node t))) \<longrightarrow> set (cb_payload batch) \<subseteq> set txs) \<and>
    concat (map (cb_payload \<circ> snd) (bs_to_consensus (lm_sink (ct_mempool t)))) @ queue_txs (lm_batcher (ct_mempool t)) = txs \<and>
    (\<forall>(h, b)\<in>set (bs_to_consensus (lm_sink (ct_mempool t))). length (cb_payload b) = nc_block_size config)"
proof -
  have inv: "optsync_count.ct_inv E k txs t" by (rule optsync_replica_inv [OF assms])
  then obtain X where node: "hflow E (set txs) X (ct_node t)" and flow: "lm_flow k txs (ct_mempool t)"
    by (auto simp: optsync_count.ct_inv_def)
  have "k = nc_block_size config" using assms(2) by (auto simp: optsync_replica_start_def CountSealer_Inr Let_def)
  with hflow_outputs [OF node] lm_flow_announced(1,2) [OF flow] show ?thesis by blast
qed

section \<open>Witnesses\<close>

definition sample_sync_config :: node_config where
  "sample_sync_config = (sample_config 0)\<lparr>nc_block_size := 1\<rparr>"

definition sample_synchs_replica :: "synchs_cx count_system" where
  "sample_synchs_replica = snd (projr (synchs_replica_start sample_ext sample_sync_config sample_pks [7] fmempty))"

definition sample_optsync_replica :: "optsync_cx count_system" where
  "sample_optsync_replica = snd (projr (optsync_replica_start sample_ext sample_sync_config sample_pks [7] fmempty))"

lemma sample_sync_replica_start:
  "synchs_replica_start sample_ext sample_sync_config sample_pks [7] fmempty = Inr (1, sample_synchs_replica)"
  "optsync_replica_start sample_ext sample_sync_config sample_pks [7] fmempty = Inr (1, sample_optsync_replica)"
  by (simp_all add: sample_synchs_replica_def sample_optsync_replica_def sample_sync_config_def synchs_replica_start_def optsync_replica_start_def
      CountSealer_new_def synchs_reactor_start_def synchs_Context_new_def optsync_Context_new_def sample_sync_defs)

lemma sample_sync_config_ok: "sync_config_ok sample_ext sample_sync_config sample_pks [7]"
  using sample_sync_config [of 0] by (simp add: sync_config_ok_def config_ok_def sample_sync_config_def)

theorem synchs_replica_tells_committed_witness:
  "\<exists>t b pl. synchs_run sample_ext 1 sample_synchs_replica [sample_tx 1 1] t \<and>
     (7, SyNewBlock b [hash_tx sample_ext (sample_tx 1 1)] pl) \<in> set (client_sent (hx_client_net (ct_node t))) \<and>
     is_committed_by_hash (hx_storage (ct_node t)) (blk_hash b) \<and>
     (\<exists>batch :: cached_batch. batch_digest sample_ext (cb_payload batch) = blk_batch_hash b \<and>
        [hash_tx sample_ext (sample_tx 1 1)] = map (hash_tx sample_ext) (cb_payload batch))"
proof -
  have "nc_id sample_sync_config = 0" "nc_block_size sample_sync_config = 1" "(7 :: client_id) \<in> set [7]"
    by (simp_all add: sample_sync_config_def sample_config_def)
  from synchs_leader_run [OF sample_collision_free sample_ext_clean sample_sync_config_ok sample_sync_replica_start(1) this, of "sample_tx 1 1"]
  obtain t b pl where t: "synchs_run sample_ext 1 sample_synchs_replica [sample_tx 1 1] t"
      "(7, SyNewBlock b [hash_tx sample_ext (sample_tx 1 1)] pl) \<in> set (client_sent (hx_client_net (ct_node t)))" by metis
  note told = conjunct1 [OF synchs_replica_tells_committed [OF sample_ext_clean sample_sync_replica_start(1) t(1)], rule_format, OF t(2)]
  with t show ?thesis by (intro exI [of _ t] exI [of _ b] exI [of _ pl] conjI) simp_all
qed

theorem optsync_replica_tells_committed_witness:
  "\<exists>t. optsync_run sample_ext 1 sample_optsync_replica [sample_tx 1 1, sample_tx 1 2] t \<and>
     concat (map (cb_payload \<circ> snd) (bs_to_consensus (lm_sink (ct_mempool t)))) @ queue_txs (lm_batcher (ct_mempool t)) =
       [sample_tx 1 1, sample_tx 1 2]"
proof -
  let ?t1 = "ct_share_mempool (optsync_ops sample_ext) (legacy_receive sample_ext 1 (Decoded (sample_tx 1 1)) (ct_mempool sample_optsync_replica)) sample_optsync_replica"
  let ?t = "ct_share_mempool (optsync_ops sample_ext) (legacy_receive sample_ext 1 (Decoded (sample_tx 1 2)) (ct_mempool ?t1)) ?t1"
  have run1: "optsync_run sample_ext 1 sample_optsync_replica [sample_tx 1 1] ?t1"
    using ct_snoc [OF ct_nil ct_receive [of sample_ext "optsync_ops sample_ext" "sync_input sample_ext" 1 "Decoded (sample_tx 1 1)" sample_optsync_replica]]
    by simp
  have run: "optsync_run sample_ext 1 sample_optsync_replica [sample_tx 1 1, sample_tx 1 2] ?t"
    using ct_snoc [OF run1 ct_receive [of sample_ext "optsync_ops sample_ext" "sync_input sample_ext" 1 "Decoded (sample_tx 1 2)" ?t1]] by simp
  from optsync_replica_tells_committed [OF sample_ext_clean sample_sync_replica_start(2) run] run show ?thesis by blast
qed

end
