(* ===== verification/Reports.thy ===== *)
theory Reports
  imports Stress_Test Reactor_Metrics
begin

text \<open>
  What the programs print for people: the error messages of a configuration (\<open>config/src/error.rs\<close>),
  the metrics an Artemis node prints when it is interrupted (\<open>metrics.rs\<close>), and the report of the stress
  test. A report is its list of lines; a line is the bytes of its UTF-8 text, and widths count
  characters. How a floating-point number is printed is part of the record \<open>print_ops\<close>.
\<close>

section \<open>Formatting\<close>

text \<open>A byte starts a character unless it is a continuation byte.\<close>

definition char_count :: "string \<Rightarrow> nat" where
  "char_count s = length (filter (\<lambda>c. (of_char c :: nat) div 64 \<noteq> 2) s)"

definition spaces :: "nat \<Rightarrow> string" where
  "spaces n = replicate n (CHR '' '')"

text \<open>\<open>{:>w}\<close>, \<open>{:<w}\<close> and \<open>{:c^w}\<close>.\<close>

definition pad_left :: "nat \<Rightarrow> string \<Rightarrow> string" where
  "pad_left w s = spaces (w - char_count s) @ s"

definition pad_right :: "nat \<Rightarrow> string \<Rightarrow> string" where
  "pad_right w s = s @ spaces (w - char_count s)"

definition pad_centre :: "char \<Rightarrow> nat \<Rightarrow> string \<Rightarrow> string" where
  "pad_centre c w s = (let p = w - char_count s in replicate (p div 2) c @ s @ replicate ((p + 1) div 2) c)"

definition utf8 :: "nat list \<Rightarrow> string" where
  "utf8 bs = map char_of bs"

text \<open>Box drawing and the dash.\<close>

definition box_h :: string where "box_h = utf8 [226, 148, 128]"
definition box_v :: string where "box_v = utf8 [226, 148, 130]"
definition box_top :: string where "box_top = utf8 [226, 148, 140]"
definition box_mid :: string where "box_mid = utf8 [226, 148, 156]"
definition box_bottom :: string where "box_bottom = utf8 [226, 148, 148]"
definition em_dash :: string where "em_dash = utf8 [226, 128, 148]"

definition repeat_text :: "nat \<Rightarrow> string \<Rightarrow> string" where
  "repeat_text n s = concat (replicate n s)"

text \<open>Printing with a fixed number of decimals, multiplication, the literal \<open>100.0\<close>, and \<open>as usize\<close>.\<close>

record 'f print_ops = "'f f64_ops" +
  f_fixed :: "nat \<Rightarrow> 'f \<Rightarrow> string"
  f_mul :: "'f \<Rightarrow> 'f \<Rightarrow> 'f"
  f_hundred :: 'f
  f_to_usize :: "'f \<Rightarrow> nat"

section \<open>Errors of a configuration\<close>

fun ParseError_fmt :: "parse_error \<Rightarrow> string" where
  "ParseError_fmt (InvalidMapLen exp actual) =
     ''invalid map length: expected '' @ show_nat exp @ '', got '' @ show_nat actual"
| "ParseError_fmt (IncorrectFaults fault n) =
     ''n > 2f not satisfied since '' @ show_nat n @ '' !> 2x'' @ show_nat fault"
| "ParseError_fmt (InvalidMapEntry r) = ''invalid map entry for '' @ show_nat r @ '' replica''"
| "ParseError_fmt (InvalidPkSize s) = ''invalid public key size ('' @ show_nat s @ '')''"
| "ParseError_fmt (Unimplemented feature) = feature @ '' feature is not yet implemented''"
| "ParseError_fmt (InvalidSkSize s) = ''invalid secret key size ('' @ show_nat s @ '')''"

fun ParseError_description :: "parse_error \<Rightarrow> string" where
  "ParseError_description (InvalidMapLen _ _) = ''invalid map length''"
| "ParseError_description (IncorrectFaults _ _) = ''incorrect f and n values''"
| "ParseError_description (InvalidMapEntry _) = ''incorrect map entry''"
| "ParseError_description (InvalidPkSize _) = ''invalid public key size''"
| "ParseError_description (InvalidSkSize _) = ''invalid secret key size''"
| "ParseError_description (Unimplemented _) = ''feature unimplemented''"

definition ParseError_cause :: "parse_error \<Rightarrow> parse_error option" where
  "ParseError_cause e = None"

section \<open>Metrics of an Artemis node\<close>

definition edges :: "string list" where
  "edges = [''    0 -  100us'', ''  100 -  500us'', ''  500us-   1ms'', ''    1 -    5ms'', ''    5 -   10ms'',
     ''   10 -   50ms'', ''   50 -  100ms'', ''  100 -  500ms'', ''  500ms+      '']"

definition bucket_line :: "'f print_ops \<Rightarrow> nat \<Rightarrow> string \<times> nat \<Rightarrow> string" where
  "bucket_line F count = (\<lambda>(edge, n).
     let pct = f_div F (f_mul F (f_of_usize F n) (f_hundred F)) (f_of_usize F count);
         bar = replicate (f_to_usize F (f_div F pct (f_two F))) (CHR ''#'')
     in ''    '' @ edge @ ''  '' @ pad_left 6 (show_nat n) @ ''  '' @ pad_left 5 (f_fixed F 1 pct) @ ''%  '' @ bar)"

definition Histogram_print :: "'f print_ops \<Rightarrow> string \<Rightarrow> histogram \<Rightarrow> string list" where
  "Histogram_print F name h =
     (if h_count h = 0 then [''  ['' @ pad_right 18 name @ ''] (no samples)'']
      else
        let mean = h_sum_us h div h_count h
        in (''  ['' @ pad_right 18 name @ ''] n='' @ pad_right 6 (show_nat (h_count h)) @ '' mean='' @ pad_left 7 (show_nat mean) @
              ''us max='' @ pad_left 7 (show_nat (h_max_us h)) @ ''us'') #
           map (bucket_line F (h_count h)) (filter (\<lambda>(edge, n). n \<noteq> 0) (zip edges (h_buckets h))))"

definition rule_line :: string where
  "rule_line = replicate 57 (CHR ''='')"

definition counter_line :: "'f print_ops \<Rightarrow> 'f \<Rightarrow> string \<Rightarrow> nat \<Rightarrow> string" where
  "counter_line F elapsed name n =
     ''  '' @ name @ '' = '' @ pad_left 6 (show_nat n) @ ''  ('' @ f_fixed F 0 (f_div F (f_of_usize F n) elapsed) @ ''/s)''"

definition Metrics_print_summary :: "'f print_ops \<Rightarrow> nat \<Rightarrow> 'f \<Rightarrow> metrics \<Rightarrow> string list" where
  "Metrics_print_summary F myid elapsed m =
     [[], rule_line, ''  artemis metrics  node '' @ show_nat myid @ ''  t='' @ f_fixed F 2 elapsed @ ''s'', rule_line,
      counter_line F elapsed ''reactor_iters '' (m_reactor_iters m), counter_line F elapsed ''proposes      '' (m_proposes m),
      counter_line F elapsed ''votes         '' (m_votes m), counter_line F elapsed ''round_advances'' (m_round_advances m),
      counter_line F elapsed ''batch_recvs   '' (m_batch_recvs m), [], ''  inter-event histograms:''] @
     Histogram_print F ''inter_propose'' (m_inter_propose m) @ Histogram_print F ''inter_vote'' (m_inter_vote m) @
     Histogram_print F ''inter_round_adv'' (m_inter_round_advance m) @ Histogram_print F ''inter_batch_recv'' (m_inter_batch_recv m) @
     [rule_line]"

section \<open>The report of the stress test\<close>

fun protocol_label :: "protocol \<Rightarrow> string" where
  "protocol_label Apollo = ''Apollo''"
| "protocol_label Artemis = ''Artemis''"
| "protocol_label Synchs = ''Sync HotStuff''"
| "protocol_label Optsync = ''Opt Sync''"

definition BOX_WIDTH :: nat where
  "BOX_WIDTH = 63"

definition box_line :: string where
  "box_line = repeat_text BOX_WIDTH box_h"

definition print_header :: "bench_config \<Rightarrow> string list" where
  "print_header cfg =
     [[], box_top @ box_line,
      box_v @ '' '' @ protocol_label (bc_protocol cfg) @ '' (n='' @ show_nat (bc_num_nodes cfg) @ '', f='' @ show_nat (bc_num_faults cfg) @
        '', clients='' @ show_nat (bc_num_clients cfg) @ '', blk='' @ show_nat (bc_block_size cfg) @ '', payload='' @
        show_nat (bc_payload cfg) @ ''B, window='' @ show_nat (bc_window cfg) @ '', txs/cli='' @ show_nat (bc_total_txs cfg) @ '')'',
      box_mid @ box_line]"

definition client_line :: "'f print_ops \<Rightarrow> nat \<Rightarrow> 'f option \<times> 'f \<Rightarrow> string" where
  "client_line F j = (\<lambda>(t, l).
     box_v @ ''   client '' @ pad_left 2 (show_nat j) @ ''    : '' @
     (case t of
        Some t \<Rightarrow> pad_left 12 (f_fixed F 2 t) @ '' tx/s   ''
      | None \<Rightarrow> pad_left 12 em_dash @ ''      '') @
     pad_left 8 (f_fixed F 2 l) @ '' ms/tx'')"

definition print_result :: "'f print_ops \<Rightarrow> 'f \<Rightarrow> 'f bench_result \<Rightarrow> string list" where
  "print_result F wall_elapsed r =
     [box_v @ '' Throughput     : '' @ pad_left 12 (f_fixed F 2 (br_throughput r)) @ '' tx/s  ('' @ br_throughput_src r @ '')'',
      box_v @ '' Avg Latency    : '' @ pad_left 12 (f_fixed F 2 (br_latency_ms r)) @ '' ms/tx (mean across '' @
        show_nat (length (br_per_client r)) @ '' client'' @ (if length (br_per_client r) = 1 then [] else ''s'') @ '')''] @
     (if length (br_per_client r) > 1
      then map (\<lambda>(j, x). client_line F j x) (zip [0..<length (br_per_client r)] (br_per_client r)) else []) @
     [box_v @ '' Wall elapsed   : '' @ pad_left 12 (f_fixed F 2 wall_elapsed) @ '' s'', box_bottom @ box_line]"

definition print_failure :: "string \<Rightarrow> string list" where
  "print_failure err = [box_v @ '' FAILED: '' @ err, box_bottom @ box_line]"

text \<open>The six columns that describe a configuration, and a row of the final table.\<close>

definition table_cells :: "string \<Rightarrow> string \<Rightarrow> string \<Rightarrow> string \<Rightarrow> string \<Rightarrow> string \<Rightarrow> string" where
  "table_cells p n f c blk txs =
     box_v @ '' '' @ pad_right 16 p @ '' '' @ pad_left 4 n @ '' '' @ pad_left 4 f @ '' '' @ pad_left 4 c @ '' '' @
     pad_left 5 blk @ '' '' @ pad_left 7 txs @ '' ''"

definition config_cells :: "bench_config \<Rightarrow> string" where
  "config_cells c =
     table_cells (protocol_label (bc_protocol c)) (show_nat (bc_num_nodes c)) (show_nat (bc_num_faults c)) (show_nat (bc_num_clients c))
       (show_nat (bc_block_size c)) (show_nat (bc_total_txs c))"

definition summary_row :: "'f print_ops \<Rightarrow> bench_config \<times> 'f bench_result option \<Rightarrow> string" where
  "summary_row F = (\<lambda>(c, r).
     config_cells c @
     (case r of
        Some r \<Rightarrow> pad_left 10 (f_fixed F 2 (br_throughput r)) @ '' tx/s '' @ pad_left 11 (f_fixed F 2 (br_latency_ms r)) @ '' ms''
      | None \<Rightarrow> pad_left 16 ''FAILED'' @ '' '' @ pad_left 16 ''FAILED''))"

definition summary_head :: string where
  "summary_head =
     table_cells ''Protocol'' ''N'' ''f'' ''C'' ''blk'' ''txs/c'' @ pad_left 16 ''Throughput'' @ '' '' @ pad_left 16 ''Latency''"

definition print_summary :: "'f print_ops \<Rightarrow> (bench_config \<times> 'f bench_result option) list \<Rightarrow> string list" where
  "print_summary F results =
     (let w = 96; line = repeat_text w box_h
      in [[], box_top @ line, summary_head, box_mid @ line] @ map (summary_row F) results @ [box_bottom @ line])"

text \<open>What \<open>main\<close> prints before the runs, during them (with the elapsed times of the runs), and at the end.\<close>

definition stress_banner :: "bench_config list \<Rightarrow> string list" where
  "stress_banner matrix =
     [pad_centre (CHR ''='') 63 '' libchatter-rs baseline stress test '',
      ''Protocols: Apollo, Artemis, Sync HotStuff, Opt Sync.     Loopback (127.0.0.1), release build.''] @
     (case matrix of
        c # _ \<Rightarrow> if bc_num_clients c > 1 then [''Multi-client: '' @ show_nat (bc_num_clients c) @ '' parallel clients per run''] else []
      | [] \<Rightarrow> [])"

fun run_matrix_printing :: "bench_sys \<Rightarrow> 'f print_ops \<Rightarrow> (bench_config \<times> 'f) list \<Rightarrow> harness \<times> bench_world \<Rightarrow>
    (string list \<times> (bench_config \<times> 'f bench_result option) list \<times> harness \<times> bench_world) res" where
  "run_matrix_printing B F [] (h, w) = Inr ([], [], h, w)"
| "run_matrix_printing B F ((cfg, wall) # cfgs) (h, w) =
     rbind (Harness_run B (f64_ops.truncate F) cfg h w) (\<lambda>(r, h, w).
     let shown = print_header cfg @ (case r of Inr x \<Rightarrow> print_result F wall x | Inl e \<Rightarrow> print_failure e)
     in rbind (run_matrix_printing B F cfgs (h, w)) (\<lambda>(out, results, hw).
        Inr (shown @ out, (cfg, case r of Inr x \<Rightarrow> Some x | Inl _ \<Rightarrow> None) # results, hw)))"

definition stress_output :: "'f print_ops \<Rightarrow> bench_config list \<Rightarrow> string list \<Rightarrow> (bench_config \<times> 'f bench_result option) list \<Rightarrow> string list" where
  "stress_output F matrix out results = stress_banner matrix @ out @ print_summary F results"

section \<open>Widths\<close>

lemma char_count_simps [simp]:
  "char_count [] = 0" "char_count (s @ t) = char_count s + char_count t" "char_count (spaces n) = n"
  by (simp_all add: char_count_def spaces_def)

lemma char_count_glyphs [simp]:
  "char_count box_h = 1" "char_count box_v = 1" "char_count box_top = 1" "char_count box_mid = 1" "char_count box_bottom = 1"
  "char_count em_dash = 1"
  by (simp_all add: char_count_def utf8_def box_h_def box_v_def box_top_def box_mid_def box_bottom_def em_dash_def)

lemma char_count_pad [simp]:
  "char_count (pad_left w s) = max w (char_count s)" "char_count (pad_right w s) = max w (char_count s)"
  by (simp_all add: pad_left_def pad_right_def)

lemma char_count_repeat [simp]: "char_count (repeat_text n s) = n * char_count s"
  by (induction n) (simp_all add: repeat_text_def)

lemma char_count_Cons: "char_count (c # s) = (if (of_char c :: nat) div 64 \<noteq> 2 then 1 else 0) + char_count s"
  by (simp add: char_count_def)

lemma table_cells_width:
  assumes "char_count p \<le> 16" "char_count n \<le> 4" "char_count f \<le> 4" "char_count c \<le> 4" "char_count blk \<le> 5" "char_count txs \<le> 7"
  shows "char_count (table_cells p n f c blk txs) = 48"
  using assms by (simp add: table_cells_def max_def char_count_Cons)

text \<open>
  The rows of the final table: where every cell fits its column, the head and the rows of failed runs
  are 81 characters wide, and the rows of successful runs three fewer: their last two columns carry a
  unit that the widths leave one and two characters short.
\<close>

lemma summary_widths:
  assumes "char_count (config_cells c) = 48"
  shows "char_count summary_head = 81" and "char_count (summary_row F (c, None)) = 81"
    and "char_count (f_fixed F 2 (br_throughput r)) \<le> 10 \<Longrightarrow> char_count (f_fixed F 2 (br_latency_ms r)) \<le> 11 \<Longrightarrow>
      char_count (summary_row F (c, Some r)) = 78"
proof -
  have "char_count (table_cells ''Protocol'' ''N'' ''f'' ''C'' ''blk'' ''txs/c'') = 48"
    by (rule table_cells_width) (simp_all add: char_count_Cons)
  then show "char_count summary_head = 81" by (simp add: summary_head_def char_count_Cons)
  show "char_count (summary_row F (c, None)) = 81" using assms by (simp add: summary_row_def char_count_Cons)
  show "char_count (summary_row F (c, Some r)) = 78"
    if "char_count (f_fixed F 2 (br_throughput r)) \<le> 10" "char_count (f_fixed F 2 (br_latency_ms r)) \<le> 11"
    using that assms by (simp add: summary_row_def char_count_Cons max_def)
qed

section \<open>Laws of the reports\<close>

text \<open>Printing does not change a run.\<close>

lemma run_matrix_printing_results:
  "rbind (run_matrix_printing B F cws hw) (\<lambda>(out, rest). Inr rest) = run_matrix B (f64_ops.truncate F) (map fst cws) hw"
proof (induction cws arbitrary: hw)
  case (Cons cw cws)
  obtain cfg wall where cw: "cw = (cfg, wall)" by (cases cw)
  obtain h w where hw: "hw = (h, w)" by (cases hw)
  show ?case
  proof (cases "Harness_run B (f64_ops.truncate F) cfg h w")
    case (Inr x)
    obtain r h' w' where x: "x = (r, h', w')" by (cases x) auto
    show ?thesis using Cons [of "(h', w')", symmetric]
      by (cases "run_matrix_printing B F cws (h', w')") (auto simp: cw hw Inr x Let_def)
  qed (simp add: cw hw)
qed (auto simp: split_paired_all)

text \<open>The transcript shows every configuration of the matrix, and its table has a row for each, in order.\<close>

lemma run_matrix_printing_rows:
  assumes "run_matrix_printing B F cws hw = Inr (out, results, hw')"
  shows "map fst results = map fst cws \<and> (\<forall>cfg\<in>fst ` set cws. set (print_header cfg) \<subseteq> set out)"
  using assms
proof (induction cws arbitrary: hw out results)
  case Nil
  then show ?case by (cases hw) simp
next
  case (Cons cw cws)
  obtain cfg wall h w where cw: "cw = (cfg, wall)" and hw: "hw = (h, w)" by (cases cw, cases hw)
  from Cons.prems obtain h1 w1 shown out1 res1 where
    one: "run_matrix_printing B F cws (h1, w1) = Inr (out1, res1, hw')"
    and out: "out = print_header cfg @ shown @ out1" and res: "map fst results = cfg # map fst res1"
    by (auto simp: cw hw Let_def)
  from Cons.IH [OF one] out res show ?case by (auto simp: cw)
qed

text \<open>A histogram prints one line for every bucket that is not empty.\<close>

lemma histogram_print_lines:
  assumes "hist_ok k h"
  shows "length (Histogram_print F name h) = 1 + length (filter (\<lambda>n. n \<noteq> 0) (h_buckets h))"
proof (cases "k = 0")
  case True
  then have "\<forall>n\<in>set (h_buckets h). n = 0" using assms by (auto simp: hist_ok_def)
  then have "filter (\<lambda>n. n \<noteq> 0) (h_buckets h) = []" by (auto simp: filter_empty_conv)
  moreover have "h_count h = 0" using True assms by (simp add: hist_ok_def)
  ultimately show ?thesis by (simp add: Histogram_print_def)
next
  case False
  have len: "length (h_buckets h) = length edges" using assms by (simp add: hist_ok_def edges_def)
  have "length (filter (\<lambda>(edge, n). n \<noteq> 0) (zip edges (h_buckets h))) = length (filter (\<lambda>n. n \<noteq> 0) (map snd (zip edges (h_buckets h))))"
    by (simp add: filter_map comp_def case_prod_unfold)
  then show ?thesis using False assms len by (simp add: Histogram_print_def Let_def hist_ok_def)
qed

text \<open>What a node prints about itself is what happened: the counts of its events.\<close>

lemma metrics_summary_counts:
  assumes "clock_ok 0 evs" and "\<forall>e. event_count e evs < 2 ^ 64 - 1"
  obtains m where "metrics_run evs = Inr m"
    "counter_line F t ''reactor_iters '' (event_count RecReactorIter evs) \<in> set (Metrics_print_summary F me t m)"
    "counter_line F t ''proposes      '' (event_count RecPropose evs) \<in> set (Metrics_print_summary F me t m)"
    "counter_line F t ''votes         '' (event_count RecVote evs) \<in> set (Metrics_print_summary F me t m)"
    "counter_line F t ''round_advances'' (event_count RecRoundAdvance evs) \<in> set (Metrics_print_summary F me t m)"
    "counter_line F t ''batch_recvs   '' (event_count RecBatchRecv evs) \<in> set (Metrics_print_summary F me t m)"
proof -
  have "metrics_ok (\<lambda>_. 0) 0 Metrics_new" by (simp add: metrics_ok_def series_ok_def Metrics_new_def)
  from metrics_ok_run [OF this assms(1)] assms(2) obtain m clock where
    m: "metrics_run evs = Inr m" "metrics_ok (\<lambda>e. event_count e evs) clock m" by (auto simp: metrics_run_def)
  then have "m_reactor_iters m = event_count RecReactorIter evs" "m_proposes m = event_count RecPropose evs" "m_votes m = event_count RecVote evs"
      "m_round_advances m = event_count RecRoundAdvance evs" "m_batch_recvs m = event_count RecBatchRecv evs"
    by (simp_all add: metrics_ok_def series_ok_def)
  then show thesis by (intro that [OF m(1)]) (simp_all add: Metrics_print_summary_def)
qed

text \<open>The message of a refused configuration is true of it.\<close>

definition message_true :: "node_config \<Rightarrow> replica list \<Rightarrow> (replica \<times> bytes) list \<Rightarrow> parse_error \<Rightarrow> bool" where
  "message_true c ids pks e =
     (case e of
        InvalidMapLen expected actual \<Rightarrow> expected = nc_num_nodes c \<and> actual = fcard (fmdom (nc_net_map c)) \<and> expected \<noteq> actual
      | IncorrectFaults f n \<Rightarrow> f = nc_num_faults c \<and> n = nc_num_nodes c \<and> \<not> n > 2 * f
      | InvalidMapEntry r \<Rightarrow> r \<in> set ids \<union> fst ` set pks \<and> nc_num_nodes c \<le> r
      | InvalidPkSize k \<Rightarrow> k = 0 \<and> (\<exists>r. (r, []) \<in> set pks)
      | InvalidSkSize k \<Rightarrow> k = 0 \<and> nc_secret_key_bytes c = []
      | Unimplemented f \<Rightarrow> f = ''RSA'' \<and> nc_crypto_alg c = RSA)"

lemma check_errors:
  "check_replicas n ids = Inl e \<Longrightarrow> \<exists>r\<in>set ids. e = InvalidMapEntry r \<and> n \<le> r"
  by (induction ids) (force simp: is_valid_replica_def split: if_splits)+

lemma check_key_errors:
  "check_public_keys n pks = Inl e \<Longrightarrow> (\<exists>r\<in>fst ` set pks. e = InvalidMapEntry r \<and> n \<le> r) \<or> e = InvalidPkSize 0 \<and> (\<exists>r. (r, []) \<in> set pks)"
  by (induction n pks rule: check_public_keys.induct) (auto simp: is_valid_replica_def split: if_splits)

lemma node_message_true:
  assumes "Node_validate c ids pks = Inr (Inl e)"
  shows "message_true c ids pks e"
proof -
  have r: "message_true c ids pks e" if "check_replicas (nc_num_nodes c) ids = Inl e"
    using check_errors [OF that] by (auto simp: message_true_def)
  have p: "message_true c ids pks e" if "check_public_keys (nc_num_nodes c) pks = Inl e"
    using check_key_errors [OF that] by (force simp: message_true_def)
  show ?thesis
    using assms r p
    by (auto simp: Node_validate_def checked_Inr_iff Let_def split: if_splits sum.splits algorithm.splits)
      (auto simp: message_true_def)
qed

end
