(* ===== verification/Peer_Demo.thy ===== *)
theory Peer_Demo
  imports Config_Files
begin

text \<open>
  The peer-to-peer demo (\<open>examples/apollo/node/src/colton.rs\<close>, which no target of the workspace
  builds). It drives the library libp2p: the calls it makes to Floodsub are the state, in order; what
  Mdns answers is the parameter \<open>has_node\<close>; the events the swarm hands out, and what standard input
  gives, are inputs. What it prints (its id, received messages, the listening address) is left out.
\<close>

section \<open>State\<close>

type_synonym peer = string
type_synonym topic = string

datatype floodsub_call =
    Subscribe topic
  | Publish topic bytes
  | PublishAny topic bytes
  | AddNode peer
  | RemoveNode peer

record floodsub_message =
  fm_source :: peer
  fm_data :: bytes
  fm_topics :: "topic list"

datatype floodsub_event = FloodsubMessage floodsub_message | FloodsubOther

datatype mdns_event = Discovered "(peer \<times> string) list" | Expired "(peer \<times> string) list"

record demo =
  pd_floodsub :: "floodsub_call list"
  pd_ignored_member :: bool

definition call :: "floodsub_call \<Rightarrow> demo \<Rightarrow> demo" where
  "call c d = d\<lparr>pd_floodsub := pd_floodsub d @ [c]\<rparr>"

section \<open>Handlers\<close>

text \<open>\<open>args[1]\<close> and \<open>topics[0]\<close>: indexing panics when there is no such element.\<close>

definition index :: "'a list \<Rightarrow> nat \<Rightarrow> 'a res" where
  "index xs i = (if i < length xs then Inr (xs ! i) else Inl (Panic ''index out of bounds''))"

definition inject_floodsub :: "string list \<Rightarrow> floodsub_event \<Rightarrow> demo \<Rightarrow> demo res" where
  "inject_floodsub args ev d =
     (case ev of
        FloodsubOther \<Rightarrow> Inr d
      | FloodsubMessage m \<Rightarrow>
          rbind (index args 1) (\<lambda>role.
          if role = ''main'' then Inr d
          else rbind (index (fm_topics m) 0) (\<lambda>t.
            if t = ''one-to-all'' then Inr (call (PublishAny ''all-to-one'' (fm_data m)) d) else Inr d)))"

fun inject_mdns :: "(peer \<Rightarrow> bool) \<Rightarrow> mdns_event \<Rightarrow> demo \<Rightarrow> demo" where
  "inject_mdns has_node (Discovered list) d = fold (\<lambda>(p, _). call (AddNode p)) list d"
| "inject_mdns has_node (Expired list) d = fold (\<lambda>(p, _) d. if \<not> has_node p then call (RemoveNode p) d else d) list d"

section \<open>The program\<close>

text \<open>The start, with the outcomes of the transport, of Mdns and of \<open>listen_on\<close>: \<open>Inr (Inl e)\<close> is an error that \<open>main\<close> returns.\<close>

definition demo_start :: "string list \<Rightarrow> bool \<Rightarrow> bool \<Rightarrow> bool \<Rightarrow> (string + demo) res" where
  "demo_start args transport_ok mdns_ok listen_ok =
     (if \<not> transport_ok then Inr (Inl ''transport'')
      else if \<not> mdns_ok then Inr (Inl ''mdns'')
      else
        let d = call (Subscribe ''one-to-all'') \<lparr>pd_floodsub = [], pd_ignored_member = False\<rparr>
        in rbind (index args 1) (\<lambda>role.
           let d = (if role = ''main'' then call (Subscribe ''all-to-one'') d else d)
           in if \<not> listen_ok then Inr (Inl ''listen'') else Inr (Inr d)))"

datatype stdin_item = StdinLine string | StdinError | StdinClosed

datatype swarm_item =
    FloodsubEvent floodsub_event
  | MdnsEvent mdns_event
  | NewListenAddr string
  | OtherEvent
  | SwarmClosed

datatype poll_result = Pending demo | Ready "string + unit" demo

text \<open>The first loop of a poll: lines until nothing is ready (the end of the list).\<close>

fun poll_stdin :: "stdin_item list \<Rightarrow> demo \<Rightarrow> poll_result res" where
  "poll_stdin [] d = Inr (Pending d)"
| "poll_stdin (StdinLine line # rest) d = poll_stdin rest (call (Publish ''one-to-all'' (text_bytes line)) d)"
| "poll_stdin (StdinError # rest) d = Inr (Ready (Inl ''stdin'') d)"
| "poll_stdin (StdinClosed # rest) d = Inl (Panic ''Stdin closed'')"

text \<open>The second loop; the swarm hands the events of the behaviours to their handlers.\<close>

fun poll_swarm :: "string list \<Rightarrow> (peer \<Rightarrow> bool) \<Rightarrow> swarm_item list \<Rightarrow> demo \<Rightarrow> poll_result res" where
  "poll_swarm args has_node [] d = Inr (Pending d)"
| "poll_swarm args has_node (FloodsubEvent ev # rest) d = rbind (inject_floodsub args ev d) (poll_swarm args has_node rest)"
| "poll_swarm args has_node (MdnsEvent ev # rest) d = poll_swarm args has_node rest (inject_mdns has_node ev d)"
| "poll_swarm args has_node (NewListenAddr a # rest) d = poll_swarm args has_node rest d"
| "poll_swarm args has_node (OtherEvent # rest) d = poll_swarm args has_node rest d"
| "poll_swarm args has_node (SwarmClosed # rest) d = Inr (Ready (Inr ()) d)"

definition poll_demo :: "string list \<Rightarrow> (peer \<Rightarrow> bool) \<Rightarrow> stdin_item list \<Rightarrow> swarm_item list \<Rightarrow> demo \<Rightarrow> poll_result res" where
  "poll_demo args has_node lines events d =
     rbind (poll_stdin lines d) (\<lambda>r. case r of Ready x d \<Rightarrow> Inr (Ready x d) | Pending d \<Rightarrow> poll_swarm args has_node events d)"

section \<open>Laws\<close>

lemma call_simps [simp]: "pd_floodsub (call c d) = pd_floodsub d @ [c]" "pd_ignored_member (call c d) = pd_ignored_member d"
  by (simp_all add: call_def)

lemma index_simps [simp]: "index (x # xs) 0 = Inr x" "index (x # xs) (Suc i) = index xs i" "index [] i = Inl (Panic ''index out of bounds'')"
  by (simp_all add: index_def)

text \<open>Without a role argument the program panics, once transport and Mdns are up.\<close>

lemma demo_start_needs_role: "demo_start args True True ok = Inl f \<longleftrightarrow> length args < 2 \<and> f = Panic ''index out of bounds''"
  by (auto simp: demo_start_def index_def Let_def)

text \<open>
  One answer per question, and no answer to an answer: a peer that is not the main one answers the
  messages under \<open>one-to-all\<close>, with the same data, and no others; the main one answers nothing.
\<close>

definition answers :: "string \<Rightarrow> floodsub_message list \<Rightarrow> floodsub_call list" where
  "answers role ms =
     (if role = ''main'' then []
      else map (\<lambda>m. PublishAny ''all-to-one'' (fm_data m)) (filter (\<lambda>m. hd (fm_topics m) = ''one-to-all'') ms))"

lemma demo_answers:
  assumes "\<forall>m\<in>set ms. fm_topics m \<noteq> []"
  shows "poll_swarm (prog # role # rargs) has_node (map (FloodsubEvent \<circ> FloodsubMessage) ms) d =
    Inr (Pending (d\<lparr>pd_floodsub := pd_floodsub d @ answers role ms\<rparr>))"
  using assms
proof (induction ms arbitrary: d)
  case Nil
  then show ?case by (simp add: answers_def)
next
  case (Cons m ms)
  then obtain t ts where "fm_topics m = t # ts" by (cases "fm_topics m") auto
  with Cons show ?case by (auto simp: inject_floodsub_def answers_def call_def)
qed

lemma answers_not_answered:
  assumes "PublishAny t bs \<in> set (answers role ms)"
  shows "answers role' [\<lparr>fm_source = p, fm_data = bs, fm_topics = [t]\<rparr>] = []"
  using assms by (auto simp: answers_def split: if_splits)

text \<open>A message without topics stops every peer but the main one.\<close>

lemma demo_untopical_panics:
  assumes "fm_topics m = []" and "role \<noteq> ''main''"
  shows "poll_swarm (prog # role # rargs) has_node (FloodsubEvent (FloodsubMessage m) # rest) d = Inl (Panic ''index out of bounds'')"
  using assms by (simp add: inject_floodsub_def)

text \<open>The view: discovered peers are added, and expired ones removed only when Mdns no longer has them.\<close>

lemma mdns_calls:
  "pd_floodsub (inject_mdns has_node (Discovered list) d) = pd_floodsub d @ map (AddNode \<circ> fst) list"
  "pd_floodsub (inject_mdns has_node (Expired list) d) = pd_floodsub d @ map RemoveNode (filter (\<lambda>p. \<not> has_node p) (map fst list))"
  by (induction list arbitrary: d) auto

text \<open>Lines are published in order.\<close>

lemma stdin_published:
  "poll_stdin (map StdinLine ls) d = Inr (Pending (d\<lparr>pd_floodsub := pd_floodsub d @ map (Publish ''one-to-all'' \<circ> text_bytes) ls\<rparr>))"
  by (induction ls arbitrary: d) (simp_all add: call_def)

end
