(* ===== verification/Spec2Isabelle.thy ===== *)
theory Spec2Isabelle
  imports Unit_Tests Loops Sync_Properties Stress_Laws Apollo_Replica Artemis_Replica Sync_Replicas Reports Peer_Demo
begin

text \<open>
  \<^bold>\<open>A verification development for libapollo\<close>

  libapollo is a Rust workspace of four leader-based replication protocols (Apollo, Artemis, Sync
  HotStuff, Opt Sync) over one mempool. Clients submit transactions to the mempool of every
  replica; the mempool groups them into batches and announces each to the node of its replica; the
  leader's node proposes a block that names the batch by its hash, replicas check, deliver and
  commit blocks, and a commit flows back to the mempool, which forgets the transactions and
  confirms them to the clients. The four nodes are single-threaded: a reactor takes one event
  (message, batch, timer) at a time and updates a \<open>Context\<close>. This development follows that shape: a
  record per context, a function per function of the source, one step of a reactor as a function of
  the event, and runs as sequences of steps.

  \<^bold>\<open>Conventions.\<close> Integers are naturals; every addition, subtraction and multiplication the source
  performs at a machine width is checked, and leaving the width is the fault \<open>Overflow\<close>, as in a
  build with overflow checks. A \<open>panic!\<close>, \<open>unwrap\<close>, \<open>expect\<close> or failed \<open>debug_assert!\<close> is a fault too:
  a computation that can fault has type \<open>'a res\<close>. Code of other repositories (hashes, signatures,
  bincode, rocksdb, the reliable senders) is the record \<open>ext\<close>, an argument of what calls it; what a
  theorem needs of it is a named hypothesis (\<open>collision_free\<close>, \<open>hash_32\<close>, \<open>sign_verifies\<close>,
  \<open>batch_codec_ok\<close>, \<open>store_ok\<close>), and \<open>Sample_Ext\<close> has a concrete instance that satisfies them all, on
  which the witnesses run. Blocks that arrive over the network went through \<open>Deserialize\<close>, which
  recomputes their hash; the step relations assume just that of messages, which otherwise are
  arbitrary: peers may be faulty.

  \<^bold>\<open>Theories, in the order of the imports.\<close>

  \<^item> \<open>Prelude\<close>: faults, checked arithmetic, loops that stop at a fault (\<open>rfold\<close>) with their invariant
    rules, \<open>rkeeps\<close> (keeps an invariant or ends in a known fault), finite-map lemmas, and the
    interface \<open>step_system\<close>.
  \<^item> \<open>Wire_Types\<close> (\<open>types/src/msg\<close>, parts of \<open>mempool/src\<close>, \<open>config/src/node.rs\<close>): transactions, batches,
    blocks, certificates, the messages of all protocols, the configuration, \<open>ext\<close>.
  \<^item> \<open>BTree_Map\<close>: Rust's ordered map as a sorted association list behind an interface.
  \<^item> \<open>Tx_Pool\<close>, \<open>Tx_Pool_Laws\<close> (\<open>mempool/src/tx_pool.rs\<close>): the pool with its Mineable and InFlight
    sets. Its invariant holds in every reachable state; \<open>make_batch\<close> is equivalent to a declarative
    choice of the transactions; commit and rollback have their exact effect; a committed transaction
    is never proposed again, and the key of an accepted one is kept, with the transaction itself unless
    another one with the same key takes its place.
  \<^item> \<open>Batch\<close> (\<open>batch.rs\<close>, \<open>cache.rs\<close>, \<open>sealer.rs\<close>, \<open>batcher.rs\<close>, \<open>processor.rs\<close>, \<open>receiver.rs\<close>): cached batches,
    the write-once cache, the count-based mempool.
  \<^item> \<open>RR_Batcher\<close> (\<open>rr_batcher.rs\<close>): the round-robin batcher: at most one batch per round, no panics.
  \<^item> \<open>Keyed_Mempool\<close> (\<open>client_listener.rs\<close>, \<open>confirmation_router.rs\<close>, \<open>lib.rs\<close>): the composition; a
    submission is confirmed exactly once when it commits.
  \<^item> \<open>Block_Storage\<close> (\<open>types/src/msg/storage.rs\<close>): the block index and the walk that commits a chain.
    The walk has fuel, one more than the number of delivered blocks; \<open>commit_chain_total\<close> and
    \<open>commit_chain_spec\<close> show that this is enough.
  \<^item> \<open>Node_Common\<close>, \<open>Sample_Node\<close>: what the contexts share (network, keys, batch cache with its
    durable fallback behind the interface \<open>batch_io\<close>).
  \<^item> \<open>Apollo_Node\<close>, \<open>Apollo_Chain\<close>, \<open>Apollo_Safety\<close> (\<open>consensus/apollo/src/node\<close>): the whole node; its
    committed blocks refine an append-only log; proposals of the other leaders' rounds are authentic; two
    nodes that recorded the same proposals commit the same blocks; a round synchronises leader and
    replica; the faults it can run into.
  \<^item> \<open>Reactor_Metrics\<close>, \<open>Artemis_Node\<close>, \<open>Leader_Rotation\<close>, \<open>Artemis_Safety\<close>, \<open>Artemis_Laws\<close>
    (\<open>consensus/artemis/src/node\<close>): the whole node; the rotation of leaders is fair and the same on all
    nodes; recorded votes for the other leaders' rounds are authentic; dissemination and a round; the
    faults.
  \<^item> \<open>Mempool_Flow\<close>, \<open>Replica\<close> (\<open>mempool/src/lib.rs\<close> with the node programs' wiring): what flows through the
    keyed mempool; a replica as the composition of that mempool with a node over shared cache, store
    and channels, its tasks interleaved in any order (\<open>ks_step\<close>). The interface \<open>keyed_node\<close> states what a
    node promises to its mempool and proves, once for both nodes, that confirmations are sound and
    announcements come from clients.
  \<^item> \<open>Apollo_Flow\<close>, \<open>Apollo_Replica\<close>, \<open>Artemis_Flow\<close>, \<open>Artemis_Replica\<close>: both nodes keep those promises in every
    step of their reactors; a replica confirms only what it committed and proposes only what its clients
    submitted; runs from a client's frame to the confirmation (Apollo) and to the broadcast block
    (Artemis); the race that loses a confirmation.
  \<^item> \<open>Synchs_Node\<close>, \<open>Optsync_Node\<close>, \<open>Sync_Laws\<close>, \<open>Sync_Safety\<close>, \<open>Sync_Properties\<close>
    (\<open>consensus/synchs/src/node\<close>, \<open>consensus/optsync/src/node\<close>): both nodes over one record and its
    extension; one invariant for the two; the reactor loop as the interface \<open>sync_node\<close> that both
    interpret; certificates, notifications, accepted proposals, a round, the faults.
  \<^item> \<open>Count_Replica\<close>, \<open>Sync_Replicas\<close> (\<open>examples/synchs/node\<close>, \<open>examples/optsync/node\<close>): the count-based mempool
    composed with either synchronous node over shared cache, store and channel (\<open>ct_step\<close>). The interface
    \<open>count_node\<close> states what the node promises; both nodes interpret it. Clients are told of committed
    blocks only, with the hashes of the transactions of their batch; only received transactions are
    proposed, in the order they came; a run takes a transaction from its submission to its announcement.
  \<^item> \<open>Loops\<close>: the replay of early proposals and the commit walk end; their fuel is not observable.
  \<^item> \<open>Unit_Tests\<close>: the unit tests of crate \<open>mempool\<close>, which pass on the model.
  \<^item> \<open>Config\<close> (\<open>config/src\<close>), \<open>Rust_Text\<close>, \<open>Config_Files\<close> (\<open>util/src/io.rs\<close>, the \<open>from_*\<close> functions):
    validation and address updates; the parts of the standard library on text, paths and socket
    addresses; configurations written and read back.
  \<^item> \<open>Gen_Config\<close>, \<open>Gen_Config_Laws\<close>, \<open>Sample_Config\<close> (\<open>tools/genconfig\<close>): the whole tool, when it
    finishes, and what the files contain. OpenSSL, key generation and serde are the record \<open>gen_sys\<close>.
  \<^item> \<open>Node_Programs\<close>, \<open>Bootstrap\<close> (\<open>examples/*/node/src/main.rs\<close>): the four node programs; on generated
    files they reach initial states of the protocols, so that the theorems on reachable states apply.
  \<^item> \<open>Clients\<close>, \<open>Client_Programs\<close>, \<open>Client_Laws\<close> (\<open>client/start.rs\<close>, \<open>examples/*/client/src/main.rs\<close>,
    \<open>consensus/src/lib.rs\<close>): the loops of the clients, their programs, the statistics.
  \<^item> \<open>Stress_Test\<close>, \<open>Command_Line\<close>, \<open>Stress_Laws\<close> (\<open>stress-test/src/main.rs\<close>, the \<open>cli.yml\<close> files): the
    harness that composes all programs; its ports, its clusters, its child processes. Processes are
    the record \<open>bench_sys\<close>, floating point the record \<open>f64_ops\<close>, clap a function that keeps \<open>clap_ok\<close>.
  \<^item> \<open>Reports\<close>: what is printed for people: error messages of configurations, the metrics of an Artemis
    node, the report of the stress test; printing leaves a run unchanged and shows its true numbers.
  \<^item> \<open>Peer_Demo\<close> (\<open>examples/apollo/node/src/colton.rs\<close>): the libp2p demo as the sequence of its calls.
  \<^item> This theory: the node programs start the replicas whose runs the theories above are about.

  \<^bold>\<open>Gaps the theorems show.\<close> Some properties state what the code does where it departs from what it
  means to do: a directly delivered Apollo equivocation is not noticed, an old Apollo proposal can be
  replayed, and a proposal that carries the receiver's own id is not checked; Artemis accepts blocks in responses and votes in its own round without a signature; a correct Sync
  HotStuff leader makes replicas commit conflicting blocks; one vote for another view makes an Opt
  Sync certificate unusable. Blame messages stop Apollo and Artemis nodes, and two checks marked
  unreachable can be reached in the two synchronous ones. Configurations generated as YAML are refused
  by the programs they are for, generating them as TOML panics (the serializer refuses maps with integer
  keys), and the stress test can leave nodes running. A block that is not full lets the clients of the
  synchronous protocols run ahead of their window. The confirmation router
  serves commits and registrations in any order, so that a transaction can commit before its
  registration is served and is then never confirmed.

  \<^bold>\<open>Not modelled.\<close> Sockets, TLS, timers as durations (a timer is an event that may occur at any time
  while it is armed), the scheduling between tasks other than the order of the events, log lines, IEEE
  rounding, and the libraries behind \<open>ext\<close>, \<open>gen_sys\<close> and \<open>bench_sys\<close>. What a node sends is what it hands
  to its senders (\<open>nx_sent\<close>, \<open>client_sent\<close>), whether or not a leg then fails. The receiver, the batcher
  and the processor of the count-based mempool run to completion for one frame (\<open>legacy_receive\<close>,
  \<open>process_batch\<close>): they are connected by queues, and other interleavings only delay the announcement of a
  batch.
  View changes are not implemented in the source (their messages are ignored or panic) and the
  model has them so.
\<close>

section \<open>From the programs to the replicas\<close>

text \<open>
  A node program that comes up has started a replica of \<open>Apollo_Replica\<close>, \<open>Artemis_Replica\<close> or
  \<open>Sync_Replicas\<close> on the store it opened, so that what is proved of their runs holds of the program.
\<close>

lemma apollo_main_replica:
  assumes "apollo_main E S fs m debug = Inr r"
  obtains st where "open_store S (su_store_path (kr_setup r)) = Some st"
    "apollo_replica_start E (su_config (kr_setup r)) (pk_entries (su_config (kr_setup r))) st = Inr (ks_start (kr_mempool r) (kr_cx r))"
  using assms by (fastforce simp: apollo_main_def apollo_replica_start_def expect_def Let_def split: option.splits)

lemma artemis_main_replica:
  assumes "artemis_main E S fs m debug = Inr r"
  obtains st where "open_store S (su_store_path (kr_setup r)) = Some st"
    "artemis_replica_start E (su_config (kr_setup r)) (pk_entries (su_config (kr_setup r))) st = Inr (ks_start (kr_mempool r) (kr_cx r))"
  using assms by (fastforce simp: artemis_main_def artemis_replica_start_def expect_def Let_def split: option.splits)

lemma synchs_main_replica:
  assumes "synchs_main E S fs m debug = Inr r"
  obtains st where "open_store S (su_store_path (cr_setup r)) = Some st"
    "synchs_replica_start E (su_config (cr_setup r)) (pk_entries (su_config (cr_setup r))) (client_ids (su_config (cr_setup r))) st =
      Inr (cr_threshold r, ct_start (cr_mempool r) (cr_cx r))"
  using assms by (fastforce simp: synchs_main_def synchs_replica_start_def expect_def Let_def split: option.splits)

lemma optsync_main_replica:
  assumes "optsync_main E S fs m debug = Inr r"
  obtains st where "open_store S (su_store_path (cr_setup r)) = Some st"
    "optsync_replica_start E (su_config (cr_setup r)) (pk_entries (su_config (cr_setup r))) (client_ids (su_config (cr_setup r))) st =
      Inr (cr_threshold r, ct_start (cr_mempool r) (cr_cx r))"
  using assms by (fastforce simp: optsync_main_def optsync_replica_start_def expect_def Let_def split: option.splits)

end
